(* ===== verification/Prelude.thy ===== *)
theory Prelude
  imports Complex_Main "HOL-Library.Word"
begin

text \<open>
  Shared material of the development: the values Python errors take in the models, the collections of
  rewrite rules the component theories fill, and the list lemmas several components use. Python integers
  are \<^typ>\<open>int\<close> where they can be negative and \<^typ>\<open>nat\<close> where the code only ever builds non-negative
  ones (lengths, positions, counters); Python floats in scheduling policies are exact rationals.
\<close>

section \<open>Collections\<close>

named_theorems slice_simps \<open>reading slices and indices of token lists\<close>
named_theorems preserved \<open>an operation keeps a component's invariant\<close>

section \<open>Errors\<close>

text \<open>An exception is a value of the left summand; the payload of a message is not modelled.\<close>

datatype py_error =
    ValueError
  | IndexError
  | KeyError
  | RuntimeError
  | AssertionError
  | TypeError
  | ZeroDivisionError
  | AttributeError
  | OSError

type_synonym 'a result = "py_error + 'a"

definition is_err :: "'a result \<Rightarrow> bool" where
  "is_err r \<longleftrightarrow> (case r of Inl _ \<Rightarrow> True | Inr _ \<Rightarrow> False)"

lemma is_err_simps [simp]:
  "is_err (Inl e)"
  "\<not> is_err (Inr x)"
  by (simp_all add: is_err_def)

lemma not_is_errE: "\<not> is_err r \<Longrightarrow> (\<And>x. r = Inr x \<Longrightarrow> P) \<Longrightarrow> P"
  by (cases r) auto

text \<open>Sequencing: the first exception ends the computation.\<close>

definition bind_r :: "'a result \<Rightarrow> ('a \<Rightarrow> 'b result) \<Rightarrow> 'b result" where
  "bind_r x f = (case x of Inl e \<Rightarrow> Inl e | Inr a \<Rightarrow> f a)"

lemma bind_r_simps [simp]:
  "bind_r (Inl e) f = Inl e"
  "bind_r (Inr x) f = f x"
  by (simp_all add: bind_r_def)

lemma bind_r_Inr_iff: "bind_r x f = Inr y \<longleftrightarrow> (\<exists>a. x = Inr a \<and> f a = Inr y)"
  by (cases x) simp_all

section \<open>Indexing\<close>

text \<open>The Python read \<open>xs[i]\<close>: a negative index counts from the end, out of range raises.\<close>

definition py_nth :: "'a list \<Rightarrow> int \<Rightarrow> 'a result" where
  "py_nth xs i =
     (if 0 \<le> i
      then (if nat i < length xs then Inr (xs ! nat i) else Inl IndexError)
      else (if nat (- i) \<le> length xs then Inr (xs ! (length xs - nat (- i))) else Inl IndexError))"

lemma py_nth_in: "0 \<le> i \<Longrightarrow> i < int (length xs) \<Longrightarrow> py_nth xs i = Inr (xs ! nat i)"
  by (simp add: py_nth_def nat_less_iff)

text \<open>A comprehension whose body may raise.\<close>

fun map_r :: "('a \<Rightarrow> 'b result) \<Rightarrow> 'a list \<Rightarrow> 'b list result" where
  "map_r f [] = Inr []"
| "map_r f (x # xs) = bind_r (f x) (\<lambda>y. bind_r (map_r f xs) (\<lambda>ys. Inr (y # ys)))"

lemma map_r_Inr_iff: "map_r f xs = Inr ys \<longleftrightarrow> length ys = length xs \<and> (\<forall>i<length xs. f (xs ! i) = Inr (ys ! i))"
proof (induction xs arbitrary: ys)
  case Nil
  then show ?case by auto
next
  case (Cons x xs)
  show ?case
  proof (cases ys)
    case Nil
    then show ?thesis by (auto simp: bind_r_Inr_iff)
  next
    case (Cons y ys')
    then show ?thesis using Cons.IH [of ys'] by (auto simp: bind_r_Inr_iff less_Suc_eq_0_disj)
  qed
qed

section \<open>Slices\<close>

text \<open>The Python slice \<open>xs[a:b]\<close> for \<open>0 \<le> a\<close> and \<open>0 \<le> b\<close>: empty when \<open>b \<le> a\<close>, cut at the end of the list.\<close>

definition py_slice :: "'a list \<Rightarrow> nat \<Rightarrow> nat \<Rightarrow> 'a list" where
  "py_slice xs a b = take (b - a) (drop a xs)"

lemma length_py_slice [slice_simps]: "length (py_slice xs a b) = min b (length xs) - a"
  by (auto simp: py_slice_def)

lemma nth_py_slice [slice_simps]: "j < b - a \<Longrightarrow> b \<le> length xs \<Longrightarrow> py_slice xs a b ! j = xs ! (a + j)"
  by (simp add: py_slice_def)

lemma py_slice_append_left: "b \<le> length xs \<Longrightarrow> py_slice (xs @ ys) a b = py_slice xs a b"
  by (cases "a \<le> length xs") (auto simp: py_slice_def)

lemma py_slice_same [simp]: "py_slice xs a a = []"
  by (simp add: py_slice_def)

lemma py_slice_full: "py_slice xs 0 (length xs) = xs"
  by (simp add: py_slice_def)

lemma py_slice_eq_iff:
  assumes "b \<le> length xs" and "d \<le> length ys" and "b - a = d - c"
  shows "py_slice xs a b = py_slice ys c d \<longleftrightarrow> (\<forall>j<b - a. xs ! (a + j) = ys ! (c + j))"
proof -
  have "length (py_slice xs a b) = b - a" and "length (py_slice ys c d) = b - a"
    using assms by (auto simp: slice_simps)
  then show ?thesis
    using assms by (auto simp: list_eq_iff_nth_eq nth_py_slice)
qed

lemma py_slice_snoc:
  "a \<le> b \<Longrightarrow> b < length xs \<Longrightarrow> py_slice xs a (Suc b) = py_slice xs a b @ [xs ! b]"
  by (simp add: py_slice_def Suc_diff_le take_Suc_conv_app_nth)

lemma py_slice_Cons:
  assumes "a < b" and "a < length xs"
  shows "py_slice xs a b = xs ! a # py_slice xs (Suc a) b"
proof -
  from assms(1) have d: "b - a = Suc (b - Suc a)" by arith
  from assms(2) have dr: "drop a xs = xs ! a # drop (Suc a) xs"
    by (rule Cons_nth_drop_Suc [symmetric])
  show ?thesis by (simp add: py_slice_def d dr)
qed

section \<open>Sorted lists\<close>

lemma sorted_le_last: "sorted xs \<Longrightarrow> x \<in> set xs \<Longrightarrow> x \<le> last (xs :: 'a :: linorder list)"
  by (induction xs) (auto intro: order_trans)

section \<open>Rounding up\<close>

text \<open>Ceiling division of non-negative integers, in the two spellings the sources use.\<close>

definition cdiv :: "nat \<Rightarrow> nat \<Rightarrow> nat" where
  "cdiv a b = (a + b - 1) div b"

lemma cdiv_ge: "0 < b \<Longrightarrow> a \<le> cdiv a b * b"
proof -
  assume b: "0 < b"
  have "(a + b - 1) mod b < b" using b by simp
  moreover have "(a + b - 1) = cdiv a b * b + (a + b - 1) mod b"
    by (simp add: cdiv_def)
  ultimately show ?thesis using b by linarith
qed

lemma cdiv_less: "0 < b \<Longrightarrow> cdiv a b * b < a + b"
proof -
  assume b: "0 < b"
  have "cdiv a b * b \<le> a + b - 1" by (simp add: cdiv_def)
  then show ?thesis using b by linarith
qed

lemma cdiv_mult: "0 < b \<Longrightarrow> cdiv (k * b) b = k"
proof -
  assume b: "0 < b"
  have eq: "k * b + b - 1 = (b - 1) + k * b" using b by simp
  have "cdiv (k * b) b = ((b - 1) + k * b) div b"
    unfolding cdiv_def eq ..
  then show ?thesis using b by (simp only: div_mult_self1 [of b "b - 1" k]) simp
qed

text \<open>The smallest power of two that is not below, with fuel: block sizes of kernels.\<close>

fun next_pow2 :: "nat \<Rightarrow> nat \<Rightarrow> nat" where
  "next_pow2 0 n = 1"
| "next_pow2 (Suc f) n = (let p = next_pow2 f n in if p < n then 2 * p else p)"

lemma next_pow2_min: "min n (2 ^ f) \<le> next_pow2 f n"
  by (induction f) (auto simp: Let_def min_def split: if_splits)

lemma next_pow2_ge: "n \<le> next_pow2 n n"
  using next_pow2_min [of n n] less_exp [of n] by (simp add: min_def split: if_splits)

lemma upt_tiles: "concat (map (\<lambda>p. map (\<lambda>i. p * b + i) [0..<b]) [0..<n]) = [0..<n * b]"
proof (induction n)
  case (Suc n)
  have "map (\<lambda>i. n * b + i) [0..<b] = [n * b..<n * b + b]" by (rule nth_equalityI) simp_all
  then show ?case using Suc upt_add_eq_append [of 0 "n * b" b] by (simp add: add.commute)
qed simp

lemma fold_tiles:
  "fold (\<lambda>p. fold (\<lambda>i. f (p * b + i)) [0..<b]) [0..<n] st = fold f [0..<n * b] st"
proof -
  have "fold (\<lambda>p. fold (\<lambda>i. f (p * b + i)) [0..<b]) ps st = fold f (concat (map (\<lambda>p. map (\<lambda>i. p * b + i) [0..<b]) ps)) st" for ps
    by (induction ps arbitrary: st) (simp_all add: fold_map o_def)
  then show ?thesis by (simp add: upt_tiles)
qed

text \<open>Lists of rows of one length.\<close>

lemma nth_concat_uniform:
  "\<forall>x\<in>set xss. length x = m \<Longrightarrow> j < length xss * m \<Longrightarrow> concat xss ! j = xss ! (j div m) ! (j mod m)"
proof (induction xss arbitrary: j)
  case (Cons x xss)
  have m: "0 < m" using Cons.prems(2) by (cases m) auto
  show ?case
  proof (cases "j < m")
    case True
    then show ?thesis using Cons.prems(1) by (simp add: nth_append)
  next
    case False
    then have "concat xss ! (j - m) = xss ! ((j - m) div m) ! ((j - m) mod m)" using Cons.prems by (intro Cons.IH) auto
    moreover have "j div m = Suc ((j - m) div m)" "(j - m) mod m = j mod m" using False m by (simp_all add: le_div_geq le_mod_geq)
    ultimately show ?thesis using False Cons.prems(1) by (simp add: nth_append)
  qed
qed simp

lemma length_concat_uniform: "\<forall>x\<in>set xss. length x = m \<Longrightarrow> length (concat xss) = length xss * m"
  by (induction xss) auto

lemma concat_rows: "\<forall>row\<in>set rows. length row = n \<Longrightarrow> s < length rows \<Longrightarrow> b < n \<Longrightarrow> concat rows ! (s * n + b) = rows ! s ! b"
  using nth_concat_uniform [of rows n "s * n + b"] mult_le_mono1 [of "Suc s" "length rows" n] by simp

lemma concat_takes: "n * q \<le> length xs \<Longrightarrow> concat (map (\<lambda>k. take q (drop (k * q) xs)) [0..<n]) = take (n * q) xs"
proof (induction n)
  case (Suc n)
  then show ?case using take_add [of "n * q" q xs] by (simp add: add.commute)
qed simp

text \<open>Lanes that store behind a mask.\<close>

lemma fold_masked_store:
  "length (fold (\<lambda>j zs. if j < n then zs[off + j := g j] else zs) [0..<m] xs) = length xs"
  "i < length xs \<Longrightarrow> fold (\<lambda>j zs. if j < n then zs[off + j := g j] else zs) [0..<m] xs ! i =
     (if off \<le> i \<and> i < off + min n m then g (i - off) else xs ! i)"
proof (induction m)
  case (Suc m)
  {
    case 1
    then show ?case using Suc by simp
  next
    case 2
    then show ?case using Suc by (cases "i = off + m") (auto simp: nth_list_update)
  }
qed auto

end
