(* ===== verification/Lookup_Tiers.thy ===== *)
theory Lookup_Tiers
  imports Prelude "HOL-Library.AList" "HOL-Library.Product_Lexorder"
begin

text \<open>
  The n-gram keys and the frozen tiers of the context-lookup drafter (\<open>src/overlay/glm_lookup_draft.py\<close>,
  \<open>gram_key\<close> and \<open>_Tier\<close>). A key is a 64-bit word, so the mask \<open>& _M64\<close> of the source is the wrap-around of
  the word type. A tier keeps the source's two parallel arrays. \<open>_Tier.from_pairs\<close> has a numpy and a pure
  Python branch; both are modelled and shown to build the same tier.
\<close>

type_synonym token = int
type_synonym gkey = "64 word"

section \<open>Keys\<close>

definition golden :: gkey where
  "golden = 0x9E3779B97F4A7C15"

definition mix :: "gkey \<Rightarrow> token \<Rightarrow> gkey" where
  "mix h t = h * golden + of_int t + 1"

definition gram_key :: "token list \<Rightarrow> gkey" where
  "gram_key gram = foldl mix 0 (rev gram)"

lemma gram_key_Nil [simp]: "gram_key [] = 0"
  by (simp add: gram_key_def)

lemma gram_key_Cons: "gram_key (t # ts) = mix (gram_key ts) t"
  by (simp add: gram_key_def)

section \<open>Tiers\<close>

record tier =
  tkeys :: "gkey list"
  tpos :: "nat list"

definition tier_len :: "tier \<Rightarrow> nat" where
  "tier_len t = length (tkeys t)"

definition tier_pairs :: "tier \<Rightarrow> (gkey \<times> nat) list" where
  "tier_pairs t = zip (tkeys t) (tpos t)"

definition mk_tier :: "(gkey \<times> nat) list \<Rightarrow> tier" where
  "mk_tier kp = \<lparr>tkeys = map fst kp, tpos = map snd kp\<rparr>"

text \<open>The numpy branch: order by (key, position), keep the last entry of every run of equal keys.\<close>

fun last_of_runs :: "(gkey \<times> nat) list \<Rightarrow> (gkey \<times> nat) list" where
  "last_of_runs [] = []"
| "last_of_runs [x] = [x]"
| "last_of_runs (x # y # r) =
     (if fst x = fst y then last_of_runs (y # r) else x # last_of_runs (y # r))"

definition np_pairs :: "(gkey \<times> nat) list \<Rightarrow> (gkey \<times> nat) list" where
  "np_pairs kp = last_of_runs (sort kp)"

text \<open>The pure Python branch: \<open>best.get(kk, -1)\<close> over a dict, then \<open>sorted(best.items())\<close>.\<close>

definition keep_best :: "(gkey \<times> nat) list \<Rightarrow> gkey \<times> nat \<Rightarrow> (gkey \<times> nat) list" where
  "keep_best best kp =
     (case map_of best (fst kp) of
        None \<Rightarrow> AList.update (fst kp) (snd kp) best
      | Some q \<Rightarrow> if q < snd kp then AList.update (fst kp) (snd kp) best else best)"

definition py_pairs :: "(gkey \<times> nat) list \<Rightarrow> (gkey \<times> nat) list" where
  "py_pairs kp = sort (foldl keep_best [] kp)"

definition tier_from_pairs :: "bool \<Rightarrow> gkey list \<Rightarrow> nat list \<Rightarrow> tier" where
  "tier_from_pairs np ks ps = mk_tier (if np then np_pairs (zip ks ps) else py_pairs (zip ks ps))"

definition tier_from_dict :: "bool \<Rightarrow> (gkey \<times> nat) list \<Rightarrow> tier" where
  "tier_from_dict np d = tier_from_pairs np (map fst d) (map snd d)"

definition tier_merged :: "bool \<Rightarrow> tier \<Rightarrow> tier \<Rightarrow> tier" where
  "tier_merged np a b = tier_from_pairs np (tkeys a @ tkeys b) (tpos a @ tpos b)"

text \<open>\<open>bisect.bisect_left\<close> and \<open>np.searchsorted\<close> on an ascending array.\<close>

definition bisect_left :: "gkey list \<Rightarrow> gkey \<Rightarrow> nat" where
  "bisect_left ks k = length (takeWhile (\<lambda>x. x < k) ks)"

definition tier_get :: "tier \<Rightarrow> gkey \<Rightarrow> nat option" where
  "tier_get t k =
     (let i = bisect_left (tkeys t) k
      in if i < length (tkeys t) \<and> tkeys t ! i = k then Some (tpos t ! i) else None)"

definition tier_ok :: "tier \<Rightarrow> bool" where
  "tier_ok t \<longleftrightarrow> length (tkeys t) = length (tpos t) \<and> sorted_wrt (<) (tkeys t)"

section \<open>What a tier must hold: the largest position of every key\<close>

definition best_set :: "(gkey \<times> nat) list \<Rightarrow> (gkey \<times> nat) set" where
  "best_set xs = {(k, p). (k, p) \<in> set xs \<and> (\<forall>q. (k, q) \<in> set xs \<longrightarrow> q \<le> p)}"

lemma best_set_Nil [simp]: "best_set [] = {}"
  by (simp add: best_set_def)

lemma best_set_unique: "(k, p) \<in> best_set xs \<Longrightarrow> (k, q) \<in> best_set xs \<Longrightarrow> p = q"
  by (auto simp: best_set_def intro: antisym)

lemma best_set_cong: "set xs = set ys \<Longrightarrow> best_set xs = best_set ys"
  by (simp add: best_set_def)

lemma best_set_exists:
  assumes "(k, p) \<in> set xs"
  shows "\<exists>q. (k, q) \<in> best_set xs"
proof -
  let ?P = "{q. (k, q) \<in> set xs}"
  have "?P = snd ` {x \<in> set xs. fst x = k}" by force
  then have fin: "finite ?P" by simp
  moreover have "?P \<noteq> {}" using assms by blast
  ultimately have "Max ?P \<in> ?P" by (rule Max_in)
  moreover have "q \<le> Max ?P" if "(k, q) \<in> set xs" for q using fin that by simp
  ultimately show ?thesis unfolding best_set_def by blast
qed

lemma set_last_of_runs: "sorted xs \<Longrightarrow> set (last_of_runs xs) = best_set xs"
proof (induction xs rule: last_of_runs.induct)
  case 1
  then show ?case by simp
next
  case (2 x)
  then show ?case by (cases x) (auto simp: best_set_def)
next
  case (3 x y r)
  obtain k p where x: "x = (k, p)" by (cases x)
  obtain k' p' where y: "y = (k', p')" by (cases y)
  from 3 have srt: "sorted (y # r)" by simp
  from 3(3) have le: "\<And>z. z \<in> set (y # r) \<Longrightarrow> x \<le> z" by auto
  show ?case
  proof (cases "k = k'")
    case True
    with le [of y] x y have "p \<le> p'" by (auto simp: less_eq_prod_def)
    then have "best_set (x # y # r) = best_set (y # r)"
      using True x y by (auto simp: best_set_def intro: le_trans)
    with 3(1) [OF _ srt] True x y show ?thesis by simp
  next
    case False
    have "k \<noteq> fst z" if "z \<in> set (y # r)" for z
    proof -
      have "y \<le> z" using that srt by auto
      with le [of y] x y False show ?thesis by (auto simp: less_eq_prod_def)
    qed
    then have notin: "(k, q) \<notin> set (y # r)" for q by fastforce
    have "best_set (x # ys) = insert x (best_set ys)" if "\<And>q. (k, q) \<notin> set ys" for ys
      using that x by (auto simp: best_set_def)
    from this [OF notin] have "best_set (x # y # r) = insert x (best_set (y # r))" .
    with 3(2) [OF _ srt] False x y show ?thesis by simp
  qed
qed

lemma last_of_runs_subset: "set (last_of_runs xs) \<subseteq> set xs"
  by (induction xs rule: last_of_runs.induct) auto

lemma sorted_fst_last_of_runs:
  "sorted xs \<Longrightarrow> sorted_wrt (\<lambda>a b. fst a < fst b) (last_of_runs xs)"
proof (induction xs rule: last_of_runs.induct)
  case (3 x y r)
  from 3 have srt: "sorted (y # r)" by simp
  show ?case
  proof (cases "fst x = fst y")
    case True
    with 3(1) [OF True srt] show ?thesis by simp
  next
    case False
    have "fst x < fst z" if "z \<in> set (last_of_runs (y # r))" for z
    proof -
      from that have "z \<in> set (y # r)" using last_of_runs_subset by blast
      then have "y \<le> z" using srt by auto
      moreover have "x \<le> y" using 3(3) by simp
      ultimately show ?thesis using False
        by (cases x; cases y; cases z) (auto simp: less_eq_prod_def)
    qed
    with 3(2) [OF False srt] False show ?thesis by simp
  qed
qed simp_all

lemma keep_best_step:
  assumes d: "distinct (map fst best)" and s: "set best = best_set xs"
  shows "distinct (map fst (keep_best best x)) \<and> set (keep_best best x) = best_set (xs @ [x])"
proof -
  obtain k p where x: "x = (k, p)" by (cases x)
  have mem: "map_of best k = Some q \<longleftrightarrow> (k, q) \<in> best_set xs" for q
    using d s by (metis map_of_eq_Some_iff)
  have du: "distinct (map fst (AList.update k p best))"
    using d by (rule distinct_update)
  have "(a, b) \<in> set (AList.update k p best) \<longleftrightarrow> (a, b) \<in> {z \<in> set best. fst z \<noteq> k} \<union> {(k, p)}" for a b
  proof -
    have "(a, b) \<in> set (AList.update k p best) \<longleftrightarrow> map_of (AList.update k p best) a = Some b"
      using du by simp
    also have "\<dots> \<longleftrightarrow> (if a = k then b = p else map_of best a = Some b)"
      by (auto simp: update_conv')
    also have "\<dots> \<longleftrightarrow> (a, b) \<in> {z \<in> set best. fst z \<noteq> k} \<union> {(k, p)}"
      using d by auto
    finally show ?thesis .
  qed
  then have upd: "set (AList.update k p best) = {z \<in> set best. fst z \<noteq> k} \<union> {(k, p)}"
    by (intro set_eqI) (simp only: split_paired_all)
  show ?thesis
  proof (cases "map_of best k")
    case None
    then have nokey: "(k, q) \<notin> set xs" for q
      using mem best_set_exists by fastforce
    then have "best_set (xs @ [x]) = insert (k, p) (best_set xs)"
      using x by (auto simp: best_set_def)
    moreover have "{z \<in> set best. fst z \<noteq> k} = set best"
      using nokey s by (auto simp: best_set_def)
    ultimately show ?thesis using None du upd s x by (simp add: keep_best_def)
  next
    case (Some q)
    then have q: "(k, q) \<in> best_set xs" using mem by blast
    show ?thesis
    proof (cases "q < p")
      case True
      have "best_set (xs @ [x]) = {z \<in> best_set xs. fst z \<noteq> k} \<union> {(k, p)}"
        using q True x by (force simp: best_set_def)
      then show ?thesis using Some True du upd s x by (simp add: keep_best_def)
    next
      case False
      have "best_set (xs @ [x]) = best_set xs"
        using q False x by (auto simp: best_set_def)
      then show ?thesis using Some False d s x by (simp add: keep_best_def)
    qed
  qed
qed

lemma foldl_keep_best:
  "distinct (map fst (foldl keep_best [] xs)) \<and> set (foldl keep_best [] xs) = best_set xs"
proof (induction xs rule: rev_induct)
  case Nil
  then show ?case by simp
next
  case (snoc x xs)
  then show ?case using keep_best_step [of "foldl keep_best [] xs" xs x] by simp
qed

lemma sorted_fst_of_distinct:
  "sorted (xs :: (gkey \<times> nat) list) \<Longrightarrow> distinct (map fst xs) \<Longrightarrow> sorted_wrt (\<lambda>a b. fst a < fst b) xs"
proof (induction xs)
  case (Cons x xs)
  have "fst x < fst z" if "z \<in> set xs" for z
  proof -
    have "x \<le> z" and "fst x \<noteq> fst z" using that Cons.prems by auto
    then show ?thesis by (cases x; cases z) (auto simp: less_eq_prod_def)
  qed
  with Cons show ?case by simp
qed simp

lemma np_pairs_props:
  "set (np_pairs xs) = best_set xs"
  "sorted_wrt (\<lambda>a b. fst a < fst b) (np_pairs xs)"
  using set_last_of_runs [of "sort xs"] sorted_fst_last_of_runs [of "sort xs"]
  by (simp_all add: np_pairs_def best_set_cong [of "sort xs" xs])

lemma py_pairs_props:
  "set (py_pairs xs) = best_set xs"
  "sorted_wrt (\<lambda>a b. fst a < fst b) (py_pairs xs)"
proof -
  have d: "distinct (map fst (py_pairs xs))"
    using conjunct1 [OF foldl_keep_best [of xs]] by (simp add: py_pairs_def distinct_map)
  show "set (py_pairs xs) = best_set xs"
    using foldl_keep_best [of xs] by (simp add: py_pairs_def)
  show "sorted_wrt (\<lambda>a b. fst a < fst b) (py_pairs xs)"
    using d by (intro sorted_fst_of_distinct) (simp_all add: py_pairs_def)
qed

lemma strict_fst_imp_strict:
  "sorted_wrt (\<lambda>a b. fst a < fst b) (xs :: (gkey \<times> nat) list) \<Longrightarrow> sorted_wrt (<) xs"
proof (rule sorted_wrt_mono_rel)
  fix x y :: "gkey \<times> nat"
  assume "fst x < fst y"
  then show "x < y" by (simp add: less_prod_def)
qed

lemma pairs_unique:
  assumes "sorted_wrt (\<lambda>a b. fst a < fst b) (xs :: (gkey \<times> nat) list)"
    and "sorted_wrt (\<lambda>a b. fst a < fst b) ys" and "set xs = set ys"
  shows "xs = ys"
  using assms by (intro strict_sorted_equal strict_fst_imp_strict) auto

text \<open>The two branches of \<open>from_pairs\<close> agree.\<close>

lemma np_pairs_eq_py_pairs: "np_pairs xs = py_pairs xs"
  by (rule pairs_unique) (simp_all add: np_pairs_props py_pairs_props)

lemma tier_from_pairs_eq: "tier_from_pairs np ks ps = mk_tier (np_pairs (zip ks ps))"
  by (simp add: tier_from_pairs_def np_pairs_eq_py_pairs)

section \<open>Lookups in a tier\<close>

lemma tier_pairs_mk [simp]: "tier_pairs (mk_tier kp) = kp"
  by (simp add: tier_pairs_def mk_tier_def zip_map_fst_snd)

lemma tier_ok_mk: "sorted_wrt (\<lambda>a b. fst a < fst b) kp \<Longrightarrow> tier_ok (mk_tier kp)"
  by (simp add: tier_ok_def mk_tier_def sorted_wrt_map)

lemma tier_ok_from_pairs [simp, intro]: "tier_ok (tier_from_pairs np ks ps)"
  unfolding tier_from_pairs_eq by (rule tier_ok_mk) (rule np_pairs_props)

lemma tier_ok_from_dict [simp, intro]: "tier_ok (tier_from_dict np d)"
  by (simp add: tier_from_dict_def)

lemma tier_ok_merged [simp, intro]: "tier_ok (tier_merged np a b)"
  by (simp add: tier_merged_def)

lemma distinct_tier_pairs: "tier_ok t \<Longrightarrow> distinct (map fst (tier_pairs t))"
  by (simp add: tier_ok_def tier_pairs_def strict_sorted_iff)

lemma set_tier_from_pairs: "set (tier_pairs (tier_from_pairs np ks ps)) = best_set (zip ks ps)"
  by (simp add: tier_from_pairs_eq np_pairs_props)

lemma bisect_left_mem:
  "sorted_wrt (<) ks \<Longrightarrow> k \<in> set ks \<Longrightarrow> bisect_left ks k < length ks \<and> ks ! bisect_left ks k = k"
proof (induction ks)
  case (Cons x xs)
  show ?case
  proof (cases "x < k")
    case True
    then have "k \<in> set xs" using Cons.prems by auto
    with Cons True show ?thesis by (simp add: bisect_left_def)
  next
    case False
    with Cons.prems have "x = k" by auto
    then show ?thesis by (simp add: bisect_left_def)
  qed
qed simp

lemma map_of_zip_nth:
  "length ks = length ps \<Longrightarrow> distinct ks \<Longrightarrow> i < length ks \<Longrightarrow> map_of (zip ks ps) (ks ! i) = Some (ps ! i)"
  by (simp add: map_of_zip_nth)

lemma tier_get_map_of:
  assumes "tier_ok t"
  shows "tier_get t k = map_of (tier_pairs t) k"
proof (cases "k \<in> set (tkeys t)")
  case True
  let ?i = "bisect_left (tkeys t) k"
  from assms True have i: "?i < length (tkeys t)" "tkeys t ! ?i = k"
    using bisect_left_mem unfolding tier_ok_def by blast+
  have "map_of (tier_pairs t) (tkeys t ! ?i) = Some (tpos t ! ?i)"
    unfolding tier_pairs_def
    using assms i by (intro map_of_zip_nth) (auto simp: tier_ok_def strict_sorted_iff)
  then show ?thesis using i by (simp add: tier_get_def)
next
  case False
  then have "map_of (tier_pairs t) k = None"
    using assms by (simp add: tier_pairs_def tier_ok_def map_of_zip_is_None)
  moreover have "tier_get t k = None"
    using False nth_mem unfolding tier_get_def Let_def by fastforce
  ultimately show ?thesis by simp
qed

lemma map_of_best:
  assumes "distinct (map fst xs)" and "set xs = best_set ys"
  shows "map_of xs k = Some p \<longleftrightarrow> (k, p) \<in> best_set ys"
  using assms by (metis map_of_eq_Some_iff)

lemma tier_get_from_pairs:
  "tier_get (tier_from_pairs np ks ps) k = Some p \<longleftrightarrow> (k, p) \<in> best_set (zip ks ps)"
  by (simp add: tier_get_map_of map_of_best distinct_tier_pairs set_tier_from_pairs)

lemma map_of_from_dict:
  assumes "distinct (map fst d)"
  shows "map_of (tier_pairs (tier_from_dict np d)) = map_of d"
proof -
  have "best_set d = set d"
    using assms by (force simp: best_set_def dest: eq_key_imp_eq_value)
  then have "set (tier_pairs (tier_from_dict np d)) = set d"
    by (simp add: tier_from_dict_def set_tier_from_pairs zip_map_fst_snd)
  then show ?thesis
    using assms by (simp add: map_of_inject_set distinct_tier_pairs)
qed

lemma set_tier_merged:
  assumes "tier_ok a"
  shows "set (tier_pairs (tier_merged np a b)) = best_set (tier_pairs a @ tier_pairs b)"
proof -
  have "zip (tkeys a @ tkeys b) (tpos a @ tpos b) = tier_pairs a @ tier_pairs b"
    using assms by (simp add: tier_ok_def tier_pairs_def)
  then show ?thesis by (simp add: tier_merged_def set_tier_from_pairs)
qed

text \<open>Merging an older tier \<open>a\<close> with a newer tier \<open>b\<close> looks up like \<open>b\<close> in front of \<open>a\<close>.\<close>

lemma map_of_merged:
  assumes ok: "tier_ok a" "tier_ok b"
    and newer: "\<And>k p q. (k, p) \<in> set (tier_pairs b) \<Longrightarrow> (k, q) \<in> set (tier_pairs a) \<Longrightarrow> q < p"
  shows "map_of (tier_pairs (tier_merged np a b)) = map_of (tier_pairs b @ tier_pairs a)"
proof
  fix k
  let ?m = "tier_pairs (tier_merged np a b)"
  have m: "map_of ?m k = Some p \<longleftrightarrow> (k, p) \<in> best_set (tier_pairs a @ tier_pairs b)" for p
    using ok by (intro map_of_best) (simp_all add: distinct_tier_pairs set_tier_merged)
  have ma: "map_of (tier_pairs a) k = Some p \<longleftrightarrow> (k, p) \<in> set (tier_pairs a)" for p
    using distinct_tier_pairs [OF ok(1)] by simp
  have mb: "map_of (tier_pairs b) k = Some p \<longleftrightarrow> (k, p) \<in> set (tier_pairs b)" for p
    using distinct_tier_pairs [OF ok(2)] by simp
  show "map_of ?m k = map_of (tier_pairs b @ tier_pairs a) k"
  proof (cases "map_of (tier_pairs b) k")
    case None
    then have nob: "(k, p) \<notin> set (tier_pairs b)" for p using mb [of p] by auto
    show ?thesis
    proof (cases "map_of (tier_pairs a) k")
      case None
      then have "(k, p) \<notin> set (tier_pairs a)" for p using ma [of p] by auto
      then have "map_of ?m k = None" using m nob by (cases "map_of ?m k") (auto simp: best_set_def)
      then show ?thesis using None \<open>map_of (tier_pairs b) k = None\<close> by (simp add: map_add_def)
    next
      case (Some q)
      then have qa: "(k, q) \<in> set (tier_pairs a)" using ma by blast
      have "q' \<le> q" if "(k, q') \<in> set (tier_pairs a @ tier_pairs b)" for q'
      proof -
        from that nob have "(k, q') \<in> set (tier_pairs a)" by simp
        with ma [of q'] Some show ?thesis by simp
      qed
      with qa have "(k, q) \<in> best_set (tier_pairs a @ tier_pairs b)"
        by (simp add: best_set_def)
      then have "map_of ?m k = Some q" using m by blast
      then show ?thesis using Some \<open>map_of (tier_pairs b) k = None\<close> by (simp add: map_add_def)
    qed
  next
    case (Some p)
    then have pb: "(k, p) \<in> set (tier_pairs b)" using mb by blast
    have "q \<le> p" if "(k, q) \<in> set (tier_pairs a @ tier_pairs b)" for q
    proof (cases "(k, q) \<in> set (tier_pairs b)")
      case True
      with mb [of q] Some show ?thesis by simp
    next
      case False
      with that newer [OF pb, of q] show ?thesis by simp
    qed
    with pb have "(k, p) \<in> best_set (tier_pairs a @ tier_pairs b)"
      by (simp add: best_set_def)
    then have "map_of ?m k = Some p" using m by blast
    then show ?thesis using Some by (simp add: map_add_def)
  qed
qed

end
