(* ===== verification/Lookup_Index.thy ===== *)
theory Lookup_Index
  imports Lookup_Tiers
begin

text \<open>
  The per-request index of committed tokens of the context-lookup drafter
  (\<open>src/overlay/glm_lookup_draft.py\<close>, \<open>ContextIndex\<close>): a hot dict per n-gram length in front of frozen
  tiers that are merged geometrically. The theory shows that the layered structure always answers like one
  map from a key to the latest position whose preceding n-gram has that key, whatever mix of single
  pushes, vectorised bulk loads, freezes and merges built it, and that \<open>match\<close> only ever reports real
  earlier occurrences. The tier list of the source has its newest tier last; here it is first.
\<close>

section \<open>State\<close>

record ctx_index =
  cx_np :: bool
  cx_ns :: "nat list"
  cx_hot_limit :: nat
  cx_bulk_min :: nat
  cx_tokens :: "token list"
  cx_hot :: "nat \<Rightarrow> (gkey \<times> nat) list"
  cx_hot_count :: nat
  cx_tiers :: "nat \<Rightarrow> tier list"
  cx_resets :: nat

definition cx_nmax :: "ctx_index \<Rightarrow> nat" where
  "cx_nmax s = last (cx_ns s)"

definition cx_new :: "bool \<Rightarrow> nat list \<Rightarrow> nat \<Rightarrow> nat \<Rightarrow> ctx_index" where
  "cx_new np ns hot_tokens bulk_min =
     \<lparr>cx_np = np, cx_ns = sort (remdups ns), cx_hot_limit = hot_tokens, cx_bulk_min = bulk_min,
      cx_tokens = [], cx_hot = (\<lambda>_. []), cx_hot_count = 0, cx_tiers = (\<lambda>_. []), cx_resets = 0\<rparr>"

definition cx_reset :: "ctx_index \<Rightarrow> ctx_index" where
  "cx_reset s = s\<lparr>cx_tokens := [], cx_hot := (\<lambda>_. []), cx_hot_count := 0, cx_tiers := (\<lambda>_. []),
                  cx_resets := cx_resets s + 1\<rparr>"

section \<open>Ingest\<close>

text \<open>\<open>_push_tier\<close>: the merge loop \<open>while len(ts) >= 2 and len(ts[-2]) <= 2 * len(ts[-1])\<close>.\<close>

fun merge_tiers :: "bool \<Rightarrow> tier list \<Rightarrow> tier list" where
  "merge_tiers np (b # a # ts) =
     (if tier_len a \<le> 2 * tier_len b then merge_tiers np (tier_merged np a b # ts) else b # a # ts)"
| "merge_tiers np ts = ts"

definition cx_push_tier :: "nat \<Rightarrow> tier \<Rightarrow> ctx_index \<Rightarrow> ctx_index" where
  "cx_push_tier n t s = s\<lparr>cx_tiers := (cx_tiers s)(n := merge_tiers (cx_np s) (t # cx_tiers s n))\<rparr>"

definition freeze_one :: "ctx_index \<Rightarrow> nat \<Rightarrow> ctx_index" where
  "freeze_one s n =
     (if cx_hot s n \<noteq> []
      then (cx_push_tier n (tier_from_dict (cx_np s) (cx_hot s n)) s)\<lparr>cx_hot := (cx_hot s)(n := [])\<rparr>
      else s)"

definition cx_freeze :: "ctx_index \<Rightarrow> ctx_index" where
  "cx_freeze s = (foldl freeze_one s (cx_ns s))\<lparr>cx_hot_count := 0\<rparr>"

fun push_grams ::
    "nat list \<Rightarrow> token list \<Rightarrow> nat \<Rightarrow> nat list \<Rightarrow> gkey \<Rightarrow> (nat \<Rightarrow> (gkey \<times> nat) list) \<Rightarrow> nat \<Rightarrow> (gkey \<times> nat) list"
  where
  "push_grams ns toks i [] h hot = hot"
| "push_grams ns toks i (d # ds) h hot =
     (if i < d then hot
      else let h' = mix h (toks ! (i - d))
           in push_grams ns toks i ds h' (if d \<in> set ns then hot(d := AList.update h' i (hot d)) else hot))"

definition cx_push :: "ctx_index \<Rightarrow> token \<Rightarrow> ctx_index" where
  "cx_push s t =
     (let i = length (cx_tokens s);
          toks = cx_tokens s @ [t];
          s' = s\<lparr>cx_tokens := toks,
                 cx_hot := push_grams (cx_ns s) toks i [1..<Suc (cx_nmax s)] 0 (cx_hot s),
                 cx_hot_count := Suc (cx_hot_count s)\<rparr>
      in if cx_hot_limit s \<le> cx_hot_count s' then cx_freeze s' else s')"

fun bulk_loop :: "token list \<Rightarrow> nat list \<Rightarrow> nat list \<Rightarrow> gkey list \<Rightarrow> ctx_index \<Rightarrow> ctx_index" where
  "bulk_loop toks ends [] hs s = s"
| "bulk_loop toks ends (d # ds) hs s =
     (let hs' = map2 (\<lambda>e h. mix h (toks ! (e - d))) ends hs;
          kept = filter (\<lambda>(h, e). d \<le> e) (zip hs' ends)
      in bulk_loop toks ends ds hs'
           (if d \<in> set (cx_ns s) \<and> kept \<noteq> []
            then cx_push_tier d (tier_from_pairs (cx_np s) (map fst kept) (map snd kept)) s
            else s))"

definition cx_bulk :: "ctx_index \<Rightarrow> token list \<Rightarrow> ctx_index" where
  "cx_bulk s new =
     (let i0 = length (cx_tokens s);
          toks = cx_tokens s @ new;
          i1 = length toks
      in bulk_loop toks [i0..<i1] [1..<Suc (cx_nmax s)] (replicate (i1 - i0) 0) (s\<lparr>cx_tokens := toks\<rparr>))"

definition cx_extend :: "ctx_index \<Rightarrow> token list \<Rightarrow> ctx_index" where
  "cx_extend s new =
     (if new = [] then s
      else if cx_np s \<and> cx_bulk_min s \<le> length new then cx_bulk (cx_freeze s) new
      else foldl cx_push s new)"

text \<open>\<open>sync\<close>: the three probes (last, first and middle indexed token), the reset and the budget.\<close>

definition cx_stale :: "ctx_index \<Rightarrow> token list \<Rightarrow> bool" where
  "cx_stale s src =
     (let n = length (cx_tokens s)
      in length src < n \<or>
         0 < n \<and> (src ! (n - 1) \<noteq> cx_tokens s ! (n - 1) \<or> src ! 0 \<noteq> cx_tokens s ! 0
                  \<or> src ! (n div 2) \<noteq> cx_tokens s ! (n div 2)))"

definition cx_sync :: "ctx_index \<Rightarrow> token list \<Rightarrow> int \<Rightarrow> ctx_index \<times> bool \<times> int" where
  "cx_sync s src budget =
     (let s1 = (if cx_stale s src then cx_reset s else s);
          n = length (cx_tokens s1);
          n_take = min (int (length src) - int n) (max 0 budget);
          s2 = (if 0 < n_take then cx_extend s1 (py_slice src n (n + nat n_take)) else s1)
      in (s2, length (cx_tokens s2) = length src, n_take))"

section \<open>Query\<close>

fun tiers_get :: "tier list \<Rightarrow> gkey \<Rightarrow> nat option" where
  "tiers_get [] k = None"
| "tiers_get (t # ts) k = (case tier_get t k of Some e \<Rightarrow> Some e | None \<Rightarrow> tiers_get ts k)"

definition cx_get :: "ctx_index \<Rightarrow> nat \<Rightarrow> gkey \<Rightarrow> nat option" where
  "cx_get s n k = (case map_of (cx_hot s n) k of Some e \<Rightarrow> Some e | None \<Rightarrow> tiers_get (cx_tiers s n) k)"

record gmatch =
  m_src :: nat
  m_n :: nat
  m_agree :: nat
  m_avail :: nat
  m_length :: nat

function agree_from :: "token list \<Rightarrow> nat \<Rightarrow> nat \<Rightarrow> nat \<Rightarrow> nat" where
  "agree_from toks e max_agree a =
     (if a < max_agree \<and> a + 1 \<le> e \<and> toks ! (e - 1 - a) = toks ! (length toks - 1 - a)
      then agree_from toks e max_agree (Suc a) else a)"
  by pat_completeness auto
termination
  by (relation "measure (\<lambda>(toks, e, m, a). m - a)") auto

declare agree_from.simps [simp del]

text \<open>
  \<open>match\<close> reads the index through \<open>self.get\<close> only, so its loop takes that lookup as an argument: \<open>get n k\<close> is
  the lookup, \<open>ns\<close> the indexed lengths, the list the candidate lengths in the order the loop tries them.
\<close>

fun match_loop :: "(nat \<Rightarrow> gkey \<Rightarrow> nat option) \<Rightarrow> nat list \<Rightarrow> token list \<Rightarrow> nat \<Rightarrow> nat list \<Rightarrow> gmatch option" where
  "match_loop get ns toks max_agree [] = None"
| "match_loop get ns toks max_agree (n # cands) =
     (let len = length toks
      in if n \<notin> set ns \<or> len < n + 1 then match_loop get ns toks max_agree cands
         else case get n (gram_key (py_slice toks (len - n) len)) of
             None \<Rightarrow> match_loop get ns toks max_agree cands
           | Some e \<Rightarrow>
               if len \<le> e then match_loop get ns toks max_agree cands
               else if py_slice toks (e - n) e \<noteq> py_slice toks (len - n) len
                    then match_loop get ns toks max_agree cands
               else Some \<lparr>m_src = e, m_n = n, m_agree = agree_from toks e max_agree n,
                          m_avail = len - e, m_length = len\<rparr>)"

definition cx_match :: "ctx_index \<Rightarrow> nat \<Rightarrow> nat \<Rightarrow> nat \<Rightarrow> gmatch option" where
  "cx_match s n_min n_max max_agree =
     match_loop (cx_get s) (cx_ns s) (cx_tokens s) max_agree (rev [n_min..<Suc (min n_max (cx_nmax s))])"

section \<open>The abstract index: the latest position of a key\<close>

definition occs :: "token list \<Rightarrow> nat \<Rightarrow> gkey \<Rightarrow> nat list" where
  "occs toks n k = filter (\<lambda>e. gram_key (py_slice toks (e - n) e) = k) [n..<length toks]"

definition latest :: "token list \<Rightarrow> nat \<Rightarrow> gkey \<Rightarrow> nat option" where
  "latest toks n k = (if occs toks n k = [] then None else Some (last (occs toks n k)))"

lemma latest_Nil [simp]: "latest [] n k = None"
  by (simp add: latest_def occs_def)

lemma occs_append:
  "occs (toks @ new) n k = occs toks n k @
     filter (\<lambda>e. gram_key (py_slice (toks @ new) (e - n) e) = k) [max n (length toks)..<length toks + length new]"
proof (cases "n \<le> length toks")
  case True
  then have "[n..<length (toks @ new)] = [n..<length toks] @ [length toks..<length toks + length new]"
    using upt_add_eq_append [of n "length toks" "length new"] by simp
  moreover have "filter (\<lambda>e. gram_key (py_slice (toks @ new) (e - n) e) = k) [n..<length toks] = occs toks n k"
    unfolding occs_def by (rule filter_cong) (simp_all add: py_slice_append_left)
  ultimately show ?thesis using True by (simp add: occs_def max_def)
next
  case False
  then show ?thesis by (simp add: occs_def max_def)
qed

lemma occs_snoc:
  "occs (toks @ [t]) n k = occs toks n k @
     (if n \<le> length toks \<and> gram_key (py_slice toks (length toks - n) (length toks)) = k then [length toks] else [])"
  by (auto simp: occs_append max_def py_slice_append_left)

lemma latest_snoc:
  "latest (toks @ [t]) n =
     (if n \<le> length toks
      then (latest toks n)(gram_key (py_slice toks (length toks - n) (length toks)) \<mapsto> length toks)
      else latest toks n)"
  by (rule ext) (auto simp: latest_def occs_snoc)

lemma latest_append:
  "latest (toks @ new) n k =
     (let es = filter (\<lambda>e. gram_key (py_slice (toks @ new) (e - n) e) = k)
                 [max n (length toks)..<length toks + length new]
      in if es = [] then latest toks n k else Some (last es))"
  by (simp add: latest_def occs_append Let_def)

lemma latest_SomeD:
  assumes "latest toks n k = Some e"
  shows "n \<le> e" "e < length toks" "gram_key (py_slice toks (e - n) e) = k"
    "\<And>e'. e < e' \<Longrightarrow> e' < length toks \<Longrightarrow> gram_key (py_slice toks (e' - n) e') \<noteq> k"
proof -
  from assms have ne: "occs toks n k \<noteq> []" and e: "e = last (occs toks n k)"
    by (auto simp: latest_def split: if_splits)
  from last_in_set [OF ne] e have mem: "e \<in> set (occs toks n k)" by simp
  then show n: "n \<le> e" and "e < length toks" and "gram_key (py_slice toks (e - n) e) = k"
    by (auto simp: occs_def)
  have srt: "sorted (occs toks n k)"
    by (simp add: occs_def sorted_wrt_filter sorted_upt)
  fix e' assume e': "e < e'" "e' < length toks"
  show "gram_key (py_slice toks (e' - n) e') \<noteq> k"
  proof
    assume "gram_key (py_slice toks (e' - n) e') = k"
    then have "e' \<in> set (occs toks n k)" using e' n by (simp add: occs_def)
    then have "e' \<le> last (occs toks n k)"
      using srt by (intro sorted_le_last)
    with e e' show False by simp
  qed
qed

lemma latest_NoneD:
  "latest toks n k = None \<Longrightarrow> n \<le> e \<Longrightarrow> e < length toks \<Longrightarrow> gram_key (py_slice toks (e - n) e) \<noteq> k"
  by (auto simp: latest_def occs_def filter_empty_conv split: if_splits)

section \<open>Layers\<close>

text \<open>
  For one n-gram length the index is a stack of association lists, the hot dict in front of the tiers. The
  stack is well formed when every layer has distinct keys, every position of a newer layer is larger than
  every position of an older one, and reading the stack front to back is the abstract index.
\<close>

definition newer :: "(gkey \<times> nat) list \<Rightarrow> (gkey \<times> nat) list \<Rightarrow> bool" where
  "newer xs ys \<longleftrightarrow> (\<forall>x\<in>set xs. \<forall>y\<in>set ys. snd y < snd x)"

definition lay_ok :: "token list \<Rightarrow> nat \<Rightarrow> (gkey \<times> nat) list list \<Rightarrow> bool" where
  "lay_ok toks n ls \<longleftrightarrow>
     map_of (concat ls) = latest toks n \<and> sorted_wrt newer ls \<and>
     (\<forall>l\<in>set ls. distinct (map fst l) \<and> (\<forall>x\<in>set l. snd x < length toks))"

definition layers :: "ctx_index \<Rightarrow> nat \<Rightarrow> (gkey \<times> nat) list list" where
  "layers s n = cx_hot s n # map tier_pairs (cx_tiers s n)"

definition cx_inv :: "ctx_index \<Rightarrow> bool" where
  "cx_inv s \<longleftrightarrow>
     cx_ns s \<noteq> [] \<and> sorted (cx_ns s) \<and> distinct (cx_ns s) \<and> 0 \<notin> set (cx_ns s) \<and>
     (\<forall>n\<in>set (cx_ns s). lay_ok (cx_tokens s) n (layers s n) \<and> (\<forall>t\<in>set (cx_tiers s n). tier_ok t))"

lemma newer_subset: "newer xs ys \<Longrightarrow> set xs' \<subseteq> set xs \<Longrightarrow> set ys' \<subseteq> set ys \<Longrightarrow> newer xs' ys'"
  unfolding newer_def by blast

lemma newer_Nil [simp]: "newer [] ys" "newer xs []"
  by (simp_all add: newer_def)

lemma newer_concat: "newer xs (concat ls) \<longleftrightarrow> (\<forall>l\<in>set ls. newer xs l)"
  by (auto simp: newer_def)

lemma tiers_get_map_of:
  "\<forall>t\<in>set ts. tier_ok t \<Longrightarrow> tiers_get ts k = map_of (concat (map tier_pairs ts)) k"
  by (induction ts) (auto simp: tier_get_map_of map_add_def split: option.splits)

lemma cx_get_layers:
  "\<forall>t\<in>set (cx_tiers s n). tier_ok t \<Longrightarrow> cx_get s n k = map_of (concat (layers s n)) k"
  by (auto simp: cx_get_def layers_def tiers_get_map_of map_add_def split: option.splits)

lemma cx_get_latest: "cx_inv s \<Longrightarrow> n \<in> set (cx_ns s) \<Longrightarrow> cx_get s n k = latest (cx_tokens s) n k"
  by (simp add: cx_inv_def lay_ok_def cx_get_layers)

lemma newer_in_set: "newer xs ys \<Longrightarrow> (k, p) \<in> set xs \<Longrightarrow> (k', q) \<in> set ys \<Longrightarrow> q < p"
  unfolding newer_def by force

lemma set_merged_subset:
  "tier_ok a \<Longrightarrow> set (tier_pairs (tier_merged np a b)) \<subseteq> set (tier_pairs a) \<union> set (tier_pairs b)"
  by (auto simp: set_tier_merged best_set_def)

lemma merge_tiers_props:
  assumes "\<forall>t\<in>set ts. tier_ok t" and "sorted_wrt newer (map tier_pairs ts)"
  shows "(\<forall>t\<in>set (merge_tiers np ts). tier_ok t)
       \<and> sorted_wrt newer (map tier_pairs (merge_tiers np ts))
       \<and> map_of (concat (map tier_pairs (merge_tiers np ts))) = map_of (concat (map tier_pairs ts))
       \<and> set (concat (map tier_pairs (merge_tiers np ts))) \<subseteq> set (concat (map tier_pairs ts))"
  using assms
proof (induction np ts rule: merge_tiers.induct)
  case (1 np b a ts)
  show ?case
  proof (cases "tier_len a \<le> 2 * tier_len b")
    case True
    let ?m = "tier_merged np a b"
    from 1(2) have ok: "tier_ok a" "tier_ok b" "\<forall>t\<in>set ts. tier_ok t" by auto
    from 1(3) have nw: "newer (tier_pairs b) (tier_pairs a)"
      and ba: "\<forall>t\<in>set ts. newer (tier_pairs b) (tier_pairs t)" "\<forall>t\<in>set ts. newer (tier_pairs a) (tier_pairs t)"
      and srt: "sorted_wrt newer (map tier_pairs ts)" by auto
    have sub: "set (tier_pairs ?m) \<subseteq> set (tier_pairs a) \<union> set (tier_pairs b)"
      by (rule set_merged_subset [OF ok(1)])
    have m: "map_of (tier_pairs ?m) = map_of (tier_pairs b @ tier_pairs a)"
      by (rule map_of_merged [OF ok(1,2)]) (rule newer_in_set [OF nw])
    have "newer (tier_pairs ?m) (tier_pairs t)" if "t \<in> set ts" for t
      using ba that sub unfolding newer_def by blast
    then have "sorted_wrt newer (map tier_pairs (?m # ts))" using srt by simp
    moreover have "\<forall>t\<in>set (?m # ts). tier_ok t" using ok by simp
    ultimately have IH:
       "\<forall>t\<in>set (merge_tiers np (?m # ts)). tier_ok t"
       "sorted_wrt newer (map tier_pairs (merge_tiers np (?m # ts)))"
       "map_of (concat (map tier_pairs (merge_tiers np (?m # ts)))) = map_of (concat (map tier_pairs (?m # ts)))"
       "set (concat (map tier_pairs (merge_tiers np (?m # ts)))) \<subseteq> set (concat (map tier_pairs (?m # ts)))"
      using 1(1) [OF True] by blast+
    have eqm: "map_of (concat (map tier_pairs (?m # ts))) = map_of (concat (map tier_pairs (b # a # ts)))"
      using m by (simp add: map_add_assoc)
    have subs: "set (concat (map tier_pairs (?m # ts))) \<subseteq> set (concat (map tier_pairs (b # a # ts)))"
      using sub by auto
    have eqc: "merge_tiers np (b # a # ts) = merge_tiers np (?m # ts)" using True by simp
    show ?thesis
      unfolding eqc using IH(1,2) IH(3) [unfolded eqm] subset_trans [OF IH(4) subs] by blast
  next
    case False
    with 1 show ?thesis by simp
  qed
qed simp_all

text \<open>Pushing a tier in front of a well-formed stack whose hot dict is empty.\<close>

lemma lay_ok_merge_tiers:
  assumes ok: "\<forall>t\<in>set ts. tier_ok t" and lay: "lay_ok toks n ([] # map tier_pairs ts)"
  shows "lay_ok toks n ([] # map tier_pairs (merge_tiers np ts)) \<and> (\<forall>t\<in>set (merge_tiers np ts). tier_ok t)"
proof -
  from lay have srt: "sorted_wrt newer (map tier_pairs ts)"
    and bound: "\<forall>x\<in>set (concat (map tier_pairs ts)). snd x < length toks"
    and mp: "map_of (concat (map tier_pairs ts)) = latest toks n"
    by (auto simp: lay_ok_def)
  note c = merge_tiers_props [OF ok srt, of np]
  then have "\<forall>x\<in>set (concat (map tier_pairs (merge_tiers np ts))). snd x < length toks"
    using bound by blast
  moreover have "\<forall>t\<in>set (merge_tiers np ts). distinct (map fst (tier_pairs t))"
    using c distinct_tier_pairs by blast
  ultimately show ?thesis
    using c mp by (auto simp: lay_ok_def)
qed

end
