(* ===== verification/Lookup_Ingest.thy ===== *)
theory Lookup_Ingest
  imports Lookup_Index
begin

text \<open>
  Every way of adding tokens keeps the index well formed: freezing the hot dict into tiers, the
  per-token push, the vectorised bulk load and \<open>sync\<close>. The facts here are about the stack of layers of one
  n-gram length (\<open>lay_ok\<close>) first, and are then lifted to the state.
\<close>

declare upt_Suc [simp del]

section \<open>One stack of layers\<close>

lemma set_update_subset: "set (AList.update k v al) \<subseteq> insert (k, v) (set al)"
  by (induction al) auto

lemma lay_ok_Nil: "lay_ok [] n ([] # [])"
  by (auto simp: lay_ok_def)

lemma lay_ok_freeze:
  assumes lay: "lay_ok toks n (h # ls)" and eq: "map_of h' = map_of h" and d: "distinct (map fst h')"
  shows "lay_ok toks n ([] # h' # ls)"
proof -
  from lay have "distinct (map fst h)" by (simp add: lay_ok_def)
  with d eq have s: "set h' = set h" by (simp add: map_of_inject_set)
  have "newer h' l" if "l \<in> set ls" for l
    using lay that s by (auto simp: lay_ok_def newer_def)
  with lay s d eq show ?thesis by (auto simp: lay_ok_def)
qed

lemma lay_ok_push:
  assumes lay: "lay_ok toks n (h # ls)"
    and h': "h' = (if n \<le> length toks
                   then AList.update (gram_key (py_slice toks (length toks - n) (length toks))) (length toks) h else h)"
  shows "lay_ok (toks @ [t]) n (h' # ls)"
proof (cases "n \<le> length toks")
  case False
  have "sorted_wrt newer (h # ls)" and "map_of (concat (h # ls)) = latest toks n"
    and "\<forall>l\<in>set (h # ls). distinct (map fst l) \<and> (\<forall>x\<in>set l. snd x < length toks)"
    using lay unfolding lay_ok_def by blast+
  then have "lay_ok (toks @ [t]) n (h # ls)"
    unfolding lay_ok_def latest_snoc using False by fastforce
  with False h' show ?thesis by simp
next
  case True
  let ?i = "length toks" and ?k = "gram_key (py_slice toks (length toks - n) (length toks))"
  let ?h = "AList.update ?k ?i h"
  from lay have mp: "map_of (concat (h # ls)) = latest toks n" and srt: "sorted_wrt newer (h # ls)"
    and dist: "\<forall>l\<in>set (h # ls). distinct (map fst l)"
    and bound: "\<forall>l\<in>set (h # ls). \<forall>x\<in>set l. snd x < ?i" by (auto simp: lay_ok_def)
  have sub: "set ?h \<subseteq> insert (?k, ?i) (set h)" by (rule set_update_subset)
  have nw: "newer ?h l" if "l \<in> set ls" for l
  proof -
    from srt that have "newer h l" by simp
    moreover have "\<forall>y\<in>set l. snd y < ?i" using bound that by simp
    ultimately show ?thesis using sub unfolding newer_def by fastforce
  qed
  have "map_of (concat (?h # ls)) = latest (toks @ [t]) n"
    using mp True by (simp add: update_conv' latest_snoc flip: mp)
  moreover have "sorted_wrt newer (?h # ls)" using srt nw by simp
  moreover have "distinct (map fst ?h)" using dist by (simp add: distinct_update)
  moreover have "\<forall>x\<in>set ?h. snd x < length (toks @ [t])"
    using sub bound by fastforce
  moreover have "\<forall>l\<in>set ls. \<forall>x\<in>set l. snd x < length (toks @ [t])"
    using bound by fastforce
  ultimately show ?thesis using dist True h' by (auto simp: lay_ok_def)
qed

definition kept_pairs :: "token list \<Rightarrow> nat \<Rightarrow> nat list \<Rightarrow> (gkey \<times> nat) list" where
  "kept_pairs toks n ends = map (\<lambda>e. (gram_key (py_slice toks (e - n) e), e)) (filter (\<lambda>e. n \<le> e) ends)"

lemma best_kept_pairs:
  fixes n i0 i1 toks k
  defines "es \<equiv> filter (\<lambda>e. gram_key (py_slice toks (e - n) e) = k) [max n i0..<i1]"
  shows "(k, p) \<in> best_set (kept_pairs toks n [i0..<i1]) \<longleftrightarrow> es \<noteq> [] \<and> p = last es"
proof -
  have mem: "(k, q) \<in> set (kept_pairs toks n [i0..<i1]) \<longleftrightarrow> q \<in> set es" for q
    by (auto simp: kept_pairs_def es_def)
  have srt: "sorted es" by (simp add: es_def sorted_wrt_filter)
  show ?thesis
  proof
    assume "(k, p) \<in> best_set (kept_pairs toks n [i0..<i1])"
    then have p: "p \<in> set es" and le: "\<And>q. q \<in> set es \<Longrightarrow> q \<le> p"
      by (auto simp: best_set_def mem)
    then have ne: "es \<noteq> []" by auto
    from le [OF last_in_set [OF ne]] sorted_le_last [OF srt p] have "p = last es" by simp
    with ne show "es \<noteq> [] \<and> p = last es" by simp
  next
    assume "es \<noteq> [] \<and> p = last es"
    then show "(k, p) \<in> best_set (kept_pairs toks n [i0..<i1])"
      using sorted_le_last [OF srt] by (auto simp: best_set_def mem)
  qed
qed

lemma lay_ok_bulk:
  assumes lay: "lay_ok toks n ([] # ls)"
    and d: "distinct (map fst h)"
    and h: "set h = best_set (kept_pairs (toks @ new) n [length toks..<length toks + length new])"
  shows "lay_ok (toks @ new) n ([] # h # ls)"
proof -
  let ?i0 = "length toks" and ?i1 = "length toks + length new"
  from lay have mp: "map_of (concat ls) = latest toks n" and srt: "sorted_wrt newer ls"
    and dist: "\<forall>l\<in>set ls. distinct (map fst l)" and bound: "\<forall>l\<in>set ls. \<forall>x\<in>set l. snd x < ?i0"
    by (auto simp: lay_ok_def)
  have rng: "?i0 \<le> snd x \<and> snd x < ?i1" if "x \<in> set h" for x
    using that h by (auto simp: best_set_def kept_pairs_def)
  have "map_of (concat ([] # h # ls)) k = latest (toks @ new) n k" for k
  proof -
    let ?es = "filter (\<lambda>e. gram_key (py_slice (toks @ new) (e - n) e) = k) [max n ?i0..<?i1]"
    have m: "map_of h k = Some p \<longleftrightarrow> ?es \<noteq> [] \<and> p = last ?es" for p
      using d by (simp add: h best_kept_pairs)
    show ?thesis
    proof (cases "?es = []")
      case True
      then have "map_of h k = None" using m by (cases "map_of h k") auto
      with True mp show ?thesis by (simp add: latest_append Let_def map_add_def)
    next
      case False
      then have "map_of h k = Some (last ?es)" using m by blast
      with False show ?thesis by (simp add: latest_append Let_def map_add_def)
    qed
  qed
  then have "map_of (concat ([] # h # ls)) = latest (toks @ new) n" by (rule ext)
  moreover have "newer h l" if "l \<in> set ls" for l
    using rng bound that unfolding newer_def by (meson less_le_trans)
  moreover have "\<forall>l\<in>set ls. \<forall>x\<in>set l. snd x < length (toks @ new)"
    using bound by fastforce
  ultimately show ?thesis using srt dist d rng by (auto simp: lay_ok_def)
qed

lemma lay_ok_bulk_none:
  assumes lay: "lay_ok toks n ([] # ls)"
    and none: "kept_pairs (toks @ new) n [length toks..<length toks + length new] = []"
  shows "lay_ok (toks @ new) n ([] # ls)"
proof -
  have "lay_ok (toks @ new) n ([] # [] # ls)"
    by (rule lay_ok_bulk [OF lay]) (simp_all add: none)
  then show ?thesis by (auto simp: lay_ok_def)
qed

section \<open>Freezing\<close>

lemma freeze_one_fields [simp]:
  "cx_ns (freeze_one s n) = cx_ns s" "cx_np (freeze_one s n) = cx_np s"
  "cx_tokens (freeze_one s n) = cx_tokens s" "cx_hot_limit (freeze_one s n) = cx_hot_limit s"
  "cx_bulk_min (freeze_one s n) = cx_bulk_min s" "cx_hot_count (freeze_one s n) = cx_hot_count s"
  "cx_resets (freeze_one s n) = cx_resets s"
  by (simp_all add: freeze_one_def cx_push_tier_def)

lemma foldl_freeze_fields [simp]:
  "cx_ns (foldl freeze_one s ds) = cx_ns s" "cx_np (foldl freeze_one s ds) = cx_np s"
  "cx_tokens (foldl freeze_one s ds) = cx_tokens s" "cx_hot_limit (foldl freeze_one s ds) = cx_hot_limit s"
  "cx_bulk_min (foldl freeze_one s ds) = cx_bulk_min s" "cx_resets (foldl freeze_one s ds) = cx_resets s"
  by (induction ds arbitrary: s) simp_all

definition frozen_tiers :: "bool \<Rightarrow> (gkey \<times> nat) list \<Rightarrow> tier list \<Rightarrow> tier list" where
  "frozen_tiers np h ts = (if h = [] then ts else merge_tiers np (tier_from_dict np h # ts))"

lemma foldl_freeze_tables:
  "distinct ds \<Longrightarrow>
   cx_hot (foldl freeze_one s ds) n = (if n \<in> set ds then [] else cx_hot s n) \<and>
   cx_tiers (foldl freeze_one s ds) n =
     (if n \<in> set ds then frozen_tiers (cx_np s) (cx_hot s n) (cx_tiers s n) else cx_tiers s n)"
proof (induction ds arbitrary: s)
  case Nil
  then show ?case by simp
next
  case (Cons d ds)
  have one: "cx_hot (freeze_one s d) n = (if n = d then [] else cx_hot s n)"
    "cx_tiers (freeze_one s d) n = (if n = d then frozen_tiers (cx_np s) (cx_hot s n) (cx_tiers s n) else cx_tiers s n)"
    by (auto simp: freeze_one_def cx_push_tier_def frozen_tiers_def)
  from Cons.prems have "distinct ds" "d \<notin> set ds" by simp_all
  with Cons.IH [of "freeze_one s d"] one show ?case by auto
qed

lemma cx_freeze_fields [simp]:
  "cx_ns (cx_freeze s) = cx_ns s" "cx_np (cx_freeze s) = cx_np s" "cx_tokens (cx_freeze s) = cx_tokens s"
  "cx_hot_limit (cx_freeze s) = cx_hot_limit s" "cx_bulk_min (cx_freeze s) = cx_bulk_min s"
  "cx_resets (cx_freeze s) = cx_resets s" "cx_hot_count (cx_freeze s) = 0"
  by (simp_all add: cx_freeze_def)

lemma cx_freeze_tables:
  assumes "distinct (cx_ns s)" and "n \<in> set (cx_ns s)"
  shows "cx_hot (cx_freeze s) n = []"
    and "cx_tiers (cx_freeze s) n = frozen_tiers (cx_np s) (cx_hot s n) (cx_tiers s n)"
  using foldl_freeze_tables [OF assms(1), of s n] assms(2) by (simp_all add: cx_freeze_def)

lemma frozen_tiers_ok:
  assumes lay: "lay_ok toks n (h # map tier_pairs ts)" and ok: "\<forall>t\<in>set ts. tier_ok t"
  shows "lay_ok toks n ([] # map tier_pairs (frozen_tiers np h ts)) \<and> (\<forall>t\<in>set (frozen_tiers np h ts). tier_ok t)"
proof (cases "h = []")
  case True
  with assms show ?thesis by (simp add: frozen_tiers_def)
next
  case False
  let ?T = "tier_from_dict np h"
  from lay have "distinct (map fst h)" by (simp add: lay_ok_def)
  then have "map_of (tier_pairs ?T) = map_of h" by (rule map_of_from_dict)
  with lay have "lay_ok toks n ([] # tier_pairs ?T # map tier_pairs ts)"
    by (rule lay_ok_freeze) (simp add: distinct_tier_pairs)
  then have "lay_ok toks n ([] # map tier_pairs (?T # ts))" by simp
  with ok lay_ok_merge_tiers [of "?T # ts" toks n np] False show ?thesis
    by (simp add: frozen_tiers_def)
qed

lemma cx_freeze_inv [preserved]: "cx_inv s \<Longrightarrow> cx_inv (cx_freeze s)"
  unfolding cx_inv_def using frozen_tiers_ok
  by (auto simp: layers_def cx_freeze_tables)

section \<open>Pushing one token\<close>

lemma py_slice_prev:
  assumes "0 < d" and "d \<le> i" and "i \<le> length toks"
  shows "py_slice toks (i - d) i = toks ! (i - d) # py_slice toks (i - (d - 1)) i"
proof -
  have "Suc (i - d) = i - (d - 1)" using assms by arith
  with py_slice_Cons [of "i - d" i toks] assms show ?thesis by simp
qed

lemma push_grams_tables:
  assumes "0 < d" and "d \<le> Suc i" and "i \<le> length toks"
    and "h = gram_key (py_slice toks (i - (d - 1)) i)"
  shows "push_grams ns toks i [d..<Suc m] h hot n =
     (if n \<in> set ns \<and> d \<le> n \<and> n \<le> m \<and> n \<le> i
      then AList.update (gram_key (py_slice toks (i - n) i)) i (hot n) else hot n)"
  using assms
proof (induction "Suc m - d" arbitrary: d h hot)
  case 0
  then have "[d..<Suc m] = []" and "\<not> (d \<le> n \<and> n \<le> m)" by auto
  then show ?case by auto
next
  case (Suc x)
  then have dm: "d \<le> m" by simp
  then have ups: "[d..<Suc m] = d # [Suc d..<Suc m]" by (simp add: upt_conv_Cons)
  show ?case
  proof (cases "i < d")
    case True
    then show ?thesis by (auto simp: ups)
  next
    case False
    let ?h = "mix h (toks ! (i - d))"
    let ?hot = "if d \<in> set ns then hot(d := AList.update ?h i (hot d)) else hot"
    have h: "?h = gram_key (py_slice toks (i - d) i)"
      using Suc.prems False by (simp add: py_slice_prev gram_key_Cons)
    have "push_grams ns toks i [Suc d..<Suc m] ?h ?hot n =
       (if n \<in> set ns \<and> Suc d \<le> n \<and> n \<le> m \<and> n \<le> i
        then AList.update (gram_key (py_slice toks (i - n) i)) i (?hot n) else ?hot n)"
      using Suc.prems False Suc.hyps(2) h by (intro Suc.hyps(1)) auto
    moreover have "push_grams ns toks i [d..<Suc m] h hot n = push_grams ns toks i [Suc d..<Suc m] ?h ?hot n"
      using False by (simp add: ups Let_def)
    ultimately show ?thesis
      using False dm h by (auto split: if_splits)
  qed
qed

lemma ns_le_nmax: "cx_inv s \<Longrightarrow> n \<in> set (cx_ns s) \<Longrightarrow> n \<le> cx_nmax s \<and> 0 < n"
  by (auto simp: cx_inv_def cx_nmax_def sorted_le_last intro: gr0I)

lemma push_hot:
  assumes "cx_inv s" and "n \<in> set (cx_ns s)"
  defines "toks \<equiv> cx_tokens s" and "i \<equiv> length (cx_tokens s)"
  shows "push_grams (cx_ns s) (toks @ [t]) i [1..<Suc (cx_nmax s)] 0 (cx_hot s) n =
     (if n \<le> i then AList.update (gram_key (py_slice toks (i - n) i)) i (cx_hot s n) else cx_hot s n)"
proof -
  have "push_grams (cx_ns s) (toks @ [t]) i [1..<Suc (cx_nmax s)] 0 (cx_hot s) n =
     (if n \<in> set (cx_ns s) \<and> 1 \<le> n \<and> n \<le> cx_nmax s \<and> n \<le> i
      then AList.update (gram_key (py_slice (toks @ [t]) (i - n) i)) i (cx_hot s n) else cx_hot s n)"
    by (rule push_grams_tables) (simp_all add: i_def toks_def py_slice_def)
  then show ?thesis
    using assms(2) ns_le_nmax [OF assms(1,2)] by (simp add: i_def toks_def py_slice_append_left)
qed

lemma cx_push_tokens [simp]: "cx_tokens (cx_push s t) = cx_tokens s @ [t]"
  by (simp add: cx_push_def Let_def)

lemma cx_push_fields [simp]:
  "cx_ns (cx_push s t) = cx_ns s" "cx_np (cx_push s t) = cx_np s" "cx_resets (cx_push s t) = cx_resets s"
  by (simp_all add: cx_push_def Let_def)

lemma cx_push_inv [preserved]:
  assumes inv: "cx_inv s"
  shows "cx_inv (cx_push s t)"
proof -
  let ?toks = "cx_tokens s @ [t]" and ?i = "length (cx_tokens s)"
  let ?s = "s\<lparr>cx_tokens := ?toks,
              cx_hot := push_grams (cx_ns s) ?toks ?i [1..<Suc (cx_nmax s)] 0 (cx_hot s),
              cx_hot_count := Suc (cx_hot_count s)\<rparr>"
  have "lay_ok ?toks n (layers ?s n)" if n: "n \<in> set (cx_ns s)" for n
  proof -
    from inv n have "lay_ok (cx_tokens s) n (cx_hot s n # map tier_pairs (cx_tiers s n))"
      by (simp add: cx_inv_def layers_def)
    then have "lay_ok ?toks n (cx_hot ?s n # map tier_pairs (cx_tiers s n))"
      by (rule lay_ok_push) (use push_hot [OF inv n] in simp)
    then show ?thesis by (simp add: layers_def)
  qed
  with inv have "cx_inv ?s" by (simp add: cx_inv_def)
  moreover from this have "cx_inv (cx_freeze ?s)" by (rule cx_freeze_inv)
  ultimately show ?thesis by (simp add: cx_push_def Let_def)
qed

lemma foldl_push: "cx_inv s \<Longrightarrow> cx_inv (foldl cx_push s new) \<and> cx_tokens (foldl cx_push s new) = cx_tokens s @ new
    \<and> cx_ns (foldl cx_push s new) = cx_ns s \<and> cx_resets (foldl cx_push s new) = cx_resets s"
  by (induction new arbitrary: s) (simp_all add: cx_push_inv)

section \<open>Bulk loads\<close>

definition back_key :: "token list \<Rightarrow> nat \<Rightarrow> nat \<Rightarrow> gkey" where
  "back_key toks m e = foldl (\<lambda>h d. mix h (toks ! (e - d))) 0 [1..<Suc m]"

lemma back_key_0 [simp]: "back_key toks 0 e = 0"
  by (simp add: back_key_def)

lemma back_key_Suc: "back_key toks (Suc m) e = mix (back_key toks m e) (toks ! (e - Suc m))"
  by (simp add: back_key_def upt_Suc)

lemma map_back_key_0: "map (back_key toks 0) ends = replicate (length ends) 0"
  by (induction ends) simp_all

lemma back_key_gram: "m \<le> e \<Longrightarrow> e \<le> length toks \<Longrightarrow> back_key toks m e = gram_key (py_slice toks (e - m) e)"
proof (induction m)
  case 0
  then show ?case by (simp add: py_slice_def)
next
  case (Suc m)
  then show ?case
    using py_slice_prev [of "Suc m" e toks] by (simp add: back_key_Suc gram_key_Cons)
qed

lemma map2_map_right: "map2 f xs (map g xs) = map (\<lambda>x. f x (g x)) xs"
  by (induction xs) simp_all

lemma filter_zip_map: "filter (\<lambda>(h, e). P e) (zip (map g xs) xs) = map (\<lambda>e. (g e, e)) (filter P xs)"
  by (induction xs) simp_all

lemma kept_step:
  assumes "\<forall>e\<in>set ends. e \<le> length toks"
  shows "filter (\<lambda>(h, e). d \<le> e) (zip (map (back_key toks d) ends) ends) = kept_pairs toks d ends"
  using assms unfolding filter_zip_map kept_pairs_def
  by (intro map_cong) (auto simp: back_key_gram)

definition bulk_tier :: "bool \<Rightarrow> (gkey \<times> nat) list \<Rightarrow> tier" where
  "bulk_tier np kp = tier_from_pairs np (map fst kp) (map snd kp)"

definition bulk_tiers :: "bool \<Rightarrow> (gkey \<times> nat) list \<Rightarrow> tier list \<Rightarrow> tier list" where
  "bulk_tiers np kp ts = (if kp = [] then ts else merge_tiers np (bulk_tier np kp # ts))"

lemma bulk_loop_fields [simp]:
  "cx_ns (bulk_loop toks ends ds hs s) = cx_ns s \<and> cx_np (bulk_loop toks ends ds hs s) = cx_np s \<and>
   cx_tokens (bulk_loop toks ends ds hs s) = cx_tokens s \<and> cx_hot (bulk_loop toks ends ds hs s) = cx_hot s \<and>
   cx_resets (bulk_loop toks ends ds hs s) = cx_resets s"
  by (induction ds arbitrary: hs s) (simp_all add: Let_def cx_push_tier_def)

lemma bulk_loop_tiers:
  assumes "\<forall>e\<in>set ends. e \<le> length toks" and "hs = map (back_key toks (d - 1)) ends" and "0 < d"
  shows "cx_tiers (bulk_loop toks ends [d..<Suc m] hs s) n =
     (if n \<in> set (cx_ns s) \<and> d \<le> n \<and> n \<le> m
      then bulk_tiers (cx_np s) (kept_pairs toks n ends) (cx_tiers s n) else cx_tiers s n)"
  using assms
proof (induction "Suc m - d" arbitrary: d hs s)
  case 0
  then have "[d..<Suc m] = []" and "\<not> (d \<le> n \<and> n \<le> m)" by auto
  then show ?case by auto
next
  case (Suc x)
  then have dm: "d \<le> m" by simp
  then have ups: "[d..<Suc m] = d # [Suc d..<Suc m]" by (simp add: upt_conv_Cons)
  let ?hs = "map (back_key toks d) ends"
  let ?s = "if d \<in> set (cx_ns s) \<and> kept_pairs toks d ends \<noteq> []
            then cx_push_tier d (bulk_tier (cx_np s) (kept_pairs toks d ends)) s else s"
  have hs: "map2 (\<lambda>e h. mix h (toks ! (e - d))) ends hs = ?hs"
    using Suc.prems back_key_Suc [of toks "d - 1"] by (simp add: map2_map_right)
  have loop: "bulk_loop toks ends [d..<Suc m] hs s = bulk_loop toks ends [Suc d..<Suc m] ?hs ?s"
    using kept_step [OF Suc.prems(1), of d] by (simp add: ups hs Let_def bulk_tier_def)
  have s: "cx_tiers ?s n' = (if n' = d \<and> d \<in> set (cx_ns s)
             then bulk_tiers (cx_np s) (kept_pairs toks d ends) (cx_tiers s d) else cx_tiers s n')"
    "cx_ns ?s = cx_ns s" "cx_np ?s = cx_np s" for n'
    by (auto simp: cx_push_tier_def bulk_tiers_def)
  have "cx_tiers (bulk_loop toks ends [Suc d..<Suc m] ?hs ?s) n =
     (if n \<in> set (cx_ns ?s) \<and> Suc d \<le> n \<and> n \<le> m
      then bulk_tiers (cx_np ?s) (kept_pairs toks n ends) (cx_tiers ?s n) else cx_tiers ?s n)"
    using Suc.prems Suc.hyps(2) by (intro Suc.hyps(1)) simp_all
  then have IH: "cx_tiers (bulk_loop toks ends [Suc d..<Suc m] ?hs ?s) n =
     (if n \<in> set (cx_ns s) \<and> Suc d \<le> n \<and> n \<le> m
      then bulk_tiers (cx_np s) (kept_pairs toks n ends) (cx_tiers ?s n) else cx_tiers ?s n)"
    by (simp only: s(2,3))
  show ?case
    unfolding loop IH s(1) using dm by (cases "n = d") auto
qed

lemma bulk_tiers_ok:
  fixes new :: "token list"
  assumes lay: "lay_ok toks n ([] # map tier_pairs ts)" and ok: "\<forall>t\<in>set ts. tier_ok t"
  defines "kp \<equiv> kept_pairs (toks @ new) n [length toks..<length toks + length new]"
  shows "lay_ok (toks @ new) n ([] # map tier_pairs (bulk_tiers np kp ts)) \<and> (\<forall>t\<in>set (bulk_tiers np kp ts). tier_ok t)"
proof (cases "kp = []")
  case True
  with lay_ok_bulk_none [OF lay] ok show ?thesis by (simp add: bulk_tiers_def kp_def)
next
  case False
  let ?T = "bulk_tier np kp"
  have ok': "tier_ok ?T" by (simp add: bulk_tier_def)
  have setT: "set (tier_pairs ?T) = best_set kp"
    by (simp add: bulk_tier_def set_tier_from_pairs zip_map_fst_snd)
  have "lay_ok (toks @ new) n ([] # tier_pairs ?T # map tier_pairs ts)"
    by (rule lay_ok_bulk [OF lay distinct_tier_pairs [OF ok']], rule setT [THEN trans]) (simp only: kp_def)
  then have lay': "lay_ok (toks @ new) n ([] # map tier_pairs (?T # ts))" by (simp only: list.map)
  have "\<forall>t\<in>set (?T # ts). tier_ok t" using ok ok' by simp
  note m = lay_ok_merge_tiers [OF this lay', of np]
  have "bulk_tiers np kp ts = merge_tiers np (?T # ts)" using False by (simp add: bulk_tiers_def)
  with m show ?thesis by auto
qed

lemma cx_bulk_tokens [simp]: "cx_tokens (cx_bulk s new) = cx_tokens s @ new"
  by (simp add: cx_bulk_def Let_def)

lemma cx_bulk_fields [simp]: "cx_ns (cx_bulk s new) = cx_ns s" "cx_resets (cx_bulk s new) = cx_resets s"
  by (simp_all add: cx_bulk_def Let_def)

lemma cx_bulk_inv [preserved]:
  assumes inv: "cx_inv s" and cold: "\<forall>n\<in>set (cx_ns s). cx_hot s n = []"
  shows "cx_inv (cx_bulk s new)"
proof -
  let ?toks = "cx_tokens s @ new" and ?i0 = "length (cx_tokens s)"
  let ?ends = "[?i0..<?i0 + length new]"
  let ?s = "s\<lparr>cx_tokens := ?toks\<rparr>"
  have bulk: "cx_bulk s new = bulk_loop ?toks ?ends [1..<Suc (cx_nmax s)] (map (back_key ?toks (1 - 1)) ?ends) ?s"
    by (simp add: cx_bulk_def Let_def map_back_key_0)
  have "lay_ok ?toks n (layers (cx_bulk s new) n) \<and> (\<forall>t\<in>set (cx_tiers (cx_bulk s new) n). tier_ok t)"
    if n: "n \<in> set (cx_ns s)" for n
  proof -
    have t: "cx_tiers (cx_bulk s new) n = bulk_tiers (cx_np s) (kept_pairs ?toks n ?ends) (cx_tiers s n)"
      unfolding bulk using ns_le_nmax [OF inv n] n by (subst bulk_loop_tiers) auto
    have h: "cx_hot (cx_bulk s new) n = []"
      unfolding bulk using cold n by simp
    from inv n cold have "lay_ok (cx_tokens s) n ([] # map tier_pairs (cx_tiers s n))"
      and "\<forall>t\<in>set (cx_tiers s n). tier_ok t"
      by (auto simp: cx_inv_def layers_def)
    from bulk_tiers_ok [OF this] show ?thesis by (simp add: layers_def t h)
  qed
  with inv show ?thesis by (simp add: cx_inv_def)
qed

section \<open>extend, reset and sync\<close>

lemma cx_extend_props [preserved]:
  assumes inv: "cx_inv s"
  shows "cx_inv (cx_extend s new)" and "cx_tokens (cx_extend s new) = cx_tokens s @ new"
    and "cx_ns (cx_extend s new) = cx_ns s"
proof -
  have cold: "\<forall>n\<in>set (cx_ns s). cx_hot (cx_freeze s) n = []"
    using inv by (simp add: cx_inv_def cx_freeze_tables)
  have "cx_inv (cx_bulk (cx_freeze s) new)"
    using cold by (intro cx_bulk_inv cx_freeze_inv inv) simp
  then show "cx_inv (cx_extend s new)"
    using foldl_push [OF inv, of new] inv by (simp add: cx_extend_def)
  show "cx_tokens (cx_extend s new) = cx_tokens s @ new"
    and "cx_ns (cx_extend s new) = cx_ns s"
    using foldl_push [OF inv, of new] by (simp_all add: cx_extend_def)
qed

lemma cx_extend_Nil [simp]: "cx_extend s [] = s"
  by (simp add: cx_extend_def)

lemma cx_reset_inv [preserved]: "cx_inv s \<Longrightarrow> cx_inv (cx_reset s)"
  by (auto simp: cx_inv_def cx_reset_def layers_def lay_ok_def)

lemma cx_reset_tokens [simp]: "cx_tokens (cx_reset s) = []" "cx_ns (cx_reset s) = cx_ns s"
  by (simp_all add: cx_reset_def)

lemma cx_new_inv: "ns \<noteq> [] \<Longrightarrow> 0 \<notin> set ns \<Longrightarrow> cx_inv (cx_new np ns hot_tokens bulk_min)"
proof -
  assume "ns \<noteq> []" "0 \<notin> set ns"
  moreover from this have "sort (remdups ns) \<noteq> []"
    by (metis set_sort set_remdups set_empty)
  ultimately show ?thesis by (auto simp: cx_inv_def cx_new_def layers_def lay_ok_def)
qed

lemma cx_new_fields [simp]:
  "cx_tokens (cx_new np ns hot_tokens bulk_min) = []"
  "set (cx_ns (cx_new np ns hot_tokens bulk_min)) = set ns"
  by (simp_all add: cx_new_def)

lemma cx_sync_inv [preserved]: "cx_inv s \<Longrightarrow> cx_inv (fst (cx_sync s src budget))"
  by (auto simp: cx_sync_def Let_def intro!: cx_extend_props cx_reset_inv)

lemma cx_sync_ns [simp]: "cx_inv s \<Longrightarrow> cx_ns (fst (cx_sync s src budget)) = cx_ns s"
  by (auto simp: cx_sync_def Let_def cx_extend_props cx_reset_inv)

text \<open>An index over a prefix of the committed tokens passes the probes and stays a prefix.\<close>

lemma prefix_not_stale: "take (length (cx_tokens s)) src = cx_tokens s \<Longrightarrow> \<not> cx_stale s src"
proof -
  assume p: "take (length (cx_tokens s)) src = cx_tokens s"
  then have len: "length (cx_tokens s) \<le> length src"
    by (metis length_take min.cobounded2 min.commute)
  have "src ! j = cx_tokens s ! j" if "j < length (cx_tokens s)" for j
    using that p by (metis nth_take)
  then show ?thesis using len by (auto simp: cx_stale_def Let_def)
qed

lemma cx_sync_prefix:
  assumes inv: "cx_inv s" and pre: "take (length (cx_tokens s)) src = cx_tokens s"
  shows "cx_tokens (fst (cx_sync s src budget)) =
         take (length (cx_tokens s) + nat (min (int (length src) - int (length (cx_tokens s))) (max 0 budget))) src"
proof -
  let ?n = "length (cx_tokens s)"
  let ?t = "min (int (length src) - int ?n) (max 0 budget)"
  have st: "\<not> cx_stale s src" by (rule prefix_not_stale [OF pre])
  have "take (?n + nat ?t) src = take ?n src @ py_slice src ?n (?n + nat ?t)"
    by (simp add: py_slice_def take_add)
  also have "\<dots> = cx_tokens s @ py_slice src ?n (?n + nat ?t)" by (simp only: pre)
  finally have tk: "take (?n + nat ?t) src = cx_tokens s @ py_slice src ?n (?n + nat ?t)" .
  show ?thesis
  proof (cases "0 < ?t")
    case True
    then show ?thesis using st tk by (simp add: cx_sync_def Let_def cx_extend_props [OF inv])
  next
    case False
    then have "nat ?t = 0" by (intro nat_0_iff [THEN iffD2]) linarith
    with False st pre show ?thesis by (simp add: cx_sync_def Let_def)
  qed
qed

declare upt_Suc [simp]

end
