(* ===== verification/Lookup_Query.thy ===== *)
theory Lookup_Query
  imports Lookup_Ingest
begin

text \<open>
  What the planner and the workers rely on: a reported match is a real earlier occurrence of the current
  suffix (\<open>ContextIndex.match\<close>), and a draft made from a plan whose check still holds repeats committed
  tokens only (\<open>replay_check\<close>, \<open>lookup_draft\<close>, \<open>common_prefix\<close> of \<open>src/overlay/glm_lookup_draft.py\<close>). The
  facts about \<open>match\<close> are proved for any index that answers like \<open>latest\<close>, and rest on the tiered index
  through an interpretation.
\<close>

section \<open>Agreement\<close>

definition agrees :: "token list \<Rightarrow> nat \<Rightarrow> nat \<Rightarrow> bool" where
  "agrees toks e a \<longleftrightarrow> a \<le> e \<and> (\<forall>j<a. toks ! (e - 1 - j) = toks ! (length toks - 1 - j))"

lemma agrees_Suc:
  "agrees toks e (Suc a) \<longleftrightarrow> agrees toks e a \<and> a + 1 \<le> e \<and> toks ! (e - 1 - a) = toks ! (length toks - 1 - a)"
  by (auto simp: agrees_def less_Suc_eq)

lemma agree_from_props:
  "agrees toks e a \<Longrightarrow>
   a \<le> agree_from toks e m a \<and> agree_from toks e m a \<le> max a m \<and> agrees toks e (agree_from toks e m a) \<and>
   (agree_from toks e m a < m \<longrightarrow> \<not> agrees toks e (Suc (agree_from toks e m a)))"
proof (induction toks e m a rule: agree_from.induct)
  case (1 toks e m a)
  show ?case
  proof (cases "a < m \<and> a + 1 \<le> e \<and> toks ! (e - 1 - a) = toks ! (length toks - 1 - a)")
    case True
    with 1(2) have "agrees toks e (Suc a)" by (simp add: agrees_Suc)
    with 1(1) [OF True] True show ?thesis by (simp add: agree_from.simps [of toks e m a])
  next
    case False
    with 1(2) show ?thesis by (auto simp: agree_from.simps [of toks e m a] agrees_Suc)
  qed
qed

lemma agrees_slice:
  assumes "n \<le> e" and "e < length toks"
    and eq: "py_slice toks (e - n) e = py_slice toks (length toks - n) (length toks)"
  shows "agrees toks e n"
proof -
  have pt: "\<forall>j<n. toks ! (e - n + j) = toks ! (length toks - n + j)"
    using eq assms(1,2) by (subst (asm) py_slice_eq_iff) auto
  have "toks ! (e - 1 - j) = toks ! (length toks - 1 - j)" if j: "j < n" for j
  proof -
    from j have "n - 1 - j < n" by arith
    with pt have "toks ! (e - n + (n - 1 - j)) = toks ! (length toks - n + (n - 1 - j))" by blast
    moreover have "e - n + (n - 1 - j) = e - 1 - j" and "length toks - n + (n - 1 - j) = length toks - 1 - j"
      using j assms(1,2) by arith+
    ultimately show ?thesis by simp
  qed
  then show ?thesis using assms(1) by (simp add: agrees_def)
qed

section \<open>The interface of an index\<close>

locale position_index =
  fixes toks :: "'s \<Rightarrow> token list"
    and get :: "'s \<Rightarrow> nat \<Rightarrow> gkey \<Rightarrow> nat option"
    and ns :: "'s \<Rightarrow> nat list"
    and inv :: "'s \<Rightarrow> bool"
  assumes get_latest: "inv s \<Longrightarrow> n \<in> set (ns s) \<Longrightarrow> get s n k = latest (toks s) n k"
begin

lemma match_found:
  assumes "inv s" and "match_loop (get s) (ns s) (toks s) ma cands = Some m"
  shows "m_n m \<in> set cands \<and> m_n m \<in> set (ns s) \<and> m_n m < length (toks s) \<and>
         latest (toks s) (m_n m) (gram_key (py_slice (toks s) (length (toks s) - m_n m) (length (toks s)))) = Some (m_src m) \<and>
         py_slice (toks s) (m_src m - m_n m) (m_src m) = py_slice (toks s) (length (toks s) - m_n m) (length (toks s)) \<and>
         m_agree m = agree_from (toks s) (m_src m) ma (m_n m) \<and>
         m_avail m = length (toks s) - m_src m \<and> m_length m = length (toks s)"
  using assms(2)
proof (induction cands)
  case (Cons n cands)
  then show ?case
    using get_latest [OF assms(1), of n]
    by (auto simp: Let_def split: if_splits option.splits)
qed simp

lemma match_missed:
  assumes "inv s" and "match_loop (get s) (ns s) (toks s) ma cands = None"
    and "n \<in> set cands" and "n \<in> set (ns s)" and "n < length (toks s)"
    and "latest (toks s) n (gram_key (py_slice (toks s) (length (toks s) - n) (length (toks s)))) = Some e"
  shows "py_slice (toks s) (e - n) e \<noteq> py_slice (toks s) (length (toks s) - n) (length (toks s))"
  using assms(2,3)
proof (induction cands)
  case (Cons n' cands)
  then show ?case
    using get_latest [OF assms(1), of n'] assms(4,5,6) latest_SomeD(2) [OF assms(6)]
    by (auto simp: Let_def split: if_splits option.splits)
qed simp

end

interpretation ci: position_index cx_tokens cx_get cx_ns cx_inv
  by unfold_locales (rule cx_get_latest)

section \<open>Runs of the index\<close>

datatype cx_op =
    Op_extend "token list"
  | Op_sync "token list" int
  | Op_reset

fun cx_step :: "ctx_index \<Rightarrow> cx_op \<Rightarrow> ctx_index" where
  "cx_step s (Op_extend new) = cx_extend s new"
| "cx_step s (Op_sync src budget) = fst (cx_sync s src budget)"
| "cx_step s Op_reset = cx_reset s"

definition cx_run :: "bool \<Rightarrow> nat list \<Rightarrow> nat \<Rightarrow> nat \<Rightarrow> cx_op list \<Rightarrow> ctx_index" where
  "cx_run np ns hot_tokens bulk_min ops = foldl cx_step (cx_new np ns hot_tokens bulk_min) ops"

lemma cx_step_inv: "cx_inv s \<Longrightarrow> cx_inv (cx_step s x) \<and> cx_ns (cx_step s x) = cx_ns s"
  by (cases x) (simp_all add: cx_extend_props cx_reset_inv cx_sync_inv)

lemma cx_steps_inv: "cx_inv s \<Longrightarrow> cx_inv (foldl cx_step s ops) \<and> cx_ns (foldl cx_step s ops) = cx_ns s"
  by (induction ops arbitrary: s) (simp_all add: cx_step_inv)

lemma cx_run_inv:
  assumes "ns \<noteq> []" and "0 \<notin> set ns"
  shows "cx_inv (cx_run np ns h b ops)" and "set (cx_ns (cx_run np ns h b ops)) = set ns"
  using cx_steps_inv [OF cx_new_inv [OF assms], of np h b ops] by (simp_all add: cx_run_def)

section \<open>Drafting from a plan\<close>

definition replay_check :: "token list \<Rightarrow> int \<Rightarrow> int \<Rightarrow> int \<Rightarrow> int \<Rightarrow> bool" where
  "replay_check tokens l_dev src lhost max_delta =
     (let delta = l_dev - lhost; len = int (length tokens)
      in if delta < 0 \<or> max_delta < delta \<or> src < 0 \<or> lhost \<le> src \<or> len < lhost \<or> len < l_dev then False
         else list_all (\<lambda>i. tokens ! nat (lhost + int i) = tokens ! nat (src + int i)) [0..<nat delta])"

fun draft_loop :: "token list \<Rightarrow> int \<Rightarrow> int \<Rightarrow> int \<Rightarrow> int \<Rightarrow> bool \<Rightarrow> nat list \<Rightarrow> token option list result" where
  "draft_loop tokens l_dev src delta period periodic [] = Inr []"
| "draft_loop tokens l_dev src delta period periodic (j # js) =
     (if periodic \<and> period = 0 then Inl ZeroDivisionError
      else let off = (if periodic then int j mod period else int j);
               pos = src + delta + off
           in case (if pos < l_dev then map_sum id Some (py_nth tokens pos) else Inr None) of
                Inl e \<Rightarrow> Inl e
              | Inr t \<Rightarrow> (case draft_loop tokens l_dev src delta period periodic js of
                            Inl e \<Rightarrow> Inl e
                          | Inr ts \<Rightarrow> Inr (t # ts)))"

definition lookup_draft :: "token list \<Rightarrow> int \<Rightarrow> int \<Rightarrow> int \<Rightarrow> nat \<Rightarrow> bool \<Rightarrow> token option list result" where
  "lookup_draft tokens l_dev src lhost k periodic =
     draft_loop tokens l_dev src (l_dev - lhost) (lhost - src) periodic [0..<k]"

fun common_prefix :: "token option list \<Rightarrow> token list \<Rightarrow> nat \<Rightarrow> nat" where
  "common_prefix [] tokens start = 0"
| "common_prefix (t # ts) tokens start =
     (case t of
        None \<Rightarrow> 0
      | Some x \<Rightarrow> if length tokens \<le> start \<or> tokens ! start \<noteq> x then 0
                  else Suc (common_prefix ts tokens (Suc start)))"

lemma replay_checkD:
  assumes "replay_check tokens l_dev src lhost md"
  shows "0 \<le> src" "src < lhost" "lhost \<le> l_dev" "l_dev \<le> int (length tokens)" "l_dev - lhost \<le> md"
    "\<And>i. i < nat (l_dev - lhost) \<Longrightarrow> tokens ! nat (lhost + int i) = tokens ! nat (src + int i)"
  using assms by (auto simp: replay_check_def Let_def list_all_iff split: if_splits)

lemma draft_loop_periodic:
  assumes "0 \<le> src" and "0 \<le> delta" and "0 < period" and "src + delta + period = l_dev"
    and "l_dev \<le> int (length tokens)"
  shows "draft_loop tokens l_dev src delta period True js =
           Inr (map (\<lambda>j. Some (tokens ! nat (src + delta + int j mod period))) js)"
proof (induction js)
  case (Cons j js)
  have "int j mod period < period" and "0 \<le> int j mod period" using assms(3) by simp_all
  then have "src + delta + int j mod period < l_dev" "0 \<le> src + delta + int j mod period"
    using assms(1,2,4) by linarith+
  with Cons assms(3,5) show ?case by (simp add: py_nth_in)
qed simp

lemma common_prefix_le: "common_prefix ts tokens start \<le> length ts"
  by (induction ts tokens start rule: common_prefix.induct) (auto split: option.splits)

lemma common_prefix_match:
  "j < common_prefix ts tokens start \<Longrightarrow> start + j < length tokens \<and> ts ! j = Some (tokens ! (start + j))"
proof (induction ts tokens start arbitrary: j rule: common_prefix.induct)
  case (2 t ts tokens start)
  then show ?case by (cases j) (auto split: option.splits if_splits)
qed simp

lemma common_prefix_stop:
  "common_prefix ts tokens start < length ts \<Longrightarrow>
   length tokens \<le> start + common_prefix ts tokens start \<or>
   ts ! common_prefix ts tokens start \<noteq> Some (tokens ! (start + common_prefix ts tokens start))"
  by (induction ts tokens start rule: common_prefix.induct) (auto split: option.splits)

section \<open>Properties\<close>

lemma cx_extend_resets [simp]: "cx_resets (cx_extend s new) = cx_resets s"
proof -
  have "cx_resets (foldl cx_push s new) = cx_resets s" for s
    by (induction new arbitrary: s) simp_all
  then show ?thesis by (simp add: cx_extend_def)
qed

lemma slice_key_eq:
  "py_slice toks (e - n) e = py_slice toks (length toks - n) (length toks) \<Longrightarrow>
   gram_key (py_slice toks (e - n) e) = gram_key (py_slice toks (length toks - n) (length toks))"
  by simp

text \<open>
  C1. Whatever sequence of extends, syncs and resets built the index, with or without numpy, and whatever
  freezes and merges they triggered, a lookup returns the latest position whose preceding n-gram has the key.
\<close>

theorem cx_run_refines_latest:
  assumes "ns \<noteq> []" and "0 \<notin> set ns" and "n \<in> set ns"
  shows "cx_get (cx_run np ns hot bulk ops) n k = latest (cx_tokens (cx_run np ns hot bulk ops)) n k"
  using assms by (intro ci.get_latest) (simp_all add: cx_run_inv)

lemma cx_run_refines_latest_witness:
  "latest [1, 2, 1, 2, 3] 2 (gram_key [1, 2]) = Some 4 \<and>
   cx_get (cx_run False [2] 2 9 [Op_extend [1, 2, 1, 2, 3]]) 2 (gram_key [1, 2]) =
     latest (cx_tokens (cx_run False [2] 2 9 [Op_extend [1, 2, 1, 2, 3]])) 2 (gram_key [1, 2])"
proof -
  have "latest [1, 2, 1, 2, 3] 2 (gram_key [1, 2]) = Some 4" by code_simp
  then show ?thesis using cx_run_refines_latest [of "[2]" 2 False 2 9] by simp
qed

lemma match_sound_inv:
  assumes inv: "cx_inv s" and m: "cx_match s n_min n_max ma = Some m" and toks: "toks = cx_tokens s"
  shows "m_n m \<in> set (cx_ns s) \<and> n_min \<le> m_n m \<and> m_n m \<le> n_max \<and> m_n m \<le> m_src m \<and> m_src m < length toks \<and>
         m_length m = length toks \<and> m_avail m = length toks - m_src m \<and>
         py_slice toks (m_src m - m_n m) (m_src m) = py_slice toks (length toks - m_n m) (length toks) \<and>
         (\<forall>e. m_src m < e \<and> e < length toks \<longrightarrow>
              py_slice toks (e - m_n m) e \<noteq> py_slice toks (length toks - m_n m) (length toks)) \<and>
         m_n m \<le> m_agree m \<and> agrees toks (m_src m) (m_agree m) \<and>
         (m_agree m < ma \<longrightarrow> \<not> agrees toks (m_src m) (Suc (m_agree m)))"
proof -
  note found = ci.match_found [OF inv m [unfolded cx_match_def], folded toks]
  then have lat: "latest toks (m_n m) (gram_key (py_slice toks (length toks - m_n m) (length toks))) = Some (m_src m)"
    by blast
  note L = latest_SomeD [OF lat]
  have rng: "n_min \<le> m_n m" "m_n m \<le> n_max" using found by auto
  have ag: "agrees toks (m_src m) (m_n m)" using found L by (intro agrees_slice) auto
  note A = agree_from_props [OF ag, of ma]
  have "py_slice toks (e - m_n m) e \<noteq> py_slice toks (length toks - m_n m) (length toks)"
    if "m_src m < e" "e < length toks" for e
    using L(4) [OF that] slice_key_eq by metis
  then show ?thesis using found rng L(1,2) A by auto
qed

text \<open>
  C29. A reported match is real: the n-gram length was asked for and indexed, the n tokens before the source are
  the last n tokens, no later earlier-position repeats them, and the two sites agree on exactly the reported
  number of tokens (up to the cap).
\<close>

theorem cx_match_sound:
  assumes "ns \<noteq> []" and "0 \<notin> set ns" and "s = cx_run np ns hot bulk ops"
    and "cx_match s n_min n_max ma = Some m" and "toks = cx_tokens s"
  shows "m_n m \<in> set ns \<and> n_min \<le> m_n m \<and> m_n m \<le> n_max \<and> m_n m \<le> m_src m \<and> m_src m < length toks \<and>
         m_length m = length toks \<and> m_avail m = length toks - m_src m \<and>
         py_slice toks (m_src m - m_n m) (m_src m) = py_slice toks (length toks - m_n m) (length toks) \<and>
         (\<forall>e. m_src m < e \<and> e < length toks \<longrightarrow>
              py_slice toks (e - m_n m) e \<noteq> py_slice toks (length toks - m_n m) (length toks)) \<and>
         m_n m \<le> m_agree m \<and> agrees toks (m_src m) (m_agree m) \<and>
         (m_agree m < ma \<longrightarrow> \<not> agrees toks (m_src m) (Suc (m_agree m)))"
  using match_sound_inv [OF _ assms(4,5)] cx_run_inv [OF assms(1,2)] assms(3) by simp

lemma cx_match_sound_witness:
  "\<exists>m. cx_match (cx_run False [2] 2 9 [Op_extend [7, 1, 2, 5, 1, 2]]) 2 4 64 = Some m \<and> m_src m = 3 \<and>
       py_slice [7, 1, 2, 5, 1, 2] (m_src m - m_n m) (m_src m) = py_slice [7, 1, 2, 5, 1, 2 :: int] 4 6"
proof -
  let ?s = "cx_run False [2] 2 9 [Op_extend [7, 1, 2, 5, 1, 2]]"
  have m: "cx_match ?s 2 4 64 = Some \<lparr>m_src = 3, m_n = 2, m_agree = 2, m_avail = 3, m_length = 6\<rparr>"
    by code_simp
  have t: "[7, 1, 2, 5, 1, 2] = cx_tokens ?s" by code_simp
  show ?thesis
    using cx_match_sound [OF _ _ refl m t] m by (simp add: py_slice_def)
qed



text \<open>
  A draft the worker writes for a plan whose validity check still holds never has a hole and never fails:
  it is the cyclic continuation of the last P committed tokens, where P is the distance of the match, so every
  id is a committed token and the copy agrees with everything committed since the plan.
\<close>

lemma lookup_draft_of_valid_plan:
  assumes "replay_check tokens l_dev src lhost max_delta"
  shows "lookup_draft tokens l_dev src lhost k True =
           Inr (map (\<lambda>j. Some (tokens ! nat (l_dev - (lhost - src) + int j mod (lhost - src)))) [0..<k]) \<and>
         (\<forall>j<k. nat (l_dev - (lhost - src) + int j mod (lhost - src)) < nat l_dev) \<and>
         (\<forall>i<nat (l_dev - lhost). tokens ! nat (lhost + int i) = tokens ! nat (src + int i))"
proof (intro conjI)
  note R = replay_checkD [OF assms]
  have pos: "src + (l_dev - lhost) = l_dev - (lhost - src)" by simp
  show "lookup_draft tokens l_dev src lhost k True =
           Inr (map (\<lambda>j. Some (tokens ! nat (l_dev - (lhost - src) + int j mod (lhost - src)))) [0..<k])"
    unfolding lookup_draft_def using R(1-4)
    by (subst draft_loop_periodic) (simp_all add: algebra_simps)
  show "\<forall>i<nat (l_dev - lhost). tokens ! nat (lhost + int i) = tokens ! nat (src + int i)"
    using R(6) by blast
  have "int j mod (lhost - src) < lhost - src" for j using R(2) by simp
  then have "l_dev - (lhost - src) + int j mod (lhost - src) < l_dev" for j
    by (simp add: algebra_simps)
  then show "\<forall>j<k. nat (l_dev - (lhost - src) + int j mod (lhost - src)) < nat l_dev"
    using R(1-3) by (auto simp: nat_less_eq_zless)
qed

text \<open>
  \<open>common_prefix\<close> is the number of drafts a verifier that knows the committed tokens accepts: all ids before
  it are the committed ones, and at it the draft ends, has a hole, runs past the tokens or differs.
\<close>

lemma common_prefix_longest:
  "common_prefix draft tokens start \<le> length draft \<and>
   (\<forall>j<common_prefix draft tokens start. start + j < length tokens \<and> draft ! j = Some (tokens ! (start + j))) \<and>
   (common_prefix draft tokens start = length draft \<or>
    length tokens \<le> start + common_prefix draft tokens start \<or>
    draft ! common_prefix draft tokens start \<noteq> Some (tokens ! (start + common_prefix draft tokens start)))"
  using common_prefix_le common_prefix_match common_prefix_stop by (metis le_neq_implies_less)

lemma common_prefix_longest_witness:
  "common_prefix [Some 5, Some 6, None] [1, 5, 6, 7] 1 = 2 \<and> [1, 5, 6, 7] ! 2 = (6 :: token)"
proof -
  have c: "common_prefix [Some 5, Some 6, None] [1, 5, 6, 7] 1 = 2" by code_simp
  then have "[Some 5, Some 6, None] ! 1 = Some ([1, 5, 6, 7 :: token] ! 2)"
    using common_prefix_longest [of "[Some 5, Some 6, None]" "[1, 5, 6, 7]" 1] by simp
  then show ?thesis using c by simp
qed

lemma cx_sync_grow:
  assumes inv: "cx_inv s" and src: "src = cx_tokens s @ new"
  shows "case cx_sync s src budget of (s', caught, used) \<Rightarrow>
           cx_tokens s' = cx_tokens s @ take (nat budget) new \<and> cx_resets s' = cx_resets s \<and>
           0 \<le> used \<and> used \<le> max 0 budget \<and> (caught \<longleftrightarrow> cx_tokens s' = src)"
proof -
  have st: "\<not> cx_stale s src" using src by (intro prefix_not_stale) simp
  let ?t = "min (int (length new)) (max 0 budget)"
  have res: "cx_sync s src budget =
     (let s2 = if 0 < ?t then cx_extend s (take (nat ?t) new) else s in (s2, length (cx_tokens s2) = length src, ?t))"
    using st src by (simp add: cx_sync_def py_slice_def Let_def)
  have tk: "take (nat ?t) new = take (nat budget) new"
    by (cases "length new \<le> nat budget") (auto simp: min_def max_def)
  have toks: "cx_tokens (if 0 < ?t then cx_extend s (take (nat ?t) new) else s) = cx_tokens s @ take (nat budget) new"
    unfolding tk by (auto simp: cx_extend_props [OF inv] max_def)
  have rs: "cx_resets (if 0 < ?t then cx_extend s (take (nat ?t) new) else s) = cx_resets s"
    by (simp add: cx_extend_resets)
  show ?thesis
    unfolding res Let_def prod.case toks rs using src by auto
qed

text \<open>
  A sync that is fed the request's own growing history keeps the index a prefix of it: it never resets, takes
  at most the budget, and reports caught up exactly when every token is indexed.
\<close>

lemma cx_sync_follows_history:
  assumes "s = cx_run np ns hot bulk ops" and "ns \<noteq> []" and "0 \<notin> set ns"
    and "src = cx_tokens s @ new"
  shows "case cx_sync s src budget of (s', caught, used) \<Rightarrow>
           cx_tokens s' = cx_tokens s @ take (nat budget) new \<and> cx_resets s' = cx_resets s \<and>
           0 \<le> used \<and> used \<le> max 0 budget \<and> (caught \<longleftrightarrow> cx_tokens s' = src)"
  using cx_sync_grow [OF _ assms(4)] cx_run_inv [OF assms(2,3)] assms(1) by simp

end
