(* ===== verification/Py_Str.thy ===== *)
theory Py_Str
  imports Prelude "HOL-Library.Char_ord"
begin

text \<open>
  The Python string operations the configuration readers of the repository use: \<open>strip\<close>, \<open>lower\<close>, \<open>split\<close>,
  \<open>partition\<close>, \<open>replace\<close> of a single character, \<open>startswith\<close>, and the parsers \<open>int()\<close> and \<open>float()\<close>. Characters are the
  Latin-1 range. \<open>float()\<close> reads decimal numerals into exact rationals; the spellings of infinity and of
  not-a-number, which Python also accepts, are a \<^const>\<open>ValueError\<close> here. An environment is a partial map.
\<close>

type_synonym env = "string \<Rightarrow> string option"

section \<open>Characters\<close>

definition is_ws :: "char \<Rightarrow> bool" where
  "is_ws c = (of_char c \<in> set [9, 10, 11, 12, 13, 28, 29, 30, 31, 32, 133, 160 :: nat])"

definition is_digit :: "char \<Rightarrow> bool" where
  "is_digit c = (48 \<le> (of_char c :: nat) \<and> (of_char c :: nat) \<le> 57)"

definition digit_val :: "char \<Rightarrow> nat" where
  "digit_val c = of_char c - 48"

definition lower_char :: "char \<Rightarrow> char" where
  "lower_char c =
     (let n = of_char c :: nat
      in if 65 \<le> n \<and> n \<le> 90 \<or> 192 \<le> n \<and> n \<le> 222 \<and> n \<noteq> 215 then char_of (n + 32) else c)"

section \<open>Strings\<close>

definition lstrip :: "string \<Rightarrow> string" where
  "lstrip = dropWhile is_ws"

definition strip :: "string \<Rightarrow> string" where
  "strip s = rev (lstrip (rev (lstrip s)))"

definition lower :: "string \<Rightarrow> string" where
  "lower = map lower_char"

definition starts_with :: "string \<Rightarrow> string \<Rightarrow> bool" where
  "starts_with p s = (take (length p) s = p)"

definition ends_with :: "string \<Rightarrow> string \<Rightarrow> bool" where
  "ends_with p s = starts_with (rev p) (rev s)"

fun split_on :: "char \<Rightarrow> string \<Rightarrow> string list" where
  "split_on d [] = [[]]"
| "split_on d (c # s) =
     (if c = d then [] # split_on d s
      else case split_on d s of [] \<Rightarrow> [[c]] | w # ws \<Rightarrow> (c # w) # ws)"

definition partition_on :: "char \<Rightarrow> string \<Rightarrow> string \<times> bool \<times> string" where
  "partition_on d s =
     (case dropWhile (\<lambda>c. c \<noteq> d) s of
        [] \<Rightarrow> (s, False, [])
      | _ # r \<Rightarrow> (takeWhile (\<lambda>c. c \<noteq> d) s, True, r))"

fun words_ws :: "string \<Rightarrow> string \<Rightarrow> string list" where
  "words_ws w [] = (if w = [] then [] else [rev w])"
| "words_ws w (c # s) =
     (if is_ws c then (if w = [] then words_ws [] s else rev w # words_ws [] s) else words_ws (c # w) s)"

fun join :: "string \<Rightarrow> string list \<Rightarrow> string" where
  "join sep [] = []"
| "join sep [w] = w"
| "join sep (w # ws) = w @ sep @ join sep ws"

text \<open>The words that switch a flag off, the same tuple \<open>_OFF\<close> in several modules.\<close>

definition off_words :: "string list" where
  "off_words = [[], ''0'', ''off'', ''false'', ''no'']"

section \<open>Numbers\<close>

text \<open>Digits with single underscores between them, as Python's numerals allow; the empty list is no numeral.\<close>

fun digits_tail :: "nat \<Rightarrow> string \<Rightarrow> nat option" where
  "digits_tail acc [] = Some acc"
| "digits_tail acc (c # s) =
     (if is_digit c then digits_tail (10 * acc + digit_val c) s
      else if c = CHR ''_'' then
        (case s of [] \<Rightarrow> None
         | d # s' \<Rightarrow> if is_digit d then digits_tail (10 * acc + digit_val d) s' else None)
      else None)"

fun digits :: "string \<Rightarrow> nat option" where
  "digits [] = None"
| "digits (c # s) = (if is_digit c then digits_tail (digit_val c) s else None)"

definition signed :: "string \<Rightarrow> bool \<times> string" where
  "signed s = (case s of
     [] \<Rightarrow> (False, [])
   | c # r \<Rightarrow> if c = CHR ''-'' then (True, r) else if c = CHR ''+'' then (False, r) else (False, s))"

definition py_int :: "string \<Rightarrow> int result" where
  "py_int s = (case signed (strip s) of (neg, r) \<Rightarrow>
     (case digits r of
        None \<Rightarrow> Inl ValueError
      | Some n \<Rightarrow> Inr (if neg then - int n else int n)))"

text \<open>\<open>float()\<close>: digits with an optional fraction and an optional exponent; one side of the point may be empty.\<close>

definition pow10 :: "int \<Rightarrow> rat" where
  "pow10 e = (if 0 \<le> e then 10 ^ nat e else 1 / 10 ^ nat (- e))"

definition mantissa :: "string \<Rightarrow> rat option" where
  "mantissa s = (case partition_on (CHR ''.'') s of (a, dot, b) \<Rightarrow>
     if a = [] \<and> b = [] then None
     else case ((if a = [] then Some 0 else digits a), (if b = [] then Some 0 else digits b)) of
            (Some i, Some f) \<Rightarrow> Some (of_nat i + of_nat f / 10 ^ length (filter is_digit b))
          | _ \<Rightarrow> None)"

definition is_exp_char :: "char \<Rightarrow> bool" where
  "is_exp_char c = (c = CHR ''e'' \<or> c = CHR ''E'')"

definition py_float :: "string \<Rightarrow> rat result" where
  "py_float s = (case signed (strip s) of (neg, r) \<Rightarrow>
     (let m = takeWhile (\<lambda>c. \<not> is_exp_char c) r;
          ex = dropWhile (\<lambda>c. \<not> is_exp_char c) r;
          e = (case ex of [] \<Rightarrow> Some 0
               | _ # t \<Rightarrow> (case signed t of (eneg, d) \<Rightarrow> map_option (\<lambda>n. if eneg then - int n else int n) (digits d)))
      in case (mantissa m, e) of
           (Some x, Some k) \<Rightarrow> Inr ((if neg then - x else x) * pow10 k)
         | _ \<Rightarrow> Inl ValueError))"

text \<open>What \<open>simp\<close> needs to evaluate these operations on literal strings.\<close>

lemmas str_eval = py_int_def py_float_def strip_def lstrip_def is_ws_def is_digit_def digit_val_def signed_def
  mantissa_def partition_on_def pow10_def is_exp_char_def lower_def lower_char_def char_of_def
  starts_with_def ends_with_def

section \<open>Facts\<close>

lemma split_on_not_Nil [simp]: "split_on d s \<noteq> []"
  by (cases s) (auto split: list.splits)

lemma strip_Nil [simp]: "strip [] = []"
  by (simp add: strip_def lstrip_def)

lemma length_lower [simp]: "length (lower s) = length s"
  by (simp add: lower_def)

lemma split_on_none: "d \<notin> set s \<Longrightarrow> split_on d s = [s]"
  by (induction s) auto

text \<open>Splitting inverts joining: every list configuration that is written out reads back.\<close>

lemma split_on_append: "d \<notin> set w \<Longrightarrow> split_on d (w @ d # s) = w # split_on d s"
  by (induction w) auto

lemma split_on_join:
  "ws \<noteq> [] \<Longrightarrow> \<forall>w\<in>set ws. d \<notin> set w \<Longrightarrow> split_on d (join [d] ws) = ws"
proof (induction "[d]" ws rule: join.induct)
  case (2 w)
  then show ?case by (simp add: split_on_none)
next
  case (3 w v vs)
  then show ?case by (simp add: split_on_append)
qed simp

end
