(* ===== verification/Lookup_Plan.thy ===== *)
theory Lookup_Plan
  imports Lookup_Query Py_Str
begin

text \<open>
  The planner of the context-lookup drafter (\<open>src/overlay/glm_lookup_draft.py\<close>): its configuration, the cost
  model, the gate \<open>choose\<close>, and \<open>LookupPlanner\<close> with its per-request state: planning a step, attributing a
  verified step to its draft, and folding resolved steps into the statistics. Floats are exact rationals. The
  trace callback and the log lines are left out. An exception leaves no state: the scheduler that owns the
  planner stops using it at the first one.
\<close>

section \<open>Configuration\<close>

record lk_config =
  lk_mode :: string
  lk_n_min :: int
  lk_n_max :: int
  lk_min_agree :: int
  lk_max_agree :: nat
  lk_max_batch :: int
  lk_skip :: bool
  lk_skip_streak :: bool
  lk_periodic :: bool
  lk_max_delta :: int
  lk_margin :: rat
  lk_alpha :: rat
  lk_min_obs :: int
  lk_force :: string
  lk_hot_tokens :: int
  lk_bulk_min :: nat
  lk_ingest_budget :: int
  lk_cost :: string
  lk_learn_cost :: bool
  lk_log_every :: int

definition lk_default :: lk_config where
  "lk_default = \<lparr>lk_mode = ''off'', lk_n_min = 2, lk_n_max = 4, lk_min_agree = 2, lk_max_agree = 64,
     lk_max_batch = 1, lk_skip = False, lk_skip_streak = True, lk_periodic = True, lk_max_delta = 64,
     lk_margin = 5 / 100, lk_alpha = 15 / 100, lk_min_obs = 2, lk_force = [], lk_hot_tokens = 4096,
     lk_bulk_min = 2048, lk_ingest_budget = 32768, lk_cost = ''v3:35.9,v7:45.8,draft:3.1'',
     lk_learn_cost = False, lk_log_every = 2000\<rparr>"

definition lk_valid :: "lk_config \<Rightarrow> bool" where
  "lk_valid c \<longleftrightarrow>
     lk_mode c \<in> {''off'', ''shadow'', ''on''} \<and>
     (1 \<le> lk_n_min c \<and> lk_n_min c \<le> lk_n_max c \<and> lk_n_max c \<le> 8) \<and>
     lk_force c \<in> {[], ''neural'', ''skip'', ''override'', ''alt-skip'', ''alt-override''} \<and>
     (1 \<le> lk_max_delta c \<and> lk_max_delta c \<le> 256) \<and>
     \<not> (lk_max_batch c < 1 \<or> lk_hot_tokens c < 16 \<or> lk_ingest_budget c < 1)"

definition lk_make :: "lk_config \<Rightarrow> lk_config result" where
  "lk_make c = (if lk_valid c then Inr c else Inl ValueError)"

definition lk_env :: "env \<Rightarrow> string \<Rightarrow> string \<Rightarrow> string" where
  "lk_env env name d = (case env name of
     None \<Rightarrow> d | Some raw \<Rightarrow> if strip raw = [] then d else strip raw)"

text \<open>\<open>str.replace("..", ":")\<close>\<close>

fun dots_to_colon :: "string \<Rightarrow> string" where
  "dots_to_colon (a # b # s) =
     (if a = CHR ''.'' \<and> b = CHR ''.'' then CHR '':'' # dots_to_colon s else a # dots_to_colon (b # s))"
| "dots_to_colon s = s"

definition lk_flag :: "env \<Rightarrow> string \<Rightarrow> string \<Rightarrow> bool" where
  "lk_flag env name d = (lower (lk_env env name d) \<notin> {[], ''0'', ''off'', ''false'', ''no''})"

definition lk_from_env :: "env \<Rightarrow> lk_config result" where
  "lk_from_env env =
     (let raw = lower (lk_env env ''GLM_LOOKUP_DRAFT'' ''0'');
          mode = (if raw \<in> {[], ''0'', ''off'', ''false'', ''no''} then ''off''
                  else if raw = ''shadow'' then ''shadow'' else ''on'');
          n = split_on (CHR '':'') (dots_to_colon (lk_env env ''GLM_LOOKUP_N'' ''2:4''))
      in bind_r (py_int (hd n)) (\<lambda>n_min.
         bind_r (py_int (last n)) (\<lambda>n_max.
         bind_r (py_int (lk_env env ''GLM_LOOKUP_MIN_AGREE'' ''2'')) (\<lambda>min_agree.
         bind_r (py_int (lk_env env ''GLM_LOOKUP_MAX_BATCH'' ''1'')) (\<lambda>max_batch.
         bind_r (py_int (lk_env env ''GLM_LOOKUP_MAX_DELTA'' ''64'')) (\<lambda>max_delta.
         bind_r (py_float (lk_env env ''GLM_LOOKUP_MARGIN'' ''0.05'')) (\<lambda>margin.
         bind_r (py_float (lk_env env ''GLM_LOOKUP_ALPHA'' ''0.15'')) (\<lambda>alpha.
         bind_r (py_int (lk_env env ''GLM_LOOKUP_MIN_OBS'' ''2'')) (\<lambda>min_obs.
         bind_r (py_int (lk_env env ''GLM_LOOKUP_HOT_TOKENS'' ''4096'')) (\<lambda>hot.
         bind_r (py_int (lk_env env ''GLM_LOOKUP_INGEST_BUDGET'' ''32768'')) (\<lambda>budget.
         bind_r (py_int (lk_env env ''GLM_LOOKUP_LOG_EVERY'' ''2000'')) (\<lambda>log_every.
           lk_make (lk_default\<lparr>lk_mode := mode, lk_n_min := n_min, lk_n_max := n_max, lk_min_agree := min_agree,
             lk_max_batch := max_batch, lk_skip := lk_flag env ''GLM_LOOKUP_SKIP'' ''0'',
             lk_skip_streak := lk_flag env ''GLM_LOOKUP_SKIP_STREAK'' ''1'',
             lk_periodic := lk_flag env ''GLM_LOOKUP_PERIODIC'' ''1'', lk_max_delta := max_delta,
             lk_margin := margin, lk_alpha := alpha, lk_min_obs := min_obs,
             lk_force := lower (lk_env env ''GLM_LOOKUP_FORCE'' []), lk_hot_tokens := hot,
             lk_ingest_budget := budget, lk_cost := lk_env env ''GLM_LOOKUP_COST'' (lk_cost lk_default),
             lk_learn_cost := lk_flag env ''GLM_LOOKUP_COST_LEARN'' ''0'', lk_log_every := log_every\<rparr>)))))))))))))"

section \<open>Cost model\<close>

record cost_model =
  cm_points :: "(int \<times> rat) list"
  cm_draft :: rat
  cm_learn :: bool
  cm_alpha :: rat
  cm_min_samples :: nat
  cm_learned :: "int \<times> bool \<Rightarrow> (rat \<times> nat) option"
  cm_seen :: "(int \<times> bool) set"

fun cost_parts :: "string list \<Rightarrow> (int \<times> rat) list \<Rightarrow> rat \<Rightarrow> ((int \<times> rat) list \<times> rat) result" where
  "cost_parts [] pts draft = Inr (pts, draft)"
| "cost_parts (part # parts) pts draft =
     (case partition_on (CHR '':'') (strip part) of (name, _, val) \<Rightarrow>
        if name = ''draft'' then bind_r (py_float val) (\<lambda>x. cost_parts parts pts x)
        else if starts_with ''v'' name then
          bind_r (py_int (tl name)) (\<lambda>k. bind_r (py_float val) (\<lambda>x. cost_parts parts (AList.update k x pts) draft))
        else cost_parts parts pts draft)"

definition cost_new :: "string \<Rightarrow> bool \<Rightarrow> cost_model result" where
  "cost_new spec learn =
     bind_r (cost_parts (split_on (CHR '','') spec) [] (31 / 10)) (\<lambda>(pts, draft).
       if length pts < 1 then Inl ValueError
       else Inr \<lparr>cm_points = sort_key fst pts, cm_draft = draft, cm_learn = learn, cm_alpha = 1 / 10,
                 cm_min_samples = 8, cm_learned = Map.empty, cm_seen = {}\<rparr>)"

text \<open>The line through the two table points next to \<open>k\<close>.\<close>

definition lerp :: "int \<times> rat \<Rightarrow> int \<times> rat \<Rightarrow> int \<Rightarrow> rat" where
  "lerp lo hi k = snd lo + (snd hi - snd lo) / of_int (fst hi - fst lo) * of_int (k - fst lo)"

definition cm_verify :: "cost_model \<Rightarrow> int \<Rightarrow> rat" where
  "cm_verify cm k =
     (let ps = cm_points cm; n = length ps
      in if n = 1 then snd (hd ps)
         else if k \<le> fst (hd ps) then lerp (ps ! 0) (ps ! 1) k
         else if fst (last ps) \<le> k then lerp (ps ! (n - 2)) (ps ! (n - 1)) k
         else let i = length (takeWhile (\<lambda>p. fst p < k) ps)
              in if fst (ps ! i) = k then snd (ps ! i) else lerp (ps ! (i - 1)) (ps ! i) k)"

definition cm_step :: "cost_model \<Rightarrow> int \<Rightarrow> bool \<Rightarrow> rat" where
  "cm_step cm k drafted =
     (let base = cm_verify cm k + (if drafted then cm_draft cm else 0)
      in case cm_learned cm (k, drafted) of
           None \<Rightarrow> base
         | Some (ms, n) \<Rightarrow> if cm_learn cm \<and> cm_min_samples cm \<le> n then ms else base)"

definition cm_observe :: "cost_model \<Rightarrow> int \<Rightarrow> bool \<Rightarrow> rat \<Rightarrow> cost_model" where
  "cm_observe cm k drafted ms =
     (if (k, drafted) \<notin> cm_seen cm then cm\<lparr>cm_seen := insert (k, drafted) (cm_seen cm)\<rparr>
      else if \<not> 0 < ms \<or> 10 * cm_step cm k drafted < ms then cm
      else let (c, n) = (case cm_learned cm (k, drafted) of None \<Rightarrow> (ms, 0) | Some cell \<Rightarrow> cell);
               cm1 = cm\<lparr>cm_learned := (cm_learned cm)((k, drafted) \<mapsto> (c, n))\<rparr>
           in if cm_min_samples cm \<le> n \<and> 25 / 10 * c < ms then cm1
              else cm\<lparr>cm_learned := (cm_learned cm)((k, drafted) \<mapsto>
                     ((if n = 0 then ms else cm_alpha cm * ms + (1 - cm_alpha cm) * c), n + 1))\<rparr>)"

section \<open>Per-request state and the gate\<close>

datatype lmode = Neural | Skip | Override
datatype lsource = Src_none | Src_neural | Src_lookup | Src_junk

definition class_edges :: "nat list" where
  "class_edges = [8, 32]"

definition n_classes :: nat where
  "n_classes = length class_edges + 1"

fun agreement_class_from :: "nat \<Rightarrow> nat list \<Rightarrow> nat \<Rightarrow> nat" where
  "agreement_class_from i [] agree = i"
| "agreement_class_from i (edge # es) agree = (if agree < edge then i else agreement_class_from (Suc i) es agree)"

definition agreement_class :: "nat \<Rightarrow> nat" where
  "agreement_class agree = agreement_class_from 0 class_edges agree"

record shadow =
  sh_src :: nat
  sh_lhost :: nat
  sh_cls :: nat
  sh_agree :: nat
  sh_n :: nat

record plan_rec =
  pr_mode :: lmode
  pr_k :: int
  pr_shadow :: "shadow option"

record pending =
  pd_p :: nat
  pd_shadow :: shadow
  pd_ok :: bool
  pd_source :: lsource
  pd_k :: int
  pd_accepted :: int

record lk_state =
  ls_idx :: ctx_index
  ls_kmax :: nat
  ls_p_lookup :: "rat list list"
  ls_f_lookup :: "rat list"
  ls_n_lookup :: "int list"
  ls_p_neural :: "rat list"
  ls_plans :: "(nat \<times> plan_rec) list"
  ls_pending :: "pending list"
  ls_cur :: "(nat \<times> plan_rec \<times> bool \<times> lsource \<times> nat) option"
  ls_prev_lookup :: bool
  ls_last_shadow :: "shadow option"
  ls_streak :: bool

definition neural_prior :: "rat list" where
  "neural_prior = [62 / 100, 40 / 100, 28 / 100, 20 / 100, 15 / 100, 12 / 100, 10 / 100]"

definition lk_state_new :: "ctx_index \<Rightarrow> nat \<Rightarrow> lk_state" where
  "lk_state_new idx k =
     \<lparr>ls_idx = idx, ls_kmax = k, ls_p_lookup = replicate n_classes (replicate k 0),
      ls_f_lookup = replicate n_classes 0, ls_n_lookup = replicate n_classes 0,
      ls_p_neural = map (\<lambda>j. neural_prior ! min j (length neural_prior - 1)) [0..<k],
      ls_plans = [], ls_pending = [], ls_cur = None, ls_prev_lookup = False, ls_last_shadow = None,
      ls_streak = False\<rparr>"

definition expected_tokens :: "rat list \<Rightarrow> int \<Rightarrow> rat" where
  "expected_tokens p k = 1 + sum_list (take (nat (max 0 k)) p)"

definition rdiv :: "rat \<Rightarrow> rat \<Rightarrow> rat result" where
  "rdiv x y = (if y = 0 then Inl ZeroDivisionError else Inr (x / y))"

type_synonym candidate = "rat \<times> lmode \<times> int"

definition better :: "rat \<Rightarrow> lmode \<Rightarrow> int \<Rightarrow> candidate \<Rightarrow> candidate" where
  "better r m k best = (if fst best < r then (r, m, k) else best)"

fun best_rate ::
    "cost_model \<Rightarrow> rat list \<Rightarrow> rat list \<Rightarrow> rat \<Rightarrow> bool \<Rightarrow> int list \<Rightarrow> candidate \<Rightarrow> candidate result" where
  "best_rate cost pl pn f allow_skip [] best = Inr best"
| "best_rate cost pl pn f allow_skip (k # ks) best =
     (let el = (1 - f) * expected_tokens pl k
      in bind_r (if allow_skip
                 then bind_r (rdiv (el + f * 1) (cm_step cost k False)) (\<lambda>r. Inr (better r Skip k best))
                 else Inr best) (\<lambda>b1.
         bind_r (rdiv (el + f * expected_tokens pn k) (cm_step cost k True)) (\<lambda>r.
           best_rate cost pl pn f allow_skip ks (better r Override k b1))))"

definition choose_mode :: "lk_state \<Rightarrow> nat \<Rightarrow> int \<Rightarrow> int list \<Rightarrow> cost_model \<Rightarrow> lk_config \<Rightarrow> bool \<Rightarrow> (lmode \<times> int) result" where
  "choose_mode st cls k_policy0 cands cost cfg allow_skip =
     (if lk_force cfg = ''neural'' then Inr (Neural, k_policy0)
      else if lk_force cfg \<in> {''skip'', ''override''} then
        (if cands = [] then Inl ValueError
         else if lk_force cfg = ''skip'' \<and> allow_skip then Inr (Skip, Max (set cands))
         else Inr (Override, Max (set cands)))
      else
        let k_policy = max 1 k_policy0
        in bind_r (rdiv (expected_tokens (ls_p_neural st) k_policy) (cm_step cost k_policy True)) (\<lambda>rate_neural.
           if ls_n_lookup st ! cls < lk_min_obs cfg then Inr (Neural, k_policy)
           else bind_r (best_rate cost (ls_p_lookup st ! cls) (ls_p_neural st) (ls_f_lookup st ! cls) allow_skip
                          cands (0, Neural, k_policy)) (\<lambda>(rate_lookup, mode, k).
             let need = rate_neural * (if ls_prev_lookup st then 1 - lk_margin cfg else 1 + lk_margin cfg)
             in Inr (if mode \<noteq> Neural \<and> need < rate_lookup then (mode, k) else (Neural, k_policy)))))"

definition ema_vec :: "rat list \<Rightarrow> int \<Rightarrow> int \<Rightarrow> rat \<Rightarrow> rat list" where
  "ema_vec vec value up_to alpha =
     map (\<lambda>j. if int j < min up_to (int (length vec))
              then alpha * (if int j + 1 \<le> value then 1 else 0) + (1 - alpha) * vec ! j
              else vec ! j) [0..<length vec]"

section \<open>The planner\<close>

record plan_entry =
  pe_rid :: string
  pe_tokens :: "token list"
  pe_eligible :: bool
  pe_k_policy :: int
  pe_fixed_k :: bool

type_synonym row = "lmode \<times> nat \<times> nat \<times> int"

record step_plan =
  sp_seq :: nat
  sp_rows :: "(string \<times> row) list"
  sp_skip :: bool
  sp_k_override :: "(string \<times> int) list"

record lk_counts =
  c_plans :: nat
  c_rows_skip :: nat
  c_rows_override :: nat
  c_steps_skip :: nat
  c_no_match :: nat
  c_not_indexed :: nat
  c_sticky :: nat
  c_evals :: nat
  c_check_fail :: nat
  c_acct_ok :: nat
  c_acct_mismatch :: nat
  c_resets :: int
  c_ingested :: int

record planner =
  lp_np :: bool
  lp_cfg :: lk_config
  lp_engine_k :: nat
  lp_families :: "int list"
  lp_cost :: cost_model
  lp_states :: "string \<Rightarrow> lk_state option"
  lp_c :: lk_counts
  lp_by_source :: "lsource \<Rightarrow> int \<times> int"
  lp_mismatch :: "(nat \<times> nat \<times> nat \<times> int \<times> int \<times> nat) list"

definition planner_new :: "bool \<Rightarrow> lk_config \<Rightarrow> nat \<Rightarrow> int list \<Rightarrow> planner result" where
  "planner_new np cfg engine_k families =
     (let fam = sort (remdups (filter (\<lambda>k. 1 \<le> k \<and> k \<le> int engine_k) families))
      in bind_r (cost_new (lk_cost cfg) (lk_learn_cost cfg)) (\<lambda>cost.
         Inr \<lparr>lp_np = np, lp_cfg = cfg, lp_engine_k = engine_k,
              lp_families = (if fam = [] then [int engine_k] else fam), lp_cost = cost, lp_states = Map.empty,
              lp_c = \<lparr>c_plans = 0, c_rows_skip = 0, c_rows_override = 0, c_steps_skip = 0, c_no_match = 0,
                      c_not_indexed = 0, c_sticky = 0, c_evals = 0, c_check_fail = 0, c_acct_ok = 0,
                      c_acct_mismatch = 0, c_resets = 0, c_ingested = 0\<rparr>,
              lp_by_source = (\<lambda>_. (0, 0)), lp_mismatch = []\<rparr>))"

definition lp_state :: "planner \<Rightarrow> string \<Rightarrow> lk_state" where
  "lp_state l r = (case lp_states l r of
     Some st \<Rightarrow> st
   | None \<Rightarrow> lk_state_new
       (cx_new (lp_np l) (map nat [lk_n_min (lp_cfg l)..lk_n_max (lp_cfg l)])
          (nat (lk_hot_tokens (lp_cfg l))) (lk_bulk_min (lp_cfg l))) (lp_engine_k l))"

definition lp_evict :: "planner \<Rightarrow> string \<Rightarrow> planner" where
  "lp_evict l r = l\<lparr>lp_states := (lp_states l)(r := None)\<rparr>"

text \<open>\<open>_sticky\<close>\<close>

definition sticky :: "lk_config \<Rightarrow> lk_state \<Rightarrow> shadow option" where
  "sticky cfg st = (case ls_last_shadow st of
     None \<Rightarrow> None
   | Some s0 \<Rightarrow>
       let toks = cx_tokens (ls_idx st); len = length toks; d = int len - int (sh_lhost s0)
       in if d < 0 \<or> 4 * lk_max_delta cfg < d
             \<or> py_slice toks (sh_lhost s0) len \<noteq> py_slice toks (sh_src s0) (sh_src s0 + nat d)
          then None
          else let agree = min (lk_max_agree cfg) (sh_agree s0 + nat d)
               in Some \<lparr>sh_src = sh_src s0 + nat d, sh_lhost = len, sh_cls = agreement_class agree,
                        sh_agree = agree, sh_n = min (nat (lk_n_max cfg)) agree\<rparr>)"

text \<open>The shadow of a caught-up row: the index match when it agrees enough, the sticky source when longer.\<close>

definition match_shadow :: "lk_config \<Rightarrow> ctx_index \<Rightarrow> shadow option" where
  "match_shadow cfg idx =
     (case cx_match idx (nat (lk_n_min cfg)) (nat (lk_n_max cfg)) (lk_max_agree cfg) of
        None \<Rightarrow> None
      | Some m \<Rightarrow> if lk_min_agree cfg \<le> int (m_agree m)
                  then Some \<lparr>sh_src = m_src m, sh_lhost = m_length m, sh_cls = agreement_class (m_agree m),
                             sh_agree = m_agree m, sh_n = m_n m\<rparr>
                  else None)"

definition pick_shadow :: "shadow option \<Rightarrow> shadow option \<Rightarrow> shadow option \<times> bool" where
  "pick_shadow found old =
     (case old of
        None \<Rightarrow> (found, False)
      | Some s \<Rightarrow> (case found of
                     None \<Rightarrow> (Some s, True)
                   | Some f \<Rightarrow> if sh_agree f < sh_agree s then (Some s, True) else (Some f, False)))"

text \<open>The first half of the loop body of \<open>plan\<close>: sync, match, sticky, counters.\<close>

definition plan_lookup :: "planner \<Rightarrow> plan_entry \<Rightarrow> int \<Rightarrow> planner \<times> lk_state \<times> shadow option \<times> int" where
  "plan_lookup l e budget =
     (let st = lp_state l (pe_rid e);
          (idx, caught, used) = cx_sync (ls_idx st) (pe_tokens e) budget;
          st1 = st\<lparr>ls_idx := idx\<rparr>;
          c = lp_c l;
          c1 = c\<lparr>c_ingested := c_ingested c + used,
                 c_resets := c_resets c + (int (cx_resets idx) - int (cx_resets (ls_idx st)))\<rparr>;
          (sh, stuck) = (if caught then pick_shadow (match_shadow (lp_cfg l) idx) (sticky (lp_cfg l) st1)
                         else (None, False));
          c2 = (if \<not> caught then c1\<lparr>c_not_indexed := c_not_indexed c1 + 1\<rparr>
                else c1\<lparr>c_sticky := c_sticky c1 + (if stuck then 1 else 0),
                        c_no_match := c_no_match c1 + (if sh = None then 1 else 0)\<rparr>);
          st2 = (if caught then st1\<lparr>ls_last_shadow := sh\<rparr> else st1)
      in (l\<lparr>lp_c := c2\<rparr>, st2, sh, budget - used))"

definition prune_plans :: "(nat \<times> plan_rec) list \<Rightarrow> (nat \<times> plan_rec) list" where
  "prune_plans plans =
     (let drop_seqs = take (length plans - 8) (sort (map fst plans))
      in filter (\<lambda>(s, _). s \<notin> set drop_seqs) plans)"

definition record_plan :: "nat \<Rightarrow> plan_rec \<Rightarrow> lk_state \<Rightarrow> lk_state" where
  "record_plan seq rec st =
     (let plans = AList.update seq rec (ls_plans st)
      in st\<lparr>ls_plans := if 8 < length plans then prune_plans plans else plans\<rparr>)"

type_synonym plan_acc = "planner \<times> (string \<times> row) list \<times> (string \<times> int) list \<times> int"

definition put_state :: "planner \<Rightarrow> string \<Rightarrow> lk_state \<Rightarrow> planner" where
  "put_state l r st = l\<lparr>lp_states := (lp_states l)(r \<mapsto> st)\<rparr>"

definition candidates :: "planner \<Rightarrow> plan_entry \<Rightarrow> int \<Rightarrow> int list" where
  "candidates l e n_batch =
     (if n_batch = 1 \<and> \<not> pe_fixed_k e then lp_families l
      else let fs = filter (\<lambda>k. k = pe_k_policy e) (lp_families l) in if fs = [] then [pe_k_policy e] else fs)"

definition can_plan :: "lk_config \<Rightarrow> int \<Rightarrow> bool" where
  "can_plan cfg n_batch = (lk_mode cfg = ''on'' \<and> n_batch \<le> lk_max_batch cfg)"

text \<open>The mode and length of one row: neural at the policy length unless the gate applies and says otherwise.\<close>

definition plan_gate :: "planner \<Rightarrow> lk_state \<Rightarrow> shadow option \<Rightarrow> plan_entry \<Rightarrow> int \<Rightarrow> nat \<Rightarrow> (lmode \<times> int) result" where
  "plan_gate l st sh e n_batch n_entries =
     (case sh of
        None \<Rightarrow> Inr (Neural, pe_k_policy e)
      | Some s \<Rightarrow>
          if can_plan (lp_cfg l) n_batch \<and> pe_eligible e \<and> 0 < pe_k_policy e
          then choose_mode st (sh_cls s) (pe_k_policy e) (candidates l e n_batch) (lp_cost l) (lp_cfg l)
                 (lk_skip (lp_cfg l) \<and> n_batch = int n_entries \<and>
                  (ls_streak st \<or> \<not> lk_skip_streak (lp_cfg l) \<or> lk_force (lp_cfg l) = ''skip''))
          else Inr (Neural, pe_k_policy e))"

text \<open>One pass of the loop of \<open>plan\<close>. \<open>n_entries\<close> is \<open>len(entries)\<close>.\<close>

definition plan_entry_step :: "nat \<Rightarrow> int \<Rightarrow> nat \<Rightarrow> plan_acc \<Rightarrow> plan_entry \<Rightarrow> plan_acc result" where
  "plan_entry_step seq n_batch n_entries acc e =
     (case acc of (l0, rows, k_over, budget) \<Rightarrow>
        case plan_lookup l0 e budget of (l, st, sh, budget') \<Rightarrow>
        let cfg = lp_cfg l; k_policy = pe_k_policy e
        in if starts_with ''alt-'' (lk_force cfg) \<and> can_plan cfg n_batch \<and> pe_eligible e \<and> 0 < k_policy then
             (if seq mod 2 = 0 then
                let mode = (if lk_force cfg = ''alt-skip'' \<and> n_batch = int n_entries then Skip else Override);
                    len = length (cx_tokens (ls_idx st));
                    (src, lh) = (case sh of Some s \<Rightarrow> (sh_src s, sh_lhost s) | None \<Rightarrow> (len - 1, len));
                    st' = st\<lparr>ls_plans := AList.update seq \<lparr>pr_mode = mode, pr_k = k_policy, pr_shadow = sh\<rparr> (ls_plans st)\<rparr>
                in Inr (put_state l (pe_rid e) st', AList.update (pe_rid e) (mode, src, lh, k_policy) rows, k_over, budget')
              else
                let st' = st\<lparr>ls_plans := AList.update seq \<lparr>pr_mode = Neural, pr_k = k_policy, pr_shadow = sh\<rparr> (ls_plans st)\<rparr>
                in Inr (put_state l (pe_rid e) st', rows, k_over, budget'))
           else
             bind_r (plan_gate l st sh e n_batch n_entries) (\<lambda>(mode, k).
               let l' = put_state l (pe_rid e) (record_plan seq \<lparr>pr_mode = mode, pr_k = k, pr_shadow = sh\<rparr> st)
               in case (mode, sh) of
                    (Neural, _) \<Rightarrow> Inr (l', rows, k_over, budget')
                  | (_, None) \<Rightarrow> Inl TypeError
                  | (_, Some s) \<Rightarrow>
                      Inr (l', AList.update (pe_rid e) (mode, sh_src s, sh_lhost s, k) rows,
                           if k \<noteq> k_policy then AList.update (pe_rid e) k k_over else k_over, budget')))"

fun plan_entries :: "nat \<Rightarrow> int \<Rightarrow> nat \<Rightarrow> plan_acc \<Rightarrow> plan_entry list \<Rightarrow> plan_acc result" where
  "plan_entries seq n_batch n_entries acc [] = Inr acc"
| "plan_entries seq n_batch n_entries acc (e # es) =
     bind_r (plan_entry_step seq n_batch n_entries acc e) (\<lambda>acc'. plan_entries seq n_batch n_entries acc' es)"

text \<open>When the forward runs for the batch every skip row, and its record, becomes an override row.\<close>

fun demote_rows :: "nat \<Rightarrow> planner \<Rightarrow> (string \<times> row) list \<Rightarrow> (planner \<times> (string \<times> row) list) result" where
  "demote_rows seq l [] = Inr (l, [])"
| "demote_rows seq l ((r, mode, rest) # rows) =
     (if mode = Skip then
        (case lp_states l r of
           None \<Rightarrow> Inl KeyError
         | Some st \<Rightarrow>
             (case map_of (ls_plans st) seq of
                None \<Rightarrow> Inl KeyError
              | Some rec \<Rightarrow>
                  bind_r (demote_rows seq
                    (put_state l r (st\<lparr>ls_plans := AList.update seq (rec\<lparr>pr_mode := Override\<rparr>) (ls_plans st)\<rparr>)) rows)
                    (\<lambda>(l', rows'). Inr (l', (r, Override, rest) # rows'))))
      else bind_r (demote_rows seq l rows) (\<lambda>(l', rows'). Inr (l', (r, mode, rest) # rows')))"

fun mark_prev :: "string set \<Rightarrow> planner \<Rightarrow> string list \<Rightarrow> planner" where
  "mark_prev rs l [] = l"
| "mark_prev rs l (r # rids) =
     (case lp_states l r of
        None \<Rightarrow> mark_prev rs l rids
      | Some st \<Rightarrow> mark_prev rs (put_state l r (st\<lparr>ls_prev_lookup := (r \<in> rs)\<rparr>)) rids)"

definition is_skip_row :: "string \<times> row \<Rightarrow> bool" where
  "is_skip_row x = (fst (snd x) = Skip)"

definition lp_plan :: "planner \<Rightarrow> nat \<Rightarrow> plan_entry list \<Rightarrow> int \<Rightarrow> (planner \<times> step_plan) result" where
  "lp_plan l0 seq entries n_batch =
     bind_r (plan_entries seq n_batch (length entries) (l0, [], [], lk_ingest_budget (lp_cfg l0)) entries)
       (\<lambda>(l1, rows, k_over, _).
     let skip = (rows \<noteq> [] \<and> int (length rows) = n_batch \<and> list_all is_skip_row rows)
     in bind_r (if skip then Inr (l1, rows) else demote_rows seq l1 rows) (\<lambda>(l2, rows2).
     let n_skip = length (filter is_skip_row rows2);
         c = lp_c l2;
         l3 = l2\<lparr>lp_c := c\<lparr>c_rows_skip := c_rows_skip c + n_skip,
                            c_rows_override := c_rows_override c + (length rows2 - n_skip),
                            c_steps_skip := c_steps_skip c + (if skip then 1 else 0),
                            c_plans := c_plans c + 1\<rparr>\<rparr>
     in Inr (mark_prev (fst ` set rows2) l3 (map pe_rid entries),
             \<lparr>sp_seq = seq, sp_rows = rows2, sp_skip = skip, sp_k_override = k_over\<rparr>)))"

section \<open>Attribution\<close>

definition lp_classify :: "planner \<Rightarrow> nat \<Rightarrow> string \<Rightarrow> nat \<Rightarrow> planner \<times> lsource" where
  "lp_classify l seq r pre_len =
     (case lp_states l r of
        None \<Rightarrow> (l, Src_none)
      | Some st \<Rightarrow>
          let older = filter (\<lambda>s. s < seq) (map fst (ls_plans st))
          in if older = [] then (put_state l r (st\<lparr>ls_cur := None\<rparr>), Src_none)
             else let rec = the (map_of (ls_plans st) (Max (set older)));
                      plans = filter (\<lambda>(s, _). \<not> s < seq) (ls_plans st);
                      toks = cx_tokens (ls_idx st);
                      ok = (case pr_shadow rec of
                              None \<Rightarrow> False
                            | Some sh \<Rightarrow> pre_len \<le> length toks \<and>
                                replay_check toks (int pre_len) (int (sh_src sh)) (int (sh_lhost sh))
                                  (lk_max_delta (lp_cfg l)));
                      source = (if pr_mode rec \<noteq> Neural \<and> ok then Src_lookup
                                else if pr_mode rec = Skip then Src_junk else Src_neural)
                  in (put_state l r (st\<lparr>ls_plans := plans, ls_cur := Some (seq, rec, ok, source, pre_len)\<rparr>), source))"

definition account :: "planner \<Rightarrow> pending \<Rightarrow> token option list \<Rightarrow> nat \<Rightarrow> planner" where
  "account l pd draft lcp =
     (let k = pd_k pd;
          holes = length (takeWhile (\<lambda>t. t \<noteq> None) draft);
          firm = min k (int holes);
          ok = (if int lcp < firm then pd_accepted pd = int lcp else firm \<le> pd_accepted pd \<and> pd_accepted pd \<le> k);
          c = lp_c l
      in if ok then l\<lparr>lp_c := c\<lparr>c_acct_ok := c_acct_ok c + 1\<rparr>\<rparr>
         else l\<lparr>lp_c := c\<lparr>c_acct_mismatch := c_acct_mismatch c + 1\<rparr>,
                lp_mismatch := (if length (lp_mismatch l) < 32
                  then lp_mismatch l @ [(pd_p pd, sh_src (pd_shadow pd), sh_lhost (pd_shadow pd), k, pd_accepted pd, lcp)]
                  else lp_mismatch l)\<rparr>)"

text \<open>One pending step, folded into the statistics of its class.\<close>

definition resolve_one :: "bool \<Rightarrow> planner \<Rightarrow> lk_state \<Rightarrow> pending \<Rightarrow> (planner \<times> lk_state) result" where
  "resolve_one final l st pd =
     (let toks = cx_tokens (ls_idx st);
          a = lk_alpha (lp_cfg l);
          ek = lp_engine_k l
      in if length toks < pd_p pd then Inr (l, st)
         else let cls = sh_cls (pd_shadow pd);
                  l1 = l\<lparr>lp_c := (lp_c l)\<lparr>c_evals := c_evals (lp_c l) + 1\<rparr>\<rparr>;
                  st1 = st\<lparr>ls_f_lookup := (ls_f_lookup st)[cls :=
                             a * (if pd_ok pd then 0 else 1) + (1 - a) * ls_f_lookup st ! cls]\<rparr>
              in if \<not> pd_ok pd then
                   Inr (l1\<lparr>lp_c := (lp_c l1)\<lparr>c_check_fail := c_check_fail (lp_c l1) + 1\<rparr>\<rparr>,
                        st1\<lparr>ls_n_lookup := (ls_n_lookup st1)[cls := ls_n_lookup st1 ! cls + 1]\<rparr>)
                 else bind_r (lookup_draft toks (int (pd_p pd)) (int (sh_src (pd_shadow pd)))
                                (int (sh_lhost (pd_shadow pd))) ek (lk_periodic (lp_cfg l))) (\<lambda>draft.
                   let lcp = common_prefix draft toks (pd_p pd);
                       st2 = (if \<not> final \<or> pd_p pd + ek \<le> length toks
                              then st1\<lparr>ls_p_lookup := (ls_p_lookup st1)[cls :=
                                         ema_vec (ls_p_lookup st1 ! cls) (int lcp) (int ek) a],
                                       ls_n_lookup := (ls_n_lookup st1)[cls := ls_n_lookup st1 ! cls + 1]\<rparr>
                              else st1)
                   in Inr (if pd_source pd = Src_lookup then account l1 pd draft lcp else l1, st2)))"

fun resolve_loop :: "bool \<Rightarrow> planner \<Rightarrow> lk_state \<Rightarrow> pending list \<Rightarrow> (planner \<times> lk_state) result" where
  "resolve_loop final l st [] = Inr (l, st\<lparr>ls_pending := []\<rparr>)"
| "resolve_loop final l st (pd # pds) =
     (if \<not> final \<and> length (cx_tokens (ls_idx st)) < pd_p pd + lp_engine_k l
      then Inr (l, st\<lparr>ls_pending := pd # pds\<rparr>)
      else bind_r (resolve_one final l st pd) (\<lambda>(l', st'). resolve_loop final l' st' pds))"

definition lp_observe :: "planner \<Rightarrow> nat \<Rightarrow> string \<Rightarrow> int \<Rightarrow> int \<Rightarrow> token list \<Rightarrow> planner result" where
  "lp_observe l seq r k_sched accepted tokens_after =
     (case lp_states l r of
        None \<Rightarrow> Inr l
      | Some st \<Rightarrow>
          (case ls_cur st of
             None \<Rightarrow> Inr l
           | Some (cseq, rec, ok, source, pre_len) \<Rightarrow>
               if cseq \<noteq> seq then Inr l
               else
                 let (idx, caught, used) = cx_sync (ls_idx st) tokens_after (lk_ingest_budget (lp_cfg l));
                     st1 = st\<lparr>ls_cur := None, ls_idx := idx\<rparr>;
                     l1 = l\<lparr>lp_c := (lp_c l)\<lparr>c_ingested := c_ingested (lp_c l) + used\<rparr>\<rparr>
                 in if k_sched \<le> 0 then Inr (put_state l1 r st1)
                    else
                      let (steps, toks) = lp_by_source l1 source;
                          l2 = l1\<lparr>lp_by_source := (lp_by_source l1)(source := (steps + 1, toks + (accepted + 1)))\<rparr>;
                          st2 = (if source = Src_neural
                                 then st1\<lparr>ls_p_neural := ema_vec (ls_p_neural st1) accepted k_sched (lk_alpha (lp_cfg l))\<rparr>
                                 else st1);
                          st3 = (if source = Src_lookup \<or> source = Src_junk
                                 then st2\<lparr>ls_streak := (source = Src_lookup \<and> k_sched \<le> accepted)\<rparr> else st2);
                          pend = (case pr_shadow rec of
                                    None \<Rightarrow> ls_pending st3
                                  | Some sh \<Rightarrow> ls_pending st3 @ [\<lparr>pd_p = pre_len, pd_shadow = sh, pd_ok = ok,
                                      pd_source = source, pd_k = k_sched, pd_accepted = accepted\<rparr>])
                      in bind_r (resolve_loop False l2 st3 pend) (\<lambda>(l3, st4). Inr (put_state l3 r st4))))"

definition lp_finish :: "planner \<Rightarrow> string \<Rightarrow> planner result" where
  "lp_finish l r =
     (case lp_states l r of
        None \<Rightarrow> Inr (lp_evict l r)
      | Some st \<Rightarrow> bind_r (resolve_loop True l st (ls_pending st)) (\<lambda>(l', st'). Inr (lp_evict (put_state l' r st') r)))"

text \<open>The lengths of the dense table with a graph each; an entry is given by its last element, when it has one.\<close>

definition families_from_table :: "int option list \<Rightarrow> int \<Rightarrow> int list" where
  "families_from_table table engine_k =
     (let ks = sort (remdups (filter (\<lambda>k. 1 \<le> k \<and> k \<le> engine_k) (concat (map (\<lambda>e. case e of None \<Rightarrow> [] | Some k \<Rightarrow> [k]) table))))
      in if ks = [] then [engine_k] else ks)"

end
