(* ===== verification/Lookup_Plan_Props.thy ===== *)
theory Lookup_Plan_Props
  imports Lookup_Plan
begin

text \<open>
  What the planner of \<open>src/overlay/glm_lookup_draft.py\<close> guarantees: the gate picks a lookup mode only when its
  expected rate beats the neural one, a step plan is consistent with what the workers do with it, the agreement a
  plan reports is real as long as the history only grows, and the statistics stay probabilities.
\<close>

section \<open>The gate\<close>

definition lookup_rate :: "cost_model \<Rightarrow> rat list \<Rightarrow> rat list \<Rightarrow> rat \<Rightarrow> int \<Rightarrow> bool \<Rightarrow> rat" where
  "lookup_rate cost pl pn f k drafted =
     ((1 - f) * expected_tokens pl k + f * (if drafted then expected_tokens pn k else 1)) / cm_step cost k drafted"

lemma rdiv_Inr [simp]: "rdiv x y = Inr r \<longleftrightarrow> y \<noteq> 0 \<and> r = x / y"
  by (auto simp: rdiv_def)

lemma better_fst: "fst (better r m k b) = max (fst b) r"
  by (auto simp: better_def max_def)

definition cand_ok :: "cost_model \<Rightarrow> rat list \<Rightarrow> rat list \<Rightarrow> rat \<Rightarrow> bool \<Rightarrow> int list \<Rightarrow> candidate \<Rightarrow> bool" where
  "cand_ok cost pl pn f sk ks b \<longleftrightarrow>
     (case b of (r, m, k) \<Rightarrow> k \<in> set ks \<and> m \<noteq> Neural \<and> (m = Skip \<longrightarrow> sk) \<and>
        r = lookup_rate cost pl pn f k (m = Override))"

lemma cand_ok_mono: "cand_ok cost pl pn f sk ks b \<Longrightarrow> cand_ok cost pl pn f sk (k # ks) b"
  by (auto simp: cand_ok_def split: prod.splits)

lemma best_rate_Cons:
  assumes "best_rate cost pl pn f sk (k # ks) b = Inr b'"
  shows "\<exists>b2. best_rate cost pl pn f sk ks b2 = Inr b' \<and>
           (b2 = b \<or> cand_ok cost pl pn f sk [k] b2) \<and>
           fst b \<le> fst b2 \<and> lookup_rate cost pl pn f k True \<le> fst b2 \<and> (sk \<longrightarrow> lookup_rate cost pl pn f k False \<le> fst b2)"
proof -
  let ?rs = "lookup_rate cost pl pn f k False"
  let ?ro = "lookup_rate cost pl pn f k True"
  let ?b1 = "if sk then better ?rs Skip k b else b"
  let ?b2 = "better ?ro Override k ?b1"
  have "best_rate cost pl pn f sk ks ?b2 = Inr b'"
    using assms by (auto simp: Let_def bind_r_Inr_iff lookup_rate_def split: if_splits)
  moreover have "?b2 = b \<or> cand_ok cost pl pn f sk [k] ?b2"
    by (auto simp: better_def cand_ok_def)
  moreover have "fst b \<le> fst ?b2 \<and> ?ro \<le> fst ?b2 \<and> (sk \<longrightarrow> ?rs \<le> fst ?b2)"
    by (auto simp: better_fst)
  ultimately show ?thesis by blast
qed

lemma best_rate_props:
  "best_rate cost pl pn f sk ks b = Inr b' \<Longrightarrow>
   (b' = b \<or> cand_ok cost pl pn f sk ks b') \<and> fst b \<le> fst b' \<and>
   (\<forall>k\<in>set ks. lookup_rate cost pl pn f k True \<le> fst b' \<and> (sk \<longrightarrow> lookup_rate cost pl pn f k False \<le> fst b'))"
proof (induction ks arbitrary: b)
  case (Cons k ks)
  obtain b2 where b2: "best_rate cost pl pn f sk ks b2 = Inr b'" "b2 = b \<or> cand_ok cost pl pn f sk [k] b2"
    "fst b \<le> fst b2" "lookup_rate cost pl pn f k True \<le> fst b2" "sk \<longrightarrow> lookup_rate cost pl pn f k False \<le> fst b2"
    using best_rate_Cons [OF Cons.prems] by blast
  have "cand_ok cost pl pn f sk [k] b2 \<Longrightarrow> cand_ok cost pl pn f sk (k # ks) b2"
    by (auto simp: cand_ok_def split: prod.splits)
  with b2 Cons.IH [OF b2(1)] show ?case
    by (auto intro: cand_ok_mono order_trans)
qed simp

definition neural_need :: "lk_state \<Rightarrow> cost_model \<Rightarrow> lk_config \<Rightarrow> int \<Rightarrow> rat" where
  "neural_need st cost cfg k =
     expected_tokens (ls_p_neural st) k / cm_step cost k True *
     (if ls_prev_lookup st then 1 - lk_margin cfg else 1 + lk_margin cfg)"

lemma choose_mode_cases:
  assumes "choose_mode st cls kp cands cost cfg sk = Inr (mode, k)"
  shows "mode = Neural \<or> (k \<in> set cands \<and> (mode = Skip \<longrightarrow> sk))"
proof (cases "lk_force cfg \<in> {''neural'', ''skip'', ''override''}")
  case True
  have "cands \<noteq> [] \<Longrightarrow> Max (set cands) \<in> set cands" by simp
  with True assms show ?thesis by (auto simp: choose_mode_def split: if_splits)
next
  case False
  then show ?thesis
    using assms by (auto simp: choose_mode_def Let_def bind_r_Inr_iff cand_ok_def split: if_splits dest: best_rate_props)
qed

text \<open>
  The gate is optimal: without a forced mode, a lookup mode is chosen only for an allowed candidate whose
  expected tokens per millisecond is the best of all candidates and clears the neural rate by the margin; and when
  the class has enough observations and the neural draft is kept, no candidate clears it.
\<close>

lemma choose_mode_optimal:
  assumes "lk_force cfg \<notin> {''neural'', ''skip'', ''override''}"
    and "choose_mode st cls k_policy cands cost cfg allow_skip = Inr (mode, k)"
    and "rate = lookup_rate cost (ls_p_lookup st ! cls) (ls_p_neural st) (ls_f_lookup st ! cls)"
    and "need = neural_need st cost cfg (max 1 k_policy)"
  shows "(mode \<noteq> Neural \<longrightarrow>
            k \<in> set cands \<and> (mode = Skip \<longrightarrow> allow_skip) \<and> lk_min_obs cfg \<le> ls_n_lookup st ! cls \<and>
            need < rate k (mode = Override) \<and>
            (\<forall>k'\<in>set cands. rate k' True \<le> rate k (mode = Override) \<and>
                             (allow_skip \<longrightarrow> rate k' False \<le> rate k (mode = Override)))) \<and>
         (mode = Neural \<longrightarrow> k = max 1 k_policy \<and>
            (lk_min_obs cfg \<le> ls_n_lookup st ! cls \<longrightarrow>
               (\<forall>k'\<in>set cands. rate k' True \<le> max 0 need \<and> (allow_skip \<longrightarrow> rate k' False \<le> max 0 need))))"
proof (cases "ls_n_lookup st ! cls < lk_min_obs cfg")
  case True
  then show ?thesis using assms(1,2) by (auto simp: choose_mode_def Let_def bind_r_Inr_iff)
next
  case False
  obtain r m k0 where b: "best_rate cost (ls_p_lookup st ! cls) (ls_p_neural st) (ls_f_lookup st ! cls) allow_skip cands
      (0, Neural, max 1 k_policy) = Inr (r, m, k0)"
    and mk: "(mode, k) = (if m \<noteq> Neural \<and> need < r then (m, k0) else (Neural, max 1 k_policy))"
    using assms(1,2,4) False by (auto simp: choose_mode_def Let_def bind_r_Inr_iff neural_need_def)
  note B = best_rate_props [OF b, folded assms(3)]
  have zero: "m = Neural \<Longrightarrow> r = 0" using B by (auto simp: cand_ok_def)
  have win: "m \<noteq> Neural \<Longrightarrow> k0 \<in> set cands \<and> (m = Skip \<longrightarrow> allow_skip) \<and> r = rate k0 (m = Override)"
    using B by (auto simp: cand_ok_def assms(3))
  have all: "\<forall>k'\<in>set cands. rate k' True \<le> r \<and> (allow_skip \<longrightarrow> rate k' False \<le> r)" using B by simp
  show ?thesis
  proof (cases "m \<noteq> Neural \<and> need < r")
    case True
    with mk have "mode = m" "k = k0" by simp_all
    then show ?thesis using True win all False by auto
  next
    case lose: False
    then have "r \<le> max 0 need" using zero by (cases "m = Neural") auto
    then have "\<forall>k'\<in>set cands. rate k' True \<le> max 0 need \<and> (allow_skip \<longrightarrow> rate k' False \<le> max 0 need)"
      using all order_trans by blast
    then show ?thesis using mk lose by auto
  qed
qed

definition demo_cost :: cost_model where
  "demo_cost = \<lparr>cm_points = [(3, 36), (7, 46)], cm_draft = 3, cm_learn = False, cm_alpha = 1 / 10,
     cm_min_samples = 8, cm_learned = Map.empty, cm_seen = {}\<rparr>"

definition demo_state :: lk_state where
  "demo_state = (lk_state_new (cx_new False [2] 16 64) 7)\<lparr>ls_p_lookup := replicate 3 (replicate 7 1), ls_n_lookup := [5, 5, 5]\<rparr>"

section \<open>The shape of a step plan\<close>

lemma update_fresh: "k \<notin> fst ` set al \<Longrightarrow> AList.update k v al = al @ [(k, v)]"
  by (induction al) auto

definition row_from :: "lk_config \<Rightarrow> int list \<Rightarrow> int \<Rightarrow> plan_entry list \<Rightarrow> (string \<times> int) list \<Rightarrow> string \<times> row \<Rightarrow> bool" where
  "row_from cfg fams n_batch es k_over x \<longleftrightarrow>
     (case x of (r, mode, src, lh, k) \<Rightarrow>
        mode \<noteq> Neural \<and> lk_mode cfg = ''on'' \<and> n_batch \<le> lk_max_batch cfg \<and>
        (\<exists>e\<in>set es. pe_rid e = r \<and> pe_eligible e \<and> 0 < pe_k_policy e \<and> (k = pe_k_policy e \<or> k \<in> set fams) \<and>
                    map_of k_over r = (if k = pe_k_policy e then None else Some k)))"

definition acc_ok :: "lk_config \<Rightarrow> int list \<Rightarrow> int \<Rightarrow> plan_entry list \<Rightarrow> plan_acc \<Rightarrow> bool" where
  "acc_ok cfg fams n_batch es acc \<longleftrightarrow>
     (case acc of (l, rows, k_over, b) \<Rightarrow>
        lp_cfg l = cfg \<and> lp_families l = fams \<and> distinct (map fst rows) \<and>
        fst ` set rows \<subseteq> pe_rid ` set es \<and> fst ` set k_over \<subseteq> fst ` set rows \<and>
        (\<forall>x\<in>set rows. row_from cfg fams n_batch es k_over x))"

lemma row_from_more:
  "row_from cfg fams n_batch es k_over x \<Longrightarrow> map_of k_over' (fst x) = map_of k_over (fst x) \<Longrightarrow>
   row_from cfg fams n_batch (es @ [e]) k_over' x"
proof -
  assume r: "row_from cfg fams n_batch es k_over x" and m: "map_of k_over' (fst x) = map_of k_over (fst x)"
  obtain rid mode src lh k where x: "x = (rid, mode, src, lh, k)" by (cases x)
  from m have m': "map_of k_over' rid = map_of k_over rid" by (simp add: x)
  show ?thesis using r unfolding row_from_def x prod.case m' set_append by blast
qed

lemma acc_ok_skip:
  "acc_ok cfg fams n_batch es (l0, rows, k_over, b) \<Longrightarrow> lp_cfg l = lp_cfg l0 \<Longrightarrow> lp_families l = lp_families l0 \<Longrightarrow>
   acc_ok cfg fams n_batch (es @ [e]) (l, rows, k_over, b')"
  by (auto simp: acc_ok_def intro: row_from_more)

lemma acc_ok_row:
  assumes ok: "acc_ok cfg fams n_batch es (l0, rows, k_over, b)" and fresh: "pe_rid e \<notin> pe_rid ` set es"
    and l: "lp_cfg l = lp_cfg l0" "lp_families l = lp_families l0"
    and row: "mode \<noteq> Neural" "lk_mode cfg = ''on''" "n_batch \<le> lk_max_batch cfg" "pe_eligible e" "0 < pe_k_policy e"
      "k = pe_k_policy e \<or> k \<in> set fams"
    and ko: "ko = (if k \<noteq> pe_k_policy e then AList.update (pe_rid e) k k_over else k_over)"
  shows "acc_ok cfg fams n_batch (es @ [e]) (l, AList.update (pe_rid e) (mode, src, lh, k) rows, ko, b')"
proof -
  let ?r = "pe_rid e"
  have sub: "fst ` set rows \<subseteq> pe_rid ` set es" "fst ` set k_over \<subseteq> fst ` set rows" using ok by (auto simp: acc_ok_def)
  have f1: "?r \<notin> fst ` set rows" and f2: "?r \<notin> fst ` set k_over"
    using sub fresh by blast+
  have ko': "ko = (if k \<noteq> pe_k_policy e then k_over @ [(?r, k)] else k_over)"
    unfolding ko using update_fresh [OF f2] by simp
  have n: "map_of k_over ?r = None" using f2 by (simp add: map_of_eq_None_iff)
  have old: "row_from cfg fams n_batch (es @ [e]) ko x" if "x \<in> set rows" for x
  proof (rule row_from_more)
    show "row_from cfg fams n_batch es k_over x" using ok that by (auto simp: acc_ok_def)
    have "fst x \<noteq> ?r" using f1 that by force
    then show "map_of ko (fst x) = map_of k_over (fst x)"
      by (auto simp: ko' map_add_def split: option.splits)
  qed
  have new: "row_from cfg fams n_batch (es @ [e]) ko (?r, mode, src, lh, k)"
    using row n by (auto simp: row_from_def ko' map_add_def)
  show ?thesis
    using ok l f1 old new by (auto simp: acc_ok_def update_fresh [OF f1] ko' split: if_splits)
qed

lemma plan_lookup_fields:
  "plan_lookup l e b = (l', st, sh, b') \<Longrightarrow>
   lp_cfg l' = lp_cfg l \<and> lp_families l' = lp_families l \<and> lp_cost l' = lp_cost l \<and> lp_states l' = lp_states l"
  by (auto simp: plan_lookup_def Let_def split: prod.splits)

lemma put_state_fields [simp]:
  "lp_cfg (put_state l r st) = lp_cfg l" "lp_families (put_state l r st) = lp_families l"
  "lp_cost (put_state l r st) = lp_cost l"
  by (simp_all add: put_state_def)

lemma candidates_from: "k \<in> set (candidates l e n) \<Longrightarrow> k = pe_k_policy e \<or> k \<in> set (lp_families l)"
  by (auto simp: candidates_def Let_def split: if_splits)

lemma plan_entry_step_ok:
  assumes ok: "acc_ok cfg fams n_batch es acc" and fresh: "pe_rid e \<notin> pe_rid ` set es"
    and step: "plan_entry_step seq n_batch n acc e = Inr acc'"
  shows "acc_ok cfg fams n_batch (es @ [e]) acc'"
proof -
  obtain l0 rows k_over b where acc: "acc = (l0, rows, k_over, b)" by (cases acc)
  obtain l st sh b' where pl: "plan_lookup l0 e b = (l, st, sh, b')" by (cases "plan_lookup l0 e b")
  note F = plan_lookup_fields [OF pl]
  have c: "lp_cfg l0 = cfg" "lp_families l0 = fams" using ok by (auto simp: acc acc_ok_def)
  note ok' = ok [unfolded acc]
  let ?can = "can_plan cfg n_batch"
  show ?thesis
  proof (cases "starts_with ''alt-'' (lk_force cfg) \<and> ?can \<and> pe_eligible e \<and> 0 < pe_k_policy e")
    case True
    have "(\<exists>st' mode src lh. mode \<noteq> Neural \<and> acc' = (put_state l (pe_rid e) st',
             AList.update (pe_rid e) (mode, src, lh, pe_k_policy e) rows, k_over, b')) \<or>
          (\<exists>st'. acc' = (put_state l (pe_rid e) st', rows, k_over, b'))"
      using step True F c
      by (cases "seq mod 2 = 0"; cases sh) (auto simp: plan_entry_step_def acc pl Let_def split: if_splits)
    then show ?thesis
    proof (elim disjE exE conjE)
      fix st' mode src lh
      assume m: "mode \<noteq> Neural" and a: "acc' = (put_state l (pe_rid e) st',
             AList.update (pe_rid e) (mode, src, lh, pe_k_policy e) rows, k_over, b')"
      show ?thesis unfolding a
        by (rule acc_ok_row [OF ok' fresh]) (use F c True m in \<open>simp_all add: can_plan_def\<close>)
    next
      fix st' assume a: "acc' = (put_state l (pe_rid e) st', rows, k_over, b')"
      show ?thesis unfolding a by (rule acc_ok_skip [OF ok']) (use F in simp_all)
    qed
  next
    case False
    obtain mode k where ch: "plan_gate l st sh e n_batch n = Inr (mode, k)"
      using step False F c by (cases "plan_gate l st sh e n_batch n") (auto simp: plan_entry_step_def acc pl Let_def)
    let ?st = "record_plan seq \<lparr>pr_mode = mode, pr_k = k, pr_shadow = sh\<rparr> st"
    have acc': "mode = Neural \<and> acc' = (put_state l (pe_rid e) ?st, rows, k_over, b') \<or>
        (\<exists>s. sh = Some s \<and> mode \<noteq> Neural \<and> acc' = (put_state l (pe_rid e) ?st,
            AList.update (pe_rid e) (mode, sh_src s, sh_lhost s, k) rows,
            if k \<noteq> pe_k_policy e then AList.update (pe_rid e) k k_over else k_over, b'))"
      using step False F c ch
      by (cases mode; cases sh) (simp_all add: plan_entry_step_def acc pl Let_def)
    show ?thesis
    proof (cases "mode = Neural")
      case True
      with acc' have a: "acc' = (put_state l (pe_rid e) ?st, rows, k_over, b')" by simp
      show ?thesis unfolding a by (rule acc_ok_skip [OF ok']) (use F in simp_all)
    next
      case nn: False
      then obtain s where s: "sh = Some s" and a: "acc' = (put_state l (pe_rid e) ?st,
            AList.update (pe_rid e) (mode, sh_src s, sh_lhost s, k) rows,
            if k \<noteq> pe_k_policy e then AList.update (pe_rid e) k k_over else k_over, b')" using acc' by auto
      have elig: "?can \<and> pe_eligible e \<and> 0 < pe_k_policy e"
        using ch nn s F c by (auto simp: plan_gate_def split: if_splits)
      have "k \<in> set (candidates l e n_batch)"
        using ch nn s elig F c choose_mode_cases by (fastforce simp: plan_gate_def split: if_splits)
      then have k: "k = pe_k_policy e \<or> k \<in> set fams" using candidates_from F c by metis
      show ?thesis unfolding a
        by (rule acc_ok_row [OF ok' fresh]) (use F c elig nn k in \<open>simp_all add: can_plan_def\<close>)
    qed
  qed
qed

lemma plan_entries_ok:
  "acc_ok cfg fams n_batch done acc \<Longrightarrow> distinct (map pe_rid (done @ es)) \<Longrightarrow>
   plan_entries seq n_batch n acc es = Inr acc' \<Longrightarrow> acc_ok cfg fams n_batch (done @ es) acc'"
proof (induction es arbitrary: acc "done")
  case (Cons e es)
  then obtain acc1 where s: "plan_entry_step seq n_batch n acc e = Inr acc1"
    and r: "plan_entries seq n_batch n acc1 es = Inr acc'" by (auto simp: bind_r_Inr_iff)
  have "acc_ok cfg fams n_batch (done @ [e]) acc1"
    by (rule plan_entry_step_ok [OF Cons.prems(1) _ s]) (use Cons.prems(2) in auto)
  from Cons.IH [OF this _ r] Cons.prems(2) show ?case by simp
qed simp

definition demote :: "string \<times> row \<Rightarrow> string \<times> row" where
  "demote x = (case x of (r, mode, rest) \<Rightarrow> (r, if mode = Skip then Override else mode, rest))"

lemma demote_rows_eq: "demote_rows seq l rows = Inr (l', rows') \<Longrightarrow> rows' = map demote rows"
  by (induction seq l rows arbitrary: l' rows' rule: demote_rows.induct)
    (auto simp: bind_r_Inr_iff demote_def split: if_splits option.splits)

lemma fst_demote [simp]: "fst (demote x) = fst x"
  by (cases x) (simp add: demote_def)

lemma row_from_demote: "row_from cfg fams n_batch es ko x \<Longrightarrow> row_from cfg fams n_batch es ko (demote x)"
  by (auto simp: row_from_def demote_def split: prod.splits)

text \<open>The lengths to resize name a request once.\<close>

lemma plan_step_over:
  assumes "plan_entry_step seq n_batch n (l, rows, ko, b) e = Inr (l', rows', ko', b')" and "distinct (map fst ko)"
  shows "distinct (map fst ko')"
  using assms
  by (auto simp: plan_entry_step_def Let_def bind_r_Inr_iff distinct_update split: prod.splits if_splits option.splits lmode.splits)

lemma plan_entries_over:
  "plan_entries seq n_batch n (l, rows, ko, b) es = Inr (l', rows', ko', b') \<Longrightarrow> distinct (map fst ko) \<Longrightarrow> distinct (map fst ko')"
proof (induction es arbitrary: l rows ko b)
  case (Cons e es)
  then obtain l1 rows1 ko1 b1 where "plan_entry_step seq n_batch n (l, rows, ko, b) e = Inr (l1, rows1, ko1, b1)"
    "plan_entries seq n_batch n (l1, rows1, ko1, b1) es = Inr (l', rows', ko', b')"
    by (auto simp: bind_r_Inr_iff)
  with plan_step_over Cons show ?case by blast
qed simp

lemma lp_plan_over:
  assumes "lp_plan l seq entries n_batch = Inr (l', plan)" and "distinct (map pe_rid entries)"
  shows "distinct (map fst (sp_k_override plan)) \<and> fst ` set (sp_k_override plan) \<subseteq> fst ` set (sp_rows plan)"
proof -
  obtain l1 rows k_over b where pe: "plan_entries seq n_batch (length entries)
      (l, [], [], lk_ingest_budget (lp_cfg l)) entries = Inr (l1, rows, k_over, b)"
    using assms(1) by (auto simp: lp_plan_def bind_r_Inr_iff)
  have "acc_ok (lp_cfg l) (lp_families l) n_batch [] (l, [], [], lk_ingest_budget (lp_cfg l))"
    by (simp add: acc_ok_def)
  from plan_entries_ok [OF this _ pe] assms(2)
  have "fst ` set k_over \<subseteq> fst ` set rows" by (simp add: acc_ok_def)
  moreover have "distinct (map fst k_over)" by (rule plan_entries_over [OF pe]) simp
  moreover have over: "sp_k_override plan = k_over" and rows: "sp_rows plan = rows \<or> sp_rows plan = map demote rows"
    using assms(1) by (auto simp: lp_plan_def pe Let_def bind_r_Inr_iff split: if_splits dest: demote_rows_eq)
  moreover have "fst ` demote ` set rows = fst ` set rows" by (simp add: image_image)
  then have "fst ` set (sp_rows plan) = fst ` set rows" using rows by (metis list.set_map)
  ultimately show ?thesis by simp
qed

lemma lp_plan_shape_of:
  assumes "lp_plan l seq entries n_batch = Inr (l', plan)" and "distinct (map pe_rid entries)"
  shows "(sp_skip plan \<longrightarrow> sp_rows plan \<noteq> [] \<and> int (length (sp_rows plan)) = n_batch \<and>
            (\<forall>x\<in>set (sp_rows plan). fst (snd x) = Skip)) \<and>
         (\<not> sp_skip plan \<longrightarrow> (\<forall>x\<in>set (sp_rows plan). fst (snd x) = Override)) \<and>
         distinct (map fst (sp_rows plan)) \<and>
         (\<forall>x\<in>set (sp_rows plan). row_from (lp_cfg l) (lp_families l) n_batch entries (sp_k_override plan) x)"
proof -
  obtain l1 rows k_over b where pe: "plan_entries seq n_batch (length entries)
      (l, [], [], lk_ingest_budget (lp_cfg l)) entries = Inr (l1, rows, k_over, b)"
    using assms(1) by (auto simp: lp_plan_def bind_r_Inr_iff)
  have "acc_ok (lp_cfg l) (lp_families l) n_batch [] (l, [], [], lk_ingest_budget (lp_cfg l))"
    by (simp add: acc_ok_def)
  from plan_entries_ok [OF this _ pe] assms(2)
  have ok: "acc_ok (lp_cfg l) (lp_families l) n_batch entries (l1, rows, k_over, b)" by simp
  let ?skip = "rows \<noteq> [] \<and> int (length rows) = n_batch \<and> list_all is_skip_row rows"
  have plan: "sp_skip plan = ?skip" "sp_k_override plan = k_over"
      "sp_rows plan = (if ?skip then rows else map demote rows)"
    using assms(1) by (auto simp: lp_plan_def pe Let_def bind_r_Inr_iff split: if_splits dest: demote_rows_eq)
  have rows: "\<forall>x\<in>set (sp_rows plan). row_from (lp_cfg l) (lp_families l) n_batch entries (sp_k_override plan) x"
    using ok plan by (auto simp: acc_ok_def row_from_demote)
  have dist: "distinct (map fst (sp_rows plan))"
    using ok plan by (auto simp: acc_ok_def comp_def)
  have ov: "fst (snd x) = Override" if "\<not> ?skip" "x \<in> set (sp_rows plan)" for x
  proof -
    from that plan(3) obtain y where y: "y \<in> set rows" "x = demote y" by auto
    then have "row_from (lp_cfg l) (lp_families l) n_batch entries k_over y" using ok by (auto simp: acc_ok_def)
    then show ?thesis using y(2) by (cases "fst (snd y)") (auto simp: row_from_def demote_def split: prod.splits)
  qed
  have sk: "\<forall>x\<in>set (sp_rows plan). fst (snd x) = Skip" if "?skip"
    using that plan(3) by (simp add: list_all_iff is_skip_row_def)
  show ?thesis
  proof (cases ?skip)
    case True
    then have "sp_skip plan" and "sp_rows plan = rows" using plan by simp_all
    then show ?thesis using rows dist sk [OF True] True by simp
  next
    case False
    then have "\<not> sp_skip plan" using plan by simp
    then show ?thesis using rows dist ov [OF False] by simp
  qed
qed

text \<open>
  A step plan is what the workers need it to be: with the skip flag every row of the whole batch skips the
  forward, without it no row does; there is at most one row per request, only for eligible decode rows of a step
  small enough to plan, each with a draft length that has a graph or is the policy's own, and the scheduler resizes
  the placeholders of a row exactly when its length differs from the policy's, to that length.
\<close>

lemma lp_plan_shape:
  assumes "lp_plan l seq entries n_batch = Inr (l', plan)" and "distinct (map pe_rid entries)"
  shows "(sp_skip plan \<longrightarrow> sp_rows plan \<noteq> [] \<and> int (length (sp_rows plan)) = n_batch \<and>
            (\<forall>x\<in>set (sp_rows plan). fst (snd x) = Skip)) \<and>
         (\<not> sp_skip plan \<longrightarrow> (\<forall>x\<in>set (sp_rows plan). fst (snd x) = Override)) \<and>
         distinct (map fst (sp_rows plan)) \<and>
         (\<forall>x\<in>set (sp_rows plan). row_from (lp_cfg l) (lp_families l) n_batch entries (sp_k_override plan) x)"
  by (rule lp_plan_shape_of [OF assms])

definition demo_planner :: planner where
  "demo_planner =
     \<lparr>lp_np = False, lp_cfg = lk_default\<lparr>lk_mode := ''on'', lk_force := ''override''\<rparr>, lp_engine_k = 7,
      lp_families = [3, 7], lp_cost = demo_cost, lp_states = Map.empty,
      lp_c = \<lparr>c_plans = 0, c_rows_skip = 0, c_rows_override = 0, c_steps_skip = 0, c_no_match = 0, c_not_indexed = 0,
              c_sticky = 0, c_evals = 0, c_check_fail = 0, c_acct_ok = 0, c_acct_mismatch = 0, c_resets = 0,
              c_ingested = 0\<rparr>,
      lp_by_source = (\<lambda>_. (0, 0)), lp_mismatch = []\<rparr>"

definition demo_entry :: plan_entry where
  "demo_entry = \<lparr>pe_rid = ''r'', pe_tokens = [5, 5, 5], pe_eligible = True, pe_k_policy = 3, pe_fixed_k = False\<rparr>"

lemma demo_plan:
  "map_sum id (\<lambda>(l, p). (sp_rows p, sp_skip p, sp_k_override p)) (lp_plan demo_planner 1 [demo_entry] 1) =
   Inr ([(''r'', Override, 2, 3, 7)], False, [(''r'', 7)])"
  by code_simp

section \<open>The cost table\<close>

lemma lerp_hi: "fst lo < k \<Longrightarrow> lerp lo (k, v) k = v"
  by (simp add: lerp_def)

lemma takeWhile_less_nth:
  "sorted_wrt (\<lambda>p q. fst p < fst q) (ps :: (int \<times> rat) list) \<Longrightarrow> (k, v) \<in> set ps \<Longrightarrow>
   length (takeWhile (\<lambda>p. fst p < k) ps) < length ps \<and> ps ! length (takeWhile (\<lambda>p. fst p < k) ps) = (k, v)"
  by (induction ps) auto

text \<open>
  Interpolation goes through the table: the verify cost of a length in the table is its entry, below the first
  and above the last point included.
\<close>

lemma cm_verify_exact:
  assumes "sorted_wrt (\<lambda>p q. fst p < fst q) (cm_points cm)" and "(k, v) \<in> set (cm_points cm)"
  shows "cm_verify cm k = v"
proof -
  let ?ps = "cm_points cm"
  have ne: "?ps \<noteq> []" using assms(2) by auto
  obtain i where i: "i < length ?ps" "?ps ! i = (k, v)" using assms(2) by (metis in_set_conv_nth)
  have mono: "fst (?ps ! a) < fst (?ps ! b)" if "a < b" "b < length ?ps" for a b
    using assms(1) that by (simp add: sorted_wrt_iff_nth_less)
  show ?thesis
  proof (cases "length ?ps = 1")
    case True
    then show ?thesis using i ne by (simp add: cm_verify_def Let_def hd_conv_nth)
  next
    case False
    then have n: "2 \<le> length ?ps" using ne by (cases ?ps) (auto simp: Suc_le_eq)
    show ?thesis
    proof (cases "k \<le> fst (hd ?ps)")
      case True
      then have "i = 0" using mono [of 0 i] i ne by (cases i) (auto simp: hd_conv_nth)
      then show ?thesis using i True n ne by (simp add: cm_verify_def Let_def lerp_def hd_conv_nth)
    next
      case lo: False
      show ?thesis
      proof (cases "fst (last ?ps) \<le> k")
        case True
        have "i = length ?ps - 1"
        proof (rule ccontr)
          assume "i \<noteq> length ?ps - 1"
          then have "i < length ?ps - 1" using i(1) by simp
          then have "fst (?ps ! i) < fst (?ps ! (length ?ps - 1))" using n by (intro mono) simp_all
          then show False using True i ne by (simp add: last_conv_nth)
        qed
        then have l: "?ps ! (length ?ps - 1) = (k, v)" using i by simp
        have "fst (?ps ! (length ?ps - 2)) < k" using mono [of "length ?ps - 2" "length ?ps - 1"] n l by simp
        then have "lerp (?ps ! (length ?ps - 2)) (?ps ! (length ?ps - 1)) k = v" unfolding l by (rule lerp_hi)
        then show ?thesis using True lo False by (simp add: cm_verify_def Let_def)
      next
        case hi: False
        show ?thesis
          using takeWhile_less_nth [OF assms] lo hi False by (simp add: cm_verify_def Let_def)
      qed
    qed
  qed
qed

lemma cm_verify_exact_witness: "cm_verify demo_cost 7 = 46"
  by (rule cm_verify_exact) (simp_all add: demo_cost_def)

section \<open>Sound shadows\<close>

text \<open>A shadow is sound for a history when its source lies in it and really agrees for the reported length.\<close>

definition shadow_sound :: "token list \<Rightarrow> shadow \<Rightarrow> bool" where
  "shadow_sound toks s \<longleftrightarrow>
     sh_src s < sh_lhost s \<and> sh_lhost s \<le> length toks \<and> agrees (take (sh_lhost s) toks) (sh_src s) (sh_agree s)"

lemma agrees_less: "agrees toks e a \<Longrightarrow> b \<le> a \<Longrightarrow> agrees toks e b"
  by (auto simp: agrees_def)

lemma shadow_sound_append: "shadow_sound toks s \<Longrightarrow> shadow_sound (toks @ new) s"
  by (simp add: shadow_sound_def)

lemma sticky_sound:
  assumes old: "case ls_last_shadow st of None \<Rightarrow> True | Some s \<Rightarrow> shadow_sound (cx_tokens (ls_idx st)) s"
    and s: "sticky cfg st = Some s"
  shows "shadow_sound (cx_tokens (ls_idx st)) s"
proof -
  let ?t = "cx_tokens (ls_idx st)"
  obtain s0 where s0: "ls_last_shadow st = Some s0" using s by (auto simp: sticky_def split: option.splits)
  define L where "L = length ?t"
  define d where "d = L - sh_lhost s0"
  have le: "sh_lhost s0 \<le> L" and eq: "py_slice ?t (sh_lhost s0) L = py_slice ?t (sh_src s0) (sh_src s0 + d)"
    and s': "s = \<lparr>sh_src = sh_src s0 + d, sh_lhost = L, sh_cls = agreement_class (min (lk_max_agree cfg) (sh_agree s0 + d)),
                sh_agree = min (lk_max_agree cfg) (sh_agree s0 + d),
                sh_n = min (nat (lk_n_max cfg)) (min (lk_max_agree cfg) (sh_agree s0 + d))\<rparr>"
    using s by (auto simp: sticky_def s0 Let_def L_def d_def nat_diff_distrib' split: if_splits)
  have old': "sh_src s0 < sh_lhost s0" "agrees (take (sh_lhost s0) ?t) (sh_src s0) (sh_agree s0)"
    using old by (simp_all add: s0 shadow_sound_def)
  have a0: "sh_agree s0 \<le> sh_src s0" using old'(2) by (simp add: agrees_def)
  have new: "?t ! (sh_lhost s0 + j) = ?t ! (sh_src s0 + j)" if "j < d" for j
  proof -
    have "sh_src s0 + d \<le> L" using old'(1) le by (simp add: d_def)
    then show ?thesis
      using eq that le by (subst (asm) py_slice_eq_iff) (auto simp: L_def d_def)
  qed
  have prev: "?t ! (sh_lhost s0 - 1 - j) = ?t ! (sh_src s0 - 1 - j)" if "j < sh_agree s0" for j
    using old' that le by (auto simp: agrees_def L_def)
  have "agrees ?t (sh_src s0 + d) (sh_agree s0 + d)"
    unfolding agrees_def
  proof (intro conjI allI impI)
    show "sh_agree s0 + d \<le> sh_src s0 + d" using a0 by simp
    fix j assume j: "j < sh_agree s0 + d"
    have L: "L = sh_lhost s0 + d" using le by (simp add: d_def)
    show "?t ! (sh_src s0 + d - 1 - j) = ?t ! (length ?t - 1 - j)"
    proof (cases "j < d")
      case True
      then have "sh_src s0 + d - 1 - j = sh_src s0 + (d - 1 - j)" "length ?t - 1 - j = sh_lhost s0 + (d - 1 - j)"
        using L by (simp_all add: L_def [symmetric])
      moreover have "d - 1 - j < d" using True by simp
      ultimately show ?thesis using new by simp
    next
      case False
      then have "sh_src s0 + d - 1 - j = sh_src s0 - 1 - (j - d)" "length ?t - 1 - j = sh_lhost s0 - 1 - (j - d)"
        using L by (simp_all add: L_def [symmetric])
      moreover have "j - d < sh_agree s0" using j False by simp
      ultimately show ?thesis using prev by simp
    qed
  qed
  then have "agrees ?t (sh_src s) (sh_agree s)" by (auto simp: s' intro: agrees_less)
  then show ?thesis using old'(1) le by (simp add: shadow_sound_def s' L_def d_def)
qed

lemma match_shadow_sound:
  assumes "cx_inv idx" and "match_shadow cfg idx = Some s"
  shows "shadow_sound (cx_tokens idx) s \<and> sh_lhost s = length (cx_tokens idx)"
proof -
  obtain m where m: "cx_match idx (nat (lk_n_min cfg)) (nat (lk_n_max cfg)) (lk_max_agree cfg) = Some m"
    and s: "s = \<lparr>sh_src = m_src m, sh_lhost = m_length m, sh_cls = agreement_class (m_agree m),
                 sh_agree = m_agree m, sh_n = m_n m\<rparr>"
    using assms(2) by (auto simp: match_shadow_def split: option.splits if_splits)
  show ?thesis using match_sound_inv [OF assms(1) m refl] by (simp add: s shadow_sound_def)
qed

definition lk_state_ok :: "lk_state \<Rightarrow> bool" where
  "lk_state_ok st \<longleftrightarrow> cx_inv (ls_idx st) \<and>
     (case ls_last_shadow st of None \<Rightarrow> True | Some s \<Rightarrow> shadow_sound (cx_tokens (ls_idx st)) s)"

lemma lk_state_new_ok:
  assumes "1 \<le> lk_n_min cfg" and "lk_n_min cfg \<le> lk_n_max cfg"
  shows "lk_state_ok (lk_state_new (cx_new np (map nat [lk_n_min cfg..lk_n_max cfg]) h b) k)"
proof -
  have "map nat [lk_n_min cfg..lk_n_max cfg] \<noteq> []" using assms(2) by simp
  moreover have "0 \<notin> set (map nat [lk_n_min cfg..lk_n_max cfg])" using assms(1) by auto
  ultimately show ?thesis by (simp add: lk_state_ok_def lk_state_new_def cx_new_inv del: map_eq_conv)
qed

text \<open>
  C14. While a request's history only grows, whatever a planning step attaches to it is real: the source lies in
  the committed history, it agrees with the current end for as many tokens as reported, the plan starts at the
  end of the history, the worker's validity check holds at planning time, and the state stays good for the next
  step.
\<close>

theorem plan_lookup_sound:
  assumes "lk_state_ok (lp_state l (pe_rid e))" and "pe_tokens e = cx_tokens (ls_idx (lp_state l (pe_rid e))) @ new"
    and "0 \<le> lk_max_delta (lp_cfg l)"
  shows "case plan_lookup l e budget of (l', st', sh, budget') \<Rightarrow>
           lk_state_ok st' \<and> budget' \<le> budget \<and>
           (\<forall>s. sh = Some s \<longrightarrow> shadow_sound (pe_tokens e) s \<and> sh_lhost s = length (pe_tokens e) \<and>
              replay_check (pe_tokens e) (int (sh_lhost s)) (int (sh_src s)) (int (sh_lhost s)) (lk_max_delta (lp_cfg l)))"
proof -
  let ?st = "lp_state l (pe_rid e)"
  obtain idx caught used where sy: "cx_sync (ls_idx ?st) (pe_tokens e) budget = (idx, caught, used)"
    by (cases "cx_sync (ls_idx ?st) (pe_tokens e) budget")
  have inv: "cx_inv (ls_idx ?st)" using assms(1) by (simp add: lk_state_ok_def)
  note G = cx_sync_grow [OF inv assms(2), of budget, unfolded sy prod.case]
  have inv': "cx_inv idx" using cx_sync_inv [OF inv, of "pe_tokens e" budget] sy by simp
  let ?st1 = "?st\<lparr>ls_idx := idx\<rparr>"
  have ok1: "case ls_last_shadow ?st1 of None \<Rightarrow> True | Some s \<Rightarrow> shadow_sound (cx_tokens (ls_idx ?st1)) s"
    using assms(1) G by (auto simp: lk_state_ok_def shadow_sound_append split: option.splits)
  have pick: "shadow_sound (cx_tokens idx) s \<and> sh_lhost s = length (cx_tokens idx)"
    if "fst (pick_shadow (match_shadow (lp_cfg l) idx) (sticky (lp_cfg l) ?st1)) = Some s" for s
  proof -
    have "match_shadow (lp_cfg l) idx = Some s \<or> sticky (lp_cfg l) ?st1 = Some s"
      using that by (auto simp: pick_shadow_def split: option.splits if_splits)
    then show ?thesis
    proof
      assume "match_shadow (lp_cfg l) idx = Some s"
      then show ?thesis by (rule match_shadow_sound [OF inv'])
    next
      assume st: "sticky (lp_cfg l) ?st1 = Some s"
      have "sh_lhost s = length (cx_tokens idx)"
        using st by (auto simp: sticky_def Let_def split: option.splits if_splits)
      then show ?thesis using sticky_sound [OF ok1 st] by simp
    qed
  qed
  have chk: "replay_check toks (int (sh_lhost s)) (int (sh_src s)) (int (sh_lhost s)) (lk_max_delta (lp_cfg l))"
    if "shadow_sound toks s" for toks s
    using that assms(3) by (simp add: replay_check_def shadow_sound_def Let_def)
  show ?thesis
  proof (cases caught)
    case True
    then have t: "cx_tokens idx = pe_tokens e" using G by simp
    obtain sh stuck where p: "pick_shadow (match_shadow (lp_cfg l) idx) (sticky (lp_cfg l) ?st1) = (sh, stuck)"
      by fastforce
    obtain l' where pl: "plan_lookup l e budget = (l', ?st\<lparr>ls_idx := idx, ls_last_shadow := sh\<rparr>, sh, budget - used)"
      using True by (simp add: plan_lookup_def sy p Let_def)
    have snd: "shadow_sound (pe_tokens e) s \<and> sh_lhost s = length (pe_tokens e)" if "sh = Some s" for s
      using pick [of s] p that t by simp
    have chk': "replay_check (pe_tokens e) (int (sh_lhost s)) (int (sh_src s)) (int (sh_lhost s)) (lk_max_delta (lp_cfg l))"
      if "sh = Some s" for s
      using chk [of "pe_tokens e" s] snd [OF that] by blast
    have ok: "lk_state_ok (?st\<lparr>ls_idx := idx, ls_last_shadow := sh\<rparr>)"
      using inv' snd t by (cases sh) (simp_all add: lk_state_ok_def)
    show ?thesis
      unfolding pl prod.case using snd chk' ok G by simp
  next
    case False
    then obtain l' where pl: "plan_lookup l e budget = (l', ?st1, None, budget - used)"
      by (simp add: plan_lookup_def sy Let_def)
    show ?thesis unfolding pl using ok1 inv' G by (simp add: lk_state_ok_def)
  qed
qed

lemma plan_lookup_sound_witness:
  "case plan_lookup demo_planner demo_entry 100 of (l', st', sh, b') \<Rightarrow> lk_state_ok st'"
proof -
  have e: "lp_state demo_planner (pe_rid demo_entry) =
    lk_state_new (cx_new False (map nat [lk_n_min lk_default..lk_n_max lk_default]) 4096 2048) 7"
    by (simp add: lp_state_def demo_planner_def lk_default_def)
  have ok: "lk_state_ok (lp_state demo_planner (pe_rid demo_entry))"
    unfolding e by (rule lk_state_new_ok) (simp_all add: lk_default_def)
  have t: "pe_tokens demo_entry = cx_tokens (ls_idx (lp_state demo_planner (pe_rid demo_entry))) @ [5, 5, 5]"
    by (simp only: e) (simp add: demo_entry_def lk_state_new_def cx_new_def)
  have d: "0 \<le> lk_max_delta (lp_cfg demo_planner)" by (simp add: demo_planner_def lk_default_def)
  show ?thesis using plan_lookup_sound [OF ok t d, of 100] by (auto split: prod.splits)
qed

text \<open>
  C36. Without the growth hypothesis this fails: the sticky source survives a reset of the index. Whatever the rewritten
  history is, once it is indexed and as long as the old one was, the planner goes on reporting the old source with the
  old agreement; nothing of the new tokens is looked at.
\<close>

theorem sticky_survives_reset:
  assumes "ls_last_shadow st = Some s0" and "cx_sync (ls_idx st) src budget = (idx', True, used)"
    and "length src = sh_lhost s0" and "sh_agree s0 \<le> lk_max_agree cfg" and "0 \<le> lk_max_delta cfg"
  shows "\<exists>s. sticky cfg (st\<lparr>ls_idx := idx'\<rparr>) = Some s \<and> sh_src s = sh_src s0 \<and> sh_agree s = sh_agree s0"
proof -
  have len: "length (cx_tokens idx') = sh_lhost s0"
  proof -
    have "fst (snd (cx_sync s src budget)) \<longleftrightarrow> length (cx_tokens (fst (cx_sync s src budget))) = length src" for s
      by (simp add: cx_sync_def Let_def)
    from this [of "ls_idx st"] show ?thesis using assms(2,3) by simp
  qed
  then show ?thesis using assms(1,4,5) by (simp add: sticky_def Let_def len min_def)
qed

definition demo_sticky :: lk_state where
  "demo_sticky = (lk_state_new (cx_run False [2] 16 64 [Op_extend [1, 2, 1, 2]]) 3)\<lparr>ls_last_shadow :=
     Some \<lparr>sh_src = 2, sh_lhost = 4, sh_cls = 0, sh_agree = 2, sh_n = 2\<rparr>\<rparr>"

lemma demo_sticky_sync:
  "case cx_sync (ls_idx demo_sticky) [9, 8, 7, 6] 100 of (idx', caught, used) \<Rightarrow>
     caught \<and> cx_tokens idx' = [9, 8, 7, 6] \<and> \<not> agrees (cx_tokens idx') 2 1"
  by code_simp

lemma sticky_survives_reset_witness:
  "\<exists>idx' s. fst (cx_sync (ls_idx demo_sticky) [9, 8, 7, 6] 100) = idx' \<and>
     sticky lk_default (demo_sticky\<lparr>ls_idx := idx'\<rparr>) = Some s \<and> sh_agree s = 2 \<and> sh_src s = 2 \<and>
     \<not> agrees (cx_tokens idx') (sh_src s) 1"
proof -
  obtain idx' used where sy: "cx_sync (ls_idx demo_sticky) [9, 8, 7, 6] 100 = (idx', True, used)"
    and no: "\<not> agrees (cx_tokens idx') 2 1"
    using demo_sticky_sync by (auto split: prod.splits)
  have s0: "ls_last_shadow demo_sticky = Some \<lparr>sh_src = 2, sh_lhost = 4, sh_cls = 0, sh_agree = 2, sh_n = 2\<rparr>"
    by (simp add: demo_sticky_def)
  show ?thesis using sticky_survives_reset [OF s0 sy, of lk_default] sy no by (auto simp: lk_default_def)
qed

end
