(* ===== verification/Adaptive_K.thy ===== *)
theory Adaptive_K
  imports Py_Str
begin

text \<open>
  The adaptive draft-length policy (\<open>src/overlay/adaptive_k_scheduler.py\<close>): its configuration, the per-request
  moving average of low-position acceptance with hysteresis (\<open>AdaptiveKPolicy\<close>), the guards and helpers the
  scheduler uses (\<open>should_observe\<close>, \<open>placeholder_len\<close>, \<open>DraftedRing\<close>, \<open>filter_candidates\<close>, \<open>assign_lengths\<close>).
  Floats are exact rationals.
\<close>

type_synonym rid = string

section \<open>Configuration\<close>

record ak_config =
  ak_enabled :: bool
  ak_k_lo :: int
  ak_k_hi :: int
  ak_up :: rat
  ak_down :: rat
  ak_alpha :: rat
  ak_seed :: rat
  ak_mode :: string
  ak_signal :: string
  ak_log_every :: int

definition ak_default :: ak_config where
  "ak_default = \<lparr>ak_enabled = True, ak_k_lo = 3, ak_k_hi = 5, ak_up = 58 / 100, ak_down = 42 / 100,
     ak_alpha = 15 / 100, ak_seed = 1, ak_mode = ''per-request'', ak_signal = ''pos'', ak_log_every = 200\<rparr>"

definition ak_valid :: "ak_config \<Rightarrow> bool" where
  "ak_valid c \<longleftrightarrow>
     \<not> (ak_k_lo c < 1 \<or> ak_k_hi c < ak_k_lo c) \<and>
     (0 \<le> ak_down c \<and> ak_down c \<le> ak_up c \<and> ak_up c \<le> 1) \<and>
     (0 < ak_alpha c \<and> ak_alpha c \<le> 1) \<and>
     (0 \<le> ak_seed c \<and> ak_seed c \<le> 1) \<and>
     ak_mode c \<in> {''per-request'', ''batch-uniform''} \<and>
     ak_signal c \<in> {''pos'', ''mean''} \<and>
     \<not> ak_log_every c < 0"

definition ak_make :: "ak_config \<Rightarrow> ak_config result" where
  "ak_make c = (if ak_valid c then Inr c else Inl ValueError)"

definition env_int :: "env \<Rightarrow> string \<Rightarrow> int \<Rightarrow> int result" where
  "env_int env name d = (case env name of
     None \<Rightarrow> Inr d
   | Some raw \<Rightarrow> if strip raw = [] then Inr d else py_int raw)"

definition env_float :: "env \<Rightarrow> string \<Rightarrow> rat \<Rightarrow> rat result" where
  "env_float env name d = (case env name of
     None \<Rightarrow> Inr d
   | Some raw \<Rightarrow> if strip raw = [] then Inr d else py_float raw)"

definition env_word :: "env \<Rightarrow> string \<Rightarrow> string \<Rightarrow> string" where
  "env_word env name d =
     (let w = strip (case env name of None \<Rightarrow> d | Some raw \<Rightarrow> if raw = [] then d else raw)
      in if w = [] then d else w)"

definition ak_from_env :: "env \<Rightarrow> ak_config result" where
  "ak_from_env env =
     bind_r (env_int env ''VLLM_ADAPTIVE_K_ENABLE'' 1) (\<lambda>en.
     bind_r (env_int env ''VLLM_ADAPTIVE_K_LO'' 3) (\<lambda>lo.
     bind_r (env_int env ''VLLM_ADAPTIVE_K_HI'' 5) (\<lambda>hi.
     bind_r (env_float env ''VLLM_ADAPTIVE_K_UP'' (58 / 100)) (\<lambda>up.
     bind_r (env_float env ''VLLM_ADAPTIVE_K_DOWN'' (42 / 100)) (\<lambda>down.
     bind_r (env_float env ''VLLM_ADAPTIVE_K_ALPHA'' (15 / 100)) (\<lambda>alpha.
     bind_r (env_float env ''VLLM_ADAPTIVE_K_SEED'' 1) (\<lambda>seed.
     bind_r (env_int env ''VLLM_ADAPTIVE_K_LOG_EVERY'' 200) (\<lambda>le.
       ak_make \<lparr>ak_enabled = (en \<noteq> 0), ak_k_lo = lo, ak_k_hi = hi, ak_up = up, ak_down = down,
         ak_alpha = alpha, ak_seed = seed,
         ak_mode = env_word env ''VLLM_ADAPTIVE_K_MODE'' ''per-request'',
         ak_signal = env_word env ''VLLM_ADAPTIVE_K_SIGNAL'' ''pos'', ak_log_every = le\<rparr>))))))))"

section \<open>The policy\<close>

record ak_req =
  q_ema :: rat
  q_k :: int

record ak_counters =
  n_obs :: nat
  n_lo :: nat
  n_hi :: nat
  n_switch :: nat
  n_uni_lo :: nat
  n_uni_hi :: nat

record ak_policy =
  p_cfg :: ak_config
  p_state :: "rid \<Rightarrow> ak_req option"
  p_cnt :: ak_counters

definition ak_new :: "ak_config \<Rightarrow> ak_policy" where
  "ak_new c = \<lparr>p_cfg = c, p_state = Map.empty,
     p_cnt = \<lparr>n_obs = 0, n_lo = 0, n_hi = 0, n_switch = 0, n_uni_lo = 0, n_uni_hi = 0\<rparr>\<rparr>"

definition k_for :: "ak_config \<Rightarrow> rat \<Rightarrow> int option \<Rightarrow> int" where
  "k_for c ema current =
     (if ak_up c \<le> ema then ak_k_hi c
      else if ema \<le> ak_down c then ak_k_lo c
      else (case current of None \<Rightarrow> ak_k_hi c | Some k \<Rightarrow> k))"

definition ak_get :: "ak_policy \<Rightarrow> rid \<Rightarrow> ak_policy \<times> ak_req" where
  "ak_get p r = (case p_state p r of
     Some st \<Rightarrow> (p, st)
   | None \<Rightarrow> let st = \<lparr>q_ema = ak_seed (p_cfg p), q_k = k_for (p_cfg p) (ak_seed (p_cfg p)) None\<rparr>
             in (p\<lparr>p_state := (p_state p)(r \<mapsto> st)\<rparr>, st))"

definition ak_sig :: "ak_config \<Rightarrow> int \<Rightarrow> int \<Rightarrow> rat" where
  "ak_sig c num_accepted num_draft =
     (let denom = min (ak_k_lo c) (max num_draft 1);
          accepted = min (max num_accepted 0) denom
      in if ak_signal c = ''pos'' then (if denom \<le> accepted then 1 else 0)
         else of_int accepted / of_int denom)"

definition ema_step :: "rat \<Rightarrow> rat \<Rightarrow> rat \<Rightarrow> rat" where
  "ema_step a x e = a * x + (1 - a) * e"

definition ak_observe :: "ak_policy \<Rightarrow> rid \<Rightarrow> int \<Rightarrow> int \<Rightarrow> ak_policy \<times> rat" where
  "ak_observe p r num_accepted num_draft =
     (case ak_get p r of (p', st) \<Rightarrow>
        if num_draft \<le> 0 then (p', q_ema st)
        else let e = ema_step (ak_alpha (p_cfg p)) (ak_sig (p_cfg p) num_accepted num_draft) (q_ema st)
             in (p'\<lparr>p_state := (p_state p')(r \<mapsto> st\<lparr>q_ema := e\<rparr>),
                    p_cnt := (p_cnt p')\<lparr>n_obs := n_obs (p_cnt p') + 1\<rparr>\<rparr>, e))"

definition ak_decide :: "ak_policy \<Rightarrow> rid \<Rightarrow> ak_policy \<times> int" where
  "ak_decide p r =
     (case ak_get p r of (p', st) \<Rightarrow>
        let k = k_for (p_cfg p) (q_ema st) (Some (q_k st));
            p1 = (if k \<noteq> q_k st
                  then p'\<lparr>p_state := (p_state p')(r \<mapsto> st\<lparr>q_k := k\<rparr>),
                          p_cnt := (p_cnt p')\<lparr>n_switch := n_switch (p_cnt p') + 1\<rparr>\<rparr>
                  else p');
            p2 = (if k = ak_k_hi (p_cfg p)
                  then p1\<lparr>p_cnt := (p_cnt p1)\<lparr>n_hi := n_hi (p_cnt p1) + 1\<rparr>\<rparr>
                  else p1\<lparr>p_cnt := (p_cnt p1)\<lparr>n_lo := n_lo (p_cnt p1) + 1\<rparr>\<rparr>)
        in (p2, k))"

fun decide_all :: "ak_policy \<Rightarrow> rid list \<Rightarrow> ak_policy \<times> int list" where
  "decide_all p [] = (p, [])"
| "decide_all p (r # rs) =
     (case ak_decide p r of (p1, k) \<Rightarrow> case decide_all p1 rs of (p2, ks) \<Rightarrow> (p2, k # ks))"

definition decide_batch :: "ak_policy \<Rightarrow> rid list \<Rightarrow> ak_policy \<times> int" where
  "decide_batch p rs =
     (case decide_all p rs of (p1, ks) \<Rightarrow>
        if ks \<noteq> [] \<and> list_all (\<lambda>k. k = ak_k_hi (p_cfg p)) ks
        then (p1\<lparr>p_cnt := (p_cnt p1)\<lparr>n_uni_hi := n_uni_hi (p_cnt p1) + 1\<rparr>\<rparr>, ak_k_hi (p_cfg p))
        else (p1\<lparr>p_cnt := (p_cnt p1)\<lparr>n_uni_lo := n_uni_lo (p_cnt p1) + 1\<rparr>\<rparr>, ak_k_lo (p_cfg p)))"

definition ak_evict :: "ak_policy \<Rightarrow> rid \<Rightarrow> ak_policy" where
  "ak_evict p r = p\<lparr>p_state := (p_state p)(r := None)\<rparr>"

section \<open>Guards and helpers\<close>

definition should_observe ::
    "rid \<Rightarrow> rid set \<Rightarrow> int \<Rightarrow> bool \<Rightarrow> int \<Rightarrow> bool \<Rightarrow> bool \<Rightarrow> bool \<Rightarrow> bool" where
  "should_observe r drafted num_draft has_generated num_sampled is_stale drop_stale kv_load_failed =
     (if kv_load_failed \<or> num_draft \<le> 0 \<or> r \<notin> drafted then False
      else if \<not> has_generated \<and> num_sampled \<noteq> 0 then False
      else if is_stale \<and> drop_stale then False
      else if is_stale then False
      else True)"

definition placeholder_len :: "int \<Rightarrow> int \<Rightarrow> int" where
  "placeholder_len k_req engine_k = max 0 (min k_req engine_k)"

record ring =
  ring_slots :: nat
  ring_sets :: "rid set list"

definition ring_new :: "int \<Rightarrow> ring result" where
  "ring_new slots = (if slots < 1 then Inl ValueError else Inr \<lparr>ring_slots = nat slots, ring_sets = []\<rparr>)"

definition ring_push :: "ring \<Rightarrow> rid list \<Rightarrow> ring" where
  "ring_push g rs =
     (let l = ring_sets g @ [set rs]
      in g\<lparr>ring_sets := (if ring_slots g < length l then tl l else l)\<rparr>)"

definition ring_union :: "ring \<Rightarrow> rid set" where
  "ring_union g = foldl (\<union>) {} (ring_sets g)"

definition ring_contains :: "ring \<Rightarrow> rid \<Rightarrow> bool" where
  "ring_contains g r = list_ex (\<lambda>s. r \<in> s) (ring_sets g)"

definition filter_candidates :: "(rid \<times> bool \<times> bool \<times> bool) list \<Rightarrow> rid list" where
  "filter_candidates items =
     map fst (filter (\<lambda>(r, fin, pre, has). \<not> (fin \<or> pre \<or> \<not> has)) items)"

definition assign_lengths :: "ak_policy \<Rightarrow> rid list \<Rightarrow> string \<Rightarrow> int \<Rightarrow> ak_policy \<times> (rid \<times> int) list" where
  "assign_lengths p rs mode engine_k =
     (if rs = [] then (p, [])
      else if mode = ''batch-uniform'' then
        (case decide_batch p rs of (p', k) \<Rightarrow> (p', map (\<lambda>r. (r, placeholder_len k engine_k)) rs))
      else (case decide_all p rs of (p', ks) \<Rightarrow> (p', zip rs (map (\<lambda>k. placeholder_len k engine_k) ks))))"

section \<open>Invariant\<close>

text \<open>Every tracked request has an average in the unit interval and one of the two draft lengths.\<close>

definition ak_inv :: "ak_policy \<Rightarrow> bool" where
  "ak_inv p \<longleftrightarrow> ak_valid (p_cfg p) \<and>
     (\<forall>r st. p_state p r = Some st \<longrightarrow>
        0 \<le> q_ema st \<and> q_ema st \<le> 1 \<and> q_k st \<in> {ak_k_lo (p_cfg p), ak_k_hi (p_cfg p)})"

lemma ema_step_unit: "0 \<le> a \<Longrightarrow> a \<le> 1 \<Longrightarrow> 0 \<le> x \<Longrightarrow> x \<le> 1 \<Longrightarrow> 0 \<le> e \<Longrightarrow> e \<le> 1 \<Longrightarrow>
   0 \<le> ema_step a x e \<and> ema_step a x e \<le> 1"
  using convex_bound_le [of x 1 e a "1 - a"] by (simp add: ema_step_def)

lemma ak_sig_unit:
  assumes "ak_valid c"
  shows "0 \<le> ak_sig c na nd \<and> ak_sig c na nd \<le> 1"
proof -
  define d where "d = min (ak_k_lo c) (max nd 1)"
  define a where "a = min (max na 0) d"
  have "1 \<le> d" using assms by (simp add: d_def ak_valid_def)
  then have "0 \<le> a" "a \<le> d" "0 < d" by (auto simp: a_def)
  then have "0 \<le> (of_int a / of_int d :: rat)" "(of_int a / of_int d :: rat) \<le> 1"
    by (simp_all add: divide_le_eq_1)
  then show ?thesis by (simp add: ak_sig_def Let_def d_def a_def)
qed

lemma k_for_cases: "k_for c e cur \<in> {ak_k_lo c, ak_k_hi c} \<or> cur = Some (k_for c e cur)"
  by (auto simp: k_for_def split: option.splits)

lemma ak_new_inv [preserved]: "ak_valid c \<Longrightarrow> ak_inv (ak_new c)"
  by (simp add: ak_inv_def ak_new_def)

lemma ak_get_cfg [simp]: "p_cfg (fst (ak_get p r)) = p_cfg p"
  by (auto simp: ak_get_def Let_def split: option.splits)

lemma ak_get_inv:
  assumes "ak_inv p" and "ak_get p r = (p', st)"
  shows "ak_inv p' \<and> p_cfg p' = p_cfg p \<and> p_state p' r = Some st \<and> p_cnt p' = p_cnt p \<and>
         0 \<le> q_ema st \<and> q_ema st \<le> 1 \<and> q_k st \<in> {ak_k_lo (p_cfg p), ak_k_hi (p_cfg p)}"
proof (cases "p_state p r")
  case None
  have k: "k_for (p_cfg p) (ak_seed (p_cfg p)) None \<in> {ak_k_lo (p_cfg p), ak_k_hi (p_cfg p)}"
    by (simp add: k_for_def)
  have s: "0 \<le> ak_seed (p_cfg p)" "ak_seed (p_cfg p) \<le> 1"
    using assms(1) by (simp_all add: ak_inv_def ak_valid_def)
  let ?st = "\<lparr>q_ema = ak_seed (p_cfg p), q_k = k_for (p_cfg p) (ak_seed (p_cfg p)) None\<rparr>"
  have eq: "p' = p\<lparr>p_state := (p_state p)(r \<mapsto> ?st)\<rparr>" "st = ?st"
    using assms(2) None by (auto simp: ak_get_def Let_def)
  have "ak_inv p'" using assms(1) k s by (simp add: eq ak_inv_def)
  then show ?thesis using k s by (simp add: eq)
next
  case (Some st')
  then show ?thesis using assms by (auto simp: ak_get_def ak_inv_def)
qed

lemma ak_inv_upd_state:
  "ak_inv p \<Longrightarrow> 0 \<le> q_ema st \<Longrightarrow> q_ema st \<le> 1 \<Longrightarrow> q_k st \<in> {ak_k_lo (p_cfg p), ak_k_hi (p_cfg p)} \<Longrightarrow>
   ak_inv (p\<lparr>p_state := (p_state p)(r \<mapsto> st)\<rparr>)"
  by (auto simp: ak_inv_def)

lemma ak_inv_cnt [simp]: "ak_inv (p\<lparr>p_cnt := c\<rparr>) = ak_inv p"
  by (simp add: ak_inv_def)

lemma ak_observe_inv [preserved]: "ak_inv p \<Longrightarrow> ak_inv (fst (ak_observe p r na nd))"
proof -
  assume inv: "ak_inv p"
  obtain p' st where g: "ak_get p r = (p', st)" by fastforce
  note G = ak_get_inv [OF inv g]
  have v: "ak_valid (p_cfg p)" using inv by (simp add: ak_inv_def)
  have "0 \<le> ema_step (ak_alpha (p_cfg p)) (ak_sig (p_cfg p) na nd) (q_ema st) \<and>
        ema_step (ak_alpha (p_cfg p)) (ak_sig (p_cfg p) na nd) (q_ema st) \<le> 1"
    using G v ak_sig_unit [OF v] by (intro ema_step_unit) (auto simp: ak_valid_def)
  with G show ?thesis
    by (auto simp: ak_observe_def g Let_def intro!: ak_inv_upd_state)
qed

lemma ak_observe_cfg [simp]: "p_cfg (fst (ak_observe p r na nd)) = p_cfg p"
  using ak_get_cfg [of p r] by (auto simp: ak_observe_def Let_def simp del: ak_get_cfg split: prod.splits)

lemma ak_decide_props:
  assumes inv: "ak_inv p" and d: "ak_decide p r = (p2, k)"
  shows "ak_inv p2 \<and> p_cfg p2 = p_cfg p \<and> k \<in> {ak_k_lo (p_cfg p), ak_k_hi (p_cfg p)} \<and>
         n_lo (p_cnt p2) + n_hi (p_cnt p2) = Suc (n_lo (p_cnt p) + n_hi (p_cnt p))"
proof -
  obtain p' st where g: "ak_get p r = (p', st)" by fastforce
  note G = ak_get_inv [OF inv g]
  have k: "k_for (p_cfg p) (q_ema st) (Some (q_k st)) \<in> {ak_k_lo (p_cfg p), ak_k_hi (p_cfg p)}"
    using G by (auto simp: k_for_def)
  show ?thesis
    using d G k by (auto simp: ak_decide_def g Let_def intro!: ak_inv_upd_state split: if_splits)
qed

lemma decide_all_props:
  "ak_inv p \<Longrightarrow> decide_all p rs = (p2, ks) \<Longrightarrow>
   ak_inv p2 \<and> p_cfg p2 = p_cfg p \<and> length ks = length rs \<and> set ks \<subseteq> {ak_k_lo (p_cfg p), ak_k_hi (p_cfg p)}"
proof (induction rs arbitrary: p p2 ks)
  case (Cons r rs)
  obtain p1 k where d: "ak_decide p r = (p1, k)" by fastforce
  obtain p3 ks' where a: "decide_all p1 rs = (p3, ks')" by fastforce
  note D = ak_decide_props [OF Cons.prems(1) d]
  show ?case using Cons.IH [of p1 p3 ks'] Cons.prems(2) D a d by auto
qed simp

lemma decide_batch_props:
  assumes "ak_inv p" and "decide_batch p rs = (p2, k)"
  shows "ak_inv p2 \<and> p_cfg p2 = p_cfg p \<and> k \<in> {ak_k_lo (p_cfg p), ak_k_hi (p_cfg p)}"
proof -
  obtain p1 ks where a: "decide_all p rs = (p1, ks)" by fastforce
  from decide_all_props [OF assms(1) a] assms(2) show ?thesis
    by (auto simp: decide_batch_def a split: if_splits)
qed

lemma ak_evict_inv [preserved]: "ak_inv p \<Longrightarrow> ak_inv (ak_evict p r)"
  by (auto simp: ak_inv_def ak_evict_def)

lemma placeholder_len_bounds: "0 \<le> placeholder_len k e \<and> (0 \<le> e \<longrightarrow> placeholder_len k e \<le> e)"
  by (auto simp: placeholder_len_def)

lemma assign_lengths_props:
  assumes "ak_inv p" and "assign_lengths p rs mode e = (p2, ls)"
  shows "ak_inv p2 \<and> p_cfg p2 = p_cfg p \<and> map fst ls = rs \<and>
         (\<forall>l\<in>set ls. \<exists>k\<in>{ak_k_lo (p_cfg p), ak_k_hi (p_cfg p)}. snd l = placeholder_len k e)"
proof (cases "rs = []")
  case True
  then show ?thesis using assms by (auto simp: assign_lengths_def)
next
  case False
  show ?thesis
  proof (cases "mode = ''batch-uniform''")
    case True
    obtain p1 k where b: "decide_batch p rs = (p1, k)" by fastforce
    show ?thesis
      using decide_batch_props [OF assms(1) b] assms(2) False True
      by (auto simp: assign_lengths_def b comp_def)
  next
    case False
    obtain p1 ks where b: "decide_all p rs = (p1, ks)" by fastforce
    note D = decide_all_props [OF assms(1) b]
    then show ?thesis
      using assms(2) False \<open>rs \<noteq> []\<close>
      by (fastforce simp: assign_lengths_def b dest: set_zip_rightD)
  qed
qed

section \<open>Reachable policies\<close>

inductive ak_reach :: "ak_config \<Rightarrow> ak_policy \<Rightarrow> bool" for c where
  reach_new: "ak_reach c (ak_new c)"
| reach_observe: "ak_reach c p \<Longrightarrow> ak_reach c (fst (ak_observe p r na nd))"
| reach_assign: "ak_reach c p \<Longrightarrow> ak_reach c (fst (assign_lengths p rs mode e))"
| reach_evict: "ak_reach c p \<Longrightarrow> ak_reach c (ak_evict p r)"

lemma ak_reach_inv: "ak_reach c p \<Longrightarrow> ak_valid c \<Longrightarrow> ak_inv p \<and> p_cfg p = c"
proof (induction rule: ak_reach.induct)
  case reach_new
  then show ?case by (simp add: ak_new_inv) (simp add: ak_new_def)
next
  case (reach_observe p r na nd)
  then show ?case using ak_observe_inv [of p r na nd] by (simp add: ak_observe_cfg)
next
  case (reach_assign p rs mode e)
  obtain p2 ls where "assign_lengths p rs mode e = (p2, ls)" by fastforce
  with reach_assign assign_lengths_props [of p rs mode e p2 ls] show ?case by simp
next
  case (reach_evict p r)
  then show ?case using ak_evict_inv [of p r] by (simp add: ak_evict_def)
qed

section \<open>The average under full acceptance\<close>

fun full_accepts :: "nat \<Rightarrow> ak_policy \<Rightarrow> rid \<Rightarrow> ak_policy" where
  "full_accepts 0 p r = p"
| "full_accepts (Suc n) p r = full_accepts n (fst (ak_observe p r (ak_k_lo (p_cfg p)) (ak_k_lo (p_cfg p)))) r"

lemma ak_sig_full: "ak_valid c \<Longrightarrow> ak_sig c (ak_k_lo c) (ak_k_lo c) = 1"
  by (simp add: ak_sig_def Let_def ak_valid_def max_def)

lemma full_accepts_ema:
  "ak_valid (p_cfg p) \<Longrightarrow> p_state p r = Some st \<Longrightarrow>
   \<exists>st'. p_state (full_accepts n p r) r = Some st' \<and> p_cfg (full_accepts n p r) = p_cfg p \<and>
         1 - q_ema st' = (1 - ak_alpha (p_cfg p)) ^ n * (1 - q_ema st)"
proof (induction n arbitrary: p st)
  case (Suc n)
  let ?st = "st\<lparr>q_ema := ema_step (ak_alpha (p_cfg p)) 1 (q_ema st)\<rparr>"
  let ?p = "fst (ak_observe p r (ak_k_lo (p_cfg p)) (ak_k_lo (p_cfg p)))"
  have s: "p_state ?p r = Some ?st" and c: "p_cfg ?p = p_cfg p"
    using Suc.prems ak_sig_full [of "p_cfg p"]
    by (auto simp: ak_observe_def ak_get_def Let_def ak_valid_def)
  have e: "1 - q_ema ?st = (1 - ak_alpha (p_cfg p)) * (1 - q_ema st)"
    by (simp add: ema_step_def algebra_simps)
  obtain st' where st': "p_state (full_accepts n ?p r) r = Some st'" "p_cfg (full_accepts n ?p r) = p_cfg p"
    and m: "1 - q_ema st' = (1 - ak_alpha (p_cfg p)) ^ n * (1 - q_ema ?st)"
    using Suc.IH [of ?p ?st] s c Suc.prems(1) by auto
  have "1 - q_ema st' = (1 - ak_alpha (p_cfg p)) ^ Suc n * (1 - q_ema st)"
    unfolding m e by (simp only: power_Suc mult.assoc mult.left_commute mult.commute)
  with st' show ?case by simp
qed simp

lemma power_decay:
  fixes a :: rat
  assumes "0 \<le> a" and "a \<le> 1"
  shows "(1 - a) ^ n * (1 + of_nat n * a) \<le> 1"
proof (induction n)
  case (Suc n)
  have "(1 - a) * (1 + of_nat (Suc n) * a) = (1 + of_nat n * a) - of_nat (Suc n) * a * a"
    by (simp add: algebra_simps)
  also have "\<dots> \<le> 1 + of_nat n * a" using assms by simp
  finally have "(1 - a) ^ n * ((1 - a) * (1 + of_nat (Suc n) * a)) \<le> (1 - a) ^ n * (1 + of_nat n * a)"
    using assms by (intro mult_left_mono) simp_all
  with Suc show ?case by (simp add: algebra_simps)
qed simp

section \<open>Properties\<close>

text \<open>
  On every reachable policy the lengths handed out cover exactly the candidate requests in order, each is the
  low or the high length clamped to what the engine drafts, so it indexes the placeholder table, and the averages
  stay in the unit interval.
\<close>

lemma assign_lengths_in_range:
  assumes "ak_valid c" and "ak_reach c p" and "0 \<le> engine_k"
  shows "case assign_lengths p rs mode engine_k of (p', ls) \<Rightarrow>
           map fst ls = rs \<and>
           (\<forall>(r, k)\<in>set ls. 0 \<le> k \<and> k \<le> engine_k \<and>
              (k = min (ak_k_lo c) engine_k \<or> k = min (ak_k_hi c) engine_k)) \<and>
           (\<forall>r st. p_state p' r = Some st \<longrightarrow> 0 \<le> q_ema st \<and> q_ema st \<le> 1)"
proof -
  obtain p' ls where a: "assign_lengths p rs mode engine_k = (p', ls)" by fastforce
  have inv: "ak_inv p" and c: "p_cfg p = c" using ak_reach_inv [OF assms(2,1)] by simp_all
  note A = assign_lengths_props [OF inv a]
  have "0 < ak_k_lo c" "0 < ak_k_hi c" using assms(1) by (auto simp: ak_valid_def)
  with A c assms(3) show ?thesis
    unfolding a by (auto simp: ak_inv_def placeholder_len_def)
qed

text \<open>
  The policy recovers: whatever a tracked request's average is, after n observations in which the whole low
  prefix was accepted, with n large enough that \<open>(1 - up) (1 + n alpha)\<close> reaches 1, the next decision is the high
  length.
\<close>

lemma full_acceptance_reaches_k_hi:
  assumes "ak_valid c" and "ak_reach c p" and "p_state p r = Some st"
    and "1 \<le> (1 - ak_up c) * (1 + of_nat n * ak_alpha c)"
  shows "snd (ak_decide (full_accepts n p r) r) = ak_k_hi c"
proof -
  have inv: "ak_inv p" and c: "p_cfg p = c" using ak_reach_inv [OF assms(2,1)] by simp_all
  obtain st' where s: "p_state (full_accepts n p r) r = Some st'" "p_cfg (full_accepts n p r) = c"
    and e: "1 - q_ema st' = (1 - ak_alpha c) ^ n * (1 - q_ema st)"
    using full_accepts_ema [of p r st n] assms(1,3) c by auto
  have a: "0 < ak_alpha c" "ak_alpha c \<le> 1" using assms(1) by (auto simp: ak_valid_def)
  have "0 \<le> q_ema st" using inv assms(3) by (auto simp: ak_inv_def)
  then have "1 - q_ema st' \<le> (1 - ak_alpha c) ^ n"
    unfolding e using a mult_left_mono [of "1 - q_ema st" 1 "(1 - ak_alpha c) ^ n"] by simp
  moreover have "(1 - ak_alpha c) ^ n \<le> 1 - ak_up c"
  proof -
    let ?w = "1 + of_nat n * ak_alpha c"
    have w: "0 < ?w" using a by (simp add: add_pos_nonneg)
    have "(1 - ak_alpha c) ^ n * ?w \<le> (1 - ak_up c) * ?w"
      using power_decay [of "ak_alpha c" n] a assms(4) by linarith
    then show ?thesis using w by simp
  qed
  ultimately have "ak_up c \<le> q_ema st'" by linarith
  then show ?thesis using s by (simp add: ak_decide_def ak_get_def k_for_def Let_def)
qed

text \<open>
  A batch-uniform step drafts the high length exactly when there is a request and every request of the batch
  decides for the high length on its own; otherwise it drafts the low length.
\<close>

lemma decide_batch_uniform:
  assumes "ak_valid c" and "ak_reach c p"
  shows "snd (decide_batch p rs) =
           (if rs \<noteq> [] \<and> (\<forall>k\<in>set (snd (decide_all p rs)). k = ak_k_hi c) then ak_k_hi c else ak_k_lo c) \<and>
         p_state (fst (decide_batch p rs)) = p_state (fst (decide_all p rs))"
proof -
  obtain p1 ks where a: "decide_all p rs = (p1, ks)" by fastforce
  have inv: "ak_inv p" and c: "p_cfg p = c" using ak_reach_inv [OF assms(2,1)] by simp_all
  have "ks = [] \<longleftrightarrow> rs = []" using decide_all_props [OF inv a] by auto
  then show ?thesis by (simp add: decide_batch_def a c list_all_iff)
qed

lemma push_window:
  "(let l = drop (length xs - n) xs @ [x] in if n < length l then tl l else l) = drop (Suc (length xs) - n) (xs @ [x])"
proof (cases "length xs < n")
  case True
  then show ?thesis by simp
next
  case False
  then have e: "length xs - (length xs - n) = n" and s: "Suc (length xs) - n = Suc (length xs - n)" by auto
  show ?thesis
  proof (cases n)
    case 0
    then show ?thesis by simp
  next
    case (Suc m)
    with False have "drop (length xs - n) xs \<noteq> []" by simp
    then have "tl (drop (length xs - n) xs @ [x]) = drop (Suc (length xs - n)) xs @ [x]"
      by (simp add: drop_Suc tl_drop)
    with False Suc e s show ?thesis by simp
  qed
qed

lemma foldl_ring_push:
  "ring_sets g = map set (drop (length done - ring_slots g) done) \<Longrightarrow>
   ring_sets (foldl ring_push g pushes) =
     map set (drop (length (done @ pushes) - ring_slots g) (done @ pushes)) \<and>
   ring_slots (foldl ring_push g pushes) = ring_slots g"
proof (induction pushes arbitrary: g "done")
  case (Cons x pushes)
  have one: "drop k [set x] = map set (drop k [x])" for k by (cases k) simp_all
  have "ring_sets (ring_push g x) = map set (drop (length (done @ [x]) - ring_slots g) (done @ [x]))"
    using push_window [of "map set done" "ring_slots g" "set x"] Cons.prems
      one [of "Suc 0 - ring_slots g"]
    by (simp add: ring_push_def drop_map Let_def)
  moreover have "ring_slots (ring_push g x) = ring_slots g" by (simp add: ring_push_def Let_def)
  ultimately show ?case using Cons.IH [of "ring_push g x" "done @ [x]"] by simp
qed simp

text \<open>
  After any sequence of hand-outs the ring answers membership for exactly the last \<open>slots\<close> of them, and its
  union is what membership says.
\<close>

lemma ring_remembers_last_pushes:
  assumes "ring_new slots = Inr g"
  shows "(ring_contains (foldl ring_push g pushes) r \<longleftrightarrow>
            (\<exists>rs\<in>set (drop (length pushes - nat slots) pushes). r \<in> set rs)) \<and>
         (r \<in> ring_union (foldl ring_push g pushes) \<longleftrightarrow> ring_contains (foldl ring_push g pushes) r)"
proof -
  have g: "ring_sets g = []" "ring_slots g = nat slots"
    using assms by (auto simp: ring_new_def split: if_splits)
  then have sets: "ring_sets (foldl ring_push g pushes) = map set (drop (length pushes - nat slots) pushes)"
    using foldl_ring_push [of g "[]" pushes] by simp
  have "r \<in> foldl (\<union>) u xs \<longleftrightarrow> r \<in> u \<or> (\<exists>x\<in>set xs. r \<in> x)" for u and xs :: "rid set list"
    by (induction xs arbitrary: u) auto
  then show ?thesis by (simp add: ring_contains_def ring_union_def sets list_ex_iff)
qed

end
