(* ===== verification/Py_Json.thy ===== *)
theory Py_Json
  imports Py_Str
begin

text \<open>
  Values of a parsed JSON document and the Python coercions the readers apply to them: truth, \<open>int()\<close>, \<open>float()\<close>
  and use as a number. Objects are association lists with the last binding of a key first.
\<close>

datatype json =
    JNull
  | JBool bool
  | JInt int
  | JFloat rat
  | JStr string
  | JArr "json list"
  | JObj "(string \<times> json) list"

type_synonym jobj = "string \<Rightarrow> json option"

fun j_truth :: "json \<Rightarrow> bool" where
  "j_truth JNull = False"
| "j_truth (JBool b) = b"
| "j_truth (JInt n) = (n \<noteq> 0)"
| "j_truth (JFloat x) = (x \<noteq> 0)"
| "j_truth (JStr s) = (s \<noteq> [])"
| "j_truth (JArr xs) = (xs \<noteq> [])"
| "j_truth (JObj kvs) = (kvs \<noteq> [])"

definition truncate :: "rat \<Rightarrow> int" where
  "truncate x = (if 0 \<le> x then \<lfloor>x\<rfloor> else - \<lfloor>- x\<rfloor>)"

fun j_int :: "json \<Rightarrow> int result" where
  "j_int (JBool b) = Inr (if b then 1 else 0)"
| "j_int (JInt n) = Inr n"
| "j_int (JFloat x) = Inr (truncate x)"
| "j_int (JStr s) = py_int s"
| "j_int _ = Inl TypeError"

text \<open>A number used in a comparison: a string or a container raises.\<close>

fun j_num :: "json \<Rightarrow> rat result" where
  "j_num (JBool b) = Inr (if b then 1 else 0)"
| "j_num (JInt n) = Inr (of_int n)"
| "j_num (JFloat x) = Inr x"
| "j_num _ = Inl TypeError"

fun j_float :: "json \<Rightarrow> rat result" where
  "j_float (JStr s) = py_float s"
| "j_float v = j_num v"

definition opt_r :: "('a \<Rightarrow> 'b result) \<Rightarrow> 'a option \<Rightarrow> 'b \<Rightarrow> 'b result" where
  "opt_r f x d = (case x of None \<Rightarrow> Inr d | Some a \<Rightarrow> f a)"

lemma opt_r_simps [simp]:
  "opt_r f None d = Inr d"
  "opt_r f (Some a) d = f a"
  by (simp_all add: opt_r_def)

end
