(* ===== verification/Adaptive_Sched.thy ===== *)
theory Adaptive_Sched
  imports Adaptive_K Py_Json
begin

text \<open>
  The schedulers that carry the policy: \<open>AdaptiveKScheduler\<close> (\<open>src/overlay/adaptive_k_scheduler.py\<close>),
  \<open>PolicyDraftLookup\<close> (\<open>adaptive_draft_scheduler.py\<close>), \<open>SpecProbeScheduler\<close> (\<open>spec_probe_scheduler.py\<close>) and
  \<open>LeversScheduler\<close> (\<open>glm_levers_sched.py\<close>). The methods of the vLLM base class are arguments (\<open>base\<close>): they may
  change the request table in any way. An operation that can raise returns the state it leaves behind together
  with the exception, because the callers catch it and go on.
\<close>

section \<open>State\<close>

record request =
  rq_finished :: bool
  rq_prefill :: bool
  rq_spec :: "int list"
  rq_stale :: int
  rq_drop_stale :: bool
  rq_extra :: "jobj option"

record sched_out =
  so_scheduled :: "rid list"
  so_spec :: "(rid \<times> int list) list"

record runner_out =
  mo_kv_failed :: bool
  mo_sampled :: "int list list"
  mo_index :: "rid \<Rightarrow> nat option"

type_synonym requests = "rid \<Rightarrow> request option"

record sched =
  s_cfg :: ak_config
  s_policy :: ak_policy
  s_failed :: bool
  s_steps :: nat
  s_ring :: ring
  s_engine_k :: int
  s_reqs :: requests
  s_running :: "rid list"
  s_num_sampled :: int
  s_default_k :: "int option"
  s_calls :: nat
  s_hist :: "int \<Rightarrow> nat"

type_synonym ('s, 'a) raising = "'s \<times> (py_error + 'a)"

section \<open>AdaptiveKScheduler\<close>

text \<open>The configuration part of \<open>__init__\<close>: the four corrections, and the fallback when one of them raises.\<close>

definition ak_off :: ak_config where
  "ak_off = ak_default\<lparr>ak_enabled := False\<rparr>"

definition ak_boot :: "env \<Rightarrow> bool \<Rightarrow> int \<Rightarrow> ak_config \<times> int" where
  "ak_boot env async_on num_spec =
     (case ak_from_env env of
        Inl _ \<Rightarrow> (ak_off, 0)
      | Inr c0 \<Rightarrow>
          let c1 = (if ak_enabled c0 \<and> \<not> async_on then c0\<lparr>ak_enabled := False\<rparr> else c0);
              c2 = (if ak_enabled c1 \<and> num_spec < 1 then c1\<lparr>ak_enabled := False\<rparr> else c1)
          in if ak_enabled c2 \<and> num_spec < ak_k_hi c2
             then (case ak_make (c2\<lparr>ak_k_hi := num_spec, ak_k_lo := min (ak_k_lo c2) num_spec\<rparr>) of
                     Inl _ \<Rightarrow> (ak_off, num_spec)
                   | Inr c3 \<Rightarrow> (c3, num_spec))
             else (c2, num_spec))"

definition sched_new :: "env \<Rightarrow> bool \<Rightarrow> int \<Rightarrow> requests \<Rightarrow> rid list \<Rightarrow> int \<Rightarrow> sched" where
  "sched_new env async_on num_spec reqs running num_sampled =
     (case ak_boot env async_on num_spec of (c, e) \<Rightarrow>
        \<lparr>s_cfg = c, s_policy = ak_new c, s_failed = False, s_steps = 0,
         s_ring = \<lparr>ring_slots = 3, ring_sets = []\<rparr>, s_engine_k = max e 0, s_reqs = reqs,
         s_running = running, s_num_sampled = num_sampled, s_default_k = None, s_calls = 0,
         s_hist = (\<lambda>_. 0)\<rparr>)"

text \<open>The table \<open>{k: [-1] * k for k in range(0, engine_k + 1)}\<close>.\<close>

definition placeholders :: "int \<Rightarrow> int \<Rightarrow> int list result" where
  "placeholders engine_k k =
     (if 0 \<le> k \<and> k \<le> engine_k then Inr (replicate (nat k) (- 1)) else Inl KeyError)"

definition sizing_items :: "requests \<Rightarrow> rid list \<Rightarrow> (rid \<times> bool \<times> bool \<times> bool) list" where
  "sizing_items reqs rs =
     concat (map (\<lambda>r. case reqs r of None \<Rightarrow> []
                      | Some q \<Rightarrow> [(r, rq_finished q, rq_prefill q, rq_spec q \<noteq> [])]) rs)"

fun set_lengths :: "int \<Rightarrow> requests \<Rightarrow> (rid \<times> int) list \<Rightarrow> (requests, unit) raising" where
  "set_lengths e reqs [] = (reqs, Inr ())"
| "set_lengths e reqs ((r, k) # ls) =
     (case placeholders e k of
        Inl x \<Rightarrow> (reqs, Inl x)
      | Inr ph \<Rightarrow>
          (case reqs r of
             None \<Rightarrow> (reqs, Inl KeyError)
           | Some q \<Rightarrow> set_lengths e (reqs(r \<mapsto> q\<lparr>rq_spec := ph\<rparr>)) ls))"

text \<open>\<open>glm_levers_sched\<close> replaces the module function \<open>assign_lengths\<close>, so it is an argument.\<close>

type_synonym assigner = "ak_policy \<Rightarrow> rid list \<Rightarrow> string \<Rightarrow> int \<Rightarrow> ak_policy \<times> (rid \<times> int) list"

definition ak_size_placeholders :: "assigner \<Rightarrow> sched \<Rightarrow> sched_out \<Rightarrow> (sched, unit) raising" where
  "ak_size_placeholders assign s so =
     (let cands = filter_candidates (sizing_items (s_reqs s) (so_scheduled so))
      in case assign (s_policy s) cands (ak_mode (s_cfg s)) (s_engine_k s) of (p, ls) \<Rightarrow>
         case set_lengths (s_engine_k s) (s_reqs s) ls of (reqs, res) \<Rightarrow>
           (s\<lparr>s_ring := ring_push (s_ring s) cands, s_policy := p, s_reqs := reqs\<rparr>, res))"

text \<open>A step guarded by \<open>try ... except: self._ak_failed = True\<close>.\<close>

definition guarded :: "(sched, unit) raising \<Rightarrow> sched" where
  "guarded r = (case r of (s, Inl _) \<Rightarrow> s\<lparr>s_failed := True\<rparr> | (s, Inr _) \<Rightarrow> s)"

definition ak_after_schedule ::
    "(requests \<Rightarrow> requests) \<Rightarrow> (sched \<Rightarrow> sched_out \<Rightarrow> (sched, unit) raising) \<Rightarrow> sched \<Rightarrow> sched_out \<Rightarrow> sched" where
  "ak_after_schedule base sizing s so =
     (let s1 = s\<lparr>s_reqs := base (s_reqs s)\<rparr>
      in if \<not> ak_enabled (s_cfg s1) \<or> s_failed s1 then s1 else guarded (sizing s1 so))"

text \<open>The loop of \<open>_ak_observe\<close>; reading past the sampled rows raises.\<close>

fun observe_loop ::
    "sched \<Rightarrow> runner_out \<Rightarrow> rid set \<Rightarrow> (ak_policy \<Rightarrow> rid \<Rightarrow> int \<Rightarrow> int \<Rightarrow> ak_policy) \<Rightarrow> ak_policy \<Rightarrow>
     (rid \<times> int list) list \<Rightarrow> (ak_policy, unit) raising" where
  "observe_loop s mo drafted obs p [] = (p, Inr ())"
| "observe_loop s mo drafted obs p ((r, spec) # rest) =
     (case s_reqs s r of
        None \<Rightarrow> observe_loop s mo drafted obs p rest
      | Some q \<Rightarrow>
          if rq_finished q then observe_loop s mo drafted obs p rest
          else (case mo_index mo r of
             None \<Rightarrow> observe_loop s mo drafted obs p rest
           | Some i \<Rightarrow>
               (case (if mo_sampled mo = [] then Inr [] else py_nth (mo_sampled mo) (int i)) of
                  Inl x \<Rightarrow> (p, Inl x)
                | Inr generated \<Rightarrow>
                    if should_observe r drafted (int (length spec)) (generated \<noteq> []) (s_num_sampled s)
                         (0 < rq_stale q) (rq_drop_stale q) (mo_kv_failed mo)
                    then observe_loop s mo drafted obs
                           (obs p r (max (int (length generated) - s_num_sampled s) 0) (int (length spec))) rest
                    else observe_loop s mo drafted obs p rest)))"

definition ak_observe_step ::
    "(ak_policy \<Rightarrow> rid \<Rightarrow> int \<Rightarrow> int \<Rightarrow> ak_policy) \<Rightarrow> sched \<Rightarrow> sched_out \<Rightarrow> runner_out \<Rightarrow> (sched, unit) raising" where
  "ak_observe_step obs s so mo =
     (if so_spec so = [] then (s, Inr ())
      else (case observe_loop s mo (ring_union (s_ring s)) obs (s_policy s) (so_spec so) of
              (p, Inl x) \<Rightarrow> (s\<lparr>s_policy := p\<rparr>, Inl x)
            | (p, Inr _) \<Rightarrow> (s\<lparr>s_policy := p, s_steps := s_steps s + 1\<rparr>, Inr ())))"

definition ak_update_from_output ::
    "(requests \<Rightarrow> requests) \<Rightarrow> (ak_policy \<Rightarrow> rid \<Rightarrow> int \<Rightarrow> int \<Rightarrow> ak_policy) \<Rightarrow> sched \<Rightarrow> sched_out \<Rightarrow> runner_out \<Rightarrow> sched" where
  "ak_update_from_output base obs s so mo =
     (let s1 = (if ak_enabled (s_cfg s) \<and> \<not> s_failed s then guarded (ak_observe_step obs s so mo) else s)
      in s1\<lparr>s_reqs := base (s_reqs s1)\<rparr>)"

definition ak_free_request :: "(requests \<Rightarrow> requests) \<Rightarrow> sched \<Rightarrow> rid \<Rightarrow> sched" where
  "ak_free_request base s r = s\<lparr>s_policy := ak_evict (s_policy s) r, s_reqs := base (s_reqs s)\<rparr>"

section \<open>The draft-length lookups\<close>

definition decodes :: "sched \<Rightarrow> rid \<Rightarrow> bool" where
  "decodes s r = (case s_reqs s r of None \<Rightarrow> False | Some q \<Rightarrow> \<not> (rq_finished q \<or> rq_prefill q))"

fun max_decide :: "ak_policy \<Rightarrow> int \<Rightarrow> rid list \<Rightarrow> ak_policy \<times> int" where
  "max_decide p k [] = (p, k)"
| "max_decide p k (r # rs) = (case ak_decide p r of (p', k') \<Rightarrow> max_decide p' (max k k') rs)"

definition draft_cap :: "env \<Rightarrow> int list option result" where
  "draft_cap env =
     (let cap = strip (case env ''VLLM_ADAPTIVE_DRAFT_CAP'' of None \<Rightarrow> [] | Some c \<Rightarrow> c)
      in if cap = [] then Inr None
         else map_sum id Some (foldr (\<lambda>w acc. bind_r (py_int w) (\<lambda>n. bind_r acc (\<lambda>ns. Inr (n # ns))))
                                 (split_on (CHR '':'') cap) (Inr [])))"

definition bump :: "(int \<Rightarrow> nat) \<Rightarrow> int \<Rightarrow> int \<Rightarrow> nat" where
  "bump h k = h(k := h k + 1)"

text \<open>\<open>PolicyDraftLookup.__getitem__\<close>. \<open>fallback\<close> is the dense launch table.\<close>

definition policy_draft_k :: "int list option \<Rightarrow> int list \<Rightarrow> sched \<Rightarrow> int \<Rightarrow> (sched, int) raising" where
  "policy_draft_k cap fallback s batch_size =
     (if \<not> ak_enabled (s_cfg s) \<or> s_failed s then (s, py_nth fallback batch_size)
      else (case max_decide (s_policy s) 0 (filter (decodes s) (s_running s)) of (p, k0) \<Rightarrow>
        let s1 = s\<lparr>s_policy := p\<rparr>;
            k1 = min (if k0 \<le> 0 then ak_k_hi (s_cfg s) else k0) (s_engine_k s)
        in case (case cap of
                   None \<Rightarrow> Inr k1
                 | Some c \<Rightarrow> if c = [] then Inr k1
                             else bind_r (py_nth c 0) (\<lambda>n.
                               if n \<le> batch_size then bind_r (py_nth c 1) (\<lambda>m. Inr (min k1 m)) else Inr k1)) of
             Inl _ \<Rightarrow> (s1\<lparr>s_failed := True\<rparr>, py_nth fallback batch_size)
           | Inr k \<Rightarrow> (s1\<lparr>s_calls := s_calls s + 1, s_hist := bump (s_hist s) k\<rparr>, Inr k)))"

definition request_override :: "request \<Rightarrow> int option" where
  "request_override q =
     (case rq_extra q of
        None \<Rightarrow> None
      | Some extra \<Rightarrow>
          (case extra ''spec_k'' of
             None \<Rightarrow> None
           | Some JNull \<Rightarrow> None
           | Some raw \<Rightarrow> (case j_int raw of Inl _ \<Rightarrow> None | Inr n \<Rightarrow> Some (max 0 n))))"

text \<open>The override of the request, else the operator's default, else the policy (when it is enabled).\<close>

definition override_k :: "sched \<Rightarrow> rid \<Rightarrow> int option" where
  "override_k s r =
     (case s_reqs s r of None \<Rightarrow> None
      | Some q \<Rightarrow> (case request_override q of Some k \<Rightarrow> Some k | None \<Rightarrow> s_default_k s))"

fun probe_ks :: "sched \<Rightarrow> ak_policy \<Rightarrow> bool \<Rightarrow> rid list \<Rightarrow> ak_policy \<times> int list" where
  "probe_ks s p use_policy [] = (p, [])"
| "probe_ks s p use_policy (r # rs) =
     (let (p1, k) = (case override_k s r of
            Some k \<Rightarrow> (p, k)
          | None \<Rightarrow> if use_policy then ak_decide p r else (p, s_engine_k s));
          (p2, ks) = probe_ks s p1 use_policy rs
      in (p2, min k (s_engine_k s) # ks))"

text \<open>\<open>ProbeDraftLookup.__getitem__\<close>.\<close>

definition probe_draft_k :: "int list \<Rightarrow> sched \<Rightarrow> int \<Rightarrow> (sched, int) raising" where
  "probe_draft_k fallback s batch_size =
     (case probe_ks s (s_policy s) (ak_enabled (s_cfg s)) (filter (decodes s) (s_running s)) of (p, ks) \<Rightarrow>
        let k_step = foldl max 0 ks
        in (s\<lparr>s_policy := p\<rparr>, if 0 < k_step then Inr k_step else py_nth fallback batch_size))"

section \<open>SpecProbeScheduler\<close>

text \<open>The control file: the \<open>AdaptiveKConfig\<close> fields it may replace, validated as a whole by \<open>replace\<close>.\<close>

definition ctl_cfg :: "ak_config \<Rightarrow> int \<Rightarrow> jobj \<Rightarrow> ak_config result" where
  "ctl_cfg c engine_k ctl =
     bind_r (opt_r (\<lambda>v. map_sum id (\<lambda>n. min n engine_k) (j_int v)) (ctl ''k_lo'') (ak_k_lo c)) (\<lambda>lo.
     bind_r (opt_r (\<lambda>v. map_sum id (\<lambda>n. min n engine_k) (j_int v)) (ctl ''k_hi'') (ak_k_hi c)) (\<lambda>hi.
     bind_r (opt_r j_num (ctl ''up'') (ak_up c)) (\<lambda>up.
     bind_r (opt_r j_num (ctl ''down'') (ak_down c)) (\<lambda>down.
     bind_r (opt_r j_num (ctl ''alpha'') (ak_alpha c)) (\<lambda>alpha.
       ak_make (c\<lparr>ak_enabled := (case ctl ''enabled'' of None \<Rightarrow> ak_enabled c | Some v \<Rightarrow> j_truth v),
                  ak_k_lo := lo, ak_k_hi := hi, ak_up := up, ak_down := down, ak_alpha := alpha\<rparr>))))))"

definition ctl_default_k :: "int \<Rightarrow> json option \<Rightarrow> int option result" where
  "ctl_default_k engine_k v =
     (case v of
        None \<Rightarrow> Inr None
      | Some JNull \<Rightarrow> Inr None
      | Some j \<Rightarrow> map_sum id (\<lambda>n. Some (max 0 (min n engine_k))) (j_int j))"

text \<open>\<open>_probe_reload\<close> after the file was read and parsed; an exception is logged and the state kept.\<close>

definition probe_apply :: "sched \<Rightarrow> jobj \<Rightarrow> sched" where
  "probe_apply s ctl =
     (case ctl_cfg (s_cfg s) (s_engine_k s) ctl of
        Inl _ \<Rightarrow> s
      | Inr c \<Rightarrow>
          (case ctl_default_k (s_engine_k s) (ctl ''default_k'') of
             Inl _ \<Rightarrow> s
           | Inr dk \<Rightarrow>
               let s1 = s\<lparr>s_default_k := dk\<rparr>
               in if c \<noteq> s_cfg s then s1\<lparr>s_cfg := c, s_policy := ak_new c\<rparr> else s1))"

fun probe_override_loop :: "sched \<Rightarrow> rid list \<Rightarrow> (sched, unit) raising" where
  "probe_override_loop s [] = (s, Inr ())"
| "probe_override_loop s (r # rs) =
     (case s_reqs s r of
        None \<Rightarrow> probe_override_loop s rs
      | Some q \<Rightarrow>
          if rq_finished q \<or> rq_prefill q \<or> rq_spec q = [] then probe_override_loop s rs
          else (case override_k s r of
                  None \<Rightarrow> probe_override_loop s rs
                | Some k0 \<Rightarrow>
                    let k = min k0 (s_engine_k s)
                    in (case placeholders (s_engine_k s) k of
                          Inl x \<Rightarrow> (s, Inl x)
                        | Inr ph \<Rightarrow>
                            probe_override_loop
                              (s\<lparr>s_reqs := (s_reqs s)(r \<mapsto> q\<lparr>rq_spec := ph\<rparr>), s_hist := bump (s_hist s) k\<rparr>) rs)))"

definition probe_size_placeholders :: "assigner \<Rightarrow> sched \<Rightarrow> sched_out \<Rightarrow> (sched, unit) raising" where
  "probe_size_placeholders assign s so =
     (case (if ak_enabled (s_cfg s) then ak_size_placeholders assign s so else (s, Inr ())) of
        (s1, Inl x) \<Rightarrow> (s1, Inl x)
      | (s1, Inr _) \<Rightarrow> probe_override_loop s1 (so_scheduled so))"

definition probe_after_schedule :: "(requests \<Rightarrow> requests) \<Rightarrow> assigner \<Rightarrow> sched \<Rightarrow> sched_out \<Rightarrow> sched" where
  "probe_after_schedule base assign s so =
     (let s1 = ak_after_schedule base (probe_size_placeholders assign) s so
      in if \<not> ak_enabled (s_cfg s1) \<and> \<not> s_failed s1
         then guarded (probe_size_placeholders assign s1 so) else s1)"

section \<open>LeversScheduler\<close>

record lv_globals =
  lv_signal :: string
  lv_mode :: string
  lv_end_drain :: bool
  lv_coalesce_ms :: rat

record ps_globals =
  ps_end_drain :: bool
  ps_coalesce_s :: rat

record levers =
  l_sched :: sched
  l_lv :: lv_globals
  l_ps :: "ps_globals option"

definition lv_modes :: "string list" where
  "lv_modes = [''per-request'', ''batch-uniform'', ''batch-max'']"

definition lv_from_env :: "env \<Rightarrow> lv_globals result" where
  "lv_from_env env =
     (let word = (\<lambda>n d. strip (case env n of None \<Rightarrow> d | Some w \<Rightarrow> if w = [] then d else w));
          drain = (case env ''GLM_LV_END_DRAIN'' of None \<Rightarrow> ''0'' | Some w \<Rightarrow> w);
          mode = word ''GLM_LV_MODE'' ''per-request''
      in bind_r (case env ''GLM_LV_COALESCE_MS'' of
                   None \<Rightarrow> py_float ''0'' | Some w \<Rightarrow> if w = [] then Inr 0 else py_float w) (\<lambda>ms.
           if mode \<notin> set lv_modes then Inl ValueError
           else Inr \<lparr>lv_signal = word ''GLM_LV_SIGNAL'' ''pos'', lv_mode = mode,
                     lv_end_drain = (strip drain = ''1''), lv_coalesce_ms = ms\<rparr>))"

text \<open>The module function that replaces \<open>assign_lengths\<close> (its \<open>STATS\<close> counters are only logged).\<close>

definition lv_assign_lengths :: "string \<Rightarrow> assigner" where
  "lv_assign_lengths lvmode p rs mode engine_k =
     (if rs = [] then (p, [])
      else if lvmode = ''batch-max'' then
        (case decide_all p rs of (p', ks) \<Rightarrow>
           (p', map (\<lambda>r. (r, foldl max 0 (map (\<lambda>k. placeholder_len k engine_k) ks))) rs))
      else if lvmode = ''batch-uniform'' then assign_lengths p rs ''batch-uniform'' engine_k
      else assign_lengths p rs mode engine_k)"

definition lv_apply_prefill :: "levers \<Rightarrow> levers" where
  "lv_apply_prefill l =
     (case l_ps l of
        None \<Rightarrow> l
      | Some ps \<Rightarrow> l\<lparr>l_ps := Some \<lparr>ps_end_drain = lv_end_drain (l_lv l),
                                  ps_coalesce_s = max 0 (min (lv_coalesce_ms (l_lv l)) 5) / 1000\<rparr>\<rparr>)"

definition lv_observe :: "string \<Rightarrow> ak_policy \<Rightarrow> rid \<Rightarrow> int \<Rightarrow> int \<Rightarrow> ak_policy \<times> rat" where
  "lv_observe sig p r num_accepted num_draft =
     (if sig \<noteq> ''cond'' then ak_observe p r num_accepted num_draft
      else let k = ak_k_lo (p_cfg p); (p', st) = ak_get p r
           in if num_draft < k \<or> num_accepted < k - 1 then (p', q_ema st)
              else let e = ema_step (ak_alpha (p_cfg p)) (if k \<le> num_accepted then 1 else 0) (q_ema st)
                   in (p'\<lparr>p_state := (p_state p')(r \<mapsto> st\<lparr>q_ema := e\<rparr>),
                          p_cnt := (p_cnt p')\<lparr>n_obs := n_obs (p_cnt p') + 1\<rparr>\<rparr>, e))"

text \<open>\<open>LeversDraftLookup.__getitem__\<close>.\<close>

definition lv_draft_k :: "string \<Rightarrow> int list \<Rightarrow> sched \<Rightarrow> int \<Rightarrow> (sched, int) raising" where
  "lv_draft_k lvmode fallback s batch_size =
     (if lvmode \<noteq> ''batch-uniform'' \<or> \<not> ak_enabled (s_cfg s) \<or> s_failed s
      then probe_draft_k fallback s batch_size
      else (case probe_ks s (s_policy s) True (filter (decodes s) (s_running s)) of (p, ks) \<Rightarrow>
        (s\<lparr>s_policy := p\<rparr>,
         if ks = [] then py_nth fallback batch_size
         else Inr (if list_all (\<lambda>k. ak_k_hi (s_cfg s) \<le> k) ks then ak_k_hi (s_cfg s) else foldl min (hd ks) ks))))"

text \<open>\<open>_lv_apply\<close>: one stage per block of the method; the first exception leaves what earlier stages did.\<close>

fun run_stages :: "('s \<Rightarrow> ('s, unit) raising) list \<Rightarrow> 's \<Rightarrow> ('s, unit) raising" where
  "run_stages [] s = (s, Inr ())"
| "run_stages (f # fs) s = (case f s of (s', Inl x) \<Rightarrow> (s', Inl x) | (s', Inr _) \<Rightarrow> run_stages fs s')"

definition st_default_k :: "jobj \<Rightarrow> levers \<Rightarrow> (levers, unit) raising" where
  "st_default_k ctl l =
     (case ctl ''default_k'' of
        None \<Rightarrow> (l, Inr ())
      | Some v \<Rightarrow>
          (case ctl_default_k (s_engine_k (l_sched l)) (Some v) of
             Inl x \<Rightarrow> (l, Inl x)
           | Inr dk \<Rightarrow> (l\<lparr>l_sched := (l_sched l)\<lparr>s_default_k := dk\<rparr>\<rparr>, Inr ())))"

definition st_mode :: "jobj \<Rightarrow> levers \<Rightarrow> (levers, unit) raising" where
  "st_mode ctl l =
     (case ctl ''mode'' of
        None \<Rightarrow> (l, Inr ())
      | Some (JStr m) \<Rightarrow> if m \<in> set lv_modes then (l\<lparr>l_lv := (l_lv l)\<lparr>lv_mode := m\<rparr>\<rparr>, Inr ()) else (l, Inl ValueError)
      | Some _ \<Rightarrow> (l, Inl ValueError))"

definition st_end_drain :: "jobj \<Rightarrow> levers \<Rightarrow> (levers, unit) raising" where
  "st_end_drain ctl l =
     (case ctl ''end_drain'' of
        None \<Rightarrow> (l, Inr ())
      | Some v \<Rightarrow> (case j_int v of
                    Inl x \<Rightarrow> (l, Inl x)
                  | Inr n \<Rightarrow> (l\<lparr>l_lv := (l_lv l)\<lparr>lv_end_drain := (n \<noteq> 0)\<rparr>\<rparr>, Inr ())))"

definition st_coalesce :: "jobj \<Rightarrow> levers \<Rightarrow> (levers, unit) raising" where
  "st_coalesce ctl l =
     (case ctl ''coalesce_ms'' of
        None \<Rightarrow> (l, Inr ())
      | Some v \<Rightarrow> (case j_float v of
                    Inl x \<Rightarrow> (l, Inl x)
                  | Inr ms \<Rightarrow> (l\<lparr>l_lv := (l_lv l)\<lparr>lv_coalesce_ms := ms\<rparr>\<rparr>, Inr ())))"

definition lv_cfg :: "ak_config \<Rightarrow> int \<Rightarrow> jobj \<Rightarrow> ak_config result" where
  "lv_cfg c engine_k ctl =
     bind_r (opt_r (\<lambda>v. map_sum id (\<lambda>n. min n engine_k) (j_int v)) (ctl ''k_lo'') (ak_k_lo c)) (\<lambda>lo.
     bind_r (opt_r (\<lambda>v. map_sum id (\<lambda>n. min n engine_k) (j_int v)) (ctl ''k_hi'') (ak_k_hi c)) (\<lambda>hi.
     bind_r (opt_r j_num (ctl ''up'') (ak_up c)) (\<lambda>up.
     bind_r (opt_r j_num (ctl ''down'') (ak_down c)) (\<lambda>down.
     bind_r (opt_r j_num (ctl ''alpha'') (ak_alpha c)) (\<lambda>alpha.
     bind_r (opt_r j_num (ctl ''seed'') (ak_seed c)) (\<lambda>seed.
       ak_make (c\<lparr>ak_enabled := (case ctl ''enabled'' of None \<Rightarrow> ak_enabled c | Some v \<Rightarrow> j_truth v),
                  ak_k_lo := lo, ak_k_hi := hi, ak_up := up, ak_down := down, ak_alpha := alpha,
                  ak_seed := seed\<rparr>)))))))"

text \<open>The conversion of \<open>k_lo\<close> and \<open>k_hi\<close> happens first, before anything is set.\<close>

definition st_ints :: "jobj \<Rightarrow> levers \<Rightarrow> (levers, unit) raising" where
  "st_ints ctl l =
     (l, bind_r (opt_r j_int (ctl ''k_lo'') 0) (\<lambda>_. bind_r (opt_r j_int (ctl ''k_hi'') 0) (\<lambda>_. Inr ())))"

definition lv_finish :: "jobj \<Rightarrow> levers \<Rightarrow> bool \<Rightarrow> (levers, unit) raising" where
  "lv_finish ctl l fresh =
     (case lv_cfg (s_cfg (l_sched l)) (s_engine_k (l_sched l)) ctl of
        Inl x \<Rightarrow> (l, Inl x)
      | Inr c \<Rightarrow>
          (lv_apply_prefill
             (if c \<noteq> s_cfg (l_sched l) \<or> fresh
              then l\<lparr>l_sched := (l_sched l)\<lparr>s_cfg := c, s_policy := ak_new c\<rparr>\<rparr> else l), Inr ()))"

definition st_signal_cfg :: "jobj \<Rightarrow> levers \<Rightarrow> (levers, unit) raising" where
  "st_signal_cfg ctl l =
     (case ctl ''signal'' of
        None \<Rightarrow> lv_finish ctl l False
      | Some (JStr sg) \<Rightarrow>
          if sg \<in> {''pos'', ''cond''}
          then lv_finish ctl (l\<lparr>l_lv := (l_lv l)\<lparr>lv_signal := sg\<rparr>\<rparr>) (sg \<noteq> lv_signal (l_lv l))
          else (l, Inl ValueError)
      | Some _ \<Rightarrow> (l, Inl ValueError))"

definition lv_apply :: "jobj \<Rightarrow> levers \<Rightarrow> (levers, unit) raising" where
  "lv_apply ctl =
     run_stages [st_ints ctl, st_default_k ctl, st_mode ctl, st_end_drain ctl, st_coalesce ctl, st_signal_cfg ctl]"

text \<open>\<open>LeversScheduler._probe_reload\<close> once the file was read: the exception is logged, the state is what is left.\<close>

definition lv_reload :: "jobj \<Rightarrow> levers \<Rightarrow> levers" where
  "lv_reload ctl l = fst (lv_apply ctl l)"

definition lv_boot :: "sched \<Rightarrow> lv_globals \<Rightarrow> ps_globals option \<Rightarrow> jobj option \<Rightarrow> (levers, unit) raising" where
  "lv_boot s lv ps ctl =
     (let l = lv_apply_prefill \<lparr>l_sched = s\<lparr>s_policy := ak_new (s_cfg s)\<rparr>, l_lv = lv, l_ps = ps\<rparr>
      in case ctl of None \<Rightarrow> (l, Inr ()) | Some c \<Rightarrow> lv_apply c l)"

section \<open>Invariant\<close>

definition sched_inv :: "sched \<Rightarrow> bool" where
  "sched_inv s \<longleftrightarrow> ak_inv (s_policy s) \<and> p_cfg (s_policy s) = s_cfg s \<and> 0 \<le> s_engine_k s"

text \<open>What an operation may do to the request table: nothing but shorten or lengthen placeholder lists.\<close>

definition spec_change :: "int \<Rightarrow> request \<Rightarrow> request \<Rightarrow> bool" where
  "spec_change e q q' \<longleftrightarrow> q' = q \<or> (\<exists>k. int k \<le> e \<and> q' = q\<lparr>rq_spec := replicate k (- 1)\<rparr>)"

definition spec_only :: "int \<Rightarrow> requests \<Rightarrow> requests \<Rightarrow> bool" where
  "spec_only e reqs reqs' \<longleftrightarrow> (\<forall>r. rel_option (spec_change e) (reqs r) (reqs' r))"

lemma spec_change_refl [simp]: "spec_change e q q"
  by (simp add: spec_change_def)

lemma spec_change_trans: "spec_change e a b \<Longrightarrow> spec_change e b c \<Longrightarrow> spec_change e a c"
  unfolding spec_change_def by (elim disjE exE conjE) force+

lemma spec_only_refl [simp]: "spec_only e reqs reqs"
  by (simp add: spec_only_def option.rel_refl)

lemma spec_only_trans: "spec_only e a b \<Longrightarrow> spec_only e b c \<Longrightarrow> spec_only e a c"
  unfolding spec_only_def
proof
  fix r
  assume a: "\<forall>r. rel_option (spec_change e) (a r) (b r)" and b: "\<forall>r. rel_option (spec_change e) (b r) (c r)"
  show "rel_option (spec_change e) (a r) (c r)"
    using a [THEN spec, of r] b [THEN spec, of r]
    by (cases "a r"; cases "b r"; cases "c r") (auto intro: spec_change_trans)
qed

lemma spec_only_upd:
  assumes "reqs r = Some q" and "placeholders e k = Inr ph"
  shows "spec_only e reqs (reqs(r \<mapsto> q\<lparr>rq_spec := ph\<rparr>))"
proof -
  from assms have "int (nat k) \<le> e \<and> ph = replicate (nat k) (- 1)"
    by (auto simp: placeholders_def split: if_splits)
  then have c: "spec_change e q (q\<lparr>rq_spec := ph\<rparr>)" unfolding spec_change_def by blast
  have "rel_option (spec_change e) x x" for x by (rule option.rel_refl) simp
  with assms(1) c show ?thesis by (simp add: spec_only_def)
qed

lemma spec_only_Some:
  "spec_only e reqs reqs' \<Longrightarrow> reqs r = Some q \<Longrightarrow> \<exists>sp. reqs' r = Some (q\<lparr>rq_spec := sp\<rparr>)"
proof -
  assume "spec_only e reqs reqs'" "reqs r = Some q"
  then obtain q' where q': "reqs' r = Some q'" "spec_change e q q'"
    unfolding spec_only_def by (metis option_rel_Some1)
  then show ?thesis
  proof (cases "q' = q")
    case True
    then have "q' = q\<lparr>rq_spec := rq_spec q\<rparr>" by simp
    then show ?thesis using q'(1) by blast
  next
    case False
    then show ?thesis using q' by (auto simp: spec_change_def)
  qed
qed

lemma set_lengths_ok:
  "\<forall>(r, k)\<in>set ls. 0 \<le> k \<and> k \<le> e \<and> reqs r \<noteq> None \<Longrightarrow>
   snd (set_lengths e reqs ls) = Inr () \<and> spec_only e reqs (fst (set_lengths e reqs ls)) \<and>
   (\<forall>r. r \<in> fst ` set ls \<longrightarrow> (\<exists>q' k. fst (set_lengths e reqs ls) r = Some q' \<and> (r, k) \<in> set ls \<and>
                              rq_spec q' = replicate (nat k) (- 1)))  \<and>
   (\<forall>r. r \<notin> fst ` set ls \<longrightarrow> fst (set_lengths e reqs ls) r = reqs r)"
proof (induction ls arbitrary: reqs)
  case (Cons l ls)
  obtain r k where l: "l = (r, k)" by (cases l)
  from Cons.prems obtain q where q: "reqs r = Some q" and k: "0 \<le> k" "k \<le> e" by (auto simp: l)
  have ph: "placeholders e k = Inr (replicate (nat k) (- 1))" using k by (simp add: placeholders_def)
  let ?R = "reqs(r \<mapsto> q\<lparr>rq_spec := replicate (nat k) (- 1)\<rparr>)"
  have step: "set_lengths e reqs (l # ls) = set_lengths e ?R ls" by (simp add: l ph q)
  let ?F = "fst (set_lengths e ?R ls)"
  have pre: "\<forall>(r, k)\<in>set ls. 0 \<le> k \<and> k \<le> e \<and> ?R r \<noteq> None" using Cons.prems by auto
  note IH = Cons.IH [OF pre]
  have rest: "\<forall>r'. r' \<notin> fst ` set ls \<longrightarrow> ?F r' = ?R r'" using IH by blast
  have hit: "\<forall>r'. r' \<in> fst ` set ls \<longrightarrow>
      (\<exists>q' k'. ?F r' = Some q' \<and> (r', k') \<in> set ls \<and> rq_spec q' = replicate (nat k') (- 1))" using IH by blast
  have so: "spec_only e reqs ?F"
    using spec_only_trans [OF spec_only_upd [of reqs r q e k, OF q ph]] IH by blast
  have mem: "\<exists>q' k'. ?F r' = Some q' \<and> (r', k') \<in> set (l # ls) \<and> rq_spec q' = replicate (nat k') (- 1)"
    if "r' \<in> fst ` set (l # ls)" for r'
  proof (cases "r' \<in> fst ` set ls")
    case True
    then show ?thesis using hit by fastforce
  next
    case False
    then have r: "r' = r" using that by (auto simp: l)
    have "?F r = ?R r" using rest False r by blast
    then have "?F r = Some (q\<lparr>rq_spec := replicate (nat k) (- 1)\<rparr>)" by simp
    then show ?thesis
      by (intro exI [of _ "q\<lparr>rq_spec := replicate (nat k) (- 1)\<rparr>"] exI [of _ k]) (simp add: r l)
  qed
  have "?F r' = reqs r'" if "r' \<notin> fst ` set (l # ls)" for r'
  proof -
    have "?F r' = ?R r'" using rest that by simp
    then show ?thesis using that by (simp add: l)
  qed
  moreover have "snd (set_lengths e ?R ls) = Inr ()" using IH by blast
  ultimately show ?case unfolding step using so mem by blast
qed simp

lemma sizing_items_known: "r \<in> set (filter_candidates (sizing_items reqs rs)) \<Longrightarrow>
   \<exists>q. reqs r = Some q \<and> r \<in> set rs \<and> \<not> rq_finished q \<and> \<not> rq_prefill q \<and> rq_spec q \<noteq> []"
  by (cases "reqs r") (auto simp: filter_candidates_def sizing_items_def split: option.splits)

lemma sizing_items_all:
  "reqs r = Some q \<Longrightarrow> r \<in> set rs \<Longrightarrow> \<not> rq_finished q \<Longrightarrow> \<not> rq_prefill q \<Longrightarrow> rq_spec q \<noteq> [] \<Longrightarrow>
   r \<in> set (filter_candidates (sizing_items reqs rs))"
  by (force simp: filter_candidates_def sizing_items_def split: option.splits)

section \<open>The contract of an assignment of lengths\<close>

locale length_assigner =
  fixes assign :: assigner
  assumes assign_ok: "ak_inv p \<Longrightarrow> 0 \<le> e \<Longrightarrow> assign p rs mode e = (p', ls) \<Longrightarrow>
    ak_inv p' \<and> p_cfg p' = p_cfg p \<and> map fst ls = rs \<and>
    (\<forall>(r, k)\<in>set ls. \<exists>h\<in>{ak_k_lo (p_cfg p), ak_k_hi (p_cfg p)}. k = min h e)"
begin

lemma size_ok:
  assumes inv: "sched_inv s" and res: "ak_size_placeholders assign s so = (s', res)"
  shows "res = Inr () \<and> sched_inv s' \<and> spec_only (s_engine_k s) (s_reqs s) (s_reqs s') \<and>
         s_engine_k s' = s_engine_k s \<and> s_default_k s' = s_default_k s \<and> s_cfg s' = s_cfg s \<and> s_failed s' = s_failed s \<and>
         (\<forall>r. r \<in> set (filter_candidates (sizing_items (s_reqs s) (so_scheduled so))) \<longrightarrow>
              (\<exists>q'. s_reqs s' r = Some q' \<and> (\<exists>h\<in>{ak_k_lo (s_cfg s), ak_k_hi (s_cfg s)}.
                 rq_spec q' = replicate (nat (min h (s_engine_k s))) (- 1)))) \<and>
         (\<forall>r. r \<notin> set (filter_candidates (sizing_items (s_reqs s) (so_scheduled so))) \<longrightarrow> s_reqs s' r = s_reqs s r)"
proof -
  let ?c = "filter_candidates (sizing_items (s_reqs s) (so_scheduled so))"
  let ?e = "s_engine_k s"
  obtain p ls where a: "assign (s_policy s) ?c (ak_mode (s_cfg s)) ?e = (p, ls)" by fastforce
  have i: "ak_inv (s_policy s)" "p_cfg (s_policy s) = s_cfg s" "0 \<le> ?e" using inv by (auto simp: sched_inv_def)
  note A = assign_ok [OF i(1,3) a]
  have pos: "0 < ak_k_lo (s_cfg s)" "0 < ak_k_hi (s_cfg s)" using i(1,2) by (auto simp: ak_inv_def ak_valid_def)
  have ls: "fst ` set ls = set ?c" using A by (metis list.set_map)
  have "\<forall>(r, k)\<in>set ls. 0 \<le> k \<and> k \<le> ?e \<and> s_reqs s r \<noteq> None"
  proof (clarify, intro conjI)
    fix r k assume m: "(r, k) \<in> set ls"
    then have "r \<in> set ?c" using ls by force
    then show "s_reqs s r \<noteq> None" using sizing_items_known by fastforce
    show "0 \<le> k" "k \<le> ?e" using A m i pos by auto
  qed
  note L = set_lengths_ok [OF this]
  obtain reqs where sl: "set_lengths ?e (s_reqs s) ls = (reqs, Inr ())"
    using L by (metis prod.collapse)
  have s': "s' = s\<lparr>s_ring := ring_push (s_ring s) ?c, s_policy := p, s_reqs := reqs\<rparr>" and r: "res = Inr ()"
    using res by (auto simp: ak_size_placeholders_def a sl)
  have cand: "\<exists>q'. reqs r = Some q' \<and> (\<exists>h\<in>{ak_k_lo (s_cfg s), ak_k_hi (s_cfg s)}.
                 rq_spec q' = replicate (nat (min h ?e)) (- 1))" if m: "r \<in> set ?c" for r
  proof -
    from L sl m ls obtain q' k where "reqs r = Some q'" "(r, k) \<in> set ls" "rq_spec q' = replicate (nat k) (- 1)"
      by auto
    then show ?thesis using A i by fastforce
  qed
  show ?thesis using A L sl ls cand i by (auto simp: s' r sched_inv_def)
qed

end

lemma placeholder_len_min: "0 < h \<Longrightarrow> 0 \<le> e \<Longrightarrow> placeholder_len h e = min h e"
  by (simp add: placeholder_len_def)

interpretation base_assign: length_assigner assign_lengths
proof
  fix p e rs mode p' and ls :: "(rid \<times> int) list"
  assume a: "ak_inv p" "0 \<le> e" "assign_lengths p rs mode e = (p', ls)"
  then have "0 < ak_k_lo (p_cfg p)" "0 < ak_k_hi (p_cfg p)" by (auto simp: ak_inv_def ak_valid_def)
  then show "ak_inv p' \<and> p_cfg p' = p_cfg p \<and> map fst ls = rs \<and>
    (\<forall>(r, k)\<in>set ls. \<exists>h\<in>{ak_k_lo (p_cfg p), ak_k_hi (p_cfg p)}. k = min h e)"
    using assign_lengths_props [OF a(1,3)] a(2) by (fastforce simp: placeholder_len_min)
qed

lemma foldl_max_mem: "foldl max (a :: int) xs \<in> insert a (set xs)"
  by (induction xs arbitrary: a) (auto simp: max_def)

lemma lv_batch_max_props:
  assumes "ak_inv p" and "0 \<le> e" and "rs \<noteq> []" and d: "decide_all p rs = (p1, ks)"
  shows "\<exists>h\<in>{ak_k_lo (p_cfg p), ak_k_hi (p_cfg p)}. foldl max 0 (map (\<lambda>k. placeholder_len k e) ks) = min h e"
proof -
  note D = decide_all_props [OF assms(1) d]
  let ?l = "map (\<lambda>k. placeholder_len k e) ks"
  have pos: "0 < ak_k_lo (p_cfg p)" "0 < ak_k_hi (p_cfg p)" using assms(1) by (auto simp: ak_inv_def ak_valid_def)
  have all: "\<exists>h\<in>{ak_k_lo (p_cfg p), ak_k_hi (p_cfg p)}. x = min h e" if "x \<in> set ?l" for x
    using that D pos assms(2) by (auto simp: placeholder_len_def)
  from D assms(3) obtain k ks' where k: "ks = k # ks'" by (cases ks) auto
  have "0 \<le> placeholder_len k e" by (simp add: placeholder_len_def)
  then have "foldl max 0 ?l = foldl max (placeholder_len k e) (map (\<lambda>k. placeholder_len k e) ks')"
    by (simp add: k max_def)
  also have "\<dots> \<in> set ?l"
    using foldl_max_mem [of "placeholder_len k e" "map (\<lambda>k. placeholder_len k e) ks'"] by (auto simp: k)
  finally show ?thesis by (rule all)
qed

interpretation lv_assign: length_assigner "lv_assign_lengths m" for m
proof
  fix p e rs mode p' and ls :: "(rid \<times> int) list"
  assume a: "ak_inv p" "0 \<le> e" "lv_assign_lengths m p rs mode e = (p', ls)"
  show "ak_inv p' \<and> p_cfg p' = p_cfg p \<and> map fst ls = rs \<and>
    (\<forall>(r, k)\<in>set ls. \<exists>h\<in>{ak_k_lo (p_cfg p), ak_k_hi (p_cfg p)}. k = min h e)"
  proof (cases "rs = [] \<or> m \<noteq> ''batch-max''")
    case True
    show ?thesis
    proof (cases "rs = []")
      case True
      then show ?thesis using a(1,3) by (simp add: lv_assign_lengths_def)
    next
      case False
      with \<open>rs = [] \<or> m \<noteq> ''batch-max''\<close> have m: "m \<noteq> ''batch-max''" by simp
      have "lv_assign_lengths m p rs mode e =
            assign_lengths p rs (if m = ''batch-uniform'' then ''batch-uniform'' else mode) e"
        using False m by (simp add: lv_assign_lengths_def)
      with a(3) have "assign_lengths p rs (if m = ''batch-uniform'' then ''batch-uniform'' else mode) e = (p', ls)"
        by simp
      then show ?thesis by (rule base_assign.assign_ok [OF a(1,2)])
    qed
  next
    case False
    obtain p1 ks where d: "decide_all p rs = (p1, ks)" by fastforce
    have eq: "p' = p1" "ls = map (\<lambda>r. (r, foldl max 0 (map (\<lambda>k. placeholder_len k e) ks))) rs"
      using a(3) False by (auto simp: lv_assign_lengths_def d)
    have "rs \<noteq> []" using False by simp
    from lv_batch_max_props [OF a(1,2) this d] decide_all_props [OF a(1) d] show ?thesis
      by (auto simp: eq comp_def)
  qed
qed

section \<open>Overrides\<close>

lemma request_override_extra [simp]: "request_override (q\<lparr>rq_spec := sp\<rparr>) = request_override q"
  by (simp add: request_override_def)

lemma override_k_fields [simp]:
  "override_k (s\<lparr>s_hist := h\<rparr>) = override_k s"
  "override_k (s\<lparr>s_policy := p\<rparr>) = override_k s"
  "override_k (s\<lparr>s_ring := g\<rparr>) = override_k s"
  by (simp_all add: override_k_def fun_eq_iff cong: option.case_cong)

lemma request_override_nonneg: "request_override q = Some k \<Longrightarrow> 0 \<le> k"
  by (auto simp: request_override_def split: option.splits json.splits sum.splits)

lemma override_k_nonneg:
  "(\<forall>d. s_default_k s = Some d \<longrightarrow> 0 \<le> d) \<Longrightarrow> override_k s r = Some k \<Longrightarrow> 0 \<le> k"
  by (auto simp: override_k_def split: option.splits dest: request_override_nonneg)

text \<open>What the override step makes of one entry of the request table.\<close>

definition overridden :: "sched \<Rightarrow> rid \<Rightarrow> request option" where
  "overridden s r =
     (case s_reqs s r of
        None \<Rightarrow> None
      | Some q \<Rightarrow>
          if rq_finished q \<or> rq_prefill q \<or> rq_spec q = [] then Some q
          else (case override_k s r of
                  None \<Rightarrow> Some q
                | Some k \<Rightarrow> Some (q\<lparr>rq_spec := replicate (nat (min k (s_engine_k s))) (- 1)\<rparr>)))"

lemma overridden_hist [simp]: "overridden (s\<lparr>s_hist := h\<rparr>) = overridden s"
  by (rule ext) (simp add: overridden_def cong: option.case_cong if_cong)

lemma overridden_step:
  assumes "0 \<le> s_engine_k s" and "\<forall>d. s_default_k s = Some d \<longrightarrow> 0 \<le> d"
  shows "\<exists>h. probe_override_loop s (r # rs) =
             probe_override_loop (s\<lparr>s_reqs := (s_reqs s)(r := overridden s r), s_hist := h\<rparr>) rs \<and>
             spec_only (s_engine_k s) (s_reqs s) ((s_reqs s)(r := overridden s r))"
proof -
  have same: "\<exists>h. probe_override_loop s rs =
                  probe_override_loop (s\<lparr>s_reqs := (s_reqs s)(r := overridden s r), s_hist := h\<rparr>) rs \<and>
                  spec_only (s_engine_k s) (s_reqs s) ((s_reqs s)(r := overridden s r))"
    if "overridden s r = s_reqs s r"
    by (rule exI [of _ "s_hist s"]) (simp add: that)
  show ?thesis
  proof (cases "s_reqs s r")
    case None
    then have o: "overridden s r = s_reqs s r" by (simp add: overridden_def)
    show ?thesis using same [OF o] None by simp
  next
    case (Some q)
    show ?thesis
    proof (cases "rq_finished q \<or> rq_prefill q \<or> rq_spec q = [] \<or> override_k s r = None")
      case True
      then have o: "overridden s r = s_reqs s r" using Some by (auto simp: overridden_def)
      have "probe_override_loop s (r # rs) = probe_override_loop s rs" using True Some by auto
      then show ?thesis using same [OF o] by simp
    next
      case False
      then obtain k where k: "override_k s r = Some k" by blast
      have k0: "0 \<le> k" by (rule override_k_nonneg [OF assms(2) k])
      let ?k = "min k (s_engine_k s)"
      have ph: "placeholders (s_engine_k s) ?k = Inr (replicate (nat ?k) (- 1))"
        using k0 assms(1) by (simp add: placeholders_def)
      have o: "overridden s r = Some (q\<lparr>rq_spec := replicate (nat ?k) (- 1)\<rparr>)"
        using False Some k by (simp add: overridden_def)
      have "probe_override_loop s (r # rs) =
            probe_override_loop (s\<lparr>s_reqs := (s_reqs s)(r := overridden s r), s_hist := bump (s_hist s) ?k\<rparr>) rs"
        using False Some k ph by (simp add: o Let_def)
      then show ?thesis using spec_only_upd [of "s_reqs s" r q, OF Some ph] o by auto
    qed
  qed
qed

lemma override_k_upd:
  "s_reqs s r = Some q \<Longrightarrow> override_k (s\<lparr>s_reqs := (s_reqs s)(r \<mapsto> q\<lparr>rq_spec := sp\<rparr>)\<rparr>) r' = override_k s r'"
  by (cases "r' = r") (simp_all add: override_k_def cong: option.case_cong)

lemma overridden_again: "overridden (s\<lparr>s_reqs := (s_reqs s)(r := overridden s r)\<rparr>) r' = overridden s r'"
proof (cases "overridden s r = s_reqs s r")
  case True
  then show ?thesis by simp
next
  case False
  then obtain q k where q: "s_reqs s r = Some q" "\<not> (rq_finished q \<or> rq_prefill q \<or> rq_spec q = [])"
    and k: "override_k s r = Some k"
    and o: "overridden s r = Some (q\<lparr>rq_spec := replicate (nat (min k (s_engine_k s))) (- 1)\<rparr>)"
    by (auto simp: overridden_def split: option.splits if_splits)
  let ?s = "s\<lparr>s_reqs := (s_reqs s)(r \<mapsto> q\<lparr>rq_spec := replicate (nat (min k (s_engine_k s))) (- 1)\<rparr>)\<rparr>"
  have ov: "override_k ?s x = override_k s x" for x by (rule override_k_upd [OF q(1)])
  show ?thesis
  proof (cases "r' = r")
    case True
    have e: "s_reqs ?s r = Some (q\<lparr>rq_spec := replicate (nat (min k (s_engine_k s))) (- 1)\<rparr>)" by simp
    have "override_k ?s r = Some k" using ov k by simp
    then have "overridden ?s r = Some (q\<lparr>rq_spec := replicate (nat (min k (s_engine_k s))) (- 1)\<rparr>)"
      by (simp add: overridden_def e cong: if_cong)
    then show ?thesis using o True by simp
  next
    case False
    then have e: "s_reqs ?s r' = s_reqs s r'" and n: "s_engine_k ?s = s_engine_k s" by simp_all
    show ?thesis unfolding o by (simp only: overridden_def e n ov)
  qed
qed

lemma probe_override_ok:
  assumes "0 \<le> s_engine_k s" and "\<forall>d. s_default_k s = Some d \<longrightarrow> 0 \<le> d"
  shows "\<exists>h. probe_override_loop s rs =
             (s\<lparr>s_reqs := (\<lambda>r. if r \<in> set rs then overridden s r else s_reqs s r), s_hist := h\<rparr>, Inr ()) \<and>
             spec_only (s_engine_k s) (s_reqs s) (\<lambda>r. if r \<in> set rs then overridden s r else s_reqs s r)"
  using assms
proof (induction rs arbitrary: s)
  case Nil
  show ?case by (rule exI [of _ "s_hist s"]) simp
next
  case (Cons r rs)
  obtain h where st: "probe_override_loop s (r # rs) =
      probe_override_loop (s\<lparr>s_reqs := (s_reqs s)(r := overridden s r), s_hist := h\<rparr>) rs"
    and so: "spec_only (s_engine_k s) (s_reqs s) ((s_reqs s)(r := overridden s r))"
    using overridden_step [OF Cons.prems] by blast
  let ?s = "s\<lparr>s_reqs := (s_reqs s)(r := overridden s r), s_hist := h\<rparr>"
  have fin: "(\<lambda>r'. if r' \<in> set rs then overridden ?s r' else s_reqs ?s r') =
             (\<lambda>r'. if r' \<in> set (r # rs) then overridden s r' else s_reqs s r')"
    by (rule ext) (simp add: overridden_again)
  have pr: "0 \<le> s_engine_k ?s" "\<forall>d. s_default_k ?s = Some d \<longrightarrow> 0 \<le> d" using Cons.prems by simp_all
  obtain h' where
    "probe_override_loop ?s rs = (?s\<lparr>s_reqs := (\<lambda>r'. if r' \<in> set rs then overridden ?s r' else s_reqs ?s r'), s_hist := h'\<rparr>, Inr ())"
    and so': "spec_only (s_engine_k ?s) (s_reqs ?s) (\<lambda>r'. if r' \<in> set rs then overridden ?s r' else s_reqs ?s r')"
    using Cons.IH [OF pr] by blast
  then have "probe_override_loop s (r # rs) =
      (s\<lparr>s_reqs := (\<lambda>r'. if r' \<in> set (r # rs) then overridden s r' else s_reqs s r'), s_hist := h'\<rparr>, Inr ())"
    unfolding fin st by simp
  moreover have "spec_only (s_engine_k s) (s_reqs s) (\<lambda>r'. if r' \<in> set (r # rs) then overridden s r' else s_reqs s r')"
    using so so' unfolding fin by (auto intro: spec_only_trans)
  ultimately show ?case by blast
qed

definition sched_ok :: "sched \<Rightarrow> bool" where
  "sched_ok s \<longleftrightarrow> sched_inv s \<and> (\<forall>d. s_default_k s = Some d \<longrightarrow> 0 \<le> d \<and> d \<le> s_engine_k s)"

text \<open>Which requests an override reaches: scheduled decode rows that were given placeholders.\<close>

definition sized_row :: "sched \<Rightarrow> sched_out \<Rightarrow> rid \<Rightarrow> request \<Rightarrow> bool" where
  "sized_row s so r q \<longleftrightarrow> r \<in> set (so_scheduled so) \<and> s_reqs s r = Some q \<and> \<not> rq_finished q \<and> \<not> rq_prefill q \<and> rq_spec q \<noteq> []"

lemma overridden_row:
  assumes "s_reqs s r = Some q" "\<not> rq_finished q" "\<not> rq_prefill q" "rq_spec q \<noteq> [] \<or> s_engine_k s \<le> 0"
    and "override_k s r = Some k"
  shows "overridden s r = Some (q\<lparr>rq_spec := replicate (nat (min k (s_engine_k s))) (- 1)\<rparr>)"
proof (cases "rq_spec q = []")
  case True
  then have "nat (min k (s_engine_k s)) = 0" using assms(4) by simp
  moreover have "q = q\<lparr>rq_spec := []\<rparr>" using True by (metis request.surjective request.update_convs(3))
  ultimately show ?thesis using assms(1) True by (simp add: overridden_def)
next
  case False
  then show ?thesis using assms by (simp add: overridden_def)
qed

context length_assigner
begin

lemma probe_size_ok:
  assumes ok: "sched_ok s" and res: "probe_size_placeholders assign s so = (s', r0)"
  shows "r0 = Inr () \<and> sched_ok s' \<and> s_cfg s' = s_cfg s \<and> s_failed s' = s_failed s \<and>
         spec_only (s_engine_k s) (s_reqs s) (s_reqs s') \<and>
         (\<forall>r q k. sized_row s so r q \<longrightarrow> override_k s r = Some k \<longrightarrow>
            s_reqs s' r = Some (q\<lparr>rq_spec := replicate (nat (min k (s_engine_k s))) (- 1)\<rparr>))"
proof -
  let ?e = "s_engine_k s"
  obtain s1 where call: "probe_size_placeholders assign s so = probe_override_loop s1 (so_scheduled so)"
    and s1: "sched_inv s1" "spec_only ?e (s_reqs s) (s_reqs s1)" "s_engine_k s1 = ?e" "s_default_k s1 = s_default_k s"
      "s_cfg s1 = s_cfg s" "s_failed s1 = s_failed s"
    and rows: "\<And>r q. sized_row s so r q \<Longrightarrow> \<exists>sp. s_reqs s1 r = Some (q\<lparr>rq_spec := sp\<rparr>) \<and> (sp \<noteq> [] \<or> ?e \<le> 0)"
  proof (cases "ak_enabled (s_cfg s)")
    case True
    obtain s1 r1 where c: "ak_size_placeholders assign s so = (s1, r1)" by fastforce
    have inv: "sched_inv s" using ok by (simp add: sched_ok_def)
    note S = size_ok [OF inv c]
    have pos: "0 < ak_k_lo (s_cfg s)" "0 < ak_k_hi (s_cfg s)"
      using inv by (auto simp: sched_inv_def ak_inv_def ak_valid_def)
    have "\<exists>sp. s_reqs s1 r = Some (q\<lparr>rq_spec := sp\<rparr>) \<and> (sp \<noteq> [] \<or> ?e \<le> 0)" if row: "sized_row s so r q" for r q
    proof -
      have "r \<in> set (filter_candidates (sizing_items (s_reqs s) (so_scheduled so)))"
        using row sizing_items_all by (simp add: sized_row_def)
      then obtain q' h where q': "s_reqs s1 r = Some q'" "rq_spec q' = replicate (nat (min h ?e)) (- 1)" "0 < h"
        using S pos by blast
      obtain sp where "s_reqs s1 r = Some (q\<lparr>rq_spec := sp\<rparr>)"
        using S spec_only_Some row by (metis sized_row_def)
      with q' show ?thesis by auto
    qed
    then show ?thesis using that [of s1] S True by (simp add: probe_size_placeholders_def c)
  next
    case False
    have "\<exists>sp. s_reqs s r = Some (q\<lparr>rq_spec := sp\<rparr>) \<and> (sp \<noteq> [] \<or> ?e \<le> 0)" if "sized_row s so r q" for r q
      using that by (intro exI [of _ "rq_spec q"]) (simp add: sized_row_def)
    then show ?thesis using that [of s] ok False by (simp add: probe_size_placeholders_def sched_ok_def)
  qed
  have e0: "0 \<le> s_engine_k s1" and d0: "\<forall>d. s_default_k s1 = Some d \<longrightarrow> 0 \<le> d"
    using ok s1 by (auto simp: sched_ok_def sched_inv_def)
  let ?R = "\<lambda>r. if r \<in> set (so_scheduled so) then overridden s1 r else s_reqs s1 r"
  obtain h where loop: "probe_override_loop s1 (so_scheduled so) = (s1\<lparr>s_reqs := ?R, s_hist := h\<rparr>, Inr ())"
    and so2: "spec_only ?e (s_reqs s1) ?R"
    using probe_override_ok [OF e0 d0] s1(3) by metis
  have s': "s' = s1\<lparr>s_reqs := ?R, s_hist := h\<rparr>" and r0: "r0 = Inr ()"
    using res call loop by simp_all
  have "s_reqs s' r = Some (q\<lparr>rq_spec := replicate (nat (min k ?e)) (- 1)\<rparr>)"
    if row: "sized_row s so r q" and k: "override_k s r = Some k" for r q k
  proof -
    obtain sp where sp: "s_reqs s1 r = Some (q\<lparr>rq_spec := sp\<rparr>)" "sp \<noteq> [] \<or> ?e \<le> 0" using rows [OF row] by blast
    have k1: "override_k s1 r = Some k"
      using k row sp(1) s1(4) by (simp add: override_k_def sized_row_def cong: option.case_cong)
    have "overridden s1 r = Some (q\<lparr>rq_spec := sp\<rparr>\<lparr>rq_spec := replicate (nat (min k ?e)) (- 1)\<rparr>)"
      using overridden_row [OF sp(1) _ _ _ k1] row sp(2) s1(3) by (simp add: sized_row_def)
    then show ?thesis using row by (simp add: s' sized_row_def)
  qed
  moreover have "spec_only ?e (s_reqs s) (s_reqs s')"
    using spec_only_trans [OF s1(2) so2] by (simp add: s')
  ultimately show ?thesis
    using s1 ok r0 by (simp add: s' sched_ok_def sched_inv_def)
qed

lemma after_schedule_ok:
  assumes ok: "sched_ok s" and "\<not> s_failed s" and s': "s' = probe_after_schedule base assign s so"
  shows "sched_ok s' \<and> \<not> s_failed s' \<and> spec_only (s_engine_k s) (base (s_reqs s)) (s_reqs s') \<and>
         (\<forall>r q k. sized_row (s\<lparr>s_reqs := base (s_reqs s)\<rparr>) so r q \<longrightarrow>
            override_k (s\<lparr>s_reqs := base (s_reqs s)\<rparr>) r = Some k \<longrightarrow>
            s_reqs s' r = Some (q\<lparr>rq_spec := replicate (nat (min k (s_engine_k s))) (- 1)\<rparr>))"
proof -
  let ?s = "s\<lparr>s_reqs := base (s_reqs s)\<rparr>"
  have ok1: "sched_ok ?s" using ok by (simp add: sched_ok_def sched_inv_def)
  obtain s2 r2 where c: "probe_size_placeholders assign ?s so = (s2, r2)" by fastforce
  note P = probe_size_ok [OF ok1 c]
  have "probe_after_schedule base assign s so = s2"
    using P assms(2) by (simp add: probe_after_schedule_def ak_after_schedule_def c guarded_def Let_def)
  with P assms(2) s' show ?thesis by simp
qed

end

section \<open>Properties\<close>

lemma ak_off_valid [simp]: "ak_valid ak_off"
  by (simp add: ak_off_def ak_default_def ak_valid_def)

lemma ak_make_Inr: "ak_make c = Inr d \<Longrightarrow> d = c \<and> ak_valid c"
  by (auto simp: ak_make_def split: if_splits)

lemma ak_from_env_valid: "ak_from_env env = Inr c \<Longrightarrow> ak_valid c"
  by (auto simp: ak_from_env_def bind_r_Inr_iff dest!: ak_make_Inr)

lemma ak_boot_ok:
  "case ak_boot env async_on num_spec of (c, e) \<Rightarrow>
     ak_valid c \<and> (ak_enabled c \<longrightarrow> async_on \<and> e = num_spec \<and> 1 \<le> e \<and> ak_k_hi c \<le> e)"
proof (cases "ak_from_env env")
  case (Inl x)
  then show ?thesis by (simp add: ak_boot_def) (simp add: ak_off_def)
next
  case (Inr c)
  have v: "ak_valid c" by (rule ak_from_env_valid [OF Inr])
  then have "ak_valid (c\<lparr>ak_enabled := b\<rparr>)" for b by (simp add: ak_valid_def)
  moreover have "\<not> ak_enabled ak_off" by (simp add: ak_off_def)
  ultimately show ?thesis using v
    by (auto simp: ak_boot_def Inr Let_def split: sum.splits if_splits dest: ak_make_Inr)
qed

lemma sched_new_ok: "sched_ok (sched_new env async_on num_spec reqs running ns) \<and>
  \<not> s_failed (sched_new env async_on num_spec reqs running ns)"
proof -
  obtain c e where b: "ak_boot env async_on num_spec = (c, e)" by fastforce
  have "ak_valid c" using ak_boot_ok [where env = env and async_on = async_on and num_spec = num_spec] by (simp add: b)
  then show ?thesis
    by (simp add: sched_new_def b sched_ok_def sched_inv_def ak_new_inv) (simp add: ak_new_def)
qed

text \<open>
  Whatever the environment holds, the scheduler starts with a valid configuration; the policy is only enabled
  with async scheduling on and a drafting engine, and its high length is then at most what the engine drafts.
\<close>

lemma ak_boot_sound:
  "case ak_boot env async_on num_spec of (c, e) \<Rightarrow>
     ak_valid c \<and> (ak_enabled c \<longrightarrow> async_on \<and> e = num_spec \<and> 1 \<le> e \<and> ak_k_hi c \<le> e)"
  by (rule ak_boot_ok)

text \<open>
  Sizing can never take the scheduler down or be switched off by an exception: whatever the vLLM base class
  does to the requests, after a schedule step the invariant holds, the failure flag is still clear, requests have
  changed in nothing but their placeholder list, and a decode row with an override (its own, or the operator's
  default) gets exactly the override clamped to what the engine drafts.
\<close>

lemma after_schedule_keeps_running:
  assumes "sched_ok s" and "\<not> s_failed s" and "s' = probe_after_schedule base (lv_assign_lengths m) s so"
  shows "sched_ok s' \<and> \<not> s_failed s' \<and> spec_only (s_engine_k s) (base (s_reqs s)) (s_reqs s') \<and>
         (\<forall>r q k. sized_row (s\<lparr>s_reqs := base (s_reqs s)\<rparr>) so r q \<longrightarrow>
            override_k (s\<lparr>s_reqs := base (s_reqs s)\<rparr>) r = Some k \<longrightarrow>
            s_reqs s' r = Some (q\<lparr>rq_spec := replicate (nat (min k (s_engine_k s))) (- 1)\<rparr>))"
  using assms by (rule lv_assign.after_schedule_ok)

definition demo_request :: "int \<Rightarrow> request" where
  "demo_request k = \<lparr>rq_finished = False, rq_prefill = False, rq_spec = [-1, -1, -1, -1], rq_stale = 0,
     rq_drop_stale = False, rq_extra = Some [''spec_k'' \<mapsto> JInt k]\<rparr>"

lemma map_sum_id_Inr: "map_sum id f x = Inr y \<longleftrightarrow> (\<exists>n. x = Inr n \<and> f n = y)"
  by (cases x) auto

lemma ctl_default_k_bounds:
  assumes "ctl_default_k e v = Inr (Some d)" and "0 \<le> e"
  shows "0 \<le> d \<and> d \<le> e"
proof -
  have "\<exists>n. d = max 0 (min n e)"
    using assms(1) unfolding ctl_default_k_def
    by (cases v; cases "the v") (auto simp: map_sum_id_Inr)
  then show ?thesis using assms(2) by auto
qed

lemma run_stages_keeps:
  "(\<And>f l. f \<in> set fs \<Longrightarrow> P l \<Longrightarrow> P (fst (f l))) \<Longrightarrow> P l \<Longrightarrow> P (fst (run_stages fs l))"
proof (induction fs arbitrary: l)
  case (Cons f fs)
  obtain l' r where f: "f l = (l', r)" by fastforce
  then have "P l'" using Cons.prems(1) [of f l] Cons.prems(2) by simp
  then show ?case using Cons.IH [of l'] Cons.prems(1) by (cases r) (simp_all add: f)
qed simp

definition levers_ok :: "levers \<Rightarrow> bool" where
  "levers_ok l \<longleftrightarrow> sched_ok (l_sched l) \<and> lv_mode (l_lv l) \<in> set lv_modes"

lemma st_default_k_ok: "levers_ok l \<Longrightarrow> levers_ok (fst (st_default_k ctl l))"
proof -
  assume ok: "levers_ok l"
  then have e: "0 \<le> s_engine_k (l_sched l)" by (simp add: levers_ok_def sched_ok_def sched_inv_def)
  show ?thesis
  proof (cases "ctl ''default_k''")
    case (Some v)
    show ?thesis
    proof (cases "ctl_default_k (s_engine_k (l_sched l)) (Some v)")
      case (Inr dk)
      have "0 \<le> d \<and> d \<le> s_engine_k (l_sched l)" if "dk = Some d" for d
        using Inr that ctl_default_k_bounds [OF _ e] by blast
      then show ?thesis using ok by (simp add: st_default_k_def Some Inr levers_ok_def sched_ok_def sched_inv_def)
    qed (simp add: st_default_k_def Some ok)
  qed (simp add: st_default_k_def ok)
qed

lemma st_mode_ok: "levers_ok l \<Longrightarrow> levers_ok (fst (st_mode ctl l))"
  by (auto simp: st_mode_def levers_ok_def split: option.splits json.splits)

lemma st_end_drain_ok: "levers_ok l \<Longrightarrow> levers_ok (fst (st_end_drain ctl l))"
  by (auto simp: st_end_drain_def levers_ok_def split: option.splits sum.splits)

lemma st_coalesce_ok: "levers_ok l \<Longrightarrow> levers_ok (fst (st_coalesce ctl l))"
  by (auto simp: st_coalesce_def levers_ok_def split: option.splits sum.splits)

lemma lv_apply_prefill_sched [simp]: "l_sched (lv_apply_prefill l) = l_sched l" "l_lv (lv_apply_prefill l) = l_lv l"
  by (auto simp: lv_apply_prefill_def split: option.splits)

lemma lv_cfg_valid: "lv_cfg c e ctl = Inr d \<Longrightarrow> ak_valid d"
  by (auto simp: lv_cfg_def bind_r_Inr_iff dest!: ak_make_Inr)

lemma new_policy_ok: "sched_ok s \<Longrightarrow> ak_valid c \<Longrightarrow> sched_ok (s\<lparr>s_cfg := c, s_policy := ak_new c\<rparr>)"
  by (simp add: sched_ok_def sched_inv_def ak_new_inv) (simp add: ak_new_def)

lemma lv_finish_ok: "levers_ok l \<Longrightarrow> levers_ok (fst (lv_finish ctl l fresh))"
proof (cases "lv_cfg (s_cfg (l_sched l)) (s_engine_k (l_sched l)) ctl")
  case (Inr c)
  assume "levers_ok l"
  then have "levers_ok (l\<lparr>l_sched := (l_sched l)\<lparr>s_cfg := c, s_policy := ak_new c\<rparr>\<rparr>)"
    using lv_cfg_valid [OF Inr] by (simp add: levers_ok_def new_policy_ok [simplified])
  then show ?thesis using \<open>levers_ok l\<close> by (simp add: lv_finish_def Inr) (simp add: levers_ok_def)
qed (simp add: lv_finish_def)

lemma st_signal_cfg_ok: "levers_ok l \<Longrightarrow> levers_ok (fst (st_signal_cfg ctl l))"
proof -
  assume ok: "levers_ok l"
  have "levers_ok (l\<lparr>l_lv := (l_lv l)\<lparr>lv_signal := sg\<rparr>\<rparr>)" for sg using ok by (simp add: levers_ok_def)
  then show ?thesis
    using ok by (auto simp: st_signal_cfg_def intro: lv_finish_ok split: option.splits json.splits)
qed

text \<open>
  C35. Any control document, malformed ones included, leaves the levers scheduler in a state that meets the
  invariant: a known mode, a configuration that passes validation, a policy built for it, and an operator default
  the engine can draft.
\<close>

theorem lv_reload_keeps_invariant:
  assumes "levers_ok l"
  shows "levers_ok (lv_reload ctl l)"
  unfolding lv_reload_def lv_apply_def using assms
  by (intro run_stages_keeps [where P = levers_ok])
    (auto simp: st_ints_def intro: st_default_k_ok st_mode_ok st_end_drain_ok st_coalesce_ok st_signal_cfg_ok)

definition demo_levers :: levers where
  "demo_levers = \<lparr>l_sched = sched_new Map.empty False 0 Map.empty [] 1,
     l_lv = \<lparr>lv_signal = ''pos'', lv_mode = ''per-request'', lv_end_drain = False, lv_coalesce_ms = 0\<rparr>, l_ps = None\<rparr>"

lemma demo_levers_ok: "levers_ok demo_levers"
  using sched_new_ok by (simp add: demo_levers_def levers_ok_def lv_modes_def)

lemma lv_reload_keeps_invariant_witness:
  "levers_ok (lv_reload [''mode'' \<mapsto> JStr ''batch-max'', ''signal'' \<mapsto> JStr ''bogus''] demo_levers)"
  by (rule lv_reload_keeps_invariant [OF demo_levers_ok])

text \<open>
  A rejected document is not ignored, as the log line says: when only the signal of a control document is bad, the
  exception comes after the mode it names took effect, and the scheduler keeps running with that mode.
\<close>

lemma lv_reload_applies_half:
  assumes "ctl ''signal'' = Some (JStr sg)" and "sg \<notin> {''pos'', ''cond''}"
    and "ctl ''mode'' = Some (JStr m)" and "m \<in> set lv_modes"
    and "\<forall>key\<in>{''k_lo'', ''k_hi'', ''default_k'', ''end_drain'', ''coalesce_ms''}. ctl key = None"
  shows "snd (lv_apply ctl l) = Inl ValueError \<and> lv_mode (l_lv (lv_reload ctl l)) = m"
  using assms by (simp add: lv_reload_def lv_apply_def st_ints_def st_default_k_def st_mode_def st_end_drain_def
      st_coalesce_def st_signal_cfg_def)

end
