(* ===== verification/Lookup_Sched.thy ===== *)
theory Lookup_Sched
  imports Lookup_Plan_Props Adaptive_Sched
begin

text \<open>
  \<open>LookupScheduler\<close> of \<open>src/overlay/glm_lookup_draft.py\<close>: the planner of the lookup drafts put on top of the levers
  scheduler. What vLLM keeps of a request beyond the record \<open>request\<close>, its tokens and whether its output is
  structured, is an argument, as is what the base class does to the request table and which requests it frees. An
  exception of a hook sets the failure flag and the scheduler goes on as \<open>LeversScheduler\<close>.
\<close>

section \<open>State\<close>

record payload =
  pay_seq :: nat
  pay_skip :: bool
  pay_periodic :: bool
  pay_max_delta :: int
  pay_rows :: "(string \<times> row) list"

text \<open>The two attributes the scheduler sets on the output of a step.\<close>

record lk_out = sched_out +
  lo_seq :: "nat option"
  lo_payload :: "payload option"

record lk_sched =
  ks_lev :: levers
  ks_failed :: bool
  ks_seq :: nat
  ks_last :: "rat option"
  ks_exclude :: "rid set"
  ks_cfg :: lk_config
  ks_on_ok :: bool
  ks_np :: bool
  ks_engine :: "nat \<times> int list"
  ks_planner :: "planner option"

definition ks_sched :: "lk_sched \<Rightarrow> sched" where
  "ks_sched k = l_sched (ks_lev k)"

definition put_sched :: "sched \<Rightarrow> lk_sched \<Rightarrow> lk_sched" where
  "put_sched s k = k\<lparr>ks_lev := (ks_lev k)\<lparr>l_sched := s\<rparr>\<rparr>"

definition put_reqs :: "requests \<Rightarrow> lk_sched \<Rightarrow> lk_sched" where
  "put_reqs reqs k = put_sched ((ks_sched k)\<lparr>s_reqs := reqs\<rparr>) k"

definition plan_payload :: "step_plan \<Rightarrow> lk_config \<Rightarrow> payload" where
  "plan_payload plan cfg =
     \<lparr>pay_seq = sp_seq plan, pay_skip = sp_skip plan, pay_periodic = lk_periodic cfg, pay_max_delta = lk_max_delta cfg,
      pay_rows = sp_rows plan\<rparr>"

section \<open>Boot and the control file\<close>

text \<open>\<open>_lk_apply\<close>. A value of the key that is no string is no mode either.\<close>

definition lk_apply :: "jobj \<Rightarrow> lk_sched \<Rightarrow> (lk_sched, unit) raising" where
  "lk_apply ctl k =
     (let asked = (case ctl ''lookup'' of None \<Rightarrow> Some (lk_mode (ks_cfg k)) | Some (JStr m) \<Rightarrow> Some m | Some _ \<Rightarrow> None)
      in case asked of
           None \<Rightarrow> (k, Inr ())
         | Some m \<Rightarrow>
             if m \<notin> set [''off'', ''shadow'', ''on''] then (k, Inr ())
             else
               let mode = (if m = ''on'' \<and> \<not> ks_on_ok k then ''shadow'' else m)
               in case opt_r j_int (ctl ''lookup_skip'') (if lk_skip (ks_cfg k) then 1 else 0) of
                    Inl x \<Rightarrow> (k, Inl x)
                  | Inr n \<Rightarrow>
                      (case lk_make ((ks_cfg k)\<lparr>lk_mode := mode, lk_skip := (n \<noteq> 0)\<rparr>) of
                         Inl x \<Rightarrow> (k, Inl x)
                       | Inr c \<Rightarrow>
                           let k1 = k\<lparr>ks_cfg := c\<rparr>
                           in (case (case ks_planner k1 of
                                       Some l \<Rightarrow> Inr (Some l)
                                     | None \<Rightarrow> if mode = ''off'' then Inr None
                                               else map_sum id Some (planner_new (ks_np k1) c (fst (ks_engine k1)) (snd (ks_engine k1)))) of
                                 Inl x \<Rightarrow> (k1, Inl x)
                               | Inr None \<Rightarrow> (k1, Inr ())
                               | Inr (Some l) \<Rightarrow>
                                   (k1\<lparr>ks_planner := (if mode = ''off'' then None else Some (l\<lparr>lp_cfg := c\<rparr>))\<rparr>, Inr ()))))"

text \<open>\<open>_lv_apply\<close> of the subclass: the levers first, the lookup keys only when nothing raised.\<close>

definition lk_lv_apply :: "jobj \<Rightarrow> lk_sched \<Rightarrow> (lk_sched, unit) raising" where
  "lk_lv_apply ctl k =
     (case lv_apply ctl (ks_lev k) of
        (lev, Inl x) \<Rightarrow> (k\<lparr>ks_lev := lev\<rparr>, Inl x)
      | (lev, Inr _) \<Rightarrow>
          let k1 = k\<lparr>ks_lev := lev\<rparr>
          in if ctl ''lookup'' \<noteq> None \<or> ctl ''lookup_skip'' \<noteq> None then lk_apply ctl k1 else (k1, Inr ()))"

text \<open>
  \<open>__init__\<close> after the levers scheduler is up: \<open>greedy\<close> is whether drafts are sampled greedily, \<open>pending\<close> the control
  document that \<open>LeversScheduler.__init__\<close> applied when it had lookup keys.
\<close>

definition lk_boot :: "env \<Rightarrow> bool \<Rightarrow> bool \<Rightarrow> int \<Rightarrow> int option list \<Rightarrow> jobj option \<Rightarrow> levers \<Rightarrow> (lk_sched, unit) raising result" where
  "lk_boot env greedy np num_spec table pending lev =
     bind_r (lk_from_env env) (\<lambda>c0.
     bind_r (if lk_mode c0 = ''on'' \<and> \<not> greedy then lk_make (c0\<lparr>lk_mode := ''shadow''\<rparr>) else Inr c0) (\<lambda>c.
       let e = (if s_engine_k (l_sched lev) \<noteq> 0 then s_engine_k (l_sched lev) else num_spec);
           fams = families_from_table table e
       in bind_r (if lk_mode c \<noteq> ''off'' \<and> 0 < e then map_sum id Some (planner_new np c (nat (max e 1)) fams) else Inr None) (\<lambda>pl.
            let k = \<lparr>ks_lev = lev, ks_failed = False, ks_seq = 0, ks_last = None, ks_exclude = {}, ks_cfg = c,
                     ks_on_ok = (lk_mode c = ''on''), ks_np = np, ks_engine = (nat (max e 1), fams), ks_planner = pl\<rparr>
            in Inr (case pending of
                      None \<Rightarrow> (k, Inr ())
                    | Some ctl \<Rightarrow>
                        if ctl ''lookup'' = None \<and> ctl ''lookup_skip'' = None then (k, Inr ()) else lk_apply ctl k))))"

section \<open>Planning a step\<close>

fun lk_entries :: "requests \<Rightarrow> (rid \<Rightarrow> token list) \<Rightarrow> (rid \<Rightarrow> bool) \<Rightarrow> rid list \<Rightarrow> plan_entry list" where
  "lk_entries reqs tokens structured [] = []"
| "lk_entries reqs tokens structured (r # rs) =
     (case reqs r of
        None \<Rightarrow> lk_entries reqs tokens structured rs
      | Some q \<Rightarrow>
          if rq_finished q \<or> rq_prefill q \<or> rq_spec q = [] then lk_entries reqs tokens structured rs
          else \<lparr>pe_rid = r, pe_tokens = tokens r, pe_eligible = (\<not> structured r), pe_k_policy = int (length (rq_spec q)),
                pe_fixed_k = (request_override q \<noteq> None)\<rparr> # lk_entries reqs tokens structured rs)"

definition lk_plan_step ::
    "(rid \<Rightarrow> token list) \<Rightarrow> (rid \<Rightarrow> bool) \<Rightarrow> lk_sched \<Rightarrow> lk_out \<Rightarrow> (lk_sched \<times> lk_out, unit) raising" where
  "lk_plan_step tokens structured k so =
     (case ks_planner k of
        None \<Rightarrow> ((k, so), Inl AttributeError)
      | Some l \<Rightarrow>
          let entries = lk_entries (s_reqs (ks_sched k)) tokens structured (so_scheduled so)
          in if entries = [] then ((k, so), Inr ())
             else case lp_plan l (ks_seq k) entries (int (length (so_scheduled so))) of
                    Inl x \<Rightarrow> ((k, so), Inl x)
                  | Inr (l1, plan) \<Rightarrow>
                      let k1 = k\<lparr>ks_planner := Some l1\<rparr>; e = s_engine_k (ks_sched k)
                      in if lk_mode (ks_cfg k) \<noteq> ''on'' \<or> sp_rows plan = [] then ((k1, so), Inr ())
                         else case set_lengths e (s_reqs (ks_sched k)) (map (\<lambda>(r, n). (r, min n e)) (sp_k_override plan)) of
                                (reqs, Inl x) \<Rightarrow> ((put_reqs reqs k1, so), Inl x)
                              | (reqs, Inr _) \<Rightarrow>
                                  ((put_reqs reqs k1, so\<lparr>lo_payload := Some (plan_payload plan (ks_cfg k))\<rparr>), Inr ()))"

text \<open>\<open>_update_after_schedule\<close>; the levers scheduler's own part comes first.\<close>

definition lk_super_schedule :: "(requests \<Rightarrow> requests) \<Rightarrow> lk_sched \<Rightarrow> lk_out \<Rightarrow> sched" where
  "lk_super_schedule base k so =
     probe_after_schedule base (lv_assign_lengths (lv_mode (l_lv (ks_lev k)))) (ks_sched k) (sched_out.truncate so)"

definition lk_after_schedule ::
    "(requests \<Rightarrow> requests) \<Rightarrow> (rid \<Rightarrow> token list) \<Rightarrow> (rid \<Rightarrow> bool) \<Rightarrow> lk_sched \<Rightarrow> lk_out \<Rightarrow> lk_sched \<times> lk_out" where
  "lk_after_schedule base tokens structured k so =
     (let k1 = (put_sched (lk_super_schedule base k so) k)\<lparr>ks_seq := ks_seq k + 1\<rparr>;
          so1 = so\<lparr>lo_seq := Some (ks_seq k + 1)\<rparr>
      in if ks_planner k1 = None \<or> ks_failed k1 then (k1, so1)
         else case lk_plan_step tokens structured k1 so1 of
                ((k2, so2), Inl x) \<Rightarrow> (k2\<lparr>ks_failed := True\<rparr>, so2)
              | ((k2, so2), Inr u) \<Rightarrow> (k2, so2))"

section \<open>Attribution\<close>

type_synonym step_info = "rid \<times> int \<times> int \<times> lsource"

fun lk_classify_loop ::
    "runner_out \<Rightarrow> (rid \<Rightarrow> token list) \<Rightarrow> nat \<Rightarrow> lk_sched \<Rightarrow> (rid \<times> int list) list \<Rightarrow> (lk_sched, step_info list) raising" where
  "lk_classify_loop mo tokens seq k [] = (k, Inr [])"
| "lk_classify_loop mo tokens seq k ((r, spec) # rest) =
     (case (s_reqs (ks_sched k) r, mo_index mo r) of
        (Some q, Some i) \<Rightarrow>
          if rq_finished q \<or> 0 < rq_stale q then lk_classify_loop mo tokens seq k rest
          else (case (if mo_sampled mo = [] then Inr [] else py_nth (mo_sampled mo) (int i)) of
                  Inl x \<Rightarrow> (k, Inl x)
                | Inr gen \<Rightarrow>
                    if gen = [] then lk_classify_loop mo tokens seq k rest
                    else case ks_planner k of
                           None \<Rightarrow> (k, Inl AttributeError)
                         | Some l \<Rightarrow>
                             (case lp_classify l seq r (length (tokens r)) of (l1, src) \<Rightarrow>
                                let k1 = k\<lparr>ks_planner := Some l1,
                                           ks_exclude := (if src = Src_lookup \<or> src = Src_junk then insert r (ks_exclude k) else ks_exclude k)\<rparr>
                                in case lk_classify_loop mo tokens seq k1 rest of
                                     (k2, Inl x) \<Rightarrow> (k2, Inl x)
                                   | (k2, Inr info) \<Rightarrow> (k2, Inr ((r, int (length spec), max (int (length gen) - 1) 0, src) # info))))
      | _ \<Rightarrow> lk_classify_loop mo tokens seq k rest)"

definition lk_classify :: "(rid \<Rightarrow> token list) \<Rightarrow> lk_sched \<Rightarrow> lk_out \<Rightarrow> runner_out \<Rightarrow> (lk_sched, step_info list) raising" where
  "lk_classify tokens k so mo =
     (case lo_seq so of
        None \<Rightarrow> (k, Inr [])
      | Some seq \<Rightarrow> if so_spec so = [] then (k, Inr []) else lk_classify_loop mo tokens seq k (so_spec so))"

text \<open>What \<open>_ak_observe\<close> of the subclass shows the adaptive policy: the steps that no lookup draft filled.\<close>

definition seen_by_policy :: "rid set \<Rightarrow> sched_out \<Rightarrow> sched_out" where
  "seen_by_policy ex so = (if ex = {} then so else so\<lparr>so_spec := filter (\<lambda>x. fst x \<notin> ex) (so_spec so)\<rparr>)"

fun lk_observe_loop ::
    "nat \<Rightarrow> (rid \<Rightarrow> bool) \<Rightarrow> (rid \<Rightarrow> token list) \<Rightarrow> planner \<Rightarrow> step_info list \<Rightarrow> (planner, unit) raising" where
  "lk_observe_loop seq finished tokens l [] = (l, Inr ())"
| "lk_observe_loop seq finished tokens l ((r, n, acc, src) # rest) =
     (case (if finished r then lp_finish l r else lp_observe l seq r n acc (tokens r)) of
        Inl x \<Rightarrow> (l, Inl x)
      | Inr l1 \<Rightarrow> lk_observe_loop seq finished tokens l1 rest)"

definition lk_observe ::
    "rat \<Rightarrow> (rid \<Rightarrow> bool) \<Rightarrow> (rid \<Rightarrow> token list) \<Rightarrow> lk_sched \<Rightarrow> lk_out \<Rightarrow> step_info list \<Rightarrow> (lk_sched, unit) raising" where
  "lk_observe now finished tokens k so info =
     (case (ks_planner k, lo_seq so) of
        (Some l, Some seq) \<Rightarrow>
          let drafted = (case lo_payload so of None \<Rightarrow> True | Some p \<Rightarrow> \<not> pay_skip p);
              l1 = (case ks_last k of
                      None \<Rightarrow> l
                    | Some t \<Rightarrow>
                        if lk_learn_cost (ks_cfg k) \<and> length (so_scheduled so) = 1
                        then l\<lparr>lp_cost := cm_observe (lp_cost l) (fst (snd (hd info))) drafted ((now - t) * 1000)\<rparr> else l)
          in (case lk_observe_loop seq finished tokens l1 info of
                (l2, res) \<Rightarrow> (k\<lparr>ks_last := Some now, ks_planner := Some l2\<rparr>, res))
      | _ \<Rightarrow> (k, Inl AttributeError))"

text \<open>\<open>_free_request\<close>; an exception of \<open>finish\<close> is swallowed.\<close>

definition lk_free_request :: "lk_sched \<Rightarrow> rid \<Rightarrow> lk_sched" where
  "lk_free_request k r =
     (let k1 = (case ks_planner k of
                  None \<Rightarrow> k
                | Some l \<Rightarrow> (case lp_finish l r of Inl x \<Rightarrow> k | Inr l1 \<Rightarrow> k\<lparr>ks_planner := Some l1\<rparr>))
      in put_sched (ak_free_request (\<lambda>reqs. reqs) (ks_sched k1) r) k1)"

text \<open>
  \<open>update_from_output\<close>: classify, the levers scheduler's update (which observes, changes the table and frees \<open>freed\<close>),
  then the statistics; \<open>finished\<close> and \<open>after\<close> are what the request objects say then.
\<close>

definition lk_classified :: "(rid \<Rightarrow> token list) \<Rightarrow> lk_sched \<Rightarrow> lk_out \<Rightarrow> runner_out \<Rightarrow> lk_sched \<times> step_info list" where
  "lk_classified tokens k so mo =
     (if ks_planner k = None \<or> ks_failed k then (k, [])
      else case lk_classify tokens k so mo of
             (k1, Inl x) \<Rightarrow> (k1\<lparr>ks_failed := True\<rparr>, [])
           | (k1, Inr info) \<Rightarrow> (k1, info))"

definition lk_super_update :: "(requests \<Rightarrow> requests) \<Rightarrow> lk_sched \<Rightarrow> lk_out \<Rightarrow> runner_out \<Rightarrow> sched" where
  "lk_super_update base k so mo =
     ak_update_from_output base (\<lambda>p r a n. fst (lv_observe (lv_signal (l_lv (ks_lev k))) p r a n)) (ks_sched k)
       (seen_by_policy (ks_exclude k) (sched_out.truncate so)) mo"

definition lk_update_from_output ::
    "(requests \<Rightarrow> requests) \<Rightarrow> rid list \<Rightarrow> rat \<Rightarrow> (rid \<Rightarrow> token list) \<Rightarrow> (rid \<Rightarrow> bool) \<Rightarrow> (rid \<Rightarrow> token list) \<Rightarrow>
      lk_sched \<Rightarrow> lk_out \<Rightarrow> runner_out \<Rightarrow> lk_sched" where
  "lk_update_from_output base freed now tokens finished after k so mo =
     (case lk_classified tokens k so mo of (k1, info) \<Rightarrow>
        let k2 = foldl lk_free_request (put_sched (lk_super_update base k1 so mo) k1) freed;
            k3 = k2\<lparr>ks_exclude := {}\<rparr>
        in if info = [] then k3
           else case lk_observe now finished after k3 so info of
                  (k4, Inl x) \<Rightarrow> k4\<lparr>ks_failed := True\<rparr>
                | (k4, Inr u) \<Rightarrow> k4)"

section \<open>Shadow mode is inert\<close>

lemma ks_sched_simps [simp]:
  "ks_sched (put_sched s k) = s"
  "ks_sched (k\<lparr>ks_seq := n\<rparr>) = ks_sched k"
  "ks_sched (k\<lparr>ks_planner := p\<rparr>) = ks_sched k"
  "ks_sched (k\<lparr>ks_failed := b\<rparr>) = ks_sched k"
  "ks_sched (k\<lparr>ks_exclude := ex\<rparr>) = ks_sched k"
  "ks_sched (k\<lparr>ks_last := t\<rparr>) = ks_sched k"
  by (simp_all add: ks_sched_def put_sched_def)

lemma put_sched_fields [simp]:
  "ks_planner (put_sched s k) = ks_planner k" "ks_failed (put_sched s k) = ks_failed k" "ks_cfg (put_sched s k) = ks_cfg k"
  "ks_seq (put_sched s k) = ks_seq k" "ks_exclude (put_sched s k) = ks_exclude k" "ks_last (put_sched s k) = ks_last k"
  by (simp_all add: put_sched_def)

text \<open>
  Lookup plans touch the scheduling only when they are on: without a planner, after a failure, and in shadow mode, a
  step leaves the levers scheduler exactly as it would be without them and attaches nothing to the step's output.
\<close>

lemma lookup_inert:
  assumes "ks_planner k = None \<or> ks_failed k \<or> lk_mode (ks_cfg k) \<noteq> ''on''"
    and "lk_after_schedule base tokens structured k so = (k', so')"
  shows "ks_sched k' = lk_super_schedule base k so \<and> lo_payload so' = lo_payload so \<and> lo_seq so' = Some (ks_seq k + 1)"
  using assms
  by (auto simp: lk_after_schedule_def lk_plan_step_def Let_def split: if_splits option.splits sum.splits prod.splits)

definition demo_lk :: "planner option \<Rightarrow> lk_sched" where
  "demo_lk pl =
     \<lparr>ks_lev = demo_levers, ks_failed = False, ks_seq = 4, ks_last = None, ks_exclude = {}, ks_cfg = lk_default, ks_on_ok = False,
      ks_np = False, ks_engine = (1, [1]), ks_planner = pl\<rparr>"

definition demo_out :: "rid list \<Rightarrow> (rid \<times> int list) list \<Rightarrow> lk_out" where
  "demo_out rs sp = \<lparr>so_scheduled = rs, so_spec = sp, lo_seq = None, lo_payload = None\<rparr>"

section \<open>The payload and the placeholders agree\<close>








definition demo_on :: lk_sched where
  "demo_on = (demo_lk (Some demo_planner))
     \<lparr>ks_cfg := lk_default\<lparr>lk_mode := ''on''\<rparr>,
      ks_lev := demo_levers\<lparr>l_sched := sched_new Map.empty False 7
        [''r'' \<mapsto> \<lparr>rq_finished = False, rq_prefill = False, rq_spec = [-1, -1, -1], rq_stale = 0, rq_drop_stale = False, rq_extra = None\<rparr>]
        [''r''] 1\<rparr>\<rparr>"

definition demo_planned :: "lk_sched \<times> lk_out" where
  "demo_planned = lk_after_schedule id (\<lambda>r. [5, 5, 5]) (\<lambda>r. False) demo_on (demo_out [''r''] [])"



section \<open>What the adaptive policy learns from\<close>

lemma lv_observe_other: "r' \<noteq> r \<Longrightarrow> p_state (fst (lv_observe sig p r a n)) r' = p_state p r'"
  by (auto simp: lv_observe_def ak_observe_def ak_get_def Let_def split: option.splits prod.splits)

lemma observe_loop_other:
  assumes "\<And>p x a n. x \<noteq> r \<Longrightarrow> p_state (obs p x a n) r = p_state p r" and "r \<notin> fst ` set sp"
  shows "p_state (fst (observe_loop s mo drafted obs p sp)) r = p_state p r"
  using assms(2)
proof (induction sp arbitrary: p)
  case (Cons x sp)
  obtain y spec where x: "x = (y, spec)" by (cases x)
  have "y \<noteq> r" "r \<notin> fst ` set sp" using Cons.prems by (auto simp: x)
  then show ?case
    by (auto simp: x assms(1) Cons.IH split: option.splits sum.splits)
qed simp

lemma super_update_other:
  assumes "r \<in> ks_exclude k"
  shows "p_state (s_policy (lk_super_update base k so mo)) r = p_state (s_policy (ks_sched k)) r"
proof -
  let ?so = "seen_by_policy (ks_exclude k) (sched_out.truncate so)"
  let ?obs = "\<lambda>p r a n. fst (lv_observe (lv_signal (l_lv (ks_lev k))) p r a n)"
  have "r \<notin> fst ` set (so_spec ?so)" using assms by (auto simp: seen_by_policy_def)
  then have "p_state (fst (observe_loop (ks_sched k) mo (ring_union (s_ring (ks_sched k))) ?obs (s_policy (ks_sched k)) (so_spec ?so))) r =
      p_state (s_policy (ks_sched k)) r"
    by (intro observe_loop_other) (simp_all add: lv_observe_other)
  then show ?thesis
    by (auto simp: lk_super_update_def ak_update_from_output_def ak_observe_step_def guarded_def Let_def split: prod.splits sum.splits)
qed

lemma free_other: "r \<notin> set freed \<Longrightarrow>
    p_state (s_policy (ks_sched (foldl lk_free_request k freed))) r = p_state (s_policy (ks_sched k)) r"
proof (induction freed arbitrary: k)
  case (Cons x freed)
  have "p_state (s_policy (ks_sched (lk_free_request k x))) r = p_state (s_policy (ks_sched k)) r"
    using Cons.prems by (auto simp: lk_free_request_def ak_free_request_def ak_evict_def Let_def split: option.splits sum.splits)
  then show ?case using Cons by simp
qed simp

text \<open>One scheduled draft: passed over, a failure, or a classified step.\<close>

definition classified_one :: "planner \<Rightarrow> rid \<Rightarrow> lsource \<Rightarrow> lk_sched \<Rightarrow> lk_sched" where
  "classified_one l1 r src k =
     k\<lparr>ks_planner := Some l1,
       ks_exclude := (if src = Src_lookup \<or> src = Src_junk then insert r (ks_exclude k) else ks_exclude k)\<rparr>"

lemma classify_step:
  obtains "lk_classify_loop mo tokens seq k ((r, spec) # rest) = lk_classify_loop mo tokens seq k rest"
  | e where "lk_classify_loop mo tokens seq k ((r, spec) # rest) = (k, Inl e)"
  | l1 src m n where "lk_classify_loop mo tokens seq k ((r, spec) # rest) =
      (case lk_classify_loop mo tokens seq (classified_one l1 r src k) rest of
         (k2, Inl x) \<Rightarrow> (k2, Inl x) | (k2, Inr info) \<Rightarrow> (k2, Inr ((r, m, n, src) # info)))"
proof (cases "s_reqs (ks_sched k) r")
  case None
  then show ?thesis using that(1) by simp
next
  case q: (Some q)
  show ?thesis
  proof (cases "mo_index mo r")
    case None
    then show ?thesis using that(1) q by simp
  next
    case i: (Some i)
    show ?thesis
    proof (cases "rq_finished q \<or> 0 < rq_stale q")
      case True
      then show ?thesis using that(1) q i by simp
    next
      case go: False
      show ?thesis
      proof (cases "if mo_sampled mo = [] then Inr [] else py_nth (mo_sampled mo) (int i)")
        case (Inl e)
        then show ?thesis using that(2) q i go by simp
      next
        case gen: (Inr gen)
        show ?thesis
        proof (cases "gen = []")
          case True
          then show ?thesis using that(1) q i go gen by simp
        next
          case ne: False
          show ?thesis
          proof (cases "ks_planner k")
            case None
            then show ?thesis using that(2) q i go gen ne by simp
          next
            case l: (Some l)
            obtain l1 src where c: "lp_classify l seq r (length (tokens r)) = (l1, src)" by fastforce
            show ?thesis
              by (rule that(3) [where ?l1.0 = l1 and src = src and m = "int (length spec)" and n = "int (length gen) - 1"])
                (use q i go gen ne l c in \<open>cases gen; simp add: classified_one_def\<close>)
          qed
        qed
      qed
    qed
  qed
qed

lemma classified_one_fields [simp]:
  "ks_sched (classified_one l1 r src k) = ks_sched k"
  "ks_exclude k \<subseteq> ks_exclude (classified_one l1 r src k)"
  "src = Src_lookup \<or> src = Src_junk \<Longrightarrow> r \<in> ks_exclude (classified_one l1 r src k)"
  by (auto simp: classified_one_def ks_sched_def)

lemma classify_loop_excludes:
  "lk_classify_loop mo tokens seq k sp = (k', res) \<Longrightarrow>
   ks_sched k' = ks_sched k \<and> ks_exclude k \<subseteq> ks_exclude k' \<and>
   (\<forall>info r n acc src. res = Inr info \<longrightarrow> (r, n, acc, src) \<in> set info \<longrightarrow> src = Src_lookup \<or> src = Src_junk \<longrightarrow> r \<in> ks_exclude k')"
proof (induction sp arbitrary: k k' res)
  case (Cons x rest)
  obtain r spec where x: "x = (r, spec)" by (cases x)
  show ?case
  proof (rule classify_step [of mo tokens seq k r spec rest])
    assume "lk_classify_loop mo tokens seq k ((r, spec) # rest) = lk_classify_loop mo tokens seq k rest"
    then show ?thesis using Cons x by metis
  next
    fix e assume "lk_classify_loop mo tokens seq k ((r, spec) # rest) = (k, Inl e)"
    then show ?thesis using Cons.prems x by auto
  next
    fix l1 src m n
    let ?k1 = "classified_one l1 r src k"
    assume step: "lk_classify_loop mo tokens seq k ((r, spec) # rest) =
      (case lk_classify_loop mo tokens seq ?k1 rest of
         (k2, Inl x) \<Rightarrow> (k2, Inl x) | (k2, Inr info) \<Rightarrow> (k2, Inr ((r, m, n, src) # info)))"
    obtain k2 res2 where rest: "lk_classify_loop mo tokens seq ?k1 rest = (k2, res2)" by fastforce
    note IH = Cons.IH [OF rest]
    have "k' = k2 \<and> (\<forall>info. res = Inr info \<longrightarrow> (\<exists>info2. res2 = Inr info2 \<and> info = (r, m, n, src) # info2))"
      using Cons.prems step rest x by (cases res2) auto
    then show ?thesis using IH classified_one_fields(2) [where k = k and ?l1.0 = l1 and r = r and src = src]
        classified_one_fields(3) [where k = k and ?l1.0 = l1 and r = r and src = src] by fastforce
  qed
qed simp

text \<open>
  C12. Steps that a lookup draft filled never feed the adaptive policy: for a request whose step was attributed to a lookup
  draft or to junk, the state the policy keeps of it is the same after the update (unless the request was freed).
\<close>

theorem lookup_steps_not_learned:
  assumes "lk_classified tokens k so mo = (k1, info)" and "(r, n, acc, src) \<in> set info"
    and "src = Src_lookup \<or> src = Src_junk" and "r \<notin> set freed"
  shows "p_state (s_policy (ks_sched (lk_update_from_output base freed now tokens finished after k so mo))) r =
    p_state (s_policy (ks_sched k)) r"
proof -
  have cl: "ks_sched k1 = ks_sched k \<and> r \<in> ks_exclude k1"
    using assms(1-3) by (auto simp: lk_classified_def lk_classify_def split: if_splits prod.splits sum.splits option.splits
        dest!: classify_loop_excludes)
  have ob: "ks_sched (fst (lk_observe now finished after k3 so info)) = ks_sched k3" for k3
    by (auto simp: lk_observe_def ks_sched_def Let_def split: option.splits prod.splits)
  let ?k2 = "foldl lk_free_request (put_sched (lk_super_update base k1 so mo) k1) freed"
  have "ks_sched (lk_update_from_output base freed now tokens finished after k so mo) = ks_sched ?k2"
    using assms(1) ob [of "?k2\<lparr>ks_exclude := {}\<rparr>"]
    by (auto simp: lk_update_from_output_def Let_def split: prod.splits sum.splits)
  then show ?thesis using free_other [OF assms(4)] super_update_other [of r k1 base so mo] cl by simp
qed

definition demo_result :: runner_out where
  "demo_result = \<lparr>mo_kv_failed = False, mo_sampled = [[5, 5]], mo_index = [''r'' \<mapsto> 0]\<rparr>"

definition demo_next :: lk_out where
  "demo_next = (demo_out [''r''] [(''r'', [-1, -1, -1])])\<lparr>lo_seq := Some 6\<rparr>"

lemma demo_classified: "snd (lk_classified (\<lambda>r. [5, 5, 5]) (fst demo_planned) demo_next demo_result) = [(''r'', 3, 1, Src_lookup)]"
  by code_simp

lemma lookup_steps_not_learned_witness:
  "p_state (s_policy (ks_sched (lk_update_from_output id [] 1 (\<lambda>r. [5, 5, 5]) (\<lambda>r. False) (\<lambda>r. [5, 5, 5, 5, 5])
       (fst demo_planned) demo_next demo_result))) ''r'' = p_state (s_policy (ks_sched (fst demo_planned))) ''r'' \<and>
   snd (lk_classified (\<lambda>r. [5, 5, 5]) (fst demo_planned) demo_next demo_result) = [(''r'', 3, 1, Src_lookup)]"
proof -
  obtain k1 info where c: "lk_classified (\<lambda>r. [5, 5, 5]) (fst demo_planned) demo_next demo_result = (k1, info)" by fastforce
  then have "info = [(''r'', 3, 1, Src_lookup)]" using demo_classified by simp
  then show ?thesis using lookup_steps_not_learned [OF c, of "''r''" 3 1 Src_lookup "[]"] demo_classified by simp
qed

end
