(* ===== verification/Lookup_Hooks.thy ===== *)
theory Lookup_Hooks
  imports Lookup_Sched Lookup_Query
begin

text \<open>
  The worker half of the lookup drafts, \<open>src/overlay/glm_lookup_hooks.py\<close>: the plan rows of a batch, the kernel that writes the looked-up
  ids with its reference, the wrapped \<open>propose\<close> with the suppressed draft forward, and the runner hooks that hand a plan to the
  \<open>propose\<close> of its own step. A worker keeps one row of committed tokens per slot; what vLLM's \<open>propose\<close> does to the draft tensor is a
  function of whether the draft forward runs.
\<close>

unbundle bit_operations_syntax

section \<open>Rows\<close>

type_synonym plan_row = "int \<times> int \<times> int"

definition plan_row_for :: "(string \<times> row) list \<Rightarrow> int \<Rightarrow> string \<Rightarrow> plan_row" where
  "plan_row_for rows n_steps r =
     (case map_of rows r of
        None \<Rightarrow> (0, 0, 0)
      | Some (mode, src, lhost, k) \<Rightarrow> (int src, int lhost, max 0 (min k n_steps)))"

definition plan_rows_for_batch :: "payload \<Rightarrow> string list \<Rightarrow> nat \<Rightarrow> int \<Rightarrow> plan_row list \<times> nat \<times> nat" where
  "plan_rows_for_batch plan req_ids num_reqs n_steps =
     (let reqs = map (\<lambda>b. req_ids ! b) [0..<num_reqs]
      in (map (plan_row_for (pay_rows plan) n_steps) reqs,
          length (filter (\<lambda>r. map_of (pay_rows plan) r \<noteq> None) reqs),
          length (filter (\<lambda>r. case map_of (pay_rows plan) r of None \<Rightarrow> False | Some (mode, _) \<Rightarrow> mode = Skip) reqs)))"

text \<open>
  The reference of one row, and the kernel with its lanes: a masked load is 0, a masked store writes nothing. The kernel reads the
  slot's whole row of tokens; \<open>L\<close> is how many of them are committed.
\<close>

definition lookup_row_reference ::
    "token list \<Rightarrow> int \<Rightarrow> plan_row \<Rightarrow> token list \<Rightarrow> bool \<Rightarrow> int \<Rightarrow> int \<Rightarrow> bool \<Rightarrow> token list \<times> nat" where
  "lookup_row_reference toks L pr row periodic max_delta flip fill =
     (case pr of (src, lhost, k) \<Rightarrow>
        if \<not> 0 < k then (row, 0)
        else
          let delta = L - lhost;
              ok = (0 \<le> delta \<and> delta \<le> max_delta \<and> 0 \<le> src \<and> src < lhost \<and> lhost \<le> L \<and>
                    list_all (\<lambda>i. toks ! nat (lhost + int i) = toks ! nat (src + int i)) [0..<nat delta]);
              n = min (nat k) (length row)
          in if ok then
               let period = max (lhost - src) 1; pos = (\<lambda>j. src + delta + (if periodic then int j mod period else int j))
               in (fold (\<lambda>j r. if pos j < L then r[j := toks ! nat (pos j) XOR flip] else r) [0..<n] row,
                   1 + length (filter (\<lambda>j. pos j < L) [0..<n]))
             else (if fill \<and> 0 < L then fold (\<lambda>j r. r[j := toks ! nat (L - 1)]) [0..<n] row else row, 0))"

definition lane_load :: "bool \<Rightarrow> token list \<Rightarrow> int \<Rightarrow> token" where
  "lane_load on toks i = (if on then toks ! nat i else 0)"

definition lookup_row_kernel ::
    "token list \<Rightarrow> int \<Rightarrow> plan_row \<Rightarrow> token list \<Rightarrow> bool \<Rightarrow> int \<Rightarrow> int \<Rightarrow> bool \<Rightarrow> token list \<times> nat" where
  "lookup_row_kernel toks L pr row periodic max_delta flip fill =
     (case pr of (src, lhost, k0) \<Rightarrow>
        let k = min k0 (int (length row)); delta = L - lhost;
            dblock = next_pow2 (nat (max max_delta 1)) (nat (max max_delta 1));
            kblock = next_pow2 (max (length row) 1) (max (length row) 1);
            ok0 = (0 < k \<and> 0 \<le> delta \<and> delta \<le> max_delta \<and> 0 \<le> src \<and> src < lhost \<and> lhost \<le> L);
            m = (\<lambda>i. int i < delta \<and> ok0);
            bad = length (filter (\<lambda>i. m i \<and> lane_load (m i) toks (lhost + int i) \<noteq> lane_load (m i) toks (src + int i)) [0..<dblock]);
            ok = (ok0 \<and> bad = 0); period = max (lhost - src) 1;
            pos = (\<lambda>j. src + delta + (if periodic then int j mod period else int j));
            valid = (\<lambda>j. ok \<and> int j < k \<and> pos j < L);
            row1 = fold (\<lambda>j r. if valid j then r[j := lane_load (valid j) toks (pos j) XOR flip] else r) [0..<kblock] row;
            do_fill = (fill \<and> 0 < k \<and> \<not> ok \<and> 0 < L);
            last = lane_load do_fill toks (max (L - 1) 0);
            row2 = fold (\<lambda>j r. if do_fill \<and> int j < k then r[j := last + int j * 0] else r) [0..<kblock] row1
        in (row2, if ok then 1 + length (filter valid [0..<kblock]) else 0))"

section \<open>Propose\<close>

record lh_batch =
  lb_req_ids :: "string list"
  lb_num_reqs :: nat
  lb_has_prefill :: bool
  lb_idx :: "nat list"
  lb_tokens :: "token list list"
  lb_total_len :: "int list"

record lh_flags =
  lf_corrupt :: bool
  lf_fill :: bool

text \<open>The kernel over the batch: program \<open>b\<close> touches row \<open>b\<close> of the draft tensor only.\<close>

definition lookup_launch ::
    "lh_batch \<Rightarrow> plan_row list \<Rightarrow> bool \<Rightarrow> int \<Rightarrow> int \<Rightarrow> bool \<Rightarrow> token list list \<Rightarrow> token list list \<times> nat list" where
  "lookup_launch batch rows periodic max_delta flip fill draft =
     (let out = map (\<lambda>b. let slot = lb_idx batch ! b
                in lookup_row_kernel (lb_tokens batch ! slot) (lb_total_len batch ! slot) (rows ! b) (draft ! b) periodic max_delta flip fill)
            [0..<lb_num_reqs batch]
      in (map fst out @ drop (lb_num_reqs batch) draft, map snd out))"

text \<open>
  The wrapped \<open>propose\<close>: \<open>orig True\<close> is vLLM's own with the draft forward, \<open>orig False\<close> with the forward suppressed. The result is the
  draft tensor.
\<close>

definition skips_forward :: "payload \<Rightarrow> lh_batch \<Rightarrow> nat \<Rightarrow> bool" where
  "skips_forward plan batch n_skip = (pay_skip plan \<and> n_skip = lb_num_reqs batch \<and> \<not> lb_has_prefill batch)"

definition lookup_propose ::
    "lh_flags \<Rightarrow> bool \<Rightarrow> (bool \<Rightarrow> token list list \<Rightarrow> token list list) \<Rightarrow> nat \<Rightarrow> bool \<Rightarrow> payload option \<Rightarrow> lh_batch \<Rightarrow> token list list \<Rightarrow>
      token list list" where
  "lookup_propose fl disabled orig n_steps dummy ctx batch draft =
     (case ctx of
        None \<Rightarrow> orig True draft
      | Some plan \<Rightarrow>
          if dummy \<or> disabled then orig True draft
          else case plan_rows_for_batch plan (lb_req_ids batch) (lb_num_reqs batch) (int n_steps) of
                 (rows, n_rows, n_skip) \<Rightarrow>
                   if n_rows = 0 then orig True draft
                   else let draft1 = orig (\<not> skips_forward plan batch n_skip) draft
                        in fst (lookup_launch batch rows (pay_periodic plan) (pay_max_delta plan) (if lf_corrupt fl then 1 else 0)
                             (lf_fill fl) draft1))"

section \<open>The runner\<close>

record lh_runner =
  lr_next :: "payload option"
  lr_disabled :: "bool option"

text \<open>\<open>execute_model\<close> remembers the plan of its step; \<open>sample_tokens\<close> consumes it and shows it to the \<open>propose\<close> it runs.\<close>

definition lh_execute :: "bool \<Rightarrow> payload option option \<Rightarrow> lh_runner \<Rightarrow> lh_runner" where
  "lh_execute dummy_run output run =
     run\<lparr>lr_next := (if dummy_run then None else case output of None \<Rightarrow> None | Some p \<Rightarrow> p)\<rparr>"

text \<open>What makes lookup rows unusable with a speculator; the first sample with a plan decides once for all.\<close>

record lh_setup =
  hs_dflash :: bool
  hs_draft_logits :: bool
  hs_adaptive_verification :: bool
  hs_verify_cut :: string
  hs_pipeline :: bool

definition lh_validate :: "lh_setup \<Rightarrow> bool" where
  "lh_validate s = (hs_dflash s \<and> \<not> hs_draft_logits s \<and> \<not> hs_adaptive_verification s \<and> strip (hs_verify_cut s) = [] \<and> \<not> hs_pipeline s)"

definition lh_sample :: "lh_setup \<Rightarrow> bool \<Rightarrow> lh_runner \<Rightarrow> lh_runner \<times> payload option" where
  "lh_sample s has_spec run =
     (let plan = lr_next run; run1 = run\<lparr>lr_next := None\<rparr>
      in if plan = None \<or> \<not> has_spec then (run1, None)
         else let disabled = (case lr_disabled run of None \<Rightarrow> \<not> lh_validate s | Some d \<Rightarrow> d);
                  run2 = run1\<lparr>lr_disabled := Some disabled\<rparr>
              in (run2, if disabled then None else plan))"

section \<open>Lemmas\<close>

lemma fold_lanes:
  "fold (\<lambda>j r. if P j then r[j := g j] else r) [0..<n] row = map (\<lambda>j. if j < n \<and> P j then g j else row ! j) [0..<length row]"
proof (induction n)
  case 0
  show ?case by (simp add: map_nth)
next
  case (Suc n)
  show ?case
    by (cases "n < length row") (auto simp: Suc nth_list_update less_Suc_eq intro!: nth_equalityI)
qed

lemma fold_lanes_all: "fold (\<lambda>j r. r[j := g j]) [0..<n] row = map (\<lambda>j. if j < n then g j else row ! j) [0..<length row]"
  using fold_lanes [of "\<lambda>_. True" g n row] by simp

text \<open>What both leave in a row, lane by lane.\<close>

definition row_ok :: "token list \<Rightarrow> int \<Rightarrow> plan_row \<Rightarrow> int \<Rightarrow> bool" where
  "row_ok toks L pr max_delta =
     (case pr of (src, lhost, k) \<Rightarrow>
        0 < k \<and> 0 \<le> L - lhost \<and> L - lhost \<le> max_delta \<and> 0 \<le> src \<and> src < lhost \<and> lhost \<le> L \<and>
        (\<forall>i<nat (L - lhost). toks ! nat (lhost + int i) = toks ! nat (src + int i)))"


definition row_pos :: "int \<Rightarrow> plan_row \<Rightarrow> bool \<Rightarrow> nat \<Rightarrow> int" where
  "row_pos L pr periodic j =
     (case pr of (src, lhost, k) \<Rightarrow> src + (L - lhost) + (if periodic then int j mod max (lhost - src) 1 else int j))"

definition row_writes :: "int \<Rightarrow> plan_row \<Rightarrow> nat \<Rightarrow> bool \<Rightarrow> nat \<Rightarrow> bool" where
  "row_writes L pr width periodic j \<longleftrightarrow> j < width \<and> int j < snd (snd pr) \<and> row_pos L pr periodic j < L"

definition row_result :: "token list \<Rightarrow> int \<Rightarrow> plan_row \<Rightarrow> token list \<Rightarrow> bool \<Rightarrow> int \<Rightarrow> int \<Rightarrow> bool \<Rightarrow> token list \<times> nat" where
  "row_result toks L pr row periodic max_delta flip fill =
     (if row_ok toks L pr max_delta
      then (map (\<lambda>j. if row_writes L pr (length row) periodic j then toks ! nat (row_pos L pr periodic j) XOR flip else row ! j) [0..<length row],
            1 + length (filter (row_writes L pr (length row) periodic) [0..<length row]))
      else (map (\<lambda>j. if fill \<and> 0 < L \<and> int j < snd (snd pr) then toks ! nat (L - 1) else row ! j) [0..<length row], 0))"

lemma filter_lanes: "(\<And>j. P j \<Longrightarrow> j < n) \<Longrightarrow> n \<le> m \<Longrightarrow> filter P [0..<m] = filter P [0..<n]"
proof (induction m)
  case (Suc m)
  show ?case
  proof (cases "n \<le> m")
    case True
    then show ?thesis using Suc by (auto dest: Suc.prems(1))
  next
    case False
    then show ?thesis using Suc.prems(2) by (simp add: le_Suc_eq)
  qed
qed simp

lemma reference_result: "lookup_row_reference toks L pr row periodic max_delta flip fill = row_result toks L pr row periodic max_delta flip fill"
proof (cases pr)
  case (fields src lhost k)
  let ?n = "min (nat k) (length row)" and ?pos = "row_pos L pr periodic"
  have n: "j < ?n \<longleftrightarrow> j < length row \<and> int j < k" for j by auto
  have writes: "row_writes L pr (length row) periodic j \<longleftrightarrow> j < ?n \<and> ?pos j < L" for j
    unfolding n by (simp add: row_writes_def fields)
  have count: "filter (row_writes L pr (length row) periodic) [0..<length row] = filter (\<lambda>j. ?pos j < L) [0..<?n]"
  proof -
    have "filter (row_writes L pr (length row) periodic) [0..<length row] = filter (row_writes L pr (length row) periodic) [0..<?n]"
      by (rule filter_lanes) (auto simp: writes)
    also have "\<dots> = filter (\<lambda>j. ?pos j < L) [0..<?n]" by (rule filter_cong) (simp_all add: writes)
    finally show ?thesis .
  qed
  have ok: "row_ok toks L pr max_delta \<longleftrightarrow> 0 < k \<and> (0 \<le> L - lhost \<and> L - lhost \<le> max_delta \<and> 0 \<le> src \<and> src < lhost \<and> lhost \<le> L \<and>
      list_all (\<lambda>i. toks ! nat (lhost + int i) = toks ! nat (src + int i)) [0..<nat (L - lhost)])"
    by (auto simp: row_ok_def fields list_all_iff)
  have posf: "(\<lambda>j. src + (L - lhost) + (if periodic then int j mod max (lhost - src) 1 else int j)) = ?pos"
    by (simp add: fun_eq_iff row_pos_def fields)
  show ?thesis
  proof (cases "0 < k")
    case False
    then show ?thesis by (auto simp: lookup_row_reference_def row_result_def ok [unfolded fields] fields intro!: nth_equalityI)
  next
    case True
    then have "lookup_row_reference toks L pr row periodic max_delta flip fill =
      (if row_ok toks L pr max_delta
       then (fold (\<lambda>j r. if ?pos j < L then r[j := toks ! nat (?pos j) XOR flip] else r) [0..<?n] row, 1 + length (filter (\<lambda>j. ?pos j < L) [0..<?n]))
       else (if fill \<and> 0 < L then fold (\<lambda>j r. r[j := toks ! nat (L - 1)]) [0..<?n] row else row, 0))"
      unfolding lookup_row_reference_def fields prod.case Let_def
      unfolding posf [unfolded fields, THEN fun_cong] ok [unfolded fields] by simp
    then show ?thesis unfolding fold_lanes fold_lanes_all writes [symmetric] row_result_def count
      by (auto simp: fields intro!: nth_equalityI)
  qed
qed

lemma kernel_result:
  assumes "row \<noteq> []"
  shows "lookup_row_kernel toks L pr row periodic max_delta flip fill = row_result toks L pr row periodic max_delta flip fill"
proof (cases pr)
  case (fields src lhost k0)
  let ?k = "min k0 (int (length row))" and ?d = "nat (max max_delta 1)" and ?w = "max (length row) 1"
  let ?db = "next_pow2 ?d ?d" and ?kb = "next_pow2 ?w ?w" and ?pos = "row_pos L pr periodic"
  define ok0 where "ok0 \<longleftrightarrow> 0 < ?k \<and> 0 \<le> L - lhost \<and> L - lhost \<le> max_delta \<and> 0 \<le> src \<and> src < lhost \<and> lhost \<le> L"
  define bad where "bad = length (filter (\<lambda>i. (int i < L - lhost \<and> ok0) \<and> lane_load (int i < L - lhost \<and> ok0) toks (lhost + int i) \<noteq>
    lane_load (int i < L - lhost \<and> ok0) toks (src + int i)) [0..<?db])"
  have bad: "bad = 0 \<longleftrightarrow> (\<forall>i<nat (L - lhost). toks ! nat (lhost + int i) = toks ! nat (src + int i))" if ok0
  proof -
    have "nat (L - lhost) \<le> ?d" using that by (auto simp: ok0_def)
    then have "nat (L - lhost) \<le> ?db" using next_pow2_ge [of ?d] by (rule le_trans)
    then show ?thesis using that by (auto simp: bad_def filter_empty_conv lane_load_def zless_nat_eq_int_zless)
  qed
  have kb: "length row \<le> ?kb" using next_pow2_ge [of ?w] by simp
  define ok where "ok \<longleftrightarrow> ok0 \<and> bad = 0"
  have len: "0 < length row" using assms by simp
  have row_ok: "ok \<longleftrightarrow> row_ok toks L pr max_delta"
    using bad len by (auto simp: ok_def ok0_def row_ok_def fields)
  have posf: "(\<lambda>j. src + (L - lhost) + (if periodic then int j mod max (lhost - src) 1 else int j)) = ?pos"
    by (simp add: fun_eq_iff row_pos_def fields)
  define valid where "valid = (\<lambda>j. ok \<and> int j < ?k \<and> ?pos j < L)"
  have lane: "(ok \<and> int j < ?k \<and> ?pos j < L) = valid j" for j by (simp add: valid_def)
  have valid: "valid j \<longleftrightarrow> ok \<and> row_writes L pr (length row) periodic j" for j
    by (auto simp: valid_def row_writes_def fields)
  define fills where "fills \<longleftrightarrow> fill \<and> 0 < ?k \<and> \<not> ok \<and> 0 < L"
  have "lookup_row_kernel toks L pr row periodic max_delta flip fill =
      (fold (\<lambda>j r. if fills \<and> int j < ?k then r[j := lane_load fills toks (max (L - 1) 0) + int j * 0] else r) [0..<?kb]
         (fold (\<lambda>j r. if valid j then r[j := lane_load (valid j) toks (?pos j) XOR flip] else r) [0..<?kb] row),
       if ok then 1 + length (filter valid [0..<?kb]) else 0)"
    unfolding lookup_row_kernel_def fields prod.case Let_def
    unfolding posf [unfolded fields, THEN fun_cong] ok0_def [symmetric] bad_def [symmetric] ok_def [symmetric]
    unfolding lane [unfolded fields] fills_def [symmetric] ..
  also have "\<dots> = row_result toks L pr row periodic max_delta flip fill"
  proof (cases ok)
    case True
    have "filter valid [0..<?kb] = filter valid [0..<length row]"
      by (rule filter_lanes [OF _ kb]) (simp add: valid row_writes_def)
    moreover have "valid = row_writes L pr (length row) periodic" using True valid by (simp add: fun_eq_iff)
    ultimately show ?thesis using True row_ok kb
      unfolding fold_lanes row_result_def fills_def
      by (auto simp: lane_load_def row_writes_def intro!: nth_equalityI)
  next
    case False
    then have v: "\<not> valid j" for j by (simp add: valid)
    show ?thesis using False row_ok kb len
      unfolding fold_lanes row_result_def fills_def
      by (auto simp: v lane_load_def fields intro!: nth_equalityI)
  qed
  finally show ?thesis .
qed


text \<open>The scheduler's own account of a valid row: \<open>replay_check\<close> and \<open>lookup_draft\<close>; a hole keeps the id that was there.\<close>

definition overlay_row :: "token option list \<Rightarrow> token list \<Rightarrow> token list" where
  "overlay_row draft row =
     map (\<lambda>j. if j < length draft then (case draft ! j of Some t \<Rightarrow> t | None \<Rightarrow> row ! j) else row ! j) [0..<length row]"

lemma draft_loop_lanes:
  assumes "0 \<le> src" "0 \<le> delta" "0 < period" "L \<le> int (length toks)"
  shows "draft_loop toks L src delta period periodic js =
    Inr (map (\<lambda>j. let pos = src + delta + (if periodic then int j mod period else int j) in if pos < L then Some (toks ! nat pos) else None) js)"
proof (induction js)
  case (Cons j js)
  have "0 \<le> src + delta + (if periodic then int j mod period else int j)"
    using assms(1-3) pos_mod_sign [of period "int j"] by auto
  then show ?case using Cons assms(3,4) by (auto simp: Let_def py_nth_in)
qed simp

lemma row_ok_replay:
  assumes "0 < k" "L \<le> int (length toks)"
  shows "row_ok toks L (src, lhost, k) max_delta \<longleftrightarrow> replay_check toks L src lhost max_delta"
  using assms by (auto simp: row_ok_def replay_check_def Let_def list_all_iff)

lemma row_result_replay:
  assumes "L \<le> int (length toks)"
  shows "fst (row_result toks L (src, lhost, k) row periodic max_delta 0 False) =
    (if 0 < k \<and> replay_check toks L src lhost max_delta
     then overlay_row (case lookup_draft toks L src lhost (nat k) periodic of Inl _ \<Rightarrow> [] | Inr d \<Rightarrow> d) row else row)"
proof (cases "0 < k \<and> replay_check toks L src lhost max_delta")
  case True
  note R = replay_checkD [OF conjunct2 [OF True]]
  have period: "max (lhost - src) 1 = lhost - src" using R(2) by simp
  have "lookup_draft toks L src lhost (nat k) periodic = Inr (map (\<lambda>j. let pos = row_pos L (src, lhost, k) periodic j in
      if pos < L then Some (toks ! nat pos) else None) [0..<nat k])"
    using R(1-3) draft_loop_lanes [OF R(1) _ _ assms, of "L - lhost" "lhost - src" periodic "[0..<nat k]"] period
    by (simp add: lookup_draft_def row_pos_def)
  then show ?thesis using True row_ok_replay [OF conjunct1 [OF True] assms, of src lhost max_delta]
    by (auto simp: row_result_def row_writes_def overlay_row_def Let_def zless_nat_eq_int_zless intro!: nth_equalityI)
next
  case False
  then show ?thesis using row_ok_replay [OF _ assms, of k src lhost max_delta]
    by (auto simp: row_result_def row_ok_def intro!: nth_equalityI)
qed

lemma length_filter_all: "length (filter P xs) = length xs \<longleftrightarrow> list_all P xs"
  using length_filter_le [of P] by (induction xs) (auto simp: not_less_eq_eq le_imp_less_Suc less_imp_neq)

section \<open>Properties\<close>

definition batch_ok :: "lh_batch \<Rightarrow> bool" where
  "batch_ok batch \<longleftrightarrow> list_all (\<lambda>b. lb_idx batch ! b < length (lb_tokens batch) \<and>
     lb_total_len batch ! (lb_idx batch ! b) \<le> int (length (lb_tokens batch ! (lb_idx batch ! b)))) [0..<lb_num_reqs batch]"

definition planned_row :: "payload \<Rightarrow> lh_batch \<Rightarrow> nat \<Rightarrow> token list \<Rightarrow> token list" where
  "planned_row plan batch b row =
     (case map_of (pay_rows plan) (lb_req_ids batch ! b) of
        None \<Rightarrow> row
      | Some (mode, src, lhost, k0) \<Rightarrow>
          let slot = lb_idx batch ! b; toks = lb_tokens batch ! slot; L = lb_total_len batch ! slot; k = min k0 (int (length row))
          in if 0 < k \<and> replay_check toks L (int src) (int lhost) (pay_max_delta plan)
             then overlay_row (case lookup_draft toks L (int src) (int lhost) (nat k) (pay_periodic plan) of Inl _ \<Rightarrow> [] | Inr d \<Rightarrow> d) row
             else row)"

lemma kernel_planned:
  assumes "batch_ok batch" "b < lb_num_reqs batch" "row \<noteq> []"
  shows "fst (lookup_row_kernel (lb_tokens batch ! (lb_idx batch ! b)) (lb_total_len batch ! (lb_idx batch ! b))
      (plan_row_for (pay_rows plan) (int (length row)) (lb_req_ids batch ! b)) row (pay_periodic plan) (pay_max_delta plan) 0 False) =
    planned_row plan batch b row"
proof -
  have L: "lb_total_len batch ! (lb_idx batch ! b) \<le> int (length (lb_tokens batch ! (lb_idx batch ! b)))"
    using assms(1,2) by (simp add: batch_ok_def list_all_iff)
  show ?thesis unfolding kernel_result [OF assms(3)]
    using row_result_replay [OF L]
    by (auto simp: plan_row_for_def planned_row_def Let_def max_def split: option.split)
qed

text \<open>
  C13. Lookup drafts on the worker: after \<open>propose\<close> every row of the batch holds what the scheduler's account of the plan says: the ids of
  \<open>lookup_draft\<close> over vLLM's draft where \<open>replay_check\<close> still holds for the tokens committed by then, vLLM's draft everywhere else;
  and the draft forward is left out exactly when every row of the batch is a skip row and none is a prefill.
\<close>

theorem worker_writes_plan:
  fixes orig :: "bool \<Rightarrow> token list list \<Rightarrow> token list list"
  assumes "batch_ok batch" and "0 < n_steps"
    and "\<And>fwd. lb_num_reqs batch \<le> length (orig fwd draft) \<and> list_all (\<lambda>row. length row = n_steps) (take (lb_num_reqs batch) (orig fwd draft))"
    and "fwd \<longleftrightarrow> \<not> (pay_skip plan \<and> 0 < lb_num_reqs batch \<and> \<not> lb_has_prefill batch \<and>
      list_all (\<lambda>b. \<exists>row. map_of (pay_rows plan) (lb_req_ids batch ! b) = Some (Skip, row)) [0..<lb_num_reqs batch])"
  shows "take (lb_num_reqs batch) (lookup_propose \<lparr>lf_corrupt = False, lf_fill = False\<rparr> False orig n_steps False (Some plan) batch draft) =
    map (\<lambda>b. planned_row plan batch b (orig fwd draft ! b)) [0..<lb_num_reqs batch]"
proof -
  let ?n = "lb_num_reqs batch" and ?reqs = "map (\<lambda>b. lb_req_ids batch ! b) [0..<lb_num_reqs batch]"
  let ?rows = "map (plan_row_for (pay_rows plan) (int n_steps)) ?reqs"
  let ?nr = "length (filter (\<lambda>r. map_of (pay_rows plan) r \<noteq> None) ?reqs)"
  let ?ns = "length (filter (\<lambda>r. case map_of (pay_rows plan) r of None \<Rightarrow> False | Some (mode, _) \<Rightarrow> mode = Skip) ?reqs)"
  have plan: "plan_rows_for_batch plan (lb_req_ids batch) ?n (int n_steps) = (?rows, ?nr, ?ns)"
    by (simp add: plan_rows_for_batch_def Let_def)
  show ?thesis
  proof (cases "?nr = 0")
    case True
    then have none: "map_of (pay_rows plan) (lb_req_ids batch ! b) = None" if "b < ?n" for b
      using that by (cases "map_of (pay_rows plan) (lb_req_ids batch ! b)") (auto simp: filter_empty_conv)
    then have fwd using assms(4) by (auto simp: list_all_iff)
    moreover have "planned_row plan batch b row = row" if "b < ?n" for b row using none [OF that] by (simp add: planned_row_def)
    moreover have "take ?n (orig True draft) = map (\<lambda>b. orig True draft ! b) [0..<?n]"
      using assms(3) [of True] by (intro nth_equalityI) simp_all
    ultimately show ?thesis using True plan by (simp add: lookup_propose_def)
  next
    case False
    have all: "?ns = ?n \<longleftrightarrow> list_all (\<lambda>b. \<exists>row. map_of (pay_rows plan) (lb_req_ids batch ! b) = Some (Skip, row)) [0..<?n]"
      using length_filter_all [of "\<lambda>r. case map_of (pay_rows plan) r of None \<Rightarrow> False | Some (mode, _) \<Rightarrow> mode = Skip" ?reqs]
      by (auto simp: list_all_iff split: option.splits prod.splits)
    have "0 < ?n" using False by (cases ?n) simp_all
    then have fwd: "(\<not> skips_forward plan batch ?ns) = fwd" using assms(4) all by (auto simp: skips_forward_def)
    let ?d = "orig fwd draft"
    have "lookup_propose \<lparr>lf_corrupt = False, lf_fill = False\<rparr> False orig n_steps False (Some plan) batch draft =
        fst (lookup_launch batch ?rows (pay_periodic plan) (pay_max_delta plan) 0 False ?d)"
      unfolding lookup_propose_def option.case plan prod.case Let_def fwd
      by (simp only: if_False False lh_flags.select_convs simp_thms)
    then have out: "take ?n (lookup_propose \<lparr>lf_corrupt = False, lf_fill = False\<rparr> False orig n_steps False (Some plan) batch draft) =
        map (\<lambda>b. fst (lookup_row_kernel (lb_tokens batch ! (lb_idx batch ! b)) (lb_total_len batch ! (lb_idx batch ! b)) (?rows ! b) (?d ! b)
          (pay_periodic plan) (pay_max_delta plan) 0 False)) [0..<?n]"
      by (simp add: lookup_launch_def Let_def o_def)
    have "fst (lookup_row_kernel (lb_tokens batch ! (lb_idx batch ! b)) (lb_total_len batch ! (lb_idx batch ! b)) (?rows ! b) (?d ! b)
          (pay_periodic plan) (pay_max_delta plan) 0 False) = planned_row plan batch b (?d ! b)" if b: "b < ?n" for b
    proof -
      have "length (?d ! b) = n_steps" using assms(3) [of fwd] b by (auto simp: list_all_length)
      then show ?thesis using kernel_planned [OF assms(1) b, of "?d ! b" plan] assms(2) b by auto
    qed
    then show ?thesis unfolding out by simp
  qed
qed

definition worker_batch_demo :: lh_batch where
  "worker_batch_demo = \<lparr>lb_req_ids = [''r'', ''s''], lb_num_reqs = 2, lb_has_prefill = False, lb_idx = [1, 0],
     lb_tokens = [[9, 9, 0, 0, 0, 0], [5, 6, 5, 6, 5, 0]], lb_total_len = [2, 5]\<rparr>"

definition worker_plan_demo :: payload where
  "worker_plan_demo = \<lparr>pay_seq = 4, pay_skip = True, pay_periodic = True, pay_max_delta = 64, pay_rows = [(''r'', Skip, 1, 3, 3)]\<rparr>"

text \<open>Two tokens were committed since the plan and continued the copy; the other request keeps vLLM's draft, which therefore ran.\<close>

theorem worker_writes_plan_witness:
  "take 2 (lookup_propose \<lparr>lf_corrupt = False, lf_fill = False\<rparr> False (\<lambda>_ d. d) 3 False (Some worker_plan_demo) worker_batch_demo
     [[1, 2, 3], [7, 7, 7]]) = [[6, 5, 6], [7, 7, 7]]"
proof -
  have ok: "batch_ok worker_batch_demo" by (simp add: batch_ok_def worker_batch_demo_def upt_rec)
  have rows: "planned_row worker_plan_demo worker_batch_demo 0 [1, 2, 3] = [6, 5, 6]"
    by (simp add: planned_row_def worker_plan_demo_def worker_batch_demo_def replay_check_def lookup_draft_def overlay_row_def py_nth_def
        Let_def upt_rec)
  have other: "planned_row worker_plan_demo worker_batch_demo 1 [7, 7, 7] = [7, 7, 7]"
    by (simp add: planned_row_def worker_plan_demo_def worker_batch_demo_def)
  show ?thesis
    using worker_writes_plan [OF ok, of 3 "\<lambda>_ d. d" "[[1, 2, 3], [7, 7, 7]]" True worker_plan_demo] rows other
    by (simp add: worker_batch_demo_def worker_plan_demo_def upt_rec)
qed

text \<open>The kernel and the reference of the check mode agree on every row of a batch, whatever the test switches.\<close>

lemma kernel_matches_reference:
  "row \<noteq> [] \<Longrightarrow> lookup_row_kernel toks L pr row periodic max_delta flip fill = lookup_row_reference toks L pr row periodic max_delta flip fill"
  by (simp add: kernel_result reference_result)

text \<open>A plan reaches the \<open>propose\<close> of its own step only, and only once.\<close>

lemma plan_reaches_own_step:
  assumes "lh_sample s has_spec (lh_execute dummy_run output run) = (run', ctx)"
  shows "(ctx = None \<or> \<not> dummy_run \<and> output = Some ctx) \<and> snd (lh_sample s' has_spec' run') = None"
  using assms by (auto simp: lh_sample_def lh_execute_def Let_def split: option.splits if_splits)

end
