(* ===== verification/Kv_Coordinator.thy ===== *)
theory Kv_Coordinator
  imports Prelude
begin

text \<open>
  The KV-cache coordinators (\<open>src/overlay/kv_cache_coordinator.py\<close>): the base class that fans every request
  operation out to the managers of the cache groups, the coordinators without prefix cache and with one group,
  and the hybrid coordinator with its fixed-point search for the longest cache hit. The managers and the block
  pool are vLLM code: their operations are arguments, on a manager state \<open>'m\<close> and a shared pool \<open>'p\<close>.
\<close>

type_synonym block = nat

section \<open>Specs, groups, eagle flags\<close>

text \<open>
  The class of a spec as the coordinator's \<open>isinstance\<close> and \<open>type(...) is\<close> tests see it: \<open>Sliding_sub\<close> is a
  proper subclass of the sliding-window spec (the kpool tail). A uniform spec carries the specs of its layers.
\<close>

datatype spec_class = Full_attention | Sliding_window | Sliding_sub | Mamba bool | Other_spec

record kv_spec =
  ks_class :: spec_class
  ks_block_size :: nat
  ks_participates :: bool
  ks_id :: nat
  ks_inner :: "spec_class list"

record kv_group =
  kg_spec :: kv_spec
  kg_eagle :: bool

definition inner_class :: "kv_spec \<Rightarrow> spec_class" where
  "inner_class s = (case ks_inner s of [] \<Rightarrow> ks_class s | c # _ \<Rightarrow> c)"

definition is_draft_swa :: "kv_spec \<Rightarrow> bool" where
  "is_draft_swa s = (inner_class s = Sliding_window)"

definition is_full :: "kv_spec \<Rightarrow> bool" where
  "is_full s = (ks_class s = Full_attention)"

fun is_mamba_class :: "spec_class \<Rightarrow> bool" where
  "is_mamba_class (Mamba _) = True"
| "is_mamba_class _ = False"

definition is_sparse :: "kv_spec \<Rightarrow> bool" where
  "is_sparse s = (ks_class s \<in> {Sliding_window, Sliding_sub} \<or> is_mamba_class (ks_class s))"

definition validate_retention :: "int option \<Rightarrow> nat \<Rightarrow> kv_group list \<Rightarrow> unit result" where
  "validate_retention interval sched_bs groups =
     (case interval of
        None \<Rightarrow> Inr ()
      | Some r \<Rightarrow>
          if \<not> list_ex (\<lambda>g. is_sparse (kg_spec g)) groups then Inl ValueError
          else if r < 0 \<or> r mod int sched_bs \<noteq> 0 then Inl ValueError
          else Inr ())"

definition ids_where :: "(kv_group \<Rightarrow> bool) \<Rightarrow> kv_group list \<Rightarrow> nat list" where
  "ids_where P groups = filter (\<lambda>i. P (groups ! i)) [0..<length groups]"

definition eagle_ids :: "bool \<Rightarrow> kv_group list \<Rightarrow> nat list" where
  "eagle_ids use_eagle groups =
     (let flagged = ids_where kg_eagle groups
      in if use_eagle \<and> flagged = [] then
           (let drafts = ids_where (\<lambda>g. is_draft_swa (kg_spec g)) groups
            in if drafts \<noteq> [] then drafts else [0..<length groups])
         else flagged)"

text \<open>The assertion of \<open>KVCacheCoordinator.__init__\<close> and the retention check at its end.\<close>

definition base_init :: "bool \<Rightarrow> kv_group list \<Rightarrow> nat \<Rightarrow> nat \<Rightarrow> int option \<Rightarrow> nat list result" where
  "base_init use_eagle groups sched_bs hash_bs retention =
     (if hash_bs = 0 \<or> 0 \<in> ks_block_size ` kg_spec ` set groups then Inl ZeroDivisionError
      else if sched_bs mod hash_bs \<noteq> 0 \<or> \<not> list_all (\<lambda>g. sched_bs mod ks_block_size (kg_spec g) = 0) groups
      then Inl AssertionError
      else bind_r (validate_retention retention sched_bs groups) (\<lambda>_. Inr (eagle_ids use_eagle groups)))"

section \<open>Operations of the base class\<close>

record ('m, 'p, 'r) manager_ops =
  op_is_cross :: "'m \<Rightarrow> bool"
  op_need :: "'m \<Rightarrow> 'p \<Rightarrow> 'r \<Rightarrow> nat \<Rightarrow> block list \<Rightarrow> nat \<Rightarrow> nat \<Rightarrow> nat \<Rightarrow> bool \<Rightarrow> nat"
  op_tracked :: "'m \<Rightarrow> 'r \<Rightarrow> bool"
  op_add_local :: "'r \<Rightarrow> block list \<Rightarrow> nat \<Rightarrow> nat \<Rightarrow> 'm \<Rightarrow> 'p \<Rightarrow> 'm \<times> 'p"
  op_alloc_external :: "'r \<Rightarrow> nat \<Rightarrow> nat \<Rightarrow> 'm \<Rightarrow> 'p \<Rightarrow> 'm \<times> 'p"
  op_alloc_new :: "'r \<Rightarrow> nat \<Rightarrow> nat \<Rightarrow> 'm \<Rightarrow> 'p \<Rightarrow> block list \<times> 'm \<times> 'p"
  op_cache :: "'r \<Rightarrow> nat \<Rightarrow> int option \<Rightarrow> 'm \<Rightarrow> 'p \<Rightarrow> 'm \<times> 'p"
  op_free :: "'r \<Rightarrow> 'm \<Rightarrow> 'p \<Rightarrow> 'm \<times> 'p"
  op_pop :: "'r \<Rightarrow> 'm \<Rightarrow> 'p \<Rightarrow> block list \<times> 'm \<times> 'p"
  op_common :: "'m \<Rightarrow> 'r \<Rightarrow> nat"
  op_remove_skipped :: "'r \<Rightarrow> nat \<Rightarrow> nat option \<Rightarrow> 'm \<Rightarrow> 'p \<Rightarrow> 'm \<times> 'p"
  op_blocks :: "'m \<Rightarrow> 'r \<Rightarrow> block list option"
  op_step :: "'m \<Rightarrow> 'p \<Rightarrow> 'm \<times> 'p"
  op_use_eagle :: "'m \<Rightarrow> bool"
  op_block_size :: "'m \<Rightarrow> nat"

text \<open>Every manager in turn, the pool threaded through.\<close>

fun each_manager :: "(nat \<Rightarrow> 'm \<Rightarrow> 'p \<Rightarrow> 'm \<times> 'p) \<Rightarrow> nat \<Rightarrow> 'm list \<Rightarrow> 'p \<Rightarrow> 'm list \<times> 'p" where
  "each_manager f i [] p = ([], p)"
| "each_manager f i (m # ms) p =
     (case f i m p of (m', p1) \<Rightarrow> case each_manager f (Suc i) ms p1 of (ms', p2) \<Rightarrow> (m' # ms', p2))"

fun each_collect ::
    "('m \<Rightarrow> 'p \<Rightarrow> 'a \<times> 'm \<times> 'p) \<Rightarrow> 'm list \<Rightarrow> 'p \<Rightarrow> 'a list \<times> 'm list \<times> 'p" where
  "each_collect f [] p = ([], [], p)"
| "each_collect f (m # ms) p =
     (case f m p of (a, m', p1) \<Rightarrow> case each_collect f ms p1 of (as, ms', p2) \<Rightarrow> (a # as, m' # ms', p2))"

definition get_num_blocks_to_allocate ::
    "('m, 'p, 'r) manager_ops \<Rightarrow> 'm list \<Rightarrow> 'p \<Rightarrow> 'r \<Rightarrow> nat \<Rightarrow> block list list \<Rightarrow> nat \<Rightarrow> nat \<Rightarrow> nat \<Rightarrow> nat \<Rightarrow> bool \<Rightarrow> nat" where
  "get_num_blocks_to_allocate ops ms p r num_tokens new_blocks num_enc computed local main cap =
     sum_list (map (\<lambda>i. let m = ms ! i in
       if op_is_cross ops m then op_need ops m p r num_enc [] 0 0 num_enc cap
       else op_need ops m p r num_tokens (new_blocks ! i) computed local main cap) [0..<length ms])"

definition allocate_new_computed_blocks ::
    "('m, 'p, 'r) manager_ops \<Rightarrow> 'm list \<Rightarrow> 'p \<Rightarrow> 'r \<Rightarrow> block list list \<Rightarrow> nat \<Rightarrow> nat \<Rightarrow> ('m list \<times> 'p) result" where
  "allocate_new_computed_blocks ops ms p r new_blocks local external =
     (if list_ex (\<lambda>m. op_tracked ops m r) ms
      then (if list_all (\<lambda>b. length b = 0) new_blocks then Inr (ms, p) else Inl AssertionError)
      else (case each_manager (\<lambda>i. op_add_local ops r (new_blocks ! i) local external) 0 ms p of (ms1, p1) \<Rightarrow>
              if 0 < external
              then Inr (each_manager (\<lambda>i. op_alloc_external ops r local external) 0 ms1 p1)
              else Inr (ms1, p1)))"

definition allocate_new_blocks ::
    "('m, 'p, 'r) manager_ops \<Rightarrow> 'm list \<Rightarrow> 'p \<Rightarrow> 'r \<Rightarrow> nat \<Rightarrow> nat \<Rightarrow> nat \<Rightarrow> block list list \<times> 'm list \<times> 'p" where
  "allocate_new_blocks ops ms p r num_tokens main num_enc =
     each_collect (\<lambda>m. op_alloc_new ops r (if op_is_cross ops m then num_enc else num_tokens) main m) ms p"

definition base_cache_blocks ::
    "('m, 'p, 'r) manager_ops \<Rightarrow> int option \<Rightarrow> 'm list \<Rightarrow> 'p \<Rightarrow> 'r \<Rightarrow> nat \<Rightarrow> 'm list \<times> 'p" where
  "base_cache_blocks ops retention ms p r n = each_manager (\<lambda>_. op_cache ops r n retention) 0 ms p"

definition free_request :: "('m, 'p, 'r) manager_ops \<Rightarrow> 'm list \<Rightarrow> 'p \<Rightarrow> 'r \<Rightarrow> 'm list \<times> 'p" where
  "free_request ops ms p r = each_manager (\<lambda>_. op_free ops r) 0 ms p"

definition pop_blocks_for_free ::
    "('m, 'p, 'r) manager_ops \<Rightarrow> 'm list \<Rightarrow> 'p \<Rightarrow> 'r \<Rightarrow> block list \<times> 'm list \<times> 'p" where
  "pop_blocks_for_free ops ms p r = (case each_collect (op_pop ops r) ms p of (bs, ms', p') \<Rightarrow> (concat bs, ms', p'))"

definition get_num_common_prefix_blocks :: "('m, 'p, 'r) manager_ops \<Rightarrow> 'm list \<Rightarrow> 'r \<Rightarrow> nat list" where
  "get_num_common_prefix_blocks ops ms r = map (\<lambda>m. op_common ops m r) ms"

definition remove_skipped_blocks ::
    "('m, 'p, 'r) manager_ops \<Rightarrow> 'm list \<Rightarrow> 'p \<Rightarrow> 'r \<Rightarrow> nat \<Rightarrow> nat option \<Rightarrow> 'm list \<times> 'p" where
  "remove_skipped_blocks ops ms p r n prompt = each_manager (\<lambda>_. op_remove_skipped ops r n prompt) 0 ms p"

definition get_blocks :: "('m, 'p, 'r) manager_ops \<Rightarrow> 'm list \<Rightarrow> 'r \<Rightarrow> block list list" where
  "get_blocks ops ms r = map (\<lambda>m. case op_blocks ops m r of None \<Rightarrow> [] | Some bs \<Rightarrow> bs) ms"

definition new_step_starts :: "('m, 'p, 'r) manager_ops \<Rightarrow> 'm list \<Rightarrow> 'p \<Rightarrow> 'm list \<times> 'p" where
  "new_step_starts ops ms p = each_manager (\<lambda>_. op_step ops) 0 ms p"

section \<open>Hit lookup of a manager class\<close>

text \<open>
  \<open>lkp spec group_ids max_length dropping alignment dcp\<close> is the class method \<open>find_longest_cache_hit\<close> of the group's
  manager on the given block hashes and pool: one block list per group id and the hit length in tokens.
\<close>

type_synonym finder = "kv_spec \<Rightarrow> nat list \<Rightarrow> nat \<Rightarrow> bool \<Rightarrow> nat \<Rightarrow> nat \<Rightarrow> block list list \<times> nat"

section \<open>Coordinators with at most one group\<close>

definition noprefix_find :: "nat \<Rightarrow> block list list \<times> nat \<times> nat" where
  "noprefix_find num_managers = (replicate num_managers [], 0, 0)"

record unitary =
  un_spec :: kv_spec
  un_block_size :: nat
  un_eagle :: bool
  un_dcp :: nat

definition unitary_init ::
    "bool \<Rightarrow> bool \<Rightarrow> kv_group list \<Rightarrow> nat \<Rightarrow> nat \<Rightarrow> nat \<Rightarrow> int option \<Rightarrow> unitary result" where
  "unitary_init use_eagle caching groups dcp sched_bs hash_bs retention =
     bind_r (base_init use_eagle groups sched_bs hash_bs retention) (\<lambda>eagle.
       case groups of
         [] \<Rightarrow> Inl IndexError
       | g # rest \<Rightarrow>
           let bs = ks_block_size (kg_spec g) * (if 1 < dcp then dcp else 1)
           in if caching \<and> hash_bs \<noteq> bs then Inl AssertionError
              else if rest \<noteq> [] then Inl AssertionError
              else Inr \<lparr>un_spec = kg_spec g, un_block_size = bs, un_eagle = (0 \<in> set eagle), un_dcp = dcp\<rparr>)"

definition unitary_find :: "finder \<Rightarrow> unitary \<Rightarrow> nat \<Rightarrow> block list list \<times> nat \<times> nat" where
  "unitary_find lkp u max_len =
     (case lkp (un_spec u) [0] max_len (un_eagle u) (un_block_size u) (un_dcp u) of (bs, n) \<Rightarrow> (bs, n, 0))"

section \<open>The hybrid coordinator\<close>

record kv_manager =
  km_cls :: nat
  km_block_size :: nat
  km_fine :: bool

record spec_group =
  sg_spec :: kv_spec
  sg_ids :: "nat list"
  sg_cls :: kv_manager
  sg_eagle :: bool

record hybrid =
  hy_groups :: "kv_group list"
  hy_managers :: "kv_manager list"
  hy_eagle_mgr :: "nat list"
  hy_hash_bs :: nat
  hy_sched_bs :: nat
  hy_dcp :: nat
  hy_partial :: bool
  hy_attn :: "spec_group list"
  hy_full_id :: "nat option"

text \<open>\<open>verify_and_split_kv_cache_groups\<close>: join group \<open>i\<close> to the attention group with the same spec, or open one.\<close>

fun join_group :: "nat \<Rightarrow> kv_spec \<Rightarrow> kv_manager \<Rightarrow> bool \<Rightarrow> spec_group list \<Rightarrow> spec_group list result" where
  "join_group i spec mgr eagle [] = Inr [\<lparr>sg_spec = spec, sg_ids = [i], sg_cls = mgr, sg_eagle = eagle\<rparr>]"
| "join_group i spec mgr eagle (g # gs) =
     (if sg_spec g = spec then
        (if km_cls (sg_cls g) \<noteq> km_cls mgr then Inl AssertionError
         else Inr (g\<lparr>sg_ids := sg_ids g @ [i], sg_eagle := (sg_eagle g \<or> eagle)\<rparr> # gs))
      else bind_r (join_group i spec mgr eagle gs) (\<lambda>gs'. Inr (g # gs')))"

fun split_groups :: "nat \<Rightarrow> nat list \<Rightarrow> (kv_group \<times> kv_manager) list \<Rightarrow> spec_group list \<Rightarrow> spec_group list result" where
  "split_groups i eagle [] acc = Inr acc"
| "split_groups i eagle ((g, m) # rest) acc =
     (if \<not> ks_participates (kg_spec g) then split_groups (Suc i) eagle rest acc
      else bind_r (join_group i (kg_spec g) m (i \<in> set eagle) acc) (split_groups (Suc i) eagle rest))"

definition full_first :: "spec_group list \<Rightarrow> spec_group list" where
  "full_first gs = filter (\<lambda>g. is_full (sg_spec g)) gs @ filter (\<lambda>g. \<not> is_full (sg_spec g)) gs"

definition split_attn :: "nat list \<Rightarrow> (kv_group \<times> kv_manager) list \<Rightarrow> (spec_group list \<times> nat option \<times> nat list) result" where
  "split_attn eagle gms =
     bind_r (split_groups 0 eagle gms []) (\<lambda>gs0.
       if \<not> 1 < length gs0 then Inl AssertionError
       else let gs = full_first gs0; first = hd gs
            in Inr (gs, if is_full (sg_spec first) then Some (hd (sg_ids first)) else None,
                    concat (map sg_ids (filter sg_eagle gs))))"

definition partial_hits :: "nat \<Rightarrow> nat \<Rightarrow> kv_group list \<Rightarrow> kv_manager list \<Rightarrow> bool" where
  "partial_hits dcp hash_bs groups ms =
     (dcp = 1 \<and>
      list_ex (\<lambda>g. ks_class (kg_spec g) = Mamba True \<and> hash_bs < ks_block_size (kg_spec g)) groups \<and>
      \<not> list_ex (\<lambda>m. \<not> km_fine m \<and> km_block_size m \<noteq> hash_bs) ms)"

definition hybrid_init ::
    "bool \<Rightarrow> kv_group list \<Rightarrow> kv_manager list \<Rightarrow> nat \<Rightarrow> nat \<Rightarrow> nat \<Rightarrow> nat \<Rightarrow> int option \<Rightarrow> hybrid result" where
  "hybrid_init use_eagle groups ms dcp pcp sched_bs hash_bs retention =
     bind_r (base_init use_eagle groups sched_bs hash_bs retention) (\<lambda>eagle.
       if \<not> list_all (\<lambda>(m, g). \<not> ks_participates (kg_spec g) \<or> km_block_size m mod hash_bs = 0) (zip ms groups)
       then Inl AssertionError
       else if pcp \<noteq> 1 then Inl AssertionError
       else if 1 < dcp \<and> \<not> list_all (\<lambda>g. is_full (kg_spec g) \<or> is_mamba_class (ks_class (kg_spec g))) groups
       then Inl AssertionError
       else bind_r (split_attn eagle (zip groups ms)) (\<lambda>(gs, full, em).
         Inr \<lparr>hy_groups = groups, hy_managers = ms, hy_eagle_mgr = em, hy_hash_bs = hash_bs,
              hy_sched_bs = sched_bs, hy_dcp = dcp, hy_partial = partial_hits dcp hash_bs groups ms,
              hy_attn = gs, hy_full_id = full\<rparr>))"

definition alignment :: "hybrid \<Rightarrow> nat" where
  "alignment h = (if hy_partial h then hy_hash_bs h else hy_sched_bs h)"

text \<open>\<open>cache_blocks\<close>: how many tokens manager \<open>i\<close> is told to cache.\<close>

definition tokens_to_cache :: "hybrid \<Rightarrow> nat \<Rightarrow> nat \<Rightarrow> nat" where
  "tokens_to_cache h computed i =
     (let aligned = (if hy_partial h then computed else computed div hy_sched_bs h * hy_sched_bs h)
      in if i \<in> set (hy_eagle_mgr h) \<and> 0 < aligned
         then min computed (aligned + km_block_size (hy_managers h ! i)) else aligned)"

definition hybrid_cache_blocks ::
    "('m, 'p, 'r) manager_ops \<Rightarrow> hybrid \<Rightarrow> int option \<Rightarrow> 'm list \<Rightarrow> 'p \<Rightarrow> 'r \<Rightarrow> nat \<Rightarrow> 'm list \<times> 'p" where
  "hybrid_cache_blocks ops h retention ms p r computed =
     each_manager (\<lambda>i. op_cache ops r (tokens_to_cache h computed i) retention) 0 ms p"

subsection \<open>The fixed-point search\<close>

record find_state =
  f_curr :: nat
  f_longest :: nat
  f_blocks :: "nat \<Rightarrow> block list option"
  f_len :: "nat \<Rightarrow> nat"
  f_verified :: "nat set"

definition group_bs :: "hybrid \<Rightarrow> spec_group \<Rightarrow> nat" where
  "group_bs h g = km_block_size (hy_managers h ! hd (sg_ids g))"

definition eagle_margin :: "hybrid \<Rightarrow> spec_group \<Rightarrow> nat" where
  "eagle_margin h g =
     (if hy_partial h \<and> km_fine (sg_cls g) \<and> hy_hash_bs h < group_bs h g then hy_hash_bs h else group_bs h g)"

fun store_blocks :: "nat list \<Rightarrow> block list list \<Rightarrow> nat \<Rightarrow> find_state \<Rightarrow> find_state" where
  "store_blocks (i # is) (b # bs) n st =
     store_blocks is bs n (st\<lparr>f_blocks := (f_blocks st)(i \<mapsto> b), f_len := (f_len st)(i := n)\<rparr>)"
| "store_blocks _ _ n st = st"

definition lookup_len :: "hybrid \<Rightarrow> nat \<Rightarrow> nat \<Rightarrow> spec_group \<Rightarrow> bool \<Rightarrow> nat" where
  "lookup_len h max_len cur g dropping =
     (if dropping \<and> \<not> is_mamba_class (ks_class (sg_spec g)) then min (cur + eagle_margin h g) max_len else cur)"

text \<open>After a lookup: the eagle bookkeeping, then what the group's result does to the state.\<close>

definition note_lookup :: "nat \<Rightarrow> bool \<Rightarrow> nat \<Rightarrow> find_state \<Rightarrow> find_state" where
  "note_lookup idx dropping n st =
     (if dropping then st\<lparr>f_verified := insert idx (f_verified st)\<rparr>
      else if n < f_curr st then st\<lparr>f_verified := {}\<rparr> else st)"

definition accept_hit :: "spec_group \<Rightarrow> block list list \<Rightarrow> nat \<Rightarrow> find_state \<Rightarrow> find_state" where
  "accept_hit g blocks n st =
     (if is_draft_swa (sg_spec g)
      then (if f_curr st \<le> n then store_blocks (sg_ids g) blocks n st else st)
      else let st2 = store_blocks (sg_ids g) blocks n (st\<lparr>f_curr := n\<rparr>)
           in st2\<lparr>f_longest := max (f_longest st2) n\<rparr>)"

definition find_step :: "finder \<Rightarrow> hybrid \<Rightarrow> nat \<Rightarrow> nat \<Rightarrow> spec_group \<Rightarrow> find_state \<Rightarrow> find_state" where
  "find_step lkp h max_len idx g st =
     (if is_full (sg_spec g) \<and> f_blocks st (hd (sg_ids g)) \<noteq> None
      then st\<lparr>f_curr := min (f_curr st) (f_len st (hd (sg_ids g)))\<rparr>
      else
        let dropping = (sg_eagle g \<and> idx \<notin> f_verified st);
            (blocks, n) = lkp (sg_spec g) (sg_ids g) (lookup_len h max_len (f_curr st) g dropping) dropping
                            (alignment h) (if is_full (sg_spec g) then hy_dcp h else 1)
        in accept_hit g blocks n (note_lookup idx dropping n st))"

fun find_pass :: "finder \<Rightarrow> hybrid \<Rightarrow> nat \<Rightarrow> nat \<Rightarrow> spec_group list \<Rightarrow> find_state \<Rightarrow> find_state" where
  "find_pass lkp h max_len idx [] st = st"
| "find_pass lkp h max_len idx (g # gs) st = find_pass lkp h max_len (Suc idx) gs (find_step lkp h max_len idx g st)"

definition simple_hybrid :: "hybrid \<Rightarrow> bool" where
  "simple_hybrid h = (length (hy_attn h) = 2 \<and> is_full (sg_spec (hd (hy_attn h))))"

function find_loop :: "finder \<Rightarrow> hybrid \<Rightarrow> nat \<Rightarrow> nat \<Rightarrow> find_state \<Rightarrow> nat \<times> find_state" where
  "find_loop lkp h max_len hit st =
     (let st1 = find_pass lkp h max_len 0 (hy_attn h) (st\<lparr>f_curr := hit\<rparr>)
      in if hit \<le> f_curr st1 then (hit, st1)
         else if simple_hybrid h then (f_curr st1, st1)
         else find_loop lkp h max_len (f_curr st1) st1)"
  by pat_completeness auto
termination
  by (relation "measure (\<lambda>(lkp, h, max_len, hit, st). hit)") auto

declare find_loop.simps [simp del]

definition trim_full :: "hybrid \<Rightarrow> nat \<Rightarrow> find_state \<Rightarrow> find_state" where
  "trim_full h hit st =
     (let g = hd (hy_attn h)
      in if is_full (sg_spec g)
         then foldl (\<lambda>st i. case f_blocks st i of
                None \<Rightarrow> st
              | Some bs \<Rightarrow> st\<lparr>f_blocks := (f_blocks st)(i \<mapsto> take (cdiv hit (group_bs h g)) bs),
                             f_len := (f_len st)(i := hit)\<rparr>) st (sg_ids g)
         else st)"

definition find_start :: "nat \<Rightarrow> find_state" where
  "find_start max_len = \<lparr>f_curr = max_len, f_longest = 0, f_blocks = Map.empty, f_len = (\<lambda>_. 0), f_verified = {}\<rparr>"

definition hybrid_find :: "finder \<Rightarrow> hybrid \<Rightarrow> nat \<Rightarrow> block list list \<times> nat \<times> int" where
  "hybrid_find lkp h max_len =
     (case find_loop lkp h max_len max_len (find_start max_len) of (hit, st) \<Rightarrow>
        let st' = trim_full h hit st
        in (map (\<lambda>i. case f_blocks st' i of None \<Rightarrow> [] | Some bs \<Rightarrow> bs) [0..<length (hy_groups h)],
            hit, int (f_longest st') - int hit))"

definition hybrid_find_per_group :: "finder \<Rightarrow> hybrid \<Rightarrow> nat \<Rightarrow> block list list \<times> nat list" where
  "hybrid_find_per_group lkp h max_len =
     (let st = foldl (\<lambda>st g. case lkp (sg_spec g) (sg_ids g) max_len (sg_eagle g) (alignment h) 1 of
                         (blocks, n) \<Rightarrow> store_blocks (sg_ids g) blocks n st) (find_start max_len) (hy_attn h)
      in (map (\<lambda>i. case f_blocks st i of None \<Rightarrow> [] | Some bs \<Rightarrow> bs) [0..<length (hy_groups h)],
          map (f_len st) [0..<length (hy_groups h)]))"

section \<open>Which coordinator\<close>

datatype coordinator = No_prefix nat | Unitary unitary | Hybrid hybrid

definition get_kv_cache_coordinator ::
    "bool \<Rightarrow> bool \<Rightarrow> kv_group list \<Rightarrow> kv_manager list \<Rightarrow> nat \<Rightarrow> nat \<Rightarrow> nat \<Rightarrow> nat \<Rightarrow> int option \<Rightarrow> coordinator result" where
  "get_kv_cache_coordinator use_eagle caching groups ms dcp pcp sched_bs hash_bs retention =
     (if \<not> caching then bind_r (base_init use_eagle groups sched_bs hash_bs retention) (\<lambda>_. Inr (No_prefix (length groups)))
      else if length groups = 1 then map_sum id Unitary (unitary_init use_eagle caching groups dcp sched_bs hash_bs retention)
      else map_sum id Hybrid (hybrid_init use_eagle groups ms dcp pcp sched_bs hash_bs retention))"

end
