(* ===== verification/Kv_Coordinator_Props.thy ===== *)
theory Kv_Coordinator_Props
  imports Kv_Coordinator
begin

text \<open>
  The hybrid coordinator's search (\<open>find_longest_cache_hit\<close> of \<open>src/overlay/kv_cache_coordinator.py\<close>): it stops,
  and what it returns is one boundary every attention group but the draft window agrees on. The managers' lookup
  is a parameter; what the search relies on is the named contract \<open>finder_ok\<close>, which documents the vLLM method:
  a hit is at most the asked length, a multiple of the alignment, one block list per group covering it, and a
  lookup that drops the eagle block gives the margin back.
\<close>

section \<open>The contract of a lookup\<close>




text \<open>Well-formed attention groups: non-empty disjoint ids of real groups, full attention first.\<close>

definition attn_ok :: "hybrid \<Rightarrow> bool" where
  "attn_ok h \<longleftrightarrow>
     hy_attn h \<noteq> [] \<and> (\<forall>g\<in>set (hy_attn h). sg_ids g \<noteq> [] \<and> (is_full (sg_spec g) \<longrightarrow> \<not> is_draft_swa (sg_spec g))) \<and>
     distinct (concat (map sg_ids (hy_attn h))) \<and>
     (\<forall>i\<in>set (concat (map sg_ids (hy_attn h))). i < length (hy_groups h))"


section \<open>One lookup\<close>

lemma store_blocks_fields [simp]:
  "f_curr (store_blocks ids bs n st) = f_curr st" "f_longest (store_blocks ids bs n st) = f_longest st"
  "f_verified (store_blocks ids bs n st) = f_verified st"
  by (induction ids bs n st rule: store_blocks.induct) simp_all







section \<open>One pass\<close>




section \<open>The loop\<close>





section \<open>Trimming\<close>








section \<open>Properties\<close>

text \<open>The loop of the code, stopped after a number of passes.\<close>

fun find_passes :: "nat \<Rightarrow> finder \<Rightarrow> hybrid \<Rightarrow> nat \<Rightarrow> nat \<Rightarrow> find_state \<Rightarrow> (nat \<times> find_state) option" where
  "find_passes 0 lkp h max_len hit st = None"
| "find_passes (Suc n) lkp h max_len hit st =
     (let st1 = find_pass lkp h max_len 0 (hy_attn h) (st\<lparr>f_curr := hit\<rparr>)
      in if hit \<le> f_curr st1 then Some (hit, st1)
         else if simple_hybrid h then Some (f_curr st1, st1)
         else find_passes n lkp h max_len (f_curr st1) st1)"

lemma find_passes_enough: "hit < n \<Longrightarrow> find_passes n lkp h max_len hit st = Some (find_loop lkp h max_len hit st)"
proof (induction n arbitrary: hit st)
  case (Suc n)
  then show ?case
    by (subst find_loop.simps) (auto simp: Let_def)
qed simp

text \<open>
  C39. The search ends whatever the managers answer: for any finder, even one that breaks its contract, at most one pass
  more than the asked length is made before the candidate stops shrinking, and the result is that of the loop.
\<close>

theorem hybrid_search_ends:
  "\<exists>n \<le> Suc max_len. find_passes n lkp h max_len max_len (find_start max_len) =
     Some (find_loop lkp h max_len max_len (find_start max_len))"
  using find_passes_enough [of max_len "Suc max_len"] by blast


definition demo_group :: "nat \<Rightarrow> spec_class \<Rightarrow> nat \<Rightarrow> kv_group" where
  "demo_group i c bs = \<lparr>kg_spec = \<lparr>ks_class = c, ks_block_size = bs, ks_participates = True, ks_id = i, ks_inner = []\<rparr>,
                        kg_eagle = False\<rparr>"

definition demo_attn :: "nat \<Rightarrow> spec_class \<Rightarrow> nat \<Rightarrow> spec_group" where
  "demo_attn i c bs = \<lparr>sg_spec = kg_spec (demo_group i c bs), sg_ids = [i],
                       sg_cls = \<lparr>km_cls = i, km_block_size = bs, km_fine = False\<rparr>, sg_eagle = False\<rparr>"

definition demo_hybrid :: hybrid where
  "demo_hybrid =
     \<lparr>hy_groups = [demo_group 0 Full_attention 2, demo_group 1 Sliding_window 2, demo_group 2 (Mamba True) 4],
      hy_managers = [\<lparr>km_cls = 0, km_block_size = 2, km_fine = False\<rparr>, \<lparr>km_cls = 1, km_block_size = 2, km_fine = False\<rparr>,
                     \<lparr>km_cls = 2, km_block_size = 4, km_fine = False\<rparr>],
      hy_eagle_mgr = [], hy_hash_bs = 2, hy_sched_bs = 4, hy_dcp = 1, hy_partial = False,
      hy_attn = [demo_attn 0 Full_attention 2, demo_attn 1 Sliding_window 2, demo_attn 2 (Mamba True) 4],
      hy_full_id = Some 0\<rparr>"

text \<open>Full attention has eight tokens cached, the draft window only the last ones of them, Mamba four tokens.\<close>

definition demo_find :: finder where
  "demo_find spec ids len d al dcp =
     (let best = (if d then 0 else if ks_id spec = 0 then (if 8 \<le> len then 8 else 0)
                  else if ks_id spec = 1 then (if 8 \<le> len then 8 else 0) else if 4 \<le> len then 4 else 0)
      in (map (\<lambda>i. replicate (cdiv best (ks_block_size spec)) 7) ids, best))"



lemma demo_hybrid_find:
  "hybrid_find demo_find demo_hybrid 9 = ([[7, 7], [7, 7, 7, 7], [7]], 4, 4)"
  by code_simp


text \<open>
  The draft window is the exception. Its comment says that a short window leaves the group empty, so that
  allocation creates fresh pages; but when a first pass accepted the window and a later group shortens the hit,
  the blocks of the longer candidate stay in the result: here four blocks for eight tokens with a hit of four.
\<close>

lemma draft_window_keeps_stale_blocks:
  "case hybrid_find demo_find demo_hybrid 9 of (blocks, hit, _) \<Rightarrow>
     is_draft_swa (kg_spec (hy_groups demo_hybrid ! 1)) \<and> hit = 4 \<and>
     cdiv hit 2 < length (blocks ! 1)"
  unfolding demo_hybrid_find by (simp add: demo_hybrid_def demo_group_def is_draft_swa_def inner_class_def cdiv_def)

section \<open>Splitting the groups\<close>

definition part_ok :: "kv_group list \<Rightarrow> nat list \<Rightarrow> nat \<Rightarrow> spec_group list \<Rightarrow> bool" where
  "part_ok groups eagle i gs \<longleftrightarrow>
     distinct (concat (map sg_ids gs)) \<and> distinct (map sg_spec gs) \<and>
     set (concat (map sg_ids gs)) = {j. j < i \<and> ks_participates (kg_spec (groups ! j))} \<and>
     (\<forall>g\<in>set gs. sg_ids g \<noteq> [] \<and> (\<forall>j\<in>set (sg_ids g). kg_spec (groups ! j) = sg_spec g) \<and>
                  (sg_eagle g \<longleftrightarrow> (\<exists>j\<in>set (sg_ids g). j \<in> set eagle)))"

lemma join_group_props:
  "join_group i spec m e gs = Inr gs' \<Longrightarrow>
   set (concat (map sg_ids gs')) = insert i (set (concat (map sg_ids gs))) \<and>
   (distinct (concat (map sg_ids gs)) \<and> i \<notin> set (concat (map sg_ids gs)) \<longrightarrow> distinct (concat (map sg_ids gs'))) \<and>
   set (map sg_spec gs') = insert spec (set (map sg_spec gs)) \<and>
   (distinct (map sg_spec gs) \<longrightarrow> distinct (map sg_spec gs')) \<and>
   (\<forall>g'\<in>set gs'. g' \<in> set gs \<or> (sg_ids g' = [i] \<and> sg_spec g' = spec \<and> sg_eagle g' = e) \<or>
      (\<exists>g\<in>set gs. sg_spec g = spec \<and> sg_spec g' = spec \<and> sg_ids g' = sg_ids g @ [i] \<and> sg_eagle g' = (sg_eagle g \<or> e)))"
proof (induction gs arbitrary: gs')
  case Nil
  then show ?case by auto
next
  case (Cons g gs)
  show ?case
  proof (cases "sg_spec g = spec")
    case True
    then have gs': "gs' = g\<lparr>sg_ids := sg_ids g @ [i], sg_eagle := (sg_eagle g \<or> e)\<rparr> # gs"
      using Cons.prems by (auto split: if_splits)
    show ?thesis using True by (auto simp: gs')
  next
    case False
    then obtain gs1 where j: "join_group i spec m e gs = Inr gs1" and gs': "gs' = g # gs1"
      using Cons.prems by (auto simp: bind_r_Inr_iff)
    note IH = Cons.IH [OF j]
    have "spec \<noteq> sg_spec g" using False by simp
    then show ?thesis using IH unfolding gs' by (auto 0 3)
  qed
qed

lemma split_groups_ok:
  "split_groups i eagle gms acc = Inr gs \<Longrightarrow> part_ok groups eagle i acc \<Longrightarrow> map fst gms = drop i groups \<Longrightarrow>
   i \<le> length groups \<Longrightarrow> part_ok groups eagle (length groups) gs"
proof (induction gms arbitrary: i acc)
  case Nil
  then show ?case by (cases "i = length groups") auto
next
  case (Cons gm gms)
  obtain g m where gm: "gm = (g, m)" by (cases gm)
  have i: "i < length groups" using Cons.prems(3,4) by (cases "i = length groups") auto
  then have "drop i groups = groups ! i # drop (Suc i) groups" by (simp add: Cons_nth_drop_Suc)
  then have g: "g = groups ! i" and rest: "map fst gms = drop (Suc i) groups" using Cons.prems(3) by (auto simp: gm)
  have less: "j < Suc i \<longleftrightarrow> j < i \<or> j = i" for j by auto
  show ?case
  proof (cases "ks_participates (kg_spec g)")
    case False
    have "part_ok groups eagle (Suc i) acc"
      using Cons.prems(2) False g unfolding part_ok_def less by auto
    then show ?thesis using Cons.IH [of "Suc i" acc] Cons.prems(1) rest i False by (simp add: gm)
  next
    case True
    then obtain acc' where j: "join_group i (kg_spec g) m (i \<in> set eagle) acc = Inr acc'"
      and s: "split_groups (Suc i) eagle gms acc' = Inr gs"
      using Cons.prems(1) by (auto simp: gm bind_r_Inr_iff)
    note J = join_group_props [OF j]
    have fresh: "i \<notin> set (concat (map sg_ids acc))" using Cons.prems(2) by (simp add: part_ok_def)
    have "sg_ids g' \<noteq> [] \<and> (\<forall>j\<in>set (sg_ids g'). kg_spec (groups ! j) = sg_spec g') \<and>
            (sg_eagle g' \<longleftrightarrow> (\<exists>j\<in>set (sg_ids g'). j \<in> set eagle))" if "g' \<in> set acc'" for g'
    proof -
      have "g' \<in> set acc \<or> (sg_ids g' = [i] \<and> sg_spec g' = kg_spec g \<and> sg_eagle g' = (i \<in> set eagle)) \<or>
        (\<exists>g0\<in>set acc. sg_spec g0 = kg_spec g \<and> sg_spec g' = kg_spec g \<and> sg_ids g' = sg_ids g0 @ [i] \<and>
           sg_eagle g' = (sg_eagle g0 \<or> i \<in> set eagle))" using J that by blast
      then show ?thesis using Cons.prems(2) g unfolding part_ok_def by (elim disjE bexE conjE) auto
    qed
    then have "part_ok groups eagle (Suc i) acc'"
      using Cons.prems(2) J fresh True g unfolding part_ok_def less by auto
    then show ?thesis using Cons.IH [OF s _ rest] i by simp
  qed
qed

lemma full_first_set: "set (full_first gs) = set gs"
  by (auto simp: full_first_def)

lemma full_first_distinct:
  "distinct (concat (map sg_ids gs)) \<Longrightarrow> distinct (concat (map sg_ids (full_first gs)))"
proof (induction gs)
  case (Cons g gs)
  have "set (concat (map sg_ids (full_first gs))) = set (concat (map sg_ids gs))"
    by (auto simp: full_first_set)
  then show ?case using Cons by (auto simp: full_first_def)
qed (simp add: full_first_def)

text \<open>
  Building the hybrid coordinator partitions the cache groups: every group that takes part in prefix caching
  is in exactly one attention group, with the spec of that group, groups that opt out are in none, an attention
  group drops the eagle block exactly when one of its groups is an eagle group, full attention comes first, and
  the result is what the search needs.
\<close>

lemma hybrid_init_partition:
  assumes "hybrid_init use_eagle groups ms dcp pcp sched_bs hash_bs retention = Inr h"
    and "length ms = length groups" and "\<forall>g\<in>set groups. is_full (kg_spec g) \<longrightarrow> \<not> is_draft_swa (kg_spec g)"
  shows "attn_ok h \<and> 2 \<le> length (hy_attn h) \<and>
         set (concat (map sg_ids (hy_attn h))) = {i. i < length groups \<and> ks_participates (kg_spec (groups ! i))} \<and>
         (\<forall>g\<in>set (hy_attn h). (\<forall>i\<in>set (sg_ids g). kg_spec (groups ! i) = sg_spec g) \<and>
            (sg_eagle g \<longleftrightarrow> (\<exists>i\<in>set (sg_ids g). i \<in> set (eagle_ids use_eagle groups)))) \<and>
         (\<forall>g\<in>set (hy_attn h). is_full (sg_spec g) \<longrightarrow> is_full (sg_spec (hd (hy_attn h))))"
proof -
  obtain eagle where b: "base_init use_eagle groups sched_bs hash_bs retention = Inr eagle"
    using assms(1) by (auto simp: hybrid_init_def bind_r_Inr_iff)
  have eagle: "eagle = eagle_ids use_eagle groups"
    using b by (auto simp: base_init_def bind_r_Inr_iff split: if_splits)
  obtain gs full em where sa: "split_attn eagle (zip groups ms) = Inr (gs, full, em)"
    and h: "hy_attn h = gs" "hy_groups h = groups"
    using assms(1) by (auto simp: hybrid_init_def bind_r_Inr_iff b split: if_splits)
  obtain gs0 where s0: "split_groups 0 eagle (zip groups ms) [] = Inr gs0" and two: "1 < length gs0"
    and gs: "gs = full_first gs0"
    using sa by (auto simp: split_attn_def bind_r_Inr_iff Let_def split: if_splits)
  have start: "part_ok groups eagle 0 []" by (simp add: part_ok_def)
  have part: "part_ok groups eagle (length groups) gs0"
    by (rule split_groups_ok [OF s0 start]) (use assms(2) in simp_all)
  have st: "set gs = set gs0" by (simp add: gs full_first_set)
  have ids: "set (concat (map sg_ids gs)) = {i. i < length groups \<and> ks_participates (kg_spec (groups ! i))}"
    using part st by (simp add: part_ok_def)
  have len: "length gs = length gs0"
    using sum_length_filter_compl [of "\<lambda>g. is_full (sg_spec g)" gs0] by (simp add: gs full_first_def)
  then have ne: "gs \<noteq> []" using two by auto
  have nd: "\<not> is_draft_swa (sg_spec g)" if g: "g \<in> set gs" "is_full (sg_spec g)" for g
  proof -
    obtain i where i: "i \<in> set (sg_ids g)" using part g(1) st by (cases "sg_ids g") (auto simp: part_ok_def)
    then have "i \<in> set (concat (map sg_ids gs))" using g(1) by auto
    then have "i < length groups" using ids by blast
    moreover have "kg_spec (groups ! i) = sg_spec g" using part g(1) st i by (simp add: part_ok_def)
    ultimately show ?thesis using assms(3) g(2) nth_mem by metis
  qed
  have "distinct (concat (map sg_ids gs))" using part by (simp add: gs full_first_distinct part_ok_def)
  moreover have "\<forall>g\<in>set gs. sg_ids g \<noteq> []" using part st by (simp add: part_ok_def)
  moreover have "\<forall>i\<in>set (concat (map sg_ids gs)). i < length groups" using ids by blast
  ultimately have "attn_ok h" using ne nd unfolding attn_ok_def h by blast
  moreover have "is_full (sg_spec (hd gs))" if "g \<in> set gs" "is_full (sg_spec g)" for g
    using that by (cases "filter (\<lambda>g. is_full (sg_spec g)) gs0")
      (auto simp: gs full_first_def filter_empty_conv dest: filter_eq_ConsD)
  ultimately show ?thesis
    using ids len two part st unfolding h eagle part_ok_def by auto
qed

definition demo_ms :: "kv_manager list" where
  "demo_ms = hy_managers demo_hybrid"

lemma demo_init: "hybrid_init False (hy_groups demo_hybrid) demo_ms 1 1 4 2 None = Inr demo_hybrid"
  by code_simp

section \<open>Two-phase allocation\<close>

lemma each_manager_keeps:
  assumes "\<And>i m p m' p'. f i m p = (m', p') \<Longrightarrow> P p \<Longrightarrow> P p'"
  shows "each_manager f i ms p = (ms', p') \<Longrightarrow> P p \<Longrightarrow> P p'"
  using assms by (induction ms arbitrary: i p ms' p') (auto split: prod.splits)

lemma each_manager_reaches:
  assumes keep: "\<And>i b m p m' p'. f i m p = (m', p') \<Longrightarrow> Q b p \<Longrightarrow> Q b p'"
    and make: "\<And>i m p m' p' b. f i m p = (m', p') \<Longrightarrow> b \<in> set (bs i) \<Longrightarrow> Q b p'"
  shows "each_manager f k ms p = (ms', p') \<Longrightarrow> k \<le> j \<Longrightarrow> j < k + length ms \<Longrightarrow> b \<in> set (bs j) \<Longrightarrow> Q b p'"
proof (induction ms arbitrary: k p ms' p')
  case (Cons m ms)
  obtain m1 p1 where f: "f k m p = (m1, p1)" by fastforce
  obtain ms1 p2 where e: "each_manager f (Suc k) ms p1 = (ms1, p2)" by fastforce
  have p': "p' = p2" using Cons.prems(1) f e by simp
  show ?case
  proof (cases "j = k")
    case True
    then have "Q b p1" using make [OF f] Cons.prems(4) by simp
    show ?thesis unfolding p'
      by (rule each_manager_keeps [where P = "Q b" and f = f, OF _ e]) (use keep \<open>Q b p1\<close> in blast)+
  next
    case False
    then show ?thesis using Cons.IH [OF e] Cons.prems p' by simp
  qed
qed simp

text \<open>
  What the pool promises, in terms of \<open>held\<close> (a block some request references) and \<open>content\<close> (what a block caches):
  touching a group's hit blocks holds them and evicts nothing, and an external allocation only takes blocks that
  nothing holds.
\<close>

definition pool_ok :: "('m, 'p, 'r) manager_ops \<Rightarrow> ('p \<Rightarrow> block \<Rightarrow> bool) \<Rightarrow> ('p \<Rightarrow> block \<Rightarrow> 'c) \<Rightarrow> bool" where
  "pool_ok ops held content \<longleftrightarrow>
     (\<forall>r bs l x m p m' p'. op_add_local ops r bs l x m p = (m', p') \<longrightarrow>
        (\<forall>b\<in>set bs. held p' b) \<and> (\<forall>b. content p' b = content p b \<and> (held p b \<longrightarrow> held p' b))) \<and>
     (\<forall>r l x m p m' p'. op_alloc_external ops r l x m p = (m', p') \<longrightarrow>
        (\<forall>b. held p b \<longrightarrow> held p' b \<and> content p' b = content p b))"

text \<open>
  C25. Allocating the computed blocks of a new request is safe in the two phases the code has: whatever external
  blocks the groups need, no cache-hit block of any group is evicted, each is held with its cached content.
\<close>

theorem allocate_computed_keeps_hits:
  assumes "pool_ok ops held content" and "\<not> list_ex (\<lambda>m. op_tracked ops m r) ms"
    and "allocate_new_computed_blocks ops ms p r new_blocks local external = Inr (ms', p')"
    and "i < length ms" and "b \<in> set (new_blocks ! i)"
  shows "held p' b \<and> content p' b = content p b"
proof -
  let ?add = "\<lambda>i. op_add_local ops r (new_blocks ! i) local external"
  let ?ext = "\<lambda>i. op_alloc_external ops r local external"
  obtain ms1 p1 where a: "each_manager ?add 0 ms p = (ms1, p1)" by fastforce
  have add: "(\<forall>b\<in>set (new_blocks ! i). held q' b) \<and> (\<forall>b. content q' b = content q b \<and> (held q b \<longrightarrow> held q' b))"
    if "?add i m q = (m', q')" for i m q m' q' using assms(1) that unfolding pool_ok_def by blast
  have ext: "\<forall>b. held q b \<longrightarrow> held q' b \<and> content q' b = content q b"
    if "?ext i m q = (m', q')" for i m q m' q' using assms(1) that unfolding pool_ok_def by blast
  have h1: "held p1 b"
    by (rule each_manager_reaches [where Q = "\<lambda>b p. held p b" and bs = "\<lambda>i. new_blocks ! i" and j = i and f = ?add,
          OF _ _ a]) (use add assms(4,5) in auto)
  have c1: "content p1 b = content p b"
    by (rule each_manager_keeps [where P = "\<lambda>q. content q b = content p b" and f = ?add, OF _ a]) (use add in auto)
  have res: "(ms', p') = (if 0 < external then each_manager ?ext 0 ms1 p1 else (ms1, p1))"
    using assms(2,3) by (simp add: allocate_new_computed_blocks_def a split: if_splits)
  show ?thesis
  proof (cases "0 < external")
    case True
    then have e: "each_manager ?ext 0 ms1 p1 = (ms', p')" using res by simp
    show ?thesis
      by (rule each_manager_keeps [where P = "\<lambda>q. held q b \<and> content q b = content p b" and f = ?ext, OF _ e])
        (use ext h1 c1 in auto)
  next
    case False
    then show ?thesis using res h1 c1 by simp
  qed
qed

text \<open>A concrete pool: the held blocks and what each block caches; an external allocation takes block 5 when it is free.\<close>

definition demo_ops :: "(unit, block list \<times> (block \<Rightarrow> nat), nat) manager_ops" where
  "demo_ops =
     \<lparr>op_is_cross = (\<lambda>m. False), op_need = (\<lambda>m p r n bs c l k cap. 0), op_tracked = (\<lambda>m r. False),
      op_add_local = (\<lambda>r bs l x m (hs, c). ((), (bs @ hs, c))),
      op_alloc_external = (\<lambda>r l x m (hs, c). ((), if 5 \<in> set hs then (hs, c) else (5 # hs, c(5 := 99)))),
      op_alloc_new = (\<lambda>r n k m p. ([], m, p)), op_cache = (\<lambda>r n i m p. (m, p)), op_free = (\<lambda>r m p. (m, p)),
      op_pop = (\<lambda>r m p. ([], m, p)), op_common = (\<lambda>m r. 0), op_remove_skipped = (\<lambda>r n k m p. (m, p)),
      op_blocks = (\<lambda>m r. None), op_step = (\<lambda>m p. (m, p)), op_use_eagle = (\<lambda>m. False), op_block_size = (\<lambda>m. 2)\<rparr>"

lemma demo_pool_ok: "pool_ok demo_ops (\<lambda>p b. b \<in> set (fst p)) (\<lambda>p b. snd p b)"
  by (auto simp: pool_ok_def demo_ops_def split: if_splits)

lemma allocate_computed_keeps_hits_witness:
  "\<exists>ms' p'. allocate_new_computed_blocks demo_ops [(), ()] ([], \<lambda>b. b) 0 [[3], [5]] 2 2 = Inr (ms', p') \<and> snd p' 5 = 5"
proof -
  obtain ms' p' where a: "allocate_new_computed_blocks demo_ops [(), ()] ([], \<lambda>b. b) 0 [[3], [5]] 2 2 = Inr (ms', p')"
    by (cases "allocate_new_computed_blocks demo_ops [(), ()] ([], \<lambda>b. b) 0 [[3], [5]] 2 2")
      (auto simp: allocate_new_computed_blocks_def demo_ops_def)
  have t: "\<not> list_ex (\<lambda>m. op_tracked demo_ops m 0) [(), ()]" by (simp add: demo_ops_def)
  show ?thesis using allocate_computed_keeps_hits [OF demo_pool_ok t a, of 1 5] a by auto
qed

end
