(* ===== verification/Draft_Trunc.thy ===== *)
theory Draft_Trunc
  imports Py_Str
begin

text \<open>
  Cost-aware truncation of scheduled drafts (\<open>src/overlay/glm_draft_trunc.py\<close>): the policy that picks one length
  for all requests of a step from the drafter's confidences, the in-place truncation of the scheduler output, and
  the worker's state machine around it (pending draft, gate, post-hoc scoring, the ring of confidence slots).
  Floats are exact rationals; the initial price \<open>2.2 / cost * n ** 0.7\<close> needs a fractional power, which is the
  parameter \<open>pow07\<close>. CUDA events, timing and log lines are left out.
\<close>

section \<open>Knobs\<close>

definition gate_thr :: "string \<Rightarrow> rat" where
  "gate_thr raw =
     (let v = lower (strip raw)
      in if v \<in> set off_words then 0 else (case py_float v of Inl _ \<Rightarrow> 0 | Inr x \<Rightarrow> max x 0))"

definition trunc_active :: "string \<Rightarrow> bool" where
  "trunc_active raw = (lower (strip raw) \<notin> set off_words)"

section \<open>Policy\<close>

record trunc_policy =
  tp_edges :: "rat list"
  tp_g :: "rat list list"
  tp_t1 :: "int \<Rightarrow> rat option"
  tp_row_ms :: rat
  tp_lam :: "nat \<Rightarrow> rat option"
  tp_margin :: "rat option"
  tp_kmax :: nat

definition t1_default :: "int \<Rightarrow> rat option" where
  "t1_default = map_of [(2, 30), (3, 324 / 10), (4, 357 / 10), (5, 388 / 10), (6, 42), (7, 449 / 10), (8, 479 / 10)]"

text \<open>Bins below the lowest populated one take its value.\<close>

definition fill_row :: "rat list \<Rightarrow> rat list" where
  "fill_row row =
     (let low = takeWhile (\<lambda>v. v = 1 / 2) row; rest = dropWhile (\<lambda>v. v = 1 / 2) row
      in case rest of [] \<Rightarrow> row | v # _ \<Rightarrow> replicate (length low) v @ rest)"

definition policy_new :: "rat list \<Rightarrow> rat list list \<Rightarrow> (int \<times> rat) list \<Rightarrow> rat \<Rightarrow> trunc_policy" where
  "policy_new edges g c1 row_ms =
     (let base = (if c1 = [] then t1_default else map_of (rev c1))
      in \<lparr>tp_edges = edges, tp_g = map fill_row g,
          tp_t1 = (\<lambda>k. case base k of Some v \<Rightarrow> Some v | None \<Rightarrow> if 2 \<le> k \<and> k \<le> 8 then t1_default k else None),
          tp_row_ms = row_ms, tp_lam = Map.empty, tp_margin = None, tp_kmax = 0\<rparr>)"

definition tp_cost :: "trunc_policy \<Rightarrow> nat \<Rightarrow> nat \<Rightarrow> rat result" where
  "tp_cost p n q =
     (let tot = n * q
      in case tp_t1 p (int (min (max tot 2) 8)) of
           None \<Rightarrow> Inl KeyError
         | Some t \<Rightarrow> Inr (t + of_nat (tot - 8) * tp_row_ms p))"

fun expect_from :: "trunc_policy \<Rightarrow> nat \<Rightarrow> rat \<Rightarrow> rat \<Rightarrow> rat list \<Rightarrow> rat list result" where
  "expect_from p s e cum [] = Inr []"
| "expect_from p s e cum (lq # conf) =
     (let b = length (filter (\<lambda>x. x \<le> lq) (tp_edges p))
      in bind_r (py_nth (tp_g p) (int s)) (\<lambda>row.
         bind_r (py_nth row (int b)) (\<lambda>q.
         bind_r (expect_from p (Suc s) (e + cum * q) (cum * q) conf) (\<lambda>es. Inr ((e + cum * q) # es)))))"

definition expect :: "trunc_policy \<Rightarrow> rat list \<Rightarrow> rat list result" where
  "expect p conf = bind_r (expect_from p 0 1 1 conf) (\<lambda>es. Inr (1 # es))"

definition value_at :: "trunc_policy \<Rightarrow> rat list list \<Rightarrow> rat \<Rightarrow> nat \<Rightarrow> rat result" where
  "value_at p es lam len =
     bind_r (map_r (\<lambda>e. py_nth e (int len)) es) (\<lambda>xs.
     bind_r (tp_cost p (length es) (Suc len)) (\<lambda>c. Inr (sum_list xs - lam * c)))"

text \<open>The running argmax of the loop: a later length replaces the best only when strictly better.\<close>

fun best_len :: "rat \<Rightarrow> nat \<Rightarrow> (nat \<times> rat) list \<Rightarrow> rat \<times> nat" where
  "best_len best bl [] = (best, bl)"
| "best_len best bl ((len, v) # vs) = (if best < v then best_len v len vs else best_len best bl vs)"

definition very_low :: rat where
  "very_low = - (10 ^ 30)"

definition ema_alpha :: rat where
  "ema_alpha = 5 / 100"

definition tp_choose :: "(nat \<Rightarrow> rat) \<Rightarrow> trunc_policy \<Rightarrow> rat list list \<Rightarrow> nat \<Rightarrow> (trunc_policy \<times> nat) result" where
  "tp_choose pow07 p confs kmax =
     (let n = length confs
      in bind_r (map_r (\<lambda>c. expect p (take kmax c)) confs) (\<lambda>es.
         bind_r (bind_r (tp_cost p 1 4) (\<lambda>c. if c = 0 then Inl ZeroDivisionError else Inr (22 / 10 / c * pow07 n))) (\<lambda>lam0.
         let lam = (case tp_lam p n of None \<Rightarrow> lam0 | Some l \<Rightarrow> l)
         in bind_r (map_r (\<lambda>len. map_sum id (Pair len) (value_at p es lam len)) [1..<Suc kmax]) (\<lambda>vals.
            let bl = snd (best_len very_low kmax vals); vs = map snd vals
            in bind_r (map_r (\<lambda>e. py_nth e (int bl)) es) (\<lambda>xs.
               bind_r (tp_cost p n (Suc bl)) (\<lambda>c.
               if c = 0 then Inl ZeroDivisionError
               else Inr (p\<lparr>tp_lam := (tp_lam p)(n \<mapsto> (1 - ema_alpha) * lam + ema_alpha * sum_list xs / c),
                           tp_margin := (if 1 < kmax then Some (last vs - Max (set (butlast vs))) else None),
                           tp_kmax := kmax\<rparr>, bl)))))))"

section \<open>The scheduler output\<close>

record trunc_so =
  ts_spec :: "(string \<times> int list) list"
  ts_structured :: bool
  ts_num :: "string \<Rightarrow> int"
  ts_total :: int

definition live_rows :: "trunc_so \<Rightarrow> (string \<times> int list) list" where
  "live_rows so = filter (\<lambda>x. snd x \<noteq> []) (ts_spec so)"

definition trunc_eligible :: "trunc_so \<Rightarrow> string list \<Rightarrow> nat option" where
  "trunc_eligible so rids =
     (if ts_spec so = [] \<or> ts_structured so then None
      else let live = live_rows so
           in if live = [] \<or> list_ex (\<lambda>x. fst x \<notin> set rids) live then None
              else (let ks = remdups (map (\<lambda>x. length (snd x)) live)
                    in if length ks = 1 then Some (hd ks) else None))"

text \<open>The cut itself: every live row to \<open>len\<close> drafts, its scheduled tokens and the total reduced by what went.\<close>

fun cut_rows :: "nat \<Rightarrow> (string \<times> int list) list \<Rightarrow> trunc_so \<Rightarrow> int \<Rightarrow> trunc_so \<times> int" where
  "cut_rows len [] so gone = (so, gone)"
| "cut_rows len ((r, xs) # rows) so gone =
     (let d = int (length xs) - int len
      in cut_rows len rows
           (so\<lparr>ts_spec := map (\<lambda>x. if fst x = r then (r, take len xs) else x) (ts_spec so),
               ts_num := (ts_num so)(r := ts_num so r - d)\<rparr>) (gone + d))"

definition truncate_so ::
    "(trunc_policy \<Rightarrow> rat list list \<Rightarrow> nat \<Rightarrow> (trunc_policy \<times> nat) result) \<Rightarrow> trunc_so \<Rightarrow> (string \<times> rat list) list \<Rightarrow>
     trunc_policy \<Rightarrow> (trunc_so \<times> trunc_policy \<times> nat option) result" where
  "truncate_so choose_fn so confs p =
     (if ts_spec so = [] \<or> ts_structured so then Inr (so, p, None)
      else let rows = live_rows so
           in if rows = [] \<or> list_ex (\<lambda>x. map_of confs (fst x) = None) rows then Inr (so, p, None)
              else (case remdups (map (\<lambda>x. length (snd x)) rows) of
                 [kmax] \<Rightarrow>
                   bind_r (choose_fn p (map (\<lambda>x. the (map_of confs (fst x))) rows) kmax) (\<lambda>(p', len).
                     if kmax \<le> len then Inr (so, p', Some len)
                     else (case cut_rows len rows so 0 of
                             (so', gone) \<Rightarrow> Inr (so'\<lparr>ts_total := ts_total so' - gone\<rparr>, p', Some len)))
               | _ \<Rightarrow> Inr (so, p, None)))"

section \<open>The worker\<close>

record pend_draft =
  pd_n :: nat
  pd_rids :: "string list"
  pd_slot :: nat

record unscored_draft =
  us_n :: nat
  us_idx :: "nat list"
  us_slot :: nat
  us_kmax :: nat

record worker =
  w_policy :: "trunc_policy option"
  w_pend :: "pend_draft option"
  w_ring :: "nat \<Rightarrow> rat list list"
  w_slot_i :: nat
  w_unscored :: "unscored_draft option"
  w_last :: "(nat \<times> rat option \<times> nat) option"
  w_pols :: "int \<Rightarrow> trunc_policy option"
  w_v_last :: "int option"

definition ring_size :: nat where
  "ring_size = 3"

definition worker_new :: "trunc_policy option \<Rightarrow> worker" where
  "worker_new p = \<lparr>w_policy = p, w_pend = None, w_ring = (\<lambda>_. []), w_slot_i = 0, w_unscored = None, w_last = None,
     w_pols = Map.empty, w_v_last = None\<rparr>"

text \<open>
  \<open>propose\<close>: \<open>skip\<close> is its early return. \<open>grow\<close> says that the ring must be (re)allocated for this batch: it drops an
  unread slot first.
\<close>

definition w_propose :: "bool \<Rightarrow> bool \<Rightarrow> string list \<Rightarrow> rat list list \<Rightarrow> worker \<Rightarrow> worker" where
  "w_propose skip grow rids conf w =
     (let w0 = w\<lparr>w_pend := None\<rparr>
      in if skip \<or> w_policy w = None \<or> rids = [] then w0
         else let w1 = (if grow then (if w_unscored w0 \<noteq> None then w0\<lparr>w_unscored := None, w_last := None\<rparr> else w0)\<lparr>w_ring := (\<lambda>_. [])\<rparr>
                        else w0);
                  slot = w_slot_i w1 mod ring_size
              in w1\<lparr>w_slot_i := Suc (w_slot_i w1), w_ring := (w_ring w1)(slot := conf),
                    w_pend := Some \<lparr>pd_n = length rids, pd_rids = rids, pd_slot = slot\<rparr>\<rparr>)"

text \<open>What one call of \<open>execute_model\<close> sees: the knobs, the variant and whether the device selects by itself.\<close>

record exec_env =
  ee_variant :: int
  ee_device :: bool
  ee_thr :: rat
  ee_early :: bool

text \<open>The margin test of the gate; no margin is Python's infinity.\<close>

definition margin_ge :: "rat option \<Rightarrow> rat \<Rightarrow> bool" where
  "margin_ge m thr = (case m of None \<Rightarrow> True | Some x \<Rightarrow> thr \<le> x)"

definition gate_open :: "rat \<Rightarrow> (nat \<times> rat option \<times> nat) option \<Rightarrow> nat \<Rightarrow> bool" where
  "gate_open thr lst kmax =
     (0 < thr \<and> (case lst of None \<Rightarrow> False | Some (len, m, k) \<Rightarrow> len = k \<and> k = kmax \<and> margin_ge m thr))"

type_synonym chooser = "trunc_policy \<Rightarrow> rat list list \<Rightarrow> nat \<Rightarrow> (trunc_policy \<times> nat) result"

text \<open>The policy of the current variant; a change of variant forgets the gate's memory.\<close>

definition enter_variant :: "int \<Rightarrow> trunc_policy \<Rightarrow> worker \<Rightarrow> worker \<times> trunc_policy" where
  "enter_variant v tmpl w =
     (let pol = (case w_pols w v of None \<Rightarrow> tmpl | Some p \<Rightarrow> p);
          w1 = w\<lparr>w_pols := (w_pols w)(v \<mapsto> pol)\<rparr>
      in (if w_v_last w1 \<noteq> Some v then w1\<lparr>w_v_last := Some v, w_unscored := None, w_last := None\<rparr> else w1, pol))"

definition set_pol :: "int \<Rightarrow> trunc_policy \<Rightarrow> worker \<Rightarrow> worker" where
  "set_pol v p w = w\<lparr>w_pols := (w_pols w)(v \<mapsto> p)\<rparr>"

text \<open>A draft gated last step is scored now.\<close>

definition score_posthoc :: "chooser \<Rightarrow> int \<Rightarrow> trunc_policy \<Rightarrow> worker \<Rightarrow> (worker \<times> trunc_policy) result" where
  "score_posthoc choose_fn v pol w =
     (case w_unscored w of
        None \<Rightarrow> Inr (w, pol)
      | Some u \<Rightarrow>
          bind_r (map_r (\<lambda>i. py_nth (take (us_n u) (w_ring w (us_slot u))) (int i)) (us_idx u)) (\<lambda>confs.
          bind_r (choose_fn pol confs (us_kmax u)) (\<lambda>(p', len).
            Inr (set_pol v p' (w\<lparr>w_unscored := None, w_last := Some (len, tp_margin p', us_kmax u)\<rparr>), p'))))"

datatype exec_mode = M_none | M_device | M_early | M_gated | M_untouched | M_waited

definition positions :: "string list \<Rightarrow> string list \<Rightarrow> nat list" where
  "positions rids rs = map (\<lambda>r. the (map_of (rev (zip rids [0..<length rids])) r)) rs"

definition w_execute :: "chooser \<Rightarrow> bool \<Rightarrow> exec_env \<Rightarrow> trunc_so \<Rightarrow> worker \<Rightarrow> (worker \<times> trunc_so \<times> exec_mode) result" where
  "w_execute choose_fn skip env so w0 =
     (case w_policy w0 of
        None \<Rightarrow> Inr (w0, so, M_none)
      | Some tmpl \<Rightarrow>
      if skip then Inr (w0, so, M_none)
      else let v = ee_variant env in
      (case enter_variant v tmpl w0 of (w1, pol) \<Rightarrow>
       bind_r (score_posthoc choose_fn v pol w1) (\<lambda>(w2, pol2).
       let pend = w_pend w2; w3 = w2\<lparr>w_pend := None\<rparr>
       in if ee_device env then Inr (w3\<lparr>w_unscored := None, w_last := None\<rparr>, so, M_device)
          else (case pend of
             None \<Rightarrow> Inr (w3, so, M_none)
           | Some d \<Rightarrow>
               let km = trunc_eligible so (pd_rids d)
               in if km = None \<and> ee_early env then Inr (w3\<lparr>w_last := None\<rparr>, so, M_early)
                  else if (case km of None \<Rightarrow> False | Some k \<Rightarrow> gate_open (ee_thr env) (w_last w3) k)
                  then Inr (w3\<lparr>w_unscored := Some \<lparr>us_n = pd_n d, us_idx = positions (pd_rids d) (map fst (live_rows so)),
                              us_slot = pd_slot d, us_kmax = the km\<rparr>\<rparr>, so, M_gated)
                  else bind_r (truncate_so choose_fn so (zip (pd_rids d) (take (pd_n d) (w_ring w3 (pd_slot d)))) pol2)
                         (\<lambda>(so', pol3, len).
                       case len of
                         None \<Rightarrow> Inr (w3\<lparr>w_last := None\<rparr>, so', M_untouched)
                       | Some l \<Rightarrow> Inr (set_pol v pol3 (w3\<lparr>w_last := Some (l, tp_margin pol3, tp_kmax pol3)\<rparr>), so', M_waited))))))"

section \<open>The scheduler's default length while truncation is active\<close>

definition default_k_property :: "bool \<Rightarrow> int \<Rightarrow> int option \<Rightarrow> int option" where
  "default_k_property act engine_k stored =
     (if act then (if engine_k \<noteq> 0 then Some engine_k else stored) else stored)"

section \<open>Properties of the policy\<close>

lemma best_len_props:
  "best_len best bl vs = (b, l) \<Longrightarrow>
   best \<le> b \<and> (\<forall>x\<in>set vs. snd x \<le> b) \<and>
   ((b = best \<and> l = bl \<and> (\<forall>x\<in>set vs. snd x \<le> best)) \<or>
    (\<exists>i<length vs. vs ! i = (l, b) \<and> best < b \<and> (\<forall>j<i. snd (vs ! j) < b)))"
proof (induction vs arbitrary: best bl)
  case Nil
  then show ?case by simp
next
  case (Cons x vs)
  obtain len v where x: "x = (len, v)" by (cases x)
  show ?case
  proof (cases "best < v")
    case True
    have e: "best_len v len vs = (b, l)" using Cons.prems True by (simp add: x)
    note I = Cons.IH [OF e]
    from I consider "b = v" "l = len" "\<forall>x\<in>set vs. snd x \<le> v" |
      i where "i < length vs" "vs ! i = (l, b)" "v < b" "\<forall>j<i. snd (vs ! j) < b" by blast
    then show ?thesis
    proof cases
      case 1
      then show ?thesis using True by (auto simp: x intro!: exI [of _ 0])
    next
      case 2
      then have "\<forall>j<Suc i. snd ((x # vs) ! j) < b" by (auto simp: x less_Suc_eq_0_disj)
      moreover have "(x # vs) ! Suc i = (l, b)" "Suc i < length (x # vs)" using 2 by simp_all
      ultimately have "\<exists>i<length (x # vs). (x # vs) ! i = (l, b) \<and> best < b \<and> (\<forall>j<i. snd ((x # vs) ! j) < b)"
        using True 2(3) by (meson less_trans)
      then show ?thesis using I True by (auto simp: x)
    qed
  next
    case False
    have e: "best_len best bl vs = (b, l)" using Cons.prems False by (simp add: x)
    note I = Cons.IH [OF e]
    from I consider "b = best" "l = bl" "\<forall>x\<in>set vs. snd x \<le> best" |
      i where "i < length vs" "vs ! i = (l, b)" "best < b" "\<forall>j<i. snd (vs ! j) < b" by blast
    then show ?thesis
    proof cases
      case 1
      then show ?thesis using False by (auto simp: x)
    next
      case 2
      then have "\<forall>j<Suc i. snd ((x # vs) ! j) < b" using False by (auto simp: x less_Suc_eq_0_disj)
      moreover have "(x # vs) ! Suc i = (l, b)" "Suc i < length (x # vs)" using 2 by simp_all
      ultimately have "\<exists>i<length (x # vs). (x # vs) ! i = (l, b) \<and> best < b \<and> (\<forall>j<i. snd ((x # vs) ! j) < b)"
        using 2(3) by blast
      then show ?thesis using I False 2 by (auto simp: x)
    qed
  qed
qed

text \<open>
  The chosen length is within the scheduled one and optimal: no length of the step has a higher value (expected
  tokens of all requests minus the price of the step), and every shorter length is strictly worse.
\<close>

lemma tp_choose_optimal:
  assumes "tp_choose pow07 p confs kmax = Inr (p', len)" and "1 \<le> kmax"
    and "map_r (\<lambda>c. expect p (take kmax c)) confs = Inr es"
    and "lam = (case tp_lam p (length confs) of Some l \<Rightarrow> l
                | None \<Rightarrow> (case tp_cost p 1 4 of Inr c \<Rightarrow> 22 / 10 / c * pow07 (length confs) | Inl _ \<Rightarrow> 0))"
    and "\<forall>k v. value_at p es lam k = Inr v \<longrightarrow> very_low < v"
  shows "1 \<le> len \<and> len \<le> kmax \<and>
         (\<exists>best. value_at p es lam len = Inr best \<and>
            (\<forall>k. 1 \<le> k \<and> k \<le> kmax \<longrightarrow> (\<exists>v. value_at p es lam k = Inr v \<and> v \<le> best \<and> (k < len \<longrightarrow> v < best))))"
proof -
  let ?ks = "[1..<Suc kmax]"
  obtain vals where vals: "map_r (\<lambda>k. map_sum id (Pair k) (value_at p es lam k)) ?ks = Inr vals"
    and len: "len = snd (best_len very_low kmax vals)"
    using assms(1,3,4) by (cases "tp_lam p (length confs)"; cases "tp_cost p 1 4")
      (auto simp: tp_choose_def Let_def bind_r_Inr_iff split: if_splits)
  have at: "\<exists>v. value_at p es lam (Suc i) = Inr v \<and> vals ! i = (Suc i, v)" if "i < kmax" for i
  proof -
    have l: "i < length ?ks" using that by simp
    have n: "?ks ! i = Suc i" using that by (simp add: nth_upt del: upt_Suc)
    have "\<forall>i<length ?ks. map_sum id (Pair (?ks ! i)) (value_at p es lam (?ks ! i)) = Inr (vals ! i)"
      using vals unfolding map_r_Inr_iff by blast
    then have "map_sum id (Pair (?ks ! i)) (value_at p es lam (?ks ! i)) = Inr (vals ! i)" using l by blast
    then have "map_sum id (Pair (Suc i)) (value_at p es lam (Suc i)) = Inr (vals ! i)" unfolding n .
    then show ?thesis by (cases "value_at p es lam (Suc i)") auto
  qed
  have lv: "length vals = kmax" using vals by (simp add: map_r_Inr_iff del: upt_Suc)
  obtain b where b: "best_len very_low kmax vals = (b, len)" using len by (metis prod.collapse)
  have v0: "very_low < snd (vals ! 0)" using at [of 0] assms(2,5) by auto
  have "vals ! 0 \<in> set vals" using lv assms(2) by simp
  with v0 have "\<not> (\<forall>x\<in>set vals. snd x \<le> very_low)" by (auto simp: not_le)
  then obtain i where i: "i < length vals" "vals ! i = (len, b)" "\<forall>j<i. snd (vals ! j) < b"
    and top: "\<forall>x\<in>set vals. snd x \<le> b"
    using best_len_props [OF b] by blast
  have li: "len = Suc i" "value_at p es lam len = Inr b" using at [of i] i lv by auto
  have "\<exists>v. value_at p es lam k = Inr v \<and> v \<le> b \<and> (k < len \<longrightarrow> v < b)" if k: "1 \<le> k" "k \<le> kmax" for k
  proof -
    obtain j where j: "k = Suc j" using k(1) by (cases k) auto
    then obtain v where v: "value_at p es lam k = Inr v" "vals ! j = (k, v)" using at [of j] k(2) by auto
    have "j < length vals" using j k(2) lv by simp
    then have "v \<le> b" using top v(2) nth_mem by fastforce
    moreover have "v < b" if "k < len" using i(3) that j v(2) li(1) by fastforce
    ultimately show ?thesis using v(1) by blast
  qed
  then show ?thesis using li i(1) lv by auto
qed

definition demo_policy :: trunc_policy where
  "demo_policy = policy_new [] [[9 / 10], [8 / 10], [1 / 10]] [] (12 / 10)"

lemma demo_choose: "map_sum id snd (tp_choose (\<lambda>_. 1) demo_policy [[0, 0, 0]] 3) = Inr 2"
  by code_simp

section \<open>Properties of the truncation\<close>

definition drafts_cut :: "nat \<Rightarrow> (string \<times> int list) list \<Rightarrow> string \<Rightarrow> int" where
  "drafts_cut len rows r = (case map_of rows r of None \<Rightarrow> 0 | Some xs \<Rightarrow> int (length xs) - int len)"

lemma cut_rows_props:
  "distinct (map fst rows) \<Longrightarrow> cut_rows len rows so g = (so', g') \<Longrightarrow>
   ts_spec so' = map (\<lambda>x. if fst x \<in> fst ` set rows then (fst x, take len (the (map_of rows (fst x)))) else x) (ts_spec so) \<and>
   (\<forall>r. ts_num so' r = ts_num so r - drafts_cut len rows r) \<and>
   ts_total so' = ts_total so \<and> ts_structured so' = ts_structured so \<and>
   g' = g + (\<Sum>x\<leftarrow>rows. int (length (snd x)) - int len)"
proof (induction rows arbitrary: so g)
  case Nil
  then show ?case by (simp add: drafts_cut_def)
next
  case (Cons x rows)
  obtain r xs where x: "x = (r, xs)" by (cases x)
  let ?d = "int (length xs) - int len"
  let ?so = "so\<lparr>ts_spec := map (\<lambda>x. if fst x = r then (r, take len xs) else x) (ts_spec so),
                ts_num := (ts_num so)(r := ts_num so r - ?d)\<rparr>"
  have nr: "r \<notin> fst ` set rows" and d: "distinct (map fst rows)" using Cons.prems(1) by (auto simp: x)
  have c: "cut_rows len rows ?so (g + ?d) = (so', g')" using Cons.prems(2) by (simp add: x Let_def)
  note IH = Cons.IH [OF d c]
  have mr: "map_of rows r = None" using nr by (simp add: map_of_eq_None_iff)
  have "ts_num so' r' = ts_num so r' - drafts_cut len (x # rows) r'" for r'
    using IH mr by (simp add: x drafts_cut_def)
  moreover have "ts_spec so' = map (\<lambda>y. if fst y \<in> fst ` set (x # rows)
      then (fst y, take len (the (map_of (x # rows) (fst y)))) else y) (ts_spec so)"
    using IH nr by (auto simp: x comp_def)
  ultimately show ?case using IH by (simp add: x)
qed

lemma distinct_live: "distinct (map fst (ts_spec so)) \<Longrightarrow> distinct (map fst (live_rows so))"
  by (simp add: live_rows_def distinct_map_filter)

lemma map_of_live:
  "distinct (map fst (ts_spec so)) \<Longrightarrow> (r, xs) \<in> set (ts_spec so) \<Longrightarrow>
   map_of (live_rows so) r = (if xs = [] then None else Some xs)"
proof -
  assume d: "distinct (map fst (ts_spec so))" and m: "(r, xs) \<in> set (ts_spec so)"
  show ?thesis
  proof (cases "xs = []")
    case True
    have "(r, ys) \<notin> set (live_rows so)" for ys
      using d m True by (auto simp: live_rows_def dest: eq_key_imp_eq_value)
    then have "map_of (live_rows so) r = None" by (metis map_of_SomeD not_None_eq)
    then show ?thesis using True by simp
  next
    case False
    then have "(r, xs) \<in> set (live_rows so)" using m by (simp add: live_rows_def)
    then show ?thesis using False distinct_live [OF d] by simp
  qed
qed

lemma remdups_single: "remdups xs = [k] \<Longrightarrow> \<forall>x\<in>set xs. x = k"
  by (metis list.set(1,2) set_remdups singletonD)

text \<open>
  Truncation keeps the step's books: when it decides on a length, every request's drafts are the first that
  many of the scheduled ones, its scheduled tokens shrink by exactly the drafts it lost, requests without drafts
  are untouched, and the step's total shrinks by the sum.
\<close>

lemma truncate_keeps_books:
  assumes "truncate_so choose_fn so confs p = Inr (so', p', Some len)" and "distinct (map fst (ts_spec so))"
  shows "ts_spec so' = map (\<lambda>(r, xs). (r, take len xs)) (ts_spec so) \<and>
         (\<forall>(r, xs)\<in>set (ts_spec so). ts_num so' r = ts_num so r - (int (length xs) - int (length (take len xs)))) \<and>
         (\<forall>r. r \<notin> fst ` set (ts_spec so) \<longrightarrow> ts_num so' r = ts_num so r) \<and>
         ts_total so' = ts_total so - (\<Sum>(r, xs)\<leftarrow>ts_spec so. int (length xs) - int (length (take len xs)))"
proof -
  let ?rows = "live_rows so"
  obtain kmax where k: "remdups (map (\<lambda>x. length (snd x)) ?rows) = [kmax]"
    and c: "choose_fn p (map (\<lambda>x. the (map_of confs (fst x))) ?rows) kmax = Inr (p', len)"
    and so': "so' = (if kmax \<le> len then so else (fst (cut_rows len ?rows so 0))
                \<lparr>ts_total := ts_total (fst (cut_rows len ?rows so 0)) - snd (cut_rows len ?rows so 0)\<rparr>)"
    using assms(1)
    by (auto simp: truncate_so_def Let_def bind_r_Inr_iff split: if_splits list.splits prod.splits)
  have klen: "\<forall>x\<in>set ?rows. length (snd x) = kmax" using remdups_single [OF k] by auto
  have all: "xs = [] \<or> length xs = kmax" if "(r, xs) \<in> set (ts_spec so)" for r xs
    using klen that by (force simp: live_rows_def)
  let ?lost = "\<lambda>x. int (length (snd x)) - int (length (take len (snd x)))"
  have sum: "(\<Sum>(r, xs)\<leftarrow>ts_spec so. int (length xs) - int (length (take len xs))) = (\<Sum>x\<leftarrow>?rows. ?lost x)"
    using sum_list_map_filter [of "ts_spec so" "\<lambda>x. snd x \<noteq> []" ?lost]
    by (simp add: live_rows_def case_prod_beta')
  show ?thesis
  proof (cases "kmax \<le> len")
    case True
    have t: "take len xs = xs" if "(r, xs) \<in> set (ts_spec so)" for r xs using all [OF that] True by auto
    have "map (\<lambda>(r, xs). (r, take len xs)) (ts_spec so) = map (\<lambda>x. x) (ts_spec so)"
      by (rule map_cong) (auto dest: t)
    moreover have "(\<Sum>x\<leftarrow>?rows. ?lost x) = (\<Sum>x\<leftarrow>?rows. 0)"
      using klen True by (intro arg_cong [where f = sum_list] map_cong) auto
    ultimately show ?thesis using True so' t sum by auto
  next
    case False
    obtain so1 g where cr: "cut_rows len ?rows so 0 = (so1, g)" by fastforce
    note C = cut_rows_props [OF distinct_live [OF assms(2)] cr]
    have so'': "so' = so1\<lparr>ts_total := ts_total so1 - g\<rparr>" using so' False cr by simp
    have row: "(if r \<in> fst ` set ?rows then (r, take len (the (map_of ?rows r))) else (r, xs)) = (r, take len xs)"
      if m: "(r, xs) \<in> set (ts_spec so)" for r xs
    proof (cases "xs = []")
      case True
      then show ?thesis using map_of_live [OF assms(2) m] by (simp add: map_of_eq_None_iff)
    next
      case False
      then have v: "map_of ?rows r = Some xs" using map_of_live [OF assms(2) m] by simp
      then have "r \<in> fst ` set ?rows" by (force dest: map_of_SomeD)
      then show ?thesis by (simp add: v)
    qed
    have spec: "ts_spec so' = map (\<lambda>(r, xs). (r, take len xs)) (ts_spec so)"
    proof -
      have "ts_spec so' = map (\<lambda>x. if fst x \<in> fst ` set ?rows then (fst x, take len (the (map_of ?rows (fst x)))) else x) (ts_spec so)"
        using C by (simp add: so'')
      also have "\<dots> = map (\<lambda>(r, xs). (r, take len xs)) (ts_spec so)"
      proof (rule map_cong [OF refl])
        fix x assume m: "x \<in> set (ts_spec so)"
        obtain r xs where x: "x = (r, xs)" by (cases x)
        show "(if fst x \<in> fst ` set ?rows then (fst x, take len (the (map_of ?rows (fst x)))) else x) =
              (case x of (r, xs) \<Rightarrow> (r, take len xs))"
          unfolding x fst_conv prod.case using row m unfolding x by blast
      qed
      finally show ?thesis .
    qed
    have num: "ts_num so' r = ts_num so r - (int (length xs) - int (length (take len xs)))"
      if m: "(r, xs) \<in> set (ts_spec so)" for r xs
      using C map_of_live [OF assms(2) m] all [OF m] False by (auto simp: so'' drafts_cut_def)
    have oth: "ts_num so' r = ts_num so r" if "r \<notin> fst ` set (ts_spec so)" for r
    proof -
      have "r \<notin> fst ` set ?rows" using that by (auto simp: live_rows_def)
      then show ?thesis using C by (simp add: so'' drafts_cut_def map_of_eq_None_iff [THEN iffD2])
    qed
    have "(\<Sum>x\<leftarrow>?rows. int (length (snd x)) - int len) = (\<Sum>x\<leftarrow>?rows. ?lost x)"
      using klen False by (intro arg_cong [where f = sum_list] map_cong) auto
    then have "ts_total so' = ts_total so - (\<Sum>x\<leftarrow>?rows. ?lost x)" using C by (simp add: so'')
    then show ?thesis using spec num oth sum by auto
  qed
qed

definition demo_so :: trunc_so where
  "demo_so = \<lparr>ts_spec = [(''a'', [1, 2, 3]), (''b'', []), (''c'', [4, 5, 6])], ts_structured = False,
              ts_num = (\<lambda>_. 4), ts_total = 12\<rparr>"

lemma remdups_length_1: "length (remdups xs) = 1 \<longleftrightarrow> (\<exists>k. remdups xs = [k])"
  by (cases "remdups xs") auto

text \<open>
  The gate and the truncation look at the same steps: \<open>eligible\<close> returns nothing exactly when \<open>truncate\<close> leaves the
  step untouched, and the length it returns is the one \<open>truncate\<close> hands to the policy.
\<close>

lemma eligible_same_skips:
  "case trunc_eligible so (map fst confs) of
     None \<Rightarrow> truncate_so choose_fn so confs p = Inr (so, p, None)
   | Some kmax \<Rightarrow>
       (\<forall>e. choose_fn p (map (\<lambda>x. the (map_of confs (fst x))) (live_rows so)) kmax = Inl e \<longrightarrow>
            truncate_so choose_fn so confs p = Inl e) \<and>
       (\<forall>p' len. choose_fn p (map (\<lambda>x. the (map_of confs (fst x))) (live_rows so)) kmax = Inr (p', len) \<longrightarrow>
            (\<exists>so'. truncate_so choose_fn so confs p = Inr (so', p', Some len)))"
proof -
  have none: "map_of confs r = None \<longleftrightarrow> r \<notin> set (map fst confs)" for r by (simp add: map_of_eq_None_iff)
  show ?thesis
  proof (cases "trunc_eligible so (map fst confs)")
    case None
    then show ?thesis
      unfolding truncate_so_def trunc_eligible_def Let_def none
      by (auto split: if_splits list.splits simp: remdups_length_1)
  next
    case (Some kmax)
    then have "remdups (map (\<lambda>x. length (snd x)) (live_rows so)) = [kmax]"
      by (cases "remdups (map (\<lambda>x. length (snd x)) (live_rows so))")
        (auto simp: trunc_eligible_def Let_def split: if_splits)
    then show ?thesis
      using Some unfolding truncate_so_def trunc_eligible_def Let_def none
      by (auto split: if_splits prod.splits)
  qed
qed

section \<open>The ring of confidence slots\<close>

lemma enter_variant_keeps:
  "enter_variant v tmpl w = (w1, pol) \<Longrightarrow>
   w_ring w1 = w_ring w \<and> w_slot_i w1 = w_slot_i w \<and> w_pend w1 = w_pend w \<and> w_policy w1 = w_policy w"
  by (auto simp: enter_variant_def Let_def split: if_splits)

lemma score_posthoc_keeps:
  "score_posthoc c v pol w = Inr (w2, p2) \<Longrightarrow>
   w_ring w2 = w_ring w \<and> w_slot_i w2 = w_slot_i w \<and> w_pend w2 = w_pend w \<and> w_policy w2 = w_policy w \<and>
   w_unscored w2 = None"
  by (auto simp: score_posthoc_def set_pol_def bind_r_Inr_iff split: option.splits)

text \<open>After a step that was not skipped, the only unread slot is the one of the draft that was pending.\<close>

lemma w_execute_unread:
  assumes "w_execute c False env so w = Inr (w', so', m)" "w_policy w \<noteq> None"
  shows "w_ring w' = w_ring w \<and> w_slot_i w' = w_slot_i w \<and> w_pend w' = None \<and> w_policy w' = w_policy w \<and>
    (\<forall>u. w_unscored w' = Some u \<longrightarrow> (\<exists>d. w_pend w = Some d \<and> us_slot u = pd_slot d \<and> us_n u = pd_n d))"
proof -
  obtain tmpl where t: "w_policy w = Some tmpl" using assms(2) by blast
  obtain w1 pol where e: "enter_variant (ee_variant env) tmpl w = (w1, pol)" by fastforce
  obtain w2 p2 where s: "score_posthoc c (ee_variant env) pol w1 = Inr (w2, p2)"
    using assms(1) by (auto simp: w_execute_def t e Let_def bind_r_Inr_iff)
  note K = enter_variant_keeps [OF e] score_posthoc_keeps [OF s]
  show ?thesis
    using assms(1) K
    by (auto simp: w_execute_def t e s Let_def set_pol_def bind_r_Inr_iff split: if_splits option.splits)
qed

lemma w_execute_skip: "w_execute c True env so w = Inr (w, so, M_none)"
  by (simp add: w_execute_def split: option.split)

lemma w_execute_no_policy: "w_policy w = None \<Longrightarrow> w_execute c skip env so w = Inr (w, so, M_none)"
  by (simp add: w_execute_def)

text \<open>
  The runs of the worker: a step executes and may then propose; a step the hook skips for \<open>execute\<close> (a dummy run, the
  knob off) is skipped for \<open>propose\<close> as well. The log \<open>hist\<close> is the history of the confidences the drafter wrote.
\<close>

definition writes :: "bool \<Rightarrow> string list \<Rightarrow> worker \<Rightarrow> bool" where
  "writes skip rids w = (\<not> skip \<and> w_policy w \<noteq> None \<and> rids \<noteq> [])"

inductive w_reach :: "chooser \<Rightarrow> worker \<Rightarrow> rat list list list \<Rightarrow> bool" for c :: chooser where
  start: "w_reach c (worker_new p) []"
| execute_only: "w_reach c w hist \<Longrightarrow> w_execute c skip env so w = Inr (w', so', m) \<Longrightarrow> w_reach c w' hist"
| execute_propose: "w_reach c w hist \<Longrightarrow> w_execute c skip env so w = Inr (w', so', m) \<Longrightarrow> (skip \<longrightarrow> skip') \<Longrightarrow>
    w_reach c (w_propose skip' grow rids conf w') (if writes skip' rids w' then hist @ [conf] else hist)"

definition ring_ok :: "worker \<Rightarrow> rat list list list \<Rightarrow> bool" where
  "ring_ok w hist \<longleftrightarrow>
     w_slot_i w = length hist \<and>
     (\<forall>d. w_pend w = Some d \<longrightarrow> hist \<noteq> [] \<and> pd_slot d = (length hist - 1) mod ring_size \<and> w_ring w (pd_slot d) = last hist) \<and>
     (\<forall>u. w_unscored w = Some u \<longrightarrow>
        (\<exists>j<length hist. length hist \<le> j + 2 \<and> us_slot u = j mod ring_size \<and> w_ring w (us_slot u) = hist ! j))"

text \<open>\<open>ring_fresh\<close>: what is unread right after an execute is at most the newest slot, so the next write spares it.\<close>

definition ring_fresh :: "worker \<Rightarrow> rat list list list \<Rightarrow> bool" where
  "ring_fresh w hist \<longleftrightarrow> ring_ok w hist \<and>
     (\<forall>u. w_unscored w = Some u \<longrightarrow> hist \<noteq> [] \<and> us_slot u = (length hist - 1) mod ring_size \<and> w_ring w (us_slot u) = last hist)"

lemma ring_ok_execute:
  assumes "ring_ok w hist" "w_execute c False env so w = Inr (w', so', m)" "w_policy w \<noteq> None"
  shows "ring_fresh w' hist"
proof -
  note E = w_execute_unread [OF assms(2,3)]
  have fresh: "hist \<noteq> [] \<and> us_slot u = (length hist - 1) mod ring_size \<and> w_ring w' (us_slot u) = last hist"
    if "w_unscored w' = Some u" for u
    using E that assms(1) by (auto simp: ring_ok_def)
  have "\<exists>j<length hist. length hist \<le> j + 2 \<and> us_slot u = j mod ring_size \<and> w_ring w' (us_slot u) = hist ! j"
    if "w_unscored w' = Some u" for u
    by (rule exI [of _ "length hist - 1"]) (use fresh [OF that] in \<open>auto simp: last_conv_nth\<close>)
  moreover have "w_slot_i w' = length hist" "w_pend w' = None" using E assms(1) by (auto simp: ring_ok_def)
  ultimately have "ring_ok w' hist" by (simp add: ring_ok_def)
  then show ?thesis using fresh unfolding ring_fresh_def by blast
qed

lemma next_slot_differs: "hist \<noteq> [] \<Longrightarrow> length hist mod ring_size \<noteq> (length hist - 1) mod ring_size"
  by (cases "length hist") (auto simp: ring_size_def mod_Suc)

lemma ring_fresh_propose:
  assumes f: "ring_fresh w hist" and wr: "writes skip rids w"
  shows "ring_ok (w_propose skip grow rids conf w) (hist @ [conf])"
proof -
  have i: "w_slot_i w = length hist" using f by (simp add: ring_fresh_def ring_ok_def)
  have u: "hist \<noteq> [] \<and> us_slot u = (length hist - 1) mod ring_size \<and> w_ring w (us_slot u) = last hist"
    if "w_unscored w = Some u" for u using f that unfolding ring_fresh_def by blast
  show ?thesis
  proof (cases "w_unscored w")
    case None
    then show ?thesis using wr i by (auto simp: writes_def w_propose_def Let_def ring_ok_def)
  next
    case (Some v)
    note U = u [OF Some]
    have ne: "length hist mod ring_size \<noteq> us_slot v" using U next_slot_differs [of hist] by metis
    have j: "(hist @ [conf]) ! (length hist - 1) = last hist" using U by (simp add: nth_append last_conv_nth)
    have "\<exists>j<length (hist @ [conf]). length (hist @ [conf]) \<le> j + 2 \<and> us_slot v = j mod ring_size \<and> last hist = (hist @ [conf]) ! j"
      by (rule exI [of _ "length hist - 1"]) (use U j in auto)
    then show ?thesis using wr i U Some ne by (auto simp: writes_def w_propose_def Let_def ring_ok_def)
  qed
qed

lemma ring_ok_propose_skip:
  "ring_ok w hist \<Longrightarrow> \<not> writes skip rids w \<Longrightarrow> ring_ok (w_propose skip grow rids conf w) hist"
  by (auto simp: writes_def w_propose_def Let_def ring_ok_def)

text \<open>
  C18. No confidence is lost in the ring: in every reachable state of the worker a draft that is still to be decided (the
  pending one, or a gated one that waits for its post-hoc score) finds in its slot exactly the confidences the drafter
  wrote for it, and a gated draft is at most two drafts old.
\<close>

theorem unread_slots_intact:
  assumes "w_reach c w hist"
  shows "ring_ok w hist"
  using assms
proof induction
  case (start p)
  show ?case by (simp add: ring_ok_def worker_new_def)
next
  case (execute_only w hist skip env so w' so' m)
  then show ?case
    using ring_ok_execute [OF execute_only.IH] w_execute_skip w_execute_no_policy
    by (cases skip; cases "w_policy w = None") (auto simp: ring_fresh_def)
next
  case (execute_propose w hist skip env so w' so' m skip' grow rids conf)
  show ?case
  proof (cases "skip \<or> w_policy w = None")
    case True
    then have "w' = w" using execute_propose.hyps w_execute_skip w_execute_no_policy by fastforce
    then show ?thesis
      using True execute_propose.IH execute_propose.hyps ring_ok_propose_skip [of w hist skip' rids]
      by (auto simp: writes_def)
  next
    case False
    then have "ring_fresh w' hist" using ring_ok_execute [OF execute_propose.IH] execute_propose.hyps by simp
    then have "writes skip' rids w' \<Longrightarrow> ring_ok (w_propose skip' grow rids conf w') (hist @ [conf])" and "ring_ok w' hist"
      by (rule ring_fresh_propose) (use \<open>ring_fresh w' hist\<close> in \<open>simp_all add: ring_fresh_def\<close>)
    then show ?thesis using ring_ok_propose_skip by simp
  qed
qed

definition demo_env :: exec_env where
  "demo_env = \<lparr>ee_variant = 0, ee_device = False, ee_thr = 1, ee_early = False\<rparr>"

definition demo_idle :: trunc_so where
  "demo_idle = \<lparr>ts_spec = [], ts_structured = False, ts_num = (\<lambda>_. 0), ts_total = 0\<rparr>"

lemma demo_run:
  "w_reach c (w_propose False True [''a''] [[1, 2]] (worker_new (Some p)\<lparr>w_pols := [0 \<mapsto> p], w_v_last := Some 0\<rparr>)) [[[1, 2]]]"
proof -
  have "w_execute c False demo_env demo_idle (worker_new (Some p)) =
      Inr (worker_new (Some p)\<lparr>w_pols := [0 \<mapsto> p], w_v_last := Some 0\<rparr>, demo_idle, M_none)"
    by (simp add: w_execute_def worker_new_def demo_env_def enter_variant_def score_posthoc_def Let_def)
  from w_reach.execute_propose [OF w_reach.start this, of False True "[''a'']" "[[1, 2]]"]
  show ?thesis by (simp add: writes_def worker_new_def)
qed

lemma unread_slots_intact_witness:
  "ring_ok (w_propose False True [''a''] [[1, 2]] (worker_new (Some demo_policy)\<lparr>w_pols := [0 \<mapsto> demo_policy], w_v_last := Some 0\<rparr>))
     [[[1, 2]]]"
  by (rule unread_slots_intact [OF demo_run])

end
