(* ===== verification/Prefill_Sched.thy ===== *)
theory Prefill_Sched
  imports Py_Str
begin

text \<open>
  Prefill scheduling (\<open>src/overlay/glm_prefill_sched.py\<close>) and the text edits two overlays make to vLLM's scheduler
  source (there and in \<open>src/overlay/glm_mamba_align_fix.py\<close>): the knobs, the cadence, the hold of requests that may
  already be finished, the per-step budget of short prefills, the coalescing of arrivals after idle, and the patcher
  that replaces each anchor exactly once. The statistics and log lines are left out; what vLLM's method does around the
  inserted calls is not under \<open>src\<close>, so a step is the sequence of the inserted calls.
\<close>

section \<open>Counting and replacing\<close>

text \<open>\<open>str.count\<close> and \<open>str.replace\<close>: occurrences from the left, not overlapping.\<close>

function str_count :: "string \<Rightarrow> string \<Rightarrow> nat" where
  "str_count sub s =
     (if sub = [] then length s + 1
      else if s = [] then 0
      else if starts_with sub s then Suc (str_count sub (drop (length sub) s))
      else str_count sub (tl s))"
  by pat_completeness auto
termination
  by (relation "measure (\<lambda>(sub, s). length s)") auto

function str_replace :: "string \<Rightarrow> string \<Rightarrow> string \<Rightarrow> string" where
  "str_replace sub new s =
     (if sub = [] then new @ concat (map (\<lambda>c. c # new) s)
      else if s = [] then []
      else if starts_with sub s then new @ str_replace sub new (drop (length sub) s)
      else hd s # str_replace sub new (tl s))"
  by pat_completeness auto
termination
  by (relation "measure (\<lambda>(sub, new, s). length s)") auto

declare str_count.simps [simp del] str_replace.simps [simp del]

fun patch_source :: "(string \<times> string) list \<Rightarrow> string \<Rightarrow> string result" where
  "patch_source [] src = Inr src"
| "patch_source ((before, after) # edits) src =
     (if str_count before src \<noteq> 1 then Inl RuntimeError
      else patch_source edits (str_replace before after src))"

text \<open>The edits themselves, line by line.\<close>

definition text_of :: "string list \<Rightarrow> string" where
  "text_of ls = concat (map (\<lambda>l. l @ [CHR 0x0A]) ls)"

definition sched_edits :: "(string \<times> string) list" where
  "sched_edits = map (map_prod text_of text_of)
   [([''    self.current_step += 1''],
     [''    throttle_prefills = throttle_prefills or _glm_ps.cadence_throttles(self)  # GLM_PREFILL_SCHED E27'',
      ''    _glm_ps.begin_step(self)  # GLM_PREFILL_SCHED'',
      ''    self.current_step += 1'']),
    ([''    defer_prefills = ('',
      ''        throttle_prefills and not self.prefill_capacity_bound'',
      ''    ) and any(not r.is_prefill_chunk for r in self.running)''],
     [''    defer_prefills = _glm_ps.defer_prefills(self, throttle_prefills)  # GLM_PREFILL_SCHED E27c/E29'']),
    ([''        if self.current_step < request.next_decode_eligible_step:''],
     [''        if _glm_ps.holds(self, request, note=True):  # GLM_PREFILL_SCHED E29'',
      ''            req_index += 1'',
      ''            continue'',
      '''',
      ''        if self.current_step < request.next_decode_eligible_step:'']),
    ([''        if defer_prefills and request.is_prefill_chunk:''],
     [''        if ('',
      ''            defer_prefills'',
      ''            and request.is_prefill_chunk'',
      ''            and not _glm_ps.admit_short('',
      ''                self, request.num_tokens - request.num_computed_tokens'',
      ''            )'',
      ''        ):  # GLM_PREFILL_SCHED E27b'']),
    ([''        step_skipped_waiting = create_request_queue(self.policy)''],
     [''        step_skipped_waiting = create_request_queue(self.policy)'',
      ''        glm_deferred = create_request_queue(self.policy)  # GLM_PREFILL_SCHED E27b'']),
    ([''            elif defer_prefills and num_computed_tokens < request.num_tokens - 1:''],
     [''            elif ('',
      ''                defer_prefills'',
      ''                and num_computed_tokens < request.num_tokens - 1'',
      ''                and not _glm_ps.admit_short('',
      ''                    self, request.num_tokens - num_computed_tokens'',
      ''                )'',
      ''            ):  # GLM_PREFILL_SCHED E27b'',
      ''                if _glm_ps.SHORT_TOKENS:'',
      ''                    request_queue.pop_request()'',
      ''                    glm_deferred.prepend_request(request)'',
      ''                    _glm_ps.note_deferred(self, request)'',
      ''                    continue'']),
    ([''        # DP prefill balancing: on a step that admitted prefills (release),''],
     [''        if glm_deferred:  # GLM_PREFILL_SCHED E27b'',
      ''            self.waiting.prepend_requests(glm_deferred)'',
      '''',
      ''        # DP prefill balancing: on a step that admitted prefills (release),''])]"

definition align_edits :: "(string \<times> string) list" where
  "align_edits = map (map_prod text_of text_of)
   [([''        block_size = self.cache_config.block_size''],
     [''        block_size = self.cache_config.mamba_block_size or self.cache_config.block_size  # GLM_MAMBA_ALIGN_FIX'']),
    ([''            # Never run past the last cacheable block boundary mid-chunk.'',
      ''            last_cache_position,''],
     [''            # Never run past the last cacheable block boundary mid-chunk.'',
      ''            last_cache_position,'',
      ''            # # GLM_MAMBA_ALIGN_FIX: also materialize the prompt's last full block, which the'',
      ''            # repaired coordinator exposes to prefix hits (Eagle back-off kept above).'',
      ''            request.num_tokens // block_size * block_size,''])]"

lemma starts_with_iff: "starts_with p s \<longleftrightarrow> (\<exists>r. s = p @ r)"
  unfolding starts_with_def by (metis append_take_drop_id append_eq_conv_conj)

lemma starts_with_append [simp]: "starts_with p (p @ r)"
  by (simp add: starts_with_def)

lemma str_count_unfold:
  assumes "sub \<noteq> []"
  shows "str_count sub [] = 0" and "str_count sub (sub @ r) = Suc (str_count sub r)"
    and "\<not> starts_with sub (c # s) \<Longrightarrow> str_count sub (c # s) = str_count sub s"
  using assms by (subst str_count.simps, simp)+

lemma str_replace_unfold:
  assumes "sub \<noteq> []"
  shows "str_replace sub new [] = []" and "str_replace sub new (sub @ r) = new @ str_replace sub new r"
    and "\<not> starts_with sub (c # s) \<Longrightarrow> str_replace sub new (c # s) = c # str_replace sub new s"
  using assms by (subst str_replace.simps, simp)+

text \<open>Reading a string from the left against a search text: it ends, the text comes next, or one character is passed.\<close>

lemma scan_induct [consumes 1, case_names empty hit pass]:
  assumes "sub \<noteq> []" and "P []" and "\<And>r. P r \<Longrightarrow> P (sub @ r)"
    and "\<And>c s. \<not> starts_with sub (c # s) \<Longrightarrow> P s \<Longrightarrow> P (c # s)"
  shows "P s"
proof (induction s rule: length_induct)
  case (1 s)
  show ?case
  proof (cases s)
    case Nil
    then show ?thesis using assms(2) by simp
  next
    case (Cons c t)
    show ?thesis
    proof (cases "starts_with sub s")
      case True
      then obtain r where r: "s = sub @ r" by (auto simp: starts_with_iff)
      then have "P r" using 1 assms(1) by simp
      then show ?thesis using assms(3) r by simp
    next
      case False
      then show ?thesis using assms(4) 1 Cons by simp
    qed
  qed
qed

lemma str_replace_none:
  assumes "sub \<noteq> []"
  shows "str_count sub s = 0 \<Longrightarrow> str_replace sub new s = s"
  using assms by (induction s rule: scan_induct) (use assms in \<open>simp_all add: str_count_unfold str_replace_unfold\<close>)

lemma str_replace_once:
  assumes "sub \<noteq> []"
  shows "str_count sub s = 1 \<Longrightarrow> \<exists>a b. s = a @ sub @ b \<and> str_replace sub new s = a @ new @ b"
  using assms
proof (induction s rule: scan_induct)
  case (hit r)
  then have "str_replace sub new r = r" using assms by (intro str_replace_none) (simp_all add: str_count_unfold)
  then show ?case using assms by (intro exI [of _ "[]"] exI [of _ r]) (simp add: str_replace_unfold)
next
  case (pass c s)
  then obtain a b where "s = a @ sub @ b" "str_replace sub new s = a @ new @ b"
    using assms by (auto simp: str_count_unfold)
  then show ?case using pass assms by (intro exI [of _ "c # a"] exI [of _ b]) (simp add: str_replace_unfold)
qed (use assms in \<open>simp add: str_count_unfold\<close>)

text \<open>Equations the simplifier evaluates: the prefix is stripped in one pass.\<close>

fun strip_prefix :: "string \<Rightarrow> string \<Rightarrow> string option" where
  "strip_prefix [] s = Some s"
| "strip_prefix (c # p) [] = None"
| "strip_prefix (c # p) (d # s) = (if c = d then strip_prefix p s else None)"

lemma strip_prefix_Some: "strip_prefix p s = Some r \<longleftrightarrow> s = p @ r"
  by (induction p s rule: strip_prefix.induct) auto

lemma strip_prefix_None: "strip_prefix p s = None \<longleftrightarrow> \<not> starts_with p s"
  by (cases "strip_prefix p s") (auto simp: starts_with_iff simp flip: strip_prefix_Some)

lemma str_count_code [code]:
  "str_count sub s =
     (if sub = [] then length s + 1
      else case s of [] \<Rightarrow> 0
      | c # t \<Rightarrow> (case strip_prefix sub s of Some r \<Rightarrow> Suc (str_count sub r) | None \<Rightarrow> str_count sub t))"
proof (cases "sub = []")
  case True
  then show ?thesis by (simp add: str_count.simps)
next
  case False
  then show ?thesis
    by (cases s) (auto simp: str_count_unfold strip_prefix_Some strip_prefix_None split: option.split)
qed

lemma str_replace_code [code]:
  "str_replace sub new s =
     (if sub = [] then new @ concat (map (\<lambda>c. c # new) s)
      else case s of [] \<Rightarrow> []
      | c # t \<Rightarrow> (case strip_prefix sub s of Some r \<Rightarrow> new @ str_replace sub new r | None \<Rightarrow> c # str_replace sub new t))"
proof (cases "sub = []")
  case True
  then show ?thesis by (simp add: str_replace.simps)
next
  case False
  then show ?thesis
    by (cases s) (auto simp: str_replace_unfold strip_prefix_Some strip_prefix_None split: option.split)
qed

text \<open>A chain of edits: each one rewrites the only place its anchor occurs at, and keeps the rest of the text.\<close>

inductive edited :: "(string \<times> string) list \<Rightarrow> string \<Rightarrow> string \<Rightarrow> bool" where
  edited_done: "edited [] s s"
| edited_step: "str_count before (a @ before @ b) = 1 \<Longrightarrow> edited edits (a @ after @ b) t \<Longrightarrow>
    edited ((before, after) # edits) (a @ before @ b) t"

inductive_cases edited_ConsE: "edited ((before, after) # edits) s t"

section \<open>Knobs\<close>

definition knob_int :: "env \<Rightarrow> string \<Rightarrow> int result" where
  "knob_int env name =
     (let v = strip (case env name of None \<Rightarrow> ''0'' | Some raw \<Rightarrow> raw)
      in bind_r (if v = [] then Inr 0 else py_int v) (\<lambda>n. if n < 0 then Inl ValueError else Inr n))"

definition knob_flag :: "env \<Rightarrow> string \<Rightarrow> bool result" where
  "knob_flag env name =
     (let v = strip (case env name of None \<Rightarrow> ''0'' | Some raw \<Rightarrow> raw)
      in if v \<notin> {''0'', ''1'', []} then Inl ValueError else Inr (v = ''1''))"

record ps_knobs =
  k_cadence :: int
  k_short :: int
  k_when_queued :: bool
  k_end_drain :: bool
  k_coalesce :: rat

definition load_knobs :: "env \<Rightarrow> ps_knobs result" where
  "load_knobs env =
     bind_r (knob_int env ''GLM_PREFILL_CADENCE'') (\<lambda>c.
     bind_r (knob_int env ''GLM_PREFILL_SHORT_TOKENS'') (\<lambda>s.
     bind_r (knob_flag env ''GLM_PREFILL_CADENCE_WHEN_QUEUED'') (\<lambda>w.
     bind_r (knob_flag env ''GLM_END_DRAIN'') (\<lambda>d.
     bind_r (case env ''GLM_IDLE_COALESCE_MS'' of None \<Rightarrow> Inr 0 | Some raw \<Rightarrow> if raw = [] then Inr 0 else py_float raw) (\<lambda>ms.
       if \<not> (0 \<le> ms / 1000 \<and> ms / 1000 \<le> 5 / 1000) then Inl ValueError
       else Inr \<lparr>k_cadence = c, k_short = s, k_when_queued = w, k_end_drain = d, k_coalesce = ms / 1000\<rparr>)))))"

section \<open>The calls inserted into a schedule step\<close>

record preq =
  pq_prefill :: bool
  pq_structured :: bool
  pq_placeholders :: int
  pq_max_tokens :: "int option"
  pq_out :: int
  pq_next_eligible :: int

record psched =
  p_step :: int
  p_interval :: "int option"
  p_config_interval :: int
  p_dp :: int
  p_bound :: bool
  p_short_used :: int
  p_running :: "preq list"

definition interval :: "ps_knobs \<Rightarrow> psched \<Rightarrow> (psched \<times> int) result" where
  "interval k s =
     (case p_interval s of
        Some iv \<Rightarrow> Inr (s, iv)
      | None \<Rightarrow>
          let iv = (if k_cadence k \<noteq> 0 then k_cadence k
                    else if p_config_interval s \<noteq> 0 then p_config_interval s else 1)
          in if 1 < iv \<and> 1 < p_dp s then Inl RuntimeError else Inr (s\<lparr>p_interval := Some iv\<rparr>, iv))"

definition cadence_throttles :: "ps_knobs \<Rightarrow> psched \<Rightarrow> (psched \<times> bool) result" where
  "cadence_throttles k s = bind_r (interval k s) (\<lambda>(s', iv). Inr (s', 1 < iv \<and> p_step s' mod iv \<noteq> 0))"

definition begin_step :: "psched \<Rightarrow> psched" where
  "begin_step s = s\<lparr>p_short_used := 0\<rparr>"

text \<open>The first edit: the cadence looks at the step counter before the call's own increment.\<close>

definition enter_schedule :: "ps_knobs \<Rightarrow> bool \<Rightarrow> psched \<Rightarrow> (psched \<times> bool) result" where
  "enter_schedule k throttle s =
     bind_r (if throttle then Inr (s, True) else cadence_throttles k s) (\<lambda>(s', t).
       Inr ((begin_step s')\<lparr>p_step := p_step s' + 1\<rparr>, t))"

definition holds :: "ps_knobs \<Rightarrow> preq \<Rightarrow> bool" where
  "holds k q =
     (k_end_drain k \<and> \<not> pq_prefill q \<and> \<not> pq_structured q \<and> 0 < pq_placeholders q \<and>
      (case pq_max_tokens q of None \<Rightarrow> False | Some m \<Rightarrow> m \<le> pq_out q + pq_placeholders q))"

definition decodable :: "ps_knobs \<Rightarrow> psched \<Rightarrow> preq \<Rightarrow> bool" where
  "decodable k s q = (\<not> pq_prefill q \<and> pq_next_eligible q \<le> p_step s \<and> \<not> holds k q)"

definition defer_prefills :: "ps_knobs \<Rightarrow> psched \<Rightarrow> bool \<Rightarrow> bool" where
  "defer_prefills k s throttle =
     (if \<not> throttle then False
      else if p_bound s \<and> \<not> k_when_queued k then False
      else list_ex (decodable k s) (p_running s))"

definition admits :: "int \<Rightarrow> int \<Rightarrow> int \<Rightarrow> bool" where
  "admits remaining used limit = (0 < remaining \<and> remaining < limit \<and> used + remaining \<le> limit)"

definition admit_short :: "ps_knobs \<Rightarrow> psched \<Rightarrow> int \<Rightarrow> psched \<times> bool" where
  "admit_short k s remaining =
     (if \<not> admits remaining (p_short_used s) (k_short k) then (s, False)
      else (s\<lparr>p_short_used := p_short_used s + remaining\<rparr>, True))"

text \<open>The prefills a deferring step asks about, in order; those admitted are returned.\<close>

fun admit_all :: "ps_knobs \<Rightarrow> psched \<Rightarrow> int list \<Rightarrow> psched \<times> int list" where
  "admit_all k s [] = (s, [])"
| "admit_all k s (r # rs) =
     (case admit_short k s r of (s1, ok) \<Rightarrow>
      case admit_all k s1 rs of (s2, as) \<Rightarrow> (s2, if ok then r # as else as))"

section \<open>Coalescing arrivals after idle\<close>

text \<open>
  One turn of the loop sees whether the core runs, whether requests are unfinished, whether the scheduler is paused,
  the clock, and what the queue gives within the remaining time (nothing when it times out).
\<close>

record co_turn =
  co_running :: bool
  co_unfinished :: bool
  co_paused :: bool
  co_now :: rat
  co_arrival :: "nat option"

fun coalesce_loop :: "rat \<Rightarrow> co_turn list \<Rightarrow> nat list" where
  "coalesce_loop deadline [] = []"
| "coalesce_loop deadline (t # ts) =
     (if \<not> (co_running t \<and> co_unfinished t) then []
      else if co_paused t then []
      else if deadline - co_now t \<le> 0 then []
      else (case co_arrival t of None \<Rightarrow> [] | Some r \<Rightarrow> r # coalesce_loop deadline ts))"

definition coalesce :: "ps_knobs \<Rightarrow> bool \<Rightarrow> bool \<Rightarrow> bool \<Rightarrow> bool \<Rightarrow> rat \<Rightarrow> co_turn list \<Rightarrow> nat list" where
  "coalesce k is_dp block had_work has_now start turns =
     (if \<not> (0 < k_coalesce k \<and> \<not> is_dp \<and> block \<and> \<not> had_work) \<or> \<not> has_now then []
      else coalesce_loop (start + k_coalesce k) turns)"

definition installs :: "ps_knobs \<Rightarrow> bool" where
  "installs k = (k_cadence k \<noteq> 0 \<or> k_short k \<noteq> 0 \<or> k_when_queued k \<or> k_end_drain k)"

section \<open>Properties\<close>

lemma patch_source_edited:
  "\<forall>e\<in>set edits. fst e \<noteq> [] \<Longrightarrow> patch_source edits src = Inr t \<Longrightarrow> edited edits src t"
proof (induction edits src rule: patch_source.induct)
  case (1 src)
  then show ?case by (auto intro: edited_done)
next
  case (2 before after edits src)
  have c: "str_count before src = 1" using "2.prems" by (simp split: if_splits)
  obtain a b where ab: "src = a @ before @ b" "str_replace before after src = a @ after @ b"
    using str_replace_once [OF _ c, where new = after] "2.prems"(1) by auto
  have "edited edits (a @ after @ b) t" using "2.IH" "2.prems" c ab by simp
  with c show ?case unfolding ab(1) by (rule edited_step)
qed

text \<open>
  Patching is exact or refused: when \<open>patch_schedule_source\<close> returns a text, every anchor occurred exactly once at
  its turn and only that occurrence was rewritten, everything else is the vendor's text. The same holds for the mamba patch.
\<close>

lemma patch_exact:
  "(patch_source sched_edits src = Inr t \<longrightarrow> edited sched_edits src t) \<and>
   (patch_source align_edits src = Inr t \<longrightarrow> edited align_edits src t)"
proof -
  have "\<forall>e\<in>set sched_edits. fst e \<noteq> []" "\<forall>e\<in>set align_edits. fst e \<noteq> []"
    by (simp_all add: sched_edits_def align_edits_def text_of_def)
  then show ?thesis by (blast intro: patch_source_edited)
qed

text \<open>A run of steps: between two steps the running requests and the capacity latch may become anything.\<close>

fun step_run :: "ps_knobs \<Rightarrow> (preq list \<times> bool) list \<Rightarrow> psched \<Rightarrow> (psched \<times> bool list) result" where
  "step_run k [] s = Inr (s, [])"
| "step_run k ((rs, b) # snaps) s =
     bind_r (enter_schedule k False (s\<lparr>p_running := rs, p_bound := b\<rparr>)) (\<lambda>(s1, t).
     bind_r (step_run k snaps s1) (\<lambda>(s2, ds). Inr (s2, defer_prefills k s1 t # ds)))"

lemma enter_schedule_step:
  assumes "enter_schedule k False s = Inr (s1, t)"
  shows "\<exists>iv. p_interval s1 = Some iv \<and> p_step s1 = p_step s + 1 \<and> (t \<longleftrightarrow> 1 < iv \<and> p_step s mod iv \<noteq> 0) \<and>
    (\<forall>j. p_interval s = Some j \<longrightarrow> j = iv) \<and> p_short_used s1 = 0"
  using assms
  by (auto simp: enter_schedule_def cadence_throttles_def interval_def begin_step_def bind_r_Inr_iff Let_def
      split: option.splits if_splits)

lemma step_run_props:
  "step_run k snaps s = Inr (s', ds) \<Longrightarrow> p_interval s = Some iv \<Longrightarrow>
   length ds = length snaps \<and> p_interval s' = Some iv \<and>
   (\<forall>i<length ds. ds ! i \<longrightarrow> 1 < iv \<and> (p_step s + int i) mod iv \<noteq> 0)"
proof (induction k snaps s arbitrary: s' ds rule: step_run.induct)
  case (2 k rs b snaps s)
  let ?s = "s\<lparr>p_running := rs, p_bound := b\<rparr>"
  obtain s1 t where e: "enter_schedule k False ?s = Inr (s1, t)"
    using "2.prems" by (cases "enter_schedule k False ?s") auto
  obtain ds' where r: "step_run k snaps s1 = Inr (s', ds')" and ds: "ds = defer_prefills k s1 t # ds'"
    using "2.prems" by (auto simp: e bind_r_Inr_iff)
  have E: "p_interval s1 = Some iv" "p_step s1 = p_step s + 1" "t \<longleftrightarrow> 1 < iv \<and> p_step s mod iv \<noteq> 0"
    using enter_schedule_step [OF e] "2.prems"(2) by auto
  have I: "length ds' = length snaps \<and> p_interval s' = Some iv \<and>
      (\<forall>i<length ds'. ds' ! i \<longrightarrow> 1 < iv \<and> (p_step s1 + int i) mod iv \<noteq> 0)"
    using r E(1) by (rule "2.IH")
  have "ds ! i \<longrightarrow> 1 < iv \<and> (p_step s + int i) mod iv \<noteq> 0" if "i < length ds" for i
  proof (cases i)
    case 0
    then show ?thesis using E(3) by (simp add: ds defer_prefills_def)
  next
    case (Suc j)
    then have "j < length ds'" using that by (simp add: ds)
    then show ?thesis using I E(2) by (auto simp: Suc ds algebra_simps)
  qed
  then show ?case using I by (simp add: ds)
qed auto

text \<open>
  C34. Prefills are never starved: whatever the running requests and the capacity latch do in between, among any
  cadence-many consecutive schedule steps of a scheduler that has computed its interval there is one that defers no
  prefill.
\<close>

theorem prefills_not_starved:
  assumes "step_run k snaps s = Inr (s', ds)" and "p_interval s = Some iv" and "0 < iv"
    and "nat iv \<le> length snaps"
  shows "\<exists>i<nat iv. \<not> ds ! i"
proof -
  note P = step_run_props [OF assms(1,2)]
  define i where "i = nat ((- p_step s) mod iv)"
  have i: "i < nat iv" "(p_step s + int i) mod iv = 0"
    using assms(3) by (simp_all add: i_def mod_add_right_eq)
  then have "i < length ds" using P assms(4) by linarith
  from P [THEN conjunct2, THEN conjunct2, rule_format, OF this] have "\<not> ds ! i" using i(2) by blast
  then show ?thesis using i(1) by blast
qed

definition demo_sched :: psched where
  "demo_sched = \<lparr>p_step = 5, p_interval = Some 3, p_config_interval = 1, p_dp = 1, p_bound = False, p_short_used = 0,
                 p_running = []\<rparr>"

definition demo_req :: preq where
  "demo_req = \<lparr>pq_prefill = False, pq_structured = False, pq_placeholders = 1, pq_max_tokens = Some 9, pq_out = 2,
               pq_next_eligible = 0\<rparr>"

definition demo_knobs :: ps_knobs where
  "demo_knobs = \<lparr>k_cadence = 3, k_short = 256, k_when_queued = False, k_end_drain = True, k_coalesce = 0\<rparr>"

lemma prefills_not_starved_witness:
  "\<exists>s'. step_run demo_knobs (replicate 3 ([demo_req], False)) demo_sched = Inr (s', [True, False, True])"
proof -
  have r: "\<exists>s'. step_run demo_knobs (replicate 3 ([demo_req], False)) demo_sched = Inr (s', [True, False, True])"
    by (simp add: numeral_3_eq_3 demo_knobs_def demo_sched_def demo_req_def enter_schedule_def cadence_throttles_def
        interval_def begin_step_def defer_prefills_def decodable_def holds_def)
  then obtain s' where s': "step_run demo_knobs (replicate 3 ([demo_req], False)) demo_sched = Inr (s', [True, False, True])" ..
  have "\<exists>i<nat 3. \<not> [True, False, True] ! i"
    by (rule prefills_not_starved [OF s']) (simp_all add: demo_sched_def)
  then show ?thesis using r by blast
qed

text \<open>
  Short prefills stay within their budget: after \<open>begin_step\<close> the prefills a deferring step admits, whatever is
  asked in whatever order, are each positive and below the limit, together at most the limit, and each one refused
  did not fit into what was left; a limit of zero admits none.
\<close>

lemma short_budget_respected:
  assumes "admit_all k (begin_step s) rs = (s', as)" and "0 \<le> k_short k"
  shows "sum_list as \<le> k_short k \<and> p_short_used s' = sum_list as \<and> (\<forall>a\<in>set as. 0 < a \<and> a < k_short k) \<and>
    (\<forall>r\<in>set rs. r \<notin> set as \<longrightarrow> \<not> admits r (sum_list as) (k_short k))"
proof -
  have gen: "admit_all k t rs = (t', as') \<Longrightarrow> 0 \<le> p_short_used t \<Longrightarrow> p_short_used t \<le> k_short k \<Longrightarrow>
      p_short_used t' = p_short_used t + sum_list as' \<and> p_short_used t' \<le> k_short k \<and>
      (\<forall>a\<in>set as'. 0 < a \<and> a < k_short k) \<and> 0 \<le> sum_list as' \<and>
      (\<forall>r\<in>set rs. r \<notin> set as' \<longrightarrow> \<not> admits r (p_short_used t') (k_short k))" for t t' as'
  proof (induction k t rs arbitrary: t' as' rule: admit_all.induct)
    case (2 k t r rs)
    obtain t1 ok where a: "admit_short k t r = (t1, ok)" by fastforce
    obtain t2 as2 where b: "admit_all k t1 rs = (t2, as2)" by fastforce
    have res: "t' = t2" "as' = (if ok then r # as2 else as2)" using "2.prems"(1) by (auto simp: a b)
    show ?case
    proof (cases "admits r (p_short_used t) (k_short k)")
      case True
      then have t1: "t1 = t\<lparr>p_short_used := p_short_used t + r\<rparr>" "ok" using a by (auto simp: admit_short_def)
      then have "0 \<le> p_short_used t1" "p_short_used t1 \<le> k_short k" using True "2.prems"(2) by (auto simp: admits_def)
      from "2.IH" [OF a [symmetric] b this] True t1 show ?thesis by (auto simp: res admits_def)
    next
      case False
      then have t1: "t1 = t" "\<not> ok" using a by (auto simp: admit_short_def)
      have I: "p_short_used t2 = p_short_used t + sum_list as2 \<and> p_short_used t2 \<le> k_short k \<and>
        (\<forall>a\<in>set as2. 0 < a \<and> a < k_short k) \<and> 0 \<le> sum_list as2 \<and>
        (\<forall>r\<in>set rs. r \<notin> set as2 \<longrightarrow> \<not> admits r (p_short_used t2) (k_short k))"
        using "2.IH" [OF a [symmetric] b] "2.prems" t1 by auto
      have "\<not> admits r (p_short_used t2) (k_short k)" using False I "2.prems" by (auto simp: admits_def)
      then show ?thesis using I t1 by (auto simp: res)
    qed
  qed auto
  show ?thesis using gen [OF assms(1)] assms(2) by (auto simp: begin_step_def)
qed

text \<open>
  Coalescing is bounded: whatever arrives, a request is taken only while the core runs with unfinished requests,
  unpaused and strictly before the one deadline; and an engine that was busy, or has nothing to do, takes none.
\<close>

lemma coalesce_within_window:
  "(\<exists>n. coalesce k dp blk had now start turns = map (the \<circ> co_arrival) (take n turns) \<and> n \<le> length turns \<and>
     (\<forall>t\<in>set (take n turns). co_arrival t \<noteq> None \<and> co_running t \<and> co_unfinished t \<and> \<not> co_paused t \<and>
        co_now t < start + k_coalesce k)) \<and>
   (had \<or> \<not> now \<or> dp \<or> k_coalesce k = 0 \<longrightarrow> coalesce k dp blk had now start turns = [])"
proof -
  have loop: "\<exists>n. coalesce_loop d turns = map (the \<circ> co_arrival) (take n turns) \<and> n \<le> length turns \<and>
      (\<forall>t\<in>set (take n turns). co_arrival t \<noteq> None \<and> co_running t \<and> co_unfinished t \<and> \<not> co_paused t \<and> co_now t < d)" for d turns
  proof (induction turns)
    case (Cons t ts)
    show ?case
    proof (cases "coalesce_loop d (t # ts) = []")
      case True
      then show ?thesis by (intro exI [of _ 0]) simp
    next
      case False
      then obtain r where r: "co_arrival t = Some r" "co_running t" "co_unfinished t" "\<not> co_paused t" "co_now t < d"
        by (auto split: if_splits option.splits)
      obtain n where "coalesce_loop d ts = map (the \<circ> co_arrival) (take n ts)" "n \<le> length ts"
        "\<forall>t\<in>set (take n ts). co_arrival t \<noteq> None \<and> co_running t \<and> co_unfinished t \<and> \<not> co_paused t \<and> co_now t < d"
        using Cons.IH by blast
      then show ?thesis using r by (intro exI [of _ "Suc n"]) auto
    qed
  qed simp
  have "\<exists>n. coalesce k dp blk had now start turns = map (the \<circ> co_arrival) (take n turns) \<and> n \<le> length turns \<and>
     (\<forall>t\<in>set (take n turns). co_arrival t \<noteq> None \<and> co_running t \<and> co_unfinished t \<and> \<not> co_paused t \<and>
        co_now t < start + k_coalesce k)"
  proof (cases "coalesce k dp blk had now start turns = []")
    case True
    then show ?thesis by (intro exI [of _ 0]) simp
  next
    case False
    then show ?thesis using loop by (simp add: coalesce_def split: if_splits)
  qed
  then show ?thesis by (auto simp: coalesce_def)
qed

end
