(* ===== verification/Fp_Formats.thy ===== *)
theory Fp_Formats
  imports Prelude
begin

text \<open>
  The small float formats of \<open>src/overlay/fpfmt.py\<close>: bf16 as a rounding of 32-bit patterns, e4m3fn and e2m1 as codes
  for rationals, e8m0 scales, and the packing of four-bit codes. The numpy functions act element by element; the
  models are the functions of one element. Values are exact rationals, so the two zeros of a format are one value;
  not-a-number is \<^const>\<open>None\<close>. \<open>numpy\<close>'s \<open>rint\<close> and \<open>frexp\<close> are written out.
\<close>

unbundle bit_operations_syntax

type_synonym byte = "8 word"

section \<open>bf16\<close>

definition is_nan32 :: "32 word \<Rightarrow> bool" where
  "is_nan32 b = (drop_bit 23 b AND 0xFF = 0xFF \<and> b AND 0x7FFFFF \<noteq> 0)"

definition bf16_bits :: "32 word \<Rightarrow> 16 word" where
  "bf16_bits x =
     (let b = ucast x :: 64 word;
          r = drop_bit 16 (b + 0x7FFF + (drop_bit 16 b AND 1))
      in ucast (if is_nan32 x then drop_bit 16 b OR 0x40 else r))"

definition bf16_from_bits :: "16 word \<Rightarrow> 32 word" where
  "bf16_from_bits u = push_bit 16 (ucast u)"

definition bf16_round :: "32 word \<Rightarrow> 32 word" where
  "bf16_round x = bf16_from_bits (bf16_bits x)"

section \<open>Rounding to an integer, and the binary exponent\<close>

text \<open>\<open>np.rint\<close>: to nearest, ties to even.\<close>

definition rint :: "rat \<Rightarrow> int" where
  "rint x =
     (let f = \<lfloor>x\<rfloor>; d = x - of_int f
      in if d < 1 / 2 then f else if 1 / 2 < d then f + 1 else if even f then f else f + 1)"

fun nlog2 :: "nat \<Rightarrow> nat" where
  "nlog2 n = (if n < 2 then 0 else Suc (nlog2 (n div 2)))"

declare nlog2.simps [simp del]

text \<open>\<open>np.frexp\<close>'s exponent: 0 for 0, else the \<open>e\<close> with \<open>2 ^ (e - 1) \<le> x < 2 ^ e\<close>.\<close>

definition frexp_e :: "rat \<Rightarrow> int" where
  "frexp_e x =
     (if x = 0 then 0
      else if 1 \<le> x then int (nlog2 (nat \<lfloor>x\<rfloor>)) + 1
      else 1 - (let n = nat \<lceil>1 / x\<rceil> in if n \<le> 1 then 0 else int (nlog2 (n - 1)) + 1))"

section \<open>e4m3fn\<close>

definition e4m3_max :: rat where
  "e4m3_max = 448"

definition e4m3_quantum :: "rat \<Rightarrow> rat" where
  "e4m3_quantum a = 2 powi (max (frexp_e a - 1) (- 6) - 3)"

definition e4m3_round :: "rat \<Rightarrow> rat result" where
  "e4m3_round x =
     (let ax = \<bar>x\<bar>; q = e4m3_quantum ax; r = of_int (rint (ax / q)) * q
      in if e4m3_max < r then Inl ValueError else Inr (if x < 0 then - r else r))"

definition e4m3_encode :: "rat \<Rightarrow> byte" where
  "e4m3_encode v =
     (let s = (if v < 0 then 0x80 else 0 :: byte); a = \<bar>v\<bar>;
          out = (if 0 < a \<and> a < 2 powi (- 6) then word_of_int (rint (a / 2 powi (- 9)))
                 else if 2 powi (- 6) \<le> a then
                   (let ex = frexp_e a - 1; mant = rint (a / 2 powi (ex - 3)) - 8
                    in push_bit 3 (word_of_int (ex + 7)) OR word_of_int mant)
                 else 0)
      in out OR s)"

definition e4m3_decode :: "byte \<Rightarrow> rat option" where
  "e4m3_decode b =
     (let s = (if b AND 0x80 \<noteq> 0 then - 1 else 1);
          ex = uint (drop_bit 3 b AND 0xF); m = uint (b AND 7);
          val = (if ex = 0 then of_int m * 2 powi (- 9) else (1 + of_int m / 8) * 2 powi (ex - 7))
      in if ex = 15 \<and> m = 7 then None else Some (s * val))"

section \<open>e2m1\<close>

definition e2m1_table :: "rat list" where
  "e2m1_table = [0, 1 / 2, 1, 3 / 2, 2, 3, 4, 6]"

definition e2m1_mid :: "rat list" where
  "e2m1_mid = [1 / 4, 3 / 4, 5 / 4, 7 / 4, 5 / 2, 7 / 2, 5]"

fun count_mid :: "nat \<Rightarrow> rat \<Rightarrow> rat list \<Rightarrow> nat" where
  "count_mid i a [] = 0"
| "count_mid i a (b # bs) =
     (if (if even i then b < a else b \<le> a) then 1 else 0) + count_mid (Suc i) a bs"

definition e2m1_encode :: "rat \<Rightarrow> byte" where
  "e2m1_encode x =
     (let code = count_mid 0 (min \<bar>x\<bar> 6) e2m1_mid; s = (if x < 0 \<and> code \<noteq> 0 then 1 else 0)
      in word_of_nat code OR push_bit 3 s)"

definition e2m1_decode :: "byte \<Rightarrow> rat" where
  "e2m1_decode c = (if c AND 8 \<noteq> 0 then - 1 else 1) * e2m1_table ! unat (c AND 7)"

section \<open>Packing\<close>

fun evens :: "'a list \<Rightarrow> 'a list" where
  "evens [] = []"
| "evens [x] = [x]"
| "evens (x # y # xs) = x # evens xs"

definition odds :: "'a list \<Rightarrow> 'a list" where
  "odds xs = evens (tl xs)"

text \<open>A binary numpy operation on two vectors: equal lengths, or one of length one that is broadcast.\<close>

definition broadcast2 :: "('a \<Rightarrow> 'b \<Rightarrow> 'c) \<Rightarrow> 'a list \<Rightarrow> 'b list \<Rightarrow> 'c list result" where
  "broadcast2 f xs ys =
     (if length xs = length ys then Inr (map2 f xs ys)
      else if length ys = 1 then Inr (map (\<lambda>x. f x (hd ys)) xs)
      else if length xs = 1 then Inr (map (f (hd xs)) ys)
      else Inl ValueError)"

definition pack_nibbles :: "byte list \<Rightarrow> byte list result" where
  "pack_nibbles codes = broadcast2 (\<lambda>lo hi. lo OR push_bit 4 hi) (evens codes) (odds codes)"

definition unpack_nibbles :: "byte list \<Rightarrow> byte list" where
  "unpack_nibbles p = concat (map (\<lambda>b. [b AND 0xF, drop_bit 4 b]) p)"

section \<open>e8m0\<close>

definition decode_e8m0 :: "byte \<Rightarrow> rat" where
  "decode_e8m0 b = (if b = 0 then 0 else 2 powi (uint b - 127))"

section \<open>Properties of bf16\<close>

text \<open>Bit masks and shifts of words, read as natural numbers.\<close>

lemma nat_and_mask: "n AND (2 ^ k - 1) = n mod 2 ^ k" for n :: nat
  using take_bit_eq_mask [of k n] by (simp add: mask_eq_exp_minus_1 take_bit_eq_mod)

lemma unat_and_mask: "unat v = 2 ^ k - 1 \<Longrightarrow> unat (w AND v) = unat w mod 2 ^ k"
  unfolding unsigned_and_eq by (simp only: nat_and_mask)

lemma unat_drop: "unat (drop_bit k w) = unat w div 2 ^ k"
  using unat_drop_bit_eq [of k w] by (simp only: drop_bit_eq_div [of k "unat w"])

lemma unat_or: "unat (v OR w) = unat v OR unat w"
  by (fact unsigned_or_eq)

lemma unat_push: "unat w * 2 ^ k < 2 ^ LENGTH('a) \<Longrightarrow> unat (push_bit k w) = unat w * 2 ^ k" for w :: "'a::len word"
  by (simp only: unsigned_push_bit_eq push_bit_eq_mult [of k "unat w"] take_bit_nat_eq_self)

lemma unat_ucast_less: "unat w < 2 ^ LENGTH('b) \<Longrightarrow> unat (ucast w :: 'b::len word) = unat w"
  by (simp add: unsigned_ucast_eq take_bit_nat_eq_self)

lemma unat_add_less: "unat v + unat w < 2 ^ LENGTH('a) \<Longrightarrow> unat (v + w) = unat v + unat w"
  for v w :: "'a::len word"
  by (simp add: unat_plus_if')

lemma unat_low_bit: "unat (w AND 1) = unat w mod 2"
  using unat_and_mask [of 1 1 w] by simp

lemma unat_less_32: "unat (b :: 32 word) < 4294967296"
  using unsigned_less [of b] by simp

lemma is_nan32_iff: "is_nan32 b \<longleftrightarrow> unat b div 8388608 mod 256 = 255 \<and> unat b mod 8388608 \<noteq> 0"
proof -
  have "unat (drop_bit 23 b AND 0xFF) = unat b div 8388608 mod 256"
    using unat_and_mask [of "0xFF" 8 "drop_bit 23 b"] by (simp only: unat_drop) simp
  moreover have "unat (b AND 0x7FFFFF) = unat b mod 8388608"
    using unat_and_mask [of "0x7FFFFF" 23 b] by simp
  ultimately show ?thesis unfolding is_nan32_def word_unat_eq_iff by (simp only:) simp
qed

lemma not_nan32_le:
  assumes "\<not> is_nan32 b"
  shows "unat b \<le> 4286578688"
proof (rule ccontr)
  assume "\<not> unat b \<le> 4286578688"
  then have d: "unat b div 8388608 = 511" using unat_less_32 [of b] by linarith
  moreover have "unat b mod 8388608 \<noteq> 0"
    using div_mult_mod_eq [of "unat b" 8388608] d \<open>\<not> unat b \<le> 4286578688\<close> by linarith
  ultimately show False using assms by (simp add: is_nan32_iff)
qed

lemma unat_bf16_bits:
  assumes "\<not> is_nan32 b"
  shows "unat (bf16_bits b) = (unat b + 32767 + unat b div 65536 mod 2) div 65536"
proof -
  let ?b = "ucast b :: 64 word"
  have ub: "unat ?b = unat b" by (rule unat_ucast_less) (use unat_less_32 [of b] in simp)
  have lo: "unat (drop_bit 16 ?b AND 1) = unat b div 65536 mod 2"
    by (simp only: unat_low_bit unat_drop ub) simp
  have s1: "unat (?b + 0x7FFF) = unat b + 32767"
    using unat_add_less [of ?b "0x7FFF"] ub unat_less_32 [of b] by simp
  have s2: "unat (?b + 0x7FFF + (drop_bit 16 ?b AND 1)) = unat b + 32767 + unat b div 65536 mod 2"
    using unat_add_less [of "?b + 0x7FFF" "drop_bit 16 ?b AND 1"] s1 lo unat_less_32 [of b] by simp
  let ?n = "unat b + 32767 + unat b div 65536 mod 2"
  have d: "unat (drop_bit 16 (?b + 0x7FFF + (drop_bit 16 ?b AND 1))) = ?n div 65536"
    by (simp only: unat_drop s2) simp
  have "?n div 65536 < 65536" using not_nan32_le [OF assms] by linarith
  then have "unat (ucast (drop_bit 16 (?b + 0x7FFF + (drop_bit 16 ?b AND 1))) :: 16 word) = ?n div 65536"
    by (subst unat_ucast_less) (simp_all add: d)
  then show ?thesis using assms by (simp add: bf16_bits_def Let_def)
qed

lemma unat_bf16_from_bits: "unat (bf16_from_bits u) = unat u * 65536"
proof -
  have u: "unat u < 65536" using unsigned_less [of u] by simp
  have "unat (ucast u :: 32 word) = unat u" by (rule unat_ucast_less) (use u in simp)
  then show ?thesis using u unat_push [of "ucast u :: 32 word" 16] by (simp add: bf16_from_bits_def del: push_bit_eq_mult)
qed

lemma round_half_even_nat:
  fixes n :: nat
  defines "r \<equiv> (n + 32767 + n div 65536 mod 2) div 65536"
  shows "\<bar>int n - int (r * 65536)\<bar> \<le> 32768 \<and> (\<bar>int n - int (r * 65536)\<bar> = 32768 \<longrightarrow> even r)"
proof -
  define q t where "q = n div 65536" and "t = n mod 65536"
  have n: "n = q * 65536 + t" "t < 65536" by (simp_all add: q_def t_def)
  have r: "r = (q * 65536 + (t + 32767 + q mod 2)) div 65536" unfolding r_def q_def [symmetric] by (simp add: n(1))
  show ?thesis
  proof (cases "t + q mod 2 \<le> 32768")
    case True
    then have "r = q" using r by simp
    moreover have "t = 32768 \<longrightarrow> even q" using True by (cases "even q") (auto simp: odd_iff_mod_2_eq_one)
    ultimately show ?thesis using n True by auto
  next
    case False
    have "(t + 32767 + q mod 2) div 65536 = 1" using False n(2) mod_less_divisor [of 2 q] by linarith
    then have r1: "r = q + 1" using r by simp
    have "t = 32768 \<longrightarrow> odd q" using False by (cases "even q") auto
    then show ?thesis using n r1 False by auto
  qed
qed

lemma or_64: "n OR 64 = n + (if odd (n div 64) then 0 else 64)" for n :: nat
  using set_bit_eq_or [of 6 n] set_bit_eq [of 6 n] by (cases "odd (n div 64)") (simp_all add: bit_iff_odd)

lemma or_64_split: "(n OR 64) div 128 = n div 128 \<and> (n OR 64) mod 128 \<noteq> 0" for n :: nat
proof -
  define x z where "x = n div 128" and "z = n mod 128"
  have n: "n = z + 128 * x" and z: "z < 128" by (simp_all add: x_def z_def)
  have d: "n div 64 = z div 64 + 2 * x" using div_mult_self2 [of 64 z "2 * x"] by (simp add: n)
  show ?thesis
  proof (cases "z < 64")
    case True
    then have o: "n OR 64 = (z + 64) + 128 * x" using d by (simp add: or_64 n)
    have "(n OR 64) div 128 = x" "(n OR 64) mod 128 = z + 64" unfolding o using True by simp_all
    then show ?thesis by (simp add: x_def)
  next
    case False
    then have "z div 64 = 1" using z by simp
    then have "n OR 64 = n" using d by (simp add: or_64)
    then show ?thesis using False by (simp add: z_def)
  qed
qed

lemma or_64_less: "n < 65536 \<Longrightarrow> n OR 64 < 65536" for n :: nat
proof -
  assume "n < 65536"
  then have "(n OR 64) div 128 < 512" using or_64_split [of n] by simp
  then show ?thesis by simp
qed

lemma nan_stays_nan:
  assumes "is_nan32 b"
  shows "is_nan32 (bf16_round b)"
proof -
  let ?b = "ucast b :: 64 word"
  let ?a = "unat b div 65536"
  have ub: "unat ?b = unat b" by (rule unat_ucast_less) (use unat_less_32 [of b] in simp)
  have a: "?a < 65536" using unat_less_32 [of b] by simp
  have u: "unat (drop_bit 16 ?b OR 0x40) = ?a OR 64"
    by (simp only: unat_or unat_drop ub) simp
  have lt: "?a OR 64 < 65536" using a by (rule or_64_less)
  have "unat (bf16_bits b) = ?a OR 64"
    using assms lt by (simp add: bf16_bits_def Let_def unat_ucast_less u)
  then have r: "unat (bf16_round b) = (?a OR 64) * 65536" by (simp add: bf16_round_def unat_bf16_from_bits)
  have e: "unat b div 8388608 mod 256 = 255" using assms by (simp add: is_nan32_iff)
  have d: "(?a OR 64) div 128 = ?a div 128 \<and> (?a OR 64) mod 128 \<noteq> 0"
    by (rule or_64_split)
  have "unat (bf16_round b) div 8388608 = ?a div 128"
    using d by (simp add: r div_mult2_eq [of _ 65536 128, simplified])
  moreover have "?a div 128 = unat b div 8388608" by (simp add: div_mult2_eq [of _ 65536 128, simplified])
  moreover have "unat (bf16_round b) mod 8388608 \<noteq> 0"
    using d mult_mod_right [of 65536 "?a OR 64" 128] by (simp add: r mult.commute)
  ultimately show ?thesis using e by (simp add: is_nan32_iff)
qed

text \<open>
  The bf16 conversion is round-to-nearest-even on the 32-bit pattern: for anything but a NaN the pattern it
  returns, read back, is at most half a unit away from the input, at exactly half a unit it is the even one, no
  carry leaves the sixteen bits, and a NaN stays a NaN.
\<close>

lemma bf16_nearest_even:
  "(\<not> is_nan32 b \<longrightarrow>
      \<bar>int (unat b) - int (unat (bf16_round b))\<bar> \<le> 32768 \<and>
      (\<bar>int (unat b) - int (unat (bf16_round b))\<bar> = 32768 \<longrightarrow> even (unat (bf16_bits b)))) \<and>
   (is_nan32 b \<longrightarrow> is_nan32 (bf16_round b))"
proof (cases "is_nan32 b")
  case False
  have "unat (bf16_round b) = (unat b + 32767 + unat b div 65536 mod 2) div 65536 * 65536"
    by (simp add: bf16_round_def unat_bf16_from_bits unat_bf16_bits [OF False])
  then show ?thesis using False round_half_even_nat [of "unat b"] unat_bf16_bits [OF False] by simp
next
  case True
  then show ?thesis using nan_stays_nan by simp
qed

lemma bf16_bits_of_bits: "\<not> is_nan32 (bf16_from_bits u) \<Longrightarrow> bf16_bits (bf16_from_bits u) = u"
proof -
  assume "\<not> is_nan32 (bf16_from_bits u)"
  then have "unat (bf16_bits (bf16_from_bits u)) = (unat u * 65536 + 32767 + unat u mod 2) div 65536"
    by (simp add: unat_bf16_bits unat_bf16_from_bits)
  also have "\<dots> = (32767 + unat u mod 2 + unat u * 65536) div 65536" by (simp only: ac_simps)
  also have "\<dots> = unat u" using mod_less_divisor [of 2 "unat u"] by (subst div_mult_self1) simp_all
  finally show ?thesis by (simp add: word_unat_eq_iff)
qed

section \<open>Properties of the rounding helpers\<close>

lemma rint_cases: "rint x = \<lfloor>x\<rfloor> \<or> rint x = \<lfloor>x\<rfloor> + 1"
  by (simp add: rint_def Let_def)

lemma rint_of_int [simp]: "rint (of_int n) = n"
  by (simp add: rint_def)

lemma rint_near: "\<bar>x - of_int (rint x)\<bar> \<le> 1 / 2"
proof -
  have f: "of_int \<lfloor>x\<rfloor> \<le> x" "x < of_int \<lfloor>x\<rfloor> + 1" by linarith+
  consider "x - of_int \<lfloor>x\<rfloor> < 1 / 2" "rint x = \<lfloor>x\<rfloor>" | "1 / 2 < x - of_int \<lfloor>x\<rfloor>" "rint x = \<lfloor>x\<rfloor> + 1"
    | "x - of_int \<lfloor>x\<rfloor> = 1 / 2"
    by (cases "x - of_int \<lfloor>x\<rfloor>" "1 / 2 :: rat" rule: linorder_cases) (simp_all only: rint_def Let_def if_True if_False, auto)
  then show ?thesis
  proof cases
    case 3
    then show ?thesis using rint_cases [of x] by (elim disjE) (simp_all add: abs_le_iff, linarith?)
  qed (use f in \<open>simp_all add: abs_le_iff\<close>)
qed

lemma rint_nearest: "\<bar>x - of_int (rint x)\<bar> \<le> \<bar>x - of_int m\<bar>"
proof (cases "m = rint x")
  case False
  then have "1 \<le> \<bar>of_int m - of_int (rint x) :: rat\<bar>" by linarith
  then show ?thesis using rint_near [of x] by linarith
qed simp

lemma rint_mono: "x \<le> y \<Longrightarrow> rint x \<le> rint y"
proof (rule ccontr)
  assume xy: "x \<le> y" "\<not> rint x \<le> rint y"
  then have ge: "of_int (rint y) + 1 \<le> (of_int (rint x) :: rat)" by linarith
  then have "x = y" using rint_near [of x] rint_near [of y] xy(1) unfolding abs_le_iff by linarith
  then show False using xy(2) by simp
qed

lemma rint_bounds: "of_int a \<le> x \<Longrightarrow> x \<le> of_int b \<Longrightarrow> a \<le> rint x \<and> rint x \<le> b"
proof -
  assume ab: "of_int a \<le> x" "x \<le> of_int b"
  have "of_int (rint x) < (of_int b + 1 :: rat)" "(of_int a - 1 :: rat) < of_int (rint x)"
    using rint_near [of x] ab by linarith+
  then show ?thesis by linarith
qed

lemma nlog2_bounds: "0 < n \<Longrightarrow> 2 ^ nlog2 n \<le> n \<and> n < 2 ^ Suc (nlog2 n)"
proof (induction n rule: nlog2.induct)
  case (1 n)
  show ?case
  proof (cases "n < 2")
    case True
    then have "n = 1" "nlog2 n = 0" using "1.prems" by (simp_all add: nlog2.simps [of n])
    then show ?thesis by simp
  next
    case False
    then have "2 ^ nlog2 (n div 2) \<le> n div 2 \<and> n div 2 < 2 ^ Suc (nlog2 (n div 2))" using "1.IH" by simp
    then show ?thesis using False by (subst (1 2) nlog2.simps) (auto simp: less_eq_div_iff_mult_less_eq div_less_iff_less_mult mult.commute)
  qed
qed

lemma rat_pow2_le: "n \<le> 2 ^ k \<Longrightarrow> (of_nat n :: rat) \<le> 2 ^ k" and rat_pow2_ge: "2 ^ k \<le> n \<Longrightarrow> (2 ^ k :: rat) \<le> of_nat n"
  using of_nat_mono [of n "2 ^ k"] of_nat_mono [of "2 ^ k" n] by simp_all

text \<open>\<open>frexp_e\<close> is what \<open>frexp\<close> documents: the exponent of the binade of a positive number.\<close>

lemma frexp_e_bounds:
  assumes "0 < x"
  shows "2 powi (frexp_e x - 1) \<le> x" and "x < 2 powi (frexp_e x)"
proof -
  have "2 powi (frexp_e x - 1) \<le> x \<and> x < 2 powi (frexp_e x)"
  proof (cases "1 \<le> x")
    case True
    define n where "n = nat \<lfloor>x\<rfloor>"
    have n: "0 < n" "of_nat n \<le> x" "x < of_nat n + 1" using True unfolding n_def by (simp_all add: le_floor_iff) linarith
    have b: "2 ^ nlog2 n \<le> n" "n + 1 \<le> 2 ^ Suc (nlog2 n)" using nlog2_bounds [OF n(1)] by auto
    have e: "frexp_e x = int (nlog2 n) + 1" using True by (simp add: frexp_e_def n_def)
    have lo: "(2 ^ nlog2 n :: rat) \<le> of_nat n" by (rule rat_pow2_ge [OF b(1)])
    have up: "of_nat n + 1 \<le> (2 ^ Suc (nlog2 n) :: rat)"
      using rat_pow2_le [OF b(2)] by simp
    have p: "(2 powi (frexp_e x) :: rat) = 2 ^ Suc (nlog2 n)" unfolding e by (simp add: power_int_def nat_add_distrib)
    have "2 ^ nlog2 n \<le> x" "x < 2 ^ Suc (nlog2 n)" using lo up n by linarith+
    then show ?thesis unfolding p by (simp add: e power_int_of_nat)
  next
    case False
    define n where "n = nat \<lceil>1 / x\<rceil>"
    have x1: "1 < 1 / x" using False assms by simp
    then have n: "2 \<le> n" "1 / x \<le> of_nat n" "of_nat n < 1 / x + 1" unfolding n_def by linarith+
    define k where "k = nlog2 (n - 1)"
    have b: "2 ^ k \<le> n - 1" "n \<le> 2 ^ Suc k" using nlog2_bounds [of "n - 1"] n(1) unfolding k_def by auto
    have e: "frexp_e x = - int k" using False assms n(1) by (simp add: frexp_e_def Let_def k_def n_def [symmetric])
    have "of_nat n \<le> (2 ^ Suc k :: rat)" by (rule rat_pow2_le [OF b(2)])
    then have up: "1 / x \<le> 2 ^ Suc k" using n(2) by linarith
    have "(2 ^ k :: rat) \<le> of_nat (n - 1)" by (rule rat_pow2_ge [OF b(1)])
    then have lo: "2 ^ k < 1 / x" using n by (simp add: of_nat_diff)
    have "inverse (2 ^ Suc k) \<le> x" using up assms by (simp add: field_simps)
    moreover have "x < inverse (2 ^ k)" using lo assms by (simp add: field_simps)
    moreover have "(2 powi (- int k - 1) :: rat) = inverse (2 ^ Suc k)"
    proof -
      have "- int k - 1 = - int (Suc k)" by simp
      then show ?thesis by (simp only: power_int_minus power_int_of_nat)
    qed
    moreover have "(2 powi (- int k) :: rat) = inverse (2 ^ k)" by (simp add: power_int_minus power_int_of_nat)
    ultimately show ?thesis by (simp add: e)
  qed
  then show "2 powi (frexp_e x - 1) \<le> x" and "x < 2 powi (frexp_e x)" by simp_all
qed

lemma powi_less_iff: "(2 powi a :: rat) < 2 powi b \<longleftrightarrow> a < b"
proof (cases "a < b")
  case True
  then show ?thesis using power_int_strict_increasing [of a b "2 :: rat"] by simp
next
  case False
  then show ?thesis using power_int_increasing [of b a "2 :: rat"] by (simp add: not_less)
qed

lemma frexp_e_unique: "2 powi e \<le> x \<Longrightarrow> x < 2 powi (e + 1) \<Longrightarrow> frexp_e x = e + 1"
proof -
  assume a: "2 powi e \<le> x" "x < 2 powi (e + 1)"
  have "0 < x" using a(1) by (rule less_le_trans [rotated]) simp
  note F = frexp_e_bounds [OF this]
  have "2 powi e < (2 powi (frexp_e x) :: rat)" using a F by linarith
  moreover have "2 powi (frexp_e x - 1) < (2 powi (e + 1) :: rat)" using a F by linarith
  ultimately show ?thesis by (simp add: powi_less_iff)
qed

section \<open>Properties of e4m3fn\<close>

text \<open>The magnitudes of the format: \<open>M\<close> quanta of the binade \<open>E\<close>, subnormal only at the bottom, NaN's place left out.\<close>

definition e4m3_rep :: "int \<Rightarrow> int \<Rightarrow> rat \<Rightarrow> bool" where
  "e4m3_rep M E a \<longleftrightarrow>
     0 \<le> M \<and> M < 16 \<and> - 6 \<le> E \<and> E \<le> 8 \<and> (8 \<le> M \<or> E = - 6) \<and> (E = 8 \<longrightarrow> M \<le> 14) \<and> a = of_int M * 2 powi (E - 3)"

lemma uint_low3: "uint (b AND 7 :: byte) = int (unat b mod 8)"
  using unat_and_mask [of "7 :: byte" 3 b] by (simp add: uint_nat)

lemma uint_exp: "uint (drop_bit 3 b AND 0xF :: byte) = int (unat b div 8 mod 16)"
  using unat_and_mask [of "0xF :: byte" 4 "drop_bit 3 b"] unat_drop [of 3 b] by (simp add: uint_nat)

lemma e4m3_decode_rep:
  assumes "e4m3_decode b = Some v"
  shows "\<exists>M E. e4m3_rep M E \<bar>v\<bar>"
proof -
  let ?e = "int (unat b div 8 mod 16)" and ?m = "int (unat b mod 8)"
  have ne: "\<not> (?e = 15 \<and> ?m = 7)"
    and v: "\<bar>v\<bar> = (if ?e = 0 then of_int ?m * 2 powi (- 9) else (1 + of_int ?m / 8) * 2 powi (?e - 7))"
    using assms by (auto simp only: e4m3_decode_def Let_def uint_low3 uint_exp abs_mult split: if_splits) auto
  have b: "0 \<le> ?e" "?e < 16" "0 \<le> ?m" "?m < 8" by simp_all
  show ?thesis
  proof (cases "?e = 0")
    case True
    then have "e4m3_rep ?m (- 6) \<bar>v\<bar>" using v b by (simp add: e4m3_rep_def)
    then show ?thesis by blast
  next
    case False
    have "(2 powi (?e - 7) :: rat) = 2 powi (?e - 10) * 8"
      using power_int_add [of "2 :: rat" "?e - 10" 3] by simp
    then have "\<bar>v\<bar> = of_int (8 + ?m) * 2 powi ((?e - 7) - 3)" using v False by (simp add: algebra_simps)
    then have "e4m3_rep (8 + ?m) (?e - 7) \<bar>v\<bar>" using b ne False unfolding e4m3_rep_def by (simp; linarith)
    then show ?thesis by blast
  qed
qed

text \<open>A byte put together from its fields, with disjoint bits: reading a field gives it back.\<close>

lemma or_low: "m < 2 ^ k \<Longrightarrow> e * 2 ^ k OR m = e * 2 ^ k + m" for m e :: nat
proof -
  assume "m < 2 ^ k"
  then have t: "take_bit k m = m" by (simp add: take_bit_nat_eq_self)
  have "push_bit k e OR take_bit k m = push_bit k e + take_bit k m"
    by (rule disjunctive_add [symmetric]) (auto simp: bit_push_bit_iff bit_take_bit_iff)
  then show ?thesis unfolding t by (simp add: push_bit_eq_mult)
qed

lemma unat_word_of_int: "0 \<le> n \<Longrightarrow> n < 256 \<Longrightarrow> unat (word_of_int n :: byte) = nat n"
  by (simp add: unsigned_of_int take_bit_int_eq_self)

lemma unat_byte_fields:
  assumes "0 \<le> e" "e < 16" "0 \<le> m" "m < 8" "s = 0 \<or> s = 0x80"
  shows "unat ((push_bit 3 (word_of_int e) OR word_of_int m) OR s :: byte) = unat s + nat e * 8 + nat m"
proof -
  have "unat (push_bit 3 (word_of_int e :: byte)) = nat e * 8"
    using assms unat_push [of "word_of_int e :: byte" 3] by (simp add: unat_word_of_int)
  then have low: "unat (push_bit 3 (word_of_int e) OR word_of_int m :: byte) = nat e * 8 + nat m"
    using assms or_low [of "nat m" 3 "nat e"] by (simp add: unat_or unat_word_of_int)
  from assms(5) show ?thesis
  proof
    assume "s = 0"
    then show ?thesis using low by simp
  next
    assume s: "s = 0x80"
    have "nat e * 8 + nat m < 128" using assms by linarith
    then have "unat (push_bit 3 (word_of_int e) OR word_of_int m :: byte) OR 128 = 128 + (nat e * 8 + nat m)"
      using or_low [of "nat e * 8 + nat m" 7 1] by (simp add: low or.commute [of _ "128 :: nat"])
    then show ?thesis unfolding s by (subst unat_or) simp
  qed
qed

lemma sign_bit: "(b AND 0x80 \<noteq> 0) \<longleftrightarrow> 128 \<le> unat (b :: byte)"
proof -
  have "unat b < 256" using unsigned_less [of b] by simp
  then have "odd (unat b div 128) \<longleftrightarrow> 128 \<le> unat b"
    by (cases "unat b < 128") (auto simp: not_less div_nat_eqI [where q = 1])
  moreover have "(b AND 2 ^ 7 = 0) = (\<not> bit b 7)" by (rule and_exp_eq_0_iff_not_bit)
  moreover have "bit b 7 \<longleftrightarrow> odd (unat b div 128)" using bit_unsigned_iff [of b 7, where ?'a = nat] by (simp add: bit_iff_odd)
  ultimately show ?thesis by simp
qed

lemma e4m3_fields:
  assumes "0 \<le> e" "e < 16" "0 \<le> m" "m < 8" "s = 0 \<or> s = 0x80"
  shows "e4m3_decode ((push_bit 3 (word_of_int e) OR word_of_int m) OR s) =
     (if e = 15 \<and> m = 7 then None
      else Some ((if s = 0 then 1 else - 1) *
             (if e = 0 then of_int m * 2 powi (- 9) else (1 + of_int m / 8) * 2 powi (e - 7))))"
proof -
  let ?b = "(push_bit 3 (word_of_int e) OR word_of_int m) OR s :: byte"
  have u: "unat ?b = unat s + nat e * 8 + nat m" by (rule unat_byte_fields [OF assms])
  have s: "unat s = 0 \<and> s = 0 \<or> unat s = 128 \<and> s \<noteq> 0" using assms(5) by auto
  have d: "(unat s + nat e * 8 + nat m) div 8 = unat s div 8 + nat e"
    using assms(1-4) s by (elim disjE; simp; linarith)
  have d2: "(unat s + nat e * 8 + nat m) mod 8 = nat m"
    using div_mult_mod_eq [of "unat s + nat e * 8 + nat m" 8] s unfolding d by (elim disjE) simp_all
  have e: "uint (drop_bit 3 ?b AND 0xF) = e" unfolding uint_exp u d using assms(1-4) s by auto
  have m: "uint (?b AND 7) = m" unfolding uint_low3 u d2 using assms(1-4) by simp
  have g: "(?b AND 0x80 \<noteq> 0) \<longleftrightarrow> s \<noteq> 0" unfolding sign_bit u using assms(1-4) s by auto
  show ?thesis unfolding e4m3_decode_def Let_def e m g by simp
qed

lemma e4m3_encode_rep:
  assumes "e4m3_rep M E \<bar>v\<bar>"
  shows "e4m3_decode (e4m3_encode v) = Some v"
proof -
  let ?s = "if v < 0 then 0x80 else 0 :: byte"
  have r: "0 \<le> M" "M < 16" "- 6 \<le> E" "E \<le> 8" "8 \<le> M \<or> E = - 6" "E = 8 \<longrightarrow> M \<le> 14" "\<bar>v\<bar> = of_int M * 2 powi (E - 3)"
    using assms by (simp_all add: e4m3_rep_def)
  have sv: "(if ?s = 0 then 1 else - 1) * \<bar>v\<bar> = v" by simp
  consider "M = 0" | "0 < M" "M < 8" "E = - 6" | "8 \<le> M" using r by linarith
  then show ?thesis
  proof cases
    case 1
    then have "v = 0" using r(7) by simp
    moreover have "e4m3_decode 0 = Some 0" using e4m3_fields [of 0 0 0] by simp
    ultimately show ?thesis by (simp add: e4m3_encode_def)
  next
    case 2
    have lt: "\<bar>v\<bar> < 2 powi (- 6)" using 2 r(7) by simp
    have "0 < \<bar>v\<bar>" using 2 r(7) by simp
    moreover have "\<bar>v\<bar> / 2 powi (- 9) = of_int M" using 2 r(7) by simp
    ultimately have e: "e4m3_encode v = (push_bit 3 (word_of_int 0) OR word_of_int M) OR ?s"
      using lt by (simp add: e4m3_encode_def Let_def)
    show ?thesis unfolding e using 2 r(7) sv by (subst e4m3_fields) auto
  next
    case 3
    have p: "(2 powi E :: rat) = 8 * 2 powi (E - 3)" "(2 powi (E + 1) :: rat) = 16 * 2 powi (E - 3)"
      using power_int_add [of "2 :: rat" "E - 3" 3] power_int_add [of "2 :: rat" "E - 3" 4] by (simp_all add: add.commute)
    have q: "0 < (2 powi (E - 3) :: rat)" by simp
    have lo: "2 powi E \<le> \<bar>v\<bar>" unfolding r(7) p by (rule mult_right_mono) (use 3 q in auto)
    have hi: "\<bar>v\<bar> < 2 powi (E + 1)" unfolding r(7) p by (rule mult_strict_right_mono) (use r(2) q in auto)
    have f: "frexp_e \<bar>v\<bar> - 1 = E" using frexp_e_unique [OF lo hi] by simp
    have big: "2 powi (- 6) \<le> \<bar>v\<bar>" using lo power_int_increasing [OF r(3), of "2 :: rat"] by linarith
    have "\<bar>v\<bar> / 2 powi (E - 3) = of_int M" using r(7) q by simp
    then have e: "e4m3_encode v = (push_bit 3 (word_of_int (E + 7)) OR word_of_int (M - 8)) OR ?s"
      using big f by (simp add: e4m3_encode_def Let_def)
    have "(2 powi (E + 7 - 7) :: rat) * (1 + of_int (M - 8) / 8) = \<bar>v\<bar>" using p(1) r(7) by (simp add: field_simps)
    then show ?thesis unfolding e using 3 r sv by (subst e4m3_fields) (auto simp: mult.commute)
  qed
qed

lemma e4m3_scaled:
  assumes "0 \<le> a"
  shows "\<exists>E k. e4m3_quantum a = 2 powi (E - 3) \<and> - 6 \<le> E \<and> k = rint (a / e4m3_quantum a) \<and> 0 \<le> k \<and> k \<le> 16 \<and>
     (0 < a \<longrightarrow> a < 16 * e4m3_quantum a \<and> (E = - 6 \<or> 8 * e4m3_quantum a \<le> a \<and> 8 \<le> k))"
proof -
  let ?E = "max (frexp_e a - 1) (- 6)" and ?q = "e4m3_quantum a"
  have q: "?q = 2 powi (?E - 3)" "0 < ?q" by (simp_all add: e4m3_quantum_def)
  have p: "(2 powi ?E :: rat) = 8 * ?q" "(2 powi (?E + 1) :: rat) = 16 * ?q"
    using power_int_add [of "2 :: rat" "?E - 3" 3] power_int_add [of "2 :: rat" "?E - 3" 4]
    by (simp_all add: q(1) add.commute)
  have bound: "a < 16 * ?q \<and> (?E = - 6 \<or> 8 * ?q \<le> a)" if "0 < a"
  proof -
    have "a < 2 powi (frexp_e a)" by (rule frexp_e_bounds(2) [OF that])
    also have "\<dots> \<le> (2 powi (?E + 1) :: rat)" by (rule power_int_increasing) auto
    finally have "a < 16 * ?q" unfolding p .
    moreover have "8 * ?q \<le> a" if "?E \<noteq> - 6"
      using frexp_e_bounds(1) [OF \<open>0 < a\<close>] that unfolding p(1) [symmetric] by (simp add: max_def split: if_splits)
    ultimately show ?thesis by blast
  qed
  have k0: "0 \<le> rint (a / ?q) \<and> rint (a / ?q) \<le> 16"
  proof (cases "a = 0")
    case True
    then show ?thesis using rint_of_int [of 0] by simp
  next
    case False
    then have "a / ?q \<le> of_int 16" using bound assms q(2) by (simp add: field_simps)
    moreover have "of_int 0 \<le> a / ?q" using assms q(2) by simp
    ultimately show ?thesis using rint_bounds by blast
  qed
  have k8: "8 \<le> rint (a / ?q)" if "8 * ?q \<le> a"
  proof -
    have "of_int 8 \<le> a / ?q" using that q(2) by (simp add: field_simps)
    then show ?thesis using rint_bounds [of 8 "a / ?q" "\<lceil>a / ?q\<rceil>"] by linarith
  qed
  show ?thesis using q(1) k0 k8 bound by (intro exI [of _ ?E] exI [of _ "rint (a / ?q)"]) auto
qed

lemma powi_256: "9 \<le> E \<Longrightarrow> (512 :: rat) \<le> 2 powi E"
  using power_int_increasing [of 9 E "2 :: rat"] by simp

lemma e4m3_round_rep:
  assumes "e4m3_round x = Inr r"
  shows "\<exists>M E. e4m3_rep M E \<bar>r\<bar>" and "\<bar>r\<bar> = of_int (rint (\<bar>x\<bar> / e4m3_quantum \<bar>x\<bar>)) * e4m3_quantum \<bar>x\<bar>"
    and "x < 0 \<longrightarrow> r \<le> 0" and "0 \<le> x \<longrightarrow> 0 \<le> r"
proof -
  let ?q = "e4m3_quantum \<bar>x\<bar>"
  obtain E k where E: "?q = 2 powi (E - 3)" "- 6 \<le> E" "k = rint (\<bar>x\<bar> / ?q)" "0 \<le> k" "k \<le> 16"
    "0 < \<bar>x\<bar> \<longrightarrow> \<bar>x\<bar> < 16 * ?q \<and> (E = - 6 \<or> 8 * ?q \<le> \<bar>x\<bar> \<and> 8 \<le> k)"
    using e4m3_scaled [OF abs_ge_zero, of x] by blast
  have q: "0 < ?q" by (simp add: E(1))
  have le: "of_int k * ?q \<le> 448" and r: "r = (if x < 0 then - (of_int k * ?q) else of_int k * ?q)"
    using assms by (auto simp: e4m3_round_def Let_def E(3) e4m3_max_def not_less split: if_splits)
  have kq: "0 \<le> of_int k * ?q" using E(4) q by simp
  then have a: "\<bar>r\<bar> = of_int k * ?q" by (simp add: r)
  then show "\<bar>r\<bar> = of_int (rint (\<bar>x\<bar> / ?q)) * ?q" by (simp add: E(3))
  show "x < 0 \<longrightarrow> r \<le> 0" and "0 \<le> x \<longrightarrow> 0 \<le> r" using r kq by (metis neg_le_0_iff_le not_less)+
  show "\<exists>M E. e4m3_rep M E \<bar>r\<bar>"
  proof (cases "k = 0")
    case True
    then have "e4m3_rep 0 (- 6) \<bar>r\<bar>" by (simp add: e4m3_rep_def a)
    then show ?thesis by blast
  next
    case False
    then have x0: "0 < \<bar>x\<bar>" using E(3) rint_of_int [of 0] by auto
    have k1: "1 \<le> k" using False E(4) by simp
    have p: "(2 powi E :: rat) = 8 * ?q" "(2 powi (E + 1) :: rat) = 16 * ?q"
      using power_int_add [of "2 :: rat" "E - 3" 3] power_int_add [of "2 :: rat" "E - 3" 4]
      by (simp_all add: E(1) add.commute)
    have k8: "k < 8 \<Longrightarrow> E = - 6" using E(6) x0 by auto
    show ?thesis
    proof (cases "k = 16")
      case True
      have "E + 1 \<le> 8" using powi_256 [of "E + 1"] le p(2) True by (cases "9 \<le> E + 1") simp_all
      moreover have "(2 powi (E + 1 - 3) :: rat) = 2 * ?q"
        using power_int_add [of "2 :: rat" "E - 3" 1] by (simp add: E(1))
      ultimately have "e4m3_rep 8 (E + 1) \<bar>r\<bar>" using E(2) True by (simp add: e4m3_rep_def a)
      then show ?thesis by blast
    next
      case no16: False
      have "E \<le> 8"
      proof (rule ccontr)
        assume "\<not> E \<le> 8"
        then have "512 \<le> 8 * ?q" "8 \<le> k" using powi_256 [of E] p(1) k8 E(2) by linarith+
        then have "8 * ?q \<le> of_int k * ?q" using q by simp
        then show False using le \<open>512 \<le> 8 * ?q\<close> by linarith
      qed
      moreover have "k \<le> 14" if "E = 8"
      proof -
        have "?q = 32" using that E(1) by simp
        then have "of_int k * 32 \<le> (448 :: rat)" using le by simp
        then have "of_int (k * 32) \<le> (of_int 448 :: rat)" by simp
        then show ?thesis unfolding of_int_le_iff by simp
      qed
      ultimately have "e4m3_rep k E \<bar>r\<bar>" using E k1 no16 k8 a by (auto simp: e4m3_rep_def)
      then show ?thesis by blast
    qed
  qed
qed

text \<open>
  Rounding to e4m3fn is correct rounding: a value that does not raise is representable, its byte decodes to it,
  and no byte decodes to a value nearer to the input.
\<close>

lemma e4m3_round_nearest:
  assumes "e4m3_round x = Inr r"
  shows "e4m3_decode (e4m3_encode r) = Some r \<and> (\<forall>b v. e4m3_decode b = Some v \<longrightarrow> \<bar>x - r\<bar> \<le> \<bar>x - v\<bar>)"
proof (intro conjI allI impI)
  note R = e4m3_round_rep [OF assms]
  show "e4m3_decode (e4m3_encode r) = Some r" using R(1) e4m3_encode_rep by blast
  fix b v assume "e4m3_decode b = Some v"
  then obtain M F where v: "e4m3_rep M F \<bar>v\<bar>" using e4m3_decode_rep by blast
  let ?q = "e4m3_quantum \<bar>x\<bar>"
  obtain E k where E: "?q = 2 powi (E - 3)" "- 6 \<le> E" "k = rint (\<bar>x\<bar> / ?q)"
    "0 < \<bar>x\<bar> \<longrightarrow> \<bar>x\<bar> < 16 * ?q \<and> (E = - 6 \<or> 8 * ?q \<le> \<bar>x\<bar> \<and> 8 \<le> k)"
    using e4m3_scaled [OF abs_ge_zero, of x] by blast
  have q: "0 < ?q" by (simp add: E(1))
  have r: "\<bar>r\<bar> = of_int k * ?q" using R(2) E(3) by simp
  have mult: "\<bar>\<bar>x\<bar> - of_int k * ?q\<bar> \<le> \<bar>\<bar>x\<bar> - of_int m * ?q\<bar>" for m
  proof -
    have "\<bar>\<bar>x\<bar> / ?q - of_int k\<bar> * ?q \<le> \<bar>\<bar>x\<bar> / ?q - of_int m\<bar> * ?q"
      using rint_nearest [of "\<bar>x\<bar> / ?q" m] q unfolding E(3) by (intro mult_right_mono) auto
    moreover have "\<bar>\<bar>x\<bar> / ?q - of_int j\<bar> * ?q = \<bar>\<bar>x\<bar> - of_int j * ?q\<bar>" for j
    proof -
      have "\<bar>\<bar>x\<bar> / ?q - of_int j\<bar> * ?q = \<bar>(\<bar>x\<bar> / ?q - of_int j) * ?q\<bar>" using q by (simp only: abs_mult abs_of_pos)
      then show ?thesis using q by (simp add: left_diff_distrib)
    qed
    ultimately show ?thesis by simp
  qed
  have near: "\<bar>\<bar>x\<bar> - \<bar>r\<bar>\<bar> \<le> \<bar>\<bar>x\<bar> - \<bar>v\<bar>\<bar>"
  proof (cases "E \<le> F")
    case True
    have "\<bar>v\<bar> = of_int (M * 2 ^ nat (F - E)) * ?q"
      using v True power_int_add [of "2 :: rat" "F - E" "E - 3"] unfolding e4m3_rep_def E(1)
      by (simp add: power_int_nonneg_exp)
    then show ?thesis unfolding r using mult by metis
  next
    case False
    then have "E \<noteq> - 6" using v by (auto simp: e4m3_rep_def)
    show ?thesis
    proof (cases "x = 0")
      case True
      then have "k = 0" using E(3) rint_of_int [of 0] by simp
      then show ?thesis using True r by simp
    next
      case nz: False
      then have lo: "8 * ?q \<le> \<bar>x\<bar>" using E(4) \<open>E \<noteq> - 6\<close> by simp
      have "\<bar>v\<bar> \<le> 16 * 2 powi (F - 3)" using v unfolding e4m3_rep_def by auto
      also have "\<dots> \<le> 16 * 2 powi (E - 4)" using False power_int_increasing [of "F - 3" "E - 4" "2 :: rat"] by simp
      also have "\<dots> = 8 * ?q" using power_int_add [of "2 :: rat" "E - 4" 1] by (simp add: E(1))
      finally have "\<bar>v\<bar> \<le> 8 * ?q" .
      then show ?thesis using mult [of 8] lo unfolding r by simp
    qed
  qed
  have "\<bar>x - r\<bar> = \<bar>\<bar>x\<bar> - \<bar>r\<bar>\<bar>" using R(3,4) by (cases "x < 0") auto
  moreover have "\<bar>\<bar>x\<bar> - \<bar>v\<bar>\<bar> \<le> \<bar>x - v\<bar>" by (rule abs_triangle_ineq3)
  ultimately show "\<bar>x - r\<bar> \<le> \<bar>x - v\<bar>" using near by linarith
qed

text \<open>
  The overflow bound is exact: rounding raises precisely for magnitudes above 464, the midpoint between the largest
  value 448 and the place of the next one (the tie itself rounds to 448); everything else returns a value.
\<close>

lemma e4m3_overflow_exact:
  "e4m3_round x = (if 464 < \<bar>x\<bar> then Inl ValueError
     else Inr ((if x < 0 then - 1 else 1) * (of_int (rint (\<bar>x\<bar> / e4m3_quantum \<bar>x\<bar>)) * e4m3_quantum \<bar>x\<bar>)))"
proof -
  let ?q = "e4m3_quantum \<bar>x\<bar>" and ?k = "rint (\<bar>x\<bar> / e4m3_quantum \<bar>x\<bar>)"
  obtain E k where E: "?q = 2 powi (E - 3)" "- 6 \<le> E" "k = ?k" "0 \<le> k" "k \<le> 16"
    "0 < \<bar>x\<bar> \<longrightarrow> \<bar>x\<bar> < 16 * ?q \<and> (E = - 6 \<or> 8 * ?q \<le> \<bar>x\<bar> \<and> 8 \<le> k)"
    using e4m3_scaled [OF abs_ge_zero, of x] by blast
  have q: "0 < ?q" by (simp add: E(1))
  have near: "\<bar>\<bar>x\<bar> / ?q - of_int ?k\<bar> \<le> 1 / 2" by (rule rint_near)
  have "448 < of_int ?k * ?q \<longleftrightarrow> 464 < \<bar>x\<bar>"
  proof -
    consider "E \<le> 7" | "E = 8" | "9 \<le> E" by linarith
    then show ?thesis
    proof cases
      case 1
      then have q16: "?q \<le> 16" using power_int_increasing [of "E - 3" 4 "2 :: rat"] by (simp add: E(1))
      have "of_int k * ?q \<le> 16 * 16" using E(4,5) q q16 by (intro mult_mono) auto
      moreover have "\<bar>x\<bar> \<le> 16 * 16" using E(6) q16 q by (cases "x = 0") auto
      ultimately show ?thesis using E(3) by simp
    next
      case 2
      then have q32: "?q = 32" by (simp add: E(1))
      show ?thesis
      proof (cases "\<bar>x\<bar> = 464")
        case True
        have "?k = rint (\<bar>x\<bar> / 32)" by (simp only: q32)
        also have "\<dots> = 14" unfolding True by code_simp
        finally have "?k = 14" .
        then show ?thesis using True q32 by (simp only:) simp
      next
        case False
        have "464 < \<bar>x\<bar> \<longleftrightarrow> 15 \<le> ?k"
        proof
          assume "464 < \<bar>x\<bar>"
          then have "(14 :: rat) < of_int ?k" using near unfolding q32 abs_le_iff by linarith
          then show "15 \<le> ?k" by linarith
        next
          assume "15 \<le> ?k"
          then have "(15 :: rat) \<le> of_int ?k" by linarith
          then show "464 < \<bar>x\<bar>" using near False unfolding q32 abs_le_iff by linarith
        qed
        moreover have "448 < of_int ?k * (32 :: rat) \<longleftrightarrow> 15 \<le> ?k" by linarith
        ultimately show ?thesis by (simp add: q32)
      qed
    next
      case 3
      then have q64: "64 \<le> ?q" using power_int_increasing [of 6 "E - 3" "2 :: rat"] by (simp add: E(1))
      have x0: "0 < \<bar>x\<bar>"
      proof (rule ccontr)
        assume "\<not> 0 < \<bar>x\<bar>"
        then have "?q = 2 powi (- 4)" by (simp add: e4m3_quantum_def frexp_e_def)
        then show False using q64 by (simp add: power_int_minus)
      qed
      then have "8 * ?q \<le> \<bar>x\<bar>" "8 \<le> k" using E(6) 3 by auto
      moreover have "8 * 64 \<le> of_int k * ?q" using \<open>8 \<le> k\<close> q64 by (intro mult_mono) auto
      ultimately show ?thesis using q64 E(3) by auto
    qed
  qed
  then show ?thesis by (simp add: e4m3_round_def Let_def e4m3_max_def)
qed

section \<open>Properties of e2m1 and of the packing\<close>

lemma nearer: "(v < t \<longrightarrow> v + t \<le> 2 * a) \<and> (t < v \<longrightarrow> 2 * a \<le> v + t) \<Longrightarrow> \<bar>a - t\<bar> \<le> \<bar>a - v\<bar>" for a t v :: rat
  by (cases v t rule: linorder_cases) (auto simp: abs_if)

lemma strictly_nearer:
  "v \<noteq> t \<Longrightarrow> (v < t \<longrightarrow> v + t < 2 * a) \<and> (t < v \<longrightarrow> 2 * a < v + t) \<Longrightarrow> \<bar>a - t\<bar> < \<bar>a - v\<bar>" for a t v :: rat
  by (cases v t rule: linorder_cases) (auto simp: abs_if)

text \<open>The interval of a code, closed for the even ones.\<close>

definition code_interval :: "nat \<Rightarrow> rat \<Rightarrow> bool" where
  "code_interval c a \<longleftrightarrow>
     list_all (\<lambda>v. (v < e2m1_table ! c \<longrightarrow> v + e2m1_table ! c \<le> 2 * a) \<and> (e2m1_table ! c < v \<longrightarrow> 2 * a \<le> v + e2m1_table ! c)) e2m1_table \<and>
     (even c \<or> list_all (\<lambda>v. (v < e2m1_table ! c \<longrightarrow> v + e2m1_table ! c < 2 * a) \<and> (e2m1_table ! c < v \<longrightarrow> 2 * a < v + e2m1_table ! c)) e2m1_table)"

lemma code_interval_of:
  assumes "0 \<le> a" "a \<le> 6"
  shows "count_mid 0 a e2m1_mid < 8 \<and> code_interval (count_mid 0 a e2m1_mid) a"
proof -
  have m: "count_mid 0 a e2m1_mid =
      (if 1 / 4 < a then 1 else 0) + (if 3 / 4 \<le> a then 1 else 0) + (if 5 / 4 < a then 1 else 0) + (if 7 / 4 \<le> a then 1 else 0) +
      (if 5 / 2 < a then 1 else 0) + (if 7 / 2 \<le> a then 1 else 0) + (if 5 < a then 1 else 0)"
    by (simp add: e2m1_mid_def)
  consider (c0) "a \<le> 1 / 4" | (c1) "1 / 4 < a" "a < 3 / 4" | (c2) "3 / 4 \<le> a" "a \<le> 5 / 4" | (c3) "5 / 4 < a" "a < 7 / 4"
    | (c4) "7 / 4 \<le> a" "a \<le> 5 / 2" | (c5) "5 / 2 < a" "a < 7 / 2" | (c6) "7 / 2 \<le> a" "a \<le> 5" | (c7) "5 < a" by linarith
  then show ?thesis
  proof cases
    case c0 then have "count_mid 0 a e2m1_mid = 0" unfolding m by simp
    then show ?thesis using c0 by (simp add: code_interval_def e2m1_table_def)
  next
    case c1 then have "count_mid 0 a e2m1_mid = 1" unfolding m by simp
    then show ?thesis using c1 by (simp add: code_interval_def e2m1_table_def)
  next
    case c2 then have "count_mid 0 a e2m1_mid = 2" unfolding m by simp
    then show ?thesis using c2 by (simp add: code_interval_def e2m1_table_def)
  next
    case c3 then have "count_mid 0 a e2m1_mid = 3" unfolding m by simp
    then show ?thesis using c3 by (simp add: code_interval_def e2m1_table_def)
  next
    case c4 then have "count_mid 0 a e2m1_mid = 4" unfolding m by simp
    then show ?thesis using c4 by (simp add: code_interval_def e2m1_table_def)
  next
    case c5 then have "count_mid 0 a e2m1_mid = 5" unfolding m by simp
    then show ?thesis using c5 by (simp add: code_interval_def e2m1_table_def)
  next
    case c6 then have "count_mid 0 a e2m1_mid = 6" unfolding m by simp
    then show ?thesis using c6 by (simp add: code_interval_def e2m1_table_def)
  next
    case c7 then have "count_mid 0 a e2m1_mid = 7" unfolding m by simp
    then show ?thesis using c7 by (simp add: code_interval_def e2m1_table_def)
  qed
qed

lemma e2m1_code:
  assumes "0 \<le> a" "a \<le> 6"
  defines "code \<equiv> count_mid 0 a e2m1_mid"
  shows "code < 8 \<and> (\<forall>v\<in>set e2m1_table. \<bar>a - e2m1_table ! code\<bar> \<le> \<bar>a - v\<bar>) \<and>
     (\<forall>v\<in>set e2m1_table. v \<noteq> e2m1_table ! code \<and> \<bar>a - v\<bar> = \<bar>a - e2m1_table ! code\<bar> \<longrightarrow> even code)"
proof -
  have I: "code < 8" "code_interval code a" using code_interval_of [OF assms(1,2)] by (simp_all add: code_def)
  have "\<bar>a - e2m1_table ! code\<bar> \<le> \<bar>a - v\<bar>" if "v \<in> set e2m1_table" for v
    by (rule nearer) (use I(2) that in \<open>auto simp: code_interval_def list_all_iff\<close>)
  moreover have "even code" if v: "v \<in> set e2m1_table" "v \<noteq> e2m1_table ! code" "\<bar>a - v\<bar> = \<bar>a - e2m1_table ! code\<bar>" for v
  proof (rule ccontr)
    assume "odd code"
    then have "\<bar>a - e2m1_table ! code\<bar> < \<bar>a - v\<bar>"
      by (intro strictly_nearer) (use I(2) v(1,2) in \<open>auto simp: code_interval_def list_all_iff\<close>)
    then show False using v(3) by simp
  qed
  ultimately show ?thesis using I(1) by blast
qed

lemma unat_nibble: "code < 8 \<Longrightarrow> s < 2 \<Longrightarrow> unat (word_of_nat code OR push_bit 3 (word_of_nat s) :: byte) = 8 * s + code"
proof -
  assume a: "code < 8" "s < 2"
  have "unat (word_of_nat code :: byte) = code" "unat (word_of_nat s :: byte) = s"
    using a by (simp_all add: unsigned_of_nat take_bit_nat_eq_self)
  then show ?thesis using a unat_push [of "word_of_nat s :: byte" 3] or_low [of code 3 s]
    by (simp add: unat_or or.commute [of code] mult.commute)
qed

lemma e2m1_decode_fields:
  assumes "unat c = 8 * s + code" "code < 8" "s < 2"
  shows "e2m1_decode c = (if s = 1 then - 1 else 1) * e2m1_table ! code"
proof -
  have "unat (c AND 7) = code" using unat_and_mask [of "7 :: byte" 3 c] assms by simp
  moreover have "(c AND 8 \<noteq> 0) \<longleftrightarrow> s = 1"
  proof -
    have "(c AND 2 ^ 3 = 0) = (\<not> bit c 3)" by (rule and_exp_eq_0_iff_not_bit)
    moreover have "bit c 3 \<longleftrightarrow> odd (unat c div 8)" using bit_unsigned_iff [of c 3, where ?'a = nat] by (simp add: bit_iff_odd)
    moreover have "unat c div 8 = s" using assms by simp
    ultimately show ?thesis using assms(3) by (cases s) auto
  qed
  ultimately show ?thesis by (simp add: e2m1_decode_def)
qed

text \<open>
  The FP4 code is the nearest one: \<open>e2m1_encode\<close> gives a code of four bits whose value is, among all values of the
  format with the input's sign, nearest to the input saturated at 6; of two equally near it is the one with the
  even code; and the value of every code but negative zero encodes to that value again.
\<close>

lemma e2m1_nearest:
  "\<bar>e2m1_decode (e2m1_encode x)\<bar> \<in> set e2m1_table \<and> unat (e2m1_encode x) < 16 \<and>
   (\<forall>v\<in>set e2m1_table. \<bar>min \<bar>x\<bar> 6 - \<bar>e2m1_decode (e2m1_encode x)\<bar>\<bar> \<le> \<bar>min \<bar>x\<bar> 6 - v\<bar>) \<and>
   (\<forall>v\<in>set e2m1_table. v \<noteq> \<bar>e2m1_decode (e2m1_encode x)\<bar> \<and>
      \<bar>min \<bar>x\<bar> 6 - v\<bar> = \<bar>min \<bar>x\<bar> 6 - \<bar>e2m1_decode (e2m1_encode x)\<bar>\<bar> \<longrightarrow> even (unat (e2m1_encode x))) \<and>
   (\<bar>x\<bar> \<in> set e2m1_table \<longrightarrow> e2m1_decode (e2m1_encode x) = x)"
proof -
  let ?a = "min \<bar>x\<bar> 6"
  define code where "code = count_mid 0 ?a e2m1_mid"
  define s where "s = (if x < 0 \<and> code \<noteq> 0 then 1 else 0 :: nat)"
  have C: "code < 8" "\<forall>v\<in>set e2m1_table. \<bar>?a - e2m1_table ! code\<bar> \<le> \<bar>?a - v\<bar>"
    "\<forall>v\<in>set e2m1_table. v \<noteq> e2m1_table ! code \<and> \<bar>?a - v\<bar> = \<bar>?a - e2m1_table ! code\<bar> \<longrightarrow> even code"
    using e2m1_code [of ?a] unfolding code_def by auto
  have s: "s < 2" by (simp add: s_def)
  have enc: "e2m1_encode x = word_of_nat code OR push_bit 3 (word_of_nat s)"
  proof -
    have "e2m1_encode x = word_of_nat code OR push_bit 3 (if x < 0 \<and> code \<noteq> 0 then 1 else 0)"
      unfolding e2m1_encode_def Let_def code_def by (rule refl)
    then show ?thesis unfolding s_def by (cases "x < 0 \<and> code \<noteq> 0") auto
  qed
  have u: "unat (e2m1_encode x) = 8 * s + code" unfolding enc by (rule unat_nibble [OF C(1) s])
  have d: "e2m1_decode (e2m1_encode x) = (if s = 1 then - 1 else 1) * e2m1_table ! code"
    by (rule e2m1_decode_fields [OF u C(1) s])
  have t: "e2m1_table ! code \<in> set e2m1_table" by (rule nth_mem) (use C(1) in \<open>simp add: e2m1_table_def\<close>)
  then have pos: "0 \<le> e2m1_table ! code" by (auto simp: e2m1_table_def)
  then have ad: "\<bar>e2m1_decode (e2m1_encode x)\<bar> = e2m1_table ! code" by (simp add: d)
  have rt: "e2m1_decode (e2m1_encode x) = x" if x: "\<bar>x\<bar> \<in> set e2m1_table"
  proof -
    have "\<bar>x\<bar> \<le> 6" using x by (auto simp: e2m1_table_def)
    then have a: "?a = \<bar>x\<bar>" by simp
    have "e2m1_table ! code = \<bar>x\<bar>" using C(2) [rule_format, OF x] unfolding a by simp
    moreover have "code = 0 \<Longrightarrow> e2m1_table ! code = 0" by (simp add: e2m1_table_def)
    ultimately show ?thesis unfolding d s_def by auto
  qed
  have "even (unat (e2m1_encode x)) = even code" by (simp add: u)
  then show ?thesis using C s t u rt unfolding ad by auto
qed

lemma evens_Cons: "evens (y # xs) = y # evens (tl xs)"
  by (cases xs) simp_all

lemma evens_odds_length: "even (length cs) \<Longrightarrow> length (evens cs) = length cs div 2 \<and> length (odds cs) = length cs div 2"
  by (induction cs rule: evens.induct) (auto simp: odds_def evens_Cons)

lemma nibbles_of_pair:
  assumes "unat lo < 16" "unat hi < 16"
  shows "(lo OR push_bit 4 hi) AND 0xF = lo \<and> drop_bit 4 (lo OR push_bit 4 hi) = (hi :: byte)"
proof -
  have "unat (push_bit 4 hi) = unat hi * 16" using assms unat_push [of hi 4] by simp
  then have u: "unat (lo OR push_bit 4 hi) = unat hi * 16 + unat lo"
    using assms or_low [of "unat lo" 4 "unat hi"] by (simp add: unat_or or.commute)
  have "unat ((lo OR push_bit 4 hi) AND 0xF) = unat lo"
    using unat_and_mask [of "0xF :: byte" 4 "lo OR push_bit 4 hi"] u assms by simp
  moreover have "unat (drop_bit 4 (lo OR push_bit 4 hi)) = unat hi" using u assms by (simp only: unat_drop) simp
  ultimately show ?thesis by (simp only: word_unat_eq_iff)
qed

lemma pair_of_nibbles: "(b AND 0xF) OR push_bit 4 (drop_bit 4 b) = (b :: byte)"
proof -
  have b: "unat b < 256" using unsigned_less [of b] by simp
  have lo: "unat (b AND 0xF) = unat b mod 16" using unat_and_mask [of "0xF :: byte" 4 b] by simp
  have hi: "unat (drop_bit 4 b) = unat b div 16" by (simp only: unat_drop) simp
  have "unat (push_bit 4 (drop_bit 4 b)) = unat b div 16 * 16" using b hi unat_push [of "drop_bit 4 b" 4] by simp
  then have "unat ((b AND 0xF) OR push_bit 4 (drop_bit 4 b)) = unat b div 16 * 16 + unat b mod 16"
    using or_low [of "unat b mod 16" 4 "unat b div 16"] by (simp add: unat_or lo or.commute)
  then show ?thesis by (simp only: word_unat_eq_iff) simp
qed

text \<open>
  Packing and unpacking four-bit codes are inverse: an even number of codes below 16 packs into half as many bytes
  that unpack to the same codes, and any bytes unpack to codes below 16 that pack into the same bytes.
\<close>

lemma nibbles_roundtrip:
  "(even (length cs) \<and> (\<forall>c\<in>set cs. unat c < 16) \<longrightarrow>
      (\<exists>p. pack_nibbles cs = Inr p \<and> 2 * length p = length cs \<and> unpack_nibbles p = cs)) \<and>
   pack_nibbles (unpack_nibbles p) = Inr p \<and> (\<forall>c\<in>set (unpack_nibbles p). unat c < 16)"
proof -
  let ?f = "\<lambda>lo hi. lo OR push_bit 4 hi :: byte"
  have pk: "pack_nibbles cs = Inr (map2 ?f (evens cs) (odds cs))" if "even (length cs)" for cs
    using evens_odds_length [OF that] by (simp add: pack_nibbles_def broadcast2_def)
  have "unpack_nibbles (map2 ?f (evens cs) (odds cs)) = cs" if "even (length cs)" "\<forall>c\<in>set cs. unat c < 16" for cs
    using that
  proof (induction cs rule: evens.induct)
    case (3 x y xs)
    then show ?case using nibbles_of_pair [of x y] by (cases xs) (auto simp: odds_def unpack_nibbles_def)
  qed (auto simp: odds_def unpack_nibbles_def)
  moreover have "evens (unpack_nibbles p) = map (\<lambda>b. b AND 0xF) p \<and> odds (unpack_nibbles p) = map (drop_bit 4) p \<and>
      even (length (unpack_nibbles p))" for p
  proof (induction p)
    case (Cons b p)
    then show ?case by (cases p) (auto simp: unpack_nibbles_def odds_def)
  qed (simp add: unpack_nibbles_def odds_def)
  then have "pack_nibbles (unpack_nibbles p) = Inr (map2 ?f (map (\<lambda>b. b AND 0xF) p) (map (drop_bit 4) p))" for p
    using pk by simp
  moreover have "map2 ?f (map (\<lambda>b. b AND 0xF) p) (map (drop_bit 4) p) = p"
    by (induction p) (simp_all add: pair_of_nibbles)
  moreover have "unat (b AND 0xF) < 16" "unat (drop_bit 4 b) < 16" for b :: byte
  proof -
    show "unat (b AND 0xF) < 16" using unat_and_mask [of "0xF :: byte" 4 b] by simp
    show "unat (drop_bit 4 b) < 16" proof -
      have "unat b < 256" using unsigned_less [of b] by simp
      then show ?thesis by (simp only: unat_drop) simp
    qed
  qed
  ultimately show ?thesis using pk evens_odds_length [of cs] by (fastforce simp: unpack_nibbles_def)
qed

end
