(* ===== verification/Safetensors.thy ===== *)
theory Safetensors
  imports Fp_Formats "HOL-Library.AList" "HOL-Library.Countable"
begin

text \<open>
  The safetensors writer and reader of \<open>src/overlay/fpfmt.py\<close>: eight bytes of header length, the JSON header padded
  with spaces to a multiple of eight, the raw tensors one after the other. Files are byte lists; a tensor is its dtype
  name, its shape and its raw elements. The JSON encoder and decoder are the parameters \<open>dumps\<close> and \<open>loads\<close>. The
  temporary file and its rename are left out.
\<close>

definition st_sizes :: "(string \<times> nat) list" where
  "st_sizes = [(''BF16'', 2), (''F16'', 2), (''F32'', 4), (''F64'', 8), (''U8'', 1), (''I8'', 1), (''I16'', 2),
               (''I32'', 4), (''I64'', 8), (''F8_E4M3'', 1), (''BOOL'', 1)]"

record tensor =
  t_dtype :: string
  t_shape :: "nat list"
  t_raw :: "byte list"

datatype hval = H_tensor string "nat list" nat nat | H_meta "(string \<times> string) list"

type_synonym header = "(string \<times> hval) list"

definition meta_key :: string where
  "meta_key = ''__metadata__''"

fun le_bytes :: "nat \<Rightarrow> nat \<Rightarrow> byte list" where
  "le_bytes 0 n = []"
| "le_bytes (Suc k) n = word_of_nat n # le_bytes k (n div 256)"

fun le_nat :: "byte list \<Rightarrow> nat" where
  "le_nat [] = 0"
| "le_nat (b # bs) = unat b + 256 * le_nat bs"

section \<open>Writing\<close>

fun st_layout :: "(string \<times> tensor) list \<Rightarrow> nat \<Rightarrow> header \<Rightarrow> byte list \<Rightarrow> (header \<times> byte list) result" where
  "st_layout [] off hdr blob = Inr (hdr, blob)"
| "st_layout ((name, t) # ts) off hdr blob =
     (case map_of st_sizes (t_dtype t) of
        None \<Rightarrow> Inl KeyError
      | Some _ \<Rightarrow>
          st_layout ts (off + length (t_raw t))
            (AList.update name (H_tensor (t_dtype t) (t_shape t) off (off + length (t_raw t))) hdr) (blob @ t_raw t))"

definition pad8 :: "byte list \<Rightarrow> byte list" where
  "pad8 hb = hb @ replicate (nat ((- int (length hb)) mod 8)) 0x20"

definition save_safetensors ::
    "(header \<Rightarrow> byte list) \<Rightarrow> (string \<times> tensor) list \<Rightarrow> (string \<times> string) list \<Rightarrow> byte list result" where
  "save_safetensors dumps tensors metadata =
     bind_r (st_layout tensors 0 [] []) (\<lambda>(hdr, blob).
       let hdr1 = (if metadata \<noteq> [] then AList.update meta_key (H_meta metadata) hdr else hdr);
           hb = pad8 (dumps hdr1)
       in if 2 ^ 64 \<le> length hb then Inl ValueError
          else Inr (le_bytes 8 (length hb) @ hb @ blob))"

section \<open>Reading\<close>

record st_reader =
  sr_file :: "byte list"
  sr_header :: header
  sr_base :: nat
  sr_meta :: "hval option"

definition st_open :: "(byte list \<Rightarrow> header option) \<Rightarrow> byte list \<Rightarrow> st_reader result" where
  "st_open loads file =
     (if length file < 8 then Inl ValueError
      else let n = le_nat (take 8 file)
           in case loads (take n (drop 8 file)) of
                None \<Rightarrow> Inl ValueError
              | Some hdr \<Rightarrow>
                  Inr \<lparr>sr_file = file, sr_header = AList.delete meta_key hdr, sr_base = 8 + n,
                       sr_meta = map_of hdr meta_key\<rparr>)"

definition st_keys :: "st_reader \<Rightarrow> string list" where
  "st_keys r = map fst (sr_header r)"

definition st_info :: "st_reader \<Rightarrow> string \<Rightarrow> (string \<times> nat list) result" where
  "st_info r name =
     (case map_of (sr_header r) name of
        None \<Rightarrow> Inl KeyError
      | Some (H_meta _) \<Rightarrow> Inl KeyError
      | Some (H_tensor dt sh a b) \<Rightarrow> Inr (dt, sh))"

text \<open>\<open>rows\<close> slices the first axis, and is ignored for a scalar.\<close>

definition st_get :: "st_reader \<Rightarrow> string \<Rightarrow> (nat \<times> nat) option \<Rightarrow> byte list result" where
  "st_get r name rows =
     (case map_of (sr_header r) name of
        None \<Rightarrow> Inl KeyError
      | Some (H_meta _) \<Rightarrow> Inl KeyError
      | Some (H_tensor dt sh a b) \<Rightarrow>
          (case map_of st_sizes dt of
             None \<Rightarrow> Inl KeyError
           | Some sz \<Rightarrow>
               let len = prod_list sh * sz; start = sr_base r + a; row = prod_list (tl sh) * sz
               in if length (sr_file r) < start + len then Inl ValueError
                  else let raw = take len (drop start (sr_file r))
                       in Inr (if sh = [] then raw
                               else case rows of None \<Rightarrow> raw | Some (i, j) \<Rightarrow> py_slice raw (row * i) (row * j))))"

section \<open>Properties\<close>

lemma le_nat_bytes: "le_nat (le_bytes k n) = n mod 256 ^ k"
proof (induction k arbitrary: n)
  case (Suc k)
  have "n mod 256 ^ Suc k = 256 * (n div 256 mod 256 ^ k) + n mod 256" by (simp add: mod_mult2_eq)
  then show ?case using Suc by (simp add: unsigned_of_nat take_bit_eq_mod)
qed simp

lemma length_le_bytes [simp]: "length (le_bytes k n) = k"
  by (induction k arbitrary: n) simp_all

lemma length_pad8: "8 dvd length (pad8 hb)"
proof -
  have "int (length (pad8 hb)) = int (length hb) + (- int (length hb)) mod 8" by (simp add: pad8_def)
  also have "\<dots> mod 8 = 0" by (simp add: mod_add_right_eq)
  finally have "int (length (pad8 hb)) mod 8 = 0" .
  then show ?thesis by presburger
qed

text \<open>What the layout loop leaves: every tensor's extent in the blob, and the names in order behind what was there.\<close>

definition laid_out :: "header \<Rightarrow> byte list \<Rightarrow> string \<times> tensor \<Rightarrow> bool" where
  "laid_out hdr blob x \<longleftrightarrow>
     (\<exists>a. map_of hdr (fst x) = Some (H_tensor (t_dtype (snd x)) (t_shape (snd x)) a (a + length (t_raw (snd x)))) \<and>
          a + length (t_raw (snd x)) \<le> length blob \<and> take (length (t_raw (snd x))) (drop a blob) = t_raw (snd x))"

lemma update_new: "k \<notin> fst ` set al \<Longrightarrow> AList.update k v al = al @ [(k, v)]"
  by (induction al) auto

lemma st_layout_props:
  "st_layout ts off hdr blob = Inr (hdr', blob') \<Longrightarrow> off = length blob \<Longrightarrow> distinct (map fst ts) \<Longrightarrow>
   fst ` set ts \<inter> fst ` set hdr = {} \<Longrightarrow>
   map fst hdr' = map fst hdr @ map fst ts \<and> (\<exists>more. blob' = blob @ more) \<and>
   (\<forall>x\<in>set ts. laid_out hdr' blob' x \<and> map_of st_sizes (t_dtype (snd x)) \<noteq> None) \<and>
   (\<forall>k. k \<notin> fst ` set ts \<longrightarrow> map_of hdr' k = map_of hdr k)"
proof (induction ts off hdr blob rule: st_layout.induct)
  case (2 name t ts off hdr blob)
  let ?v = "H_tensor (t_dtype t) (t_shape t) off (off + length (t_raw t))"
  let ?h = "AList.update name ?v hdr"
  obtain sz where sz: "map_of st_sizes (t_dtype t) = Some sz" using "2.prems"(1) by (auto split: option.splits)
  have lay: "st_layout ts (off + length (t_raw t)) ?h (blob @ t_raw t) = Inr (hdr', blob')"
    using "2.prems"(1) sz by simp
  have new: "name \<notin> fst ` set hdr" and h: "?h = hdr @ [(name, ?v)]" using "2.prems"(4) by (auto intro!: update_new)
  have dis: "fst ` set ts \<inter> fst ` set ?h = {}" using "2.prems"(3,4) unfolding h by auto
  have I: "map fst hdr' = map fst ?h @ map fst ts \<and> (\<exists>more. blob' = (blob @ t_raw t) @ more) \<and>
      (\<forall>x\<in>set ts. laid_out hdr' blob' x \<and> map_of st_sizes (t_dtype (snd x)) \<noteq> None) \<and>
      (\<forall>k. k \<notin> fst ` set ts \<longrightarrow> map_of hdr' k = map_of ?h k)"
    by (rule "2.IH" [OF sz lay]) (use "2.prems"(2,3) dis in simp_all)
  then obtain more where m: "blob' = (blob @ t_raw t) @ more" by blast
  have nt: "name \<notin> fst ` set ts" using "2.prems"(3) by simp
  have "map_of hdr' name = Some ?v" using I nt new by (simp add: h map_add_Some_iff map_of_eq_None_iff)
  then have "laid_out hdr' blob' (name, t)"
    using "2.prems"(2) by (auto simp: laid_out_def m)
  moreover have "map_of ?h k = map_of hdr k" if "k \<noteq> name" for k using that by (simp add: h map_add_def split: option.split)
  ultimately show ?case using I sz m by (auto simp: h)
qed auto

text \<open>
  C28. What is saved reads back: for tensors with distinct names, known dtypes and raw data of the size their shape says, and
  a JSON codec that reads its own padded output, the file opens, lists the tensors in order, returns the metadata, and
  every tensor has its dtype, shape and exact bytes; the data section starts at a multiple of eight.
\<close>

theorem safetensors_roundtrip:
  assumes "save_safetensors dumps tensors metadata = Inr file"
    and "distinct (map fst tensors)" and "meta_key \<notin> fst ` set tensors"
    and "\<And>hdr n. n < 8 \<Longrightarrow> loads (dumps hdr @ replicate n 0x20) = Some hdr"
    and "\<forall>x\<in>set tensors. \<forall>sz. map_of st_sizes (t_dtype (snd x)) = Some sz \<longrightarrow>
           length (t_raw (snd x)) = prod_list (t_shape (snd x)) * sz"
  shows "\<exists>r. st_open loads file = Inr r \<and> st_keys r = map fst tensors \<and> 8 dvd sr_base r \<and>
     sr_meta r = (if metadata = [] then None else Some (H_meta metadata)) \<and>
     (\<forall>x\<in>set tensors. st_info r (fst x) = Inr (t_dtype (snd x), t_shape (snd x)) \<and>
        st_get r (fst x) None = Inr (t_raw (snd x)))"
proof -
  obtain hdr blob where lay: "st_layout tensors 0 [] [] = Inr (hdr, blob)"
    using assms(1) by (cases "st_layout tensors 0 [] []") (auto simp: save_safetensors_def)
  note P = st_layout_props [OF lay _ assms(2)]
  have names: "map fst hdr = map fst tensors" and out: "\<And>x. x \<in> set tensors \<Longrightarrow> laid_out hdr blob x \<and> map_of st_sizes (t_dtype (snd x)) \<noteq> None"
    and other: "\<And>k. k \<notin> fst ` set tensors \<Longrightarrow> map_of hdr k = None"
    using P by simp_all
  define hdr1 where "hdr1 = (if metadata \<noteq> [] then AList.update meta_key (H_meta metadata) hdr else hdr)"
  define hb where "hb = pad8 (dumps hdr1)"
  have len: "length hb < 2 ^ 64" and fl: "file = le_bytes 8 (length hb) @ hb @ blob"
    using assms(1) by (auto simp: save_safetensors_def lay Let_def hdr1_def hb_def split: if_splits)
  have mk: "meta_key \<notin> fst ` set hdr" using assms(3) names by (metis image_set)
  then have h1: "hdr1 = hdr @ (if metadata = [] then [] else [(meta_key, H_meta metadata)])"
    by (simp add: hdr1_def update_new)
  have del: "AList.delete meta_key hdr1 = hdr"
    using mk by (auto simp: h1 AList.delete_eq filter_id_conv image_iff)
  have mt: "map_of hdr1 meta_key = (if metadata = [] then None else Some (H_meta metadata))"
    using other [OF assms(3)] by (simp add: h1 map_add_def)
  have n: "le_nat (take 8 file) = length hb" using len by (simp add: fl le_nat_bytes)
  have ld: "loads (take (length hb) (drop 8 file)) = Some hdr1"
    using assms(4) by (simp add: fl hb_def pad8_def nat_less_iff)
  define r where "r = \<lparr>sr_file = file, sr_header = hdr, sr_base = 8 + length hb,
       sr_meta = (if metadata = [] then None else Some (H_meta metadata))\<rparr>"
  have op: "st_open loads file = Inr r" using n ld del mt by (simp add: st_open_def r_def Let_def fl)
  have "st_info r (fst x) = Inr (t_dtype (snd x), t_shape (snd x)) \<and> st_get r (fst x) None = Inr (t_raw (snd x))"
    if x: "x \<in> set tensors" for x
  proof -
    obtain a where a: "map_of hdr (fst x) = Some (H_tensor (t_dtype (snd x)) (t_shape (snd x)) a (a + length (t_raw (snd x))))"
      "a + length (t_raw (snd x)) \<le> length blob" "take (length (t_raw (snd x))) (drop a blob) = t_raw (snd x)"
      using out [OF x] by (auto simp: laid_out_def)
    obtain sz where sz: "map_of st_sizes (t_dtype (snd x)) = Some sz" using out [OF x] by blast
    have l: "prod_list (t_shape (snd x)) * sz = length (t_raw (snd x))" using assms(5) x sz by auto
    show ?thesis using a sz l by (simp add: st_info_def st_get_def r_def Let_def fl)
  qed
  moreover have "8 dvd sr_base r" using length_pad8 by (simp add: r_def hb_def)
  ultimately show ?thesis using op names by (intro exI [of _ r]) (simp add: st_keys_def r_def)
qed

text \<open>
  A codec for every header, to show that the hypothesis can hold: the header of the example is one byte, any other one is
  its number in unary.
\<close>

instance hval :: countable
  by countable_datatype

definition demo_tensors :: "(string \<times> tensor) list" where
  "demo_tensors = [(''w'', \<lparr>t_dtype = ''BF16'', t_shape = [2], t_raw = [1, 2, 3, 4]\<rparr>),
                   (''s'', \<lparr>t_dtype = ''U8'', t_shape = [], t_raw = [9]\<rparr>)]"

definition demo_header :: header where
  "demo_header = [(''w'', H_tensor ''BF16'' [2] 0 4), (''s'', H_tensor ''U8'' [] 4 5)]"

definition demo_dumps :: "header \<Rightarrow> byte list" where
  "demo_dumps h = (if h = demo_header then [2] else replicate (Suc (to_nat h)) 1)"

definition demo_loads :: "byte list \<Rightarrow> header option" where
  "demo_loads bs = (if hd bs = 2 then Some demo_header else Some (from_nat (length (takeWhile ((=) 1) bs) - 1)))"

lemma demo_codec: "n < 8 \<Longrightarrow> demo_loads (demo_dumps h @ replicate n 0x20) = Some h"
proof -
  have t: "takeWhile ((=) (1 :: byte)) (replicate k 1 @ replicate n 0x20) = replicate k 1" for k
    by (subst takeWhile_append2) (auto simp: takeWhile_replicate)
  show ?thesis
  proof (cases "h = demo_header")
    case False
    then show ?thesis using t [of "Suc (to_nat h)"] by (simp add: demo_loads_def demo_dumps_def)
  qed (simp add: demo_loads_def demo_dumps_def)
qed

lemma safetensors_roundtrip_witness:
  "\<exists>r. st_open demo_loads ([8, 0, 0, 0, 0, 0, 0, 0] @ pad8 [2] @ [1, 2, 3, 4, 9]) = Inr r \<and>
     st_keys r = [''w'', ''s''] \<and> st_get r ''s'' None = Inr [9] \<and> st_get r ''w'' None = Inr [1, 2, 3, 4]"
proof -
  have s: "save_safetensors demo_dumps demo_tensors [] = Inr ([8, 0, 0, 0, 0, 0, 0, 0] @ pad8 [2] @ [1, 2, 3, 4, 9])"
  proof -
    have "st_layout demo_tensors 0 [] [] = Inr (demo_header, [1, 2, 3, 4, 9])"
      by (simp add: demo_tensors_def demo_header_def st_sizes_def)
    moreover have "length (pad8 [2]) = 8" by (simp add: pad8_def)
    moreover have "le_bytes 8 8 = [8, 0, 0, 0, 0, 0, 0, 0]" by code_simp
    ultimately show ?thesis by (simp add: save_safetensors_def demo_dumps_def Let_def)
  qed
  have d: "distinct (map fst demo_tensors)" and m: "meta_key \<notin> fst ` set demo_tensors"
    by (simp_all add: demo_tensors_def meta_key_def)
  have l: "\<forall>x\<in>set demo_tensors. \<forall>sz. map_of st_sizes (t_dtype (snd x)) = Some sz \<longrightarrow>
      length (t_raw (snd x)) = prod_list (t_shape (snd x)) * sz"
    by (simp add: demo_tensors_def st_sizes_def)
  obtain r where "st_open demo_loads ([8, 0, 0, 0, 0, 0, 0, 0] @ pad8 [2] @ [1, 2, 3, 4, 9]) = Inr r"
    "st_keys r = map fst demo_tensors"
    "\<forall>x\<in>set demo_tensors. st_info r (fst x) = Inr (t_dtype (snd x), t_shape (snd x)) \<and> st_get r (fst x) None = Inr (t_raw (snd x))"
    using safetensors_roundtrip [where loads = demo_loads, OF s d m demo_codec l] by blast
  then show ?thesis by (intro exI [of _ r]) (simp add: demo_tensors_def)
qed

end
