(* ===== verification/Cert_Head.thy ===== *)
theory Cert_Head
  imports Fp_Formats
begin

text \<open>
  The certified argmax of the language-model head (\<open>src/overlay/cert_math.py\<close>, the reference of the GPU code): screening
  copies of one byte per weight, residual-norm tables, rounded intervals around the screened scores, candidate
  pruning, exact recomputation of the candidates and the reduction over ranks. Matrices are lists of rows. Float64
  arithmetic is exact on rationals; float32 and bf16 are rounded explicitly, infinities included; \<open>np.sqrt\<close> is the
  parameter \<open>nsqrt\<close>. NaN does not arise from the finite inputs that pass the status check and has no value.
\<close>

section \<open>Floats with infinities\<close>

datatype fval = NegInf | Fin rat | PosInf

instantiation fval :: linorder
begin

definition less_eq_fval :: "fval \<Rightarrow> fval \<Rightarrow> bool" where
  "less_eq_fval a b = (case (a, b) of (NegInf, _) \<Rightarrow> True | (_, PosInf) \<Rightarrow> True | (Fin x, Fin y) \<Rightarrow> x \<le> y | _ \<Rightarrow> False)"

definition less_fval :: "fval \<Rightarrow> fval \<Rightarrow> bool" where
  "less_fval a b = (a \<le> b \<and> a \<noteq> b)"

instance
  by standard (auto simp: less_fval_def less_eq_fval_def split: fval.splits)

end

text \<open>Rounding a non-negative number to \<open>p\<close> fraction bits, with gradual underflow at exponent -126.\<close>

definition quantum :: "int \<Rightarrow> rat \<Rightarrow> rat" where
  "quantum p a = 2 powi (max (frexp_e a - 1) (- 126) - p)"

definition rnd :: "int \<Rightarrow> rat \<Rightarrow> rat" where
  "rnd p a = of_int (rint (a / quantum p a)) * quantum p a"

definition to_float :: "int \<Rightarrow> rat \<Rightarrow> fval" where
  "to_float p x =
     (let r = rnd p \<bar>x\<bar>
      in if 2 ^ 128 \<le> r then (if x < 0 then NegInf else PosInf) else Fin (if x < 0 then - r else r))"

definition f32 :: "rat \<Rightarrow> fval" where
  "f32 = to_float 23"

definition on_fin :: "(rat \<Rightarrow> fval) \<Rightarrow> fval \<Rightarrow> fval" where
  "on_fin f v = (case v of Fin x \<Rightarrow> f x | _ \<Rightarrow> v)"

text \<open>\<open>bf16_round((...).astype(np.float32))\<close>.\<close>

definition rnb :: "rat \<Rightarrow> fval" where
  "rnb x = on_fin (to_float 7) (f32 x)"

section \<open>Screening copies\<close>

text \<open>The least \<open>e\<close> with \<open>x \<le> 2 ^ e\<close>.\<close>

definition clog2 :: "rat \<Rightarrow> int" where
  "clog2 x = (let e = frexp_e x in if x = 2 powi (e - 1) then e - 1 else e)"

definition clip :: "int \<Rightarrow> int \<Rightarrow> int \<Rightarrow> int" where
  "clip lo hi x = max lo (min hi x)"

definition amax :: "rat list \<Rightarrow> rat" where
  "amax ws = fold (\<lambda>w m. max m \<bar>w\<bar>) ws 0"

text \<open>One scale group of a row: the codes and the exponent byte.\<close>

definition mx_group :: "rat list \<Rightarrow> int list \<times> int" where
  "mx_group ws =
     (let m = amax ws;
          e = (if 0 < m then clog2 (m / 127) else 0);
          eb = clip 1 254 (e + 127)
      in (map (\<lambda>w. clip (- 127) 127 (rint (w / 2 powi (eb - 127)))) ws, eb))"

fun chunks :: "nat \<Rightarrow> 'a list \<Rightarrow> 'a list list" where
  "chunks 0 xs = []"
| "chunks (Suc n) [] = []"
| "chunks (Suc n) (x # xs) = take (Suc n) (x # xs) # chunks (Suc n) (drop n xs)"

definition make_mxint8 :: "rat list \<Rightarrow> (int list \<times> int) list result" where
  "make_mxint8 ws = (if length ws mod 32 \<noteq> 0 then Inl AssertionError else Inr (map mx_group (chunks 32 ws)))"

definition deq_mxint8 :: "(int list \<times> int) list \<Rightarrow> rat list" where
  "deq_mxint8 gs = concat (map (\<lambda>(qs, eb). map (\<lambda>q. of_int q * decode_e8m0 (word_of_int eb)) qs) gs)"

text \<open>One block of the fp8 twin, flattened.\<close>

fun round_all :: "rat list \<Rightarrow> rat list result" where
  "round_all [] = Inr []"
| "round_all (x # xs) = bind_r (e4m3_round x) (\<lambda>y. bind_r (round_all xs) (\<lambda>ys. Inr (y # ys)))"

definition twin_block :: "rat list \<Rightarrow> (rat list \<times> int) result" where
  "twin_block ws =
     (let e = clip (- 127) 127 (clog2 (max (amax ws) (2 powi (- 126)) / 448))
      in bind_r (round_all (map (\<lambda>w. w / 2 powi e) ws)) (\<lambda>qs. Inr (qs, e + 127)))"

definition deq_twin_block :: "rat list \<Rightarrow> int \<Rightarrow> fval list" where
  "deq_twin_block qs eb = map (\<lambda>q. rnb (q * decode_e8m0 (word_of_int eb))) qs"

section \<open>Tables and bounds\<close>

definition infl_q :: rat where "infl_q = 1 + 2 powi (- 18)"
definition infl_b :: rat where "infl_b = 1 + 2 powi (- 20)"
definition infl_x :: rat where "infl_x = 1 + 2 powi (- 16)"
definition infl_t :: rat where "infl_t = 1 + 2 powi (- 40)"
definition slop_rel :: rat where "slop_rel = 2 powi (- 22)"
definition slop_abs :: rat where "slop_abs = 2 powi (- 126)"

definition c_acc :: "nat \<Rightarrow> rat" where
  "c_acc k = of_nat k / 16 * 17 * 2 powi (- 23)"

definition dot :: "rat list \<Rightarrow> rat list \<Rightarrow> rat" where
  "dot xs ws = sum_list (map2 (*) xs ws)"

definition sumsq :: "rat list \<Rightarrow> rat" where
  "sumsq xs = sum_list (map (\<lambda>x. x * x) xs)"

text \<open>The smallest float32 that is at least \<open>x\<close>, for \<open>x\<close> in the range of float32.\<close>

definition round_up_f32 :: "rat \<Rightarrow> rat" where
  "round_up_f32 x = of_int \<lceil>x / quantum 23 x\<rceil> * quantum 23 x"

record row_table =
  rt_res :: "rat list option"
  rt_norm :: rat

text \<open>One row of \<open>build_tables\<close>: no residual norms for an unsafe row, whose entries are infinite.\<close>

definition build_row :: "(rat \<Rightarrow> rat) \<Rightarrow> nat \<Rightarrow> rat list \<Rightarrow> rat list \<Rightarrow> row_table" where
  "build_row nsqrt g w d =
     (let unsafe = list_ex (\<lambda>v. rnb v \<noteq> Fin v) d;
          res = map (\<lambda>r. round_up_f32 (nsqrt (sumsq r) * infl_t)) (chunks g (map2 (-) w d))
      in \<lparr>rt_res = (if unsafe then None else Some res),
          rt_norm = round_up_f32 (max (nsqrt (sumsq w)) (nsqrt (sumsq d)) * infl_t)\<rparr>)"

definition x_norms :: "(rat \<Rightarrow> rat) \<Rightarrow> nat \<Rightarrow> rat list \<Rightarrow> rat list \<times> rat" where
  "x_norms nsqrt g x =
     (let xg = map (\<lambda>c. nsqrt (sumsq c) * infl_x) (chunks g x)
      in (xg, nsqrt (sumsq xg) * infl_x))"

definition bound :: "(rat \<Rightarrow> rat) \<Rightarrow> nat \<Rightarrow> rat list \<Rightarrow> row_table \<Rightarrow> rat option" where
  "bound nsqrt g x t =
     (case rt_res t of
        None \<Rightarrow> None
      | Some res \<Rightarrow>
          (case x_norms nsqrt g x of (xg, xn) \<Rightarrow>
             Some ((dot xg res * infl_q + 2 * c_acc (length x) * xn * rt_norm t) * infl_b)))"

definition interval_of :: "rat \<Rightarrow> rat option \<Rightarrow> fval \<times> fval" where
  "interval_of s b =
     (case b of
        None \<Rightarrow> (NegInf, PosInf)
      | Some b \<Rightarrow> let slop = (\<bar>s\<bar> + b) * slop_rel + slop_abs in (rnb (s - b - slop), rnb (s + b + slop)))"

section \<open>Selection\<close>

definition cand_row :: "(fval \<times> fval) list \<Rightarrow> bool list" where
  "cand_row iv = (let t = Max (set (map fst iv)) in map (\<lambda>(lo, hi). t \<le> hi) iv)"

definition union_rows :: "nat \<Rightarrow> bool list list \<Rightarrow> bool list" where
  "union_rows n rows = map (\<lambda>v. list_ex (\<lambda>r. r ! v) rows) [0..<n]"

definition select_best :: "(fval \<times> nat) list \<Rightarrow> fval \<times> nat" where
  "select_best xs = (let mx = Max (set (map fst xs)) in (mx, Min (set (map snd (filter (\<lambda>x. fst x = mx) xs)))))"

definition int_max :: nat where
  "int_max = 2147483647"

fun fs_loop :: "(fval \<times> nat) list list \<Rightarrow> fval \<times> nat \<Rightarrow> fval \<times> nat" where
  "fs_loop [] best = best"
| "fs_loop (c # cs) (bv, bi) =
     (case select_best c of (mx, im) \<Rightarrow>
        fs_loop cs (if bv < mx \<or> mx = bv \<and> im < bi then (mx, im) else (bv, bi)))"

definition final_select :: "(fval \<times> nat) list \<Rightarrow> fval \<times> nat" where
  "final_select xs =
     (case fs_loop (chunks 1024 xs) (NegInf, int_max) of (v, i) \<Rightarrow> (v, if i = int_max then 0 else i))"

section \<open>Stock arithmetic\<close>

datatype stock_mode = Exact | Seq32 | Worst int

fun seq_acc :: "fval \<Rightarrow> rat list \<Rightarrow> rat list \<Rightarrow> fval" where
  "seq_acc acc (x # xs) (w # ws) =
     seq_acc (on_fin (\<lambda>a. on_fin (\<lambda>p. f32 (a + p)) (f32 (x * w))) acc) xs ws"
| "seq_acc acc _ _ = acc"

definition worst_sign :: "int \<Rightarrow> nat \<Rightarrow> nat \<Rightarrow> rat" where
  "worst_sign seed m v = (if (int m * 1000003 + int v * 7919 + seed) mod 2 = 0 then 1 else - 1)"

definition abs_dot :: "rat list \<Rightarrow> rat list \<Rightarrow> rat" where
  "abs_dot x w = dot (map abs x) (map abs w)"

definition stock_logit :: "stock_mode \<Rightarrow> nat \<Rightarrow> nat \<Rightarrow> rat list \<Rightarrow> rat list \<Rightarrow> fval" where
  "stock_logit mode m v x w =
     (case mode of
        Exact \<Rightarrow> rnb (dot x w)
      | Seq32 \<Rightarrow> on_fin (to_float 7) (seq_acc (Fin 0) x w)
      | Worst seed \<Rightarrow> rnb (dot x w + worst_sign seed m v * c_acc (length x) * abs_dot x w * (999 / 1000)))"

section \<open>Gumbel-max\<close>

definition add32 :: "fval \<Rightarrow> rat \<Rightarrow> fval" where
  "add32 l g = on_fin (\<lambda>x. f32 (x + g)) l"

text \<open>\<open>ulps\<close> is the device division's deviation, the repeated \<open>nextafter\<close> of the emulation.\<close>

definition gumbel_value :: "(fval \<Rightarrow> fval) \<Rightarrow> rat \<Rightarrow> rat \<Rightarrow> fval \<Rightarrow> fval" where
  "gumbel_value ulps t g l =
     (if t = 0 then l else if t = 1 then add32 l g
      else add32 (ulps (on_fin (\<lambda>x. f32 (x / t)) l)) g)"

definition shift_q :: "rat \<Rightarrow> fval \<Rightarrow> fval" where
  "shift_q sg q =
     on_fin (\<lambda>x. on_fin (\<lambda>d. on_fin (\<lambda>y. f32 (y + sg * slop_abs)) (f32 (x + sg * d))) (f32 (\<bar>x\<bar> * 2 powi (- 20)))) q"

definition gumbel_interval :: "rat \<Rightarrow> rat \<Rightarrow> fval \<times> fval \<Rightarrow> fval \<times> fval" where
  "gumbel_interval t g = (\<lambda>(lo, hi).
     if t = 0 then (lo, hi) else if t = 1 then (add32 lo g, add32 hi g)
     else (add32 (shift_q (- 1) (on_fin (\<lambda>x. f32 (x / t)) lo)) g, add32 (shift_q 1 (on_fin (\<lambda>x. f32 (x / t)) hi)) g))"

section \<open>One rank\<close>

datatype status = ST_OK | ST_LOCAL_STOCK | ST_NONFINITE

record cert_result =
  cr_best :: "(fval \<times> nat) list"
  cr_union :: nat
  cr_fallback :: bool
  cr_per_row :: "nat list"
  cr_status :: status

text \<open>
  What a step is given: the rows of the head and of its copy, the inputs, the screened scores as the device
  computed them, the stock logit of a row and token, the temperatures and the noise, and the mask.
\<close>

record cert_step =
  cs_x :: "rat list list"
  cs_vocab :: nat
  cs_screen :: "nat \<Rightarrow> nat \<Rightarrow> fval"
  cs_bound :: "nat \<Rightarrow> nat \<Rightarrow> rat option"
  cs_logit :: "nat \<Rightarrow> nat \<Rightarrow> fval"
  cs_temps :: "rat list option"
  cs_noise :: "nat \<Rightarrow> nat \<Rightarrow> rat"
  cs_mask :: "nat \<Rightarrow> nat \<Rightarrow> bool"
  cs_ulps :: "fval \<Rightarrow> fval"

text \<open>A step over the matrices: row tables, bounds and logits as the repository computes them.\<close>

definition make_step ::
    "(rat \<Rightarrow> rat) \<Rightarrow> nat \<Rightarrow> stock_mode \<Rightarrow> rat list list \<Rightarrow> rat list list \<Rightarrow> rat list list \<Rightarrow> (nat \<Rightarrow> nat \<Rightarrow> fval) \<Rightarrow>
     rat list option \<Rightarrow> (nat \<Rightarrow> nat \<Rightarrow> rat) \<Rightarrow> (nat \<Rightarrow> nat \<Rightarrow> bool) \<Rightarrow> (fval \<Rightarrow> fval) \<Rightarrow> cert_step" where
  "make_step nsqrt g mode xs ws ds screen temps noise masked ulps =
     \<lparr>cs_x = xs, cs_vocab = length ws, cs_screen = screen,
      cs_bound = (\<lambda>m v. bound nsqrt g (xs ! m) (build_row nsqrt g (ws ! v) (ds ! v))),
      cs_logit = (\<lambda>m v. stock_logit mode m v (xs ! m) (ws ! v)),
      cs_temps = temps, cs_noise = noise, cs_mask = masked, cs_ulps = ulps\<rparr>"

text \<open>
  The value the stock sampler maximises: minus infinity is written into the masked logits before the temperature is
  applied. The certified path recomputes the value of a candidate and masks it afterwards.
\<close>

definition tempered :: "cert_step \<Rightarrow> nat \<Rightarrow> nat \<Rightarrow> fval \<Rightarrow> fval" where
  "tempered s m v l =
     (case cs_temps s of None \<Rightarrow> l | Some ts \<Rightarrow> gumbel_value (cs_ulps s) (ts ! m) (cs_noise s m v) l)"

definition stock_value :: "cert_step \<Rightarrow> nat \<Rightarrow> nat \<Rightarrow> fval" where
  "stock_value s m v = tempered s m v (if cs_mask s m v then NegInf else cs_logit s m v)"

definition cert_value :: "cert_step \<Rightarrow> nat \<Rightarrow> nat \<Rightarrow> fval" where
  "cert_value s m v = (if cs_mask s m v then NegInf else tempered s m v (cs_logit s m v))"

definition stock_local :: "cert_step \<Rightarrow> (fval \<times> nat) list" where
  "stock_local s = map (\<lambda>m. select_best (map (\<lambda>v. (stock_value s m v, v)) [0..<cs_vocab s])) [0..<length (cs_x s)]"

definition is_fin :: "fval \<Rightarrow> bool" where
  "is_fin v = (case v of Fin _ \<Rightarrow> True | _ \<Rightarrow> False)"

definition score :: "fval \<Rightarrow> rat" where
  "score v = (case v of Fin x \<Rightarrow> x | _ \<Rightarrow> 0)"

definition cert_interval :: "cert_step \<Rightarrow> nat \<Rightarrow> nat \<Rightarrow> fval \<times> fval" where
  "cert_interval s m v =
     (let iv = (if cs_mask s m v then (NegInf, NegInf) else interval_of (score (cs_screen s m v)) (cs_bound s m v))
      in case cs_temps s of None \<Rightarrow> iv | Some ts \<Rightarrow> gumbel_interval (ts ! m) (cs_noise s m v) iv)"

text \<open>\<open>arrange\<close> is the arbitrary order in which the device compacts the candidates.\<close>

definition cert_local :: "(nat list \<Rightarrow> nat list) \<Rightarrow> nat \<Rightarrow> cert_step \<Rightarrow> cert_result" where
  "cert_local arrange cap s =
     (let ms = [0..<length (cs_x s)]; vs = [0..<cs_vocab s]
      in if \<not> list_all (\<lambda>m. list_all (\<lambda>v. is_fin (cs_screen s m v)) vs) ms
         then \<lparr>cr_best = map (\<lambda>_. (NegInf, 0)) ms, cr_union = 0, cr_fallback = True, cr_per_row = map (\<lambda>_. 0) ms,
               cr_status = ST_NONFINITE\<rparr>
         else let rows = map (\<lambda>m. cand_row (map (cert_interval s m) vs)) ms;
                  union = union_rows (cs_vocab s) rows;
                  n = length (filter id union);
                  fb = (cap < n \<or> n = 0);
                  ids = arrange (if fb then vs else filter (\<lambda>v. union ! v) vs)
              in \<lparr>cr_best = map (\<lambda>m. final_select (map (\<lambda>v. (cert_value s m v, v)) ids)) ms,
                  cr_union = n, cr_fallback = fb, cr_per_row = map (\<lambda>r. length (filter id r)) rows,
                  cr_status = (if fb then ST_LOCAL_STOCK else ST_OK)\<rparr>)"

section \<open>Over the ranks\<close>

text \<open>The first rank with the largest value (\<open>argmax\<close> along the ranks), its id shifted by the shard's start.\<close>

definition first_max :: "fval list \<Rightarrow> nat" where
  "first_max vs = length (takeWhile (\<lambda>v. v \<noteq> Max (set vs)) vs)"

definition reduce_ranks :: "(fval \<times> nat) list list \<Rightarrow> nat list \<Rightarrow> nat \<Rightarrow> nat" where
  "reduce_ranks bests starts m =
     (let r = first_max (map (\<lambda>b. fst (b ! m)) bests) in snd (bests ! r ! m) + starts ! r)"

definition step_tp :: "cert_result list \<Rightarrow> nat list \<Rightarrow> nat \<Rightarrow> nat option" where
  "step_tp rs starts m =
     (if list_ex (\<lambda>r. cr_status r = ST_NONFINITE) rs then None
      else Some (reduce_ranks (map cr_best rs) starts m))"

end
