(* ===== verification/Cert_Props.thy ===== *)
theory Cert_Props
  imports Cert_Head
begin

text \<open>
  Why the certificate of \<open>src/overlay/cert_math.py\<close> is one: rounding is monotone, the bound covers the difference
  between the screened score and the stock accumulation, pruning keeps every token that could be the argmax, and the
  chunked selection and the reduction over ranks return the lowest id among the maxima.
\<close>

section \<open>Rounding is monotone\<close>

lemma fval_simps [simp]:
  "NegInf \<le> a" "a \<le> PosInf" "(Fin x \<le> Fin y) = (x \<le> y)" "\<not> Fin x \<le> NegInf" "\<not> PosInf \<le> Fin x" "\<not> PosInf \<le> NegInf"
  by (simp_all add: less_eq_fval_def split: fval.splits)

lemma binade:
  assumes "0 < a" and "0 \<le> p"
  defines "e \<equiv> max (frexp_e a - 1) (- 126)"
  shows "a < 2 powi (e + 1)" and "e = - 126 \<or> 2 powi e \<le> a"
    and "rnd p a \<le> 2 powi (e + 1)" and "2 powi e \<le> a \<Longrightarrow> 2 powi e \<le> rnd p a" and "0 \<le> rnd p a"
proof -
  have q: "quantum p a = 2 powi (e - p)" "0 < quantum p a" by (simp_all add: quantum_def e_def)
  have up: "a < 2 powi (frexp_e a)" and lo: "2 powi (frexp_e a - 1) \<le> a" using frexp_e_bounds [OF assms(1)] by simp_all
  have "(2 powi frexp_e a :: rat) \<le> 2 powi (e + 1)" by (rule power_int_increasing) (auto simp: e_def)
  then show a1: "a < 2 powi (e + 1)" using up by linarith
  show "e = - 126 \<or> 2 powi e \<le> a" using lo by (auto simp: e_def max_def)
  have m: "(2 powi (e + k) :: rat) = of_int (2 ^ nat (p + k)) * quantum p a" if "0 \<le> p + k" for k
    using that power_int_add [of "2 :: rat" "p + k" "e - p"] by (simp add: q(1) power_int_nonneg_exp add.commute)
  have "a / quantum p a \<le> of_int (2 ^ nat (p + 1))" using a1 q(2) m [of 1] assms(2) by (simp add: field_simps)
  moreover have "of_int 0 \<le> a / quantum p a" using assms(1) q(2) by simp
  ultimately have r: "0 \<le> rint (a / quantum p a)" "rint (a / quantum p a) \<le> 2 ^ nat (p + 1)" using rint_bounds by blast+
  show "rnd p a \<le> 2 powi (e + 1)"
  proof -
    have "of_int (rint (a / quantum p a)) \<le> (of_int (2 ^ nat (p + 1)) :: rat)" using r(2) by (simp only: of_int_le_iff)
    then show ?thesis unfolding rnd_def m [of 1, OF order_trans [OF assms(2)], simplified] using q(2) by (intro mult_right_mono) auto
  qed
  show "0 \<le> rnd p a" unfolding rnd_def using r(1) q(2) by simp
  show "2 powi e \<le> rnd p a" if "2 powi e \<le> a"
  proof -
    have "of_int (2 ^ nat p) \<le> a / quantum p a" using that q(2) m [of 0] assms(2) by (simp add: field_simps)
    then have "2 ^ nat p \<le> rint (a / quantum p a)" using rint_bounds [of _ _ "\<lceil>a / quantum p a\<rceil>"] by (meson le_of_int_ceiling)
    then have "of_int (2 ^ nat p) \<le> (of_int (rint (a / quantum p a)) :: rat)" by (simp only: of_int_le_iff)
    then show ?thesis using m [of 0] assms(2) q(2) unfolding rnd_def by (simp add: mult_right_mono)
  qed
qed


lemma rnd_mono:
  assumes "0 \<le> a" "a \<le> b" "0 \<le> p"
  shows "rnd p a \<le> rnd p b"
proof (cases "a = 0 \<or> a = b")
  case True
  have "rnd p 0 = 0" using rint_of_int [of 0] by (simp add: rnd_def)
  moreover have "0 \<le> rnd p b" using binade(5) [OF _ assms(3), of b] assms \<open>rnd p 0 = 0\<close> by (cases "b = 0") auto
  ultimately show ?thesis using True by auto
next
  case False
  then have a: "0 < a" "0 < b" "a < b" using assms by auto
  let ?e = "max (frexp_e a - 1) (- 126)" and ?f = "max (frexp_e b - 1) (- 126)"
  note A = binade [OF a(1) assms(3)] and B = binade [OF a(2) assms(3)]
  have "frexp_e a \<le> frexp_e b"
  proof (rule ccontr)
    assume "\<not> frexp_e a \<le> frexp_e b"
    then have "(2 powi frexp_e b :: rat) \<le> 2 powi (frexp_e a - 1)" by (intro power_int_increasing) auto
    then show False using frexp_e_bounds [OF a(1)] frexp_e_bounds [OF a(2)] a(3) by linarith
  qed
  then consider "?e = ?f" | "?e < ?f" by linarith
  then show ?thesis
  proof cases
    case 1
    then have q: "quantum p a = quantum p b" by (simp add: quantum_def)
    have "a / quantum p b \<le> b / quantum p b" using a by (intro divide_right_mono) (simp_all add: quantum_def)
    then have "rint (a / quantum p b) \<le> rint (b / quantum p b)" by (rule rint_mono)
    then have "(of_int (rint (a / quantum p b)) :: rat) \<le> of_int (rint (b / quantum p b))" by (simp only: of_int_le_iff)
    then show ?thesis unfolding rnd_def q by (rule mult_right_mono) (simp add: quantum_def)
  next
    case 2
    have "rnd p a \<le> 2 powi (?e + 1)" by (rule A(3))
    also have "\<dots> \<le> (2 powi ?f :: rat)" using 2 by (intro power_int_increasing) auto
    also have "\<dots> \<le> rnd p b" using B(2,4) 2 by auto
    finally show ?thesis .
  qed
qed

lemma to_float_mono: "x \<le> y \<Longrightarrow> 0 \<le> p \<Longrightarrow> to_float p x \<le> to_float p y"
proof -
  assume xy: "x \<le> y" "0 \<le> p"
  have nn: "0 \<le> rnd p \<bar>z\<bar>" for z using rnd_mono [of 0 "\<bar>z\<bar>" p] xy(2) rint_of_int [of 0] by (simp add: rnd_def)
  consider "0 \<le> x" | "x < 0" "0 \<le> y" | "y < 0" using xy by linarith
  then show ?thesis
  proof cases
    case 1
    then have "rnd p \<bar>x\<bar> \<le> rnd p \<bar>y\<bar>" using xy by (intro rnd_mono) auto
    then show ?thesis using 1 xy by (auto simp: to_float_def Let_def)
  next
    case 2
    then have "- rnd p \<bar>x\<bar> \<le> rnd p \<bar>y\<bar>" using nn [of x] nn [of y] by linarith
    then show ?thesis using 2 by (auto simp: to_float_def Let_def)
  next
    case 3
    then have "rnd p \<bar>y\<bar> \<le> rnd p \<bar>x\<bar>" using xy by (intro rnd_mono) auto
    then show ?thesis using 3 xy by (auto simp: to_float_def Let_def)
  qed
qed

lemma on_fin_mono: "a \<le> b \<Longrightarrow> (\<And>x y. x \<le> y \<Longrightarrow> f x \<le> f y) \<Longrightarrow> on_fin f a \<le> on_fin f b"
  by (cases a; cases b) (auto simp: on_fin_def)

lemma f32_mono: "x \<le> y \<Longrightarrow> f32 x \<le> f32 y"
  by (simp add: f32_def to_float_mono)

lemma rnb_mono: "x \<le> y \<Longrightarrow> rnb x \<le> rnb y"
  unfolding rnb_def by (intro on_fin_mono f32_mono to_float_mono) simp_all

lemma add32_mono: "a \<le> b \<Longrightarrow> add32 a g \<le> add32 b g"
  unfolding add32_def by (rule on_fin_mono) (simp_all add: f32_mono)

section \<open>The bound\<close>

lemma dot_Nil [simp]: "dot [] ws = 0" "dot xs [] = 0" and dot_Cons [simp]: "dot (x # xs) (w # ws) = x * w + dot xs ws"
  by (simp_all add: dot_def)

lemma sumsq_simps [simp]: "sumsq [] = 0" "sumsq (x # xs) = x * x + sumsq xs"
  by (simp_all add: sumsq_def)

lemma sumsq_nonneg: "0 \<le> sumsq xs"
  by (induction xs) simp_all

lemma sumsq_abs: "sumsq (map abs xs) = sumsq xs"
  by (induction xs) simp_all

text \<open>Cauchy-Schwarz, with upper bounds of the norms in place of square roots.\<close>

lemma cauchy_bound:
  "length xs = length ws \<Longrightarrow> sumsq xs \<le> a * a \<Longrightarrow> sumsq ws \<le> b * b \<Longrightarrow> 0 \<le> a \<Longrightarrow> 0 \<le> b \<Longrightarrow> \<bar>dot xs ws\<bar> \<le> a * b"
proof -
  assume l: "length xs = length ws" and ab: "sumsq xs \<le> a * a" "sumsq ws \<le> b * b" "0 \<le> a" "0 \<le> b"
  have "dot xs ws * dot xs ws \<le> sumsq xs * sumsq ws"
    using l
  proof (induction xs ws rule: list_induct2)
    case (Cons x xs w ws)
    let ?d = "dot xs ws" and ?p = "sumsq xs" and ?q = "sumsq ws"
    have "2 * (x * w) * ?d \<le> x * x * ?q + w * w * ?p"
    proof (cases "?p = 0 \<or> ?q = 0")
      case True
      then have "?d * ?d \<le> 0" using Cons.IH by auto
      then have "?d = 0" by (auto simp: mult_le_0_iff)
      then show ?thesis using sumsq_nonneg [of xs] sumsq_nonneg [of ws] by simp
    next
      case False
      then have p: "0 < ?p" using sumsq_nonneg [of xs] by simp
      have "0 \<le> (w * ?p - x * ?d) * (w * ?p - x * ?d)" by simp
      then have "2 * (x * w) * ?d * ?p \<le> w * w * ?p * ?p + x * x * (?d * ?d)" by (simp add: algebra_simps)
      also have "\<dots> \<le> w * w * ?p * ?p + x * x * (?p * ?q)" using Cons.IH by (simp add: mult_left_mono)
      finally have "(2 * (x * w) * ?d) * ?p \<le> (x * x * ?q + w * w * ?p) * ?p" by (simp add: algebra_simps)
      then show ?thesis using p by (simp add: mult_le_cancel_right)
    qed
    then show ?case using Cons.IH by (simp add: algebra_simps)
  qed simp
  also have "\<dots> \<le> (a * a) * (b * b)" using ab sumsq_nonneg by (intro mult_mono) auto
  finally have "(dot xs ws)^ 2 \<le> (a * b)^ 2" by (simp add: power2_eq_square algebra_simps)
  then show ?thesis using ab by (simp add: abs_le_square_iff [symmetric] abs_mult)
qed

text \<open>What the certificate relies on of the square root: an upper bound after a relative correction of \<open>2 ^ -52\<close>.\<close>

definition sqrt_ok :: "(rat \<Rightarrow> rat) \<Rightarrow> bool" where
  "sqrt_ok r = (\<forall>a. 0 \<le> a \<longrightarrow> 0 \<le> r a \<and> a \<le> (r a * (1 + 2 powi (- 52))) * (r a * (1 + 2 powi (- 52))))"

definition covers :: "fval \<times> fval \<Rightarrow> fval \<Rightarrow> bool" where
  "covers iv l = (fst iv \<le> l \<and> l \<le> snd iv)"

lemma infl_ge:
  "1 + 2 powi (- 52) \<le> infl_x" "1 + 2 powi (- 52) \<le> infl_t" "1 \<le> infl_q" "1 \<le> infl_b" "0 \<le> slop_rel" "0 \<le> slop_abs"
  by (simp_all add: infl_x_def infl_t_def infl_q_def infl_b_def slop_rel_def slop_abs_def power_int_minus field_simps)

lemma norm_up:
  assumes "sqrt_ok r" "1 + 2 powi (- 52) \<le> k" "r (sumsq c) * k \<le> t"
  shows "0 \<le> t" and "sumsq c \<le> t * t"
proof -
  have r: "0 \<le> r (sumsq c)" "sumsq c \<le> (r (sumsq c) * (1 + 2 powi (- 52))) * (r (sumsq c) * (1 + 2 powi (- 52)))"
    using assms(1) sumsq_nonneg [of c] unfolding sqrt_ok_def by blast+
  have le: "r (sumsq c) * (1 + 2 powi (- 52)) \<le> t" by (rule order_trans [OF mult_left_mono [OF assms(2) r(1)] assms(3)])
  have nn: "0 \<le> r (sumsq c) * (1 + 2 powi (- 52))" using r(1) by (intro mult_nonneg_nonneg add_nonneg_nonneg) auto
  show "0 \<le> t" using nn le by linarith
  show "sumsq c \<le> t * t" by (rule order_trans [OF r(2) mult_mono [OF le le]]) (use nn le in linarith)+
qed

lemma round_up_ge: "x \<le> round_up_f32 x"
proof -
  have q: "0 < quantum 23 x" by (simp add: quantum_def)
  have "x / quantum 23 x * quantum 23 x \<le> of_int \<lceil>x / quantum 23 x\<rceil> * quantum 23 x"
    using q by (intro mult_right_mono) auto
  then show ?thesis using q by (simp add: round_up_f32_def)
qed

lemma chunks_Cons: "0 < g \<Longrightarrow> xs \<noteq> [] \<Longrightarrow> chunks g xs = take g xs # chunks g (drop g xs)"
  by (cases g; cases xs) simp_all

lemma dot_split: "dot xs ws = dot (take n xs) (take n ws) + dot (drop n xs) (drop n ws)"
proof (induction n arbitrary: xs ws)
  case (Suc n)
  show ?case using Suc.IH [of "tl xs" "tl ws"] by (cases xs; cases ws) simp_all
qed simp

lemma sumsq_split: "sumsq xs = sumsq (take n xs) + sumsq (drop n xs)"
proof -
  have "sumsq (take n xs @ drop n xs) = sumsq (take n xs) + sumsq (drop n xs)"
    unfolding sumsq_def map_append sum_list_append by (rule refl)
  then show ?thesis unfolding append_take_drop_id .
qed

lemma chunk_norms:
  assumes "sqrt_ok r" "0 < g"
  shows "sumsq x \<le> sumsq (map (\<lambda>c. r (sumsq c) * infl_x) (chunks g x))"
proof (induction "length x" arbitrary: x rule: less_induct)
  case less
  show ?case
  proof (cases "x = []")
    case False
    then have "sumsq (drop g x) \<le> sumsq (map (\<lambda>c. r (sumsq c) * infl_x) (chunks g (drop g x)))" using less assms(2) by simp
    moreover have "sumsq (take g x) \<le> (r (sumsq (take g x)) * infl_x) * (r (sumsq (take g x)) * infl_x)"
      by (rule norm_up(2) [OF assms(1) infl_ge(1) order_refl])
    ultimately show ?thesis using False assms(2) sumsq_split [of x g] by (simp add: chunks_Cons)
  qed (use assms(2) in \<open>cases g; simp\<close>)
qed

lemma chunk_dot:
  assumes "sqrt_ok r" "0 < g"
  shows "length x = length e \<Longrightarrow>
         \<bar>dot x e\<bar> \<le> dot (map (\<lambda>c. r (sumsq c) * infl_x) (chunks g x)) (map (\<lambda>c. round_up_f32 (r (sumsq c) * infl_t)) (chunks g e))"
proof (induction "length x" arbitrary: x e rule: less_induct)
  case less
  show ?case
  proof (cases "x = []")
    case False
    then have ne: "e \<noteq> []" using less.prems by auto
    have a: "\<bar>dot (take g x) (take g e)\<bar> \<le> (r (sumsq (take g x)) * infl_x) * round_up_f32 (r (sumsq (take g e)) * infl_t)"
      using less.prems norm_up [OF assms(1) infl_ge(1) order_refl] norm_up [OF assms(1) infl_ge(2) round_up_ge]
      by (intro cauchy_bound) simp_all
    have "\<bar>dot (drop g x) (drop g e)\<bar>
          \<le> dot (map (\<lambda>c. r (sumsq c) * infl_x) (chunks g (drop g x))) (map (\<lambda>c. round_up_f32 (r (sumsq c) * infl_t)) (chunks g (drop g e)))"
      using less.prems ne assms(2) by (intro less.hyps) simp_all
    then show ?thesis using a ne False assms(2) abs_triangle_ineq [of "dot (take g x) (take g e)" "dot (drop g x) (drop g e)"]
      by (simp add: chunks_Cons dot_split [of x e g])
  qed (use less.prems assms(2) in \<open>cases g; simp\<close>)
qed

lemma dot_diff: "length w = length d \<Longrightarrow> length x = length w \<Longrightarrow> dot x (map2 (-) w d) = dot x w - dot x d"
proof (induction w d arbitrary: x rule: list_induct2)
  case (Cons w ws d ds)
  then show ?case by (cases x) (simp_all add: algebra_simps)
qed simp

lemma abs_dot_le:
  assumes "length x = length d" "sumsq x \<le> n * n" "sumsq d \<le> t * t" "0 \<le> n" "0 \<le> t"
  shows "abs_dot x d \<le> n * t"
  using cauchy_bound [of "map abs x" "map abs d" n t] assms by (simp add: abs_dot_def sumsq_abs)

lemma c_acc_nonneg: "0 \<le> c_acc k"
  by (simp add: c_acc_def)

lemma x_norm_up:
  assumes "sqrt_ok r" "0 < g"
  shows "sumsq x \<le> snd (x_norms r g x) * snd (x_norms r g x)" and "0 \<le> snd (x_norms r g x)"
  using order_trans [OF chunk_norms [OF assms] norm_up(2) [OF assms(1) infl_ge(1) order_refl]]
    norm_up(1) [OF assms(1) infl_ge(1) order_refl]
  by (simp_all add: x_norms_def Let_def)

lemma table_norm_up:
  assumes "sqrt_ok r"
  shows "sumsq w \<le> rt_norm (build_row r g w d) * rt_norm (build_row r g w d)"
    and "sumsq d \<le> rt_norm (build_row r g w d) * rt_norm (build_row r g w d)"
    and "0 \<le> rt_norm (build_row r g w d)"
proof -
  let ?t = "rt_norm (build_row r g w d)"
  have i: "0 \<le> infl_t" using infl_ge(2) by (simp add: infl_t_def)
  have "max (r (sumsq w)) (r (sumsq d)) * infl_t \<le> ?t" by (simp add: build_row_def Let_def round_up_ge)
  then have "r (sumsq w) * infl_t \<le> ?t" "r (sumsq d) * infl_t \<le> ?t"
    using mult_right_mono [OF max.cobounded1 i] mult_right_mono [OF max.cobounded2 i] order_trans by blast+
  then show "sumsq w \<le> ?t * ?t" "sumsq d \<le> ?t * ?t" "0 \<le> ?t" using norm_up [OF assms infl_ge(2)] by blast+
qed

text \<open>The bound of a safe row covers the distance between the screened score and any accumulation in the error model.\<close>

lemma bound_dist:
  assumes r: "sqrt_ok r" and l: "length w = length x" "length d = length x" and g: "0 < g"
    and s: "\<bar>s - dot x d\<bar> \<le> c_acc (length x) * abs_dot x d" and a: "\<bar>acc - dot x w\<bar> \<le> c_acc (length x) * abs_dot x w"
    and b: "bound r g x (build_row r g w d) = Some b"
  shows "\<bar>acc - s\<bar> \<le> b" and "0 \<le> b"
proof -
  let ?t = "rt_norm (build_row r g w d)" and ?n = "snd (x_norms r g x)" and ?c = "c_acc (length x)"
  let ?res = "map (\<lambda>c. round_up_f32 (r (sumsq c) * infl_t)) (chunks g (map2 (-) w d))"
  let ?q = "dot (fst (x_norms r g x)) ?res"
  have bd: "b = (?q * infl_q + 2 * ?c * ?n * ?t) * infl_b"
    using b by (auto simp: bound_def build_row_def Let_def split: prod.splits if_splits)
  have "\<bar>dot x w - dot x d\<bar> \<le> ?q"
  proof -
    have "dot x (map2 (-) w d) = dot x w - dot x d" "length x = length (map2 (-) w d)" using l dot_diff by simp_all
    then show ?thesis using chunk_dot [OF r g, of x "map2 (-) w d"] by (simp only: x_norms_def Let_def fst_conv)
  qed
  moreover have "?c * abs_dot x d \<le> ?c * (?n * ?t)"
    using l by (intro mult_left_mono abs_dot_le c_acc_nonneg x_norm_up [OF r g] table_norm_up [OF r]) simp_all
  moreover have "?c * abs_dot x w \<le> ?c * (?n * ?t)"
    using l by (intro mult_left_mono abs_dot_le c_acc_nonneg x_norm_up [OF r g] table_norm_up [OF r]) simp_all
  ultimately have d: "\<bar>acc - s\<bar> \<le> ?q + 2 * (?c * (?n * ?t))" and q: "0 \<le> ?q" using s a by linarith+
  have nn: "0 \<le> ?c * (?n * ?t)" using x_norm_up(2) [OF r g] table_norm_up(3) [OF r] c_acc_nonneg by simp
  have "?q * 1 \<le> ?q * infl_q" by (rule mult_left_mono [OF infl_ge(3) q])
  then have m: "?q + 2 * (?c * (?n * ?t)) \<le> ?q * infl_q + 2 * ?c * ?n * ?t" by (simp add: algebra_simps)
  have z: "0 \<le> ?q + 2 * (?c * (?n * ?t))" using q nn by simp
  have "(?q * infl_q + 2 * ?c * ?n * ?t) * 1 \<le> b" unfolding bd by (rule mult_left_mono [OF infl_ge(4) order_trans [OF z m]])
  then have le: "?q + 2 * (?c * (?n * ?t)) \<le> b" using m unfolding mult_1_right by (rule order_trans [rotated])
  show "\<bar>acc - s\<bar> \<le> b" by (rule order_trans [OF d le])
  show "0 \<le> b" by (rule order_trans [OF z le])
qed

lemma interval_covers:
  assumes "\<And>c. b = Some c \<Longrightarrow> \<bar>acc - s\<bar> \<le> c \<and> 0 \<le> c"
  shows "covers (interval_of s b) (rnb acc)"
proof (cases b)
  case (Some c)
  let ?p = "(\<bar>s\<bar> + c) * slop_rel + slop_abs"
  have c: "\<bar>acc - s\<bar> \<le> c" "0 \<le> c" using assms [OF Some] by auto
  have "0 \<le> ?p" using c infl_ge by simp
  then have "s - c - ?p \<le> acc" "acc \<le> s + c + ?p" using c by linarith+
  then show ?thesis using rnb_mono by (simp add: covers_def interval_of_def Some Let_def)
qed (simp add: covers_def interval_of_def)

end
