(* ===== verification/Cert_Round.thy ===== *)
theory Cert_Round
  imports Cert_Props
begin

text \<open>
  The rounding of \<open>Cert_Head\<close> further: what is exact, how large the error is, and that the temperature step of the
  Gumbel rows (division, the screen's slack, addition of the noise) keeps an interval around the sampler's value.
\<close>

section \<open>Exact values\<close>

lemma rnd_0 [simp]: "rnd p 0 = 0"
  using rint_of_int [of 0] by (simp add: rnd_def)

lemma quantum_pos: "0 < quantum p a"
  by (simp add: quantum_def)

lemma rnd_multiple: "a = of_int m * quantum p a \<Longrightarrow> rnd p a = a"
proof -
  assume a: "a = of_int m * quantum p a"
  then have "a / quantum p a = of_int m" using quantum_pos [of p a] by (simp add: field_simps)
  then show ?thesis using a unfolding rnd_def by (simp only: rint_of_int)
qed

lemma powi_split: "i \<le> j \<Longrightarrow> (2 powi j :: rat) = of_int (2 ^ nat (j - i)) * 2 powi i"
  using power_int_add [of "2 :: rat" "j - i" i] by (simp add: power_int_nonneg_exp)

lemma rnd_exact:
  assumes "0 \<le> n" "n \<le> 2 ^ nat (p + 1)" "- 126 - p \<le> k" "0 \<le> p"
  shows "rnd p (of_int n * 2 powi k) = of_int n * 2 powi k"
proof (cases "n = 0")
  case False
  let ?a = "of_int n * 2 powi k :: rat" and ?e = "max (frexp_e (of_int n * 2 powi k) - 1) (- 126)"
  have a: "0 < ?a" using False assms(1) by simp
  have q: "quantum p ?a = 2 powi (?e - p)" by (simp add: quantum_def)
  show ?thesis
  proof (cases "?e - p \<le> k")
    case True
    have "?a = of_int (n * 2 ^ nat (k - (?e - p))) * quantum p ?a" unfolding q using powi_split [OF True] by simp
    then show ?thesis by (rule rnd_multiple)
  next
    case less: False
    have "2 powi ?e \<le> ?a" using binade(2) [OF a assms(4)] less assms(3) by linarith
    also have top: "?a \<le> 2 powi (p + 1 + k)"
    proof -
      have "(of_int n :: rat) \<le> of_int (2 ^ nat (p + 1))" using assms(2) by (simp only: of_int_le_iff)
      then have "?a \<le> of_int (2 ^ nat (p + 1)) * 2 powi k" by (intro mult_right_mono) simp_all
      also have "\<dots> = (2 powi (p + 1 + k) :: rat)" using powi_split [of k "p + 1 + k"] assms(4) by simp
      finally show ?thesis .
    qed
    finally have "?e \<le> p + 1 + k" using powi_less_iff [of "p + 1 + k" ?e] by linarith
    then have e: "?e = p + 1 + k" using less by linarith
    have "?a = 2 powi ?e" using \<open>2 powi ?e \<le> ?a\<close> top e by simp
    also have "\<dots> = of_int (2 ^ nat p) * quantum p ?a" unfolding q using powi_split [of "?e - p" ?e] assms(4) by simp
    finally show ?thesis by (rule rnd_multiple)
  qed
qed simp

lemma rnd_idem:
  assumes "0 \<le> a" "0 \<le> p"
  shows "rnd p (rnd p a) = rnd p a"
proof (cases "a = 0")
  case False
  then have a: "0 < a" using assms by simp
  let ?e = "max (frexp_e a - 1) (- 126)" and ?n = "rint (a / quantum p a)"
  have q: "quantum p a = 2 powi (?e - p)" by (simp add: quantum_def)
  have r: "rnd p a = of_int ?n * 2 powi (?e - p)" by (simp add: rnd_def q)
  have n: "0 \<le> ?n" using binade(5) [OF a assms(2)] quantum_pos [of p a] by (simp add: rnd_def zero_le_mult_iff)
  have "of_int ?n * (2 powi (?e - p) :: rat) \<le> of_int (2 ^ nat (p + 1)) * 2 powi (?e - p)"
    using binade(3) [OF a assms(2)] powi_split [of "?e - p" "?e + 1"] assms(2) unfolding r by (simp add: add.commute)
  then have "(of_int ?n :: rat) \<le> of_int (2 ^ nat (p + 1))" by (rule mult_right_le_imp_le) simp
  then have "?n \<le> 2 ^ nat (p + 1)" by (simp only: of_int_le_iff)
  then show ?thesis unfolding r by (intro rnd_exact n assms(2)) simp_all
qed simp

lemma to_float_exact: "rnd p \<bar>x\<bar> = \<bar>x\<bar> \<Longrightarrow> \<bar>x\<bar> < 2 ^ 128 \<Longrightarrow> to_float p x = Fin x"
  by (auto simp: to_float_def Let_def)

lemma to_float_Fin:
  assumes "to_float p z = Fin x" "0 \<le> p"
  shows "\<bar>x\<bar> = rnd p \<bar>z\<bar>" "\<bar>x\<bar> < 2 ^ 128" "to_float p x = Fin x"
proof -
  have n: "0 \<le> rnd p \<bar>z\<bar>" using rnd_mono [of 0 "\<bar>z\<bar>" p] assms(2) by simp
  then show x: "\<bar>x\<bar> = rnd p \<bar>z\<bar>" and b: "\<bar>x\<bar> < 2 ^ 128" using assms(1) by (auto simp: to_float_def Let_def split: if_splits)
  show "to_float p x = Fin x" using b assms(2) by (intro to_float_exact) (simp_all add: x rnd_idem)
qed

section \<open>Errors\<close>

lemma quantum_le:
  assumes "0 < a" "0 \<le> p"
  shows "quantum p a \<le> a * 2 powi (- p) + 2 powi (- 126 - p)"
proof -
  let ?e = "max (frexp_e a - 1) (- 126)"
  have q: "quantum p a = 2 powi (?e - p)" by (simp add: quantum_def)
  consider "?e = - 126" | "2 powi ?e \<le> a" using binade(2) [OF assms] by auto
  then show ?thesis
  proof cases
    case 1
    then show ?thesis unfolding q using assms by simp
  next
    case 2
    have "quantum p a = 2 powi ?e * 2 powi (- p)" unfolding q using power_int_add [of "2 :: rat" ?e "- p"] by simp
    also have "\<dots> \<le> a * 2 powi (- p)" using 2 by (rule mult_right_mono) simp
    finally show ?thesis by (rule order_trans) simp
  qed
qed

lemma rnd_err:
  assumes "0 \<le> a" "0 \<le> p"
  shows "\<bar>rnd p a - a\<bar> \<le> (a * 2 powi (- p) + 2 powi (- 126 - p)) / 2"
proof (cases "a = 0")
  case False
  then have a: "0 < a" using assms by simp
  let ?q = "quantum p a"
  have "\<bar>a / ?q - of_int (rint (a / ?q))\<bar> * ?q \<le> 1 / 2 * ?q" by (rule mult_right_mono [OF rint_near]) (simp add: quantum_def)
  moreover have "\<bar>a / ?q - of_int (rint (a / ?q))\<bar> * ?q = \<bar>(a / ?q - of_int (rint (a / ?q))) * ?q\<bar>"
    using quantum_pos [of p a] by (simp add: abs_mult)
  moreover have "(a / ?q - of_int (rint (a / ?q))) * ?q = a - rnd p a"
    using quantum_pos [of p a] by (simp add: left_diff_distrib rnd_def)
  ultimately have "\<bar>a - rnd p a\<bar> \<le> 1 / 2 * ?q" by simp
  then show ?thesis using quantum_le [OF a assms(2)] by (simp add: abs_minus_commute)
qed simp

lemma f32_Fin:
  assumes "f32 z = Fin x"
  shows "f32 x = Fin x" "\<bar>x\<bar> < 2 ^ 128" "\<bar>x - z\<bar> \<le> \<bar>z\<bar> / 2 ^ 24 + 1 / 2 ^ 150"
proof -
  note F = to_float_Fin [of 23 z x, OF assms [unfolded f32_def], simplified]
  show "f32 x = Fin x" "\<bar>x\<bar> < 2 ^ 128" using F by (simp_all add: f32_def)
  have "x = (if z < 0 then - rnd 23 \<bar>z\<bar> else rnd 23 \<bar>z\<bar>)"
    using assms by (auto simp: f32_def to_float_def Let_def split: if_splits)
  then have "\<bar>x - z\<bar> = \<bar>rnd 23 \<bar>z\<bar> - \<bar>z\<bar>\<bar>" by (auto simp: abs_if)
  then show "\<bar>x - z\<bar> \<le> \<bar>z\<bar> / 2 ^ 24 + 1 / 2 ^ 150" using rnd_err [of "\<bar>z\<bar>" 23] by (simp add: power_int_minus divide_simps)
qed

section \<open>The temperature step\<close>

text \<open>
  The device divides within two units in the last place; the claim is used in the weaker form of a relative error of
  \<open>2 ^ -21\<close>, or \<open>2 ^ -127\<close> near zero, before the rounding. Infinite quotients stay what they are.
\<close>

definition ulps_ok :: "(fval \<Rightarrow> fval) \<Rightarrow> bool" where
  "ulps_ok u =
     (u NegInf = NegInf \<and> u PosInf = PosInf \<and>
      (\<forall>x. f32 x = Fin x \<longrightarrow> (\<exists>y. u (Fin x) = f32 y \<and> \<bar>y - x\<bar> \<le> \<bar>x\<bar> / 2 ^ 21 + 1 / 2 ^ 127)))"

lemma on_fin_simps: "on_fin f (Fin x) = f x" "on_fin f NegInf = NegInf" "on_fin f PosInf = PosInf"
  by (simp_all add: on_fin_def)

lemma f32_0: "f32 0 = Fin 0"
  by (simp add: f32_def to_float_def Let_def)

lemma slack_size:
  assumes h: "f32 h = Fin h"
  obtains d where "f32 (\<bar>h\<bar> * 2 powi (- 20)) = Fin d" "0 \<le> d" "\<bar>d - \<bar>h\<bar> / 2 ^ 20\<bar> \<le> \<bar>h\<bar> / 2 ^ 44 + 1 / 2 ^ 150"
proof -
  have c: "\<bar>h\<bar> * 2 powi (- 20) = \<bar>h\<bar> / 2 ^ 20" by (simp add: power_int_minus divide_simps)
  have a: "f32 \<bar>h\<bar> = Fin \<bar>h\<bar>" using f32_Fin(2) [OF h] to_float_Fin(1) [of 23 h h] h by (simp add: f32_def to_float_exact)
  have "f32 0 \<le> f32 (\<bar>h\<bar> / 2 ^ 20)" "f32 (\<bar>h\<bar> / 2 ^ 20) \<le> f32 \<bar>h\<bar>" by (rule f32_mono; simp)+
  then obtain d where d: "f32 (\<bar>h\<bar> / 2 ^ 20) = Fin d" "0 \<le> d" unfolding a f32_0 by (cases "f32 (\<bar>h\<bar> / 2 ^ 20)") auto
  have "\<bar>d - \<bar>h\<bar> / 2 ^ 20\<bar> \<le> \<bar>h\<bar> / 2 ^ 44 + 1 / 2 ^ 150" using f32_Fin(3) [OF d(1)] by simp
  then show ?thesis using that d unfolding c by blast
qed

lemma shift_up:
  assumes h: "f32 h = Fin h" and p: "p \<le> h + \<bar>h\<bar> / 2 ^ 21 + 1 / 2 ^ 127"
  shows "f32 p \<le> shift_q 1 (Fin h)"
proof -
  obtain d where d: "f32 (\<bar>h\<bar> * 2 powi (- 20)) = Fin d" "0 \<le> d" "\<bar>d - \<bar>h\<bar> / 2 ^ 20\<bar> \<le> \<bar>h\<bar> / 2 ^ 44 + 1 / 2 ^ 150"
    using slack_size [OF h] .
  have S: "shift_q 1 (Fin h) = on_fin (\<lambda>y. f32 (y + slop_abs)) (f32 (h + d))" unfolding shift_q_def on_fin_simps d(1) by simp
  have "Fin h \<le> f32 (h + d)" using f32_mono [of h "h + d"] h d(2) by simp
  then consider "f32 (h + d) = PosInf" | y where "f32 (h + d) = Fin y" by (cases "f32 (h + d)") auto
  then show ?thesis
  proof cases
    case 2
    have "\<bar>y - (h + d)\<bar> \<le> \<bar>h + d\<bar> / 2 ^ 24 + 1 / 2 ^ 150" by (rule f32_Fin(3) [OF 2])
    moreover have "slop_abs = 1 / 2 ^ 126" by (simp add: slop_abs_def power_int_minus divide_simps)
    ultimately have "p \<le> y + slop_abs" using d(2,3) p by (simp add: abs_if field_simps split: if_splits)
    then show ?thesis using f32_mono 2 by (simp add: S on_fin_def)
  qed (simp add: S on_fin_def)
qed

lemma shift_down:
  assumes h: "f32 h = Fin h" and p: "h - \<bar>h\<bar> / 2 ^ 21 - 1 / 2 ^ 127 \<le> p"
  shows "shift_q (- 1) (Fin h) \<le> f32 p"
proof -
  obtain d where d: "f32 (\<bar>h\<bar> * 2 powi (- 20)) = Fin d" "0 \<le> d" "\<bar>d - \<bar>h\<bar> / 2 ^ 20\<bar> \<le> \<bar>h\<bar> / 2 ^ 44 + 1 / 2 ^ 150"
    using slack_size [OF h] .
  have S: "shift_q (- 1) (Fin h) = on_fin (\<lambda>y. f32 (y - slop_abs)) (f32 (h - d))" unfolding shift_q_def on_fin_simps d(1) by simp
  have "f32 (h - d) \<le> Fin h" using f32_mono [of "h - d" h] h d(2) by simp
  then consider "f32 (h - d) = NegInf" | y where "f32 (h - d) = Fin y" by (cases "f32 (h - d)") auto
  then show ?thesis
  proof cases
    case 2
    have "\<bar>y - (h - d)\<bar> \<le> \<bar>h - d\<bar> / 2 ^ 24 + 1 / 2 ^ 150" by (rule f32_Fin(3) [OF 2])
    moreover have "slop_abs = 1 / 2 ^ 126" by (simp add: slop_abs_def power_int_minus divide_simps)
    ultimately have "y - slop_abs \<le> p" using d(2,3) p by (simp add: abs_if field_simps split: if_splits)
    then show ?thesis using f32_mono 2 by (simp add: S on_fin_def)
  qed (simp add: S on_fin_def)
qed

lemma ulps_between:
  assumes u: "ulps_ok u" and le: "a \<le> b" and a: "a = on_fin (\<lambda>x. f32 (x / t)) a'" and b: "b = on_fin (\<lambda>x. f32 (x / t)) b'"
  shows "u a \<le> shift_q 1 b" and "shift_q (- 1) a \<le> u b"
proof -
  have grid: "f32 z = Fin z" if "Fin z = on_fin (\<lambda>x. f32 (x / t)) c" for z c
    using that f32_Fin(1) by (cases c) (auto simp: on_fin_def)
  have inf: "u NegInf = NegInf" "u PosInf = PosInf" "shift_q sg NegInf = NegInf" "shift_q sg PosInf = PosInf" for sg
    using u by (simp_all add: ulps_ok_def shift_q_def on_fin_def)
  have fin: "\<exists>y. u (Fin z) = f32 y \<and> \<bar>y - z\<bar> \<le> \<bar>z\<bar> / 2 ^ 21 + 1 / 2 ^ 127" if "f32 z = Fin z" for z
    using u that by (simp add: ulps_ok_def)
  show "u a \<le> shift_q 1 b"
  proof (cases a; cases b)
    fix x h assume ab: "a = Fin x" "b = Fin h"
    then obtain y where y: "u a = f32 y" "\<bar>y - x\<bar> \<le> \<bar>x\<bar> / 2 ^ 21 + 1 / 2 ^ 127" using fin grid a by metis
    have "y \<le> h + \<bar>h\<bar> / 2 ^ 21 + 1 / 2 ^ 127" using y(2) le ab by (simp add: abs_if field_simps split: if_splits)
    then show ?thesis using y(1) ab shift_up grid b by metis
  qed (use le in \<open>auto simp: inf\<close>)
  show "shift_q (- 1) a \<le> u b"
  proof (cases a; cases b)
    fix x h assume ab: "a = Fin x" "b = Fin h"
    then obtain y where y: "u b = f32 y" "\<bar>y - h\<bar> \<le> \<bar>h\<bar> / 2 ^ 21 + 1 / 2 ^ 127" using fin grid b by metis
    have "x - \<bar>x\<bar> / 2 ^ 21 - 1 / 2 ^ 127 \<le> y" using y(2) le ab by (simp add: abs_if field_simps split: if_splits)
    then show ?thesis using y(1) ab shift_down grid a by metis
  qed (use le in \<open>auto simp: inf\<close>)
qed

lemma gumbel_covers:
  assumes "ulps_ok u" "0 \<le> t" "covers iv l"
  shows "covers (gumbel_interval t g iv) (gumbel_value u t g l)"
proof -
  have m: "fst iv \<le> l" "l \<le> snd iv" using assms(3) by (auto simp: covers_def)
  let ?d = "on_fin (\<lambda>x. f32 (x / t))"
  have mono: "?d a \<le> ?d b" if "a \<le> b" for a b
    using that assms(2) by (intro on_fin_mono f32_mono divide_right_mono)
  consider "t = 0" | "t = 1" | "t \<noteq> 0" "t \<noteq> 1" by blast
  then show ?thesis
  proof cases
    case 3
    have "shift_q (- 1) (?d (fst iv)) \<le> u (?d l)" "u (?d l) \<le> shift_q 1 (?d (snd iv))"
      by (rule ulps_between [OF assms(1) mono refl refl], rule m)+
    then show ?thesis using 3 add32_mono by (simp add: covers_def gumbel_interval_def gumbel_value_def case_prod_beta)
  qed (use m add32_mono in \<open>auto simp: covers_def gumbel_interval_def gumbel_value_def case_prod_beta\<close>)
qed

end
