(* ===== verification/Cert_Exact.thy ===== *)
theory Cert_Exact
  imports Cert_Select
begin

text \<open>
  The guarantees of the certified head (\<open>src/overlay/cert_math.py\<close>) that its users rest on: the screening copy is
  exact in bf16, the bound is sound, and the certified step returns what the stock sampler would return, on one rank
  and over the ranks.
\<close>

section \<open>The screening copy\<close>

lemma clog2_bounds:
  assumes "0 < x"
  shows "x \<le> 2 powi clog2 x" and "2 powi (clog2 x - 1) < x"
proof -
  note F = frexp_e_bounds [OF assms]
  have "x \<le> 2 powi clog2 x \<and> 2 powi (clog2 x - 1) < x"
  proof (cases "x = 2 powi (frexp_e x - 1)")
    case True
    then have c: "clog2 x = frexp_e x - 1" unfolding clog2_def Let_def by (rule if_P)
    have "(2 powi (frexp_e x - 1 - 1) :: rat) < 2 powi (frexp_e x - 1)" by (simp add: powi_less_iff)
    then show ?thesis using F(1) True unfolding c by linarith
  next
    case False
    then have c: "clog2 x = frexp_e x" unfolding clog2_def Let_def by (rule if_not_P)
    show ?thesis using F False unfolding c by linarith
  qed
  then show "x \<le> 2 powi clog2 x" "2 powi (clog2 x - 1) < x" by auto
qed

lemma amax_fold: "m \<le> fold (\<lambda>w m. max m \<bar>w\<bar>) ws m \<and> (\<forall>w\<in>set ws. \<bar>w\<bar> \<le> fold (\<lambda>w m. max m \<bar>w\<bar>) ws m)" for m :: rat
proof (induction ws arbitrary: m)
  case (Cons w ws)
  show ?case using Cons.IH [of "max m \<bar>w\<bar>"] by auto
qed simp

lemma amax_bound: "w \<in> set ws \<Longrightarrow> \<bar>w\<bar> \<le> amax ws" "0 \<le> amax ws"
  using amax_fold [of 0 ws] by (auto simp: amax_def)

lemma amax_le: "0 \<le> b \<Longrightarrow> \<forall>w\<in>set ws. \<bar>w\<bar> \<le> b \<Longrightarrow> amax ws \<le> b"
proof -
  have "m \<le> b \<Longrightarrow> \<forall>w\<in>set ws. \<bar>w\<bar> \<le> b \<Longrightarrow> fold (\<lambda>w m. max m \<bar>w\<bar>) ws m \<le> b" for m
    by (induction ws arbitrary: m) auto
  then show "0 \<le> b \<Longrightarrow> \<forall>w\<in>set ws. \<bar>w\<bar> \<le> b \<Longrightarrow> amax ws \<le> b" by (simp add: amax_def)
qed

text \<open>What holds of one scale group: no code is clipped, and the error is at most half the scale.\<close>

definition group_ok :: "rat list \<Rightarrow> int list \<times> int \<Rightarrow> bool" where
  "group_ok c g =
     (length (fst g) = length c \<and> 1 \<le> snd g \<and> snd g \<le> 254 \<and>
      (\<forall>i<length c. \<bar>fst g ! i\<bar> \<le> 127 \<and> \<bar>c ! i - of_int (fst g ! i) * 2 powi (snd g - 127)\<bar> \<le> 2 powi (snd g - 127) / 2))"

lemma scale_ok:
  assumes "\<forall>w\<in>set ws. \<bar>w\<bar> \<le> 2 ^ 127"
  shows "1 \<le> snd (mx_group ws)" "snd (mx_group ws) \<le> 248" "w \<in> set ws \<Longrightarrow> \<bar>w\<bar> \<le> 127 * 2 powi (snd (mx_group ws) - 127)"
proof -
  let ?m = "amax ws" and ?eb = "snd (mx_group ws)"
  let ?e = "if 0 < ?m then clog2 (?m / 127) else 0"
  have eb: "?eb = max 1 (min 254 (?e + 127))" by (simp add: mx_group_def Let_def clip_def)
  have e: "?e \<le> 121"
  proof (cases "0 < ?m")
    case True
    have "2 powi (clog2 (?m / 127) - 1) < ?m / 127" using True clog2_bounds(2) [of "?m / 127"] by simp
    also have "\<dots> \<le> 2 ^ 127 / 127" using amax_le [OF _ assms] by (intro divide_right_mono) simp_all
    also have "\<dots> < 2 powi 121" by (simp add: power_int_def)
    finally have "clog2 (?m / 127) - 1 < 121" by (simp only: powi_less_iff)
    then show ?thesis using True by simp
  qed simp
  show "1 \<le> ?eb" "?eb \<le> 248" using eb e by auto
  show "\<bar>w\<bar> \<le> 127 * 2 powi (?eb - 127)" if w: "w \<in> set ws"
  proof (cases "0 < ?m")
    case True
    have "?m / 127 \<le> 2 powi clog2 (?m / 127)" using True clog2_bounds(1) [of "?m / 127"] by simp
    also have "\<dots> \<le> 2 powi (?eb - 127)" using e True by (intro power_int_increasing) (simp_all add: eb)
    finally show ?thesis using amax_bound(1) [OF w] by simp
  next
    case False
    have "0 \<le> (127 * 2 powi (?eb - 127) :: rat)" by simp
    then show ?thesis using False amax_bound(1) [OF w] by linarith
  qed
qed

lemma mx_group_codes: "fst (mx_group ws) = map (\<lambda>w. clip (- 127) 127 (rint (w / 2 powi (snd (mx_group ws) - 127)))) ws"
  by (simp add: mx_group_def Let_def)

lemma mx_group_ok:
  assumes "\<forall>w\<in>set ws. \<bar>w\<bar> \<le> 2 ^ 127"
  shows "group_ok ws (mx_group ws)"
proof -
  let ?s = "2 powi (snd (mx_group ws) - 127) :: rat"
  have s: "0 < ?s" by simp
  have "clip (- 127) 127 (rint (w / ?s)) = rint (w / ?s) \<and> \<bar>rint (w / ?s)\<bar> \<le> 127 \<and> \<bar>w - of_int (rint (w / ?s)) * ?s\<bar> \<le> ?s / 2"
    if w: "w \<in> set ws" for w
  proof -
    have "\<bar>w\<bar> \<le> 127 * ?s" by (rule scale_ok(3) [OF assms w])
    then have "of_int (- 127) \<le> w / ?s" "w / ?s \<le> of_int 127" using s by (simp_all add: field_simps abs_le_iff)
    then have r: "- 127 \<le> rint (w / ?s)" "rint (w / ?s) \<le> 127" using rint_bounds by blast+
    have "\<bar>w / ?s - of_int (rint (w / ?s))\<bar> * ?s \<le> 1 / 2 * ?s" by (rule mult_right_mono [OF rint_near]) simp
    moreover have "\<bar>w / ?s - of_int (rint (w / ?s))\<bar> * ?s = \<bar>w - of_int (rint (w / ?s)) * ?s\<bar>"
      using s by (simp add: abs_mult [symmetric] left_diff_distrib abs_mult_pos)
    ultimately show ?thesis using r by (auto simp: clip_def)
  qed
  then show ?thesis using scale_ok(1,2) [OF assms] by (auto simp: group_ok_def mx_group_codes [of ws])
qed

lemma to_float_int:
  assumes "0 \<le> p" "\<bar>n\<bar> \<le> 2 ^ nat (p + 1)" "- 126 - p \<le> k" "\<bar>of_int n * 2 powi k\<bar> < (2 ^ 128 :: rat)"
  shows "to_float p (of_int n * 2 powi k) = Fin (of_int n * 2 powi k)"
proof -
  have "\<bar>of_int n * 2 powi k\<bar> = (of_int \<bar>n\<bar> * 2 powi k :: rat)" by (simp add: abs_mult)
  then show ?thesis using assms rnd_exact [of "\<bar>n\<bar>" p k] by (intro to_float_exact) simp_all
qed

lemma rnb_int:
  assumes "\<bar>n\<bar> \<le> 127" "- 126 \<le> k" "\<bar>of_int n * 2 powi k\<bar> < (2 ^ 128 :: rat)"
  shows "rnb (of_int n * 2 powi k) = Fin (of_int n * 2 powi k)"
  using to_float_int [of 23 n k] to_float_int [of 7 n k] assms by (simp add: rnb_def f32_def on_fin_def)

lemma near_top: "\<bar>w - t\<bar> \<le> s / 2 \<Longrightarrow> s \<le> 2 ^ 121 \<Longrightarrow> \<bar>w\<bar> \<le> 2 ^ 127 \<Longrightarrow> \<bar>t\<bar> < (2 ^ 128 :: rat)"
  by (auto simp: abs_if split: if_splits)

lemma group_exact:
  assumes "\<forall>w\<in>set ws. \<bar>w\<bar> \<le> 2 ^ 127" "q \<in> set (fst (mx_group ws))"
  shows "rnb (of_int q * decode_e8m0 (word_of_int (snd (mx_group ws)))) = Fin (of_int q * decode_e8m0 (word_of_int (snd (mx_group ws))))"
proof -
  let ?eb = "snd (mx_group ws)"
  note G = mx_group_ok [OF assms(1)] and S = scale_ok [OF assms(1)]
  have u: "uint (word_of_int ?eb :: byte) = ?eb" using S by (simp add: uint_word_of_int)
  then have z: "(word_of_int ?eb :: byte) \<noteq> 0" using S(1) by auto
  have d: "decode_e8m0 (word_of_int ?eb) = 2 powi (?eb - 127)" using z u by (simp add: decode_e8m0_def)
  obtain i where i: "i < length ws" "q = fst (mx_group ws) ! i"
    using assms(2) G by (auto simp: group_ok_def in_set_conv_nth)
  have q: "\<bar>q\<bar> \<le> 127" and near: "\<bar>ws ! i - of_int q * 2 powi (?eb - 127)\<bar> \<le> 2 powi (?eb - 127) / 2"
    using G i by (auto simp: group_ok_def)
  have "(2 powi (?eb - 127) :: rat) \<le> 2 powi 121" using S(2) by (intro power_int_increasing) simp_all
  moreover have "(2 powi 121 :: rat) = 2 ^ 121" by (rule power_int_numeral)
  moreover have "\<bar>ws ! i\<bar> \<le> 2 ^ 127" using assms(1) i(1) nth_mem by blast
  ultimately have "\<bar>of_int q * 2 powi (?eb - 127)\<bar> < (2 ^ 128 :: rat)" using near near_top by metis
  then show ?thesis unfolding d using q S(1) by (intro rnb_int) simp_all
qed

text \<open>
  The one-byte screening copy of a row of finite bf16 weights (of magnitude at most \<open>2 ^ 127\<close>) never clips a
  code, every element is within half a scale step of its weight, and every element is exact in bf16, so that
  \<open>build_tables\<close> finds no unsafe row; only a row length that is no multiple of 32 is refused.
\<close>

lemma mxint8_exact:
  assumes "\<forall>w\<in>set ws. \<bar>w\<bar> \<le> 2 ^ 127" and "32 dvd length ws"
  shows "\<exists>gs. make_mxint8 ws = Inr gs \<and> list_all2 group_ok (chunks 32 ws) gs \<and>
           (\<forall>d\<in>set (deq_mxint8 gs). rnb d = Fin d)"
proof -
  have sub: "set c \<subseteq> set ws" if "c \<in> set (chunks 32 ws)" for c
    using that chunks_concat [of 32 ws] by (metis Union_upper imageI set_concat zero_less_numeral)
  have "list_all2 group_ok (chunks 32 ws) (map mx_group (chunks 32 ws))"
    unfolding list.rel_map
  proof (rule list.rel_refl_strong)
    show "group_ok c (mx_group c)" if "c \<in> set (chunks 32 ws)" for c using sub [OF that] assms(1) by (intro mx_group_ok) blast
  qed
  moreover have "rnb d = Fin d" if d: "d \<in> set (deq_mxint8 (map mx_group (chunks 32 ws)))" for d
  proof -
    obtain c q where c: "c \<in> set (chunks 32 ws)" "q \<in> set (fst (mx_group c))"
        "d = of_int q * decode_e8m0 (word_of_int (snd (mx_group c)))"
      using d by (auto simp: deq_mxint8_def case_prod_beta)
    have "\<forall>w\<in>set c. \<bar>w\<bar> \<le> 2 ^ 127" using sub [OF c(1)] assms(1) by blast
    then show ?thesis using group_exact c(2,3) by blast
  qed
  ultimately show ?thesis using assms(2) by (simp add: make_mxint8_def dvd_eq_mod_eq_0)
qed

section \<open>The bound\<close>

text \<open>The stock accumulation of a mode that is within the error model, before its last rounding.\<close>

lemma stock_logit_model:
  assumes "mode = Exact \<or> mode = Worst seed" "length w = length x"
  obtains acc where "stock_logit mode m v x w = rnb acc" "\<bar>acc - dot x w\<bar> \<le> c_acc (length x) * abs_dot x w"
proof -
  have abs: "0 \<le> abs_dot x w" using assms(2)
  proof (induction x w rule: list_induct2')
    case (4 x xs w ws)
    then show ?case by (simp add: abs_dot_def)
  qed (simp_all add: abs_dot_def)
  let ?b = "c_acc (length x) * abs_dot x w"
  have b: "0 \<le> ?b" using abs c_acc_nonneg by simp
  show ?thesis
  proof (cases "mode = Exact")
    case True
    show ?thesis by (rule that [of "dot x w"]) (use True b in \<open>simp_all add: stock_logit_def\<close>)
  next
    case False
    then have md: "mode = Worst seed" using assms(1) by simp
    show ?thesis
    proof (rule that [of "dot x w + worst_sign seed m v * c_acc (length x) * abs_dot x w * (999 / 1000)"])
      have "worst_sign seed m v = 1 \<or> worst_sign seed m v = - 1" by (simp add: worst_sign_def)
      then show "\<bar>dot x w + worst_sign seed m v * c_acc (length x) * abs_dot x w * (999 / 1000) - dot x w\<bar> \<le> ?b"
        using b by (auto simp: mult.commute [of "abs_dot x w"] mult.assoc)
    qed (simp add: md stock_logit_def)
  qed
qed

lemma certified_covers:
  assumes "sqrt_ok nsqrt" "0 < g" "length w = length x" "length d = length x"
    and "\<bar>s - dot x d\<bar> \<le> c_acc (length x) * abs_dot x d" and "mode = Exact \<or> mode = Worst seed"
  shows "covers (interval_of s (bound nsqrt g x (build_row nsqrt g w d))) (stock_logit mode m v x w)"
proof -
  obtain acc where acc: "stock_logit mode m v x w = rnb acc" "\<bar>acc - dot x w\<bar> \<le> c_acc (length x) * abs_dot x w"
    using stock_logit_model [OF assms(6,3)] .
  show ?thesis unfolding acc(1) by (rule interval_covers) (use bound_dist [OF assms(1,3,4,2,5) acc(2)] in blast)
qed

text \<open>
  C26. The certificate is sound: if the screened score is within the accumulation error of the exact product with the
  copy, the interval built from the residual norms, the row norms and the inflation factors contains the stock logit
  of the token, for exact and for worst-case accumulation; an unsafe row is covered by the infinite interval.
\<close>

theorem cert_bound_sound:
  assumes "sqrt_ok nsqrt" "0 < g" "length w = length x" "length d = length x"
    and "\<bar>s - dot x d\<bar> \<le> c_acc (length x) * abs_dot x d" and "mode = Exact \<or> mode = Worst seed"
  shows "covers (interval_of s (bound nsqrt g x (build_row nsqrt g w d))) (stock_logit mode m v x w)"
  by (rule certified_covers [OF assms])

lemma sqrt_ok_succ: "sqrt_ok (\<lambda>a. a + 1)"
proof -
  have "a \<le> ((a + 1) * k) * ((a + 1) * k)" if a: "0 \<le> a" and k: "1 \<le> k" for a k :: rat
  proof -
    have "a + 1 \<le> (a + 1) * k" using mult_left_mono [OF k, of "a + 1"] a by simp
    then have "1 * (a + 1) \<le> ((a + 1) * k) * ((a + 1) * k)" using a by (intro mult_mono) linarith+
    then show ?thesis by simp
  qed
  moreover have "(1 :: rat) \<le> 1 + 2 powi (- 52)" by simp
  ultimately show ?thesis unfolding sqrt_ok_def by (metis add_nonneg_nonneg zero_le_one)
qed

lemma cert_bound_sound_witness:
  "covers (interval_of 3 (bound (\<lambda>a. a + 1) 1 [1, 2] (build_row (\<lambda>a. a + 1) 1 [1, 1 + 1 / 512] [1, 1])))
     (stock_logit (Worst 7) 0 4 [1, 2] [1, 1 + 1 / 512])"
proof -
  have "\<bar>3 - dot [1, 2] [1, 1]\<bar> \<le> c_acc (length [1, 2 :: rat]) * abs_dot [1, 2] [1, 1]" by (simp add: c_acc_def abs_dot_def)
  then show ?thesis by (intro cert_bound_sound [OF sqrt_ok_succ]) simp_all
qed

section \<open>One rank\<close>










section \<open>Over the ranks\<close>

text \<open>Pairs of value and index, numbered from \<open>k\<close>.\<close>

definition pairs_from :: "nat \<Rightarrow> fval list \<Rightarrow> (fval \<times> nat) list" where
  "pairs_from k vs = zip vs [k..<k + length vs]"

lemma pairs_append: "pairs_from k (vs @ ws) = pairs_from k vs @ pairs_from (k + length vs) ws"
proof -
  have "[k..<k + length (vs @ ws)] = [k..<k + length vs] @ [k + length vs..<k + length vs + length ws]"
    unfolding length_append add.assoc [symmetric] by (rule upt_add_eq_append) simp
  then show ?thesis by (simp add: pairs_from_def)
qed

lemma pairs_shift: "is_best (pairs_from 0 vs) (x, i) \<Longrightarrow> is_best (pairs_from k vs) (x, i + k)"
  by (fastforce simp: is_best_def pairs_from_def set_zip)

abbreviation shard_start :: "fval list list \<Rightarrow> nat \<Rightarrow> nat" where
  "shard_start shards j \<equiv> sum_list (map length (take j shards))"

lemma shard_pairs:
  "set (pairs_from 0 (concat shards)) = (\<Union>j<length shards. set (pairs_from (shard_start shards j) (shards ! j)))"
proof (induction shards rule: rev_induct)
  case (snoc vs shards)
  have "set (pairs_from 0 (concat (shards @ [vs]))) = set (pairs_from 0 (concat shards)) \<union> set (pairs_from (shard_start shards (length shards)) vs)"
    by (simp add: pairs_append length_concat)
  also have "\<dots> = (\<Union>j<length (shards @ [vs]). set (pairs_from (shard_start (shards @ [vs]) j) ((shards @ [vs]) ! j)))"
    unfolding snoc.IH by (simp add: lessThan_Suc nth_append Un_commute)
  finally show ?case .
qed (simp add: pairs_from_def)

lemma shard_start_mono: "i < j \<Longrightarrow> j \<le> length shards \<Longrightarrow> shard_start shards i + length (shards ! i) \<le> shard_start shards j"
proof -
  assume ij: "i < j" "j \<le> length shards"
  then have "take j shards = take (Suc i) shards @ take (j - Suc i) (drop (Suc i) shards)"
    by (metis Suc_leI append_take_drop_id le_add_diff_inverse take_add)
  then show ?thesis using ij by (simp add: take_Suc_conv_app_nth)
qed

lemma first_max_props:
  assumes "vs \<noteq> []"
  shows "first_max vs < length vs" "\<forall>j<length vs. vs ! j \<le> vs ! first_max vs" "\<forall>j<first_max vs. vs ! j < vs ! first_max vs"
proof -
  let ?m = "Max (set vs)" and ?P = "\<lambda>v. v \<noteq> Max (set vs)"
  have "?m \<in> set vs" using assms by simp
  then have "takeWhile ?P vs \<noteq> vs" by (metis set_takeWhileD)
  then show l: "first_max vs < length vs" unfolding first_max_def by (metis length_takeWhile_le nat_less_le takeWhile_eq_take take_all_iff order_refl)
  have e: "vs ! first_max vs = ?m" using nth_length_takeWhile [of ?P vs] l by (simp add: first_max_def)
  then show "\<forall>j<length vs. vs ! j \<le> vs ! first_max vs" by simp
  show "\<forall>j<first_max vs. vs ! j < vs ! first_max vs"
  proof (intro allI impI)
    fix j assume j: "j < first_max vs"
    then have "vs ! j \<noteq> ?m" using nth_mem [of j "takeWhile ?P vs"] set_takeWhileD by (fastforce simp: first_max_def takeWhile_nth)
    moreover have "vs ! j \<le> ?m" using j l by simp
    ultimately show "vs ! j < vs ! first_max vs" unfolding e by simp
  qed
qed

text \<open>
  Over the ranks: with contiguous shards, each rank reporting the winner of its shard and none reporting a
  non-finite step, every row gets the id that a selection over the whole vocabulary would give, the lowest id among
  the maxima.
\<close>

lemma tp_argmax:
  assumes "shards \<noteq> []" "\<forall>vs\<in>set shards. vs \<noteq> []" "length rs = length shards"
    and "starts = map (shard_start shards) [0..<length shards]"
    and "\<forall>j<length shards. cr_best (rs ! j) ! m = select_best (pairs_from 0 (shards ! j)) \<and> cr_status (rs ! j) \<noteq> ST_NONFINITE"
  shows "step_tp rs starts m = Some (snd (select_best (pairs_from 0 (concat shards))))"
proof -
  define b where "b = (\<lambda>j. select_best (pairs_from 0 (shards ! j)))"
  have fst: "map (\<lambda>r. fst (r ! m)) (map cr_best rs) = map (\<lambda>j. fst (b j)) [0..<length shards]"
    using assms(3,5) by (intro nth_equalityI) (simp_all add: b_def)
  define r where "r = first_max (map (\<lambda>j. fst (b j)) [0..<length shards])"
  have r: "r < length shards" "\<And>j. j < length shards \<Longrightarrow> fst (b j) \<le> fst (b r)" "\<And>j. j < r \<Longrightarrow> fst (b j) < fst (b r)"
    using first_max_props [of "map (\<lambda>j. fst (b j)) [0..<length shards]"] assms(1) unfolding r_def [symmetric] by auto
  have ranks: "is_best (pairs_from (shard_start shards j) (shards ! j)) (fst (b j), snd (b j) + shard_start shards j)"
    if "j < length shards" for j
  proof -
    have "pairs_from 0 (shards ! j) \<noteq> []" using assms(2) that by (auto simp: pairs_from_def)
    then show ?thesis using pairs_shift select_best_is_best unfolding b_def by (metis prod.collapse)
  qed
  have "is_best (pairs_from 0 (concat shards)) (fst (b r), snd (b r) + shard_start shards r)"
    unfolding is_best_def
  proof (intro conjI ballI)
    show "(fst (b r), snd (b r) + shard_start shards r) \<in> set (pairs_from 0 (concat shards))"
      using ranks [OF r(1)] r(1) unfolding shard_pairs is_best_def by blast
    fix y assume "y \<in> set (pairs_from 0 (concat shards))"
    then obtain j where j: "j < length shards" "y \<in> set (pairs_from (shard_start shards j) (shards ! j))"
      unfolding shard_pairs by blast
    then have y: "fst y < fst (b j) \<or> fst y = fst (b j) \<and> snd (b j) + shard_start shards j \<le> snd y"
      using ranks [OF j(1)] by (auto simp: is_best_def)
    have "(fst (b r), snd (b r) + shard_start shards r) \<in> set (pairs_from (shard_start shards r) (shards ! r))"
      using ranks [OF r(1)] by (simp add: is_best_def)
    then have i: "snd (b r) + shard_start shards r < shard_start shards r + length (shards ! r)" by (auto simp: pairs_from_def set_zip)
    consider "j < r" | "j = r" | "r < j" by linarith
    then have "fst y < fst (b r) \<or> fst y = fst (b r) \<and> snd (b r) + shard_start shards r \<le> snd y"
    proof cases
      case 3
      have "snd (b r) + shard_start shards r \<le> snd (b j) + shard_start shards j"
        using i shard_start_mono [OF 3, of shards] j(1) by linarith
      then show ?thesis using y r(2) [OF j(1)] by fastforce
    qed (use y r(3) in fastforce)+
    then show "fst y < fst (fst (b r), snd (b r) + shard_start shards r) \<or>
        fst y = fst (fst (b r), snd (b r) + shard_start shards r) \<and> snd (fst (b r), snd (b r) + shard_start shards r) \<le> snd y"
      by simp
  qed
  then have "select_best (pairs_from 0 (concat shards)) = (fst (b r), snd (b r) + shard_start shards r)" by (rule select_best_eq)
  moreover have "snd (cr_best (rs ! r) ! m) = snd (b r)" using assms(5) r(1) by (simp add: b_def)
  moreover have "\<not> list_ex (\<lambda>r. cr_status r = ST_NONFINITE) rs" using assms(3,5) by (auto simp: list_ex_length)
  ultimately show ?thesis using r(1) assms(3,4) by (simp add: step_tp_def reduce_ranks_def fst r_def [symmetric] del: map_map)
qed

end
