(* ===== verification/Parser_Facade.thy ===== *)
theory Parser_Facade
  imports Py_Json
begin

text \<open>
  The streaming facade over a reasoning parser and a tool parser (\<open>src/overlay/abstract_parser.py\<close>). The two parsers
  are vLLM code: each is a record of the functions the facade calls, over a state of its own, and so are the library
  functions for named and required tool choices, tool call ids and JSON. A function that may raise returns a result.
  Metrics are left out.
\<close>

section \<open>Requests and messages\<close>

text \<open>The tool choice of a request: the two protocols spell a named function differently.\<close>

datatype choice =
    C_unset
  | C_none
  | C_auto
  | C_required
  | C_function string
  | C_named string
  | C_object

record chat_request =
  rq_choice :: choice
  rq_tools :: "string list option"
  rq_reasoning :: bool
  rq_responses :: bool
  rq_structured :: "string option"
  rq_text :: "string option"
  rq_format :: "string option"

record tool_call =
  tc_id :: "string option"
  tc_function :: "(string option \<times> string option) option"

record delta =
  dm_reasoning :: "string option"
  dm_content :: "string option"
  dm_tools :: "tool_call list"

definition delta0 :: delta where
  "delta0 = \<lparr>dm_reasoning = None, dm_content = None, dm_tools = []\<rparr>"

text \<open>The Python truth of an optional string, and \<open>s or ""\<close>.\<close>

definition truthy :: "string option \<Rightarrow> bool" where
  "truthy s = (s \<noteq> None \<and> s \<noteq> Some [])"

definition or_empty :: "string option \<Rightarrow> string" where
  "or_empty s = (case s of None \<Rightarrow> [] | Some t \<Rightarrow> t)"

record function_call =
  fc_id :: "string option"
  fc_name :: string
  fc_args :: string

record tool_info =
  ti_called :: bool
  ti_calls :: "function_call list"
  ti_content :: "string option"

section \<open>The parsers and the library\<close>

record 'r reasoning_parser =
  rp_engine :: bool
  rp_extract :: "'r \<Rightarrow> string \<Rightarrow> chat_request \<Rightarrow> ('r \<times> string option \<times> string option) result"
  rp_is_end :: "'r \<Rightarrow> nat list \<Rightarrow> bool"
  rp_is_end_streaming :: "'r \<Rightarrow> nat list \<Rightarrow> nat list \<Rightarrow> bool"
  rp_content_ids :: "'r \<Rightarrow> nat list \<Rightarrow> nat list"
  rp_stream :: "'r \<Rightarrow> string \<Rightarrow> string \<Rightarrow> string \<Rightarrow> nat list \<Rightarrow> nat list \<Rightarrow> nat list \<Rightarrow> ('r \<times> delta option) result"
  rp_confirmed_end :: "'r \<Rightarrow> bool"
  rp_initial :: "'r \<Rightarrow> nat list \<Rightarrow> 'r"
  rp_finish :: "('r \<Rightarrow> 'r \<times> delta option) option"
  rp_fallback :: "('r \<Rightarrow> string \<Rightarrow> chat_request \<Rightarrow> string option) option"
  rp_adjust :: "chat_request \<Rightarrow> chat_request"
  rp_glm_skip :: "('r \<Rightarrow> chat_request \<Rightarrow> 'r) option"

record 't tool_parser =
  tp_engine :: bool
  tp_named_ok :: bool
  tp_extract :: "'t \<Rightarrow> string \<Rightarrow> chat_request \<Rightarrow> ('t \<times> tool_info) result"
  tp_stream :: "'t \<Rightarrow> string \<Rightarrow> string \<Rightarrow> string \<Rightarrow> nat list \<Rightarrow> nat list \<Rightarrow> nat list \<Rightarrow> chat_request \<Rightarrow> ('t \<times> delta option) result"
  tp_unstreamed :: "'t \<Rightarrow> string"
  tp_finish :: "('t \<Rightarrow> 't \<times> delta option) option"
  tp_tag_model :: bool
  tp_tag :: "chat_request \<Rightarrow> string option"
  tp_adjust :: "chat_request \<Rightarrow> chat_request"
  tp_glm_skip :: "('t \<Rightarrow> chat_request \<Rightarrow> 't) option"

text \<open>
  \<open>named\<close> and \<open>required\<close> are \<open>extract_named_tool_call_streaming\<close> and \<open>extract_required_tool_call_streaming\<close>;
  \<open>validate\<close> is the pydantic validation of a list of function definitions.
\<close>

record vllm_lib =
  vl_make_id :: "string \<Rightarrow> string \<Rightarrow> int \<Rightarrow> string"
  vl_history :: "chat_request \<Rightarrow> int"
  vl_validate :: "string \<Rightarrow> (string \<times> json) list option"
  vl_dumps :: "json \<Rightarrow> string"
  vl_named :: "string \<Rightarrow> string \<Rightarrow> bool \<Rightarrow> int \<Rightarrow> string \<Rightarrow> delta option \<times> bool"
  vl_required :: "string \<Rightarrow> string \<Rightarrow> string \<Rightarrow> bool \<Rightarrow> int \<Rightarrow> string \<Rightarrow> delta option \<times> bool"

section \<open>The stream state\<close>

record stream_state =
  st_reasoning_ended :: bool
  st_tool_started :: bool
  st_prompt_checked :: bool
  st_text :: string
  st_ids :: "nat list"
  st_history :: int
  st_history_set :: bool
  st_id_type :: string
  st_name_returned :: bool
  st_engine :: bool

definition st_new :: "string \<Rightarrow> bool \<Rightarrow> stream_state" where
  "st_new id_type engine =
     \<lparr>st_reasoning_ended = False, st_tool_started = False, st_prompt_checked = False, st_text = [], st_ids = [],
      st_history = 0, st_history_set = False, st_id_type = id_type, st_name_returned = False, st_engine = engine\<rparr>"

definition st_advance :: "stream_state \<Rightarrow> string \<Rightarrow> nat list \<Rightarrow> string \<times> nat list" where
  "st_advance s text ids = (if st_engine s then (text, ids) else (st_text s @ text, st_ids s @ ids))"

definition st_commit :: "stream_state \<Rightarrow> string \<Rightarrow> nat list \<Rightarrow> stream_state" where
  "st_commit s text ids = (if st_engine s then s\<lparr>st_text := [], st_ids := []\<rparr> else s\<lparr>st_text := text, st_ids := ids\<rparr>)"

record ('r, 't) facade =
  fa_lib :: vllm_lib
  fa_reasoning :: "'r reasoning_parser option"
  fa_tool :: "'t tool_parser option"

text \<open>What changes during a stream: the two parsers' states and the stream state.\<close>

record ('r, 't) live =
  lv_r :: 'r
  lv_t :: 't
  lv_s :: stream_state

definition engine_based :: "('r, 't) facade \<Rightarrow> bool" where
  "engine_based fa =
     ((case fa_reasoning fa of None \<Rightarrow> True | Some rp \<Rightarrow> rp_engine rp) \<and>
      (case fa_tool fa of None \<Rightarrow> True | Some tp \<Rightarrow> tp_engine tp))"

definition parser_init :: "('r, 't) facade \<Rightarrow> string option \<Rightarrow> 'r \<Rightarrow> 't \<Rightarrow> ('r, 't) live" where
  "parser_init fa model_id_type r t =
     \<lparr>lv_r = r, lv_t = t,
      lv_s = st_new (case model_id_type of None \<Rightarrow> ''random'' | Some k \<Rightarrow> k) (engine_based fa)\<rparr>"

definition init_history :: "('r, 't) facade \<Rightarrow> chat_request \<Rightarrow> stream_state \<Rightarrow> stream_state" where
  "init_history fa rq s =
     (if st_history_set s then s
      else if st_id_type s \<noteq> ''kimi_k2'' then s\<lparr>st_history_set := True\<rparr>
      else s\<lparr>st_history := vl_history (fa_lib fa) rq, st_history_set := True\<rparr>)"

definition configure_literal_tools :: "('r, 't) facade \<Rightarrow> chat_request \<Rightarrow> ('r, 't) live \<Rightarrow> ('r, 't) live" where
  "configure_literal_tools fa rq l =
     (if rq_choice rq = C_none \<or> rq_tools rq = None \<or> rq_tools rq = Some []
      then l\<lparr>lv_r := (case fa_reasoning fa of None \<Rightarrow> lv_r l
                      | Some rp \<Rightarrow> (case rp_glm_skip rp of None \<Rightarrow> lv_r l | Some f \<Rightarrow> f (lv_r l) rq)),
             lv_t := (case fa_tool fa of None \<Rightarrow> lv_t l
                      | Some tp \<Rightarrow> (case tp_glm_skip tp of None \<Rightarrow> lv_t l | Some f \<Rightarrow> f (lv_t l) rq))\<rparr>
      else l)"

section \<open>Whole outputs\<close>

definition extract_reasoning :: "('r, 't) facade \<Rightarrow> string \<Rightarrow> chat_request \<Rightarrow> ('r, 't) live
    \<Rightarrow> (('r, 't) live \<times> string option \<times> string option) result" where
  "extract_reasoning fa out rq l =
     (case fa_reasoning fa of None \<Rightarrow> Inr (l, None, Some out)
      | Some rp \<Rightarrow> bind_r (rp_extract rp (lv_r l) out rq) (\<lambda>(r, re, co). Inr (l\<lparr>lv_r := r\<rparr>, re, co)))"

definition is_named :: "choice \<Rightarrow> bool" where
  "is_named c = (case c of C_function _ \<Rightarrow> True | C_named _ \<Rightarrow> True | _ \<Rightarrow> False)"

definition get_function_name :: "chat_request \<Rightarrow> string result" where
  "get_function_name rq = (case rq_choice rq of C_function f \<Rightarrow> Inr f | C_named f \<Rightarrow> Inr f | _ \<Rightarrow> Inl ValueError)"

definition make_tool_call_id :: "('r, 't) facade \<Rightarrow> string \<Rightarrow> stream_state \<Rightarrow> stream_state \<times> string option" where
  "make_tool_call_id fa name s =
     (if st_id_type s \<noteq> ''kimi_k2'' then (s, None)
      else (s\<lparr>st_history := st_history s + 1\<rparr>, Some (vl_make_id (fa_lib fa) (st_id_type s) name (st_history s))))"

definition extract_tool_calls :: "('r, 't) facade \<Rightarrow> string \<Rightarrow> chat_request \<Rightarrow> ('r, 't) live \<Rightarrow> (('r, 't) live \<times> tool_info) result" where
  "extract_tool_calls fa out rq l =
     (case fa_tool fa of None \<Rightarrow> Inr (l, \<lparr>ti_called = False, ti_calls = [], ti_content = Some out\<rparr>)
      | Some tp \<Rightarrow> bind_r (tp_extract tp (lv_t l) out rq) (\<lambda>(t, info). Inr (l\<lparr>lv_t := t\<rparr>, info)))"

fun required_calls :: "('r, 't) facade \<Rightarrow> (string \<times> json) list \<Rightarrow> stream_state \<Rightarrow> stream_state \<times> function_call list" where
  "required_calls fa [] s = (s, [])"
| "required_calls fa ((name, params) # ps) s =
     (case make_tool_call_id fa name s of (s1, i) \<Rightarrow>
      case required_calls fa ps s1 of (s2, cs) \<Rightarrow>
        (s2, \<lparr>fc_id = i, fc_name = name, fc_args = vl_dumps (fa_lib fa) params\<rparr> # cs))"

definition blank :: "string option \<Rightarrow> bool" where
  "blank content = (case content of None \<Rightarrow> True | Some c \<Rightarrow> strip c = [])"

text \<open>The calls are \<open>None\<close> when automatic parsing found none.\<close>

definition tool_calls_of :: "('r, 't) facade \<Rightarrow> string option \<Rightarrow> chat_request \<Rightarrow> bool \<Rightarrow> ('r, 't) live
    \<Rightarrow> (('r, 't) live \<times> function_call list option \<times> string option) result" where
  "tool_calls_of fa content rq auto l =
     (case fa_tool fa of None \<Rightarrow> Inr (l, Some [], content)
      | Some tp \<Rightarrow>
          if rq_choice rq = C_none
          then (if engine_based fa
                then bind_r (extract_tool_calls fa (or_empty content) rq l) (\<lambda>(l', info). Inr (l', Some [], ti_content info))
                else Inr (l, Some [], content))
          else
            let named = is_named (rq_choice rq); required = (rq_choice rq = C_required);
                is_auto = (auto \<and> (rq_choice rq = C_auto \<or> rq_choice rq = C_unset \<or> \<not> tp_named_ok tp \<and> (named \<or> required)))
            in if named \<and> tp_named_ok tp
               then (if blank content then Inr (l, Some [], None)
                     else bind_r (get_function_name rq) (\<lambda>name.
                       case make_tool_call_id fa name (lv_s l) of (s, i) \<Rightarrow>
                         Inr (l\<lparr>lv_s := s\<rparr>, Some [\<lparr>fc_id = i, fc_name = name, fc_args = or_empty content\<rparr>], None)))
               else if required \<and> tp_named_ok tp
               then (case vl_validate (fa_lib fa) (or_empty content) of
                       None \<Rightarrow> Inr (l, Some [], None)
                     | Some ps \<Rightarrow> (case required_calls fa ps (lv_s l) of (s, cs) \<Rightarrow> Inr (l\<lparr>lv_s := s\<rparr>, Some cs, None)))
               else if is_auto
               then bind_r (extract_tool_calls fa (or_empty content) rq l) (\<lambda>(l', info).
                      if ti_called info
                      then Inr (l', Some (ti_calls info),
                                if truthy (ti_content info) \<and> blank (ti_content info) then None else ti_content info)
                      else if (required \<or> named) \<and> blank content then Inr (l', Some [], None)
                      else Inr (l', None, content))
               else Inr (l, Some [], content))"

definition parse_output :: "('r, 't) facade \<Rightarrow> string \<Rightarrow> chat_request \<Rightarrow> bool \<Rightarrow> ('r, 't) live
    \<Rightarrow> (('r, 't) live \<times> string option \<times> string option \<times> function_call list option) result" where
  "parse_output fa out rq auto l0 =
     (let l1 = configure_literal_tools fa rq l0; l2 = l1\<lparr>lv_s := init_history fa rq (lv_s l1)\<rparr>
      in bind_r (extract_reasoning fa out rq l2) (\<lambda>(l3, reasoning, content).
         bind_r (tool_calls_of fa content rq auto l3) (\<lambda>(l4, calls, content').
           Inr (l4, reasoning, content', calls))))"

section \<open>Adjusting a request\<close>

definition apply_structural_tag :: "'t tool_parser \<Rightarrow> chat_request \<Rightarrow> chat_request" where
  "apply_structural_tag tp rq =
     (if \<not> tp_tag_model tp \<or> rq_tools rq = None \<or> rq_tools rq = Some [] then rq
      else if \<not> (rq_choice rq = C_auto \<or> rq_choice rq = C_required \<or> is_named (rq_choice rq)) then rq
      else case tp_tag tp rq of
             None \<Rightarrow> rq
           | Some tag \<Rightarrow>
               let rq1 = rq\<lparr>rq_structured := Some tag\<rparr>
               in if rq_responses rq then rq1\<lparr>rq_text := None\<rparr> else rq1\<lparr>rq_format := None\<rparr>)"

definition adjust_request :: "('r, 't) facade \<Rightarrow> chat_request \<Rightarrow> chat_request" where
  "adjust_request fa rq =
     (let rq1 = (case fa_reasoning fa of None \<Rightarrow> rq | Some rp \<Rightarrow> rp_adjust rp rq)
      in case fa_tool fa of None \<Rightarrow> rq1 | Some tp \<Rightarrow> tp_adjust tp (apply_structural_tag tp rq1))"

end
