(* ===== verification/Parser_Stream.thy ===== *)
theory Parser_Stream
  imports Parser_Facade
begin

text \<open>
  One delta of a stream (\<open>DelegatingParser.parse_delta\<close> in \<open>src/overlay/abstract_parser.py\<close>): the prompt check, the
  reasoning phase and its end, the tool call phase, the pass-through, and the end of the stream.
\<close>

section \<open>Phases\<close>

definition in_reasoning_phase :: "('r, 't) facade \<Rightarrow> stream_state \<Rightarrow> bool" where
  "in_reasoning_phase fa s = (case fa_reasoning fa of None \<Rightarrow> False | Some _ \<Rightarrow> \<not> st_reasoning_ended s)"

definition in_tool_call_phase :: "('r, 't) facade \<Rightarrow> stream_state \<Rightarrow> bool" where
  "in_tool_call_phase fa s = (case fa_tool fa of None \<Rightarrow> False | Some _ \<Rightarrow> st_reasoning_ended s)"

definition check_prompt :: "('r, 't) facade \<Rightarrow> nat list option \<Rightarrow> ('r, 't) live \<Rightarrow> ('r, 't) live" where
  "check_prompt fa prompt l =
     (case prompt of
        None \<Rightarrow> l
      | Some ids \<Rightarrow>
          if st_prompt_checked (lv_s l) then l
          else let s = (lv_s l)\<lparr>st_prompt_checked := True\<rparr>
               in (case fa_reasoning fa of
                     None \<Rightarrow> l\<lparr>lv_s := s\<lparr>st_reasoning_ended := True\<rparr>\<rparr>
                   | Some rp \<Rightarrow>
                       if rp_is_end rp (lv_r l) ids then l\<lparr>lv_s := s\<lparr>st_reasoning_ended := True\<rparr>\<rparr>
                       else l\<lparr>lv_r := rp_initial rp (lv_r l) ids, lv_s := s\<rparr>))"

text \<open>The locals of \<open>parse_delta\<close> the phases hand on.\<close>

record locals =
  lo_delta :: string
  lo_ids :: "nat list"
  lo_cur :: string
  lo_cur_ids :: "nat list"
  lo_msg :: "delta option"
  lo_moved :: bool

text \<open>The reasoning phase; an engine without \<open>finish_streaming\<close> raises when its reasoning ends.\<close>

definition finish_engine :: "'r reasoning_parser \<Rightarrow> 'r \<Rightarrow> ('r \<times> delta option) result" where
  "finish_engine rp r =
     (if \<not> rp_engine rp then Inr (r, None)
      else case rp_finish rp of None \<Rightarrow> Inl AttributeError | Some f \<Rightarrow> Inr (f r))"

definition msg_content :: "delta option \<Rightarrow> string" where
  "msg_content m = (case m of None \<Rightarrow> [] | Some d \<Rightarrow> or_empty (dm_content d))"

definition should_transition :: "'r reasoning_parser \<Rightarrow> 'r \<Rightarrow> nat list \<Rightarrow> nat list \<Rightarrow> bool" where
  "should_transition rp r cur_ids ids =
     (if rp_engine rp then rp_confirmed_end rp r else rp_is_end_streaming rp r cur_ids ids)"

definition reasoning_step :: "('r, 't) facade \<Rightarrow> 'r reasoning_parser \<Rightarrow> ('r, 't) live \<Rightarrow> locals \<Rightarrow> (('r, 't) live \<times> locals) result" where
  "reasoning_step fa rp l v =
     (let s = lv_s l
      in bind_r (rp_stream rp (lv_r l) (st_text s) (lo_cur v) (lo_delta v) (st_ids s) (lo_cur_ids v) (lo_ids v)) (\<lambda>(r, m).
           if \<not> should_transition rp r (lo_cur_ids v) (lo_ids v)
           then Inr (l\<lparr>lv_r := r\<rparr>, v\<lparr>lo_msg := m\<rparr>)
           else
             let cur_ids = rp_content_ids rp r (lo_ids v)
             in bind_r (finish_engine rp r) (\<lambda>(r', fl).
                  let cur = msg_content m @ msg_content fl
                  in Inr (l\<lparr>lv_r := r', lv_s := s\<lparr>st_reasoning_ended := True\<rparr>\<rparr>,
                          v\<lparr>lo_cur := cur, lo_cur_ids := cur_ids, lo_moved := True,
                            lo_delta := (if engine_based fa then lo_delta v else cur),
                            lo_msg := (if engine_based fa \<and> fa_tool fa \<noteq> None
                                       then map_option (\<lambda>d. d\<lparr>dm_content := None\<rparr>) m else m)\<rparr>))))"

text \<open>\<open>_extract_tool_calls_streaming\<close>.\<close>

definition call_tool_stream :: "'t tool_parser \<Rightarrow> stream_state \<Rightarrow> locals \<Rightarrow> chat_request \<Rightarrow> 't \<Rightarrow> ('t \<times> delta option) result" where
  "call_tool_stream tp s v rq t = tp_stream tp t (st_text s) (lo_cur v) (lo_delta v) (st_ids s) (lo_cur_ids v) (lo_ids v) rq"

definition tool_stream :: "('r, 't) facade \<Rightarrow> 't tool_parser \<Rightarrow> stream_state \<Rightarrow> locals \<Rightarrow> chat_request \<Rightarrow> 't
    \<Rightarrow> ('t \<times> delta option \<times> bool) result" where
  "tool_stream fa tp s v rq t =
     (if rq_choice rq = C_none
      then (if engine_based fa
            then bind_r (call_tool_stream tp s v rq t) (\<lambda>(t', m). Inr (t', map_option (\<lambda>d. d\<lparr>dm_tools := []\<rparr>) m, False))
            else Inr (t, if lo_delta v = [] then None else Some (delta0\<lparr>dm_content := Some (lo_delta v)\<rparr>), False))
      else if tp_named_ok tp \<and> is_named (rq_choice rq)
      then bind_r (get_function_name rq) (\<lambda>name.
             case vl_named (fa_lib fa) (lo_delta v) name (st_name_returned s) (st_history s) (st_id_type s) of
               (m, b) \<Rightarrow> Inr (t, m, b))
      else if tp_named_ok tp \<and> rq_choice rq = C_required
      then (case vl_required (fa_lib fa) (st_text s) (lo_cur v) (lo_delta v) (st_name_returned s) (st_history s) (st_id_type s) of
              (m, b) \<Rightarrow> Inr (t, m, b))
      else bind_r (call_tool_stream tp s v rq t) (\<lambda>(t', m). Inr (t', m, False)))"

text \<open>The entry into the tool call phase restarts the text, with what followed the reasoning as the first delta.\<close>

definition enter_tool_phase :: "stream_state \<Rightarrow> locals \<Rightarrow> stream_state \<times> locals" where
  "enter_tool_phase s v =
     (if st_tool_started s then (s, v)
      else (s\<lparr>st_tool_started := True, st_text := [], st_ids := []\<rparr>, v\<lparr>lo_delta := lo_cur v, lo_ids := lo_cur_ids v\<rparr>))"

definition merge_reasoning :: "string option \<Rightarrow> delta option \<Rightarrow> delta option" where
  "merge_reasoning re m =
     (if \<not> truthy re then m
      else case m of
             None \<Rightarrow> Some (delta0\<lparr>dm_reasoning := re\<rparr>)
           | Some d \<Rightarrow> Some (if truthy (dm_reasoning d) then d else d\<lparr>dm_reasoning := re\<rparr>))"

definition new_call :: "delta option \<Rightarrow> bool" where
  "new_call m = (case m of None \<Rightarrow> False | Some d \<Rightarrow> (case dm_tools d of [] \<Rightarrow> False | c # _ \<Rightarrow> tc_id c \<noteq> None))"

definition tool_step :: "('r, 't) facade \<Rightarrow> 't tool_parser \<Rightarrow> chat_request \<Rightarrow> ('r, 't) live \<Rightarrow> locals \<Rightarrow> (('r, 't) live \<times> locals) result" where
  "tool_step fa tp rq l v0 =
     (case enter_tool_phase (lv_s l) v0 of (s, v) \<Rightarrow>
        bind_r (tool_stream fa tp s v rq (lv_t l)) (\<lambda>(t, m0, b).
          let m = merge_reasoning (Option.bind (lo_msg v) dm_reasoning) m0;
              s1 = s\<lparr>st_name_returned := b\<rparr>
          in Inr (l\<lparr>lv_t := t, lv_s := (if new_call m then s1\<lparr>st_history := st_history s1 + 1\<rparr> else s1)\<rparr>,
                  v\<lparr>lo_msg := m\<rparr>)))"

section \<open>The end of the stream\<close>

definition append_unstreamed :: "('r, 't) facade \<Rightarrow> 't \<Rightarrow> delta option \<Rightarrow> delta option" where
  "append_unstreamed fa t m =
     (case (fa_tool fa, m) of
        (Some tp, Some d) \<Rightarrow>
          (if dm_tools d = [] then m
           else case tc_function (last (dm_tools d)) of
                  None \<Rightarrow> m
                | Some (name, args) \<Rightarrow>
                    Some (d\<lparr>dm_tools := butlast (dm_tools d) @
                            [(last (dm_tools d))\<lparr>tc_function := Some (name, Some (or_empty args @ tp_unstreamed tp t))\<rparr>]\<rparr>))
      | _ \<Rightarrow> m)"

definition add_content :: "string \<Rightarrow> delta option \<Rightarrow> delta option" where
  "add_content c m = (let d = (case m of None \<Rightarrow> delta0 | Some d \<Rightarrow> d) in Some (d\<lparr>dm_content := Some (or_empty (dm_content d) @ c)\<rparr>))"

definition finalize_generation :: "('r, 't) facade \<Rightarrow> chat_request \<Rightarrow> ('r, 't) live \<Rightarrow> delta option \<Rightarrow> delta option" where
  "finalize_generation fa rq l m =
     append_unstreamed fa (lv_t l)
       (case Option.bind (fa_reasoning fa) rp_fallback of
          None \<Rightarrow> m
        | Some f \<Rightarrow>
            if st_reasoning_ended (lv_s l) then m
            else let p = f (lv_r l) (st_text (lv_s l)) rq in if truthy p then add_content (or_empty p) m else m)"

definition merge_flush :: "delta option \<Rightarrow> delta option \<Rightarrow> delta option" where
  "merge_flush m fl =
     (case fl of
        None \<Rightarrow> m
      | Some f \<Rightarrow>
          (case m of
             None \<Rightarrow> fl
           | Some d \<Rightarrow>
               Some \<lparr>dm_reasoning = (if truthy (dm_reasoning f) then Some (or_empty (dm_reasoning d) @ or_empty (dm_reasoning f)) else dm_reasoning d),
                     dm_content = (if truthy (dm_content f) then Some (or_empty (dm_content d) @ or_empty (dm_content f)) else dm_content d),
                     dm_tools = dm_tools d @ dm_tools f\<rparr>))"

definition flush_engine_parsers :: "('r, 't) facade \<Rightarrow> ('r, 't) live \<Rightarrow> delta option \<Rightarrow> ('r, 't) live \<times> delta option" where
  "flush_engine_parsers fa l m =
     (let (l1, m1) =
        (case fa_reasoning fa of
           None \<Rightarrow> (l, m)
         | Some rp \<Rightarrow>
             if \<not> rp_engine rp \<or> st_reasoning_ended (lv_s l) then (l, m)
             else (case rp_finish rp of
                     None \<Rightarrow> (l, m)
                   | Some f \<Rightarrow> (case f (lv_r l) of (r, fl) \<Rightarrow> (l\<lparr>lv_r := r\<rparr>, merge_flush m fl))))
      in (case fa_tool fa of
            None \<Rightarrow> (l1, m1)
          | Some tp \<Rightarrow>
              if \<not> tp_engine tp then (l1, m1)
              else (case tp_finish tp of
                      None \<Rightarrow> (l1, m1)
                    | Some f \<Rightarrow> (case f (lv_t l1) of (t, fl) \<Rightarrow> (l1\<lparr>lv_t := t\<rparr>, merge_flush m1 fl)))))"

definition hide_reasoning :: "chat_request \<Rightarrow> delta option \<Rightarrow> delta option" where
  "hide_reasoning rq m =
     (case m of
        None \<Rightarrow> None
      | Some d \<Rightarrow>
          if rq_reasoning rq then m
          else if \<not> truthy (dm_content d) \<and> dm_tools d = [] then None
          else Some (d\<lparr>dm_reasoning := None\<rparr>))"

section \<open>One delta\<close>

definition start_delta :: "('r, 't) facade \<Rightarrow> chat_request \<Rightarrow> nat list option \<Rightarrow> string \<times> nat list \<Rightarrow> ('r, 't) live \<Rightarrow> ('r, 't) live \<times> locals" where
  "start_delta fa rq prompt chunk l0 =
     (let l1 = configure_literal_tools fa rq l0;
          l2 = check_prompt fa prompt (l1\<lparr>lv_s := init_history fa rq (lv_s l1)\<rparr>)
      in case st_advance (lv_s l2) (fst chunk) (snd chunk) of (cur, cur_ids) \<Rightarrow>
           (l2, \<lparr>lo_delta = fst chunk, lo_ids = snd chunk, lo_cur = cur, lo_cur_ids = cur_ids, lo_msg = None, lo_moved = False\<rparr>))"

definition run_reasoning :: "('r, 't) facade \<Rightarrow> ('r, 't) live \<times> locals \<Rightarrow> (('r, 't) live \<times> locals) result" where
  "run_reasoning fa = (\<lambda>(l, v).
     (case fa_reasoning fa of
        None \<Rightarrow> Inr (l, v)
      | Some rp \<Rightarrow> if in_reasoning_phase fa (lv_s l) then reasoning_step fa rp l v else Inr (l, v)))"

definition run_tools :: "('r, 't) facade \<Rightarrow> chat_request \<Rightarrow> ('r, 't) live \<times> locals \<Rightarrow> (('r, 't) live \<times> locals) result" where
  "run_tools fa rq = (\<lambda>(l, v).
     (case fa_tool fa of
        None \<Rightarrow> Inr (l, v)
      | Some tp \<Rightarrow> if in_tool_call_phase fa (lv_s l) then tool_step fa tp rq l v else Inr (l, v)))"

text \<open>The pass-through when no phase is active, the commit, the end of the stream and the hiding of reasoning.\<close>

definition pass_through :: "('r, 't) facade \<Rightarrow> ('r, 't) live \<Rightarrow> locals \<Rightarrow> delta option" where
  "pass_through fa l v =
     (if lo_msg v = None \<and> \<not> lo_moved v \<and> \<not> in_reasoning_phase fa (lv_s l) \<and> \<not> in_tool_call_phase fa (lv_s l)
      then Some (delta0\<lparr>dm_content := Some (lo_delta v)\<rparr>) else lo_msg v)"

definition finish_delta :: "('r, 't) facade \<Rightarrow> chat_request \<Rightarrow> bool \<Rightarrow> ('r, 't) live \<times> locals \<Rightarrow> ('r, 't) live \<times> delta option" where
  "finish_delta fa rq finished = (\<lambda>(l, v).
     let l1 = l\<lparr>lv_s := st_commit (lv_s l) (lo_cur v) (lo_cur_ids v)\<rparr>;
         (l2, m) = (if finished then flush_engine_parsers fa l1 (finalize_generation fa rq l1 (pass_through fa l v))
                    else (l1, pass_through fa l v))
     in (l2, hide_reasoning rq m))"

definition parse_delta :: "('r, 't) facade \<Rightarrow> chat_request \<Rightarrow> nat list option \<Rightarrow> bool \<Rightarrow> string \<times> nat list \<Rightarrow> ('r, 't) live
    \<Rightarrow> (('r, 't) live \<times> delta option) result" where
  "parse_delta fa rq prompt finished chunk l =
     bind_r (run_reasoning fa (start_delta fa rq prompt chunk l)) (\<lambda>x.
     bind_r (run_tools fa rq x) (\<lambda>y. Inr (finish_delta fa rq finished y)))"

text \<open>A stream: the deltas one after the other, each with the prompt, the last one finished.\<close>

fun parse_stream :: "('r, 't) facade \<Rightarrow> chat_request \<Rightarrow> nat list option \<Rightarrow> (string \<times> nat list) list \<Rightarrow> ('r, 't) live
    \<Rightarrow> (('r, 't) live \<times> delta option list) result" where
  "parse_stream fa rq prompt [] l = Inr (l, [])"
| "parse_stream fa rq prompt (c # cs) l =
     bind_r (parse_delta fa rq prompt (cs = []) c l) (\<lambda>(l1, m).
     bind_r (parse_stream fa rq prompt cs l1) (\<lambda>(l2, ms). Inr (l2, m # ms)))"

end
