(* ===== verification/Parser_Props.thy ===== *)
theory Parser_Props
  imports Parser_Stream
begin

text \<open>
  What holds of the facade of \<open>src/overlay/abstract_parser.py\<close> whatever the two parsers do: the phases only move
  forward, the tool parser sees one growing text that starts after the reasoning, hidden reasoning never leaves, and
  without parsers the text passes through unchanged.
\<close>

section \<open>The pieces of a delta\<close>

lemma st_commit_fields [simp]:
  "st_reasoning_ended (st_commit s t i) = st_reasoning_ended s" "st_tool_started (st_commit s t i) = st_tool_started s"
  "st_engine (st_commit s t i) = st_engine s" "st_history (st_commit s t i) = st_history s"
  "st_history_set (st_commit s t i) = st_history_set s"
  by (simp_all add: st_commit_def)

lemma init_history_fields [simp]:
  "st_reasoning_ended (init_history fa rq s) = st_reasoning_ended s" "st_tool_started (init_history fa rq s) = st_tool_started s"
  "st_engine (init_history fa rq s) = st_engine s" "st_text (init_history fa rq s) = st_text s"
  "st_ids (init_history fa rq s) = st_ids s" "st_history_set (init_history fa rq s)"
  by (simp_all add: init_history_def)

lemma configure_fields [simp]: "lv_s (configure_literal_tools fa rq l) = lv_s l"
  by (simp add: configure_literal_tools_def)

text \<open>The flush and the end of the stream leave the stream state alone.\<close>

lemma flush_stream_state: "lv_s (fst (flush_engine_parsers fa l m)) = lv_s l"
  by (auto simp: flush_engine_parsers_def Let_def split: option.splits prod.splits if_splits)

lemma parse_delta_Inr:
  "parse_delta fa rq prompt fin chunk l = Inr (l', m) \<longleftrightarrow>
   (\<exists>x y. run_reasoning fa (start_delta fa rq prompt chunk l) = Inr x \<and> run_tools fa rq x = Inr y \<and> finish_delta fa rq fin y = (l', m))"
  by (auto simp: parse_delta_def bind_r_Inr_iff)

section \<open>Stage by stage\<close>

text \<open>The stream state of a facade: the tool call phase follows the reasoning, an engine keeps no text.\<close>

definition stream_ok :: "('r, 't) facade \<Rightarrow> stream_state \<Rightarrow> bool" where
  "stream_ok fa s =
     (st_engine s = engine_based fa \<and> (st_tool_started s \<longrightarrow> st_reasoning_ended s) \<and>
      (st_engine s \<longrightarrow> st_text s = [] \<and> st_ids s = []))"

text \<open>What a later state may differ in: phases only begin.\<close>

definition forward :: "stream_state \<Rightarrow> stream_state \<Rightarrow> bool" where
  "forward s s' = ((st_reasoning_ended s \<longrightarrow> st_reasoning_ended s') \<and> (st_tool_started s \<longrightarrow> st_tool_started s'))"

lemma forward_refl: "forward s s" and forward_trans: "forward s t \<Longrightarrow> forward t u \<Longrightarrow> forward s u"
  by (auto simp: forward_def)

lemma start_ok:
  assumes "stream_ok fa (lv_s l)"
  shows "stream_ok fa (lv_s (fst (start_delta fa rq prompt chunk l)))"
    and "forward (lv_s l) (lv_s (fst (start_delta fa rq prompt chunk l)))"
  using assms
  by (auto simp: start_delta_def check_prompt_def stream_ok_def forward_def Let_def split: prod.splits option.splits)

lemma reasoning_step_state:
  assumes "reasoning_step fa rp l v = Inr y"
  shows "lv_s (fst y) = lv_s l \<or> lv_s (fst y) = (lv_s l)\<lparr>st_reasoning_ended := True\<rparr>"
    and "lv_t (fst y) = lv_t l"
proof -
  obtain r m where r: "rp_stream rp (lv_r l) (st_text (lv_s l)) (lo_cur v) (lo_delta v) (st_ids (lv_s l)) (lo_cur_ids v) (lo_ids v) = Inr (r, m)"
    using assms by (cases "rp_stream rp (lv_r l) (st_text (lv_s l)) (lo_cur v) (lo_delta v) (st_ids (lv_s l)) (lo_cur_ids v) (lo_ids v)")
      (auto simp: reasoning_step_def)
  let ?ended = "should_transition rp r (lo_cur_ids v) (lo_ids v)"
  have "(lv_s (fst y) = lv_s l \<or> lv_s (fst y) = (lv_s l)\<lparr>st_reasoning_ended := True\<rparr>) \<and> lv_t (fst y) = lv_t l"
  proof (cases ?ended)
    case False
    then have "y = (l\<lparr>lv_r := r\<rparr>, v\<lparr>lo_msg := m\<rparr>)" using assms by (simp add: reasoning_step_def r)
    then show ?thesis by simp
  next
    case True
    then obtain r' fl where f: "finish_engine rp r = Inr (r', fl)" using assms by (cases "finish_engine rp r") (auto simp: reasoning_step_def r Let_def)
    then have "fst y = l\<lparr>lv_r := r', lv_s := (lv_s l)\<lparr>st_reasoning_ended := True\<rparr>\<rparr>"
      using assms True by (auto simp: reasoning_step_def r Let_def)
    then show ?thesis by simp
  qed
  then show "lv_s (fst y) = lv_s l \<or> lv_s (fst y) = (lv_s l)\<lparr>st_reasoning_ended := True\<rparr>" "lv_t (fst y) = lv_t l" by auto
qed

lemma reasoning_ok:
  assumes "run_reasoning fa x = Inr y" "stream_ok fa (lv_s (fst x))"
  shows "stream_ok fa (lv_s (fst y)) \<and> forward (lv_s (fst x)) (lv_s (fst y))"
proof (cases "fa_reasoning fa")
  case None
  then show ?thesis using assms by (simp add: run_reasoning_def case_prod_beta forward_refl)
next
  case (Some rp)
  show ?thesis
  proof (cases "in_reasoning_phase fa (lv_s (fst x))")
    case False
    then show ?thesis using assms Some by (simp add: run_reasoning_def case_prod_beta forward_refl)
  next
    case True
    then have "reasoning_step fa rp (fst x) (snd x) = Inr y" using assms(1) Some by (simp add: run_reasoning_def case_prod_beta)
    then consider "lv_s (fst y) = lv_s (fst x)" | "lv_s (fst y) = (lv_s (fst x))\<lparr>st_reasoning_ended := True\<rparr>"
      by (rule reasoning_step_state(1) [THEN disjE])
    then show ?thesis using assms(2) by cases (auto simp: stream_ok_def forward_def)
  qed
qed

lemma tool_stepE:
  assumes "tool_step fa tp rq l v = Inr y"
  obtains t m0 b m where
    "tool_stream fa tp (fst (enter_tool_phase (lv_s l) v)) (snd (enter_tool_phase (lv_s l) v)) rq (lv_t l) = Inr (t, m0, b)"
    "m = merge_reasoning (Option.bind (lo_msg (snd (enter_tool_phase (lv_s l) v))) dm_reasoning) m0"
    "y = (l\<lparr>lv_t := t, lv_s := (if new_call m
                then (fst (enter_tool_phase (lv_s l) v))\<lparr>st_name_returned := b, st_history := st_history (fst (enter_tool_phase (lv_s l) v)) + 1\<rparr>
                else (fst (enter_tool_phase (lv_s l) v))\<lparr>st_name_returned := b\<rparr>)\<rparr>,
          (snd (enter_tool_phase (lv_s l) v))\<lparr>lo_msg := m\<rparr>)"
proof -
  let ?e = "enter_tool_phase (lv_s l) v"
  obtain s v' where e: "?e = (s, v')" by fastforce
  show thesis
  proof (cases "tool_stream fa tp s v' rq (lv_t l)")
    case (Inl er)
    then show ?thesis using assms by (simp add: tool_step_def e)
  next
    case (Inr r)
    obtain t m0 b where r: "r = (t, m0, b)" by (cases r) auto
    let ?m = "merge_reasoning (Option.bind (lo_msg v') dm_reasoning) m0"
    have "tool_step fa tp rq l v = Inr (l\<lparr>lv_t := t, lv_s := (if new_call ?m
                then s\<lparr>st_name_returned := b, st_history := st_history s + 1\<rparr> else s\<lparr>st_name_returned := b\<rparr>)\<rparr>, v'\<lparr>lo_msg := ?m\<rparr>)"
      unfolding tool_step_def e prod.case Inr r bind_r_simps Let_def by simp
    then show ?thesis using assms Inr r that [of t m0 b ?m] e by (metis Inr_inject fst_conv snd_conv)
  qed
qed

lemma tool_step_state:
  assumes "tool_step fa tp rq l v = Inr y"
  shows "st_reasoning_ended (lv_s (fst y)) = st_reasoning_ended (lv_s l)" "st_tool_started (lv_s (fst y))"
    "st_engine (lv_s (fst y)) = st_engine (lv_s l)"
    "st_text (lv_s (fst y)) = st_text (fst (enter_tool_phase (lv_s l) v))" "st_ids (lv_s (fst y)) = st_ids (fst (enter_tool_phase (lv_s l) v))"
  using assms by (elim tool_stepE, simp add: enter_tool_phase_def)+

lemma tools_ok:
  assumes "run_tools fa rq x = Inr y" "stream_ok fa (lv_s (fst x))"
  shows "stream_ok fa (lv_s (fst y)) \<and> forward (lv_s (fst x)) (lv_s (fst y))"
proof (cases "fa_tool fa")
  case None
  then show ?thesis using assms by (simp add: run_tools_def case_prod_beta forward_refl)
next
  case (Some tp)
  show ?thesis
  proof (cases "in_tool_call_phase fa (lv_s (fst x))")
    case False
    then show ?thesis using assms Some by (simp add: run_tools_def case_prod_beta forward_refl)
  next
    case True
    then have "tool_step fa tp rq (fst x) (snd x) = Inr y" using assms(1) Some by (simp add: run_tools_def case_prod_beta)
    moreover have "st_reasoning_ended (lv_s (fst x))" using True Some by (simp add: in_tool_call_phase_def)
    ultimately show ?thesis using assms(2) tool_step_state [of fa tp rq "fst x" "snd x" y]
      by (auto simp: stream_ok_def forward_def enter_tool_phase_def split: if_splits)
  qed
qed

lemma finish_stream: "lv_s (fst (finish_delta fa rq fin y)) = st_commit (lv_s (fst y)) (lo_cur (snd y)) (lo_cur_ids (snd y))"
  by (simp add: finish_delta_def Let_def case_prod_beta flush_stream_state)

lemma finish_ok:
  "stream_ok fa (lv_s (fst y)) \<Longrightarrow> stream_ok fa (lv_s (fst (finish_delta fa rq fin y))) \<and> forward (lv_s (fst y)) (lv_s (fst (finish_delta fa rq fin y)))"
  by (auto simp: finish_stream stream_ok_def forward_def st_commit_def)

lemma delta_ok:
  assumes "parse_delta fa rq prompt fin chunk l = Inr (l', m)" "stream_ok fa (lv_s l)"
  shows "stream_ok fa (lv_s l') \<and> forward (lv_s l) (lv_s l')"
proof -
  obtain x y where s: "run_reasoning fa (start_delta fa rq prompt chunk l) = Inr x" "run_tools fa rq x = Inr y"
      "finish_delta fa rq fin y = (l', m)"
    using assms(1) by (auto simp: parse_delta_Inr)
  have 1: "stream_ok fa (lv_s (fst x))" "forward (lv_s l) (lv_s (fst x))"
    using reasoning_ok [OF s(1)] start_ok [OF assms(2)] forward_trans by blast+
  have 2: "stream_ok fa (lv_s (fst y))" "forward (lv_s l) (lv_s (fst y))"
    using tools_ok [OF s(2) 1(1)] 1(2) forward_trans by blast+
  show ?thesis using finish_ok [OF 2(1), of rq fin] s(3) 2(2) forward_trans by (metis fst_conv)
qed

lemma stream_new_ok: "stream_ok fa (lv_s (parser_init fa k r t))"
  by (simp add: parser_init_def st_new_def stream_ok_def)

section \<open>Hidden reasoning\<close>

definition clean :: "delta option \<Rightarrow> bool" where
  "clean m = (case m of None \<Rightarrow> True | Some d \<Rightarrow> dm_reasoning d = None \<and> (truthy (dm_content d) \<or> dm_tools d \<noteq> []))"

lemma hide_clean: "\<not> rq_reasoning rq \<Longrightarrow> clean (hide_reasoning rq m)"
  by (auto simp: hide_reasoning_def clean_def split: option.splits)

text \<open>
  C27. A client that did not ask for reasoning never receives any: no delta of a stream carries reasoning, an empty
  delta is not sent, and neither a transition in the middle of a delta nor the flush at the end of the stream lets one
  through, whatever the two parsers return.
\<close>

theorem reasoning_stays_hidden:
  assumes "\<not> rq_reasoning rq" "parse_stream fa rq prompt chunks l = Inr (l', ms)"
  shows "list_all clean ms"
  using assms(2)
proof (induction chunks arbitrary: l ms)
  case (Cons c cs)
  then obtain l1 m ms' where m: "parse_delta fa rq prompt (cs = []) c l = Inr (l1, m)" "parse_stream fa rq prompt cs l1 = Inr (l', ms')"
      "ms = m # ms'"
    by (auto simp: bind_r_Inr_iff)
  have "\<exists>m0. m = hide_reasoning rq m0"
    using m(1) by (auto simp: parse_delta_Inr finish_delta_def Let_def case_prod_beta)
  then show ?case using hide_clean [OF assms(1)] Cons.IH [OF m(2)] m(3) by auto
qed simp

section \<open>Without parsers\<close>

definition msgs_text :: "delta option list \<Rightarrow> string" where
  "msgs_text ms = concat (map msg_content ms)"

lemma hide_content: "\<forall>d. m = Some d \<longrightarrow> dm_tools d = [] \<Longrightarrow> msg_content (hide_reasoning rq m) = msg_content m"
  by (auto simp: hide_reasoning_def msg_content_def truthy_def or_empty_def split: option.splits)

lemma bare_delta:
  assumes "fa_reasoning fa = None" "fa_tool fa = None"
  shows "\<exists>l' m. parse_delta fa rq prompt fin chunk l = Inr (l', m) \<and> msg_content m = fst chunk"
proof -
  let ?x = "start_delta fa rq prompt chunk l"
  have v: "lo_msg (snd ?x) = None" "\<not> lo_moved (snd ?x)" "lo_delta (snd ?x) = fst chunk"
    by (simp_all add: start_delta_def Let_def case_prod_beta)
  have p: "pass_through fa (fst ?x) (snd ?x) = Some (delta0\<lparr>dm_content := Some (fst chunk)\<rparr>)"
    using v assms by (simp add: pass_through_def in_reasoning_phase_def in_tool_call_phase_def)
  have "snd (finish_delta fa rq fin ?x) = hide_reasoning rq (Some (delta0\<lparr>dm_content := Some (fst chunk)\<rparr>))"
    using assms p by (simp add: finish_delta_def Let_def case_prod_beta flush_engine_parsers_def finalize_generation_def append_unstreamed_def)
  then have "msg_content (snd (finish_delta fa rq fin ?x)) = fst chunk"
    using hide_content [of "Some (delta0\<lparr>dm_content := Some (fst chunk)\<rparr>)" rq] by (simp add: delta0_def msg_content_def or_empty_def)
  moreover have "parse_delta fa rq prompt fin chunk l = Inr (finish_delta fa rq fin ?x)"
    using assms by (simp add: parse_delta_def run_reasoning_def run_tools_def case_prod_beta)
  ultimately show ?thesis by (metis prod.collapse)
qed

text \<open>
  Without a reasoning parser and a tool parser every stream is parsed, and the contents of the deltas sent are
  together exactly the text received, for any request and any split into deltas.
\<close>
lemma bare_stream_passes_through:
  assumes "fa_reasoning fa = None" "fa_tool fa = None"
  shows "\<exists>l' ms. parse_stream fa rq prompt chunks l = Inr (l', ms) \<and> msgs_text ms = concat (map fst chunks)"
proof (induction chunks arbitrary: l)
  case (Cons c cs)
  obtain l1 m where m: "parse_delta fa rq prompt (cs = []) c l = Inr (l1, m)" "msg_content m = fst c"
    using bare_delta [OF assms] by blast
  obtain l' ms where "parse_stream fa rq prompt cs l1 = Inr (l', ms)" "msgs_text ms = concat (map fst cs)"
    using Cons.IH by blast
  then show ?case using m by (simp add: msgs_text_def)
qed (simp add: msgs_text_def)

section \<open>What the tool parser sees\<close>

text \<open>
  A tool parser that writes down every streaming call, and answers as any function \<open>f\<close> of the calls so far: previous,
  current and new text, previous, current and new token ids.
\<close>

type_synonym call_log = "(string \<times> string \<times> string \<times> nat list \<times> nat list \<times> nat list) list"

definition recorder :: "bool \<Rightarrow> bool \<Rightarrow> (call_log \<Rightarrow> delta option) \<Rightarrow> call_log tool_parser" where
  "recorder eng named f =
     \<lparr>tp_engine = eng, tp_named_ok = named, tp_extract = (\<lambda>lg out rq. Inl RuntimeError),
      tp_stream = (\<lambda>lg p c d pi ci di rq. Inr (lg @ [(p, c, d, pi, ci, di)], f (lg @ [(p, c, d, pi, ci, di)]))),
      tp_unstreamed = (\<lambda>lg. []), tp_finish = None, tp_tag_model = False, tp_tag = (\<lambda>rq. None), tp_adjust = id, tp_glm_skip = None\<rparr>"

definition log_text :: "bool \<Rightarrow> call_log \<Rightarrow> string" where
  "log_text eng lg = (if eng \<or> lg = [] then [] else fst (snd (last lg)))"

definition log_ids :: "bool \<Rightarrow> call_log \<Rightarrow> nat list" where
  "log_ids eng lg = (if eng \<or> lg = [] then [] else fst (snd (snd (snd (snd (last lg))))))"

text \<open>Each call continues the one before it; an engine is always given the new text alone.\<close>

inductive linked :: "bool \<Rightarrow> call_log \<Rightarrow> bool" where
  linked_Nil: "linked eng []"
| linked_snoc: "linked eng lg \<Longrightarrow>
    linked eng (lg @ [(log_text eng lg, log_text eng lg @ d, d, log_ids eng lg, log_ids eng lg @ di, di)])"

definition received :: "call_log \<Rightarrow> string" where
  "received lg = concat (map (\<lambda>(p, c, d, pi, ci, di). d) lg)"

lemma linked_received: "linked eng lg \<Longrightarrow> \<not> eng \<Longrightarrow> log_text eng lg = received lg"
  by (induction rule: linked.induct) (auto simp: log_text_def received_def)

text \<open>The requests whose deltas reach the tool parser.\<close>

definition reaches_tool :: "('r, 't) facade \<Rightarrow> 't tool_parser \<Rightarrow> chat_request \<Rightarrow> bool" where
  "reaches_tool fa tp rq =
     (if rq_choice rq = C_none then engine_based fa
      else \<not> (tp_named_ok tp \<and> (is_named (rq_choice rq) \<or> rq_choice rq = C_required)))"

lemma tool_stream_reaches:
  assumes "reaches_tool fa tp rq" "tool_stream fa tp s v rq t = Inr (t', m, b)"
  shows "\<exists>m0. tp_stream tp t (st_text s) (lo_cur v) (lo_delta v) (st_ids s) (lo_cur_ids v) (lo_ids v) rq = Inr (t', m0)"
  using assms unfolding tool_stream_def reaches_tool_def call_tool_stream_def
  by (auto simp: bind_r_Inr_iff split: if_splits)

definition rec_ok :: "('r, call_log) facade \<Rightarrow> ('r, call_log) live \<Rightarrow> bool" where
  "rec_ok fa l =
     (stream_ok fa (lv_s l) \<and> linked (engine_based fa) (lv_t l) \<and>
      (if st_tool_started (lv_s l)
       then st_text (lv_s l) = log_text (engine_based fa) (lv_t l) \<and> st_ids (lv_s l) = log_ids (engine_based fa) (lv_t l)
       else lv_t l = []))"

lemma rec_tool_step:
  assumes t: "fa_tool fa = Some (recorder eng named f)" and c: "reaches_tool fa (recorder eng named f) rq"
    and step: "tool_step fa (recorder eng named f) rq l v = Inr y"
    and ok: "stream_ok fa (lv_s l)" "linked (engine_based fa) (lv_t l)"
    and started: "st_tool_started (lv_s l) \<Longrightarrow>
        st_text (lv_s l) = log_text (engine_based fa) (lv_t l) \<and> st_ids (lv_s l) = log_ids (engine_based fa) (lv_t l) \<and>
        lo_cur v = st_text (lv_s l) @ lo_delta v \<and> lo_cur_ids v = st_ids (lv_s l) @ lo_ids v"
    and fresh: "\<not> st_tool_started (lv_s l) \<Longrightarrow> lv_t l = []"
  shows "linked (engine_based fa) (lv_t (fst y))"
    and "log_text (engine_based fa) (lv_t (fst y)) = (if engine_based fa then [] else lo_cur (snd y))"
    and "log_ids (engine_based fa) (lv_t (fst y)) = (if engine_based fa then [] else lo_cur_ids (snd y))"
proof -
  let ?s = "fst (enter_tool_phase (lv_s l) v)" and ?v = "snd (enter_tool_phase (lv_s l) v)"
  obtain t' m0 b m where ts: "tool_stream fa (recorder eng named f) ?s ?v rq (lv_t l) = Inr (t', m0, b)"
      and y: "lv_t (fst y) = t'" "lo_cur (snd y) = lo_cur ?v" "lo_cur_ids (snd y) = lo_cur_ids ?v"
    by (rule tool_stepE [OF step]) auto
  have t': "t' = lv_t l @ [(st_text ?s, lo_cur ?v, lo_delta ?v, st_ids ?s, lo_cur_ids ?v, lo_ids ?v)]"
    using tool_stream_reaches [OF c ts] by (auto simp: recorder_def)
  have "st_text ?s = log_text (engine_based fa) (lv_t l)" "st_ids ?s = log_ids (engine_based fa) (lv_t l)"
      "lo_cur ?v = st_text ?s @ lo_delta ?v" "lo_cur_ids ?v = st_ids ?s @ lo_ids ?v"
    using started fresh by (auto simp: enter_tool_phase_def log_text_def log_ids_def)
  then show "linked (engine_based fa) (lv_t (fst y))" unfolding y t' using linked_snoc [OF ok(2)] by simp
  show "log_text (engine_based fa) (lv_t (fst y)) = (if engine_based fa then [] else lo_cur (snd y))"
    "log_ids (engine_based fa) (lv_t (fst y)) = (if engine_based fa then [] else lo_cur_ids (snd y))"
    unfolding y t' by (simp_all add: log_text_def log_ids_def)
qed

lemma check_prompt_fields:
  "lv_t (check_prompt fa prompt l) = lv_t l" "st_tool_started (lv_s (check_prompt fa prompt l)) = st_tool_started (lv_s l)"
  "st_text (lv_s (check_prompt fa prompt l)) = st_text (lv_s l)" "st_ids (lv_s (check_prompt fa prompt l)) = st_ids (lv_s l)"
  by (cases prompt; simp add: check_prompt_def Let_def split: option.split)+

lemma start_recorder:
  assumes "fa_tool fa = Some (recorder eng named f)" "rec_ok fa l" and x: "start_delta fa rq prompt chunk l = (l1, v)"
  shows "rec_ok fa l1" and "lo_cur v = st_text (lv_s l1) @ lo_delta v" and "lo_cur_ids v = st_ids (lv_s l1) @ lo_ids v"
proof -
  have s: "stream_ok fa (lv_s l1)" using start_ok(1) [of fa l rq prompt chunk] assms(2) x by (simp add: rec_ok_def)
  have "lv_t l1 = lv_t l" "st_tool_started (lv_s l1) = st_tool_started (lv_s l)" "st_text (lv_s l1) = st_text (lv_s l)"
    "st_ids (lv_s l1) = st_ids (lv_s l)"
  proof -
    have l1: "l1 = check_prompt fa prompt ((configure_literal_tools fa rq l)\<lparr>lv_s := init_history fa rq (lv_s l)\<rparr>)"
      using x by (simp add: start_delta_def Let_def case_prod_beta)
    have "lv_t (configure_literal_tools fa rq l) = lv_t l" using assms(1) by (simp add: configure_literal_tools_def recorder_def)
    then show "lv_t l1 = lv_t l" "st_tool_started (lv_s l1) = st_tool_started (lv_s l)" "st_text (lv_s l1) = st_text (lv_s l)"
        "st_ids (lv_s l1) = st_ids (lv_s l)"
      unfolding l1 by (simp_all add: check_prompt_fields)
  qed
  then show "rec_ok fa l1" using s assms(2) by (auto simp: rec_ok_def)
  show "lo_cur v = st_text (lv_s l1) @ lo_delta v" "lo_cur_ids v = st_ids (lv_s l1) @ lo_ids v"
    using s x by (auto simp: start_delta_def Let_def st_advance_def stream_ok_def split: prod.splits)
qed

lemma finish_recorder:
  assumes "fa_tool fa = Some (recorder eng named f)"
  shows "lv_t (fst (finish_delta fa rq fin y)) = lv_t (fst y)"
proof -
  have "lv_t (fst (flush_engine_parsers fa l m)) = lv_t l" for l m
    using assms by (auto simp: flush_engine_parsers_def recorder_def Let_def split: option.splits prod.splits)
  then show ?thesis by (simp add: finish_delta_def Let_def case_prod_beta)
qed

lemma reasoning_keeps:
  assumes "run_reasoning fa x = Inr y"
  shows "lv_t (fst y) = lv_t (fst x)" "st_tool_started (lv_s (fst y)) = st_tool_started (lv_s (fst x))"
    "st_text (lv_s (fst y)) = st_text (lv_s (fst x))" "st_ids (lv_s (fst y)) = st_ids (lv_s (fst x))"
    "st_reasoning_ended (lv_s (fst x)) \<Longrightarrow> y = x"
proof -
  consider "y = x" | rp where "\<not> st_reasoning_ended (lv_s (fst x))" "reasoning_step fa rp (fst x) (snd x) = Inr y"
    using assms by (auto simp: run_reasoning_def case_prod_beta in_reasoning_phase_def split: option.splits if_splits)
  then have "lv_t (fst y) = lv_t (fst x) \<and> st_tool_started (lv_s (fst y)) = st_tool_started (lv_s (fst x)) \<and>
      st_text (lv_s (fst y)) = st_text (lv_s (fst x)) \<and> st_ids (lv_s (fst y)) = st_ids (lv_s (fst x)) \<and>
      (st_reasoning_ended (lv_s (fst x)) \<longrightarrow> y = x)"
  proof cases
    case (2 rp)
    then show ?thesis using reasoning_step_state [OF 2(2)] by auto
  qed simp
  then show "lv_t (fst y) = lv_t (fst x)" "st_tool_started (lv_s (fst y)) = st_tool_started (lv_s (fst x))"
    "st_text (lv_s (fst y)) = st_text (lv_s (fst x))" "st_ids (lv_s (fst y)) = st_ids (lv_s (fst x))"
    "st_reasoning_ended (lv_s (fst x)) \<Longrightarrow> y = x" by auto
qed

lemma rec_delta:
  assumes t: "fa_tool fa = Some (recorder eng named f)" and c: "reaches_tool fa (recorder eng named f) rq"
    and ok: "rec_ok fa l" and d: "parse_delta fa rq prompt fin chunk l = Inr (l', m)"
  shows "rec_ok fa l'"
proof -
  obtain l1 v1 where x0: "start_delta fa rq prompt chunk l = (l1, v1)" by fastforce
  obtain x y where s: "run_reasoning fa (l1, v1) = Inr x" "run_tools fa rq x = Inr y" "finish_delta fa rq fin y = (l', m)"
    using d x0 by (auto simp: parse_delta_Inr)
  note S = start_recorder [OF t ok x0] and K = reasoning_keeps [OF s(1), simplified]
  have o1: "stream_ok fa (lv_s (fst x))" using reasoning_ok [OF s(1)] S(1) by (simp add: rec_ok_def)
  have l': "lv_t l' = lv_t (fst y)" "lv_s l' = st_commit (lv_s (fst y)) (lo_cur (snd y)) (lo_cur_ids (snd y))"
    using finish_recorder [OF t, of rq fin y] finish_stream [of fa rq fin y] s(3) by simp_all
  have o2: "stream_ok fa (lv_s l')" using delta_ok [OF d] ok by (simp add: rec_ok_def)
  show ?thesis
  proof (cases "in_tool_call_phase fa (lv_s (fst x))")
    case False
    then have y: "y = x" using s(2) t by (simp add: run_tools_def case_prod_beta)
    have "\<not> st_tool_started (lv_s (fst x))" using False o1 t by (auto simp: in_tool_call_phase_def stream_ok_def)
    then show ?thesis using o2 S(1) K(1,2) l' y by (simp add: rec_ok_def linked_Nil)
  next
    case True
    then have step: "tool_step fa (recorder eng named f) rq (fst x) (snd x) = Inr y"
      using s(2) t by (simp add: run_tools_def case_prod_beta)
    have started: "x = (l1, v1)" if "st_tool_started (lv_s (fst x))"
      using K(2,5) that S(1) by (auto simp: rec_ok_def stream_ok_def)
    note R = rec_tool_step [OF t c step o1]
    have "linked (engine_based fa) (lv_t (fst y)) \<and> log_text (engine_based fa) (lv_t (fst y)) = (if engine_based fa then [] else lo_cur (snd y)) \<and>
        log_ids (engine_based fa) (lv_t (fst y)) = (if engine_based fa then [] else lo_cur_ids (snd y))"
    proof (intro conjI R)
      show "linked (engine_based fa) (lv_t (fst x))" using S(1) K(1) by (simp add: rec_ok_def)
      then show "linked (engine_based fa) (lv_t (fst x))" .
      then show "linked (engine_based fa) (lv_t (fst x))" .
    qed (use S K started in \<open>auto simp: rec_ok_def\<close>)
    moreover have "st_tool_started (lv_s (fst y))" "st_engine (lv_s (fst y)) = engine_based fa"
      using tool_step_state [OF step] o1 by (simp_all add: stream_ok_def)
    ultimately show ?thesis using o2 by (simp add: rec_ok_def l' st_commit_def)
  qed
qed

text \<open>
  C15. The tool parser sees one coherent stream: however the reasoning ends, in the prompt, between deltas or in the
  middle of one, its first streaming call starts from an empty text, and each later call's previous text and ids are
  the current ones of the call before, its current text the previous one extended by the new text; what it has read so
  far is exactly the new texts it was given. An engine-based pair is always given the new text alone.
\<close>

theorem tool_parser_stream_coherent:
  assumes "fa_tool fa = Some (recorder eng named f)" "reaches_tool fa (recorder eng named f) rq"
    and "parse_stream fa rq prompt chunks (parser_init fa k r []) = Inr (l', ms)"
  shows "linked (engine_based fa) (lv_t l') \<and> (engine_based fa \<or> log_text (engine_based fa) (lv_t l') = received (lv_t l'))"
proof -
  have "rec_ok fa l \<Longrightarrow> parse_stream fa rq prompt chunks l = Inr (l', ms) \<Longrightarrow> rec_ok fa l'" for l
  proof (induction chunks arbitrary: l ms)
    case (Cons c cs)
    obtain l1 m ms' where m: "parse_delta fa rq prompt (cs = []) c l = Inr (l1, m)" "parse_stream fa rq prompt cs l1 = Inr (l', ms')"
      using Cons.prems(2) by (auto simp: bind_r_Inr_iff)
    show ?case by (rule Cons.IH [OF rec_delta [OF assms(1,2) Cons.prems(1) m(1)] m(2)])
  qed simp
  moreover have "rec_ok fa (parser_init fa k r [])"
    using stream_new_ok [of fa k r "[]"] by (simp add: rec_ok_def parser_init_def st_new_def linked_Nil)
  ultimately have "rec_ok fa l'" using assms(3) by blast
  then have L: "linked (engine_based fa) (lv_t l')" by (simp add: rec_ok_def)
  show ?thesis
  proof (cases "engine_based fa")
    case False
    then show ?thesis using L linked_received [OF L False] by blast
  qed (use L in blast)
qed

section \<open>Numbered tool calls\<close>

lemma required_calls_ids:
  assumes "st_id_type s = ''kimi_k2''"
  shows "map fc_name (snd (required_calls fa ps s)) = map fst ps \<and>
    map fc_args (snd (required_calls fa ps s)) = map (vl_dumps (fa_lib fa) \<circ> snd) ps \<and>
    map fc_id (snd (required_calls fa ps s)) =
      map (\<lambda>i. Some (vl_make_id (fa_lib fa) ''kimi_k2'' (fst (ps ! i)) (st_history s + int i))) [0..<length ps] \<and>
    st_history (fst (required_calls fa ps s)) = st_history s + int (length ps)"
  using assms
proof (induction ps arbitrary: s)
  case (Cons p ps)
  let ?s = "s\<lparr>st_history := st_history s + 1\<rparr>"
  have r: "required_calls fa (p # ps) s =
      (fst (required_calls fa ps ?s),
       \<lparr>fc_id = Some (vl_make_id (fa_lib fa) ''kimi_k2'' (fst p) (st_history s)), fc_name = fst p, fc_args = vl_dumps (fa_lib fa) (snd p)\<rparr>
         # snd (required_calls fa ps ?s))"
    using Cons.prems by (cases p) (simp add: make_tool_call_id_def case_prod_beta)
  show ?case unfolding r using Cons.IH [of ?s] Cons.prems by (simp add: map_upt_Suc add.assoc del: upt_Suc)
qed simp

text \<open>
  A required tool choice that validates yields one call per parsed definition, with its name and its dumped
  parameters, no content, and for Kimi ids the calls are numbered on from the stream's history without gap or repeat,
  leaving the history at the next free number.
\<close>
lemma required_calls_numbered:
  assumes "fa_tool fa = Some tp" "tp_named_ok tp" "rq_choice rq = C_required"
    and "vl_validate (fa_lib fa) (or_empty content) = Some ps" "st_id_type (lv_s l) = ''kimi_k2''"
  shows "\<exists>l' cs. tool_calls_of fa content rq auto l = Inr (l', Some cs, None) \<and>
    map fc_name cs = map fst ps \<and> map fc_args cs = map (vl_dumps (fa_lib fa) \<circ> snd) ps \<and>
    map fc_id cs = map (\<lambda>i. Some (vl_make_id (fa_lib fa) ''kimi_k2'' (fst (ps ! i)) (st_history (lv_s l) + int i))) [0..<length ps] \<and>
    st_history (lv_s l') = st_history (lv_s l) + int (length ps)"
proof -
  let ?r = "required_calls fa ps (lv_s l)"
  have "tool_calls_of fa content rq auto l = Inr (l\<lparr>lv_s := fst ?r\<rparr>, Some (snd ?r), None)"
    using assms(1-4) by (simp add: tool_calls_of_def is_named_def Let_def case_prod_beta)
  then show ?thesis using required_calls_ids [OF assms(5), of fa ps] by auto
qed

section \<open>Witnesses\<close>

definition demo_lib :: vllm_lib where
  "demo_lib = \<lparr>vl_make_id = (\<lambda>k name i. name), vl_history = (\<lambda>rq. 2), vl_validate = (\<lambda>s. Some [(s, JNull), (s, JInt 1)]),
     vl_dumps = (\<lambda>j. ''null''), vl_named = (\<lambda>d name b i k. (None, b)), vl_required = (\<lambda>p c d b i k. (None, b))\<rparr>"

text \<open>Reasoning ends with token 9; its text is everything before, and what comes with the token is content.\<close>

definition demo_reasoning :: "unit reasoning_parser" where
  "demo_reasoning =
     \<lparr>rp_engine = False, rp_extract = (\<lambda>r out rq. Inr (r, Some out, None)), rp_is_end = (\<lambda>r ids. 9 \<in> set ids),
      rp_is_end_streaming = (\<lambda>r cur ids. 9 \<in> set ids), rp_content_ids = (\<lambda>r ids. [7]),
      rp_stream = (\<lambda>r p c d pi ci di. Inr (r, Some \<lparr>dm_reasoning = (if 9 \<in> set di then None else Some d),
        dm_content = (if 9 \<in> set di then Some d else None), dm_tools = []\<rparr>)),
      rp_confirmed_end = (\<lambda>r. False), rp_initial = (\<lambda>r ids. r), rp_finish = None, rp_fallback = None, rp_adjust = id, rp_glm_skip = None\<rparr>"

definition stream_request :: "choice \<Rightarrow> chat_request" where
  "stream_request c = \<lparr>rq_choice = c, rq_tools = Some [''f''], rq_reasoning = False, rq_responses = False, rq_structured = None,
     rq_text = None, rq_format = None\<rparr>"

definition demo_facade :: "(unit, call_log) facade" where
  "demo_facade = \<lparr>fa_lib = demo_lib, fa_reasoning = Some demo_reasoning,
     fa_tool = Some (recorder False True (\<lambda>lg. Some (delta0\<lparr>dm_content := Some ''x''\<rparr>)))\<rparr>"

definition stream_run :: "((unit, call_log) live \<times> delta option list) result" where
  "stream_run = parse_stream demo_facade (stream_request C_auto) (Some [1]) [(''a'', [2]), (''bc'', [9]), (''d'', [3])]
     (parser_init demo_facade None () [])"

lemma demo_stream: "\<exists>l' ms. stream_run = Inr (l', ms) \<and> length ms = 3 \<and> received (lv_t l') = ''bcd''"
proof -
  have "case stream_run of Inl e \<Rightarrow> False | Inr x \<Rightarrow> length (snd x) = 3 \<and> received (lv_t (fst x)) = ''bcd''" by code_simp
  then obtain x where "stream_run = Inr x" "length (snd x) = 3" "received (lv_t (fst x)) = ''bcd''" by (auto split: sum.splits)
  then show ?thesis by (metis prod.collapse)
qed

lemma reasoning_stays_hidden_witness:
  "\<exists>l' ms. stream_run = Inr (l', ms) \<and> length ms = 3 \<and> list_all clean ms"
proof -
  have "\<not> rq_reasoning (stream_request C_auto)" by (simp add: stream_request_def)
  then show ?thesis using demo_stream reasoning_stays_hidden unfolding stream_run_def by blast
qed

lemma tool_parser_stream_coherent_witness:
  "\<exists>l' ms. stream_run = Inr (l', ms) \<and> linked False (lv_t l') \<and> received (lv_t l') = ''bcd''"
proof -
  have "fa_tool demo_facade = Some (recorder False True (\<lambda>lg. Some (delta0\<lparr>dm_content := Some ''x''\<rparr>)))"
    "reaches_tool demo_facade (recorder False True (\<lambda>lg. Some (delta0\<lparr>dm_content := Some ''x''\<rparr>))) (stream_request C_auto)"
    "engine_based demo_facade = False"
    by (simp_all add: demo_facade_def reaches_tool_def stream_request_def is_named_def engine_based_def demo_reasoning_def)
  then show ?thesis using demo_stream tool_parser_stream_coherent unfolding stream_run_def by metis
qed

end
