(* ===== verification/Roce_Kernel.thy ===== *)
theory Roce_Kernel
  imports Prelude "HOL-Library.Multiset"
begin

text \<open>
  The geometry and the data movement of the RoCE one-shot collectives (\<open>src/roce/b12x/b12x/comm/roce/roce_oneshot.py\<close> and
  the gather kernel in \<open>_allgather_cute.py\<close>): the launch grid, the arrival counters of its blocks as 32-bit words, the
  strided copy of the gather kernel with its writes in any order, and the two host paths of an all-gather. The wait for
  the peers' flags and the transport are left out: a peer's slot holds what the peer staged.
\<close>

section \<open>The launch grid\<close>

fun bit_length :: "nat \<Rightarrow> nat" where
  "bit_length n = (if n = 0 then 0 else Suc (bit_length (n div 2)))"

declare bit_length.simps [simp del]

definition align_up :: "nat \<Rightarrow> nat \<Rightarrow> nat" where
  "align_up v a = (v + a - 1) div a * a"

definition grid_blocks :: "nat \<Rightarrow> nat \<Rightarrow> nat \<Rightarrow> nat" where
  "grid_blocks packs threads limit =
     (let per_block = 2 * threads; required = max 1 ((packs + per_block - 1) div per_block)
      in min (2 ^ bit_length (required - 1)) limit)"

text \<open>The counter record: the epoch, the stage and the tail counters of each grid class, the poison word.\<close>

definition counter_addresses :: "nat \<Rightarrow> nat \<Rightarrow> nat \<Rightarrow> nat \<times> nat" where
  "counter_addresses epoch classes blocks =
     (let c = bit_length blocks - 1 in (epoch + 4 * (1 + c), epoch + 4 * (1 + classes + c)))"

definition poison_address :: "nat \<Rightarrow> nat \<Rightarrow> nat" where
  "poison_address epoch classes = epoch + 4 * (1 + 2 * classes)"

section \<open>Arrival counters\<close>

text \<open>A block adds one to a free-running counter and is the last when the sum is a multiple of the grid.\<close>

definition arrive :: "nat \<Rightarrow> 32 word \<Rightarrow> 32 word \<times> bool" where
  "arrive grid prior = (prior + 1, (prior + 1) mod of_nat grid = 0)"

fun arrivals :: "nat \<Rightarrow> nat \<Rightarrow> 32 word \<Rightarrow> 32 word \<times> bool list" where
  "arrivals grid 0 c = (c, [])"
| "arrivals grid (Suc n) c =
     (case arrive grid c of (c1, b) \<Rightarrow> case arrivals grid n c1 of (c2, bs) \<Rightarrow> (c2, b # bs))"

section \<open>The gather kernel\<close>

text \<open>The indices one thread copies: from its own on, by the number of threads in the grid.\<close>

function copy_indices :: "nat \<Rightarrow> nat \<Rightarrow> nat \<Rightarrow> nat list" where
  "copy_indices i stride n = (if stride = 0 \<or> n \<le> i then [] else i # copy_indices (i + stride) stride n)"
  by pat_completeness auto
termination
  by (relation "measure (\<lambda>(i, stride, n). n - i)") auto

declare copy_indices.simps [simp del]

definition copy_dest :: "nat \<Rightarrow> nat \<Rightarrow> nat \<Rightarrow> nat \<Rightarrow> nat" where
  "copy_dest world row_packs source i =
     (let row = i div row_packs; col = i - row * row_packs
      in row * (world * row_packs) + source * row_packs + col)"

text \<open>What one thread writes for all sources: destination pack and value.\<close>

definition thread_writes :: "nat \<Rightarrow> nat \<Rightarrow> nat \<Rightarrow> 'a list list \<Rightarrow> nat \<Rightarrow> (nat \<times> 'a) list" where
  "thread_writes row_packs n stride shards t =
     concat (map (\<lambda>s. map (\<lambda>i. (copy_dest (length shards) row_packs s i, shards ! s ! i)) (copy_indices t stride n))
       [0..<length shards])"

definition kernel_writes :: "nat \<Rightarrow> nat \<Rightarrow> nat \<Rightarrow> 'a list list \<Rightarrow> (nat \<times> 'a) list" where
  "kernel_writes row_packs n stride shards = concat (map (thread_writes row_packs n stride shards) [0..<stride])"

definition apply_writes :: "(nat \<times> 'a) list \<Rightarrow> 'a list \<Rightarrow> 'a list" where
  "apply_writes ws out = fold (\<lambda>(a, x) buf. buf[a := x]) ws out"

definition kernel_gather :: "nat \<Rightarrow> nat \<Rightarrow> nat \<Rightarrow> 'a list list \<Rightarrow> 'a list \<Rightarrow> 'a list" where
  "kernel_gather row_packs n stride shards out = apply_writes (kernel_writes row_packs n stride shards) out"

section \<open>The host side of an all-gather\<close>

text \<open>The attributes of a tensor that the runtime looks at, and its elements as bytes in row-major order.\<close>

record gpu_tensor =
  gt_dtype :: string
  gt_elem :: nat
  gt_shape :: "nat list"
  gt_ptr :: nat
  gt_cuda :: bool
  gt_device :: nat
  gt_contiguous :: bool
  gt_special :: bool
  gt_bytes :: "8 word list"

definition gt_nbytes :: "gpu_tensor \<Rightarrow> nat" where
  "gt_nbytes t = prod_list (gt_shape t) * gt_elem t"

definition normalize_dim :: "gpu_tensor \<Rightarrow> int \<Rightarrow> int" where
  "normalize_dim t axis = (if axis < 0 then axis + int (length (gt_shape t)) else axis)"

definition direct_gather_layout :: "gpu_tensor \<Rightarrow> nat \<Rightarrow> bool" where
  "direct_gather_layout t axis =
     (gt_nbytes t mod 16 = 0 \<and> gt_ptr t mod 16 = 0 \<and> (axis = 0 \<or> last (gt_shape t) * gt_elem t mod 16 = 0))"

definition packs_of :: "'a list \<Rightarrow> 'a list list" where
  "packs_of bs = map (\<lambda>i. take 16 (drop (16 * i) bs)) [0..<length bs div 16]"

definition gather_row_packs :: "gpu_tensor \<Rightarrow> nat \<Rightarrow> nat" where
  "gather_row_packs t axis = (if axis = 0 then gt_nbytes t div 16 else last (gt_shape t) * gt_elem t div 16)"

text \<open>Straight into the result, \<open>out\<close> being the packs of the fresh output.\<close>

definition gather_direct :: "gpu_tensor \<Rightarrow> nat \<Rightarrow> nat \<Rightarrow> 8 word list list \<Rightarrow> 8 word list list \<Rightarrow> 8 word list" where
  "gather_direct t axis stride shards out =
     concat (kernel_gather (gather_row_packs t axis) (gt_nbytes t div 16) stride (map packs_of shards) out)"

text \<open>\<open>movedim(0, dim)\<close> of the stacked shards and the reshape: \<open>outer\<close> counts the index tuples before \<open>axis\<close>.\<close>

definition move_ranks :: "nat \<Rightarrow> nat \<Rightarrow> nat \<Rightarrow> 'a list \<Rightarrow> 'a list" where
  "move_ranks world outer inner flat =
     concat (map (\<lambda>k. concat (map (\<lambda>w. py_slice flat ((w * outer + k) * inner) ((w * outer + k) * inner + inner)) [0..<world])) [0..<outer])"

definition outer_of :: "gpu_tensor \<Rightarrow> nat \<Rightarrow> nat" where
  "outer_of t axis = prod_list (take axis (gt_shape t))"

definition inner_of :: "gpu_tensor \<Rightarrow> nat \<Rightarrow> nat" where
  "inner_of t axis = prod_list (drop axis (gt_shape t)) * gt_elem t"

text \<open>Through the padded scratch: \<open>stale\<close> is what the scratch of a rank held behind its shard.\<close>

definition gather_padded :: "gpu_tensor \<Rightarrow> nat \<Rightarrow> nat \<Rightarrow> 8 word list list \<Rightarrow> 8 word list list \<Rightarrow> 8 word list list \<Rightarrow> 8 word list" where
  "gather_padded t axis stride shards stale scratch =
     (let n = gt_nbytes t; padded = align_up n 16;
          staged = map2 (\<lambda>bs junk. bs @ take (padded - n) junk) shards stale;
          gathered = concat (kernel_gather (padded div 16) (padded div 16) stride (map packs_of staged) scratch);
          stacked = concat (map (\<lambda>w. take n (drop (w * padded) gathered)) [0..<length shards])
      in move_ranks (length shards) (outer_of t axis) (inner_of t axis) stacked)"

section \<open>The grid and its counters\<close>

lemma bit_length_0 [simp]: "bit_length 0 = 0"
  by (subst bit_length.simps) simp

lemma bit_length_1: "bit_length (Suc 0) = Suc 0"
  by (subst bit_length.simps) simp

lemma bit_length_bounds: "0 < n \<Longrightarrow> 2 ^ (bit_length n - 1) \<le> n \<and> n < 2 ^ bit_length n \<and> 0 < bit_length n"
proof (induction n rule: bit_length.induct)
  case (1 n)
  show ?case
  proof (cases "n div 2 = 0")
    case True
    then have "n = 1" using 1(2) by auto
    then show ?thesis by (simp add: bit_length_1)
  next
    case False
    note IH = 1(1) [OF _ bot_nat_0.not_eq_extremum [THEN iffD1, OF False]]
    have b: "bit_length n = Suc (bit_length (n div 2))" using 1(2) by (simp add: bit_length.simps [of n])
    have i: "2 ^ (bit_length (n div 2) - 1) \<le> n div 2" "n div 2 < 2 ^ bit_length (n div 2)" "0 < bit_length (n div 2)"
      using IH 1(2) by auto
    have "(2 :: nat) ^ bit_length (n div 2) = 2 * 2 ^ (bit_length (n div 2) - 1)" using i(3) by (cases "bit_length (n div 2)") simp_all
    then show ?thesis using i b by (simp add: div_less_iff_less_mult) linarith
  qed
qed

lemma bit_length_power: "bit_length (2 ^ j) = Suc j"
proof (induction j)
  case 0
  then show ?case by (simp add: bit_length_1)
next
  case (Suc j)
  then show ?case by (simp add: bit_length.simps [of "2 * 2 ^ j"])
qed

lemma le_bit_length: "n \<le> 2 ^ bit_length (n - 1)"
proof (cases "n - 1 = 0")
  case False
  then show ?thesis using bit_length_bounds [of "n - 1"] by linarith
qed (cases n; simp)

lemma grid_power: "\<exists>j\<le>k. grid_blocks packs threads (2 ^ k) = 2 ^ j"
  by (auto simp: grid_blocks_def Let_def min_def power_increasing_iff intro: exI [of _ k] dest: nat_power_less_imp_less)

text \<open>The grid is a power of two at most the limit, and below the limit it covers every pack with two per thread.\<close>

lemma grid_covers:
  assumes "0 < threads"
  shows "grid_blocks packs threads limit = limit \<or> packs \<le> grid_blocks packs threads limit * (2 * threads)"
proof -
  let ?r = "max 1 ((packs + 2 * threads - 1) div (2 * threads))"
  have "packs \<le> ?r * (2 * threads)"
    using cdiv_ge [of "2 * threads" packs] assms by (auto simp: cdiv_def max_def intro: order_trans mult_le_mono1)
  also have "\<dots> \<le> 2 ^ bit_length (?r - 1) * (2 * threads)" using le_bit_length [of ?r] by (rule mult_le_mono1)
  finally show ?thesis by (auto simp: grid_blocks_def Let_def min_def)
qed

lemma mod_power_iff: "unat (w mod (of_nat (2 ^ k) :: 32 word)) = unat w mod 2 ^ k" if "k < 32"
proof -
  have "unat (of_nat (2 ^ k) :: 32 word) = 2 ^ k" using that power_strict_increasing [of k 32 "2 :: nat"]
    unfolding unsigned_of_nat take_bit_eq_mod by simp
  then show ?thesis by (simp add: unat_mod_distrib)
qed

lemma arrive_power:
  assumes "k < 32"
  shows "snd (arrive (2 ^ k) c) \<longleftrightarrow> Suc (unat c mod 2 ^ k) = 2 ^ k" and "unat (fst (arrive (2 ^ k) c)) mod 2 ^ k = Suc (unat c) mod 2 ^ k"
proof -
  have dvd: "(2 :: nat) ^ k dvd 2 ^ 32" using assms by (intro le_imp_power_dvd) simp
  have "unat (c + 1) = Suc (unat c) mod 2 ^ 32" by (simp add: unat_word_ariths)
  then show s: "unat (fst (arrive (2 ^ k) c)) mod 2 ^ k = Suc (unat c) mod 2 ^ k"
    using dvd by (simp add: arrive_def mod_mod_cancel)
  have "snd (arrive (2 ^ k) c) \<longleftrightarrow> unat ((c + 1) mod of_nat (2 ^ k)) = 0" by (simp add: arrive_def unat_eq_0)
  also have "\<dots> \<longleftrightarrow> Suc (unat c) mod 2 ^ k = 0" using mod_power_iff [OF assms, of "c + 1"] s by (simp add: arrive_def)
  also have "\<dots> \<longleftrightarrow> Suc (unat c mod 2 ^ k) = 2 ^ k" by (simp add: mod_Suc)
  finally show "snd (arrive (2 ^ k) c) \<longleftrightarrow> Suc (unat c mod 2 ^ k) = 2 ^ k" .
qed

lemma arrivals_run:
  assumes "k < 32"
  shows "unat c mod 2 ^ k + n \<le> 2 ^ k \<Longrightarrow>
    arrivals (2 ^ k) n c = (c + of_nat n, map (\<lambda>i. unat c mod 2 ^ k + Suc i = 2 ^ k) [0..<n])"
proof (induction n arbitrary: c)
  case (Suc n)
  let ?r = "unat c mod 2 ^ k"
  have a: "arrive (2 ^ k) c = (c + 1, ?r + Suc 0 = 2 ^ k)"
    using arrive_power(1) [OF assms, of c] by (simp add: arrive_def)
  show ?case
  proof (cases "n = 0")
    case True
    then show ?thesis using a by simp
  next
    case False
    then have "Suc ?r < 2 ^ k" using Suc.prems by linarith
    then have r: "unat (c + 1) mod 2 ^ k = Suc ?r"
      using arrive_power(2) [OF assms, of c] by (simp add: arrive_def mod_Suc)
    then have "arrivals (2 ^ k) n (c + 1) = (c + 1 + of_nat n, map (\<lambda>i. Suc ?r + Suc i = 2 ^ k) [0..<n])"
      using Suc.IH [of "c + 1"] Suc.prems by simp
    then show ?thesis using a by (simp add: map_upt_Suc add.assoc del: upt_Suc)
  qed
qed simp

section \<open>Writes in any order\<close>

lemma length_apply_writes [simp]: "length (apply_writes ws out) = length out"
  by (induction ws arbitrary: out) (auto simp: apply_writes_def)

lemma apply_writes_nth:
  "a < length out \<Longrightarrow> (a, x) \<in> set ws \<Longrightarrow> \<forall>y. (a, y) \<in> set ws \<longrightarrow> y = x \<Longrightarrow> apply_writes ws out ! a = x"
proof (induction ws rule: rev_induct)
  case (snoc w ws)
  obtain b y where w: "w = (b, y)" by fastforce
  have e: "apply_writes (ws @ [w]) out = (apply_writes ws out)[b := y]" by (simp add: apply_writes_def w)
  show ?case
  proof (cases "b = a")
    case True
    then have "y = x" using snoc.prems(3) w by auto
    then show ?thesis using True snoc.prems(1) e by simp
  next
    case False
    have "apply_writes ws out ! a = x"
    proof (rule snoc.IH)
      show "a < length out" by (rule snoc.prems(1))
      show "(a, x) \<in> set ws" using snoc.prems(2) w False by simp
      show "\<forall>y. (a, y) \<in> set ws \<longrightarrow> y = x" using snoc.prems(3) by simp
    qed
    then show ?thesis using False e by simp
  qed
qed simp

lemma copy_indices_set: "set (copy_indices i stride n) = {j. i \<le> j \<and> j < n \<and> (\<exists>q. j = i + q * stride)}" if "0 < stride"
  using that
proof (induction i stride n rule: copy_indices.induct)
  case (1 i stride n)
  show ?case
  proof (cases "stride = 0 \<or> n \<le> i")
    case True
    then show ?thesis using 1(2) by (subst copy_indices.simps) auto
  next
    case False
    have "{j. i \<le> j \<and> j < n \<and> (\<exists>q. j = i + q * stride)} = insert i {j. i + stride \<le> j \<and> j < n \<and> (\<exists>q. j = i + stride + q * stride)}"
    proof (intro set_eqI iffI)
      fix j assume "j \<in> {j. i \<le> j \<and> j < n \<and> (\<exists>q. j = i + q * stride)}"
      then obtain q where "j < n" "j = i + q * stride" by auto
      then show "j \<in> insert i {j. i + stride \<le> j \<and> j < n \<and> (\<exists>q. j = i + stride + q * stride)}"
        by (cases q) (auto simp: algebra_simps)
    next
      fix j assume "j \<in> insert i {j. i + stride \<le> j \<and> j < n \<and> (\<exists>q. j = i + stride + q * stride)}"
      then consider "j = i" | q where "j < n" "j = i + Suc q * stride" by (auto simp: algebra_simps)
      then show "j \<in> {j. i \<le> j \<and> j < n \<and> (\<exists>q. j = i + q * stride)}"
      proof cases
        case 1
        then show ?thesis using False by (auto intro: exI [of _ "0::nat"])
      next
        case (2 q)
        then show ?thesis by (auto intro: exI [of _ "Suc q"])
      qed
    qed
    then show ?thesis using 1 False by (subst copy_indices.simps) simp
  qed
qed

lemma copy_indices_all: "0 < stride \<Longrightarrow> (\<Union>t\<in>{..<stride}. set (copy_indices t stride n)) = {..<n}"
proof (intro set_eqI iffI)
  fix j assume s: "0 < stride" and j: "j \<in> {..<n}"
  have "j = j mod stride + j div stride * stride" by simp
  then have "j \<in> set (copy_indices (j mod stride) stride n)" using s j by (subst copy_indices_set) (auto intro: exI [of _ "j div stride"])
  then show "j \<in> (\<Union>t\<in>{..<stride}. set (copy_indices t stride n))" using s by auto
qed (auto simp: copy_indices_set)

lemma kernel_writes_set:
  assumes "0 < stride"
  shows "set (kernel_writes rp n stride shards) = {(copy_dest (length shards) rp s i, shards ! s ! i) | s i. s < length shards \<and> i < n}"
proof -
  let ?f = "\<lambda>s i. (copy_dest (length shards) rp s i, shards ! s ! i)"
  have "set (kernel_writes rp n stride shards) = (\<Union>t\<in>{..<stride}. \<Union>s\<in>{..<length shards}. ?f s ` set (copy_indices t stride n))"
    by (simp add: kernel_writes_def thread_writes_def lessThan_atLeast0)
  also have "\<dots> = (\<Union>s\<in>{..<length shards}. ?f s ` (\<Union>t\<in>{..<stride}. set (copy_indices t stride n)))"
    by (simp only: image_UN) (rule SUP_commute)
  also have "\<dots> = (\<Union>s\<in>{..<length shards}. ?f s ` {..<n})" by (simp only: copy_indices_all [OF assms])
  finally show ?thesis by auto
qed

lemma div_mod_digit: "l < D \<Longrightarrow> (q * D + l) div D = q \<and> (q * D + l) mod D = l" for D :: nat
  by (cases "D = 0") simp_all

lemma copy_dest_inv:
  assumes "0 < rp" "s < W"
  shows "copy_dest W rp s i div (W * rp) = i div rp" "copy_dest W rp s i mod (W * rp) div rp = s" "copy_dest W rp s i mod rp = i mod rp"
proof -
  have d: "copy_dest W rp s i = i div rp * (W * rp) + (s * rp + i mod rp)" by (simp add: copy_dest_def Let_def minus_div_mult_eq_mod add.assoc)
  have l: "s * rp + i mod rp < W * rp"
  proof -
    have "s * rp + i mod rp < Suc s * rp" using assms(1) by simp
    also have "\<dots> \<le> W * rp" using assms(2) by (intro mult_le_mono1) simp
    finally show ?thesis .
  qed
  show "copy_dest W rp s i div (W * rp) = i div rp" unfolding d using div_mod_digit [OF l] by simp
  have m: "copy_dest W rp s i mod (W * rp) = s * rp + i mod rp" unfolding d using div_mod_digit [OF l] by simp
  show "copy_dest W rp s i mod (W * rp) div rp = s" unfolding m using div_mod_digit [of "i mod rp" rp s] assms(1) by simp
  have "copy_dest W rp s i = (i div rp * W + s) * rp + i mod rp" unfolding d by (simp add: algebra_simps)
  then show "copy_dest W rp s i mod rp = i mod rp" by simp
qed

end
