(* ===== verification/Roce_Runtime.thy ===== *)
theory Roce_Runtime
  imports Roce_Gather Py_Str
begin

text \<open>
  The host runtime of the RoCE collectives (\<open>src/roce/b12x/b12x/comm/roce/roce_oneshot.py\<close>): device discovery, the
  collective set-up with its two votes, eligibility, the admission of an all-reduce or all-gather, the ordering of
  launches over streams, graph capture, health and closing. The file system, the proxy thread, the CUDA allocator and
  the capture state of the current stream are inputs. A call that raises leaves the runtime as it was; the launchers it
  may have compiled are the only trace.
\<close>

unbundle bit_operations_syntax

section \<open>Devices\<close>

definition lstrip_marks :: "string \<Rightarrow> string" where
  "lstrip_marks = dropWhile (\<lambda>c. c = CHR ''='' \<or> c = CHR ''^'')"

fun roce_env_list :: "env \<Rightarrow> string list \<Rightarrow> string list" where
  "roce_env_list env [] = []"
| "roce_env_list env (name # names) =
     (case env name of
        None \<Rightarrow> roce_env_list env names
      | Some raw \<Rightarrow>
          let items = map (\<lambda>i. hd (split_on (CHR '':'') i)) (filter (\<lambda>i. i \<noteq> []) (map (\<lambda>i. lstrip_marks (strip i)) (split_on (CHR '','') raw)))
          in if raw = [] \<or> items = [] then roce_env_list env names else items)"

fun roce_env_int :: "env \<Rightarrow> string list \<Rightarrow> int \<Rightarrow> int result" where
  "roce_env_int env [] d = Inr d"
| "roce_env_int env (name # names) d =
     (case env name of None \<Rightarrow> roce_env_int env names d | Some raw \<Rightarrow> if raw = [] then roce_env_int env names d else py_int raw)"

definition default_gid_index :: "env \<Rightarrow> int result" where
  "default_gid_index env = roce_env_int env [''B12X_ROCE_GID_INDEX'', ''NCCL_IB_GID_INDEX''] 3"

text \<open>A device of \<open>/sys/class/infiniband\<close>, sorted by name: the state of port 1 and the entry of the index, when readable.\<close>

record ib_device =
  ib_name :: string
  ib_active :: "bool option"
  ib_gid :: "string option"

definition gid_empty :: "string \<Rightarrow> bool" where
  "gid_empty g = list_all (\<lambda>c. c = CHR ''0'') (filter (\<lambda>c. c \<noteq> CHR '':'') (strip g))"

definition hca_usable :: "ib_device \<Rightarrow> bool" where
  "hca_usable d = (ib_active d = Some True \<and> (case ib_gid d of None \<Rightarrow> False | Some g \<Rightarrow> \<not> gid_empty g))"

definition discover_hcas :: "env \<Rightarrow> (int \<Rightarrow> ib_device list) \<Rightarrow> int option \<Rightarrow> string list result" where
  "discover_hcas env devices gid =
     (let explicit = roce_env_list env [''B12X_ROCE_HCA'', ''NCCL_IB_HCA'']
      in if explicit \<noteq> [] then Inr (take 2 explicit)
         else bind_r (case gid of None \<Rightarrow> default_gid_index env | Some g \<Rightarrow> Inr g) (\<lambda>g.
           Inr (take 2 (map ib_name (filter hca_usable (devices g))))))"

section \<open>State\<close>

text \<open>The shared scratch: the two alignment buffers and the two of the padded all-gather.\<close>

datatype scratch = Align_in | Align_out | Gather_in | Gather_out

record launch =
  la_packs :: nat
  la_bytes :: nat
  la_grid :: nat
  la_stage :: nat
  la_tail :: nat
  la_src :: "scratch option"
  la_dst :: "scratch option"

text \<open>
  What a stream is given: a copy into the scratch, a collective, a copy out of the scratch; a wait for the shared event
  and a record of it; what is captured does not run yet. \<open>A_sync\<close> is a synchronisation of the whole device.
\<close>

datatype op = Stage scratch | Launch launch | Read scratch

datatype act = A_op nat op | A_wait nat | A_record nat | A_captured nat nat op | A_sync

record runtime =
  rt_closed :: bool
  rt_proxy :: bool
  rt_device :: nat
  rt_world :: nat
  rt_rank :: nat
  rt_max :: nat
  rt_gather_max :: nat
  rt_threads :: nat
  rt_blocks :: nat
  rt_hcas :: "string list"
  rt_spin :: int
  rt_epoch :: nat
  rt_dtypes :: "string list"
  rt_gather_ready :: bool
  rt_align :: bool
  rt_gather_bufs :: bool
  rt_failed :: bool
  rt_failed_seq :: nat
  rt_last :: "nat option"
  rt_cap_stream :: "nat option"
  rt_cap_id :: nat
  rt_log :: "act list"

section \<open>Set-up\<close>

text \<open>
  What a rank brings: its parameters and environment, its devices per index, the slot addresses it was given, and what
  creating the proxy and then connecting and starting it gives.
\<close>

record rank_spec =
  rk_rank :: nat
  rk_device :: nat
  rk_max :: int
  rk_gather :: int
  rk_threads :: int
  rk_blocks :: int
  rk_env :: env
  rk_hca_arg :: "string list"
  rk_gid_arg :: "int option"
  rk_devices :: "int \<Rightarrow> ib_device list"
  rk_abi :: nat
  rk_direct :: bool
  rk_epoch :: nat
  rk_proxy_error :: "string option"
  rk_start_error :: "string option"

record rank_config =
  cf_api :: nat
  cf_abi :: "nat option"
  cf_world :: nat
  cf_hcas :: nat
  cf_slot :: nat
  cf_slots :: nat
  cf_flag_stride :: nat
  cf_max :: int
  cf_gather :: int
  cf_spin :: int
  cf_threads :: int
  cf_blocks :: int

definition power_of_two :: "int \<Rightarrow> bool" where
  "power_of_two n = (1 \<le> n \<and> n AND (n - 1) = 0)"

text \<open>
  \<open>Layout\<close>, which asks \<open>roce_layout\<close> of \<open>_roce_proxy.c\<close>: the byte offsets of the pinned region, with 64-bit overflow
  refused at each step; two slots per peer, two devices at most, flags of 128 bytes.
\<close>

record region =
  rg_flag_stride :: nat
  rg_slots :: nat
  rg_ctrl :: nat
  rg_flag :: nat
  rg_recv :: nat
  rg_send :: nat
  rg_total :: nat

definition region_layout :: "nat \<Rightarrow> nat \<Rightarrow> region result" where
  "region_layout world slot =
     (if world < 2 \<or> 16 < world \<or> slot = 0 \<or> slot mod 4096 \<noteq> 0 then Inl ValueError
      else
        let recv = world * 2 * slot; flags = world * 2 * 2 * 128; send = 2 * slot;
            send_off = recv + flags; ctrl = send_off + send; total_bytes = ctrl + 128
        in if 2 ^ 40 < slot \<or> 2 ^ 64 \<le> recv \<or> 2 ^ 64 \<le> flags \<or> 2 ^ 64 \<le> send \<or> 2 ^ 64 \<le> send_off \<or> 2 ^ 64 \<le> ctrl \<or>
              2 ^ 64 \<le> total_bytes
           then Inl ValueError
           else Inr \<lparr>rg_flag_stride = 128, rg_slots = 2, rg_ctrl = ctrl, rg_flag = recv, rg_recv = 0, rg_send = send_off,
                  rg_total = total_bytes\<rparr>)"

text \<open>Where the kernels read a peer's payload and flag, given the bases.\<close>

definition peer_slot_address :: "region \<Rightarrow> nat \<Rightarrow> nat \<Rightarrow> nat \<Rightarrow> nat" where
  "peer_slot_address g slot_bytes source slot = rg_recv g + (source * rg_slots g + slot) * slot_bytes"

definition flag_address :: "region \<Rightarrow> nat \<Rightarrow> nat \<Rightarrow> nat \<Rightarrow> nat \<Rightarrow> nat" where
  "flag_address g hcas peer slot hca = rg_flag g + ((peer * rg_slots g + slot) * hcas + hca) * rg_flag_stride g"

text \<open>The checks before the exchange; they give the poll limit, the devices and the slot size with its layout.\<close>

definition local_checks :: "nat \<Rightarrow> rank_spec \<Rightarrow> (int \<times> string list \<times> nat \<times> region) result" where
  "local_checks world r =
     (if \<not> (2 \<le> world \<and> world \<le> 16) then Inl ValueError
      else if rk_max r < 16 then Inl ValueError
      else if rk_threads r mod 32 \<noteq> 0 \<or> rk_threads r < 32 \<or> 1024 < rk_threads r then Inl ValueError
      else if \<not> power_of_two (rk_blocks r) then Inl ValueError
      else
        bind_r (case rk_gid_arg r of None \<Rightarrow> default_gid_index (rk_env r) | Some g \<Rightarrow> Inr g) (\<lambda>gid.
        bind_r (roce_env_int (rk_env r) [''B12X_ROCE_SPIN_LIMIT''] 20000000) (\<lambda>spin.
        bind_r (if rk_hca_arg r \<noteq> [] then Inr (rk_hca_arg r) else discover_hcas (rk_env r) (rk_devices r) (Some gid)) (\<lambda>names.
          if names = [] then Inl RuntimeError
          else
            let slot = align_up (nat (max (rk_max r) (rk_gather r))) 4096
            in bind_r (region_layout world slot) (\<lambda>g.
                 if \<not> rk_direct r then Inl RuntimeError else Inr (spin, take 2 names, slot, g))))))"

definition config_of :: "nat \<Rightarrow> rank_spec \<Rightarrow> int \<times> string list \<times> nat \<times> region \<Rightarrow> rank_config" where
  "config_of world r found =
     (case found of (spin, names, slot, g) \<Rightarrow>
        \<lparr>cf_api = 1, cf_abi = (if rk_proxy_error r = None then Some (rk_abi r) else None), cf_world = world,
         cf_hcas = length names, cf_slot = slot, cf_slots = rg_slots g, cf_flag_stride = rg_flag_stride g, cf_max = rk_max r,
         cf_gather = rk_gather r, cf_spin = spin, cf_threads = rk_threads r, cf_blocks = rk_blocks r\<rparr>)"

text \<open>The ranks with a failure, from the statuses every rank has gathered.\<close>

definition setup_failures :: "(string option \<times> rank_config) list \<Rightarrow> nat list" where
  "setup_failures statuses =
     (let errors = filter (\<lambda>i. fst (statuses ! i) \<noteq> None) [0..<length statuses]
      in if errors \<noteq> [] then errors
         else filter (\<lambda>i. snd (statuses ! i) \<noteq> snd (statuses ! 0)) [0..<length statuses])"

definition new_runtime :: "nat \<Rightarrow> rank_spec \<Rightarrow> int \<times> string list \<times> nat \<times> region \<Rightarrow> runtime" where
  "new_runtime world r found =
     \<lparr>rt_closed = False, rt_proxy = True, rt_device = rk_device r, rt_world = world, rt_rank = rk_rank r,
      rt_max = nat (rk_max r), rt_gather_max = nat (rk_gather r), rt_threads = nat (rk_threads r),
      rt_blocks = nat (rk_blocks r), rt_hcas = fst (snd found), rt_spin = fst found, rt_epoch = rk_epoch r, rt_dtypes = [],
      rt_gather_ready = False, rt_align = False, rt_gather_bufs = False, rt_failed = False, rt_failed_seq = 0, rt_last = None,
      rt_cap_stream = None, rt_cap_id = 0, rt_log = []\<rparr>"

text \<open>
  One rank's construction, given what the two exchanges returned. \<open>_exchange\<close> gives every rank the same lists; a rank
  whose own checks raise never reaches them.
\<close>

definition init_runtime :: "nat \<Rightarrow> rank_spec \<Rightarrow> (string option \<times> rank_config) list \<Rightarrow> string option list \<Rightarrow> runtime result" where
  "init_runtime world r statuses verdicts =
     bind_r (local_checks world r) (\<lambda>found.
       if setup_failures statuses \<noteq> [] then Inl RuntimeError
       else if filter (\<lambda>v. v \<noteq> None) verdicts \<noteq> [] then Inl RuntimeError
       else Inr (new_runtime world r found))"

text \<open>The group, when every rank reaches the exchanges.\<close>

fun checked_all :: "nat \<Rightarrow> rank_spec list \<Rightarrow> (int \<times> string list \<times> nat \<times> region) list result" where
  "checked_all world [] = Inr []"
| "checked_all world (r # rs) =
     bind_r (local_checks world r) (\<lambda>x. bind_r (checked_all world rs) (\<lambda>xs. Inr (x # xs)))"

definition setup_group :: "rank_spec list \<Rightarrow> runtime result list result" where
  "setup_group rs =
     bind_r (checked_all (length rs) rs) (\<lambda>found.
       let statuses = map2 (\<lambda>r x. (rk_proxy_error r, config_of (length rs) r x)) rs found;
           verdicts = map rk_start_error rs
       in Inr (map (\<lambda>r. init_runtime (length rs) r statuses verdicts) rs))"

section \<open>Eligibility and health\<close>

definition supported_dtypes :: "string list" where
  "supported_dtypes = [''float16'', ''bfloat16'', ''float32'']"

definition should_allreduce :: "runtime \<Rightarrow> gpu_tensor \<Rightarrow> bool result" where
  "should_allreduce rt t =
     (if rt_closed rt \<or> \<not> rt_proxy rt then Inl RuntimeError
      else if gt_dtype t \<notin> set supported_dtypes \<or> \<not> gt_cuda t then Inr False
      else if gt_device t \<noteq> rt_device rt \<or> \<not> gt_contiguous t then Inr False
      else Inr (0 < gt_nbytes t \<and> gt_nbytes t \<le> rt_max rt \<and> gt_nbytes t mod 16 = 0))"

text \<open>\<open>gt_special\<close> stands for complex, sparse and bool tensors.\<close>

definition should_all_gather :: "runtime \<Rightarrow> gpu_tensor \<Rightarrow> int \<Rightarrow> bool result" where
  "should_all_gather rt t axis =
     (if rt_closed rt \<or> \<not> rt_proxy rt then Inl RuntimeError
      else if \<not> gt_cuda t \<or> gt_shape t = [] then Inr False
      else if gt_device t \<noteq> rt_device rt \<or> \<not> gt_contiguous t then Inr False
      else if gt_special t then Inr False
      else if normalize_dim t axis \<noteq> 0 \<and> normalize_dim t axis \<noteq> int (length (gt_shape t)) - 1 then Inr False
      else Inr (0 < gt_nbytes t \<and> gt_nbytes t \<le> rt_gather_max rt))"

definition poisoned :: "runtime \<Rightarrow> bool" where
  "poisoned rt = (rt_proxy rt \<and> rt_failed rt \<or> rt_failed_seq rt \<noteq> 0)"


section \<open>Calls\<close>

text \<open>A call gives the runtime it leaves, also when it raises.\<close>

type_synonym 'a call = "runtime \<Rightarrow> runtime \<times> 'a result"

definition c_ret :: "'a \<Rightarrow> 'a call" where
  "c_ret x = (\<lambda>rt. (rt, Inr x))"

definition c_fail :: "py_error \<Rightarrow> 'a call" where
  "c_fail e = (\<lambda>rt. (rt, Inl e))"

definition c_bind :: "'a call \<Rightarrow> ('a \<Rightarrow> 'b call) \<Rightarrow> 'b call" where
  "c_bind m f = (\<lambda>rt. case m rt of (s, Inl e) \<Rightarrow> (s, Inl e) | (s, Inr x) \<Rightarrow> f x s)"

definition c_then :: "'a call \<Rightarrow> 'b call \<Rightarrow> 'b call" where
  "c_then m n = c_bind m (\<lambda>x. n)"

definition c_when :: "bool \<Rightarrow> unit call \<Rightarrow> unit call" where
  "c_when b m = (if b then m else c_ret ())"

definition c_ask :: "(runtime \<Rightarrow> 'a result) \<Rightarrow> 'a call" where
  "c_ask q = (\<lambda>rt. (rt, q rt))"

definition c_update :: "(runtime \<Rightarrow> runtime) \<Rightarrow> unit call" where
  "c_update g = (\<lambda>rt. (g rt, Inr ()))"

definition c_log :: "act \<Rightarrow> unit call" where
  "c_log x = c_update (\<lambda>rt. rt\<lparr>rt_log := rt_log rt @ [x]\<rparr>)"

definition check_health :: "unit call" where
  "check_health = (\<lambda>rt. (rt, if poisoned rt then Inl RuntimeError else Inr ()))"

text \<open>The failed sequence in the control record goes from zero to the sequence that timed out, and stays.\<close>

definition observe :: "nat \<Rightarrow> unit call" where
  "observe lost = c_update (\<lambda>rt. rt\<lparr>rt_failed_seq := (if rt_failed_seq rt \<noteq> 0 then rt_failed_seq rt else lost)\<rparr>)"

text \<open>\<open>cap\<close> is the id of the capture the current stream \<open>cur\<close> is in, if it is in one.\<close>

definition order_stream :: "nat option \<Rightarrow> nat \<Rightarrow> unit call" where
  "order_stream cap cur = (\<lambda>rt.
     case cap of
       Some i \<Rightarrow>
         if i \<noteq> rt_cap_id rt then (rt\<lparr>rt_cap_id := i, rt_cap_stream := Some cur\<rparr>, Inr ())
         else if Some cur \<noteq> rt_cap_stream rt then (rt, Inl RuntimeError)
         else (rt, Inr ())
     | None \<Rightarrow> if rt_last rt \<noteq> None \<and> rt_last rt \<noteq> Some cur then c_log (A_wait cur) rt else (rt, Inr ()))"

definition mark_stream :: "nat option \<Rightarrow> nat \<Rightarrow> unit call" where
  "mark_stream cap cur =
     (if cap \<noteq> None then c_ret () else c_then (c_log (A_record cur)) (c_update (\<lambda>rt. rt\<lparr>rt_last := Some cur\<rparr>)))"

definition put_op :: "nat option \<Rightarrow> nat \<Rightarrow> op \<Rightarrow> unit call" where
  "put_op cap cur x = c_log (case cap of None \<Rightarrow> A_op cur x | Some i \<Rightarrow> A_captured i cur x)"

text \<open>One kernel launch, with the grid and counters of its size.\<close>

definition launch_of :: "runtime \<Rightarrow> nat \<Rightarrow> scratch option \<Rightarrow> scratch option \<Rightarrow> launch" where
  "launch_of rt nbytes src dst =
     (let grid = grid_blocks (nbytes div 16) (rt_threads rt) (rt_blocks rt);
          (stage, tail) = counter_addresses (rt_epoch rt) (bit_length (rt_blocks rt)) grid
      in \<lparr>la_packs = nbytes div 16, la_bytes = nbytes, la_grid = grid, la_stage = stage, la_tail = tail, la_src = src, la_dst = dst\<rparr>)"

definition put_launch :: "nat option \<Rightarrow> nat \<Rightarrow> nat \<Rightarrow> scratch option \<Rightarrow> scratch option \<Rightarrow> unit call" where
  "put_launch cap cur nbytes src dst = (\<lambda>rt. put_op cap cur (Launch (launch_of rt nbytes src dst)) rt)"

text \<open>A launcher or buffer that is not there yet is made, but not under capture.\<close>

definition reduce_launcher :: "nat option \<Rightarrow> string \<Rightarrow> unit call" where
  "reduce_launcher cap dtype = (\<lambda>rt.
     if dtype \<in> set (rt_dtypes rt) then (rt, Inr ())
     else if cap \<noteq> None then (rt, Inl RuntimeError)
     else (rt\<lparr>rt_dtypes := rt_dtypes rt @ [dtype]\<rparr>, Inr ()))"

definition gather_launcher :: "nat option \<Rightarrow> unit call" where
  "gather_launcher cap = (\<lambda>rt.
     if rt_gather_ready rt then (rt, Inr ())
     else if cap \<noteq> None then (rt, Inl RuntimeError)
     else (rt\<lparr>rt_gather_ready := True\<rparr>, Inr ()))"

definition aligned_scratch :: "nat option \<Rightarrow> unit call" where
  "aligned_scratch cap = (\<lambda>rt.
     if rt_align rt then (rt, Inr ())
     else if cap \<noteq> None then (rt, Inl RuntimeError)
     else (rt\<lparr>rt_align := True\<rparr>, Inr ()))"

definition gather_scratch :: "nat option \<Rightarrow> unit call" where
  "gather_scratch cap = (\<lambda>rt.
     if rt_gather_bufs rt then (rt, Inr ())
     else if cap \<noteq> None then (rt, Inl RuntimeError)
     else (rt\<lparr>rt_gather_bufs := True\<rparr>, Inr ()))"

text \<open>\<open>prepare\<close>; its launchers are compiled outside a capture.\<close>

definition prepare :: "string list \<Rightarrow> bool \<Rightarrow> nat option \<Rightarrow> unit call" where
  "prepare dtypes padded cap =
     c_then (c_update (\<lambda>rt. rt\<lparr>rt_dtypes := rt_dtypes rt @ dtypes, rt_gather_ready := True\<rparr>))
       (c_then (aligned_scratch cap) (c_when padded (gather_scratch cap)))"

section \<open>Collectives\<close>

definition reduce_out_ok :: "gpu_tensor \<Rightarrow> gpu_tensor option \<Rightarrow> bool" where
  "reduce_out_ok t out =
     (case out of None \<Rightarrow> True
      | Some u \<Rightarrow> gt_shape u = gt_shape t \<and> gt_dtype u = gt_dtype t \<and> gt_device u = gt_device t \<and> gt_contiguous u)"

text \<open>
  \<open>fresh\<close> is the pointer the allocator gives an output that was not passed, \<open>lost\<close> the failed sequence the control record
  shows after the launch. A misaligned input is copied into its scratch before the stream is ordered.
\<close>

definition all_reduce :: "nat option \<Rightarrow> nat \<Rightarrow> gpu_tensor \<Rightarrow> gpu_tensor option \<Rightarrow> nat \<Rightarrow> nat \<Rightarrow> unit call" where
  "all_reduce cap cur t out fresh lost =
     c_then check_health (c_bind (c_ask (\<lambda>rt. should_allreduce rt t)) (\<lambda>ok.
       if \<not> ok then c_fail ValueError
       else if \<not> reduce_out_ok t out then c_fail ValueError
       else
         let sin = (gt_ptr t mod 16 \<noteq> 0);
             sout = ((case out of None \<Rightarrow> fresh | Some u \<Rightarrow> gt_ptr u) mod 16 \<noteq> 0)
         in c_then (reduce_launcher cap (gt_dtype t))
           (c_then (c_when sin (c_then (aligned_scratch cap) (put_op cap cur (Stage Align_in))))
           (c_then (c_when sout (aligned_scratch cap))
           (c_then (order_stream cap cur)
           (c_then (put_launch cap cur (gt_nbytes t) (if sin then Some Align_in else None) (if sout then Some Align_out else None))
           (c_then (c_when sout (put_op cap cur (Read Align_out)))
           (c_then (mark_stream cap cur)
             (c_when (cap = None) (c_then (observe lost) check_health))))))))))"

definition gather_out_ok :: "nat \<Rightarrow> gpu_tensor \<Rightarrow> nat \<Rightarrow> gpu_tensor option \<Rightarrow> bool" where
  "gather_out_ok world t axis out =
     (case out of None \<Rightarrow> True
      | Some u \<Rightarrow> gt_shape u = (gt_shape t)[axis := gt_shape t ! axis * world] \<and> gt_dtype u = gt_dtype t \<and>
          gt_device u = gt_device t \<and> gt_contiguous u)"

definition launch_gather :: "nat option \<Rightarrow> nat \<Rightarrow> nat \<Rightarrow> scratch option \<Rightarrow> scratch option \<Rightarrow> nat \<Rightarrow> unit call" where
  "launch_gather cap cur nbytes src dst lost =
     c_then (gather_launcher cap)
       (c_then (put_launch cap cur nbytes src dst)
         (c_when (cap = None) (c_then (observe lost) check_health)))"

text \<open>
  Where the result of a gather lives: in a tensor of its own, in the tensor passed, or still in the gathered scratch, when
  every reshape of the padded path is a view and \<open>contiguous\<close> has nothing to copy.
\<close>

datatype gather_home = Own_tensor | Passed_tensor | In_scratch

definition reshape_is_view :: "gpu_tensor \<Rightarrow> nat \<Rightarrow> bool" where
  "reshape_is_view t axis = (align_up (gt_nbytes t) 16 = gt_nbytes t \<and> outer_of t axis = 1)"

definition padded_result :: "nat option \<Rightarrow> nat \<Rightarrow> gpu_tensor \<Rightarrow> nat \<Rightarrow> gpu_tensor option \<Rightarrow> gather_home call" where
  "padded_result cap cur t axis out =
     (if out \<noteq> None then c_then (put_op cap cur (Read Gather_out)) (c_ret Passed_tensor)
      else if reshape_is_view t axis then c_ret In_scratch
      else c_then (put_op cap cur (Read Gather_out)) (c_ret Own_tensor))"

definition all_gather :: "nat option \<Rightarrow> nat \<Rightarrow> gpu_tensor \<Rightarrow> int \<Rightarrow> gpu_tensor option \<Rightarrow> nat \<Rightarrow> gather_home call" where
  "all_gather cap cur t axis0 out lost =
     c_then check_health (c_bind (c_ask (\<lambda>rt. should_all_gather rt t axis0)) (\<lambda>ok.
       if \<not> ok then c_fail ValueError
       else
         let axis = nat (normalize_dim t axis0)
         in c_bind (c_ask (\<lambda>rt. Inr (gather_out_ok (rt_world rt) t axis out))) (\<lambda>fits.
              if \<not> fits then c_fail ValueError
              else if direct_gather_layout t axis \<and> (case out of None \<Rightarrow> True | Some u \<Rightarrow> gt_ptr u mod 16 = 0)
              then c_then (order_stream cap cur)
                (c_then (launch_gather cap cur (gt_nbytes t) None None lost)
                (c_then (mark_stream cap cur) (c_ret (if out = None then Own_tensor else Passed_tensor))))
              else c_then (gather_scratch cap)
                (c_then (put_op cap cur (Stage Gather_in))
                (c_then (order_stream cap cur)
                (c_then (launch_gather cap cur (align_up (gt_nbytes t) 16) (Some Gather_in) (Some Gather_out) lost)
                (c_then (mark_stream cap cur) (padded_result cap cur t axis out))))))))"

section \<open>Capture and closing\<close>

definition enter_capture :: "runtime \<Rightarrow> runtime" where
  "enter_capture rt = rt\<lparr>rt_last := None, rt_cap_stream := None, rt_cap_id := 0\<rparr>"

definition exit_capture :: "runtime \<Rightarrow> runtime" where
  "exit_capture rt = rt\<lparr>rt_cap_stream := None, rt_cap_id := 0, rt_last := None\<rparr>"

definition close_runtime :: "runtime \<Rightarrow> runtime" where
  "close_runtime rt =
     (if rt_closed rt then rt
      else rt\<lparr>rt_closed := True, rt_log := rt_log rt @ [A_sync], rt_proxy := False\<rparr>)"

end
