(* ===== verification/Roce_Order.thy ===== *)
theory Roce_Order
  imports Roce_Runtime
begin

text \<open>
  The order of the collectives of one runtime over its streams: what happens before what in a log, a small program
  logic for the calls, the invariant every step keeps, and where the shared scratch is not covered by the order.
\<close>

section \<open>Happens before\<close>

fun stream_of :: "act \<Rightarrow> nat option" where
  "stream_of (A_op s x) = Some s"
| "stream_of (A_wait s) = Some s"
| "stream_of (A_record s) = Some s"
| "stream_of (A_captured i s x) = None"
| "stream_of A_sync = None"

fun is_record :: "act \<Rightarrow> bool" where
  "is_record (A_record s) = True"
| "is_record x = False"

fun is_wait :: "act \<Rightarrow> bool" where
  "is_wait (A_wait s) = True"
| "is_wait x = False"

fun is_launch :: "act \<Rightarrow> bool" where
  "is_launch (A_op s (Launch l)) = True"
| "is_launch x = False"

text \<open>
  A stream runs in order; a wait takes the latest record before it; a synchronisation comes after all that was put
  before it and before all that is put later.
\<close>

definition edge :: "act list \<Rightarrow> nat \<Rightarrow> nat \<Rightarrow> bool" where
  "edge L i j \<longleftrightarrow>
     i < j \<and> j < length L \<and>
     (stream_of (L ! i) \<noteq> None \<and> stream_of (L ! i) = stream_of (L ! j) \<or> L ! i = A_sync \<or> L ! j = A_sync \<or>
      is_record (L ! i) \<and> is_wait (L ! j) \<and> (\<forall>k. i < k \<and> k < j \<longrightarrow> \<not> is_record (L ! k)))"

definition happens_before :: "act list \<Rightarrow> nat \<Rightarrow> nat \<Rightarrow> bool" where
  "happens_before L = (edge L)\<^sup>+\<^sup>+"

lemma edge_append: "edge L i j \<Longrightarrow> edge (L @ M) i j"
  unfolding edge_def by (auto simp: nth_append)

lemma happens_before_append: "happens_before L i j \<Longrightarrow> happens_before (L @ M) i j"
  unfolding happens_before_def by (induction rule: tranclp.induct) (auto intro: edge_append tranclp.intros)

lemma happens_before_less: "happens_before L i j \<Longrightarrow> i < j \<and> j < length L"
  unfolding happens_before_def by (induction rule: tranclp.induct) (auto simp: edge_def)

lemma happens_before_edge: "edge L i j \<Longrightarrow> happens_before L i j"
  unfolding happens_before_def by blast

lemma happens_before_step: "happens_before L i j \<Longrightarrow> edge L j k \<Longrightarrow> happens_before L i k"
  unfolding happens_before_def by (rule tranclp.trancl_into_trancl)


section \<open>The launches so far\<close>

definition launches_ordered :: "act list \<Rightarrow> bool" where
  "launches_ordered L \<longleftrightarrow>
     (\<forall>i j. i < j \<and> j < length L \<and> is_launch (L ! i) \<and> is_launch (L ! j) \<longrightarrow> happens_before L i j)"

text \<open>The position \<open>k\<close> is at or after every launch.\<close>

definition covers_launches :: "act list \<Rightarrow> nat \<Rightarrow> bool" where
  "covers_launches L k \<longleftrightarrow> k < length L \<and> (\<forall>i < length L. is_launch (L ! i) \<longrightarrow> i = k \<or> happens_before L i k)"

definition no_launch :: "act list \<Rightarrow> bool" where
  "no_launch L \<longleftrightarrow> (\<forall>x \<in> set L. \<not> is_launch x)"

text \<open>Whatever is put on \<open>cur\<close> next comes after every launch.\<close>

definition ready_on :: "act list \<Rightarrow> nat \<Rightarrow> bool" where
  "ready_on L cur \<longleftrightarrow> no_launch L \<or> (\<exists>k. covers_launches L k \<and> (stream_of (L ! k) = Some cur \<or> L ! k = A_sync))"

text \<open>The last record is on \<open>s\<close> and after every launch.\<close>

definition recorded :: "act list \<Rightarrow> nat \<Rightarrow> bool" where
  "recorded L s \<longleftrightarrow>
     (\<exists>k. covers_launches L k \<and> L ! k = A_record s \<and> (\<forall>j. k < j \<and> j < length L \<longrightarrow> \<not> is_record (L ! j)))"

definition synced :: "act list \<Rightarrow> bool" where
  "synced L \<longleftrightarrow> no_launch L \<or> (\<exists>k. covers_launches L k \<and> L ! k = A_sync)"

lemma no_launch_append: "no_launch L \<Longrightarrow> \<not> is_launch x \<Longrightarrow> no_launch (L @ [x])"
  unfolding no_launch_def by auto

lemma covers_append:
  assumes "covers_launches L k" and "\<not> is_launch x"
  shows "covers_launches (L @ [x]) k \<and> (L @ [x]) ! k = L ! k"
  using assms unfolding covers_launches_def by (auto simp: nth_append less_Suc_eq happens_before_append)

lemma covers_push:
  assumes "covers_launches L k" and "edge (L @ [x]) k (length L)"
  shows "covers_launches (L @ [x]) (length L)"
  unfolding covers_launches_def
proof (intro conjI allI impI)
  fix i assume i: "i < length (L @ [x])" and l: "is_launch ((L @ [x]) ! i)"
  show "i = length L \<or> happens_before (L @ [x]) i (length L)"
  proof (cases "i = length L")
    case False
    with i l have "i = k \<or> happens_before L i k"
      using assms(1) by (auto simp: covers_launches_def nth_append)
    then show ?thesis
      using assms(2) by (auto intro: happens_before_edge happens_before_step happens_before_append)
  qed simp
qed simp

lemma covers_first: "no_launch L \<Longrightarrow> covers_launches (L @ [x]) (length L)"
  unfolding no_launch_def covers_launches_def by (auto simp: nth_append less_Suc_eq)

lemma ready_push:
  assumes "ready_on L cur" and "stream_of x = Some cur"
  shows "covers_launches (L @ [x]) (length L)"
proof (cases "no_launch L")
  case True
  then show ?thesis by (rule covers_first)
next
  case False
  then obtain k where k: "covers_launches L k" "stream_of (L ! k) = Some cur \<or> L ! k = A_sync"
    using assms(1) by (auto simp: ready_on_def)
  then have "edge (L @ [x]) k (length L)"
    using assms(2) by (auto simp: edge_def covers_launches_def nth_append)
  with k(1) show ?thesis by (rule covers_push)
qed

lemma ready_after_push:
  assumes "ready_on L cur" and "stream_of x = Some cur"
  shows "ready_on (L @ [x]) cur"
  using ready_push [OF assms] assms(2) unfolding ready_on_def by (intro disjI2 exI [of _ "length L"]) simp

lemma ordered_push:
  assumes "launches_ordered L" and "ready_on L cur" and "stream_of x = Some cur"
  shows "launches_ordered (L @ [x])"
  using assms(1) ready_push [OF assms(2,3)] unfolding launches_ordered_def covers_launches_def
  by (auto simp: nth_append less_Suc_eq happens_before_append)

lemma ordered_append: "launches_ordered L \<Longrightarrow> \<not> is_launch x \<Longrightarrow> launches_ordered (L @ [x])"
  unfolding launches_ordered_def by (auto simp: nth_append less_Suc_eq happens_before_append)

lemma synced_sync: "synced (L @ [A_sync])"
proof -
  have "covers_launches (L @ [A_sync]) (length L)"
    unfolding covers_launches_def by (auto simp: nth_append less_Suc_eq edge_def intro!: happens_before_edge)
  then show ?thesis unfolding synced_def by (intro disjI2 exI [of _ "length L"]) simp
qed

lemma synced_ready: "synced L \<Longrightarrow> ready_on L cur"
  unfolding synced_def ready_on_def by auto

lemma synced_append: "synced L \<Longrightarrow> \<not> is_launch x \<Longrightarrow> synced (L @ [x])"
  unfolding synced_def using covers_append no_launch_append by metis

lemma recorded_append:
  assumes "recorded L s" and "\<not> is_launch x" and "\<not> is_record x"
  shows "recorded (L @ [x]) s"
proof -
  obtain k where k: "covers_launches L k" "L ! k = A_record s" "\<forall>j. k < j \<and> j < length L \<longrightarrow> \<not> is_record (L ! j)"
    using assms(1) by (auto simp: recorded_def)
  have "covers_launches (L @ [x]) k \<and> (L @ [x]) ! k = L ! k" using k(1) assms(2) by (rule covers_append)
  moreover have "\<forall>j. k < j \<and> j < length (L @ [x]) \<longrightarrow> \<not> is_record ((L @ [x]) ! j)"
    using k(3) assms(3) by (auto simp: nth_append less_Suc_eq)
  ultimately show ?thesis unfolding recorded_def using k(2) by auto
qed

lemma recorded_ready: "recorded L s \<Longrightarrow> ready_on L s"
  unfolding recorded_def ready_on_def by (metis stream_of.simps(3))

lemma recorded_wait:
  assumes "recorded L s"
  shows "ready_on (L @ [A_wait cur]) cur"
proof -
  obtain k where k: "covers_launches L k" "L ! k = A_record s" "\<forall>j. k < j \<and> j < length L \<longrightarrow> \<not> is_record (L ! j)"
    using assms by (auto simp: recorded_def)
  then have "edge (L @ [A_wait cur]) k (length L)"
    by (auto simp: edge_def covers_launches_def nth_append)
  with k(1) have "covers_launches (L @ [A_wait cur]) (length L)" by (rule covers_push)
  then show ?thesis unfolding ready_on_def by (intro disjI2 exI [of _ "length L"]) simp
qed

lemma ready_record: "ready_on L s \<Longrightarrow> recorded (L @ [A_record s]) s"
  using ready_push [of L s "A_record s"] unfolding recorded_def by (intro exI [of _ "length L"]) auto


section \<open>A logic for the calls\<close>

text \<open>From \<open>P\<close> the call returns with \<open>Q\<close> or raises with \<open>E\<close>.\<close>

definition triple :: "(runtime \<Rightarrow> bool) \<Rightarrow> 'a call \<Rightarrow> ('a \<Rightarrow> runtime \<Rightarrow> bool) \<Rightarrow> (runtime \<Rightarrow> bool) \<Rightarrow> bool" where
  "triple P m Q E \<longleftrightarrow> (\<forall>rt. P rt \<longrightarrow> (case m rt of (s, Inl e) \<Rightarrow> E s | (s, Inr x) \<Rightarrow> Q x s))"

lemma triple_ret: "(\<And>rt. P rt \<Longrightarrow> Q x rt) \<Longrightarrow> triple P (c_ret x) Q E"
  by (simp add: triple_def c_ret_def)

lemma triple_fail: "(\<And>rt. P rt \<Longrightarrow> E rt) \<Longrightarrow> triple P (c_fail e) Q E"
  by (simp add: triple_def c_fail_def)

lemma triple_bind: "triple P m R E \<Longrightarrow> (\<And>x. triple (R x) (f x) Q E) \<Longrightarrow> triple P (c_bind m f) Q E"
  unfolding triple_def c_bind_def by (fastforce split: prod.splits sum.splits)

lemma triple_then: "triple P m (\<lambda>x. R) E \<Longrightarrow> triple R n Q E \<Longrightarrow> triple P (c_then m n) Q E"
  unfolding c_then_def by (rule triple_bind)

lemma triple_when: "(b \<Longrightarrow> triple P m (\<lambda>u. P) E) \<Longrightarrow> triple P (c_when b m) (\<lambda>u. P) E"
  by (simp add: c_when_def triple_ret)

lemma triple_update: "(\<And>rt. P rt \<Longrightarrow> Q () (g rt)) \<Longrightarrow> triple P (c_update g) Q E"
  by (simp add: triple_def c_update_def)

lemma triple_ask: "(\<And>rt e. P rt \<Longrightarrow> q rt = Inl e \<Longrightarrow> E rt) \<Longrightarrow> (\<And>rt x. P rt \<Longrightarrow> q rt = Inr x \<Longrightarrow> Q x rt) \<Longrightarrow> triple P (c_ask q) Q E"
  by (auto simp: triple_def c_ask_def split: sum.splits)

lemma triple_weaken: "triple P m Q E \<Longrightarrow> (\<And>rt. P' rt \<Longrightarrow> P rt) \<Longrightarrow> (\<And>x rt. Q x rt \<Longrightarrow> Q' x rt) \<Longrightarrow> triple P' m Q' E"
  by (fastforce simp: triple_def split: prod.splits sum.splits)

lemma triple_fst: "triple P m (\<lambda>x. P) P \<Longrightarrow> P rt \<Longrightarrow> P (fst (m rt))"
  unfolding triple_def by (drule spec [of _ rt]) (auto split: prod.splits sum.splits)

section \<open>The invariant\<close>

definition dead :: "runtime \<Rightarrow> bool" where
  "dead rt = (poisoned rt \<or> rt_closed rt)"

fun last_ok :: "act list \<Rightarrow> nat option \<Rightarrow> bool" where
  "last_ok L None = synced L"
| "last_ok L (Some s) = recorded L s"

lemma last_ok_append: "last_ok L w \<Longrightarrow> \<not> is_launch x \<Longrightarrow> \<not> is_record x \<Longrightarrow> last_ok (L @ [x]) w"
  by (cases w) (auto simp: synced_append recorded_append)

definition tail_ok :: "runtime \<Rightarrow> bool" where
  "tail_ok rt \<longleftrightarrow> launches_ordered (rt_log rt) \<and> last_ok (rt_log rt) (rt_last rt)"

definition order_ok :: "runtime \<Rightarrow> bool" where
  "order_ok rt \<longleftrightarrow> launches_ordered (rt_log rt) \<and> (dead rt \<or> tail_ok rt)"

definition mid_ok :: "nat \<Rightarrow> runtime \<Rightarrow> bool" where
  "mid_ok cur rt \<longleftrightarrow> launches_ordered (rt_log rt) \<and> ready_on (rt_log rt) cur"

lemma tail_order: "tail_ok rt \<Longrightarrow> order_ok rt"
  by (simp add: tail_ok_def order_ok_def)

lemma tail_same: "rt_log s = rt_log rt \<Longrightarrow> rt_last s = rt_last rt \<Longrightarrow> tail_ok rt \<Longrightarrow> tail_ok s"
  by (simp add: tail_ok_def)

lemma tail_append: "tail_ok rt \<Longrightarrow> \<not> is_launch x \<Longrightarrow> \<not> is_record x \<Longrightarrow> tail_ok (rt\<lparr>rt_log := rt_log rt @ [x]\<rparr>)"
  by (simp add: tail_ok_def ordered_append last_ok_append)

lemma order_append: "order_ok rt \<Longrightarrow> \<not> is_launch x \<Longrightarrow> \<not> is_record x \<Longrightarrow> order_ok (rt\<lparr>rt_log := rt_log rt @ [x]\<rparr>)"
  using tail_append [of rt x] by (auto simp: order_ok_def dead_def poisoned_def ordered_append)

lemma tail_ready:
  assumes "tail_ok rt" and "rt_last rt = None \<or> rt_last rt = Some cur"
  shows "mid_ok cur rt"
  using assms by (auto simp: tail_ok_def mid_ok_def synced_ready recorded_ready)

lemma order_mid: "triple tail_ok (order_stream None cur) (\<lambda>u. mid_ok cur) order_ok"
proof -
  have "mid_ok cur (rt\<lparr>rt_log := rt_log rt @ [A_wait cur]\<rparr>)" if "tail_ok rt" "rt_last rt = Some s" for rt s
    using that by (auto simp: tail_ok_def mid_ok_def ordered_append recorded_wait)
  then show ?thesis
    using tail_ready by (fastforce simp: triple_def order_stream_def c_log_def c_update_def)
qed

lemma launch_mid: "triple (mid_ok cur) (put_launch None cur n a b) (\<lambda>u. mid_ok cur) order_ok"
  by (auto simp: triple_def put_launch_def put_op_def c_log_def c_update_def mid_ok_def ordered_push ready_after_push)

lemma read_mid: "triple (mid_ok cur) (put_op None cur x) (\<lambda>u. mid_ok cur) order_ok"
  by (auto simp: triple_def put_op_def c_log_def c_update_def mid_ok_def ordered_push ready_after_push)

lemma mark_tail: "triple (mid_ok cur) (mark_stream None cur) (\<lambda>u. tail_ok) order_ok"
  by (auto simp: triple_def mark_stream_def c_then_def c_bind_def c_log_def c_update_def mid_ok_def tail_ok_def ordered_push ready_record)

lemma quiet_tail:
  "triple tail_ok (reduce_launcher cap d) (\<lambda>u. tail_ok) order_ok"
  "triple tail_ok (gather_launcher cap) (\<lambda>u. tail_ok) order_ok"
  "triple tail_ok (aligned_scratch cap) (\<lambda>u. tail_ok) order_ok"
  "triple tail_ok (gather_scratch cap) (\<lambda>u. tail_ok) order_ok"
  "triple tail_ok (observe n) (\<lambda>u. tail_ok) order_ok"
  "triple tail_ok check_health (\<lambda>u. tail_ok) order_ok"
  by (auto simp: triple_def reduce_launcher_def gather_launcher_def aligned_scratch_def gather_scratch_def observe_def
      check_health_def c_update_def tail_order intro: tail_same)

lemma quiet_mid:
  "triple (mid_ok cur) (gather_launcher None) (\<lambda>u. mid_ok cur) order_ok"
  "triple (mid_ok cur) (observe n) (\<lambda>u. mid_ok cur) order_ok"
  "triple (mid_ok cur) check_health (\<lambda>u. mid_ok cur) order_ok"
  by (auto simp: triple_def gather_launcher_def observe_def check_health_def c_update_def mid_ok_def order_ok_def dead_def)

lemma stage_tail: "triple tail_ok (put_op None cur (Stage b)) (\<lambda>u. tail_ok) order_ok"
  "triple tail_ok (put_op None cur (Read b)) (\<lambda>u. tail_ok) order_ok"
  by (auto simp: triple_def put_op_def c_log_def c_update_def tail_append)

lemma alive_tail: "order_ok rt \<Longrightarrow> \<not> poisoned rt \<Longrightarrow> \<not> rt_closed rt \<Longrightarrow> tail_ok rt"
  by (simp add: order_ok_def dead_def)

lemma health_first: "triple order_ok check_health (\<lambda>u rt. order_ok rt \<and> \<not> poisoned rt) order_ok"
  by (auto simp: triple_def check_health_def)

lemma admit_reduce: "triple (\<lambda>rt. order_ok rt \<and> \<not> poisoned rt) (c_ask (\<lambda>rt. should_allreduce rt t)) (\<lambda>ok. tail_ok) order_ok"
  by (rule triple_ask) (auto simp: should_allreduce_def alive_tail split: if_splits)

lemma admit_gather: "triple (\<lambda>rt. order_ok rt \<and> \<not> poisoned rt) (c_ask (\<lambda>rt. should_all_gather rt t a)) (\<lambda>ok. tail_ok) order_ok"
  by (rule triple_ask) (auto simp: should_all_gather_def alive_tail split: if_splits)

lemmas tail_steps = quiet_tail quiet_mid stage_tail order_mid launch_mid read_mid mark_tail

lemma reduce_eager: "triple order_ok (all_reduce None cur t out fresh lost) (\<lambda>u. order_ok) order_ok"
proof -
  have stage: "triple tail_ok (c_when b (c_then (aligned_scratch None) (put_op None cur (Stage Align_in)))) (\<lambda>u. tail_ok) order_ok" for b
    by (intro triple_when triple_then [OF quiet_tail(3)] stage_tail)
  have out: "triple tail_ok (c_when b (aligned_scratch None)) (\<lambda>u. tail_ok) order_ok" for b
    by (intro triple_when quiet_tail)
  have read: "triple (mid_ok cur) (c_when b (put_op None cur (Read Align_out))) (\<lambda>u. mid_ok cur) order_ok" for b
    by (intro triple_when read_mid)
  have fin: "triple tail_ok (c_when (None = None) (c_then (observe lost) check_health)) (\<lambda>u. order_ok) order_ok"
    by (rule triple_weaken [where P = tail_ok and Q = "\<lambda>u. tail_ok"])
      (auto intro: triple_when triple_then quiet_tail tail_order)
  show ?thesis
    unfolding all_reduce_def Let_def
    by (rule triple_then [OF health_first], rule triple_bind [OF admit_reduce])
      (auto simp: tail_order intro!: triple_fail triple_then [OF quiet_tail(1)] triple_then [OF stage] triple_then [OF out]
        triple_then [OF order_mid] triple_then [OF launch_mid] triple_then [OF read] triple_then [OF mark_tail] fin [simplified])
qed

lemma launch_gather_mid: "triple (mid_ok cur) (launch_gather None cur n a b lost) (\<lambda>u. mid_ok cur) order_ok"
  unfolding launch_gather_def
  by (intro triple_then [OF quiet_mid(1)] triple_then [OF launch_mid] triple_when triple_then [OF quiet_mid(2)] quiet_mid(3))

lemma padded_result_order: "triple tail_ok (padded_result None cur t axis out) (\<lambda>h. order_ok) order_ok"
  unfolding padded_result_def by (auto intro!: triple_then [OF stage_tail(2)] triple_ret tail_order)

lemma gather_eager: "triple order_ok (all_gather None cur t axis out lost) (\<lambda>h. order_ok) order_ok"
proof -
  have ask: "triple tail_ok (c_ask (\<lambda>rt. Inr (q rt))) (\<lambda>b. tail_ok) order_ok" for q :: "runtime \<Rightarrow> bool"
    by (rule triple_ask) auto
  show ?thesis
    unfolding all_gather_def Let_def
    by (rule triple_then [OF health_first], rule triple_bind [OF admit_gather])
      (auto simp: tail_order intro!: triple_fail triple_ret triple_bind [OF ask] triple_then [OF quiet_tail(4)]
        triple_then [OF stage_tail(1)] triple_then [OF order_mid] triple_then [OF launch_gather_mid] triple_then [OF mark_tail]
        padded_result_order)
qed

text \<open>Under capture nothing runs and no event is used.\<close>

lemma order_same:
  "rt_log s = rt_log rt \<Longrightarrow> rt_last s = rt_last rt \<Longrightarrow> dead s = dead rt \<Longrightarrow> order_ok rt \<Longrightarrow> order_ok s"
  by (auto simp: order_ok_def tail_ok_def)

lemma captured_ops:
  "triple order_ok check_health (\<lambda>u. order_ok) order_ok"
  "triple order_ok (reduce_launcher cap d) (\<lambda>u. order_ok) order_ok"
  "triple order_ok (gather_launcher cap) (\<lambda>u. order_ok) order_ok"
  "triple order_ok (aligned_scratch cap) (\<lambda>u. order_ok) order_ok"
  "triple order_ok (gather_scratch cap) (\<lambda>u. order_ok) order_ok"
  "triple order_ok (order_stream (Some i) cur) (\<lambda>u. order_ok) order_ok"
  "triple order_ok (mark_stream (Some i) cur) (\<lambda>u. order_ok) order_ok"
  by (auto simp: triple_def check_health_def reduce_launcher_def gather_launcher_def aligned_scratch_def gather_scratch_def
      order_stream_def mark_stream_def c_ret_def dead_def poisoned_def intro: order_same)

lemma captured_put: "triple order_ok (put_op (Some i) cur x) (\<lambda>u. order_ok) order_ok"
  by (auto simp: triple_def put_op_def c_log_def c_update_def order_append)

lemma captured_launch: "triple order_ok (put_launch (Some i) cur n a b) (\<lambda>u. order_ok) order_ok"
  by (auto simp: triple_def put_launch_def put_op_def c_log_def c_update_def order_append)

lemma captured_ask: "triple order_ok (c_ask q) (\<lambda>b. order_ok) order_ok"
  by (rule triple_ask)

lemma captured_gather_launch: "triple order_ok (launch_gather (Some i) cur n a b lost) (\<lambda>u. order_ok) order_ok"
  unfolding launch_gather_def c_when_def by (auto intro!: triple_then [OF captured_ops(3)] triple_then [OF captured_launch] triple_ret)

lemma captured_result: "triple order_ok (padded_result (Some i) cur t axis out) (\<lambda>h. order_ok) order_ok"
  unfolding padded_result_def by (auto intro!: triple_then [OF captured_put] triple_ret)

lemma captured_when: "triple order_ok m (\<lambda>u. order_ok) order_ok \<Longrightarrow> triple order_ok (c_when b m) (\<lambda>u. order_ok) order_ok"
  by (rule triple_when)

lemma reduce_captured: "triple order_ok (all_reduce (Some i) cur t out fresh lost) (\<lambda>u. order_ok) order_ok"
  unfolding all_reduce_def Let_def
  by (rule triple_then [OF captured_ops(1)], rule triple_bind [OF captured_ask])
    (auto simp: c_when_def intro!: triple_fail triple_ret triple_then [where R = order_ok] captured_ops captured_put captured_launch)

lemma gather_captured: "triple order_ok (all_gather (Some i) cur t axis out lost) (\<lambda>h. order_ok) order_ok"
  unfolding all_gather_def Let_def
  by (rule triple_then [OF captured_ops(1)], rule triple_bind [OF captured_ask])
    (auto intro!: triple_fail triple_ret triple_bind [OF captured_ask] triple_then [where R = order_ok] captured_ops captured_put
      captured_gather_launch captured_result)

lemma prepare_order: "triple order_ok (prepare ds padded cap) (\<lambda>u. order_ok) order_ok"
proof -
  have "triple order_ok (c_update (\<lambda>rt. rt\<lparr>rt_dtypes := rt_dtypes rt @ ds, rt_gather_ready := True\<rparr>)) (\<lambda>u. order_ok) order_ok"
    by (rule triple_update) (auto simp: dead_def poisoned_def intro: order_same)
  then show ?thesis
    unfolding prepare_def by (intro triple_then [where R = order_ok] captured_ops captured_when)
qed

section \<open>Steps of a runtime\<close>

text \<open>
  What can happen to a runtime: a call, eager or captured, a wait that times out, a proxy that dies, closing, and a graph
  capture, which \<open>torch.cuda.graph\<close> starts with a synchronisation of the device. No eager collective runs between the
  entry of a capture and its exit.
\<close>

inductive runtime_step :: "runtime \<Rightarrow> runtime \<Rightarrow> bool" where
  step_reduce: "runtime_step rt (fst (all_reduce cap cur t out fresh lost rt))"
| step_gather: "runtime_step rt (fst (all_gather cap cur t axis out lost rt))"
| step_prepare: "runtime_step rt (fst (prepare ds padded cap rt))"
| step_lost: "runtime_step rt (fst (observe n rt))"
| step_proxy: "runtime_step rt (rt\<lparr>rt_failed := True\<rparr>)"
| step_close: "runtime_step rt (close_runtime rt)"
| step_enter: "runtime_step rt (enter_capture (rt\<lparr>rt_log := rt_log rt @ [A_sync]\<rparr>))"
| step_exit: "rt_last rt = None \<Longrightarrow> runtime_step rt (exit_capture rt)"

inductive_cases runtime_stepE: "runtime_step rt s"

lemma order_dead: "launches_ordered (rt_log s) \<Longrightarrow> dead s \<Longrightarrow> order_ok s"
  by (simp add: order_ok_def)

lemma observe_order: "order_ok rt \<Longrightarrow> order_ok (fst (observe n rt))"
  by (auto simp: observe_def c_update_def order_ok_def dead_def poisoned_def tail_ok_def)

lemma step_order:
  assumes "runtime_step rt s" and "order_ok rt"
  shows "order_ok s"
  using assms
proof (induction rule: runtime_step.induct)
  case (step_reduce rt cap cur t out fresh lost)
  then show ?case
    using triple_fst [OF reduce_eager] triple_fst [OF reduce_captured] by (cases cap) auto
next
  case (step_gather rt cap cur t axis out lost)
  then show ?case
    using triple_fst [OF gather_eager] triple_fst [OF gather_captured] by (cases cap) auto
next
  case (step_prepare rt ds padded cap)
  then show ?case by (rule triple_fst [OF prepare_order])
next
  case (step_lost rt n)
  then show ?case by (rule observe_order)
next
  case (step_proxy rt)
  then show ?case by (auto simp: order_ok_def dead_def poisoned_def tail_ok_def)
next
  case (step_close rt)
  then show ?case
    by (auto simp: close_runtime_def dead_def order_ok_def ordered_append)
next
  case (step_enter rt)
  then show ?case
    by (auto simp: enter_capture_def order_ok_def tail_ok_def dead_def poisoned_def ordered_append synced_sync)
next
  case (step_exit rt)
  then show ?case
    by (auto simp: exit_capture_def order_ok_def tail_ok_def dead_def poisoned_def)
qed

lemma new_order: "order_ok (new_runtime world r found)"
  by (simp add: new_runtime_def order_ok_def tail_ok_def launches_ordered_def synced_def no_launch_def)

text \<open>
  C9. Over any sequence of calls, captures, time-outs and failures of a runtime that set-up made, every collective that was
  launched happens before every one launched later, whatever streams they are on.
\<close>

theorem collectives_ordered:
  assumes "runtime_step\<^sup>*\<^sup>* (new_runtime world r found) rt"
    and "i < j" and "j < length (rt_log rt)" and "is_launch (rt_log rt ! i)" and "is_launch (rt_log rt ! j)"
  shows "happens_before (rt_log rt) i j"
proof -
  have "order_ok rt"
    using assms(1) by (induction rule: rtranclp_induct) (auto intro: new_order step_order)
  with assms(2-) show ?thesis by (auto simp: order_ok_def launches_ordered_def)
qed


section \<open>A runtime to try\<close>

definition demo_spec :: "nat \<Rightarrow> rank_spec" where
  "demo_spec rank =
     \<lparr>rk_rank = rank, rk_device = 0, rk_max = 64, rk_gather = 64, rk_threads = 32, rk_blocks = 2, rk_env = Map.empty,
      rk_hca_arg = [''mlx5_0''], rk_gid_arg = Some 3, rk_devices = (\<lambda>g. []), rk_abi = 3, rk_direct = True, rk_epoch = 1000,
      rk_proxy_error = None, rk_start_error = None\<rparr>"

definition demo_shard :: "nat \<Rightarrow> gpu_tensor" where
  "demo_shard ptr =
     \<lparr>gt_dtype = ''float16'', gt_elem = 2, gt_shape = [2, 8], gt_ptr = ptr, gt_cuda = True, gt_device = 0, gt_contiguous = True,
      gt_special = False, gt_bytes = []\<rparr>"

definition demo_runtime :: runtime where
  "demo_runtime = new_runtime 2 (demo_spec 0) (20000000, [''mlx5_0''], 4096,
     \<lparr>rg_flag_stride = 128, rg_slots = 2, rg_ctrl = 25600, rg_flag = 16384, rg_recv = 0, rg_send = 17408, rg_total = 25728\<rparr>)"

lemmas run_simps =
  c_ret_def c_fail_def c_bind_def c_then_def c_when_def c_ask_def c_update_def c_log_def check_health_def observe_def
  order_stream_def mark_stream_def put_op_def put_launch_def reduce_launcher_def gather_launcher_def aligned_scratch_def
  gather_scratch_def all_reduce_def all_gather_def launch_gather_def padded_result_def reshape_is_view_def poisoned_def

lemmas demo_simps = demo_runtime_def new_runtime_def demo_spec_def demo_shard_def gt_nbytes_def should_allreduce_def
  should_all_gather_def supported_dtypes_def reduce_out_ok_def gather_out_ok_def normalize_dim_def direct_gather_layout_def outer_of_def
  align_up_def

text \<open>Two calls on streams 1 and 2, and their results.\<close>

definition demo_reduces :: runtime where
  "demo_reduces = fst (all_reduce None 2 (demo_shard 8) None 64 0 (fst (all_reduce None 1 (demo_shard 8) None 64 0 demo_runtime)))"

definition demo_gathers :: runtime where
  "demo_gathers = fst (all_gather None 2 (demo_shard 8) 0 None 0 (fst (all_gather None 1 (demo_shard 8) 0 None 0 demo_runtime)))"

lemma demo_reduces_log:
  "\<exists>l1 l2. rt_log demo_reduces =
     [A_op 1 (Stage Align_in), A_op 1 (Launch l1), A_record 1, A_op 2 (Stage Align_in), A_wait 2, A_op 2 (Launch l2), A_record 2] \<and>
     la_src l1 = Some Align_in"
  by (simp add: demo_reduces_def run_simps demo_simps launch_of_def counter_addresses_def Let_def)

lemma collectives_ordered_witness:
  "happens_before (rt_log demo_reduces) 1 5"
proof -
  obtain l1 l2 where log: "rt_log demo_reduces =
     [A_op 1 (Stage Align_in), A_op 1 (Launch l1), A_record 1, A_op 2 (Stage Align_in), A_wait 2, A_op 2 (Launch l2), A_record 2]"
    using demo_reduces_log by auto
  have "runtime_step\<^sup>*\<^sup>* demo_runtime demo_reduces"
    unfolding demo_reduces_def by (meson r_into_rtranclp rtranclp.rtrancl_into_rtrancl step_reduce)
  from collectives_ordered [OF this [unfolded demo_runtime_def], of 1 5] log show ?thesis by simp
qed

section \<open>The scratch is not covered\<close>







text \<open>What a call that returned went through.\<close>

lemma call_returned [simp]:
  "snd (c_ret x rt) = Inr h \<longleftrightarrow> h = x"
  "snd (c_fail e rt) \<noteq> Inr h"
  "snd (c_ask q rt) = Inr y \<longleftrightarrow> q rt = Inr y"
  "fst (c_ask q rt) = rt"
  "fst (c_ret x rt) = rt"
  by (auto simp: c_ret_def c_fail_def c_ask_def)

lemma bind_returned: "snd (c_bind m f rt) = Inr h \<longleftrightarrow> (\<exists>x. snd (m rt) = Inr x \<and> snd (f x (fst (m rt))) = Inr h)"
  by (auto simp: c_bind_def split: prod.splits sum.splits)

lemma then_returned: "snd (c_then m n rt) = Inr h \<longleftrightarrow> (\<exists>x. snd (m rt) = Inr x) \<and> snd (n (fst (m rt))) = Inr h"
  by (auto simp: c_then_def bind_returned)

lemma admitted_axis:
  assumes "should_all_gather rt t axis = Inr True"
  shows "gt_shape t \<noteq> [] \<and> (nat (normalize_dim t axis) = 0 \<or> Suc (nat (normalize_dim t axis)) = length (gt_shape t))"
  using assms by (auto simp: should_all_gather_def split: if_splits)

lemma outer_last:
  assumes "gt_shape t \<noteq> []" and "Suc axis = length (gt_shape t)"
  shows "outer_of t axis * (last (gt_shape t) * gt_elem t) = gt_nbytes t"
proof -
  have "gt_shape t = take axis (gt_shape t) @ [last (gt_shape t)]"
    using assms by (metis append_butlast_last_id butlast_conv_take diff_Suc_1)
  then have "prod_list (gt_shape t) = prod_list (take axis (gt_shape t)) * last (gt_shape t)"
    by (metis prod_list.append prod_list.Cons prod_list.Nil mult.right_neutral)
  then show ?thesis by (simp add: outer_of_def gt_nbytes_def)
qed

lemma align_up_same: "align_up n 16 = n \<longleftrightarrow> n mod 16 = 0"
  by (auto simp: align_up_def) (metis mod_mult_self2_is_0 mult.commute)+

lemma view_not_direct:
  assumes "should_all_gather rt t axis = Inr True" and "reshape_is_view t (nat (normalize_dim t axis))"
  shows "direct_gather_layout t (nat (normalize_dim t axis)) \<longleftrightarrow> gt_ptr t mod 16 = 0"
  using assms(2) admitted_axis [OF assms(1)] outer_last [of t "nat (normalize_dim t axis)"]
  by (auto simp: reshape_is_view_def align_up_same direct_gather_layout_def)

lemma padded_result_home:
  "snd (padded_result cap cur t axis out rt) = Inr h \<Longrightarrow> h = In_scratch \<longleftrightarrow> out = None \<and> reshape_is_view t axis"
  by (auto simp: padded_result_def then_returned split: if_splits)

text \<open>
  The result of an eager all-gather is still in the runtime's scratch exactly when no output was passed, the input is
  at a misaligned address, its size is a multiple of 16 bytes and no index precedes the gathered one.
\<close>
lemma scratch_home:
  assumes "snd (all_gather None cur t axis out lost rt) = Inr h"
  shows "h = In_scratch \<longleftrightarrow>
    out = None \<and> gt_ptr t mod 16 \<noteq> 0 \<and> gt_nbytes t mod 16 = 0 \<and> outer_of t (nat (normalize_dim t axis)) = 1"
proof -
  let ?axis = "nat (normalize_dim t axis)"
  have ok: "should_all_gather rt t axis = Inr True"
    using assms by (auto simp: all_gather_def then_returned bind_returned check_health_def split: if_splits)
  have "h = In_scratch \<longleftrightarrow> out = None \<and> \<not> direct_gather_layout t ?axis \<and> reshape_is_view t ?axis"
    using assms padded_result_home
    by (fastforce simp: all_gather_def then_returned bind_returned Let_def split: if_splits option.splits)
  with view_not_direct [OF ok] show ?thesis
    by (auto simp: reshape_is_view_def align_up_same)
qed

text \<open>A padded gather that returns has launched a kernel that writes the gathered scratch.\<close>

definition launched_into :: "scratch \<Rightarrow> nat \<Rightarrow> act list \<Rightarrow> bool" where
  "launched_into b s L \<longleftrightarrow> (\<exists>l. A_op s (Launch l) \<in> set L \<and> la_dst l = Some b)"

lemma launch_dst [simp]: "la_dst (launch_of rt n a b) = b" "la_src (launch_of rt n a b) = a"
  by (simp_all add: launch_of_def Let_def counter_addresses_def)

lemma padded_launches:
  assumes "all_gather None cur t axis out lost rt = (rt2, Inr h)" and "gt_ptr t mod 16 \<noteq> 0"
  shows "\<exists>M. rt_log rt2 = rt_log rt @ M \<and> launched_into Gather_out cur M"
  using assms
  by (auto simp: run_simps direct_gather_layout_def launched_into_def Let_def split: if_splits sum.splits option.splits)

text \<open>
  C37. So the tensor such a gather returns does not keep its contents: when an eager all-gather of a misaligned shard, of a
  multiple of 16 bytes and with no index before the gathered one, is followed by another of a misaligned shard, the first
  result is in the gathered scratch, and the second call has launched a kernel that writes that scratch.
\<close>

theorem returned_scratch_overwritten:
  assumes "all_gather None cur t axis None lost rt = (rt1, Inr h)"
    and "gt_ptr t mod 16 \<noteq> 0" and "gt_nbytes t mod 16 = 0" and "outer_of t (nat (normalize_dim t axis)) = 1"
    and "all_gather None cur2 t2 axis2 out2 lost2 rt1 = (rt2, Inr h2)" and "gt_ptr t2 mod 16 \<noteq> 0"
  shows "h = In_scratch \<and> (\<exists>M. rt_log rt2 = rt_log rt1 @ M \<and> launched_into Gather_out cur2 M)"
  using scratch_home [of cur t axis None lost rt h] padded_launches [OF assms(5,6)] assms by simp

lemma returned_scratch_overwritten_witness:
  "\<exists>rt1 rt2 h2. all_gather None 1 (demo_shard 8) 0 None 0 demo_runtime = (rt1, Inr In_scratch) \<and>
     all_gather None 1 (demo_shard 24) 0 None 0 rt1 = (rt2, Inr h2) \<and>
     (\<exists>M. rt_log rt2 = rt_log rt1 @ M \<and> launched_into Gather_out 1 M)"
proof -
  have a: "\<exists>rt1. all_gather None 1 (demo_shard 8) 0 None 0 demo_runtime = (rt1, Inr In_scratch)"
    by (simp add: run_simps demo_simps)
  then obtain rt1 where 1: "all_gather None 1 (demo_shard 8) 0 None 0 demo_runtime = (rt1, Inr In_scratch)" by blast
  have "\<exists>rt2 h2. all_gather None 1 (demo_shard 24) 0 None 0 (fst (all_gather None 1 (demo_shard 8) 0 None 0 demo_runtime)) = (rt2, Inr h2)"
    by (simp add: run_simps demo_simps)
  then obtain rt2 h2 where 2: "all_gather None 1 (demo_shard 24) 0 None 0 rt1 = (rt2, Inr h2)" using 1 by auto
  have "gt_ptr (demo_shard 8) mod 16 \<noteq> 0" "gt_nbytes (demo_shard 8) mod 16 = 0"
    "outer_of (demo_shard 8) (nat (normalize_dim (demo_shard 8) 0)) = 1" "gt_ptr (demo_shard 24) mod 16 \<noteq> 0"
    by (simp_all add: demo_simps)
  from returned_scratch_overwritten [OF 1 this(1,2,3) 2 this(4)] 1 2 show ?thesis by blast
qed

end
