(* ===== verification/Roce_Setup.thy ===== *)
theory Roce_Setup
  imports Roce_Order
begin

text \<open>
  The set-up of the RoCE runtime: which block limits pass its check, where the kernels may reach in the pinned region,
  and that the ranks come out of the two exchanges together.
\<close>

unbundle bit_operations_syntax

section \<open>Block limits\<close>

lemma and_pred_rec:
  fixes m :: int
  shows "(2 * m) AND (2 * m - 1) = 2 * (m AND (m - 1))" and "(2 * m + 1) AND (2 * m) = 2 * m"
proof -
  have "(2 * m - 1) div 2 = m - 1" "odd (2 * m - 1)" by simp_all
  then show "(2 * m) AND (2 * m - 1) = 2 * (m AND (m - 1))"
    by (subst and_rec) simp
  show "(2 * m + 1) AND (2 * m) = 2 * m"
    by (subst and_rec) simp
qed

lemma power_of_two_rec: "0 < m \<Longrightarrow> power_of_two (2 * m) = power_of_two m" "0 < m \<Longrightarrow> \<not> power_of_two (2 * m + 1)"
  using and_pred_rec [of m] by (auto simp: power_of_two_def)

lemma power_of_two_nat: "0 < n \<Longrightarrow> power_of_two (int n) = (\<exists>k. n = 2 ^ k)"
proof (induction n rule: less_induct)
  case (less n)
  consider m where "n = 2 * m" "0 < m" | "n = 1" | m where "n = 2 * m + 1" "0 < m"
    using less.prems by (metis One_nat_def add.commute add_0 gr0I evenE oddE mult_0_right plus_1_eq_Suc)
  then show ?case
  proof cases
    case 1
    have "power_of_two (int n) = power_of_two (int m)"
      using power_of_two_rec(1) [of "int m"] 1 by simp
    also have "\<dots> = (\<exists>k. m = 2 ^ k)" using less.IH [of m] 1 by simp
    also have "\<dots> = (\<exists>k. n = 2 ^ k)"
    proof
      assume "\<exists>k. m = 2 ^ k"
      then obtain k where "m = 2 ^ k" by blast
      then have "n = 2 ^ Suc k" using 1 by simp
      then show "\<exists>k. n = 2 ^ k" by blast
    next
      assume "\<exists>k. n = 2 ^ k"
      then obtain k where k: "n = 2 ^ k" by blast
      with 1 obtain j where "k = Suc j" by (cases k) auto
      with k 1 show "\<exists>k. m = 2 ^ k" by auto
    qed
    finally show ?thesis .
  next
    case 2
    have "power_of_two (int n)" using 2 by (simp add: power_of_two_def)
    moreover have "n = 2 ^ 0" using 2 by simp
    ultimately show ?thesis by blast
  next
    case 3
    have "\<not> power_of_two (int n)" using power_of_two_rec(2) [of "int m"] 3 by (simp add: add.commute)
    moreover have "n \<noteq> 2 ^ k" for k using 3 by (cases k) (auto, presburger)
    ultimately show ?thesis by blast
  qed
qed

lemma power_of_two_iff: "power_of_two n \<longleftrightarrow> (\<exists>k. n = 2 ^ k)"
proof (cases "0 < n")
  case True
  then obtain m where m: "n = int m" "0 < m" using zero_less_imp_eq_int by auto
  have "n = 2 ^ k \<longleftrightarrow> m = 2 ^ k" for k
    unfolding m(1) using of_nat_eq_iff [of m "2 ^ k", where ?'a = int] by simp
  then show ?thesis using power_of_two_nat [OF m(2)] m(1) by simp
next
  case False
  have "n \<noteq> 2 ^ k" for k
  proof -
    have "(0 :: int) < 2 ^ k" by simp
    with False show ?thesis by linarith
  qed
  with False show ?thesis by (auto simp: power_of_two_def)
qed

section \<open>The counters of a launch\<close>

lemma accepted_limit:
  assumes "local_checks world r = Inr found" and "rk_blocks r < 2 ^ 32"
  obtains k where "k < 32" and "nat (rk_blocks r) = 2 ^ k"
proof -
  have "power_of_two (rk_blocks r)"
    using assms(1) by (simp add: local_checks_def split: if_splits)
  then obtain k where k: "rk_blocks r = 2 ^ k" by (auto simp: power_of_two_iff)
  have "(2 :: int) ^ k < 2 ^ 32" using assms(2) unfolding k .
  then have "k < 32" by (rule power_less_imp_less_exp [rotated]) simp
  moreover have "nat (rk_blocks r) = 2 ^ k" by (simp add: k nat_power_eq)
  ultimately show ?thesis by (rule that)
qed

lemma launch_grid:
  "la_grid (launch_of rt n a b) = grid_blocks (n div 16) (rt_threads rt) (rt_blocks rt)"
  "la_stage (launch_of rt n a b) = fst (counter_addresses (rt_epoch rt) (bit_length (rt_blocks rt)) (la_grid (launch_of rt n a b)))"
  "la_tail (launch_of rt n a b) = snd (counter_addresses (rt_epoch rt) (bit_length (rt_blocks rt)) (la_grid (launch_of rt n a b)))"
  by (auto simp: launch_of_def Let_def split: prod.splits)

text \<open>
  C33. With every block limit that set-up accepts, in each launch exactly the last of the grid's blocks to arrive sees itself
  as the last, also when the free-running 32-bit counter wraps; a launch of another size never counts on the words of
  this one unless it has the same grid, and no stage counter is a tail counter.
\<close>

theorem launch_counters_sound:
  assumes "local_checks world r = Inr found" and "rk_blocks r < 2 ^ 32"
    and "l = launch_of (new_runtime world r found) n a b" and "l' = launch_of (new_runtime world r found) n' a' b'"
    and "unat c mod la_grid l = 0"
  shows "arrivals (la_grid l) (la_grid l) c = (c + of_nat (la_grid l), replicate (la_grid l - 1) False @ [True]) \<and>
    unat (c + of_nat (la_grid l)) mod la_grid l = 0 \<and> la_stage l < la_tail l' \<and>
    (la_stage l = la_stage l' \<longleftrightarrow> la_grid l = la_grid l') \<and> (la_tail l = la_tail l' \<longleftrightarrow> la_grid l = la_grid l')"
proof -
  obtain k where k: "k < 32" "nat (rk_blocks r) = 2 ^ k" using accepted_limit [OF assms(1,2)] .
  let ?rt = "new_runtime world r found"
  have blocks: "rt_blocks ?rt = 2 ^ k" by (simp add: new_runtime_def k(2))
  have grid: "la_grid l = grid_blocks (n div 16) (rt_threads ?rt) (2 ^ k)" "la_grid l' = grid_blocks (n' div 16) (rt_threads ?rt) (2 ^ k)"
    using assms(3,4) launch_grid(1) blocks by simp_all
  obtain j where j: "j \<le> k" "la_grid l = 2 ^ j" using grid_power [of k "n div 16" "rt_threads ?rt"] grid(1) by auto
  obtain j' where j': "j' \<le> k" "la_grid l' = 2 ^ j'" using grid_power [of k "n' div 16" "rt_threads ?rt"] grid(2) by auto
  have same: "la_grid l = la_grid l' \<longleftrightarrow> j = j'" using j j' by simp
  have "la_stage l = fst (counter_addresses (rt_epoch ?rt) (bit_length (2 ^ k)) (2 ^ j))"
    "la_tail l = snd (counter_addresses (rt_epoch ?rt) (bit_length (2 ^ k)) (2 ^ j))"
    "la_stage l' = fst (counter_addresses (rt_epoch ?rt) (bit_length (2 ^ k)) (2 ^ j'))"
    "la_tail l' = snd (counter_addresses (rt_epoch ?rt) (bit_length (2 ^ k)) (2 ^ j'))"
    using assms(3,4) launch_grid(2,3) blocks j(2) j'(2) by metis+
  moreover note counters_disjoint [OF j(1) j'(1), of "rt_epoch ?rt"] counters_disjoint [OF j'(1) j(1), of "rt_epoch ?rt"]
  ultimately show ?thesis
    using last_block_unique [OF k(1) grid(1) assms(5)] same by auto
qed

lemma demo_checks:
  "\<exists>found. local_checks 2 (demo_spec 0) = Inr found"
  by (simp add: local_checks_def demo_spec_def power_of_two_def bind_r_def roce_env_int.simps region_layout_def align_up_def Let_def)

lemma launch_counters_sound_witness:
  "\<exists>found. local_checks 2 (demo_spec 0) = Inr found \<and>
    la_stage (launch_of (new_runtime 2 (demo_spec 0) found) 64 None None) < la_tail (launch_of (new_runtime 2 (demo_spec 0) found) 2048 None None)"
proof -
  obtain found where f: "local_checks 2 (demo_spec 0) = Inr found" using demo_checks by blast
  have "rk_blocks (demo_spec 0) < 2 ^ 32" by (simp add: demo_spec_def)
  from launch_counters_sound [OF f this refl refl, where n = 64 and a = None and b = None and n' = 2048 and a' = None and b' = None and c = 0] f
  show ?thesis by auto
qed

section \<open>The pinned region\<close>

lemma slot_index:
  fixes a b :: nat
  assumes "a < n" and "b < m"
  shows "a * m + b < n * m"
proof -
  have "a * m + b < Suc a * m" using assms(2) by simp
  also have "\<dots> \<le> n * m" by (rule mult_le_mono1) (use assms(1) in simp)
  finally show ?thesis .
qed

lemma block_end: "i < n \<Longrightarrow> i * b + b \<le> n * (b::nat)"
  using mult_le_mono1 [of "Suc i" n b] by (simp add: add.commute)

text \<open>
  A layout that is accepted keeps the kernels inside the pinned region: the payload a kernel reads of any rank and either
  slot ends before the flags, every flag word lies between the payloads and the send slots, and the region ends below
  2^64.
\<close>

lemma kernel_addresses_in_region:
  assumes "region_layout world slot_bytes = Inr g" and "source < world" and "slot < 2" and "hca < hcas" and "hcas \<le> 2"
  shows "peer_slot_address g slot_bytes source slot + slot_bytes \<le> rg_flag g \<and>
    rg_flag g \<le> flag_address g hcas source slot hca \<and> flag_address g hcas source slot hca + rg_flag_stride g \<le> rg_send g \<and>
    rg_send g + rg_slots g * slot_bytes = rg_ctrl g \<and> rg_ctrl g < rg_total g \<and> rg_total g < 2 ^ 64"
proof -
  have g: "rg_recv g = 0" "rg_slots g = 2" "rg_flag_stride g = 128" "rg_flag g = world * 2 * slot_bytes"
    "rg_send g = world * 2 * slot_bytes + world * 2 * 2 * 128" "rg_ctrl g = rg_send g + 2 * slot_bytes"
    "rg_total g = rg_ctrl g + 128" "rg_total g < 2 ^ 64"
    using assms(1) by (auto simp: region_layout_def Let_def split: if_splits)
  have i: "source * 2 + slot < world * 2" using slot_index [OF assms(2,3)] .
  have j: "(source * 2 + slot) * hcas + hca < world * 2 * hcas" using slot_index [OF i assms(4)] .
  also have "\<dots> \<le> world * 2 * 2" using assms(5) by simp
  finally have "((source * 2 + slot) * hcas + hca) * 128 + 128 \<le> world * 2 * 2 * 128" by (rule block_end)
  moreover have "(source * 2 + slot) * slot_bytes + slot_bytes \<le> world * 2 * slot_bytes" using i by (rule block_end)
  ultimately show ?thesis
    using g by (simp add: peer_slot_address_def flag_address_def)
qed

section \<open>The exchanges\<close>

lemma checked_all_each:
  "checked_all world rs = Inr found \<Longrightarrow> list_all2 (\<lambda>r x. local_checks world r = Inr x) rs found"
  by (induction rs arbitrary: found) (auto simp: bind_r_def split: sum.splits)

lemma checked_all_member: "checked_all world rs = Inr found \<Longrightarrow> r \<in> set rs \<Longrightarrow> \<exists>x. local_checks world r = Inr x"
  by (induction rs arbitrary: found) (auto simp: bind_r_def split: sum.splits)

lemma no_failures_agree:
  assumes "setup_failures sts = []" and "s \<in> set sts" and "s' \<in> set sts"
  shows "snd s = snd s'"
proof -
  have "\<forall>i < length sts. snd (sts ! i) = snd (sts ! 0)"
    using assms(1) by (auto simp: setup_failures_def Let_def filter_empty_conv split: if_splits)
  with assms(2,3) show ?thesis by (metis in_set_conv_nth)
qed

text \<open>What the exchange makes equal on every rank.\<close>

definition shared_part :: "runtime \<Rightarrow> nat \<times> nat \<times> nat \<times> nat \<times> nat \<times> int \<times> nat" where
  "shared_part rt = (rt_world rt, rt_max rt, rt_gather_max rt, rt_threads rt, rt_blocks rt, rt_spin rt, length (rt_hcas rt))"

lemma shared_of_config:
  "config_of w r x = config_of w r' x' \<Longrightarrow> shared_part (new_runtime w r x) = shared_part (new_runtime w r' x')"
  by (auto simp: config_of_def new_runtime_def shared_part_def split: prod.splits)

text \<open>
  The set-up of the collective is uniform: when every rank reaches the exchanges, either all of them raise or all of
  them have a runtime, and then the runtimes agree on everything the protocol depends on.
\<close>
lemma setup_together:
  assumes "setup_group rs = Inr outs"
  shows "outs = replicate (length rs) (Inl RuntimeError) \<or>
    (\<exists>rts. outs = map Inr rts \<and> (\<forall>a \<in> set rts. \<forall>b \<in> set rts. shared_part a = shared_part b))"
proof -
  obtain found where found: "checked_all (length rs) rs = Inr found"
    using assms by (auto simp: setup_group_def bind_r_def split: sum.splits)
  note each = checked_all_each [OF found]
  define sts where "sts = map2 (\<lambda>r x. (rk_proxy_error r, config_of (length rs) r x)) rs found"
  define vs where "vs = map rk_start_error rs"
  have outs: "outs = map (\<lambda>r. init_runtime (length rs) r sts vs) rs"
    using assms found by (simp add: setup_group_def bind_r_def sts_def vs_def)
  show ?thesis
  proof (cases "setup_failures sts = [] \<and> filter (\<lambda>v. v \<noteq> None) vs = []")
    case False
    have "init_runtime (length rs) r sts vs = Inl RuntimeError" if "r \<in> set rs" for r
    proof -
      obtain x where x: "local_checks (length rs) r = Inr x"
        using checked_all_member [OF found] \<open>r \<in> set rs\<close> by blast
      with False show ?thesis by (auto simp: init_runtime_def bind_r_def)
    qed
    then have "outs = map (\<lambda>r. Inl RuntimeError) rs" unfolding outs by simp
    then show ?thesis by (simp add: map_replicate_const)
  next
    case True
    define rts where "rts = map2 (new_runtime (length rs)) rs found"
    have "outs = map Inr rts"
      using each True by (intro nth_equalityI)
        (auto simp: outs rts_def list_all2_conv_all_nth init_runtime_def bind_r_def)
    moreover have "shared_part a = shared_part b" if ab: "a \<in> set rts" "b \<in> set rts" for a b
    proof -
      obtain r x where a: "a = new_runtime (length rs) r x" "(r, x) \<in> set (zip rs found)" using ab(1) by (auto simp: rts_def)
      obtain r' x' where b: "b = new_runtime (length rs) r' x'" "(r', x') \<in> set (zip rs found)" using ab(2) by (auto simp: rts_def)
      have "snd (rk_proxy_error r, config_of (length rs) r x) = snd (rk_proxy_error r', config_of (length rs) r' x')"
        using True a(2) b(2) by (intro no_failures_agree [of sts]) (auto simp: sts_def intro: rev_image_eqI)
      then show ?thesis by (auto simp: a(1) b(1) intro: shared_of_config)
    qed
    ultimately show ?thesis by blast
  qed
qed

end
