(* ===== verification/Roce_Adapter.thy ===== *)
theory Roce_Adapter
  imports Roce_Setup
begin

text \<open>
  The adapter that routes tensor-parallel collectives to the RoCE runtime (\<open>src/roce/glm_roce/adapter.py\<close>), the patches
  of the device communicator (\<open>src/roce/glm_roce/install.py\<close>) and the rule that sends large row gathers to NCCL
  (\<open>src/overlay/glm_roce_gather_route.py\<close>). Messages are left out. The A/B harness, when armed, is a function.
\<close>

section \<open>Byte sizes\<close>

definition number_of :: "string \<Rightarrow> nat" where
  "number_of ds = foldl (\<lambda>acc c. 10 * acc + digit_val c) 0 ds"

text \<open>An optional character of a pattern.\<close>

definition opt_char :: "string \<Rightarrow> string \<Rightarrow> string" where
  "opt_char cs s = (case s of [] \<Rightarrow> [] | c # r \<Rightarrow> if c \<in> set cs then r else s)"

definition multipliers :: "(string \<times> int) list" where
  "multipliers =
     [('''', 1), (''b'', 1), (''k'', 2 ^ 10), (''kb'', 2 ^ 10), (''kib'', 2 ^ 10), (''m'', 2 ^ 20), (''mb'', 2 ^ 20), (''mib'', 2 ^ 20),
      (''g'', 2 ^ 30), (''gb'', 2 ^ 30), (''gib'', 2 ^ 30), (''t'', 2 ^ 40), (''tb'', 2 ^ 40), (''tib'', 2 ^ 40)]"

definition parse_byte_size :: "string \<Rightarrow> int result" where
  "parse_byte_size v =
     (case signed (strip (lower v)) of (neg, r) \<Rightarrow>
        let ds = takeWhile is_digit r; suffix = lstrip (dropWhile is_digit r)
        in if ds = [] \<or> opt_char ''b'' (opt_char ''i'' (opt_char ''kmgt'' suffix)) \<noteq> [] then Inl ValueError
           else case map_of multipliers suffix of
                  None \<Rightarrow> Inl ValueError
                | Some m \<Rightarrow> Inr ((if neg then - int (number_of ds) else int (number_of ds)) * m))"

definition read_limits :: "env \<Rightarrow> (int \<times> int) result" where
  "read_limits env =
     bind_r (parse_byte_size (case env ''GLM_ROCE_MAX_SIZE'' of None \<Rightarrow> ''4MiB'' | Some v \<Rightarrow> v)) (\<lambda>max_size.
     bind_r (parse_byte_size (case env ''GLM_ROCE_GATHER_MAX_SIZE'' of None \<Rightarrow> ''16MiB'' | Some v \<Rightarrow> v)) (\<lambda>max_gather.
       if max_size < 16 \<or> max_size mod 16 \<noteq> 0 then Inl ValueError
       else if max_gather < 0 \<or> max_gather mod 16 \<noteq> 0 then Inl ValueError
       else Inr (max_size, max_gather)))"

definition require_enabled :: "env \<Rightarrow> bool" where
  "require_enabled env = (strip (case env ''GLM_ROCE_REQUIRE'' of None \<Rightarrow> ''1'' | Some v \<Rightarrow> v) \<noteq> ''0'')"

section \<open>Construction\<close>

record adapter =
  ad_disabled :: bool
  ad_max :: int
  ad_gather :: int
  ad_runtime :: "runtime option"
  ad_announced :: bool
  ad_announced_gather :: bool
  ad_health_logged :: bool
  ad_gave_up :: bool

definition new_adapter :: adapter where
  "new_adapter =
     \<lparr>ad_disabled = True, ad_max = 0, ad_gather = 0, ad_runtime = None, ad_announced = False, ad_announced_gather = False,
      ad_health_logged = False, ad_gave_up = False\<rparr>"

text \<open>What a rank finds: the package and its API version, the device probe, its own set-up, and whether a launcher failed to compile.\<close>

record adapter_rank =
  ar_env :: env
  ar_importable :: bool
  ar_api :: "int option"
  ar_supported :: "bool result"
  ar_spec :: rank_spec
  ar_prepare_fails :: bool

definition give_up :: "env \<Rightarrow> adapter result" where
  "give_up env = (if require_enabled env then Inl RuntimeError else Inr (new_adapter\<lparr>ad_gave_up := True\<rparr>))"

text \<open>Whether the rank has a reason not to take part, and its limits.\<close>

definition local_capability :: "adapter_rank \<Rightarrow> bool \<times> (int \<times> int) option" where
  "local_capability r =
     (if \<not> ar_importable r then (True, None)
      else if ar_api r \<noteq> Some 1 then (True, None)
      else case ar_supported r of
             Inl e \<Rightarrow> (True, None)
           | Inr False \<Rightarrow> (True, None)
           | Inr True \<Rightarrow> (case read_limits (ar_env r) of Inl e \<Rightarrow> (True, None) | Inr l \<Rightarrow> (False, Some l)))"

definition exchange_vote :: "(bool \<times> (int \<times> int) option) list \<Rightarrow> bool" where
  "exchange_vote votes =
     (if filter fst votes \<noteq> [] then True else filter (\<lambda>v. snd v \<noteq> snd (votes ! 0)) votes \<noteq> [])"

definition limited_spec :: "adapter_rank \<Rightarrow> rank_spec" where
  "limited_spec r =
     (case snd (local_capability r) of
        None \<Rightarrow> ar_spec r
      | Some (m, g) \<Rightarrow> (ar_spec r)\<lparr>rk_max := m, rk_gather := g, rk_hca_arg := [], rk_gid_arg := None, rk_threads := 512, rk_blocks := 8, rk_env := ar_env r\<rparr>)"

definition prepared :: "runtime \<Rightarrow> runtime" where
  "prepared rt = fst (prepare [''bfloat16'', ''float16'', ''float32''] False None rt)"

text \<open>One rank from its construction to the exchange of errors, given what its constructor gave.\<close>

definition own_error :: "adapter_rank \<Rightarrow> runtime result \<Rightarrow> bool" where
  "own_error r built = (is_err built \<or> ar_prepare_fails r)"

definition finish_init :: "adapter_rank \<Rightarrow> runtime result \<Rightarrow> bool list \<Rightarrow> adapter result" where
  "finish_init r built errors =
     (if True \<in> set errors then give_up (ar_env r)
      else case (built, snd (local_capability r)) of
             (Inr rt, Some (m, g)) \<Rightarrow>
               Inr (new_adapter\<lparr>ad_disabled := False, ad_max := m, ad_gather := g, ad_runtime := Some (prepared rt)\<rparr>)
           | _ \<Rightarrow> give_up (ar_env r))"

text \<open>
  The whole group; \<open>None\<close> when some ranks, but not all, fail before the first exchange of the runtime's constructor, so
  that the ranks meet in different exchanges.
\<close>

definition adapter_group :: "bool \<Rightarrow> bool list \<Rightarrow> adapter_rank list \<Rightarrow> adapter result list option" where
  "adapter_group device_group same_node rs =
     (if \<not> device_group then Some (map (\<lambda>r. give_up (ar_env r)) rs)
      else if list_all (\<lambda>b. b) same_node then Some (map (\<lambda>r. Inr new_adapter) rs)
      else if exchange_vote (map local_capability rs) then Some (map (\<lambda>r. give_up (ar_env r)) rs)
      else
        let specs = map limited_spec rs; checks = map (local_checks (length rs)) specs;
            finish = (\<lambda>built. map2 (\<lambda>r b. finish_init r b (map2 own_error rs built)) rs built)
        in if list_all is_err checks then Some (finish (map (\<lambda>c. Inl ValueError) checks))
           else case setup_group specs of Inl e \<Rightarrow> None | Inr built \<Rightarrow> Some (finish built))"

section \<open>Routing\<close>

type_synonym 'a acall = "adapter \<Rightarrow> adapter \<times> 'a result"

text \<open>A call of the runtime; without one Python raises on the attribute of \<open>None\<close>.\<close>

definition on_runtime :: "'a call \<Rightarrow> 'a acall" where
  "on_runtime m a =
     (case ad_runtime a of
        None \<Rightarrow> (a, Inl AttributeError)
      | Some rt \<Rightarrow> (case m rt of (rt1, x) \<Rightarrow> (a\<lparr>ad_runtime := Some rt1\<rparr>, x)))"

definition adapter_health :: "unit acall" where
  "adapter_health a =
     (if ad_disabled a \<or> ad_runtime a = None then (a, Inr ())
      else case on_runtime check_health a of
             (a1, Inl e) \<Rightarrow> (a1, Inl e)
           | (a1, Inr u) \<Rightarrow> (a1\<lparr>ad_health_logged := True\<rparr>, Inr ()))"

definition should_custom_ar :: "adapter \<Rightarrow> gpu_tensor \<Rightarrow> bool result" where
  "should_custom_ar a t =
     (if ad_disabled a then Inr False
      else case ad_runtime a of None \<Rightarrow> Inl AttributeError | Some rt \<Rightarrow> should_allreduce rt t)"

text \<open>The result says whether there is an output.\<close>

definition custom_all_reduce :: "nat option \<Rightarrow> nat \<Rightarrow> gpu_tensor \<Rightarrow> nat \<Rightarrow> nat \<Rightarrow> bool acall" where
  "custom_all_reduce cap cur t fresh lost a =
     (case should_custom_ar a t of
        Inl e \<Rightarrow> (a, Inl e)
      | Inr False \<Rightarrow> (a, Inr False)
      | Inr True \<Rightarrow>
          (case on_runtime (all_reduce cap cur t None fresh lost) (a\<lparr>ad_announced := True\<rparr>) of
             (a1, Inl e) \<Rightarrow> (a1, Inl e) | (a1, Inr u) \<Rightarrow> (a1, Inr True)))"

definition adapter_should_gather :: "adapter \<Rightarrow> gpu_tensor \<Rightarrow> int \<Rightarrow> bool result" where
  "adapter_should_gather a t axis =
     (if ad_disabled a \<or> ad_gather a \<le> 0 then Inr False
      else case ad_runtime a of None \<Rightarrow> Inl AttributeError | Some rt \<Rightarrow> should_all_gather rt t axis)"

definition adapter_gather :: "nat option \<Rightarrow> nat \<Rightarrow> gpu_tensor \<Rightarrow> int \<Rightarrow> nat \<Rightarrow> gather_home acall" where
  "adapter_gather cap cur t axis lost a = on_runtime (all_gather cap cur t axis None lost) (a\<lparr>ad_announced_gather := True\<rparr>)"

definition adapter_enter_capture :: "unit acall" where
  "adapter_enter_capture a =
     (if ad_disabled a then (a, Inr ())
      else on_runtime (c_then (prepare [''bfloat16'', ''float16'', ''float32''] False None) (c_update enter_capture)) a)"

definition adapter_exit_capture :: "adapter \<Rightarrow> adapter" where
  "adapter_exit_capture a = (if ad_disabled a then a else a\<lparr>ad_runtime := map_option exit_capture (ad_runtime a)\<rparr>)"

text \<open>Closing also gives the runtime that was closed.\<close>

definition adapter_close :: "adapter \<Rightarrow> adapter \<times> runtime option" where
  "adapter_close a = (a\<lparr>ad_runtime := None, ad_disabled := True\<rparr>, map_option close_runtime (ad_runtime a))"

section \<open>Row gathers to NCCL\<close>

record gather_route =
  gr_above :: "int option"
  gr_routed :: nat
  gr_kept :: nat
  gr_logged :: bool

definition parse_bytes :: "string \<Rightarrow> int result" where
  "parse_bytes v =
     (let s = strip (lower v); ds = takeWhile is_digit s; rest = lstrip (dropWhile is_digit s);
          tail = opt_char ''kmg'' rest; unit_char = take (length rest - length tail) rest
      in if ds = [] \<or> opt_char ''b'' (opt_char ''i'' tail) \<noteq> [] then Inl ValueError
         else if tail \<noteq> [] \<and> unit_char = [] \<and> tail \<noteq> ''b'' then Inl ValueError
         else
           let n = int (number_of ds) *
             (if unit_char = [] then 1 else if unit_char = ''k'' then 2 ^ 10 else if unit_char = ''m'' then 2 ^ 20 else 2 ^ 30)
           in if n \<le> 0 then Inl ValueError else Inr n)"

text \<open>\<open>ab\<close> is \<open>glm_ab.env\<close> when the harness is armed.\<close>

definition raw_env :: "(string \<Rightarrow> string \<Rightarrow> string) option \<Rightarrow> env \<Rightarrow> string \<Rightarrow> string \<Rightarrow> string" where
  "raw_env ab env name d =
     (case ab of
        Some f \<Rightarrow> if f name d = [] then d else f name d
      | None \<Rightarrow> (case env name of None \<Rightarrow> d | Some v \<Rightarrow> v))"

definition switch_on :: "(string \<Rightarrow> string \<Rightarrow> string) option \<Rightarrow> env \<Rightarrow> bool" where
  "switch_on ab env =
     (lower (strip (raw_env ab env ''GLM_ROCE_AG_DIM0_NCCL'' ''0'')) \<notin> set ['''', ''0'', ''off'', ''false'', ''no''])"

definition above :: "env \<Rightarrow> gather_route \<Rightarrow> gather_route \<times> int result" where
  "above env g =
     (case gr_above g of
        Some n \<Rightarrow> (g, Inr n)
      | None \<Rightarrow>
          (case parse_bytes (case env ''GLM_ROCE_AG_DIM0_NCCL_ABOVE'' of None \<Rightarrow> ''4MiB'' | Some v \<Rightarrow> v) of
             Inl e \<Rightarrow> (g, Inl e) | Inr n \<Rightarrow> (g\<lparr>gr_above := Some n\<rparr>, Inr n)))"

definition row_gather :: "gpu_tensor \<Rightarrow> int \<Rightarrow> bool" where
  "row_gather t axis = (2 \<le> length (gt_shape t) \<and> normalize_dim t axis = 0)"

definition to_nccl :: "(string \<Rightarrow> string \<Rightarrow> string) option \<Rightarrow> env \<Rightarrow> gpu_tensor \<Rightarrow> int \<Rightarrow> gather_route \<Rightarrow> gather_route \<times> bool result" where
  "to_nccl ab env t axis g =
     (if \<not> row_gather t axis then (g, Inr False)
      else if \<not> switch_on ab env then (g, Inr False)
      else case above env g of (g1, Inl e) \<Rightarrow> (g1, Inl e) | (g1, Inr n) \<Rightarrow> (g1, Inr (n < int (gt_nbytes t))))"

text \<open>The wrapped \<open>should_all_gather\<close>; before \<open>_install\<close> it is the adapter's own.\<close>

definition routed_should_gather ::
  "(string \<Rightarrow> string \<Rightarrow> string) option \<Rightarrow> env \<Rightarrow> bool \<Rightarrow> adapter \<Rightarrow> gpu_tensor \<Rightarrow> int \<Rightarrow> gather_route \<Rightarrow> gather_route \<times> bool result" where
  "routed_should_gather ab env installed a t axis g =
     (if \<not> installed then (g, adapter_should_gather a t axis)
      else case to_nccl ab env t axis g of
             (g1, Inl e) \<Rightarrow> (g1, Inl e)
           | (g1, Inr True) \<Rightarrow> (g1\<lparr>gr_routed := gr_routed g1 + 1, gr_logged := True\<rparr>, Inr False)
           | (g1, Inr False) \<Rightarrow>
               ((if row_gather t axis then g1\<lparr>gr_kept := gr_kept g1 + 1\<rparr> else g1), adapter_should_gather a t axis))"

text \<open>\<open>register\<close>: the wrapper goes in when the process environment switches it on, after the threshold has been read.\<close>

definition register_route :: "env \<Rightarrow> gather_route \<Rightarrow> gather_route \<times> bool result" where
  "register_route env g =
     (if lower (strip (case env ''GLM_ROCE_AG_DIM0_NCCL'' of None \<Rightarrow> ''0'' | Some v \<Rightarrow> v)) \<in> set ['''', ''0'', ''off'', ''false'', ''no'']
      then (g, Inr False)
      else case above env g of (g1, Inl e) \<Rightarrow> (g1, Inl e) | (g1, Inr n) \<Rightarrow> (g1, Inr True))"

section \<open>The device communicator\<close>

definition is_tp_group :: "string \<Rightarrow> bool" where
  "is_tp_group name = (hd (split_on (CHR '':'') name) = ''tp'')"

text \<open>Whether the communicator makes an adapter.\<close>

definition makes_adapter :: "string \<Rightarrow> nat \<Rightarrow> bool \<Rightarrow> bool" where
  "makes_adapter name world active_slot = (is_tp_group name \<and> 1 < world \<and> \<not> active_slot)"

definition roce_comm_of :: "adapter option \<Rightarrow> adapter option" where
  "roce_comm_of comm = (case comm of None \<Rightarrow> None | Some a \<Rightarrow> if ad_disabled a then None else Some a)"

datatype backend = Roce | Nccl

definition comm_all_reduce :: "bool \<Rightarrow> nat option \<Rightarrow> nat \<Rightarrow> gpu_tensor \<Rightarrow> nat \<Rightarrow> nat \<Rightarrow> adapter option \<Rightarrow> adapter option \<times> backend result" where
  "comm_all_reduce extra cap cur t fresh lost comm =
     (case roce_comm_of comm of
        None \<Rightarrow> (comm, Inr Nccl)
      | Some a \<Rightarrow>
          if extra then (comm, Inr Nccl)
          else case should_custom_ar a t of
                 Inl e \<Rightarrow> (comm, Inl e)
               | Inr False \<Rightarrow> (comm, Inr Nccl)
               | Inr True \<Rightarrow>
                   (case custom_all_reduce cap cur t fresh lost a of
                      (a1, Inl e) \<Rightarrow> (Some a1, Inl e)
                    | (a1, Inr True) \<Rightarrow> (Some a1, Inr Roce)
                    | (a1, Inr False) \<Rightarrow> (Some a1, Inr Nccl)))"

definition comm_all_gather ::
  "(string \<Rightarrow> string \<Rightarrow> string) option \<Rightarrow> env \<Rightarrow> bool \<Rightarrow> nat option \<Rightarrow> nat \<Rightarrow> gpu_tensor \<Rightarrow> int \<Rightarrow> nat \<Rightarrow>
    adapter option \<times> gather_route \<Rightarrow> (adapter option \<times> gather_route) \<times> backend result" where
  "comm_all_gather ab env installed cap cur t axis lost st =
     (case st of (comm, g) \<Rightarrow>
        case roce_comm_of comm of
          None \<Rightarrow> ((comm, g), Inr Nccl)
        | Some a \<Rightarrow>
            let d = normalize_dim t axis
            in case routed_should_gather ab env installed a t d g of
                 (g1, Inl e) \<Rightarrow> ((comm, g1), Inl e)
               | (g1, Inr False) \<Rightarrow> ((comm, g1), Inr Nccl)
               | (g1, Inr True) \<Rightarrow>
                   (case adapter_gather cap cur t d lost a of
                      (a1, Inl e) \<Rightarrow> ((Some a1, g1), Inl e) | (a1, Inr h) \<Rightarrow> ((Some a1, g1), Inr Roce)))"

text \<open>The worker's guard after a step; \<open>passthrough\<close> is an intermediate result of a pipeline stage.\<close>

definition step_guard :: "bool \<Rightarrow> adapter option \<Rightarrow> adapter option \<times> unit result" where
  "step_guard passthrough comm =
     (if passthrough then (comm, Inr ())
      else case roce_comm_of comm of
             None \<Rightarrow> (comm, Inr ())
           | Some a \<Rightarrow> (case adapter_health a of (a1, x) \<Rightarrow> (Some a1, x)))"

definition comm_destroy :: "adapter option \<Rightarrow> adapter option \<times> runtime option" where
  "comm_destroy comm = (case comm of None \<Rightarrow> (None, None) | Some a \<Rightarrow> (None, snd (adapter_close a)))"

end
