(* ===== verification/Roce_Routing.thy ===== *)
theory Roce_Routing
  imports Roce_Adapter
begin

text \<open>
  What the adapter promises: the ranks of a group end its construction alike, they route alike, a failed runtime never
  falls back to NCCL, the row rule changes nothing but large row gathers, and the two parsers of byte sizes agree.
\<close>

section \<open>Byte sizes\<close>

lemma signed_digit: "s \<noteq> [] \<Longrightarrow> is_digit (hd s) \<Longrightarrow> signed s = (False, s)"
  by (cases s) (auto simp: signed_def is_digit_def)

lemma takeWhile_hd: "takeWhile P s \<noteq> [] \<Longrightarrow> s \<noteq> [] \<and> P (hd s)"
  by (cases s) (auto split: if_splits)

lemma opt_char_Nil: "opt_char cs s = [] \<longleftrightarrow> s = [] \<or> (\<exists>c. c \<in> set cs \<and> s = [c])"
  by (auto simp: opt_char_def split: list.splits)

lemma opt_char_cases: "opt_char cs s = s \<and> (s = [] \<or> hd s \<notin> set cs) \<or> (\<exists>c\<in>set cs. s = c # opt_char cs s)"
  by (cases s) (auto simp: opt_char_def)

lemma suffix_tail:
  assumes "opt_char ''b'' (opt_char ''i'' t) = []"
  shows "t \<in> {[], ''i'', ''b'', ''ib''}"
  using assms opt_char_cases [of "''i''" t] by (auto simp: opt_char_Nil)

lemma last_rest:
  fixes s :: string
  defines "r \<equiv> lstrip (dropWhile is_digit s)"
  assumes "takeWhile is_digit s \<noteq> []"
  shows "r \<noteq> [] \<Longrightarrow> last s = last r" and "r = [] \<Longrightarrow> is_digit (last s) \<or> is_ws (last s)"
proof -
  have s: "s = takeWhile is_digit s @ takeWhile is_ws (dropWhile is_digit s) @ r"
    unfolding r_def lstrip_def by simp
  show "r \<noteq> [] \<Longrightarrow> last s = last r" by (subst s) simp
  assume "r = []"
  then have "s = takeWhile is_digit s @ takeWhile is_ws (dropWhile is_digit s)" using s by simp
  then have "last s \<in> set (takeWhile is_digit s) \<or> last s \<in> set (takeWhile is_ws (dropWhile is_digit s))"
    using assms(2) by (metis Un_iff append_is_Nil_conv last_in_set set_append)
  then show "is_digit (last s) \<or> is_ws (last s)" by (auto dest: set_takeWhileD)
qed

text \<open>
  The two parsers of byte sizes agree: what the gather rule reads, the adapter reads as the same number of bytes, but for
  a unit written with a bare \<open>i\<close> (as in \<open>4Mi\<close>), which the gather rule accepts and the adapter rejects.
\<close>
lemma byte_parsers_agree:
  assumes "parse_bytes v = Inr n"
  shows "parse_byte_size v = (if last (strip (lower v)) = CHR ''i'' then Inl ValueError else Inr n)"
proof -
  define s where "s = strip (lower v)"
  define r where "r = lstrip (dropWhile is_digit s)"
  define t where "t = opt_char ''kmg'' r"
  have ds: "takeWhile is_digit s \<noteq> []" and "opt_char ''b'' (opt_char ''i'' t) = []"
    and shape: "t \<noteq> [] \<Longrightarrow> take (length r - length t) r = [] \<Longrightarrow> t = ''b''"
    using assms by (auto simp: parse_bytes_def Let_def s_def r_def t_def split: if_splits)
  then have t: "t \<in> {[], ''i'', ''b'', ''ib''}" by (intro suffix_tail)
  have r: "r = t \<or> (\<exists>c\<in>set ''kmg''. r = c # t)"
    using opt_char_cases [of "''kmg''" r] by (auto simp: t_def)
  have cases: "r \<in> {[], ''b'', ''k'', ''kb'', ''kib'', ''m'', ''mb'', ''mib'', ''g'', ''gb'', ''gib''} \<or> r \<in> {''ki'', ''mi'', ''gi''}"
  proof (cases "r = t")
    case True
    then have "t = [] \<or> t = ''b''" using shape by auto
    with True show ?thesis by auto
  next
    case False
    then obtain c where c: "c = CHR ''k'' \<or> c = CHR ''m'' \<or> c = CHR ''g''" "r = c # t" using r by auto
    from t have "t = [] \<or> t = ''i'' \<or> t = ''b'' \<or> t = ''ib''" by simp
    with c show ?thesis by (elim disjE) simp_all
  qed
  have sgn: "signed s = (False, s)" using takeWhile_hd [OF ds] by (intro signed_digit) auto
  have last: "last s = CHR ''i'' \<longleftrightarrow> r \<in> {''ki'', ''mi'', ''gi''}"
  proof (cases "r = []")
    case True
    then have "is_digit (last s) \<or> is_ws (last s)" using last_rest(2) [OF ds] by (simp add: r_def)
    then have "last s \<noteq> CHR ''i''" by (auto simp: is_digit_def is_ws_def)
    with True show ?thesis by simp
  next
    case False
    then have "last s = last r" using last_rest(1) [OF ds] by (simp add: r_def)
    with cases False show ?thesis by auto
  qed
  define N where "N = number_of (takeWhile is_digit s)"
  have size: "parse_byte_size v = (if opt_char ''b'' (opt_char ''i'' (opt_char ''kmgt'' r)) \<noteq> [] then Inl ValueError
      else case map_of multipliers r of None \<Rightarrow> Inl ValueError | Some m \<Rightarrow> Inr (int N * m))"
    using ds unfolding N_def parse_byte_size_def Let_def s_def [symmetric] sgn prod.case r_def [symmetric] by simp
  have unit_n: "n = int N * (if take (length r - length t) r = [] then 1 else if take (length r - length t) r = ''k'' then 2 ^ 10
      else if take (length r - length t) r = ''m'' then 2 ^ 20 else 2 ^ 30)"
    using assms unfolding parse_bytes_def Let_def s_def [symmetric] r_def [symmetric] t_def [symmetric] N_def [symmetric]
    by (simp split: if_split_asm)
  from cases show ?thesis
    unfolding s_def [symmetric] size last unit_n t_def
    by (elim disjE insertE emptyE) (simp_all add: opt_char_def multipliers_def)
qed

section \<open>Construction\<close>

lemma prepared_same [simp]:
  "rt_max (prepared rt) = rt_max rt" "rt_gather_max (prepared rt) = rt_gather_max rt" "rt_closed (prepared rt) = rt_closed rt"
  "rt_proxy (prepared rt) = rt_proxy rt" "rt_device (prepared rt) = rt_device rt" "shared_part (prepared rt) = shared_part rt"
  by (auto simp: prepared_def prepare_def run_simps shared_part_def)












section \<open>Routing\<close>














text \<open>
  C31. A collective that failed is fatal and never falls back: on an adapter that is on and whose runtime is poisoned, an
  all-reduce or all-gather that would take the RoCE route raises, launches nothing and leaves the runtime as it was, and
  the guard after the step raises too.
\<close>

theorem poisoned_never_falls_back:
  assumes "\<not> ad_disabled a" and "ad_runtime a = Some rt" and "poisoned rt"
    and "should_allreduce rt t = Inr True" and "snd (routed_should_gather ab env installed a u (normalize_dim u d) gr) = Inr True"
  shows "comm_all_reduce False cap cur t fresh lost (Some a) = (Some (a\<lparr>ad_announced := True\<rparr>), Inl RuntimeError) \<and>
    snd (comm_all_gather ab env installed cap cur u d lost (Some a, gr)) = Inl RuntimeError \<and>
    fst (fst (comm_all_gather ab env installed cap cur u d lost (Some a, gr))) = Some (a\<lparr>ad_announced_gather := True\<rparr>) \<and>
    step_guard False (Some a) = (Some a, Inl RuntimeError)"
proof -
  have red: "all_reduce cap cur t None fresh lost rt = (rt, Inl RuntimeError)"
    and gat: "all_gather cap cur u x None lost rt = (rt, Inl RuntimeError)" for x
    using assms(3) by (simp_all add: all_reduce_def all_gather_def c_then_def c_bind_def check_health_def)
  have same: "a\<lparr>ad_runtime := Some rt\<rparr> = a" "a\<lparr>ad_announced := True, ad_runtime := Some rt\<rparr> = a\<lparr>ad_announced := True\<rparr>"
    "a\<lparr>ad_announced_gather := True, ad_runtime := Some rt\<rparr> = a\<lparr>ad_announced_gather := True\<rparr>"
    using assms(2) by (cases a; simp)+
  obtain gr1 where g: "routed_should_gather ab env installed a u (normalize_dim u d) gr = (gr1, Inr True)"
    using assms(5) by (cases "routed_should_gather ab env installed a u (normalize_dim u d) gr") auto
  show ?thesis
    using assms(1-4) red gat same g
    by (simp add: comm_all_reduce_def comm_all_gather_def roce_comm_of_def should_custom_ar_def custom_all_reduce_def on_runtime_def
        adapter_gather_def step_guard_def adapter_health_def check_health_def)
qed

definition demo_adapter :: adapter where
  "demo_adapter = new_adapter\<lparr>ad_disabled := False, ad_max := 64, ad_gather := 64, ad_runtime := Some (demo_runtime\<lparr>rt_failed_seq := 7\<rparr>)\<rparr>"

definition demo_gr :: gather_route where
  "demo_gr = \<lparr>gr_above = None, gr_routed = 0, gr_kept = 0, gr_logged = False\<rparr>"

lemma poisoned_never_falls_back_witness:
  "snd (comm_all_gather None Map.empty False None 1 (demo_shard 16) 0 0 (Some demo_adapter, demo_gr)) = Inl RuntimeError"
proof -
  have "poisoned (demo_runtime\<lparr>rt_failed_seq := 7\<rparr>)" by (simp add: poisoned_def)
  moreover have "should_allreduce (demo_runtime\<lparr>rt_failed_seq := 7\<rparr>) (demo_shard 16) = Inr True" by (simp add: demo_simps)
  moreover have "snd (routed_should_gather None Map.empty False demo_adapter (demo_shard 16) (normalize_dim (demo_shard 16) 0) demo_gr) = Inr True"
    by (simp add: routed_should_gather_def adapter_should_gather_def demo_adapter_def new_adapter_def demo_simps)
  ultimately show ?thesis
    using poisoned_never_falls_back [of demo_adapter "demo_runtime\<lparr>rt_failed_seq := 7\<rparr>" "demo_shard 16" None Map.empty False "demo_shard 16" 0 demo_gr None 1 0 0]
    by (simp add: demo_adapter_def)
qed

text \<open>
  The row rule changes nothing but large row gathers: with a threshold of \<open>n\<close> bytes, the wrapped decision is the
  adapter's own, except that a gather along the first of two or more dimensions with more than \<open>n\<close> bytes per rank goes to
  NCCL when the switch is on; in particular no gather along the last dimension is touched.
\<close>
lemma row_rule_exact:
  assumes "gr_above gr = Some n"
  shows "snd (routed_should_gather ab env True a t d gr) =
      (if switch_on ab env \<and> 2 \<le> length (gt_shape t) \<and> normalize_dim t d = 0 \<and> n < int (gt_nbytes t) then Inr False
       else adapter_should_gather a t d) \<and>
    (normalize_dim t d = int (length (gt_shape t)) - 1 \<longrightarrow>
       snd (routed_should_gather ab env True a t d gr) = adapter_should_gather a t d)"
  using assms by (auto simp: routed_should_gather_def to_nccl_def above_def row_gather_def)

end
