(* ===== verification/Kv_Lens.thy ===== *)
theory Kv_Lens
  imports Prelude
begin

text \<open>
  The lengths the sparse-attention planner asks the host for, one per query row: the body of \<open>_kv_lens_host\<close> that reads the
  device positions (\<open>src/overlay/glm_kv_lens_exact.py\<close> holds a copy of it), and the two replacements that compute the same
  lengths from the number of computed tokens of each request, \<open>lens_from_bases\<close> of \<open>src/overlay/glm_early_plan.py\<close> and
  \<open>lens_from_values\<close> of \<open>glm_kv_lens_exact.py\<close>. Tensors are integer lists, with the size checks of torch.
\<close>

section \<open>Tensor operations\<close>

text \<open>An elementwise operation on one-dimensional tensors: equal sizes, or one of them of size one.\<close>

definition broadcast_r :: "('a \<Rightarrow> 'b \<Rightarrow> 'c) \<Rightarrow> 'a list \<Rightarrow> 'b list \<Rightarrow> 'c list result" where
  "broadcast_r f xs ys =
     (if length xs = length ys then Inr (map2 f xs ys)
      else if length xs = 1 then Inr (map (f (hd xs)) ys)
      else if length ys = 1 then Inr (map (\<lambda>x. f x (hd ys)) xs)
      else Inl RuntimeError)"

definition repeat_interleave :: "'a list \<Rightarrow> int list \<Rightarrow> 'a list result" where
  "repeat_interleave xs ns =
     (if length xs \<noteq> length ns \<or> (\<exists>n\<in>set ns. n < 0) then Inl RuntimeError
      else Inr (concat (map2 (\<lambda>x n. replicate (nat n) x) xs ns)))"

definition gather_r :: "'a list \<Rightarrow> nat list \<Rightarrow> 'a list result" where
  "gather_r xs is = map_r (\<lambda>i. py_nth xs (int i)) is"

section \<open>The deployed body\<close>

text \<open>What the builder and the metadata object hold; \<open>cam_id\<close> is the identity of the object.\<close>

record lens_builder =
  lb_async :: bool
  lb_topk :: int
  lb_kpool :: int

record attn_meta =
  cam_id :: nat
  cam_num_reqs :: nat
  cam_qsl :: "int list"
  cam_positions :: "int list option"
  cam_seq_lens :: "int list"
  cam_upper :: "int list option"

datatype lens_branch = Empty_batch | Upper_bound | From_positions | Optimistic_seq_lens

definition row_len :: "int \<Rightarrow> int \<Rightarrow> int \<Rightarrow> int" where
  "row_len topk kpool ctx = (if ctx \<le> topk then ctx else topk + ctx mod max kpool 1)"

text \<open>The context of every row from the first position of its request.\<close>

definition ctx_from_first :: "nat \<Rightarrow> int list \<Rightarrow> int list \<Rightarrow> int list result" where
  "ctx_from_first num_reqs qsl first_pos =
     bind_r (py_nth qsl (- 1)) (\<lambda>num_rows.
     bind_r (repeat_interleave [0..<num_reqs] (map2 (-) (tl qsl) (butlast qsl))) (\<lambda>req_of_row.
     bind_r (gather_r first_pos req_of_row) (\<lambda>fs.
     bind_r (gather_r qsl req_of_row) (\<lambda>qs.
     bind_r (broadcast_r (+) fs [0..num_rows - 1]) (\<lambda>a.
     bind_r (broadcast_r (-) a qs) (\<lambda>b. Inr (map (\<lambda>x. x + 1) b)))))))"

definition ctx_from_seq_lens :: "nat \<Rightarrow> int list \<Rightarrow> int list \<Rightarrow> int list result" where
  "ctx_from_seq_lens num_reqs qsl seq_lens =
     bind_r (broadcast_r (-) (take num_reqs seq_lens) (map2 (-) (tl qsl) (butlast qsl))) (ctx_from_first num_reqs qsl)"

text \<open>\<open>_original_body_with_ctx\<close>: the rows, the context where there are rows, the lengths and the branch taken.\<close>

definition deployed_body :: "lens_builder \<Rightarrow> attn_meta \<Rightarrow> (int \<times> int list \<times> int list \<times> lens_branch) result" where
  "deployed_body b cam =
     (let qsl = take (Suc (cam_num_reqs cam)) (cam_qsl cam);
          done = (\<lambda>num_rows br ctx. (num_rows, ctx, map (row_len (lb_topk b) (lb_kpool b)) ctx, br))
      in bind_r (py_nth qsl (- 1)) (\<lambda>num_rows.
           if num_rows = 0 then Inr (0, [], [], Empty_batch)
           else if \<not> lb_async b \<and> cam_upper cam \<noteq> None then
             map_sum id (done num_rows Upper_bound) (ctx_from_seq_lens (cam_num_reqs cam) qsl (the (cam_upper cam)))
           else (case cam_positions cam of
                   Some ps \<Rightarrow>
                     if num_rows \<le> int (length ps)
                     then Inr (done num_rows From_positions (map (\<lambda>p. p + 1) (take (nat num_rows) ps)))
                     else map_sum id (done num_rows Optimistic_seq_lens) (ctx_from_seq_lens (cam_num_reqs cam) qsl (cam_seq_lens cam))
                 | None \<Rightarrow> map_sum id (done num_rows Optimistic_seq_lens) (ctx_from_seq_lens (cam_num_reqs cam) qsl (cam_seq_lens cam)))))"

text \<open>What the caller of \<open>_kv_lens_host\<close> gets: the number of rows and their lengths.\<close>

definition deployed_lens :: "lens_builder \<Rightarrow> attn_meta \<Rightarrow> (int \<times> int list) result" where
  "deployed_lens b cam = map_sum id (\<lambda>(n, ctx, lens, br). (n, lens)) (deployed_body b cam)"

section \<open>Lengths from the computed tokens of the requests\<close>

fun bases_loop :: "int list \<Rightarrow> int \<Rightarrow> int \<Rightarrow> nat \<Rightarrow> int list \<Rightarrow> int list result" where
  "bases_loop qsl topk kpool r [] = Inr []"
| "bases_loop qsl topk kpool r (b # bs) =
     bind_r (py_nth qsl (int r)) (\<lambda>a. bind_r (py_nth qsl (int r + 1)) (\<lambda>e.
     bind_r (bases_loop qsl topk kpool (Suc r) bs) (\<lambda>rest.
       Inr (map (\<lambda>j. row_len topk kpool (b + (j - a) + 1)) [a..e - 1] @ rest))))"

definition lens_from_bases :: "int list \<Rightarrow> int list \<Rightarrow> int \<Rightarrow> int \<Rightarrow> int list result" where
  "lens_from_bases bases qsl topk kpool = bases_loop qsl topk kpool 0 bases"

definition lens_from_values :: "int list \<Rightarrow> int list \<Rightarrow> nat \<Rightarrow> int \<Rightarrow> int \<Rightarrow> (int \<times> int list) result" where
  "lens_from_values values qsl_cpu num_reqs topk kpool =
     (let qsl = take (Suc num_reqs) qsl_cpu
      in bind_r (py_nth qsl (- 1)) (\<lambda>num_rows.
           if num_rows = 0 then Inr (0, [])
           else bind_r (ctx_from_first num_reqs qsl (take num_reqs values @ replicate (num_reqs - length values) 0)) (\<lambda>ctx.
                  Inr (num_rows, map (row_len topk kpool) ctx))))"

section \<open>They are the same lengths\<close>

text \<open>A query-start list: from zero, never falling, one more entry than there are requests.\<close>

definition qsl_ok :: "nat \<Rightarrow> int list \<Rightarrow> bool" where
  "qsl_ok n qsl \<longleftrightarrow> n < length qsl \<and> qsl ! 0 = 0 \<and> (\<forall>r<n. qsl ! r \<le> qsl ! Suc r)"

text \<open>
  The positions \<open>prepare_pos_seq_lens\<close> writes: the rows of a request are contiguous and start at its number of computed
  tokens.
\<close>

definition positions_of :: "int list \<Rightarrow> int list \<Rightarrow> int list" where
  "positions_of bases qsl =
     concat (map (\<lambda>r. map (\<lambda>j. bases ! r + (j - qsl ! r)) [qsl ! r..qsl ! Suc r - 1]) [0..<length bases])"

text \<open>Values of the rows of every request, one block per request.\<close>

definition row_blocks :: "(nat \<Rightarrow> int \<Rightarrow> 'a) \<Rightarrow> int list \<Rightarrow> nat \<Rightarrow> 'a list" where
  "row_blocks f qsl n = concat (map (\<lambda>r. map (f r) [qsl ! r..qsl ! Suc r - 1]) [0..<n])"

lemma row_blocks_Suc: "row_blocks f qsl (Suc n) = row_blocks f qsl n @ map (f n) [qsl ! n..qsl ! Suc n - 1]"
  by (simp add: row_blocks_def)

lemma map_row_blocks: "map g (row_blocks f qsl n) = row_blocks (\<lambda>r j. g (f r j)) qsl n"
  by (induction n) (simp_all add: row_blocks_Suc, simp add: row_blocks_def)

lemma row_blocks_cong: "(\<And>r j. r < n \<Longrightarrow> f r j = g r j) \<Longrightarrow> row_blocks f qsl n = row_blocks g qsl n"
  unfolding row_blocks_def by (intro arg_cong [where f = concat] map_cong) auto

lemma qsl_ok_SucD: "qsl_ok (Suc n) qsl \<Longrightarrow> qsl_ok n qsl \<and> qsl ! n \<le> qsl ! Suc n"
  by (auto simp: qsl_ok_def)

lemma qsl_ok_nonneg: "qsl_ok n qsl \<Longrightarrow> 0 \<le> qsl ! n"
  by (induction n) (auto dest!: qsl_ok_SucD, simp add: qsl_ok_def)

lemma length_row_blocks: "qsl_ok n qsl \<Longrightarrow> length (row_blocks f qsl n) = nat (qsl ! n)"
proof (induction n)
  case (Suc n)
  then show ?case using qsl_ok_SucD [OF Suc.prems] qsl_ok_nonneg [of n qsl]
    by (simp add: row_blocks_Suc nat_add_distrib [symmetric])
qed (simp add: row_blocks_def qsl_ok_def)

lemma rows_as_blocks: "qsl_ok n qsl \<Longrightarrow> [0..qsl ! n - 1] = row_blocks (\<lambda>r j. j) qsl n"
proof (induction n)
  case (Suc n)
  then have "qsl_ok n qsl" "qsl ! n \<le> qsl ! Suc n" "0 \<le> qsl ! n" using qsl_ok_SucD qsl_ok_nonneg by blast+
  then have "[0..qsl ! Suc n - 1] = [0..qsl ! n - 1] @ [qsl ! n..qsl ! Suc n - 1]"
    using upto_split1 [of 0 "qsl ! n" "qsl ! Suc n - 1"] by (cases "qsl ! n = qsl ! Suc n") auto
  then show ?case using Suc.IH \<open>qsl_ok n qsl\<close> by (simp add: row_blocks_Suc)
qed (simp add: row_blocks_def qsl_ok_def)

lemma zip_row_blocks:
  "zip (row_blocks f qsl n) (row_blocks g qsl n) = row_blocks (\<lambda>r j. (f r j, g r j)) qsl n"
proof (induction n)
  case (Suc n)
  have "length (row_blocks f qsl n) = length (row_blocks g qsl n)" by (simp add: row_blocks_def length_concat comp_def)
  then show ?case using Suc by (simp add: row_blocks_Suc zip_map1 zip_map2 zip_same_conv_map)
qed (simp add: row_blocks_def)

lemma positions_blocks: "positions_of bs qsl = row_blocks (\<lambda>r j. bs ! r + (j - qsl ! r)) qsl (length bs)"
  by (simp add: positions_of_def row_blocks_def)

lemma length_positions_of: "qsl_ok (length bs) qsl \<Longrightarrow> int (length (positions_of bs qsl)) = qsl ! length bs"
  using qsl_ok_nonneg by (simp add: positions_blocks length_row_blocks)

lemma bases_loop_rows:
  "r + length bs < length qsl \<Longrightarrow>
   bases_loop qsl topk kpool r bs = Inr (concat (map (\<lambda>i. map (\<lambda>j. row_len topk kpool (bs ! i + (j - qsl ! (r + i)) + 1))
     [qsl ! (r + i)..qsl ! Suc (r + i) - 1]) [0..<length bs]))"
proof (induction bs arbitrary: r)
  case (Cons b bs)
  have nth: "py_nth qsl (int r) = Inr (qsl ! r)" "py_nth qsl (int r + 1) = Inr (qsl ! Suc r)"
    using Cons.prems by (simp_all add: py_nth_def nat_add_distrib)
  have up: "[0..<length (b # bs)] = 0 # map Suc [0..<length bs]" by (simp add: map_Suc_upt upt_conv_Cons del: upt_Suc)
  show ?case
    unfolding up using Cons.prems Cons.IH [of "Suc r"] by (simp add: nth comp_def del: upt_Suc)
qed simp

lemma lens_of_positions:
  assumes "length bs < length qsl"
  shows "lens_from_bases bs qsl topk kpool = Inr (map (\<lambda>p. row_len topk kpool (p + 1)) (positions_of bs qsl))"
  using bases_loop_rows [of 0 bs qsl topk kpool] assms
  by (simp add: lens_from_bases_def positions_of_def map_concat comp_def)

lemma last_start: "qsl_ok n qsl \<Longrightarrow> py_nth (take (Suc n) qsl) (- 1) = Inr (qsl ! n)"
  by (cases "length qsl = Suc n") (auto simp: py_nth_def qsl_ok_def min_def)

lemma deployed_positions:
  assumes "qsl_ok (length bs) (cam_qsl cam)" and "cam_num_reqs cam = length bs" and "lb_async b"
    and "cam_positions cam = Some (positions_of bs (cam_qsl cam) @ rest)"
  shows "deployed_body b cam = Inr (cam_qsl cam ! length bs, map (\<lambda>p. p + 1) (positions_of bs (cam_qsl cam)),
    map (\<lambda>p. row_len (lb_topk b) (lb_kpool b) (p + 1)) (positions_of bs (cam_qsl cam)),
    if cam_qsl cam ! length bs = 0 then Empty_batch else From_positions)"
  using length_positions_of [OF assms(1)] last_start [OF assms(1)] assms(2-4)
  by (auto simp: deployed_body_def Let_def comp_def)

lemma blocks_of_requests:
  assumes "qsl_ok n qsl"
  shows "repeat_interleave [0..<n] (map2 (-) (tl (take (Suc n) qsl)) (butlast (take (Suc n) qsl))) =
    Inr (row_blocks (\<lambda>r j. r) qsl n)"
proof -
  let ?d = "map2 (-) (tl (take (Suc n) qsl)) (butlast (take (Suc n) qsl))"
  have len: "length (take (Suc n) qsl) = Suc n" using assms by (simp add: qsl_ok_def)
  have d: "?d = map (\<lambda>r. qsl ! Suc r - qsl ! r) [0..<n]"
    by (rule nth_equalityI) (use len in \<open>simp_all add: nth_tl nth_butlast\<close>)
  have "map2 (\<lambda>x k. replicate (nat k) x) [0..<n] ?d = map (\<lambda>r. map (\<lambda>j. r) [qsl ! r..qsl ! Suc r - 1]) [0..<n]"
    unfolding d by (simp add: map2_map_map [where f = id, simplified] map_replicate_const)
  then show ?thesis
    using assms unfolding repeat_interleave_def d row_blocks_def by (auto simp: qsl_ok_def)
qed

lemma gather_blocks: "n \<le> length xs \<Longrightarrow> gather_r xs (row_blocks (\<lambda>r j. r) qsl n) = Inr (row_blocks (\<lambda>r j. xs ! r) qsl n)"
  unfolding gather_r_def map_r_Inr_iff
proof (intro conjI allI impI)
  assume n: "n \<le> length xs"
  fix i assume i: "i < length (row_blocks (\<lambda>r j. r) qsl n)"
  have "row_blocks (\<lambda>r j. r) qsl n ! i \<in> set (row_blocks (\<lambda>r j. r) qsl n)" using i by (rule nth_mem)
  then have less: "row_blocks (\<lambda>r j. r) qsl n ! i < n" by (auto simp: row_blocks_def)
  have "map (nth xs) (row_blocks (\<lambda>r j. r) qsl n) = row_blocks (\<lambda>r j. xs ! r) qsl n" by (simp add: map_row_blocks)
  then have "row_blocks (\<lambda>r j. xs ! r) qsl n ! i = xs ! (row_blocks (\<lambda>r j. r) qsl n ! i)"
    using i by (metis nth_map)
  then show "py_nth xs (int (row_blocks (\<lambda>r j. r) qsl n ! i)) = Inr (row_blocks (\<lambda>r j. xs ! r) qsl n ! i)"
    using less n by (simp add: py_nth_def)
qed (simp add: row_blocks_def length_concat comp_def)

lemma broadcast_blocks:
  "broadcast_r h (row_blocks f qsl n) (row_blocks g qsl n) = Inr (row_blocks (\<lambda>r j. h (f r j) (g r j)) qsl n)"
proof -
  have "length (row_blocks f qsl n) = length (row_blocks g qsl n)" by (simp add: row_blocks_def length_concat comp_def)
  then show ?thesis by (simp add: broadcast_r_def zip_row_blocks map_row_blocks)
qed

lemma ctx_from_first_positions:
  assumes "qsl_ok (length bs) qsl"
  shows "ctx_from_first (length bs) (take (Suc (length bs)) qsl) bs = Inr (map (\<lambda>p. p + 1) (positions_of bs qsl))"
proof -
  let ?n = "length bs" and ?q = "take (Suc (length bs)) qsl"
  have q: "row_blocks (\<lambda>r j. ?q ! r) qsl ?n = row_blocks (\<lambda>r j. qsl ! r) qsl ?n" by (rule row_blocks_cong) simp
  have g: "gather_r ?q (row_blocks (\<lambda>r j. r) qsl ?n) = Inr (row_blocks (\<lambda>r j. qsl ! r) qsl ?n)"
    using assms gather_blocks [of ?n ?q qsl] q by (simp add: qsl_ok_def)
  show ?thesis
    using assms by (simp add: ctx_from_first_def last_start blocks_of_requests gather_blocks g rows_as_blocks broadcast_blocks
        positions_blocks map_row_blocks algebra_simps)
qed

lemma lens_from_values_positions:
  assumes "qsl_ok (length bs) qsl"
  shows "lens_from_values bs qsl (length bs) topk kpool =
    Inr (qsl ! length bs, map (\<lambda>p. row_len topk kpool (p + 1)) (positions_of bs qsl))"
  using length_positions_of [OF assms] ctx_from_first_positions [OF assms] last_start [OF assms]
  by (auto simp: lens_from_values_def Let_def comp_def)

text \<open>The bound of the host and the sequence lengths of the device give the same context when they are base plus query length.\<close>

lemma ctx_from_seq_lens_positions:
  assumes "qsl_ok (length bs) qsl" and "take (length bs) sl = map (\<lambda>r. bs ! r + (qsl ! Suc r - qsl ! r)) [0..<length bs]"
  shows "ctx_from_seq_lens (length bs) (take (Suc (length bs)) qsl) sl = Inr (map (\<lambda>p. p + 1) (positions_of bs qsl))"
proof -
  let ?n = "length bs" and ?q = "take (Suc (length bs)) qsl"
  have len: "length ?q = Suc ?n" using assms by (simp add: qsl_ok_def)
  have "map2 (-) (map (\<lambda>r. bs ! r + (qsl ! Suc r - qsl ! r)) [0..<?n]) (map2 (-) (tl ?q) (butlast ?q)) = bs"
    by (rule nth_equalityI) (use len in \<open>simp_all add: nth_tl nth_butlast\<close>)
  then show ?thesis
    using len assms by (simp add: ctx_from_seq_lens_def broadcast_r_def ctx_from_first_positions)
qed

section \<open>The runner of vLLM\<close>

text \<open>What both replacements read of a batch.\<close>

record input_batch =
  ib_num_reqs :: nat
  ib_qsl :: "int list"
  ib_req_ids :: "string list"
  ib_idx :: "int list"
  ib_host :: "int list"
  ib_cu_logits :: "int list"
  ib_prefilling :: "bool list"

text \<open>
  \<open>w_nct\<close> is the device array of computed tokens (of \<open>w_size\<close> slots), \<open>w_np\<close> its host mirror, \<open>w_slot\<close> the slot of a live request,
  \<open>w_fresh\<close> the live requests no step has advanced since they were added, \<open>w_pos\<close> the positions buffer.
\<close>

datatype phase = Updating | Prepared | Posted

record device =
  w_nct :: "nat \<Rightarrow> int"
  w_np :: "nat \<Rightarrow> int"
  w_size :: nat
  w_slot :: "string \<Rightarrow> nat option"
  w_fresh :: "string set"
  w_pos :: "int list"
  w_phase :: phase

text \<open>
  A batch as the runner builds it: a row that is not filtered is a live request at its slot with the mirror's value, and
  the positions of the requests are written in order from the device values.
\<close>

definition batch_of :: "'a device_scheme \<Rightarrow> input_batch \<Rightarrow> int list \<Rightarrow> bool" where
  "batch_of w ib pos \<longleftrightarrow>
     (let n = ib_num_reqs ib
      in n \<le> length (ib_req_ids ib) \<and> n \<le> length (ib_idx ib) \<and> n \<le> length (ib_host ib) \<and> qsl_ok n (ib_qsl ib) \<and>
         (\<forall>j<n. 0 \<le> ib_idx ib ! j \<longrightarrow>
            w_slot w (ib_req_ids ib ! j) = Some (nat (ib_idx ib ! j)) \<and> ib_host ib ! j = w_np w (nat (ib_idx ib ! j))) \<and>
         (\<exists>bs rest. length bs = n \<and> pos = positions_of bs (ib_qsl ib) @ rest \<and>
            (\<forall>j<n. 0 \<le> ib_idx ib ! j \<longrightarrow> bs ! j = w_nct w (nat (ib_idx ib ! j)))))"

text \<open>Every live request has a slot of its own, and the mirror is right for the fresh ones.\<close>

definition slots_ok :: "'a device_scheme \<Rightarrow> bool" where
  "slots_ok w \<longleftrightarrow>
     (\<forall>r i. w_slot w r = Some i \<longrightarrow>
        i < w_size w \<and> (\<forall>r'. w_slot w r' = Some i \<longrightarrow> r' = r) \<and> (r \<in> w_fresh w \<longrightarrow> w_np w i = w_nct w i))"

lemma first_row:
  assumes "qsl_ok (length bs) qsl" and "r < length bs" and "qsl ! r < qsl ! Suc r"
  shows "positions_of bs qsl ! nat (qsl ! r) = bs ! r"
proof -
  have "row_blocks f qsl n ! nat (qsl ! r) = f r (qsl ! r)" if "qsl_ok n qsl" "r < n" for f :: "nat \<Rightarrow> int \<Rightarrow> int" and n
    using that
  proof (induction n)
    case (Suc n)
    have ok: "qsl_ok n qsl" "0 \<le> qsl ! n" "0 \<le> qsl ! r" using qsl_ok_SucD [OF Suc.prems(1)] qsl_ok_nonneg Suc.prems
      by (auto simp: qsl_ok_def intro!: qsl_ok_nonneg [of r])
    show ?case
    proof (cases "r = n")
      case True
      then show ?thesis using ok length_row_blocks [OF ok(1), of f] assms(3) by (simp add: row_blocks_Suc nth_append upto_rec1)
    next
      case False
      then have r: "r < n" using Suc.prems by simp
      have "qsl ! Suc r \<le> qsl ! n"
      proof -
        have "qsl_ok m qsl \<Longrightarrow> Suc r \<le> m \<Longrightarrow> qsl ! Suc r \<le> qsl ! m" for m
        proof (induction m)
          case (Suc m)
          then show ?case using qsl_ok_SucD [OF Suc.prems(1)] by (cases "r = m") auto
        qed simp
        then show ?thesis using ok(1) r by simp
      qed
      then have "nat (qsl ! r) < length (row_blocks f qsl n)" using assms(3) ok length_row_blocks [OF ok(1), of f] by simp
      then show ?thesis using Suc.IH [OF ok(1) r] by (simp add: row_blocks_Suc nth_append)
    qed
  qed simp
  then show ?thesis using assms(1,2) by (simp add: positions_blocks)
qed

end
