(* ===== verification/Early_Plan.thy ===== *)
theory Early_Plan
  imports Kv_Lens Py_Str
begin

text \<open>
  \<open>src/overlay/glm_early_plan.py\<close>: the planner's lengths from a snapshot of the computed tokens taken after the verify of the
  previous step, instead of a read of the positions that waits for the whole stream. The bookkeeping of the core and the
  patched entry points are functions on its state; the device, the request table and the order of vLLM's calls are a
  transition relation around them. Device values are those after all work enqueued so far, which is what waiting on
  the event of a copy makes visible. The entries of the pinned ring are read by index.
\<close>

section \<open>The core\<close>

text \<open>A snapshot is the step it was taken in, its event and the ring slot its reader reads.\<close>

record ep_core =
  c_serial :: nat
  c_batch :: "(nat \<times> input_batch) option"
  c_snap :: "(nat \<times> nat \<times> nat) option"
  c_added :: "string set"
  c_desync :: bool
  c_real :: bool

datatype plan_refusal =
    Desync | No_batch | No_snapshot | Row_mismatch | Qsl_mismatch | Batch_shape | Filtered_row | Idx_range

definition core_new :: ep_core where
  "core_new = \<lparr>c_serial = 0, c_batch = None, c_snap = None, c_added = {}, c_desync = False, c_real = False\<rparr>"

definition begin_real_step :: "bool \<Rightarrow> ep_core \<Rightarrow> ep_core" where
  "begin_real_step tokens c =
     c\<lparr>c_batch := None, c_real := tokens, c_serial := (if tokens then c_serial c + 1 else c_serial c)\<rparr>"

definition note_added :: "string \<Rightarrow> ep_core \<Rightarrow> ep_core" where
  "note_added r c = c\<lparr>c_added := insert r (c_added c)\<rparr>"

definition note_batch :: "input_batch \<Rightarrow> ep_core \<Rightarrow> ep_core" where
  "note_batch ib c = (if c_real c then c\<lparr>c_batch := Some (c_serial c, ib)\<rparr> else c)"

definition note_snapshot :: "nat \<Rightarrow> nat \<Rightarrow> ep_core \<Rightarrow> ep_core" where
  "note_snapshot ev slot c = (if c_real c then c\<lparr>c_snap := Some (c_serial c, ev, slot), c_added := {}\<rparr> else c)"

definition drop_snapshot :: "ep_core \<Rightarrow> ep_core" where
  "drop_snapshot c = c\<lparr>c_snap := None\<rparr>"

fun row_bases :: "string set \<Rightarrow> int list \<Rightarrow> (string \<times> int \<times> int) list \<Rightarrow> plan_refusal + int list" where
  "row_bases added dev [] = Inr []"
| "row_bases added dev ((r, i, h) # rest) =
     (if r \<in> added then map_sum id (Cons h) (row_bases added dev rest)
      else if int (length dev) \<le> i then Inl Idx_range
      else map_sum id (Cons (dev ! nat i)) (row_bases added dev rest))"

text \<open>
  \<open>plan_bases\<close>; \<open>read\<close> is what the reader of a slot returns once its event has fired. The attributes of the batch are there
  and of the right type, so that only their lengths can differ.
\<close>

definition plan_bases :: "(nat \<Rightarrow> int list) \<Rightarrow> ep_core \<Rightarrow> nat \<Rightarrow> int list \<Rightarrow> plan_refusal + int list" where
  "plan_bases read c num qsl =
     (if c_desync c then Inl Desync
      else case c_batch c of
        None \<Rightarrow> Inl No_batch
      | Some (s, ib) \<Rightarrow>
          if s \<noteq> c_serial c then Inl No_batch
          else (case c_snap c of
            None \<Rightarrow> Inl No_snapshot
          | Some (t, ev, slot) \<Rightarrow>
              if int t \<noteq> int (c_serial c) - 1 then Inl No_snapshot
              else if ib_num_reqs ib \<noteq> num then Inl Row_mismatch
              else
                let n = ib_num_reqs ib;
                    ids = take n (ib_req_ids ib); idx = take n (ib_idx ib); host = take n (ib_host ib)
                in if take (Suc n) (ib_qsl ib) \<noteq> take (Suc n) qsl then Inl Qsl_mismatch
                   else if length ids \<noteq> n \<or> length idx \<noteq> n \<or> length host \<noteq> n then Inl Batch_shape
                   else if \<exists>i\<in>set idx. i < 0 then Inl Filtered_row
                   else row_bases (c_added c) (read slot) (zip ids (zip idx host))))"

section \<open>The patched body\<close>

record ep_state =
  e_core :: ep_core
  e_cache :: "(nat \<times> nat \<times> (int \<times> int list)) option"
  e_builds :: nat
  e_mismatches :: nat
  e_ring_i :: nat

definition ep_new :: ep_state where
  "ep_new = \<lparr>e_core = core_new, e_cache = None, e_builds = 0, e_mismatches = 0, e_ring_i = 0\<rparr>"

text \<open>\<open>_real_step\<close>: the dummy flag by keyword or as the third positional argument of \<open>execute_model\<close>.\<close>

definition real_step :: "bool option \<Rightarrow> bool option \<Rightarrow> int \<Rightarrow> bool" where
  "real_step kw_dummy arg_dummy scheduled =
     (let dummy = (case kw_dummy of Some d \<Rightarrow> d | None \<Rightarrow> False);
          dummy' = (if \<not> dummy then (case arg_dummy of Some d \<Rightarrow> d | None \<Rightarrow> dummy) else dummy)
      in \<not> dummy' \<and> 0 < scheduled)"

text \<open>What the call reads of the environment and the stream: the two switches, the check interval, whether a graph is captured.\<close>

record ep_env =
  v_active :: bool
  v_capturing :: bool
  v_debug :: bool
  v_every :: int

definition check_due :: "ep_env \<Rightarrow> nat \<Rightarrow> bool" where
  "check_due v builds \<longleftrightarrow> v_debug v \<or> v_every v \<noteq> 0 \<and> int builds mod v_every v = 0"

text \<open>A result for the same metadata object in the same step.\<close>

definition cached_lens :: "ep_state \<Rightarrow> attn_meta \<Rightarrow> (int \<times> int list) option" where
  "cached_lens st cam =
     (case e_cache st of
        None \<Rightarrow> None
      | Some (i, s, res) \<Rightarrow> if i = cam_id cam \<and> s = c_serial (e_core st) then Some res else None)"

text \<open>The early plan, or the original body when the core refuses; a due check runs both and keeps the original's result.\<close>

definition early_lens ::
    "(attn_meta \<Rightarrow> (int \<times> int list) result) \<Rightarrow> ep_env \<Rightarrow> lens_builder \<Rightarrow> (nat \<Rightarrow> int list) \<Rightarrow> ep_state \<Rightarrow> attn_meta \<Rightarrow>
      ep_state \<times> (int \<times> int list) result" where
  "early_lens orig v b read st cam =
     (let num = cam_num_reqs cam; qsl = take (Suc num) (cam_qsl cam)
      in case plan_bases read (e_core st) num qsl of
           Inl reason \<Rightarrow> (st, orig cam)
         | Inr bases \<Rightarrow>
             (case lens_from_bases bases qsl (lb_topk b) (lb_kpool b) of
                Inl x \<Rightarrow> (st, Inl x)
              | Inr lens \<Rightarrow>
                  (case (if qsl = [] then Inr 0 else py_nth qsl (int num)) of
                     Inl x \<Rightarrow> (st, Inl x)
                   | Inr rows \<Rightarrow>
                       if check_due v (e_builds st)
                       then (case orig cam of
                               Inl x \<Rightarrow> (st, Inl x)
                             | Inr (d_rows, d_lens) \<Rightarrow>
                                 (st\<lparr>e_mismatches := e_mismatches st + (if d_rows \<noteq> rows \<or> d_lens \<noteq> lens then 1 else 0)\<rparr>,
                                  Inr (d_rows, d_lens)))
                       else (st, Inr (rows, lens)))))"

definition patched_kv_lens_host ::
    "(attn_meta \<Rightarrow> (int \<times> int list) result) \<Rightarrow> ep_env \<Rightarrow> lens_builder \<Rightarrow> (nat \<Rightarrow> int list) \<Rightarrow> ep_state \<Rightarrow> attn_meta \<Rightarrow>
      ep_state \<times> (int \<times> int list) result" where
  "patched_kv_lens_host orig v b read st cam =
     (if \<not> v_active v \<or> \<not> lb_async b \<or> v_capturing v then (st, orig cam)
      else case cached_lens st cam of
             Some res \<Rightarrow> (st, Inr res)
           | None \<Rightarrow>
               (case early_lens orig v b read (st\<lparr>e_builds := e_builds st + 1\<rparr>) cam of
                  (st2, Inl x) \<Rightarrow> (st2, Inl x)
                | (st2, Inr res) \<Rightarrow> (st2\<lparr>e_cache := Some (cam_id cam, c_serial (e_core st), res)\<rparr>, Inr res)))"

section \<open>The wrappers of the runner\<close>

text \<open>
  \<open>execute_model\<close> before it calls the stock method; \<open>unmodelled\<close> is whether the runner partitions prefills over ranks,
  verifies adaptively, or is not the last rank of a pipeline.
\<close>

definition enter_execute :: "bool \<Rightarrow> bool \<Rightarrow> ep_state \<Rightarrow> ep_state" where
  "enter_execute tokens unmodelled st = st\<lparr>e_core := (begin_real_step tokens (e_core st))\<lparr>c_desync := unmodelled\<rparr>\<rparr>"

definition leave_prepare :: "input_batch \<Rightarrow> ep_state \<Rightarrow> ep_state" where
  "leave_prepare ib st = st\<lparr>e_core := note_batch ib (e_core st)\<rparr>"

definition enter_add :: "string \<Rightarrow> ep_state \<Rightarrow> ep_state" where
  "enter_add r st = st\<lparr>e_core := note_added r (e_core st)\<rparr>"

text \<open>
  \<open>postprocess_sampled\<close> after the stock method: \<open>copied\<close> is whether \<open>_snapshot\<close> enqueued its copy, \<open>ev\<close> the event it recorded.
  The copy goes to the next of the three slots; the ring is made again when the shape of the source changed.
\<close>

definition leave_postprocess ::
    "ep_env \<Rightarrow> bool \<Rightarrow> nat \<Rightarrow> int list \<Rightarrow> (nat \<Rightarrow> int list) \<Rightarrow> ep_state \<Rightarrow> ep_state \<times> (nat \<Rightarrow> int list)" where
  "leave_postprocess v copied ev dev ring st =
     (if v_active v \<and> c_real (e_core st) \<and> \<not> v_capturing v
      then (if copied
            then let slot = e_ring_i st mod 3
                 in (st\<lparr>e_ring_i := e_ring_i st + 1, e_core := note_snapshot ev slot (e_core st)\<rparr>, ring(slot := dev))
            else (st\<lparr>e_core := drop_snapshot (e_core st)\<rparr>, ring))
      else (st, ring))"

section \<open>The runner around it\<close>

text \<open>
  What vLLM does between the wrappers: \<open>w_ring\<close> are the pinned slots, \<open>w_seen\<close> the metadata objects handed out so far by identity, \<open>w_clean\<close> whether
  no step has advanced the device since the last snapshot.
\<close>

record runner = device +
  w_st :: ep_state
  w_ring :: "nat \<Rightarrow> int list"
  w_seen :: "nat \<Rightarrow> attn_meta option"
  w_clean :: bool

definition runner_new :: "nat \<Rightarrow> runner" where
  "runner_new n = \<lparr>w_nct = (\<lambda>i. 0), w_np = (\<lambda>i. 0), w_size = n, w_slot = Map.empty, w_fresh = {}, w_pos = [],
     w_phase = Posted, w_st = ep_new, w_ring = (\<lambda>i. []), w_seen = Map.empty, w_clean = True\<rparr>"

text \<open>The metadata of the current batch: it views the positions buffer, and an object seen before has not changed.\<close>

definition meta_of :: "runner \<Rightarrow> attn_meta \<Rightarrow> bool" where
  "meta_of w cam \<longleftrightarrow> cam_positions cam = Some (w_pos w) \<and> (w_seen w (cam_id cam) = None \<or> w_seen w (cam_id cam) = Some cam)"

inductive runner_step :: "lens_builder \<Rightarrow> runner \<Rightarrow> runner \<Rightarrow> bool" for b where
  execute: "runner_step b w (w\<lparr>w_st := enter_execute tokens unmodelled (w_st w), w_phase := Updating\<rparr>)"
| add: "w_phase w = Updating \<Longrightarrow> w_slot w r = None \<Longrightarrow> i < w_size w \<Longrightarrow> i \<notin> ran (w_slot w) \<Longrightarrow>
    runner_step b w (w\<lparr>w_st := enter_add r (w_st w), w_slot := (w_slot w)(r \<mapsto> i), w_nct := (w_nct w)(i := n),
      w_np := (w_np w)(i := n), w_fresh := insert r (w_fresh w)\<rparr>)"
| remove: "w_phase w = Updating \<Longrightarrow> runner_step b w (w\<lparr>w_slot := (w_slot w)(r := None), w_fresh := w_fresh w - {r}\<rparr>)"
| refresh: "w_phase w = Updating \<Longrightarrow> w_slot w r = Some i \<Longrightarrow> (r \<in> w_fresh w \<Longrightarrow> n = w_nct w i) \<Longrightarrow>
    runner_step b w (w\<lparr>w_np := (w_np w)(i := n)\<rparr>)"
| prepare: "w_phase w = Updating \<Longrightarrow> batch_of w ib pos \<Longrightarrow>
    runner_step b w (w\<lparr>w_st := leave_prepare ib (w_st w), w_pos := pos, w_phase := Prepared\<rparr>)"
| build: "w_phase w = Prepared \<Longrightarrow> meta_of w cam \<Longrightarrow>
    patched_kv_lens_host (deployed_lens b) v b (w_ring w) (w_st w) cam = (st', res) \<Longrightarrow>
    runner_step b w (w\<lparr>w_st := st', w_seen := (w_seen w)(cam_id cam \<mapsto> cam)\<rparr>)"
| post: "w_phase w = Prepared \<Longrightarrow> c_real (e_core (w_st w)) \<Longrightarrow>
    (\<forall>r i. w_slot w r = Some i \<longrightarrow> r \<in> w_fresh w - rows \<longrightarrow> nct' i = w_nct w i) \<Longrightarrow>
    leave_postprocess v copied ev (map nct' [0..<w_size w]) (w_ring w) (w_st w) = (st', ring') \<Longrightarrow>
    runner_step b w (w\<lparr>w_st := st', w_nct := nct', w_fresh := w_fresh w - rows, w_ring := ring',
      w_clean := (v_active v \<and> \<not> v_capturing v \<and> copied), w_phase := Posted\<rparr>)"

inductive runner_reach :: "lens_builder \<Rightarrow> runner \<Rightarrow> bool" for b where
  start: "runner_reach b (runner_new n)"
| step: "runner_reach b w \<Longrightarrow> runner_step b w w' \<Longrightarrow> runner_reach b w'"

section \<open>The lengths are the deployed ones\<close>

text \<open>
  A snapshot that no step has outrun holds the device value of every live request but those added since, and those are
  fresh, so that the mirror is right for them.
\<close>

definition snap_ok :: "runner \<Rightarrow> bool" where
  "snap_ok w \<longleftrightarrow>
     (\<forall>s ev k. c_snap (e_core (w_st w)) = Some (s, ev, k) \<longrightarrow> w_clean w \<longrightarrow>
        (\<forall>r i. w_slot w r = Some i \<longrightarrow>
           (r \<notin> c_added (e_core (w_st w)) \<longrightarrow> i < length (w_ring w k) \<and> w_ring w k ! i = w_nct w i) \<and>
           (r \<in> c_added (e_core (w_st w)) \<longrightarrow> r \<in> w_fresh w)))"

definition snap_age :: "runner \<Rightarrow> bool" where
  "snap_age w \<longleftrightarrow>
     (\<forall>s ev k. c_snap (e_core (w_st w)) = Some (s, ev, k) \<longrightarrow>
        s + (if c_real (e_core (w_st w)) \<and> w_phase w \<noteq> Posted then 1 else 0) + (if w_clean w then 0 else 1)
          \<le> c_serial (e_core (w_st w)))"

definition batch_ok :: "runner \<Rightarrow> bool" where
  "batch_ok w \<longleftrightarrow>
     (\<forall>s ib. c_batch (e_core (w_st w)) = Some (s, ib) \<longrightarrow>
        c_real (e_core (w_st w)) \<and> w_phase w \<noteq> Updating \<and> (w_phase w = Prepared \<longrightarrow> batch_of w ib (w_pos w)))"

definition cache_ok :: "lens_builder \<Rightarrow> runner \<Rightarrow> bool" where
  "cache_ok b w \<longleftrightarrow>
     (\<forall>i s res. e_cache (w_st w) = Some (i, s, res) \<longrightarrow> (\<exists>cam. w_seen w i = Some cam \<and> deployed_lens b cam = Inr res))"

definition runner_ok :: "lens_builder \<Rightarrow> runner \<Rightarrow> bool" where
  "runner_ok b w \<longleftrightarrow> snap_ok w \<and> snap_age w \<and> slots_ok w \<and> batch_ok w \<and> cache_ok b w \<and> e_mismatches (w_st w) = 0"

lemma row_bases_Inr:
  "row_bases added dev rows = Inr bs \<Longrightarrow> length bs = length rows \<and>
   (\<forall>j<length rows. case rows ! j of (r, i, h) \<Rightarrow>
      bs ! j = (if r \<in> added then h else dev ! nat i) \<and> (r \<notin> added \<longrightarrow> i < int (length dev)))"
proof (induction added dev rows arbitrary: bs rule: row_bases.induct)
  case (2 added dev r i h rest)
  obtain c cs where bs: "bs = c # cs" "row_bases added dev rest = Inr cs" "c = (if r \<in> added then h else dev ! nat i)"
      "r \<notin> added \<longrightarrow> i < int (length dev)"
    using "2.prems" by (cases "row_bases added dev rest") (auto split: if_splits)
  have "length cs = length rest \<and> (\<forall>j<length rest. case rest ! j of (r, i, h) \<Rightarrow>
      cs ! j = (if r \<in> added then h else dev ! nat i) \<and> (r \<notin> added \<longrightarrow> i < int (length dev)))"
    using "2.IH" bs(2,4) by (cases "r \<in> added") auto
  then show ?case using bs by (auto simp: nth_Cons split: nat.splits)
qed simp

text \<open>The bases of a step that may plan early are the device values the positions were written from.\<close>

lemma bases_are_device:
  assumes "runner_ok b w" and "w_phase w = Prepared" and "plan_bases (w_ring w) (e_core (w_st w)) num qsl = Inr bases"
  obtains ib rest where "batch_of w ib (w_pos w)" and "ib_num_reqs ib = num" and "length bases = num"
    and "take (Suc num) (ib_qsl ib) = take (Suc num) qsl" and "w_pos w = positions_of bases (ib_qsl ib) @ rest"
proof -
  let ?c = "e_core (w_st w)"
  obtain s ib t ev k where b: "c_batch ?c = Some (s, ib)" and sn: "c_snap ?c = Some (t, ev, k)"
    and t: "int t = int (c_serial ?c) - 1" and n: "ib_num_reqs ib = num"
    and q: "take (Suc num) (ib_qsl ib) = take (Suc num) qsl"
    and len: "num \<le> length (ib_req_ids ib)" "num \<le> length (ib_idx ib)" "num \<le> length (ib_host ib)"
    and idx: "\<forall>i\<in>set (take num (ib_idx ib)). 0 \<le> i"
    and rows: "row_bases (c_added ?c) (w_ring w k)
      (zip (take num (ib_req_ids ib)) (zip (take num (ib_idx ib)) (take num (ib_host ib)))) = Inr bases"
    using assms(3) by (auto simp: plan_bases_def Let_def not_less split: if_splits option.splits)
  have real: "c_real ?c" and ib: "batch_of w ib (w_pos w)" using assms(1,2) b by (auto simp: runner_ok_def batch_ok_def)
  have clean: "w_clean w"
  proof (rule ccontr)
    assume "\<not> w_clean w"
    then have "t + 1 + 1 \<le> c_serial ?c" using assms(1,2) sn real by (auto simp: runner_ok_def snap_age_def)
    then show False using t by simp
  qed
  obtain bs rest where bs: "length bs = num" "w_pos w = positions_of bs (ib_qsl ib) @ rest"
      "\<forall>j<num. 0 \<le> ib_idx ib ! j \<longrightarrow> bs ! j = w_nct w (nat (ib_idx ib ! j))"
    using ib n by (auto simp: batch_of_def Let_def)
  note R = row_bases_Inr [OF rows]
  have lb: "length bases = num" using R len by simp
  have "bases = bs"
  proof (rule nth_equalityI)
    show "length bases = length bs" using lb bs(1) by simp
    fix j assume "j < length bases"
    then have j: "j < num" using lb by simp
    let ?r = "ib_req_ids ib ! j" and ?i = "ib_idx ib ! j" and ?h = "ib_host ib ! j"
    have i0: "0 \<le> ?i" using idx j len nth_mem [of j "take num (ib_idx ib)"] by simp
    have at: "zip (take num (ib_req_ids ib)) (zip (take num (ib_idx ib)) (take num (ib_host ib))) ! j = (?r, ?i, ?h)"
      using j len by simp
    have val: "bases ! j = (if ?r \<in> c_added ?c then ?h else w_ring w k ! nat ?i)"
      using R j len at by (auto dest!: spec [of _ j])
    have live: "w_slot w ?r = Some (nat ?i)" "?h = w_np w (nat ?i)" using ib n j i0 by (auto simp: batch_of_def Let_def)
    have "bases ! j = w_nct w (nat ?i)"
      using val live assms(1) sn clean by (auto simp: runner_ok_def snap_ok_def slots_ok_def)
    then show "bases ! j = bs ! j" using bs(3) j i0 by simp
  qed
  then show ?thesis using that [OF ib n lb q] bs(2) by simp
qed

lemma early_exact:
  assumes "runner_ok b w" and "w_phase w = Prepared" and "meta_of w cam" and "lb_async b"
    and "e_core st = e_core (w_st w)"
  shows "early_lens (deployed_lens b) v b (w_ring w) st cam = (st, deployed_lens b cam)"
proof -
  let ?num = "cam_num_reqs cam"
  let ?qsl = "take (Suc ?num) (cam_qsl cam)"
  show ?thesis
  proof (cases "plan_bases (w_ring w) (e_core (w_st w)) ?num ?qsl")
    case (Inl reason)
    then show ?thesis by (simp add: early_lens_def Let_def assms(5))
  next
    case (Inr bases)
    obtain ib rest where ib: "batch_of w ib (w_pos w)" "ib_num_reqs ib = ?num" "length bases = ?num"
        "take (Suc ?num) (ib_qsl ib) = ?qsl" "w_pos w = positions_of bases (ib_qsl ib) @ rest"
      using bases_are_device [OF assms(1,2) Inr] by auto
    have ok: "qsl_ok ?num (ib_qsl ib)" using ib(1,2) by (auto simp: batch_of_def Let_def)
    then have l: "Suc ?num \<le> length (cam_qsl cam)" using ib(4)
      by (metis Suc_leI length_take min.absorb_iff2 min.commute qsl_ok_def)
    have same: "cam_qsl cam ! j = ib_qsl ib ! j" if "j \<le> ?num" for j
      using arg_cong [OF ib(4), of "\<lambda>xs. xs ! j"] that by simp
    have ok': "qsl_ok (length bases) (cam_qsl cam)" using ok l same ib(3) by (auto simp: qsl_ok_def)
    have pos: "positions_of bases (ib_qsl ib) = positions_of bases (cam_qsl cam)"
      unfolding positions_of_def using same ib(3) by (intro arg_cong [where f = concat] map_cong) auto
    have pos': "positions_of bases ?qsl = positions_of bases (cam_qsl cam)"
      unfolding positions_of_def using ib(3) by (intro arg_cong [where f = concat] map_cong) auto
    have cp: "cam_positions cam = Some (positions_of bases (cam_qsl cam) @ rest)"
      using assms(3) ib(5) by (simp add: meta_of_def pos)
    have dep: "deployed_lens b cam = Inr (cam_qsl cam ! ?num,
        map (\<lambda>p. row_len (lb_topk b) (lb_kpool b) (p + 1)) (positions_of bases (cam_qsl cam)))"
      using deployed_positions [OF ok' ib(3) [symmetric] assms(4) cp] by (simp add: deployed_lens_def ib(3))
    have lens: "lens_from_bases bases ?qsl (lb_topk b) (lb_kpool b) =
        Inr (map (\<lambda>p. row_len (lb_topk b) (lb_kpool b) (p + 1)) (positions_of bases (cam_qsl cam)))"
      using lens_of_positions [of bases ?qsl] ib(3) l pos' by simp
    have rows: "?qsl \<noteq> []" "py_nth ?qsl (int ?num) = Inr (cam_qsl cam ! ?num)" using l by (auto simp: py_nth_def)
    show ?thesis by (simp add: early_lens_def Let_def assms(5) Inr lens rows dep del: take_eq_Nil)
  qed
qed

lemma patched_exact:
  assumes "runner_ok b w" and "w_phase w = Prepared" and "meta_of w cam"
    and "patched_kv_lens_host (deployed_lens b) v b (w_ring w) (w_st w) cam = (st', res)"
  shows "res = deployed_lens b cam" and "e_core st' = e_core (w_st w)" and "e_mismatches st' = e_mismatches (w_st w)"
    and "e_cache st' = e_cache (w_st w) \<or> (\<exists>r. res = Inr r \<and> e_cache st' = Some (cam_id cam, c_serial (e_core (w_st w)), r))"
proof -
  let ?P = "res = deployed_lens b cam \<and> e_core st' = e_core (w_st w) \<and> e_mismatches st' = e_mismatches (w_st w) \<and>
    (e_cache st' = e_cache (w_st w) \<or> (\<exists>r. res = Inr r \<and> e_cache st' = Some (cam_id cam, c_serial (e_core (w_st w)), r)))"
  have "?P"
  proof (cases "\<not> v_active v \<or> \<not> lb_async b \<or> v_capturing v")
    case True
    then show ?thesis using assms(4) by (auto simp: patched_kv_lens_host_def)
  next
    case go: False
    show ?thesis
    proof (cases "cached_lens (w_st w) cam")
      case (Some r)
      have "cache_ok b w" using assms(1) by (simp add: runner_ok_def)
      with Some obtain cam' where "w_seen w (cam_id cam) = Some cam'" "deployed_lens b cam' = Inr r"
        by (cases r) (auto simp: cache_ok_def cached_lens_def split: option.splits if_splits)
      then have "deployed_lens b cam = Inr r" using assms(3) by (auto simp: meta_of_def)
      then show ?thesis using assms(4) go Some by (auto simp: patched_kv_lens_host_def)
    next
      case None
      have e: "early_lens (deployed_lens b) v b (w_ring w) (w_st w\<lparr>e_builds := Suc (e_builds (w_st w))\<rparr>) cam =
          (w_st w\<lparr>e_builds := Suc (e_builds (w_st w))\<rparr>, deployed_lens b cam)"
        using early_exact [OF assms(1-3)] go by simp
      show ?thesis using assms(4) go
        by (cases "deployed_lens b cam") (auto simp: patched_kv_lens_host_def None e)
    qed
  qed
  then show "res = deployed_lens b cam" and "e_core st' = e_core (w_st w)" and "e_mismatches st' = e_mismatches (w_st w)"
    and "e_cache st' = e_cache (w_st w) \<or> (\<exists>r. res = Inr r \<and> e_cache st' = Some (cam_id cam, c_serial (e_core (w_st w)), r))"
    by blast+
qed

section \<open>Every reachable runner is in order\<close>

lemma new_runner_ok: "runner_ok b (runner_new n)"
  by (simp add: runner_ok_def snap_ok_def snap_age_def slots_ok_def batch_ok_def cache_ok_def runner_new_def ep_new_def core_new_def)

lemma runner_step_ok:
  assumes "runner_step b w w'" and "runner_ok b w"
  shows "runner_ok b w'"
  using assms(1)
proof cases
  case (execute tokens unmodelled)
  then show ?thesis using assms(2)
    by (auto simp: runner_ok_def snap_ok_def snap_age_def slots_ok_def batch_ok_def cache_ok_def enter_execute_def
        begin_real_step_def split: if_splits)
next
  case (add r i n)
  then show ?thesis using assms(2)
    by (auto simp: runner_ok_def snap_ok_def snap_age_def slots_ok_def batch_ok_def cache_ok_def enter_add_def note_added_def
        ran_def split: if_splits)
next
  case (remove r)
  then show ?thesis using assms(2)
    by (auto simp: runner_ok_def snap_ok_def snap_age_def slots_ok_def batch_ok_def cache_ok_def split: if_splits)
next
  case (refresh r i n)
  have "w_np w' j = w_nct w' j" if "w_slot w' q = Some j" "q \<in> w_fresh w'" for q j
    using that assms(2) refresh by (cases "q = r"; cases "j = i") (auto simp: runner_ok_def slots_ok_def)
  then show ?thesis using assms(2) refresh(1,2)
    by (simp add: runner_ok_def snap_ok_def snap_age_def slots_ok_def batch_ok_def cache_ok_def)
next
  case (prepare ib pos)
  then show ?thesis using assms(2)
    by (auto simp: runner_ok_def snap_ok_def snap_age_def slots_ok_def batch_ok_def cache_ok_def leave_prepare_def note_batch_def
        batch_of_def Let_def split: if_splits)
next
  case (build cam v st' res)
  note P = patched_exact [OF assms(2) build(2-4)]
  have "cache_ok b w'"
    using assms(2) P build(1,3) unfolding runner_ok_def cache_ok_def meta_of_def by fastforce
  moreover have "batch_ok w'" using assms(2) P(2) build(1) by (auto simp: runner_ok_def batch_ok_def batch_of_def Let_def)
  ultimately show ?thesis using assms(2) P(2,3) build(1)
    by (simp add: runner_ok_def snap_ok_def snap_age_def slots_ok_def)
next
  case (post rows nct' v copied ev st' ring')
  then show ?thesis using assms(2)
    by (auto simp: runner_ok_def snap_ok_def snap_age_def slots_ok_def batch_ok_def cache_ok_def leave_postprocess_def
        note_snapshot_def drop_snapshot_def Let_def split: if_splits)
qed

lemma runner_reach_ok: "runner_reach b w \<Longrightarrow> runner_ok b w"
  by (induction rule: runner_reach.induct) (auto intro: new_runner_ok runner_step_ok)

text \<open>
  C8. The early plan is exact: in every reachable runner, whatever requests came, went or were resumed, whatever steps ran
  without a snapshot and whatever the switches are, a build of the current batch gets the rows and lengths of the deployed
  body, and the spot check has never seen a difference. The stock body is assumed to be the deployed one.
\<close>

theorem early_plan_exact:
  assumes "runner_reach b w" and "w_phase w = Prepared" and "meta_of w cam" and "orig = deployed_lens b"
    and "patched_kv_lens_host orig v b (w_ring w) (w_st w) cam = (st', res)"
  shows "res = deployed_lens b cam \<and> e_mismatches st' = 0"
  using patched_exact [OF runner_reach_ok [OF assms(1)] assms(2,3)] runner_reach_ok [OF assms(1)] assms(4,5)
  by (simp add: runner_ok_def)

text \<open>A run that plans early: a request of five computed tokens is added and advanced by three, the next step builds two rows.\<close>

definition demo_builder :: lens_builder where
  "demo_builder = \<lparr>lb_async = True, lb_topk = 8, lb_kpool = 4\<rparr>"

definition demo_flags :: ep_env where
  "demo_flags = \<lparr>v_active = True, v_capturing = False, v_debug = False, v_every = 0\<rparr>"

definition demo_first :: input_batch where
  "demo_first = \<lparr>ib_num_reqs = 1, ib_qsl = [0, 3], ib_req_ids = [''r''], ib_idx = [1], ib_host = [5], ib_cu_logits = [0, 1], ib_prefilling = [True]\<rparr>"

definition demo_second :: input_batch where
  "demo_second = \<lparr>ib_num_reqs = 1, ib_qsl = [0, 2], ib_req_ids = [''r''], ib_idx = [1], ib_host = [5], ib_cu_logits = [0, 2], ib_prefilling = [False]\<rparr>"

definition demo_added :: runner where
  "demo_added =
     (let w = (runner_new 2)\<lparr>w_st := enter_execute True False (w_st (runner_new 2)), w_phase := Updating\<rparr>
      in w\<lparr>w_st := enter_add ''r'' (w_st w), w_slot := (w_slot w)(''r'' \<mapsto> 1), w_nct := (w_nct w)(1 := 5),
           w_np := (w_np w)(1 := 5), w_fresh := insert ''r'' (w_fresh w)\<rparr>)"

definition demo_ran :: runner where
  "demo_ran = demo_added\<lparr>w_st := leave_prepare demo_first (w_st demo_added), w_pos := [5, 6, 7], w_phase := Prepared\<rparr>"

definition demo_nct :: "nat \<Rightarrow> int" where
  "demo_nct i = (if i = 1 then 8 else 0)"

definition demo_snapshot :: "ep_state \<times> (nat \<Rightarrow> int list)" where
  "demo_snapshot = leave_postprocess demo_flags True 0 (map demo_nct [0..<w_size demo_ran]) (w_ring demo_ran) (w_st demo_ran)"

definition demo_posted :: runner where
  "demo_posted = demo_ran\<lparr>w_st := fst demo_snapshot, w_nct := demo_nct, w_fresh := w_fresh demo_ran - {''r''},
     w_ring := snd demo_snapshot, w_clean := (v_active demo_flags \<and> \<not> v_capturing demo_flags \<and> True), w_phase := Posted\<rparr>"

definition demo_step2 :: runner where
  "demo_step2 =
     (let w = demo_posted\<lparr>w_st := enter_execute True False (w_st demo_posted), w_phase := Updating\<rparr>
      in w\<lparr>w_st := leave_prepare demo_second (w_st w), w_pos := [8, 9], w_phase := Prepared\<rparr>)"

definition demo_meta :: attn_meta where
  "demo_meta = \<lparr>cam_id = 7, cam_num_reqs = 1, cam_qsl = [0, 2], cam_positions = Some [8, 9], cam_seq_lens = [99], cam_upper = None\<rparr>"

lemmas demo_run_defs = demo_added_def demo_ran_def demo_posted_def demo_snapshot_def demo_nct_def demo_step2_def demo_flags_def demo_first_def demo_second_def
  runner_new_def ep_new_def core_new_def enter_execute_def begin_real_step_def enter_add_def note_added_def leave_prepare_def
  note_batch_def leave_postprocess_def note_snapshot_def Let_def

lemma demo_positions: "positions_of [5] [0, 3] = [5, 6, 7]" "positions_of [8] [0, 2] = [8, 9]"
  by code_simp+

lemma demo_reach: "runner_reach b demo_step2"
proof -
  have first: "runner_reach b demo_added"
  proof -
    let ?w = "(runner_new 2)\<lparr>w_st := enter_execute True False (w_st (runner_new 2)), w_phase := Updating\<rparr>"
    have "runner_reach b ?w" by (rule runner_reach.step [OF runner_reach.start runner_step.execute])
    moreover have "runner_step b ?w demo_added"
      unfolding demo_added_def Let_def by (rule runner_step.add) (simp_all add: runner_new_def)
    ultimately show ?thesis by (rule runner_reach.step)
  qed
  have b1: "batch_of demo_added demo_first [5, 6, 7]"
    unfolding batch_of_def Let_def
    by (intro conjI exI [of _ "[5]"] exI [of _ "[]"]) (simp_all add: demo_positions demo_run_defs qsl_ok_def)
  have ran: "runner_reach b demo_ran"
    unfolding demo_ran_def by (rule runner_reach.step [OF first], rule runner_step.prepare [OF _ b1]) (simp add: demo_run_defs)
  have "runner_step b demo_ran demo_posted"
    unfolding demo_posted_def
    by (rule runner_step.post) (simp_all add: demo_snapshot_def [symmetric], simp_all add: demo_run_defs)
  then have posted: "runner_reach b demo_posted" using ran by (rule runner_reach.step [rotated])
  let ?w = "demo_posted\<lparr>w_st := enter_execute True False (w_st demo_posted), w_phase := Updating\<rparr>"
  have entered: "runner_reach b ?w" by (rule runner_reach.step [OF posted runner_step.execute])
  have b2: "batch_of ?w demo_second [8, 9]"
    unfolding batch_of_def Let_def
    by (intro conjI exI [of _ "[8]"] exI [of _ "[]"]) (simp_all add: demo_positions demo_run_defs qsl_ok_def)
  show ?thesis
    unfolding demo_step2_def Let_def by (rule runner_reach.step [OF entered], rule runner_step.prepare [OF _ b2]) simp
qed

lemma early_plan_exact_witness:
  "plan_bases (w_ring demo_step2) (e_core (w_st demo_step2)) 1 [0, 2] = Inr [8] \<and>
   snd (patched_kv_lens_host (deployed_lens demo_builder) demo_flags demo_builder (w_ring demo_step2) (w_st demo_step2) demo_meta) =
     Inr (2, [9, 10])"
proof -
  have m: "meta_of demo_step2 demo_meta" by (simp add: meta_of_def demo_meta_def demo_run_defs)
  have ph: "w_phase demo_step2 = Prepared" by (simp add: demo_step2_def Let_def)
  have "snd (patched_kv_lens_host (deployed_lens demo_builder) demo_flags demo_builder (w_ring demo_step2) (w_st demo_step2) demo_meta) =
      deployed_lens demo_builder demo_meta"
    using early_plan_exact [OF demo_reach ph m refl prod.collapse [symmetric]] by blast
  moreover have "deployed_lens demo_builder demo_meta = Inr (2, [9, 10])" by code_simp
  moreover have "plan_bases (w_ring demo_step2) (e_core (w_st demo_step2)) 1 [0, 2] = Inr [8]"
    by (simp add: plan_bases_def demo_run_defs)
  ultimately show ?thesis by simp
qed

section \<open>The plan fence\<close>




















end
