(* ===== verification/Kv_Registry.thy ===== *)
theory Kv_Registry
  imports Kv_Lens "HOL-Library.AList"
begin

text \<open>
  The registry of \<open>src/overlay/glm_kv_lens_exact.py\<close>: the computed tokens of every request mirrored on the host from the
  counts of sampled tokens that the runner copies anyway, so that the planner's lengths need no read of the device. When
  the mirror is incomplete the deployed body runs and re-anchors it. The operations are state passing on the registry;
  what a count array holds once its event has fired is a field of the record, and whether an event has fired an argument.
\<close>

section \<open>State\<close>

record tracker_entry =
  te_value :: int
  te_serial :: nat

record step_record =
  sr_serial :: nat
  sr_req_ids :: "string list"
  sr_idx :: "int list"
  sr_qsl :: "int list"
  sr_cu_logits :: "int list"
  sr_prefilling :: "bool list"
  sr_sampled :: "int list option"
  sr_event :: "nat option"

text \<open>The two module variables of the last result are \<open>rg_last\<close>.\<close>

record registry =
  rg_serial :: nat
  rg_ib :: "input_batch option"
  rg_ib_serial :: int
  rg_added :: "string set"
  rg_records :: "step_record list"
  rg_tracker :: "(string \<times> tracker_entry) list"
  rg_desync :: bool
  rg_mismatches :: nat
  rg_last :: "(nat \<times> (int \<times> int list)) option"

definition registry_new :: registry where
  "registry_new = \<lparr>rg_serial = 0, rg_ib = None, rg_ib_serial = - 1, rg_added = {}, rg_records = [], rg_tracker = [],
     rg_desync = False, rg_mismatches = 0, rg_last = None\<rparr>"

section \<open>Records\<close>

text \<open>\<open>delta_for\<close>: what the device adds to a row's request; \<open>row_of\<close>: the first row of a request.\<close>

definition delta_for :: "step_record \<Rightarrow> nat \<Rightarrow> int result" where
  "delta_for rec row =
     bind_r (py_nth (sr_idx rec) (int row)) (\<lambda>i.
     if i < 0 then Inr 0
     else bind_r (py_nth (sr_qsl rec) (int row + 1)) (\<lambda>e. bind_r (py_nth (sr_qsl rec) (int row)) (\<lambda>a.
          bind_r (py_nth (sr_prefilling rec) (int row)) (\<lambda>pre.
          if pre then Inr (e - a)
          else case sr_sampled rec of
                 None \<Rightarrow> Inr 0
               | Some sampled \<Rightarrow>
                   bind_r (py_nth (sr_cu_logits rec) (int row + 1)) (\<lambda>c1. bind_r (py_nth (sr_cu_logits rec) (int row)) (\<lambda>c0.
                   bind_r (py_nth sampled (int row)) (\<lambda>n. Inr (e - a - (c1 - c0 - n)))))))))"

fun index_of :: "'a \<Rightarrow> 'a list \<Rightarrow> nat option" where
  "index_of x [] = None"
| "index_of x (y # ys) = (if x = y then Some 0 else map_option Suc (index_of x ys))"

definition row_of :: "step_record \<Rightarrow> string \<Rightarrow> nat option" where
  "row_of rec r = index_of r (sr_req_ids rec)"

definition has_fired :: "(nat \<Rightarrow> bool) \<Rightarrow> step_record \<Rightarrow> bool" where
  "has_fired fired rec = (case sr_event rec of None \<Rightarrow> sr_sampled rec \<noteq> None | Some ev \<Rightarrow> fired ev)"

section \<open>Hooks\<close>

definition note_serial :: "registry \<Rightarrow> registry" where
  "note_serial g = g\<lparr>rg_serial := rg_serial g + 1, rg_added := {}\<rparr>"

definition note_current_batch :: "input_batch \<Rightarrow> registry \<Rightarrow> registry" where
  "note_current_batch ib g = g\<lparr>rg_ib := Some ib, rg_ib_serial := int (rg_serial g)\<rparr>"

definition note_request :: "string \<Rightarrow> registry \<Rightarrow> registry" where
  "note_request r g = g\<lparr>rg_added := insert r (rg_added g)\<rparr>"

definition note_desync :: "bool \<Rightarrow> registry \<Rightarrow> registry" where
  "note_desync d g = g\<lparr>rg_desync := d\<rparr>"

text \<open>\<open>_prune_locked\<close>, and \<open>note_sample\<close>: the deque keeps eight records.\<close>

definition prune :: "registry \<Rightarrow> registry" where
  "prune g =
     (if length (rg_tracker g) \<le> 4096 then g
      else g\<lparr>rg_tracker := filter (\<lambda>(r, e). \<not> int (te_serial e) < int (rg_serial g) - 1024) (rg_tracker g)\<rparr>)"

definition push_record :: "step_record \<Rightarrow> step_record list \<Rightarrow> step_record list" where
  "push_record rec recs = drop (length recs - 7) recs @ [rec]"

definition record_of :: "nat \<Rightarrow> input_batch \<Rightarrow> int list option \<Rightarrow> nat option \<Rightarrow> step_record" where
  "record_of serial ib sampled event =
     \<lparr>sr_serial = serial, sr_req_ids = take (ib_num_reqs ib) (ib_req_ids ib), sr_idx = ib_idx ib, sr_qsl = ib_qsl ib,
      sr_cu_logits = ib_cu_logits ib, sr_prefilling = ib_prefilling ib, sr_sampled = sampled, sr_event = event\<rparr>"

definition note_sample :: "input_batch \<Rightarrow> int list option \<Rightarrow> nat option \<Rightarrow> registry \<Rightarrow> registry" where
  "note_sample ib sampled event g = prune (g\<lparr>rg_records := push_record (record_of (rg_serial g) ib sampled event) (rg_records g)\<rparr>)"

section \<open>The decision\<close>

definition record_for :: "registry \<Rightarrow> nat \<Rightarrow> step_record option" where
  "record_for g s = find (\<lambda>rec. sr_serial rec = s) (rg_records g)"

fun unfold_records :: "(nat \<Rightarrow> bool) \<Rightarrow> string \<Rightarrow> nat \<Rightarrow> int \<Rightarrow> step_record list \<Rightarrow> int option result" where
  "unfold_records fired r s v [] = Inr (Some v)"
| "unfold_records fired r s v (rec # recs) =
     (if sr_serial rec < s then unfold_records fired r s v recs
      else case row_of rec r of
             None \<Rightarrow> unfold_records fired r s v recs
           | Some row \<Rightarrow>
               if sr_sampled rec = None \<or> \<not> has_fired fired rec then Inr None
               else bind_r (delta_for rec row) (\<lambda>d. unfold_records fired r s (v + d) recs))"

definition unfold_value :: "(nat \<Rightarrow> bool) \<Rightarrow> registry \<Rightarrow> string \<Rightarrow> int option result" where
  "unfold_value fired g r =
     (case map_of (rg_tracker g) r of
        None \<Rightarrow> Inr None
      | Some e \<Rightarrow>
          if \<exists>s\<in>set [te_serial e..<rg_serial g]. record_for g s = None then Inr None
          else unfold_records fired r (te_serial e) (te_value e) (rg_records g))"

fun row_values :: "(nat \<Rightarrow> bool) \<Rightarrow> registry \<Rightarrow> int list \<Rightarrow> nat \<Rightarrow> string list \<Rightarrow> int list option result" where
  "row_values fired g nct row [] = Inr (Some [])"
| "row_values fired g nct row (r # rs) =
     bind_r (if r \<in> rg_added g then Inr (if row < length nct then Some (nct ! row) else None) else unfold_value fired g r) (\<lambda>v.
       case v of
         None \<Rightarrow> Inr None
       | Some x \<Rightarrow> map_sum id (map_option (Cons x)) (row_values fired g nct (Suc row) rs))"

definition host_values :: "(nat \<Rightarrow> bool) \<Rightarrow> registry \<Rightarrow> input_batch \<Rightarrow> int list option result" where
  "host_values fired g ib =
     (if rg_desync g \<or> rg_ib_serial g \<noteq> int (rg_serial g) then Inr None
      else row_values fired g (ib_host ib) 0 (take (ib_num_reqs ib) (ib_req_ids ib)))"

section \<open>Anchoring the tracker\<close>

definition anchor :: "string \<Rightarrow> int \<Rightarrow> registry \<Rightarrow> registry" where
  "anchor r v g = g\<lparr>rg_tracker := AList.update r \<lparr>te_value = v, te_serial = rg_serial g\<rparr> (rg_tracker g)\<rparr>"

definition commit :: "input_batch \<Rightarrow> int list \<Rightarrow> registry \<Rightarrow> registry" where
  "commit ib values g = foldl (\<lambda>g (r, v). anchor r v g) g (zip (take (ib_num_reqs ib) (ib_req_ids ib)) values)"

definition invalidate :: "input_batch \<Rightarrow> registry \<Rightarrow> registry" where
  "invalidate ib g = g\<lparr>rg_tracker := foldl (\<lambda>t r. AList.delete r t) (rg_tracker g) (take (ib_num_reqs ib) (ib_req_ids ib))\<rparr>"

text \<open>\<open>heal\<close>: an index out of range ends the loop, the rows before it stay anchored.\<close>

fun heal_rows :: "int list \<Rightarrow> int list \<Rightarrow> nat \<Rightarrow> string list \<Rightarrow> registry \<Rightarrow> registry" where
  "heal_rows ctx qsl row [] g = g"
| "heal_rows ctx qsl row (r # rs) g =
     (case bind_r (py_nth qsl (int row)) (py_nth ctx) of
        Inl x \<Rightarrow> g
      | Inr c \<Rightarrow> heal_rows ctx qsl (Suc row) rs (anchor r (c - 1) g))"

definition heal :: "input_batch \<Rightarrow> int list \<Rightarrow> int list \<Rightarrow> registry \<Rightarrow> registry" where
  "heal ib ctx qsl g = heal_rows ctx qsl 0 (take (ib_num_reqs ib) (ib_req_ids ib)) g"

section \<open>The patched body\<close>

text \<open>The registry's own copy of the deployed body, with what it does to the tracker.\<close>

definition fallback_lens :: "lens_builder \<Rightarrow> registry \<Rightarrow> attn_meta \<Rightarrow> registry \<times> (int \<times> int list) result" where
  "fallback_lens b g cam =
     (case deployed_body b cam of
        Inl x \<Rightarrow> (g, Inl x)
      | Inr (num_rows, ctx, lens, br) \<Rightarrow>
          (case rg_ib g of
             Some ib \<Rightarrow>
               if rg_ib_serial g = int (rg_serial g)
               then (if br = From_positions \<or> br = Upper_bound then heal ib ctx (cam_qsl cam) g
                     else if br = Optimistic_seq_lens then invalidate ib g else g)
               else g
           | None \<Rightarrow> g,
           Inr (num_rows, lens)))"

definition mirror_lens ::
    "bool \<Rightarrow> lens_builder \<Rightarrow> input_batch \<Rightarrow> int list \<Rightarrow> registry \<Rightarrow> attn_meta \<Rightarrow> registry \<times> (int \<times> int list) result" where
  "mirror_lens debug b ib values g cam =
     (case lens_from_values values (cam_qsl cam) (cam_num_reqs cam) (lb_topk b) (lb_kpool b) of
        Inl x \<Rightarrow> (g, Inl x)
      | Inr (num_rows, lens) \<Rightarrow>
          if debug
          then (case deployed_body b cam of
                  Inl x \<Rightarrow> (g, Inl x)
                | Inr (d_rows, ctx, d_lens, br) \<Rightarrow>
                    (heal ib ctx (cam_qsl cam)
                       (g\<lparr>rg_mismatches := rg_mismatches g + (if d_rows \<noteq> num_rows \<or> d_lens \<noteq> lens then 1 else 0)\<rparr>),
                     Inr (num_rows, d_lens)))
          else (commit ib values g, Inr (num_rows, lens)))"

definition mirror_values :: "(nat \<Rightarrow> bool) \<Rightarrow> bool \<Rightarrow> registry \<Rightarrow> (input_batch \<times> int list) option result" where
  "mirror_values fired capturing g =
     (case rg_ib g of
        None \<Rightarrow> Inr None
      | Some ib \<Rightarrow>
          if rg_ib_serial g = int (rg_serial g) \<and> \<not> rg_desync g \<and> \<not> capturing
          then map_sum id (map_option (Pair ib)) (host_values fired g ib) else Inr None)"

definition registry_kv_lens ::
    "(nat \<Rightarrow> bool) \<Rightarrow> bool \<Rightarrow> bool \<Rightarrow> lens_builder \<Rightarrow> registry \<Rightarrow> attn_meta \<Rightarrow> registry \<times> (int \<times> int list) result" where
  "registry_kv_lens fired capturing debug b g cam =
     (case (case rg_last g of Some (i, res) \<Rightarrow> if i = cam_id cam then Some res else None | None \<Rightarrow> None) of
        Some res \<Rightarrow> (g, Inr res)
      | None \<Rightarrow>
          (case (case mirror_values fired capturing g of
                   Inl x \<Rightarrow> (g, Inl x)
                 | Inr (Some (ib, values)) \<Rightarrow> mirror_lens debug b ib values g cam
                 | Inr None \<Rightarrow> fallback_lens b g cam) of
             (g1, Inl x) \<Rightarrow> (g1, Inl x)
           | (g1, Inr res) \<Rightarrow> (g1\<lparr>rg_last := Some (cam_id cam, res)\<rparr>, Inr res)))"

section \<open>The wrappers of the runner\<close>

definition registry_execute :: "bool \<Rightarrow> bool \<Rightarrow> registry \<Rightarrow> registry" where
  "registry_execute tokens unmodelled g = note_desync unmodelled (if tokens then note_serial g else g)"

text \<open>\<open>sample_tokens\<close>: \<open>out\<close> is the count array and the event of a result that has one.\<close>

definition registry_sample :: "input_batch option \<Rightarrow> (int list option \<times> nat option) option \<Rightarrow> registry \<Rightarrow> registry" where
  "registry_sample ib out g =
     (case (ib, out) of (Some ib, Some (sampled, event)) \<Rightarrow> note_sample ib sampled event g | _ \<Rightarrow> g)"

section \<open>The runner around it\<close>

text \<open>
  What \<open>post_update\<close> adds to a request: its query length less the rejected drafts, none while it is prefilling.
\<close>

definition device_delta :: "input_batch \<Rightarrow> int list \<Rightarrow> nat \<Rightarrow> int" where
  "device_delta ib sampled j =
     (let q = ib_qsl ib ! Suc j - ib_qsl ib ! j
      in if ib_prefilling ib ! j then q else q - (ib_cu_logits ib ! Suc j - ib_cu_logits ib ! j - sampled ! j))"

definition row_delta :: "input_batch \<Rightarrow> int list \<Rightarrow> string \<Rightarrow> int" where
  "row_delta ib sampled r =
     (case index_of r (take (ib_num_reqs ib) (ib_req_ids ib)) of None \<Rightarrow> 0 | Some j \<Rightarrow> device_delta ib sampled j)"

text \<open>
  \<open>k_new\<close> are the requests added since the step began that no build has covered, \<open>k_delta\<close> what every step added to every
  request, \<open>k_seen\<close> the metadata objects of the current batch, \<open>k_gone\<close> those of earlier and of dummy batches.
\<close>

record mirror = device +
  k_reg :: registry
  k_real :: bool
  k_new :: "string set"
  k_delta :: "nat \<Rightarrow> string \<Rightarrow> int"
  k_seen :: "nat \<Rightarrow> attn_meta option"
  k_gone :: "nat set"

definition mirror_new :: "nat \<Rightarrow> mirror" where
  "mirror_new n = \<lparr>w_nct = (\<lambda>i. 0), w_np = (\<lambda>i. 0), w_size = n, w_slot = Map.empty, w_fresh = {}, w_pos = [],
     w_phase = Posted, k_reg = registry_new, k_real = False, k_new = {}, k_delta = (\<lambda>s r. 0), k_seen = Map.empty, k_gone = {}\<rparr>"

text \<open>A batch with tokens: no row is filtered, every request of it has a token, and the per-row arrays are as long as the batch.\<close>

definition real_batch :: "'a device_scheme \<Rightarrow> input_batch \<Rightarrow> int list \<Rightarrow> bool" where
  "real_batch w ib pos \<longleftrightarrow>
     (let n = ib_num_reqs ib
      in batch_of w ib pos \<and> (\<forall>j<n. 0 \<le> ib_idx ib ! j \<and> ib_qsl ib ! j < ib_qsl ib ! Suc j) \<and>
         distinct (take n (ib_req_ids ib)) \<and> n < length (ib_cu_logits ib) \<and> n \<le> length (ib_prefilling ib))"

definition batch_ids :: "input_batch \<Rightarrow> string set" where
  "batch_ids ib = set (take (ib_num_reqs ib) (ib_req_ids ib))"

text \<open>The metadata of a batch, padded with requests that have no rows.\<close>

definition padded_meta :: "input_batch \<Rightarrow> int list \<Rightarrow> attn_meta \<Rightarrow> bool" where
  "padded_meta ib pos cam \<longleftrightarrow>
     (let n = ib_num_reqs ib; m = cam_num_reqs cam
      in n \<le> m \<and> qsl_ok m (cam_qsl cam) \<and> (\<forall>j\<le>n. cam_qsl cam ! j = ib_qsl ib ! j) \<and>
         (\<forall>j. n \<le> j \<longrightarrow> j < m \<longrightarrow> cam_qsl cam ! Suc j = cam_qsl cam ! j) \<and> cam_positions cam = Some pos)"

inductive mirror_step :: "lens_builder \<Rightarrow> mirror \<Rightarrow> mirror \<Rightarrow> bool" for b where
  execute: "k_new w = {} \<Longrightarrow>
    mirror_step b w (w\<lparr>k_reg := registry_execute tokens unmodelled (k_reg w), k_real := tokens, w_phase := Updating\<rparr>)"
| add: "w_phase w = Updating \<Longrightarrow> k_real w \<Longrightarrow> w_slot w r = None \<Longrightarrow> i < w_size w \<Longrightarrow> i \<notin> ran (w_slot w) \<Longrightarrow>
    mirror_step b w (w\<lparr>k_reg := note_request r (k_reg w), w_slot := (w_slot w)(r \<mapsto> i), w_nct := (w_nct w)(i := n),
      w_np := (w_np w)(i := n), w_fresh := insert r (w_fresh w), k_new := insert r (k_new w)\<rparr>)"
| remove: "w_phase w = Updating \<Longrightarrow>
    mirror_step b w (w\<lparr>w_slot := (w_slot w)(r := None), w_fresh := w_fresh w - {r}, k_new := k_new w - {r}\<rparr>)"
| refresh: "w_phase w = Updating \<Longrightarrow> w_slot w r = Some i \<Longrightarrow> (r \<in> w_fresh w \<Longrightarrow> n = w_nct w i) \<Longrightarrow>
    mirror_step b w (w\<lparr>w_np := (w_np w)(i := n)\<rparr>)"
| prepare: "w_phase w = Updating \<Longrightarrow> k_real w \<Longrightarrow> real_batch w ib pos \<Longrightarrow> k_new w \<subseteq> batch_ids ib \<Longrightarrow>
    mirror_step b w (w\<lparr>k_reg := note_current_batch ib (k_reg w), w_pos := pos, w_phase := Prepared,
      k_gone := k_gone w \<union> dom (k_seen w), k_seen := Map.empty\<rparr>)"
| dummy: "w_phase w = Updating \<Longrightarrow> \<not> k_real w \<Longrightarrow> batch_ids ib \<inter> dom (w_slot w) = {} \<Longrightarrow>
    mirror_step b w (w\<lparr>k_reg := note_current_batch ib (k_reg w), w_pos := pos, w_phase := Prepared\<rparr>)"
| build: "w_phase w = Prepared \<Longrightarrow> k_real w \<Longrightarrow> rg_ib (k_reg w) = Some ib \<Longrightarrow> padded_meta ib (w_pos w) cam \<Longrightarrow>
    cam_id cam \<notin> k_gone w \<Longrightarrow> k_seen w (cam_id cam) \<in> {None, Some cam} \<Longrightarrow>
    registry_kv_lens fired capturing debug b (k_reg w) cam = (g, res) \<Longrightarrow>
    mirror_step b w (w\<lparr>k_reg := g, k_seen := (k_seen w)(cam_id cam \<mapsto> cam), k_new := {}\<rparr>)"
| dummy_build: "w_phase w = Prepared \<Longrightarrow> \<not> k_real w \<Longrightarrow> k_seen w (cam_id cam) = None \<Longrightarrow>
    registry_kv_lens fired capturing debug b (k_reg w) cam = (g, res) \<Longrightarrow> rg_mismatches g = rg_mismatches (k_reg w) \<Longrightarrow>
    mirror_step b w (w\<lparr>k_reg := g, k_gone := insert (cam_id cam) (k_gone w)\<rparr>)"
| post: "w_phase w = Prepared \<Longrightarrow> k_real w \<Longrightarrow> k_new w = {} \<Longrightarrow> rg_ib (k_reg w) = Some ib \<Longrightarrow>
    ib_num_reqs ib \<le> length sampled \<Longrightarrow> (\<forall>r i. w_slot w r = Some i \<longrightarrow> nct' i = w_nct w i + row_delta ib sampled r) \<Longrightarrow>
    out = None \<or> (\<exists>ev. out = Some (Some sampled, ev) \<or> out = Some (None, ev)) \<Longrightarrow>
    mirror_step b w (w\<lparr>k_reg := registry_sample (Some ib) out (k_reg w), w_nct := nct', w_fresh := w_fresh w - batch_ids ib,
      k_delta := (k_delta w)(rg_serial (k_reg w) := row_delta ib sampled), w_phase := Posted\<rparr>)"

inductive mirror_reach :: "lens_builder \<Rightarrow> mirror \<Rightarrow> bool" for b where
  start: "mirror_reach b (mirror_new n)"
| step: "mirror_reach b w \<Longrightarrow> mirror_step b w w' \<Longrightarrow> mirror_reach b w'"

section \<open>The mirror is exact\<close>

definition in_step :: "mirror \<Rightarrow> bool" where
  "in_step w \<longleftrightarrow> k_real w \<and> w_phase w \<noteq> Posted"

definition tracker_ok :: "mirror \<Rightarrow> bool" where
  "tracker_ok w \<longleftrightarrow>
     distinct (map fst (rg_tracker (k_reg w))) \<and>
     (\<forall>r i e. w_slot w r = Some i \<longrightarrow> r \<notin> k_new w \<longrightarrow> map_of (rg_tracker (k_reg w)) r = Some e \<longrightarrow>
        te_serial e \<le> rg_serial (k_reg w) \<and>
        w_nct w i = te_value e + (\<Sum>s\<in>{te_serial e..rg_serial (k_reg w)}. k_delta w s r))"

definition delta_ok :: "mirror \<Rightarrow> bool" where
  "delta_ok w \<longleftrightarrow>
     (\<forall>s r. rg_serial (k_reg w) < s \<or> in_step w \<and> s = rg_serial (k_reg w) \<longrightarrow> k_delta w s r = 0)"

definition good_record :: "(nat \<Rightarrow> string \<Rightarrow> int) \<Rightarrow> step_record \<Rightarrow> bool" where
  "good_record delta rec \<longleftrightarrow>
     (\<forall>r. case row_of rec r of
            None \<Rightarrow> delta (sr_serial rec) r = 0
          | Some row \<Rightarrow> sr_sampled rec \<noteq> None \<longrightarrow> delta_for rec row = Inr (delta (sr_serial rec) r))"

definition records_ok :: "mirror \<Rightarrow> bool" where
  "records_ok w \<longleftrightarrow>
     distinct (map sr_serial (rg_records (k_reg w))) \<and>
     (\<forall>rec\<in>set (rg_records (k_reg w)). good_record (k_delta w) rec \<and>
        (if in_step w then sr_serial rec < rg_serial (k_reg w) else sr_serial rec \<le> rg_serial (k_reg w)))"

definition added_ok :: "mirror \<Rightarrow> bool" where
  "added_ok w \<longleftrightarrow>
     k_new w \<subseteq> rg_added (k_reg w) \<and> k_new w \<subseteq> dom (w_slot w) \<and> (k_new w \<noteq> {} \<longrightarrow> in_step w) \<and>
     (in_step w \<longrightarrow> rg_added (k_reg w) \<inter> dom (w_slot w) \<subseteq> w_fresh w)"

definition prepared_ok :: "mirror \<Rightarrow> bool" where
  "prepared_ok w \<longleftrightarrow>
     (w_phase w = Prepared \<longrightarrow> (\<exists>ib. rg_ib (k_reg w) = Some ib \<and> rg_ib_serial (k_reg w) = int (rg_serial (k_reg w)) \<and>
        (if k_real w then real_batch w ib (w_pos w) \<and> k_new w \<subseteq> batch_ids ib else batch_ids ib \<inter> dom (w_slot w) = {})))"

definition last_res_ok :: "lens_builder \<Rightarrow> mirror \<Rightarrow> bool" where
  "last_res_ok b w \<longleftrightarrow>
     rg_mismatches (k_reg w) = 0 \<and> (in_step w \<longrightarrow> w_phase w = Prepared \<longrightarrow> k_seen w \<noteq> Map.empty \<longrightarrow> k_new w = {}) \<and>
     (\<forall>i res. rg_last (k_reg w) = Some (i, res) \<longrightarrow>
        i \<in> k_gone w \<or> (\<exists>cam. k_seen w i = Some cam \<and> deployed_lens b cam = Inr res))"

definition mirror_ok :: "lens_builder \<Rightarrow> mirror \<Rightarrow> bool" where
  "mirror_ok b w \<longleftrightarrow>
     slots_ok w \<and> tracker_ok w \<and> delta_ok w \<and> records_ok w \<and> added_ok w \<and> prepared_ok w \<and> last_res_ok b w"

lemma unfold_records_sum:
  assumes "\<forall>rec\<in>set recs. good_record delta rec"
  shows "unfold_records fired r s v recs = Inr None \<or>
    unfold_records fired r s v recs = Inr (Some (v + (\<Sum>rec\<leftarrow>filter (\<lambda>rec. s \<le> sr_serial rec) recs. delta (sr_serial rec) r)))"
  using assms
proof (induction recs arbitrary: v)
  case (Cons rec recs)
  then have IH: "unfold_records fired r s v' recs = Inr None \<or>
      unfold_records fired r s v' recs = Inr (Some (v' + (\<Sum>rec\<leftarrow>filter (\<lambda>rec. s \<le> sr_serial rec) recs. delta (sr_serial rec) r)))" for v'
    by simp
  have "case row_of rec r of None \<Rightarrow> delta (sr_serial rec) r = 0
      | Some row \<Rightarrow> sr_sampled rec \<noteq> None \<longrightarrow> delta_for rec row = Inr (delta (sr_serial rec) r)"
    using Cons.prems by (simp add: good_record_def)
  then show ?case using IH [of v] IH [of "v + delta (sr_serial rec) r"]
    by (auto simp: add.assoc split: option.splits)
qed simp

text \<open>A value the mirror gives is the device's.\<close>

lemma unfold_value_exact:
  assumes "mirror_ok b w" and "in_step w" and "w_slot w r = Some i" and "r \<notin> k_new w"
  shows "unfold_value fired (k_reg w) r = Inr None \<or> unfold_value fired (k_reg w) r = Inr (Some (w_nct w i))"
proof (cases "map_of (rg_tracker (k_reg w)) r")
  case None
  then show ?thesis by (simp add: unfold_value_def)
next
  case e: (Some e)
  let ?g = "k_reg w" and ?s = "te_serial e"
  have tr: "?s \<le> rg_serial ?g" "w_nct w i = te_value e + (\<Sum>s\<in>{?s..rg_serial ?g}. k_delta w s r)"
    using assms e by (auto simp: mirror_ok_def tracker_ok_def)
  show ?thesis
  proof (cases "\<exists>s\<in>set [?s..<rg_serial ?g]. record_for ?g s = None")
    case True
    then show ?thesis using e by (simp add: unfold_value_def)
  next
    case False
    let ?rs = "filter (\<lambda>rec. ?s \<le> sr_serial rec) (rg_records ?g)"
    have all: "{?s..<rg_serial ?g} = sr_serial ` set ?rs"
    proof (rule set_eqI, rule iffI)
      fix s assume s: "s \<in> {?s..<rg_serial ?g}"
      then obtain rec where "record_for ?g s = Some rec" using False by fastforce
      then show "s \<in> sr_serial ` set ?rs" using s by (force simp: record_for_def find_Some_iff)
    next
      fix s assume "s \<in> sr_serial ` set ?rs"
      then show "s \<in> {?s..<rg_serial ?g}" using assms(1,2) by (auto simp: mirror_ok_def records_ok_def)
    qed
    have "(\<Sum>rec\<leftarrow>?rs. k_delta w (sr_serial rec) r) = (\<Sum>s\<leftarrow>map sr_serial ?rs. k_delta w s r)" by (simp add: comp_def)
    also have "\<dots> = (\<Sum>s\<in>sr_serial ` set ?rs. k_delta w s r)"
    proof -
      have "distinct (map sr_serial ?rs)" using assms(1) by (simp add: mirror_ok_def records_ok_def distinct_map_filter)
      then show ?thesis by (simp add: sum_list_distinct_conv_sum_set del: map_map)
    qed
    also have "\<dots> = (\<Sum>s\<in>{?s..<rg_serial ?g}. k_delta w s r)" by (simp only: all)
    also have "\<dots> = (\<Sum>s\<in>{?s..rg_serial ?g}. k_delta w s r)"
    proof -
      have "{?s..rg_serial ?g} = insert (rg_serial ?g) {?s..<rg_serial ?g}" using tr(1) by auto
      then show ?thesis using assms(1,2) by (simp add: mirror_ok_def delta_ok_def)
    qed
    finally show ?thesis
      using unfold_records_sum [of "rg_records ?g" "k_delta w" fired r ?s "te_value e"] assms(1) e False tr(2)
      by (auto simp: unfold_value_def mirror_ok_def records_ok_def)
  qed
qed

text \<open>The bases of the current batch.\<close>

definition bases_of :: "'a device_scheme \<Rightarrow> input_batch \<Rightarrow> int list" where
  "bases_of w ib = map (\<lambda>j. w_nct w (nat (ib_idx ib ! j))) [0..<ib_num_reqs ib]"

lemma real_batchD:
  assumes "real_batch w ib pos"
  shows "\<exists>rest. pos = positions_of (bases_of w ib) (ib_qsl ib) @ rest" and "length (bases_of w ib) = ib_num_reqs ib"
    and "qsl_ok (ib_num_reqs ib) (ib_qsl ib)" and "ib_num_reqs ib \<le> length (ib_req_ids ib)" and "ib_num_reqs ib \<le> length (ib_host ib)"
    and "\<And>j. j < ib_num_reqs ib \<Longrightarrow> w_slot w (ib_req_ids ib ! j) = Some (nat (ib_idx ib ! j)) \<and>
      ib_host ib ! j = w_np w (nat (ib_idx ib ! j)) \<and> ib_qsl ib ! j < ib_qsl ib ! Suc j"
proof -
  obtain bs rest where bs: "length bs = ib_num_reqs ib" "pos = positions_of bs (ib_qsl ib) @ rest"
      "\<forall>j<ib_num_reqs ib. bs ! j = w_nct w (nat (ib_idx ib ! j))"
    using assms by (auto simp: real_batch_def batch_of_def Let_def)
  then have "bs = bases_of w ib" by (intro nth_equalityI) (simp_all add: bases_of_def)
  with bs(2) show "\<exists>rest. pos = positions_of (bases_of w ib) (ib_qsl ib) @ rest" by blast
qed (use assms in \<open>auto simp: real_batch_def batch_of_def bases_of_def Let_def\<close>)

lemma row_values_exact:
  assumes "\<And>j. j < length rs \<Longrightarrow>
      (rs ! j \<in> rg_added g \<longrightarrow> row + j < length nct \<and> nct ! (row + j) = bs ! (row + j)) \<and>
      (rs ! j \<notin> rg_added g \<longrightarrow> unfold_value fired g (rs ! j) \<in> {Inr None, Inr (Some (bs ! (row + j)))})"
    and "row + length rs \<le> length bs"
  shows "row_values fired g nct row rs \<in> {Inr None, Inr (Some (take (length rs) (drop row bs)))}"
  using assms
proof (induction rs arbitrary: row)
  case (Cons r rs)
  have IH: "row_values fired g nct (Suc row) rs \<in> {Inr None, Inr (Some (take (length rs) (drop (Suc row) bs)))}"
    by (rule Cons.IH) (use Cons.prems(1) [of "Suc j" for j] Cons.prems(2) in auto)
  have row: "row < length bs" using Cons.prems(2) by simp
  have "take (length (r # rs)) (drop row bs) = bs ! row # take (length rs) (drop (Suc row) bs)"
    using row by (simp flip: Cons_nth_drop_Suc)
  then show ?case using IH Cons.prems(1) [of 0] by auto
qed simp

lemma host_values_exact:
  assumes "mirror_ok b w" and "in_step w" and "real_batch w ib (w_pos w)"
  shows "host_values fired (k_reg w) ib = Inr None \<or> host_values fired (k_reg w) ib = Inr (Some (bases_of w ib))"
proof -
  let ?n = "ib_num_reqs ib" and ?ids = "take (ib_num_reqs ib) (ib_req_ids ib)"
  note B = real_batchD [OF assms(3)]
  have len: "length ?ids = ?n" using B(4) by simp
  have "row_values fired (k_reg w) (ib_host ib) 0 ?ids \<in> {Inr None, Inr (Some (take (length ?ids) (drop 0 (bases_of w ib))))}"
  proof (rule row_values_exact)
    fix j assume "j < length ?ids"
    then have j: "j < ?n" using len by simp
    let ?r = "ib_req_ids ib ! j"
    have live: "w_slot w ?r = Some (nat (ib_idx ib ! j))" "ib_host ib ! j = w_np w (nat (ib_idx ib ! j))"
      "bases_of w ib ! j = w_nct w (nat (ib_idx ib ! j))" using B(6) [OF j] j by (simp_all add: bases_of_def)
    have "ib_host ib ! j = bases_of w ib ! j" if "?r \<in> rg_added (k_reg w)"
    proof -
      have "?r \<in> w_fresh w" using assms(1,2) that live(1) by (auto simp: mirror_ok_def added_ok_def)
      then show ?thesis using assms(1) live by (simp add: mirror_ok_def slots_ok_def)
    qed
    moreover have "unfold_value fired (k_reg w) ?r \<in> {Inr None, Inr (Some (bases_of w ib ! j))}" if "?r \<notin> rg_added (k_reg w)"
      using unfold_value_exact [OF assms(1,2) live(1), of fired] that assms(1) live(3)
      by (auto simp: mirror_ok_def added_ok_def)
    ultimately show "(?ids ! j \<in> rg_added (k_reg w) \<longrightarrow> 0 + j < length (ib_host ib) \<and> ib_host ib ! (0 + j) = bases_of w ib ! (0 + j)) \<and>
        (?ids ! j \<notin> rg_added (k_reg w) \<longrightarrow>
          unfold_value fired (k_reg w) (?ids ! j) \<in> {Inr None, Inr (Some (bases_of w ib ! (0 + j)))})"
      using j B(5) by simp
  qed (use len B(2) in simp)
  then show ?thesis using B(2) len by (auto simp: host_values_def)
qed

text \<open>Anchoring the whole batch at its bases.\<close>

lemma anchor_fields [simp]:
  "rg_serial (anchor r v g) = rg_serial g" "rg_ib (anchor r v g) = rg_ib g" "rg_ib_serial (anchor r v g) = rg_ib_serial g"
  "rg_added (anchor r v g) = rg_added g" "rg_records (anchor r v g) = rg_records g" "rg_mismatches (anchor r v g) = rg_mismatches g"
  "rg_last (anchor r v g) = rg_last g"
  by (simp_all add: anchor_def)

lemma anchors_fields [simp]:
  "rg_serial (foldl (\<lambda>g (r, v). anchor r v g) g xs) = rg_serial g" "rg_ib (foldl (\<lambda>g (r, v). anchor r v g) g xs) = rg_ib g"
  "rg_ib_serial (foldl (\<lambda>g (r, v). anchor r v g) g xs) = rg_ib_serial g"
  "rg_added (foldl (\<lambda>g (r, v). anchor r v g) g xs) = rg_added g"
  "rg_records (foldl (\<lambda>g (r, v). anchor r v g) g xs) = rg_records g"
  "rg_mismatches (foldl (\<lambda>g (r, v). anchor r v g) g xs) = rg_mismatches g"
  "rg_last (foldl (\<lambda>g (r, v). anchor r v g) g xs) = rg_last g"
  by (induction xs arbitrary: g) auto

lemma anchors_tracker:
  assumes "distinct (map fst xs)" and "distinct (map fst (rg_tracker g))"
  shows "distinct (map fst (rg_tracker (foldl (\<lambda>g (r, v). anchor r v g) g xs)))"
    and "map_of (rg_tracker (foldl (\<lambda>g (r, v). anchor r v g) g xs)) r =
      (case map_of xs r of None \<Rightarrow> map_of (rg_tracker g) r | Some v \<Rightarrow> Some \<lparr>te_value = v, te_serial = rg_serial g\<rparr>)"
proof -
  have "distinct (map fst (rg_tracker (foldl (\<lambda>g (r, v). anchor r v g) g xs))) \<and>
      map_of (rg_tracker (foldl (\<lambda>g (r, v). anchor r v g) g xs)) r =
      (case map_of xs r of None \<Rightarrow> map_of (rg_tracker g) r | Some v \<Rightarrow> Some \<lparr>te_value = v, te_serial = rg_serial g\<rparr>)"
    using assms
  proof (induction xs arbitrary: g)
    case (Cons x xs)
    obtain q v where x: "x = (q, v)" by (cases x)
    have d: "distinct (map fst (rg_tracker (anchor q v g)))" using Cons.prems(2) by (simp add: anchor_def distinct_update)
    have m: "map_of (rg_tracker (anchor q v g)) = (map_of (rg_tracker g))(q \<mapsto> \<lparr>te_value = v, te_serial = rg_serial g\<rparr>)"
      by (simp add: anchor_def update_conv')
    have "map_of xs q = None" using Cons.prems(1) x by (simp add: map_of_eq_None_iff)
    then show ?case using Cons.IH [OF _ d] Cons.prems(1) by (auto simp: x m split: option.splits)
  qed simp
  then show "distinct (map fst (rg_tracker (foldl (\<lambda>g (r, v). anchor r v g) g xs)))"
    and "map_of (rg_tracker (foldl (\<lambda>g (r, v). anchor r v g) g xs)) r =
      (case map_of xs r of None \<Rightarrow> map_of (rg_tracker g) r | Some v \<Rightarrow> Some \<lparr>te_value = v, te_serial = rg_serial g\<rparr>)"
    by blast+
qed

lemma heal_rows_anchors:
  assumes "\<And>j. j < length rs \<Longrightarrow> bind_r (py_nth qsl (int (row + j))) (py_nth ctx) = Inr (bs ! (row + j) + 1)"
    and "row + length rs \<le> length bs"
  shows "heal_rows ctx qsl row rs g = foldl (\<lambda>g (r, v). anchor r v g) g (zip rs (drop row bs))"
  using assms
proof (induction rs arbitrary: row g)
  case (Cons r rs)
  have IH: "heal_rows ctx qsl (Suc row) rs g' = foldl (\<lambda>g (r, v). anchor r v g) g' (zip rs (drop (Suc row) bs))" for g'
    by (rule Cons.IH) (use Cons.prems(1) [of "Suc j" for j] Cons.prems(2) in auto)
  have "drop row bs = bs ! row # drop (Suc row) bs" using Cons.prems(2) by (simp add: Cons_nth_drop_Suc)
  then show ?case using IH Cons.prems(1) [of 0] by (simp del: of_nat_add)
qed simp

definition padded :: "attn_meta \<Rightarrow> int list \<Rightarrow> int list" where
  "padded cam bs = bs @ replicate (cam_num_reqs cam - length bs) 0"

lemma padded_positions:
  assumes "padded_meta ib pos cam" and "length bs = ib_num_reqs ib"
  shows "positions_of (padded cam bs) (cam_qsl cam) = positions_of bs (ib_qsl ib)"
proof -
  let ?n = "ib_num_reqs ib" and ?m = "cam_num_reqs cam" and ?f = "\<lambda>r j. padded cam bs ! r + (j - cam_qsl cam ! r)"
  have nm: "?n \<le> ?m" using assms(1) by (simp add: padded_meta_def Let_def)
  have q: "\<And>j. j \<le> ?n \<Longrightarrow> cam_qsl cam ! j = ib_qsl ib ! j" using assms(1) by (simp add: padded_meta_def Let_def)
  have flat: "\<And>j. ?n \<le> j \<Longrightarrow> j < ?m \<Longrightarrow> cam_qsl cam ! Suc j = cam_qsl cam ! j" using assms(1) by (simp add: padded_meta_def Let_def)
  have "row_blocks ?f (cam_qsl cam) k = row_blocks ?f (cam_qsl cam) ?n" if "?n \<le> k" "k \<le> ?m" for k
    using that
  proof (induction k)
    case (Suc k)
    then show ?case using flat [of k] by (cases "?n = Suc k") (auto simp: row_blocks_Suc)
  qed simp
  then have "row_blocks ?f (cam_qsl cam) ?m = row_blocks ?f (cam_qsl cam) ?n" using nm by blast
  also have "\<dots> = row_blocks (\<lambda>r j. bs ! r + (j - ib_qsl ib ! r)) (ib_qsl ib) ?n"
    unfolding row_blocks_def using q assms(2) by (intro arg_cong [where f = concat] map_cong) (auto simp: padded_def nth_append)
  finally show ?thesis using nm assms(2) by (simp add: positions_blocks padded_def)
qed

lemma lens_from_padded: "length bs \<le> cam_num_reqs cam \<Longrightarrow>
  lens_from_values bs qsl (cam_num_reqs cam) topk kpool = lens_from_values (padded cam bs) qsl (cam_num_reqs cam) topk kpool"
proof -
  assume "length bs \<le> cam_num_reqs cam"
  then have "take (cam_num_reqs cam) (padded cam bs) @ replicate (cam_num_reqs cam - length (padded cam bs)) 0 =
      take (cam_num_reqs cam) bs @ replicate (cam_num_reqs cam - length bs) 0" by (simp add: padded_def)
  then show ?thesis unfolding lens_from_values_def by (simp only:)
qed

text \<open>What the deployed body gives for the batch, and that both replacements agree with it.\<close>

lemma deployed_padded:
  assumes "real_batch w ib pos" and "padded_meta ib pos cam" and "lb_async b"
  defines "bs \<equiv> bases_of w ib"
  shows "deployed_body b cam = Inr (cam_qsl cam ! cam_num_reqs cam, map (\<lambda>p. p + 1) (positions_of bs (ib_qsl ib)),
      map (\<lambda>p. row_len (lb_topk b) (lb_kpool b) (p + 1)) (positions_of bs (ib_qsl ib)),
      if cam_qsl cam ! cam_num_reqs cam = 0 then Empty_batch else From_positions)"
    and "lens_from_values bs (cam_qsl cam) (cam_num_reqs cam) (lb_topk b) (lb_kpool b) =
      Inr (cam_qsl cam ! cam_num_reqs cam, map (\<lambda>p. row_len (lb_topk b) (lb_kpool b) (p + 1)) (positions_of bs (ib_qsl ib)))"
    and "heal ib (map (\<lambda>p. p + 1) (positions_of bs (ib_qsl ib))) (cam_qsl cam) g = commit ib bs g"
    and "cam_qsl cam ! cam_num_reqs cam = 0 \<Longrightarrow> ib_num_reqs ib = 0"
proof -
  note B = real_batchD [OF assms(1)]
  have m: "ib_num_reqs ib \<le> cam_num_reqs cam" "qsl_ok (cam_num_reqs cam) (cam_qsl cam)" "cam_positions cam = Some pos"
    "\<And>j. j \<le> ib_num_reqs ib \<Longrightarrow> cam_qsl cam ! j = ib_qsl ib ! j"
    using assms(2) by (simp_all add: padded_meta_def Let_def)
  have len: "length bs = ib_num_reqs ib" using B(2) by (simp add: bs_def)
  have pl: "length (padded cam bs) = cam_num_reqs cam" using m(1) len by (simp add: padded_def)
  have pp: "positions_of (padded cam bs) (cam_qsl cam) = positions_of bs (ib_qsl ib)" by (rule padded_positions [OF assms(2) len])
  obtain rest where rest: "pos = positions_of bs (ib_qsl ib) @ rest" using B(1) by (auto simp: bs_def)
  show "deployed_body b cam = Inr (cam_qsl cam ! cam_num_reqs cam, map (\<lambda>p. p + 1) (positions_of bs (ib_qsl ib)),
      map (\<lambda>p. row_len (lb_topk b) (lb_kpool b) (p + 1)) (positions_of bs (ib_qsl ib)),
      if cam_qsl cam ! cam_num_reqs cam = 0 then Empty_batch else From_positions)"
  proof -
    have "qsl_ok (length (padded cam bs)) (cam_qsl cam)" using m(2) by (simp only: pl)
    moreover have "cam_positions cam = Some (positions_of (padded cam bs) (cam_qsl cam) @ rest)" by (simp only: m(3) rest pp)
    ultimately show ?thesis using deployed_positions [OF _ pl [symmetric] assms(3)] unfolding pp pl by blast
  qed
  show "lens_from_values bs (cam_qsl cam) (cam_num_reqs cam) (lb_topk b) (lb_kpool b) =
      Inr (cam_qsl cam ! cam_num_reqs cam, map (\<lambda>p. row_len (lb_topk b) (lb_kpool b) (p + 1)) (positions_of bs (ib_qsl ib)))"
  proof -
    have "qsl_ok (length (padded cam bs)) (cam_qsl cam)" "length bs \<le> cam_num_reqs cam" using m(1,2) len pl by simp_all
    then show ?thesis using lens_from_values_positions [of "padded cam bs" "cam_qsl cam"] lens_from_padded [of bs cam]
      unfolding pp pl by simp
  qed
  have first: "bind_r (py_nth (cam_qsl cam) (int j)) (py_nth (map (\<lambda>p. p + 1) (positions_of bs (ib_qsl ib)))) = Inr (bs ! j + 1)"
    if j: "j < ib_num_reqs ib" for j
  proof -
    have q: "py_nth (cam_qsl cam) (int j) = Inr (ib_qsl ib ! j)" using m(1,2,4) j by (simp add: py_nth_def qsl_ok_def)
    have at: "positions_of bs (ib_qsl ib) ! nat (ib_qsl ib ! j) = bs ! j" using first_row [of bs "ib_qsl ib" j] B(3,6) len j by simp
    have q0: "0 \<le> ib_qsl ib ! j" using B(3) j by (auto intro!: qsl_ok_nonneg simp: qsl_ok_def)
    have "ib_qsl ib ! Suc j \<le> ib_qsl ib ! ib_num_reqs ib"
    proof -
      have "qsl_ok k (ib_qsl ib) \<Longrightarrow> Suc j \<le> k \<Longrightarrow> ib_qsl ib ! Suc j \<le> ib_qsl ib ! k" for k
      proof (induction k)
        case (Suc k)
        then show ?case using qsl_ok_SucD [OF Suc.prems(1)] by (cases "j = k") auto
      qed simp
      then show ?thesis using B(3) j by simp
    qed
    then have "nat (ib_qsl ib ! j) < length (positions_of bs (ib_qsl ib))"
      using length_positions_of [of bs "ib_qsl ib"] B(3,6) len j q0 by fastforce
    then show ?thesis using q q0 at by (simp add: py_nth_def)
  qed
  show "heal ib (map (\<lambda>p. p + 1) (positions_of bs (ib_qsl ib))) (cam_qsl cam) g = commit ib bs g"
    unfolding heal_def commit_def
    using heal_rows_anchors [of "take (ib_num_reqs ib) (ib_req_ids ib)" "cam_qsl cam" 0 _ bs g] first len B(4) by simp
  show "ib_num_reqs ib = 0" if zero: "cam_qsl cam ! cam_num_reqs cam = 0"
  proof (rule ccontr)
    assume "ib_num_reqs ib \<noteq> 0"
    then obtain k where k: "ib_num_reqs ib = Suc k" by (cases "ib_num_reqs ib") auto
    have "length (positions_of (padded cam bs) (cam_qsl cam)) = 0"
      using length_positions_of [of "padded cam bs" "cam_qsl cam"] m(2) pl zero by simp
    then have "int (length (positions_of bs (ib_qsl ib))) = 0" using pp by simp
    then have "ib_qsl ib ! Suc k = 0" using length_positions_of [of bs "ib_qsl ib"] B(3) len k by simp
    moreover have "0 \<le> ib_qsl ib ! k" using qsl_ok_SucD [of k "ib_qsl ib"] qsl_ok_nonneg [of k "ib_qsl ib"] B(3) k by simp
    ultimately show False using B(6) [of k] k by simp
  qed
qed

text \<open>What a build may change: tracker entries of the batch, the mismatch count and the last result.\<close>

definition tracker_frame :: "string set \<Rightarrow> registry \<Rightarrow> registry \<Rightarrow> bool" where
  "tracker_frame ids g g' \<longleftrightarrow>
     rg_serial g' = rg_serial g \<and> rg_ib g' = rg_ib g \<and> rg_ib_serial g' = rg_ib_serial g \<and> rg_added g' = rg_added g \<and>
     rg_records g' = rg_records g \<and>
     (distinct (map fst (rg_tracker g)) \<longrightarrow> distinct (map fst (rg_tracker g'))) \<and>
     (\<forall>r. r \<notin> ids \<longrightarrow> map_of (rg_tracker g') r = map_of (rg_tracker g) r)"

lemma tracker_frame_refl: "tracker_frame ids g g"
  by (simp add: tracker_frame_def)

lemma tracker_frame_trans: "tracker_frame ids g g' \<Longrightarrow> tracker_frame ids g' g'' \<Longrightarrow> tracker_frame ids g g''"
  by (simp add: tracker_frame_def)

lemma tracker_frame_anchor: "r \<in> ids \<Longrightarrow> tracker_frame ids g (anchor r v g)"
  by (auto simp: tracker_frame_def anchor_def distinct_update update_conv')

lemma tracker_frame_upd [simp]:
  "tracker_frame ids g (g'\<lparr>rg_last := l\<rparr>) = tracker_frame ids g g'"
  "tracker_frame ids g (g'\<lparr>rg_mismatches := m\<rparr>) = tracker_frame ids g g'"
  "tracker_frame ids (g\<lparr>rg_mismatches := m\<rparr>) g' = tracker_frame ids g g'"
  by (simp_all add: tracker_frame_def)

lemma tracker_frame_anchors:
  "fst ` set xs \<subseteq> ids \<Longrightarrow> tracker_frame ids g (foldl (\<lambda>g (r, v). anchor r v g) g xs)"
proof (induction xs arbitrary: g)
  case (Cons x xs)
  then show ?case using tracker_frame_trans [OF tracker_frame_anchor Cons.IH] by (cases x) auto
qed (simp add: tracker_frame_refl)

lemma tracker_frame_commit: "tracker_frame (batch_ids ib) g (commit ib vs g)"
  unfolding commit_def by (rule tracker_frame_anchors) (auto simp: batch_ids_def dest: set_zip_leftD)

lemma tracker_frame_heal: "tracker_frame (batch_ids ib) g (heal ib ctx qsl g)"
proof -
  have "set rs \<subseteq> ids \<Longrightarrow> tracker_frame ids g (heal_rows ctx qsl row rs g)" for rs row ids
  proof (induction rs arbitrary: row g)
    case (Cons r rs)
    then show ?case using tracker_frame_trans [OF tracker_frame_anchor Cons.IH]
      by (auto simp: tracker_frame_refl split: sum.splits)
  qed (simp add: tracker_frame_refl)
  then show ?thesis by (simp add: heal_def batch_ids_def)
qed

lemma tracker_frame_invalidate: "tracker_frame (batch_ids ib) g (invalidate ib g)"
proof -
  have "(distinct (map fst t) \<longrightarrow> distinct (map fst (foldl (\<lambda>t r. AList.delete r t) t rs))) \<and>
      (\<forall>r. r \<notin> set rs \<longrightarrow> map_of (foldl (\<lambda>t r. AList.delete r t) t rs) r = map_of t r)" for t :: "(string \<times> tracker_entry) list" and rs
    by (induction rs arbitrary: t) (simp_all add: distinct_delete delete_conv')
  then show ?thesis by (simp add: tracker_frame_def invalidate_def batch_ids_def)
qed

lemma registry_frame:
  assumes "rg_ib g = Some ib" and "registry_kv_lens fired capturing debug b g cam = (g', res)"
  shows "tracker_frame (batch_ids ib) g g' \<and>
    (rg_last g' = rg_last g \<or> (\<exists>r. res = Inr r \<and> rg_last g' = Some (cam_id cam, r)))"
proof -
  have fb: "tracker_frame (batch_ids ib) g (fst (fallback_lens b g cam)) \<and> rg_last (fst (fallback_lens b g cam)) = rg_last g"
  proof -
    have "rg_last (heal_rows ctx qsl row rs g) = rg_last g" for ctx qsl row rs and g :: registry
      by (induction rs arbitrary: row g) (auto split: sum.splits)
    then show ?thesis
      using assms(1) tracker_frame_heal [of ib g] tracker_frame_invalidate [of ib g]
      by (auto simp: fallback_lens_def tracker_frame_refl heal_def invalidate_def split: sum.splits prod.splits option.splits)
  qed
  have mi: "tracker_frame (batch_ids ib) g (fst (mirror_lens debug b ib vs g cam)) \<and> rg_last (fst (mirror_lens debug b ib vs g cam)) = rg_last g" for vs
  proof -
    have l: "rg_last (heal_rows ctx qsl row rs g) = rg_last g" for ctx qsl row rs and g :: registry
      by (induction rs arbitrary: row g) (auto split: sum.splits)
    have h: "tracker_frame (batch_ids ib) g (heal ib ctx qsl (g\<lparr>rg_mismatches := m\<rparr>))" for ctx qsl m
      using tracker_frame_heal [of ib "g\<lparr>rg_mismatches := m\<rparr>"] by simp
    show ?thesis
      using tracker_frame_commit [of ib g vs] h l
      by (auto simp: mirror_lens_def tracker_frame_refl heal_def commit_def split: sum.splits prod.splits)
  qed
  have ib: "ib' = ib" if "mirror_values fired capturing g = Inr (Some (ib', vs))" for ib' vs
    using that assms(1) by (cases "host_values fired g ib") (auto simp: mirror_values_def split: if_splits)
  have inner: "tracker_frame (batch_ids ib) g g1 \<and> rg_last g1 = rg_last g"
    if "(case mirror_values fired capturing g of Inl x \<Rightarrow> (g, Inl x) | Inr (Some (ib, values)) \<Rightarrow> mirror_lens debug b ib values g cam
         | Inr None \<Rightarrow> fallback_lens b g cam) = (g1, r1)" for g1 r1
  proof (cases "mirror_values fired capturing g")
    case (Inl x)
    then show ?thesis using that by (simp add: tracker_frame_refl)
  next
    case (Inr o')
    then show ?thesis using that fb mi ib by (cases o') (auto simp: prod_eq_iff)
  qed
  show ?thesis
  proof (cases "case rg_last g of Some (i, res) \<Rightarrow> if i = cam_id cam then Some res else None | None \<Rightarrow> None")
    case None
    obtain g1 r1 where r: "(case mirror_values fired capturing g of Inl x \<Rightarrow> (g, Inl x) | Inr (Some (ib, values)) \<Rightarrow> mirror_lens debug b ib values g cam
         | Inr None \<Rightarrow> fallback_lens b g cam) = (g1, r1)" by fastforce
    show ?thesis using assms(2) inner [OF r] unfolding registry_kv_lens_def None r by (cases r1) auto
  next
    case (Some r)
    then show ?thesis using assms(2) by (simp add: registry_kv_lens_def tracker_frame_refl)
  qed
qed

lemma build_exact:
  assumes "mirror_ok b w" and "w_phase w = Prepared" and "k_real w" and "rg_ib (k_reg w) = Some ib"
    and "padded_meta ib (w_pos w) cam" and "cam_id cam \<notin> k_gone w" and "k_seen w (cam_id cam) \<in> {None, Some cam}"
    and "lb_async b" and "registry_kv_lens fired capturing debug b (k_reg w) cam = (g, res)"
  shows "res = deployed_lens b cam" and "rg_mismatches g = 0"
    and "rg_tracker g = rg_tracker (commit ib (bases_of w ib) (k_reg w)) \<or> k_new w = {} \<and> rg_tracker g = rg_tracker (k_reg w)"
proof -
  let ?g = "k_reg w" and ?bs = "bases_of w ib"
  have batch: "real_batch w ib (w_pos w)" "rg_ib_serial ?g = int (rg_serial ?g)" and st: "in_step w"
    using assms(1-4) by (auto simp: mirror_ok_def prepared_ok_def in_step_def)
  note D = deployed_padded [OF batch(1) assms(5,8)]
  have dep: "deployed_lens b cam = Inr (cam_qsl cam ! cam_num_reqs cam,
      map (\<lambda>p. row_len (lb_topk b) (lb_kpool b) (p + 1)) (positions_of ?bs (ib_qsl ib)))"
    using D(1) by (simp add: deployed_lens_def)
  have mism: "rg_mismatches ?g = 0" using assms(1) by (simp add: mirror_ok_def last_res_ok_def)
  have commit_mism: "rg_mismatches (commit ib vs g') = rg_mismatches g'" for vs g' by (simp add: commit_def)
  have empty: "ib_num_reqs ib = 0 \<Longrightarrow> commit ib ?bs g' = g'" for g' by (simp add: commit_def)
  have fb: "fallback_lens b ?g cam = (commit ib ?bs ?g, deployed_lens b cam)"
    using D(1,3,4) empty assms(4) batch(2) dep by (simp add: fallback_lens_def)
  have mi: "mirror_lens debug b ib ?bs ?g cam = (commit ib ?bs ?g, deployed_lens b cam)"
  proof -
    have "?g\<lparr>rg_mismatches := rg_mismatches ?g + 0\<rparr> = ?g" by simp
    then show ?thesis using D(1-3) dep by (simp add: mirror_lens_def)
  qed
  have dec: "mirror_values fired capturing ?g = Inr None \<or> mirror_values fired capturing ?g = Inr (Some (ib, ?bs))"
    using host_values_exact [OF assms(1) st batch(1), of fired] assms(4) by (auto simp: mirror_values_def)
  let ?hit = "case rg_last ?g of Some (i, res) \<Rightarrow> if i = cam_id cam then Some res else None | None \<Rightarrow> None"
  have "res = deployed_lens b cam \<and> rg_mismatches g = 0 \<and>
    (rg_tracker g = rg_tracker (commit ib ?bs ?g) \<or> k_new w = {} \<and> rg_tracker g = rg_tracker ?g)"
  proof (cases ?hit)
    case (Some r)
    then have last: "rg_last ?g = Some (cam_id cam, r)" by (auto split: option.splits if_splits)
    have "last_res_ok b w" using assms(1) by (simp add: mirror_ok_def)
    with last assms(6) obtain cam' where "k_seen w (cam_id cam) = Some cam'" "deployed_lens b cam' = Inr r"
      by (cases r) (auto simp: last_res_ok_def)
    then have "deployed_lens b cam = Inr r" "k_seen w \<noteq> Map.empty" using assms(7) by auto
    moreover have "g = ?g" "res = Inr r" using assms(9) unfolding registry_kv_lens_def Some by simp_all
    ultimately show ?thesis using \<open>last_res_ok b w\<close> st assms(2) by (auto simp: last_res_ok_def)
  next
    case None
    have inner: "(case mirror_values fired capturing ?g of Inl x \<Rightarrow> (?g, Inl x) | Inr (Some (ib, values)) \<Rightarrow> mirror_lens debug b ib values ?g cam
         | Inr None \<Rightarrow> fallback_lens b ?g cam) = (commit ib ?bs ?g, deployed_lens b cam)"
      using dec fb mi by auto
    show ?thesis using assms(9) mism commit_mism unfolding registry_kv_lens_def None inner dep by auto
  qed
  then show "res = deployed_lens b cam" and "rg_mismatches g = 0"
    and "rg_tracker g = rg_tracker (commit ib ?bs ?g) \<or> k_new w = {} \<and> rg_tracker g = rg_tracker ?g" by blast+
qed

lemma commit_tracker:
  assumes "real_batch w ib pos" and "distinct (map fst (rg_tracker g))"
  shows "map_of (rg_tracker (commit ib (bases_of w ib) g)) r =
    (if r \<in> batch_ids ib then Some \<lparr>te_value = w_nct w (the (w_slot w r)), te_serial = rg_serial g\<rparr> else map_of (rg_tracker g) r)"
proof -
  let ?ids = "take (ib_num_reqs ib) (ib_req_ids ib)"
  note B = real_batchD [OF assms(1)]
  have d: "distinct ?ids" "length ?ids = length (bases_of w ib)" using assms(1) B(2,4) by (auto simp: real_batch_def Let_def)
  have keys: "distinct (map fst (zip ?ids (bases_of w ib)))" using d by simp
  have "map_of (zip ?ids (bases_of w ib)) r = (if r \<in> batch_ids ib then Some (w_nct w (the (w_slot w r))) else None)"
  proof (cases "r \<in> batch_ids ib")
    case True
    then obtain j where j: "j < ib_num_reqs ib" "r = ib_req_ids ib ! j" using B(4) by (auto simp: batch_ids_def in_set_conv_nth)
    have "map_of (zip ?ids (bases_of w ib)) (?ids ! j) = Some (bases_of w ib ! j)"
      using map_of_zip_nth [OF d(2,1)] j(1) B(2) by simp
    then show ?thesis using j B(6) [OF j(1)] True by (simp add: bases_of_def)
  next
    case False
    then show ?thesis by (auto simp: map_of_eq_None_iff batch_ids_def dest: set_zip_leftD)
  qed
  then show ?thesis unfolding commit_def using anchors_tracker(2) [OF keys assms(2), of r] by simp
qed

lemma index_of_None: "index_of r xs = None \<longleftrightarrow> r \<notin> set xs"
  by (induction xs) auto

lemma index_of_Some: "index_of r xs = Some j \<Longrightarrow> j < length xs \<and> xs ! j = r"
  by (induction xs arbitrary: j) (auto split: if_splits)

lemma new_record_good:
  assumes "real_batch w ib pos" and "ib_num_reqs ib \<le> length sampled"
    and "out = Some sampled \<or> out = None" and "delta s = row_delta ib sampled"
  shows "good_record delta (record_of s ib out ev)"
proof -
  let ?n = "ib_num_reqs ib"
  note B = real_batchD [OF assms(1)]
  have len: "?n \<le> length (ib_idx ib)" "?n < length (ib_qsl ib)" "?n < length (ib_cu_logits ib)" "?n \<le> length (ib_prefilling ib)"
      "\<And>j. j < ?n \<Longrightarrow> 0 \<le> ib_idx ib ! j"
    using assms(1) by (auto simp: real_batch_def batch_of_def qsl_ok_def Let_def)
  have "delta_for (record_of s ib (Some sampled) ev) j = Inr (device_delta ib sampled j)" if "j < ?n" for j
  proof -
    have "\<not> ib_idx ib ! j < 0" "nat (int j + 1) = Suc j" using len(5) [OF that] by simp_all
    then show ?thesis using that len(1-4) assms(2)
      by (simp add: delta_for_def record_of_def device_delta_def Let_def py_nth_in)
  qed
  moreover have "j < ?n" if "row_of (record_of s ib out ev) r = Some j" for r j
    using that index_of_Some [of r "take ?n (ib_req_ids ib)" j] by (simp add: row_of_def record_of_def)
  ultimately show ?thesis
    using assms(3,4) by (auto simp: good_record_def row_of_def record_of_def row_delta_def split: option.splits)
qed

lemma new_mirror_ok: "mirror_ok b (mirror_new n)"
  by (simp add: mirror_ok_def slots_ok_def tracker_ok_def delta_ok_def records_ok_def added_ok_def prepared_ok_def last_res_ok_def
      mirror_new_def registry_new_def in_step_def)

lemma sum_next: "s \<le> n \<Longrightarrow> f (Suc n) = 0 \<Longrightarrow> (\<Sum>t\<in>{s..Suc n}. f t) = (\<Sum>t\<in>{s..n}. (f t :: int))"
  by simp

lemma execute_ok:
  assumes "mirror_ok b w" and "k_new w = {}"
  shows "mirror_ok b (w\<lparr>k_reg := registry_execute tokens unmodelled (k_reg w), k_real := tokens, w_phase := Updating\<rparr>)"
proof -
  let ?g = "k_reg w"
  have d0: "k_delta w s r = 0" if "rg_serial ?g < s" for s r using assms(1) that by (auto simp: mirror_ok_def delta_ok_def)
  have rec: "sr_serial rec \<le> rg_serial ?g" if "rec \<in> set (rg_records ?g)" for rec
    using assms(1) that by (auto simp: mirror_ok_def records_ok_def split: if_splits)
  have tr: "te_serial e \<le> rg_serial ?g \<and> w_nct w i = te_value e + (\<Sum>s\<in>{te_serial e..rg_serial ?g}. k_delta w s r)"
    if "w_slot w r = Some i" "map_of (rg_tracker ?g) r = Some e" for r i e
    using assms that by (auto simp: mirror_ok_def tracker_ok_def)
  show ?thesis
    using assms(2) assms(1) [unfolded mirror_ok_def] d0 rec
    by (auto simp: mirror_ok_def slots_ok_def tracker_ok_def delta_ok_def records_ok_def added_ok_def prepared_ok_def last_res_ok_def
        registry_execute_def note_serial_def note_desync_def in_step_def le_imp_less_Suc dest!: tr)
qed

lemma post_ok:
  assumes ok: "mirror_ok b w" and "w_phase w = Prepared" and "k_real w" and new: "k_new w = {}" and "rg_ib (k_reg w) = Some ib"
    and len: "ib_num_reqs ib \<le> length sampled" and nct: "\<forall>r i. w_slot w r = Some i \<longrightarrow> nct' i = w_nct w i + row_delta ib sampled r"
    and out: "out = None \<or> (\<exists>ev. out = Some (Some sampled, ev) \<or> out = Some (None, ev))"
  shows "mirror_ok b (w\<lparr>k_reg := registry_sample (Some ib) out (k_reg w), w_nct := nct', w_fresh := w_fresh w - batch_ids ib,
      k_delta := (k_delta w)(rg_serial (k_reg w) := row_delta ib sampled), w_phase := Posted\<rparr>)" (is "mirror_ok b ?w")
proof -
  let ?g = "k_reg w" and ?g' = "registry_sample (Some ib) out (k_reg w)" and ?d = "(k_delta w)(rg_serial (k_reg w) := row_delta ib sampled)"
  have st: "in_step w" and batch: "real_batch w ib (w_pos w)"
    using assms(1-5) by (auto simp: in_step_def mirror_ok_def prepared_ok_def)
  have fields: "rg_serial ?g' = rg_serial ?g" "rg_added ?g' = rg_added ?g" "rg_mismatches ?g' = rg_mismatches ?g" "rg_last ?g' = rg_last ?g"
    by (simp_all add: registry_sample_def note_sample_def prune_def split: option.splits prod.splits)
  have tracker: "distinct (map fst (rg_tracker ?g'))" "map_of (rg_tracker ?g') r = Some e \<Longrightarrow> map_of (rg_tracker ?g) r = Some e" for r e
  proof -
    have d: "distinct (map fst (rg_tracker ?g))" using ok by (simp add: mirror_ok_def tracker_ok_def)
    obtain P where P: "rg_tracker ?g' = filter P (rg_tracker ?g)"
    proof -
      have "rg_tracker ?g' = filter (\<lambda>x. True) (rg_tracker ?g) \<or>
          rg_tracker ?g' = filter (\<lambda>(r, e). \<not> int (te_serial e) < int (rg_serial ?g) - 1024) (rg_tracker ?g)"
        by (auto simp: registry_sample_def note_sample_def prune_def split: option.splits prod.splits)
      then show ?thesis using that by blast
    qed
    show d': "distinct (map fst (rg_tracker ?g'))" unfolding P using d by (simp add: distinct_map_filter)
    assume "map_of (rg_tracker ?g') r = Some e"
    then have "(r, e) \<in> set (rg_tracker ?g)" using map_of_SomeD P by fastforce
    then show "map_of (rg_tracker ?g) r = Some e" using d by simp
  qed
  have recs: "rg_records ?g' = rg_records ?g \<or>
      (\<exists>o' ev k. (o' = Some sampled \<or> o' = None) \<and> rg_records ?g' = drop k (rg_records ?g) @ [record_of (rg_serial ?g) ib o' ev])"
    using out by (auto simp: registry_sample_def note_sample_def prune_def push_record_def split: option.splits)
  have old: "sr_serial rec < rg_serial ?g \<and> good_record ?d rec" if "rec \<in> set (rg_records ?g)" for rec
  proof -
    have "sr_serial rec < rg_serial ?g" "good_record (k_delta w) rec" using ok st that by (auto simp: mirror_ok_def records_ok_def)
    moreover from this(1) have "?d (sr_serial rec) = k_delta w (sr_serial rec)" by simp
    ultimately show ?thesis unfolding good_record_def by (simp only: simp_thms)
  qed
  have dist: "distinct (map sr_serial (rg_records ?g))" using ok by (simp add: mirror_ok_def records_ok_def)
  have new_rec: "good_record ?d (record_of (rg_serial ?g) ib o' ev) \<and> sr_serial (record_of (rg_serial ?g) ib o' ev) = rg_serial ?g"
    if "o' = Some sampled \<or> o' = None" for o' ev
    using new_record_good [OF batch len, of o' ?d "rg_serial ?g" ev] that by (simp add: record_of_def)
  have "records_ok ?w"
  proof -
    have "distinct (map sr_serial (drop k (rg_records ?g))) \<and> rg_serial ?g \<notin> sr_serial ` set (drop k (rg_records ?g))" for k
    proof
      show "distinct (map sr_serial (drop k (rg_records ?g)))" using dist by (simp flip: drop_map)
      show "rg_serial ?g \<notin> sr_serial ` set (drop k (rg_records ?g))"
      proof
        assume "rg_serial ?g \<in> sr_serial ` set (drop k (rg_records ?g))"
        then obtain rec where "rec \<in> set (rg_records ?g)" "sr_serial rec = rg_serial ?g" by (auto dest: in_set_dropD)
        then show False using old [of rec] by simp
      qed
    qed
    then show ?thesis using recs old new_rec dist
      by (auto simp: records_ok_def in_step_def fields dest!: in_set_dropD dest!: old)
  qed
  moreover have "tracker_ok ?w"
  proof -
    have "te_serial e \<le> rg_serial ?g \<and> nct' i = te_value e + (\<Sum>s\<in>{te_serial e..rg_serial ?g}. ?d s r)"
      if a: "w_slot w r = Some i" "map_of (rg_tracker ?g') r = Some e" for r i e
    proof -
      have t: "te_serial e \<le> rg_serial ?g" "w_nct w i = te_value e + (\<Sum>s\<in>{te_serial e..rg_serial ?g}. k_delta w s r)"
        using ok new a tracker(2) [of r e] by (auto simp: mirror_ok_def tracker_ok_def)
      have iv: "{te_serial e..rg_serial ?g} = insert (rg_serial ?g) {te_serial e..<rg_serial ?g}" using t(1) by auto
      have z: "k_delta w (rg_serial ?g) r = 0" using ok st by (auto simp: mirror_ok_def delta_ok_def)
      have "(\<Sum>s\<in>{te_serial e..<rg_serial ?g}. ?d s r) = (\<Sum>s\<in>{te_serial e..<rg_serial ?g}. k_delta w s r)"
        by (rule sum.cong) auto
      then show ?thesis using t nct a(1) z unfolding iv by simp
    qed
    then show ?thesis using tracker(1) by (simp add: tracker_ok_def fields)
  qed
  moreover have "slots_ok ?w"
  proof -
    have "row_delta ib sampled r = 0" if "r \<notin> batch_ids ib" for r
      using that index_of_None [of r "take (ib_num_reqs ib) (ib_req_ids ib)"] by (simp add: row_delta_def batch_ids_def split: option.splits)
    then show ?thesis using ok nct by (auto simp: mirror_ok_def slots_ok_def)
  qed
  moreover have "delta_ok ?w" using ok by (auto simp: mirror_ok_def delta_ok_def in_step_def fields)
  ultimately show ?thesis using ok new by (auto simp: mirror_ok_def added_ok_def prepared_ok_def last_res_ok_def in_step_def fields)
qed

lemma real_batch_cong:
  "w_slot w' = w_slot w \<Longrightarrow> w_np w' = w_np w \<Longrightarrow> w_nct w' = w_nct w \<Longrightarrow> real_batch w' ib pos = real_batch w ib pos"
  by (simp add: real_batch_def batch_of_def Let_def)

lemma build_ok:
  assumes ok: "mirror_ok b w" and ph: "w_phase w = Prepared" "k_real w" and ib: "rg_ib (k_reg w) = Some ib"
    and meta: "padded_meta ib (w_pos w) cam" "cam_id cam \<notin> k_gone w" "k_seen w (cam_id cam) \<in> {None, Some cam}"
    and "lb_async b" and run: "registry_kv_lens fired capturing debug b (k_reg w) cam = (g, res)"
  shows "mirror_ok b (w\<lparr>k_reg := g, k_seen := (k_seen w)(cam_id cam \<mapsto> cam), k_new := {}\<rparr>)" (is "mirror_ok b ?w")
proof -
  let ?g = "k_reg w"
  note E = build_exact [OF ok ph ib meta assms(8) run]
  have F: "rg_serial g = rg_serial ?g" "rg_ib g = rg_ib ?g" "rg_ib_serial g = rg_ib_serial ?g" "rg_added g = rg_added ?g"
      "rg_records g = rg_records ?g"
    and dist: "distinct (map fst (rg_tracker g))"
    and last: "rg_last g = rg_last ?g \<or> (\<exists>r. res = Inr r \<and> rg_last g = Some (cam_id cam, r))"
    using registry_frame [OF ib run] ok by (auto simp: tracker_frame_def mirror_ok_def tracker_ok_def)
  have batch: "real_batch w ib (w_pos w)" "k_new w \<subseteq> batch_ids ib" and st: "in_step w"
    using ok ph ib by (auto simp: mirror_ok_def prepared_ok_def in_step_def)
  have d0: "distinct (map fst (rg_tracker ?g))" using ok by (simp add: mirror_ok_def tracker_ok_def)
  have tr: "te_serial e \<le> rg_serial ?g \<and> w_nct w i = te_value e + (\<Sum>s\<in>{te_serial e..rg_serial ?g}. k_delta w s r)"
    if a: "w_slot w r = Some i" "map_of (rg_tracker g) r = Some e" for r i e
  proof (cases "r \<in> batch_ids ib \<and> rg_tracker g = rg_tracker (commit ib (bases_of w ib) ?g)")
    case True
    then have e: "e = \<lparr>te_value = w_nct w i, te_serial = rg_serial ?g\<rparr>"
      using a commit_tracker [OF batch(1) d0, of r] by simp
    have "k_delta w (rg_serial ?g) r = 0" using ok st by (auto simp: mirror_ok_def delta_ok_def)
    then show ?thesis by (simp add: e)
  next
    case False
    have "map_of (rg_tracker ?g) r = Some e \<and> r \<notin> k_new w"
      using E(3) a(2) False batch(2) commit_tracker [OF batch(1) d0, of r] by auto
    then show ?thesis using ok a(1) by (auto simp: mirror_ok_def tracker_ok_def)
  qed
  have "i \<in> k_gone w \<or> (\<exists>cam'. ((k_seen w)(cam_id cam \<mapsto> cam)) i = Some cam' \<and> deployed_lens b cam' = Inr r)"
    if r: "rg_last g = Some (i, r)" for i r
  proof (cases "rg_last ?g = Some (i, r)")
    case True
    moreover have "last_res_ok b w" using ok by (simp add: mirror_ok_def)
    ultimately have "i \<in> k_gone w \<or> (\<exists>cam'. k_seen w i = Some cam' \<and> deployed_lens b cam' = Inr r)"
      by (cases r) (simp add: last_res_ok_def)
    then show ?thesis using meta(3) by auto
  next
    case False
    then show ?thesis using r last E(1) by auto
  qed
  then have l: "last_res_ok b ?w" using E(2) by (simp add: last_res_ok_def)
  show ?thesis
    using ok tr dist l ib batch(1) st ph
    by (auto simp: mirror_ok_def slots_ok_def tracker_ok_def delta_ok_def records_ok_def added_ok_def prepared_ok_def in_step_def F
        real_batch_cong [of ?w w])
qed

lemma dummy_build_ok:
  assumes ok: "mirror_ok b w" and ph: "w_phase w = Prepared" "\<not> k_real w" and seen: "k_seen w (cam_id cam) = None"
    and run: "registry_kv_lens fired capturing debug b (k_reg w) cam = (g, res)" and mism: "rg_mismatches g = rg_mismatches (k_reg w)"
  shows "mirror_ok b (w\<lparr>k_reg := g, k_gone := insert (cam_id cam) (k_gone w)\<rparr>)" (is "mirror_ok b ?w")
proof -
  let ?g = "k_reg w"
  obtain ib where ib: "rg_ib ?g = Some ib" "batch_ids ib \<inter> dom (w_slot w) = {}"
    using ok ph by (auto simp: mirror_ok_def prepared_ok_def)
  have F: "rg_serial g = rg_serial ?g" "rg_ib g = rg_ib ?g" "rg_ib_serial g = rg_ib_serial ?g" "rg_added g = rg_added ?g"
      "rg_records g = rg_records ?g" "\<And>r. r \<notin> batch_ids ib \<Longrightarrow> map_of (rg_tracker g) r = map_of (rg_tracker ?g) r"
    and dist: "distinct (map fst (rg_tracker g))"
    and last: "rg_last g = rg_last ?g \<or> (\<exists>r. res = Inr r \<and> rg_last g = Some (cam_id cam, r))"
    using registry_frame [OF ib(1) run] ok by (auto simp: tracker_frame_def mirror_ok_def tracker_ok_def)
  have tr: "map_of (rg_tracker g) r = map_of (rg_tracker ?g) r" if "w_slot w r = Some i" for r i
    using F(6) [of r] ib(2) that by auto
  have t: "tracker_ok ?w" using ok dist tr by (auto simp: mirror_ok_def tracker_ok_def F(1-5))
  have l: "last_res_ok b ?w" using ok last mism by (auto simp: mirror_ok_def last_res_ok_def in_step_def)
  show ?thesis using ok t l ib ph
    by (auto simp: mirror_ok_def slots_ok_def delta_ok_def records_ok_def added_ok_def prepared_ok_def in_step_def F(1-5))
qed

lemma mirror_step_ok:
  assumes "mirror_step b w w'" and "mirror_ok b w" and "lb_async b"
  shows "mirror_ok b w'"
  using assms(1)
proof cases
  case (execute tokens unmodelled)
  then show ?thesis using execute_ok [OF assms(2)] by simp
next
  case (add r i n)
  have other: "j \<noteq> i" if "w_slot w q = Some j" for q j using add(6) that by (auto simp: ran_def)
  show ?thesis using assms(2) add other
    by (auto simp: mirror_ok_def slots_ok_def tracker_ok_def delta_ok_def records_ok_def added_ok_def prepared_ok_def last_res_ok_def
        note_request_def in_step_def)
next
  case (remove r)
  then show ?thesis using assms(2)
    by (auto simp: mirror_ok_def slots_ok_def tracker_ok_def delta_ok_def records_ok_def added_ok_def prepared_ok_def last_res_ok_def
        in_step_def)
next
  case (refresh r i n)
  have "w_np w' j = w_nct w' j" if "w_slot w' q = Some j" "q \<in> w_fresh w'" for q j
    using that assms(2) refresh by (cases "q = r"; cases "j = i") (auto simp: mirror_ok_def slots_ok_def)
  then show ?thesis using assms(2) refresh(1,2)
    by (auto simp: mirror_ok_def slots_ok_def tracker_ok_def delta_ok_def records_ok_def added_ok_def prepared_ok_def last_res_ok_def
        in_step_def)
next
  case (prepare ib pos)
  have "real_batch w' ib pos" using prepare(1,4) real_batch_cong [of w' w] by simp
  moreover have "last_res_ok b w'" using assms(2) prepare(1) unfolding mirror_ok_def last_res_ok_def
    by (fastforce simp: note_current_batch_def)
  ultimately show ?thesis using assms(2) prepare
    by (auto simp: mirror_ok_def slots_ok_def tracker_ok_def delta_ok_def records_ok_def added_ok_def prepared_ok_def
        note_current_batch_def in_step_def)
next
  case (dummy ib pos)
  then show ?thesis using assms(2)
    by (auto simp: mirror_ok_def slots_ok_def tracker_ok_def delta_ok_def records_ok_def added_ok_def prepared_ok_def last_res_ok_def
        note_current_batch_def in_step_def)
next
  case (build ib cam fired capturing debug g res)
  then show ?thesis using build_ok [OF assms(2)] assms(3) by blast
next
  case (dummy_build cam fired capturing debug g res)
  then show ?thesis using dummy_build_ok [OF assms(2)] by blast
next
  case (post ib sampled nct' out)
  then show ?thesis using post_ok [OF assms(2)] by blast
qed

lemma mirror_reach_ok: "mirror_reach b w \<Longrightarrow> lb_async b \<Longrightarrow> mirror_ok b w"
  by (induction rule: mirror_reach.induct) (auto intro: new_mirror_ok mirror_step_ok)

text \<open>
  C3. The host mirror is exact: in every reachable runner with asynchronous scheduling, a build of the current batch, planned
  from the mirror or through the fallback, gets the rows and lengths of the deployed body and never raises where that does
  not, whichever events have fired; the comparison of the debug mode has never failed.
\<close>

theorem kv_mirror_exact:
  assumes "mirror_reach b w" and "lb_async b" and "w_phase w = Prepared" and "k_real w" and "rg_ib (k_reg w) = Some ib"
    and "padded_meta ib (w_pos w) cam" and "cam_id cam \<notin> k_gone w" and "k_seen w (cam_id cam) \<in> {None, Some cam}"
    and "registry_kv_lens fired capturing debug b (k_reg w) cam = (g, res)"
  shows "res = deployed_lens b cam \<and> (\<exists>r. res = Inr r) \<and> rg_mismatches g = 0"
proof -
  have ok: "mirror_ok b w" by (rule mirror_reach_ok [OF assms(1,2)])
  then have "real_batch w ib (w_pos w)" using assms(3-5) by (auto simp: mirror_ok_def prepared_ok_def)
  from deployed_padded(1) [OF this assms(6,2)] have "\<exists>r. deployed_lens b cam = Inr r" by (simp add: deployed_lens_def)
  then show ?thesis using build_exact(1,2) [OF ok assms(3-8,2,9)] by simp
qed

text \<open>
  A run on the mirror: a request of five computed tokens is added and prefills three rows, the next step verifies a draft and
  plans from the tracker, 5 + 3, although the host mirror of vLLM still says 5.
\<close>

definition tiny_builder :: lens_builder where
  "tiny_builder = \<lparr>lb_async = True, lb_topk = 8, lb_kpool = 4\<rparr>"

definition tiny_batch :: "int \<Rightarrow> bool \<Rightarrow> input_batch" where
  "tiny_batch q pre = \<lparr>ib_num_reqs = 1, ib_qsl = [0, q], ib_req_ids = [''r''], ib_idx = [1], ib_host = [5], ib_cu_logits = [0, q],
     ib_prefilling = [pre]\<rparr>"

definition tiny_meta :: "nat \<Rightarrow> int list \<Rightarrow> attn_meta" where
  "tiny_meta i pos = \<lparr>cam_id = i, cam_num_reqs = 1, cam_qsl = [0, int (length pos)], cam_positions = Some pos, cam_seq_lens = [99],
     cam_upper = None\<rparr>"

definition tiny_run :: "registry \<Rightarrow> attn_meta \<Rightarrow> registry \<times> (int \<times> int list) result" where
  "tiny_run g cam = registry_kv_lens (\<lambda>ev. True) False False tiny_builder g cam"

definition tiny_enter :: "mirror \<Rightarrow> mirror" where
  "tiny_enter w = w\<lparr>k_reg := registry_execute True False (k_reg w), k_real := True, w_phase := Updating\<rparr>"

definition tiny_prepare :: "input_batch \<Rightarrow> int list \<Rightarrow> mirror \<Rightarrow> mirror" where
  "tiny_prepare ib pos w = w\<lparr>k_reg := note_current_batch ib (k_reg w), w_pos := pos, w_phase := Prepared,
      k_gone := k_gone w \<union> dom (k_seen w), k_seen := Map.empty\<rparr>"

definition tiny_added :: mirror where
  "tiny_added = (let w = tiny_enter (mirror_new 2) in w\<lparr>k_reg := note_request ''r'' (k_reg w), w_slot := (w_slot w)(''r'' \<mapsto> 1),
     w_nct := (w_nct w)(1 := 5), w_np := (w_np w)(1 := 5), w_fresh := insert ''r'' (w_fresh w), k_new := insert ''r'' (k_new w)\<rparr>)"

definition tiny_first :: mirror where
  "tiny_first = tiny_prepare (tiny_batch 3 True) [5, 6, 7] tiny_added"

definition tiny_built :: mirror where
  "tiny_built = tiny_first\<lparr>k_reg := fst (tiny_run (k_reg tiny_first) (tiny_meta 0 [5, 6, 7])),
     k_seen := (k_seen tiny_first)(cam_id (tiny_meta 0 [5, 6, 7]) \<mapsto> tiny_meta 0 [5, 6, 7]), k_new := {}\<rparr>"

definition tiny_posted :: mirror where
  "tiny_posted = tiny_built\<lparr>k_reg := registry_sample (Some (tiny_batch 3 True)) (Some (Some [1], Some 4)) (k_reg tiny_built),
     w_nct := (w_nct tiny_built)(1 := 8), w_fresh := w_fresh tiny_built - batch_ids (tiny_batch 3 True),
     k_delta := (k_delta tiny_built)(rg_serial (k_reg tiny_built) := row_delta (tiny_batch 3 True) [1]), w_phase := Posted\<rparr>"

definition tiny_second :: mirror where
  "tiny_second = tiny_prepare (tiny_batch 2 False) [8, 9] (tiny_enter tiny_posted)"

definition tiny_reg1 :: registry where
  "tiny_reg1 = \<lparr>rg_serial = 1, rg_ib = Some (tiny_batch 3 True), rg_ib_serial = 1, rg_added = {''r''}, rg_records = [],
     rg_tracker = [(''r'', \<lparr>te_value = 5, te_serial = 1\<rparr>)], rg_desync = False, rg_mismatches = 0, rg_last = Some (0, (3, [6, 7, 8]))\<rparr>"

lemma tiny_regs:
  "k_reg tiny_first = \<lparr>rg_serial = 1, rg_ib = Some (tiny_batch 3 True), rg_ib_serial = 1, rg_added = {''r''}, rg_records = [],
     rg_tracker = [], rg_desync = False, rg_mismatches = 0, rg_last = None\<rparr>"
  "k_reg tiny_built = tiny_reg1"
proof -
  show r: "k_reg tiny_first = \<lparr>rg_serial = 1, rg_ib = Some (tiny_batch 3 True), rg_ib_serial = 1, rg_added = {''r''}, rg_records = [],
     rg_tracker = [], rg_desync = False, rg_mismatches = 0, rg_last = None\<rparr>"
    by (simp add: tiny_first_def tiny_prepare_def tiny_added_def tiny_enter_def mirror_new_def registry_new_def Let_def
        note_current_batch_def note_request_def registry_execute_def note_serial_def note_desync_def)
  show "k_reg tiny_built = tiny_reg1"
    unfolding tiny_built_def by (simp add: r) code_simp
qed

lemma tiny_fields:
  "w_slot tiny_second = [''r'' \<mapsto> 1]" "w_nct tiny_posted 1 = 8" "w_np tiny_posted 1 = 5" "k_new tiny_posted = {}" "k_real tiny_second"
  "w_phase tiny_second = Prepared" "w_pos tiny_second = [8, 9]" "k_gone tiny_second = {0}" "k_seen tiny_second = Map.empty"
  by (simp_all add: tiny_second_def tiny_prepare_def tiny_enter_def tiny_posted_def tiny_built_def tiny_first_def tiny_added_def
      mirror_new_def tiny_meta_def Let_def)

lemma tiny_positions: "positions_of [5] [0, 3] = [5, 6, 7]" "positions_of [8] [0, 2] = [8, 9]"
  by code_simp+

lemma tiny_real:
  "w_slot w ''r'' = Some 1 \<Longrightarrow> w_np w 1 = 5 \<Longrightarrow> w_nct w 1 = v \<Longrightarrow> positions_of [v] [0, q] = pos \<Longrightarrow> 0 < q \<Longrightarrow>
   real_batch w (tiny_batch q pre) pos"
  unfolding real_batch_def batch_of_def Let_def
  by (intro conjI exI [of _ "[v]"] exI [of _ "[]"]) (simp_all add: tiny_batch_def qsl_ok_def)

lemma tiny_reach: "mirror_reach tiny_builder tiny_second"
proof -
  note step = mirror_reach.step
  have e: "mirror_reach tiny_builder (tiny_enter (mirror_new 2))"
    unfolding tiny_enter_def by (rule step [OF mirror_reach.start mirror_step.execute]) (simp add: mirror_new_def)
  have a: "mirror_reach tiny_builder tiny_added"
    unfolding tiny_added_def Let_def by (rule step [OF e mirror_step.add]) (simp_all add: tiny_enter_def mirror_new_def)
  have f: "mirror_reach tiny_builder tiny_first"
    unfolding tiny_first_def tiny_prepare_def
  proof (rule step [OF a mirror_step.prepare])
    show "real_batch tiny_added (tiny_batch 3 True) [5, 6, 7]"
      by (rule tiny_real [where v = 5]) (simp_all add: tiny_added_def tiny_enter_def mirror_new_def Let_def tiny_positions)
  qed (simp_all add: tiny_added_def tiny_enter_def mirror_new_def Let_def batch_ids_def tiny_batch_def)
  have b: "mirror_reach tiny_builder tiny_built"
    unfolding tiny_built_def
  proof (rule step [OF f mirror_step.build])
    show "registry_kv_lens (\<lambda>ev. True) False False tiny_builder (k_reg tiny_first) (tiny_meta 0 [5, 6, 7]) =
        (fst (tiny_run (k_reg tiny_first) (tiny_meta 0 [5, 6, 7])), snd (tiny_run (k_reg tiny_first) (tiny_meta 0 [5, 6, 7])))"
      by (simp add: tiny_run_def)
    show "rg_ib (k_reg tiny_first) = Some (tiny_batch 3 True)" by (simp add: tiny_regs)
  qed (auto simp: tiny_first_def tiny_prepare_def tiny_added_def tiny_enter_def mirror_new_def Let_def padded_meta_def tiny_batch_def
      tiny_meta_def qsl_ok_def less_Suc_eq_le le_Suc_eq)
  have p: "mirror_reach tiny_builder tiny_posted"
    unfolding tiny_posted_def
    by (rule step [OF b mirror_step.post [where sampled = "[1]"]])
      (auto simp: tiny_regs tiny_reg1_def, auto simp: tiny_built_def tiny_first_def tiny_prepare_def tiny_added_def tiny_enter_def
        mirror_new_def Let_def tiny_batch_def row_delta_def device_delta_def split: if_splits)
  have e2: "mirror_reach tiny_builder (tiny_enter tiny_posted)"
    unfolding tiny_enter_def by (rule step [OF p mirror_step.execute]) (simp add: tiny_fields)
  have "w_slot (tiny_enter tiny_posted) = [''r'' \<mapsto> 1]" "k_new (tiny_enter tiny_posted) = {}"
    using tiny_fields by (simp_all add: tiny_enter_def tiny_second_def tiny_prepare_def)
  then show ?thesis
    unfolding tiny_second_def tiny_prepare_def
    by (intro step [OF e2 mirror_step.prepare])
      (auto intro!: tiny_real [where v = 8] simp: tiny_fields tiny_positions,
        insert tiny_fields(2,3), simp_all add: tiny_enter_def tiny_fields)
qed

lemma tiny_reg2:
  "host_values (\<lambda>ev. True) (k_reg tiny_second) (tiny_batch 2 False) = Inr (Some [8])"
  "rg_ib (k_reg tiny_second) = Some (tiny_batch 2 False)"
proof -
  have "k_reg tiny_second = note_current_batch (tiny_batch 2 False) (registry_execute True False
      (registry_sample (Some (tiny_batch 3 True)) (Some (Some [1], Some 4)) tiny_reg1))"
    by (simp add: tiny_second_def tiny_prepare_def tiny_enter_def tiny_posted_def tiny_regs)
  moreover have "host_values (\<lambda>ev. True) (note_current_batch (tiny_batch 2 False) (registry_execute True False
      (registry_sample (Some (tiny_batch 3 True)) (Some (Some [1], Some 4)) tiny_reg1))) (tiny_batch 2 False) = Inr (Some [8])"
    by code_simp
  ultimately show "host_values (\<lambda>ev. True) (k_reg tiny_second) (tiny_batch 2 False) = Inr (Some [8])"
    and "rg_ib (k_reg tiny_second) = Some (tiny_batch 2 False)" by (simp_all add: note_current_batch_def)
qed

lemma kv_mirror_exact_witness:
  "host_values (\<lambda>ev. True) (k_reg tiny_second) (tiny_batch 2 False) = Inr (Some [8]) \<and>
   snd (tiny_run (k_reg tiny_second) (tiny_meta 1 [8, 9])) = Inr (2, [9, 10])"
proof -
  have m: "padded_meta (tiny_batch 2 False) (w_pos tiny_second) (tiny_meta 1 [8, 9])"
    by (auto simp: tiny_fields padded_meta_def tiny_batch_def tiny_meta_def qsl_ok_def less_Suc_eq_le le_Suc_eq)
  have "snd (tiny_run (k_reg tiny_second) (tiny_meta 1 [8, 9])) = deployed_lens tiny_builder (tiny_meta 1 [8, 9])"
    using kv_mirror_exact [OF tiny_reach _ tiny_fields(6,5) tiny_reg2(2) m, of "\<lambda>ev. True" False False]
    by (simp add: tiny_builder_def tiny_fields tiny_meta_def tiny_run_def prod_eq_iff)
  moreover have "deployed_lens tiny_builder (tiny_meta 1 [8, 9]) = Inr (2, [9, 10])" by code_simp
  ultimately show ?thesis using tiny_reg2(1) by simp
qed

end
