(* ===== verification/Target_Argmax.thy ===== *)
theory Target_Argmax
  imports Cert_Exact Py_Str
begin

text \<open>
  Greedy selection for the target's verify rows. \<open>src/overlay/glm_target_argmax.py\<close>: every rank takes the maximum of its vocabulary
  shard, sixteen bytes per row are gathered, and the drafts are verified on token ids. The stock path it replaces: the greedy
  branches of \<open>src/overlay/rejection_sampler_utils.py\<close> and \<open>src/overlay/gumbel.py\<close> over the gathered logits. Logits are
  float32 values without NaN (a bf16 logit converts exactly); a Triton tile is the list of its lanes, and what a kernel leaves
  unwritten is an argument.
\<close>

section \<open>Tiles\<close>

definition tile_lanes :: "nat \<Rightarrow> nat \<Rightarrow> fval list \<Rightarrow> nat \<Rightarrow> fval list" where
  "tile_lanes bs vocab row blk =
     map (\<lambda>j. if blk * bs + j < vocab then row ! (blk * bs + j) else NegInf) [0..<bs]"

text \<open>The maximum of a tile and its token id, clamped into the vocabulary: \<open>_block_argmax_kernel\<close>.\<close>

definition block_argmax :: "nat \<Rightarrow> nat \<Rightarrow> fval list \<Rightarrow> nat \<Rightarrow> fval \<times> nat" where
  "block_argmax bs vocab row blk =
     (let x = tile_lanes bs vocab row blk; i = first_max x in (x ! i, min (blk * bs + i) (vocab - 1)))"

text \<open>The best of the tiles: blocks are padded to a power of two with minus infinity, the first maximal one wins.\<close>

definition best_block :: "(fval \<times> nat) list \<Rightarrow> nat" where
  "best_block tiles =
     (let n = length tiles; b = first_max (map fst tiles @ replicate (next_pow2 n n - n) NegInf) in snd (tiles ! b))"

section \<open>The stock path, greedy rows\<close>

definition vocab_block :: nat where "vocab_block = 8192"
definition resample_block :: nat where "resample_block = 1024"

text \<open>
  The greedy branch of \<open>_compute_local_logits_stats_kernel\<close>: a row past the speculative steps is left as its memory was, \<open>junk\<close>.
\<close>

definition local_stats :: "(nat \<Rightarrow> fval \<times> nat) \<Rightarrow> nat \<Rightarrow> nat \<Rightarrow> nat \<Rightarrow> fval list \<Rightarrow> nat \<Rightarrow> fval \<times> nat" where
  "local_stats junk num_spec pos vocab row blk =
     (if num_spec \<le> pos then junk blk
      else let x = tile_lanes vocab_block vocab row blk; i = first_max x
           in (x ! i, min (blk * vocab_block + i) (vocab - 1)))"

definition target_argmax :: "(nat \<Rightarrow> nat \<Rightarrow> fval \<times> nat) \<Rightarrow> nat list \<Rightarrow> nat \<Rightarrow> nat \<Rightarrow> fval list list \<Rightarrow> nat \<Rightarrow> nat" where
  "target_argmax junk local_pos num_spec vocab logits j =
     best_block (map (local_stats (junk j) num_spec (local_pos ! j) vocab (logits ! j)) [0..<cdiv vocab vocab_block])"

text \<open>\<open>gumbel_block_argmax\<close> at temperature zero adds no noise; its caller clamps the id.\<close>

definition gumbel_block_greedy :: "fval list \<Rightarrow> fval \<times> nat" where
  "gumbel_block_greedy x = (let i = first_max x in (x ! i, i))"

definition resample_tile :: "nat \<Rightarrow> fval list \<Rightarrow> nat \<Rightarrow> fval \<times> nat" where
  "resample_tile vocab row blk =
     (case gumbel_block_greedy (tile_lanes resample_block vocab row blk) of
        (value, i) \<Rightarrow> (value, min (blk * resample_block + i) (vocab - 1)))"

definition reject_step :: "(nat \<Rightarrow> nat) \<Rightarrow> int list \<Rightarrow> nat \<Rightarrow> nat \<Rightarrow> nat \<times> bool \<times> int list \<Rightarrow> nat \<times> bool \<times> int list" where
  "reject_step argmax draft start i st =
     (case st of (acc, verifying, out) \<Rightarrow>
        let d0 = draft ! (start + i + 1); valid = (0 \<le> d0); d = max 0 d0
        in if verifying
           then let t = int (argmax (start + i)); accepted = (t = d \<and> valid)
                in (acc + (if accepted then 1 else 0), accepted, out[i := if accepted then d else t])
           else (acc, verifying, out))"

text \<open>The rejection, resample and insert kernels of one greedy request: the number of tokens and the row of samples.\<close>

definition reject_greedy :: "(nat \<Rightarrow> nat) \<Rightarrow> nat \<Rightarrow> fval list list \<Rightarrow> int list \<Rightarrow> nat \<Rightarrow> nat \<Rightarrow> int list \<Rightarrow> nat \<times> int list" where
  "reject_greedy argmax vocab logits draft start stop out =
     (case fold (reject_step argmax draft start) [0..<stop - start - 1] (0, True, out) of
        (acc, verifying, out1) \<Rightarrow>
          let j = start + acc
          in if j \<noteq> stop - 1 then (acc + 1, out1)
             else (acc + 1, out1[acc := int (best_block (map (resample_tile vocab (logits ! j)) [0..<cdiv vocab resample_block]))]))"

definition rejection_sample_greedy ::
    "(nat \<Rightarrow> nat \<Rightarrow> fval \<times> nat) \<Rightarrow> int list list \<Rightarrow> nat \<Rightarrow> nat \<Rightarrow> fval list list \<Rightarrow> int list \<Rightarrow> nat list \<Rightarrow> nat list \<Rightarrow>
      (nat \<times> int list) list" where
  "rejection_sample_greedy junk outs num_spec vocab logits draft cu local_pos =
     map (\<lambda>r. reject_greedy (target_argmax junk local_pos num_spec vocab logits) vocab logits draft (cu ! r) (cu ! Suc r) (outs ! r))
       [0..<length cu - 1]"

text \<open>\<open>gumbel_sample\<close> at temperature zero, for steps without drafts.\<close>

definition gumbel_sample_greedy :: "nat \<Rightarrow> fval list list \<Rightarrow> nat list" where
  "gumbel_sample_greedy vocab logits =
     map (\<lambda>row. let tiles = map (resample_tile vocab row) [0..<cdiv vocab resample_block]
                in snd (tiles ! first_max (map fst tiles))) logits"

section \<open>The vocabulary-parallel path\<close>

definition local_argmax_torch :: "fval list \<Rightarrow> fval \<times> nat" where
  "local_argmax_torch row = (let i = first_max row in (row ! i, i))"

definition local_argmax :: "bool \<Rightarrow> fval list \<Rightarrow> fval \<times> nat" where
  "local_argmax triton row =
     (if \<not> triton then local_argmax_torch row
      else let tiles = map (block_argmax vocab_block (length row) row) [0..<cdiv (length row) vocab_block]
           in tiles ! first_max (map fst tiles))"

definition pack_pair :: "fval \<Rightarrow> nat \<Rightarrow> fval \<times> fval" where
  "pack_pair val i = (val, f32 (of_nat i))"

text \<open>A float to a 64-bit integer: towards zero; an infinity has no value of its own there.\<close>

definition to_int64 :: "fval \<Rightarrow> int" where
  "to_int64 x = (case x of Fin q \<Rightarrow> if 0 \<le> q then \<lfloor>q\<rfloor> else \<lceil>q\<rceil> | _ \<Rightarrow> - (2 ^ 63))"

definition reduce_pairs :: "(fval \<times> fval) list \<Rightarrow> int" where
  "reduce_pairs pairs = to_int64 (snd (pairs ! first_max (map fst pairs)))"

definition local_pairs :: "bool \<Rightarrow> fval list list \<Rightarrow> nat \<Rightarrow> (fval \<times> fval) list" where
  "local_pairs triton shard start = map (\<lambda>row. case local_argmax triton row of (v, i) \<Rightarrow> pack_pair v (i + start)) shard"

definition vocab_parallel_greedy ::
    "bool \<Rightarrow> fval list list \<Rightarrow> nat \<Rightarrow> nat \<Rightarrow> ((fval \<times> fval) list \<Rightarrow> (fval \<times> fval) list list) \<Rightarrow> int list" where
  "vocab_parallel_greedy triton shard start tp gather =
     (let pairs = local_pairs triton shard start
      in if tp = 1 then map (to_int64 \<circ> snd) pairs else map reduce_pairs (gather pairs))"

section \<open>Verification on token ids\<close>

definition verify_step :: "int list \<Rightarrow> int list \<Rightarrow> nat \<Rightarrow> nat \<Rightarrow> nat \<times> bool \<times> int list \<Rightarrow> nat \<times> bool \<times> int list" where
  "verify_step target draft start i st =
     (case st of (acc, verifying, out) \<Rightarrow>
        if verifying
        then let t = target ! (start + i); d = draft ! (start + i + 1); ok = (t = d \<and> 0 \<le> d)
             in (acc + (if ok then 1 else 0), ok, out[i := if ok then d else t])
        else (acc, verifying, out))"

text \<open>\<open>_greedy_verify_kernel\<close>, one request.\<close>

definition verify_kernel :: "int list \<Rightarrow> int list \<Rightarrow> nat \<Rightarrow> nat \<Rightarrow> int list \<Rightarrow> nat \<times> int list" where
  "verify_kernel target draft start stop out =
     (let n = stop - start - 1
      in case fold (verify_step target draft start) [0..<n] (0, True, out) of
           (acc, verifying, out1) \<Rightarrow> (acc + 1, if acc = n then out1[n := target ! (start + n)] else out1))"

text \<open>\<open>greedy_verify_torch\<close>: the request of a row by search, the first miss of a request by a minimum reduction.\<close>

definition big :: nat where "big = 2 ^ 63 - 1"

definition searchsorted_right :: "nat list \<Rightarrow> nat \<Rightarrow> nat" where
  "searchsorted_right xs v = length (filter (\<lambda>x. x \<le> v) xs)"

definition row_miss :: "int list \<Rightarrow> int list \<Rightarrow> nat list \<Rightarrow> nat \<Rightarrow> nat" where
  "row_miss target draft cu j =
     (let req = searchsorted_right (tl cu) j; nxt = (tl draft @ [-1]) ! j
      in if nxt = target ! j \<and> 0 \<le> nxt \<and> j + 1 < cu ! Suc req then big else j - cu ! req)"

definition greedy_verify_torch :: "int list \<Rightarrow> int list \<Rightarrow> nat list \<Rightarrow> nat \<Rightarrow> nat \<Rightarrow> (nat \<times> int list) list" where
  "greedy_verify_torch target draft cu0 num_reqs width =
     (let cu = take (Suc num_reqs) cu0
      in map (\<lambda>r. (fold min (map (row_miss target draft cu) (filter (\<lambda>j. searchsorted_right (tl cu) j = r) [0..<length target])) big + 1,
                   map (\<lambda>c. target ! min (cu ! r + c) (cu ! Suc r - 1)) [0..<width]))
           [0..<num_reqs])"

definition greedy_verify :: "bool \<Rightarrow> int list list \<Rightarrow> int list \<Rightarrow> int list \<Rightarrow> nat list \<Rightarrow> nat \<Rightarrow> nat \<Rightarrow> (nat \<times> int list) list" where
  "greedy_verify cuda outs target draft cu num_reqs width =
     (if \<not> cuda then greedy_verify_torch target draft cu num_reqs width
      else map (\<lambda>r. verify_kernel target draft (cu ! r) (cu ! Suc r) (outs ! r)) [0..<num_reqs])"

text \<open>\<open>masked_fill(dead, -1)\<close> of the verify cut.\<close>

definition mask_dead :: "bool list option \<Rightarrow> int list \<Rightarrow> int list" where
  "mask_dead dead draft = (case dead of None \<Rightarrow> draft | Some ds \<Rightarrow> map2 (\<lambda>d x. if d then -1 else x) ds draft)"

text \<open>\<open>fast_sample\<close> on one rank: \<open>reject\<close> steps verify the drafts, \<open>sampler\<close> steps have one row per request.\<close>

definition fast_sample ::
    "bool \<Rightarrow> bool \<Rightarrow> int list list \<Rightarrow> bool \<Rightarrow> nat \<Rightarrow> fval list list \<Rightarrow> nat \<Rightarrow> nat \<Rightarrow> ((fval \<times> fval) list \<Rightarrow> (fval \<times> fval) list list) \<Rightarrow>
      int list \<Rightarrow> bool list option \<Rightarrow> nat list \<Rightarrow> nat \<Rightarrow> (nat \<times> int list) list" where
  "fast_sample triton cuda outs reject width shard start tp gather draft dead cu num_reqs =
     (let target = vocab_parallel_greedy triton shard start tp gather
      in if reject then greedy_verify cuda outs target (mask_dead dead draft) cu num_reqs width
         else map (\<lambda>t. (1, [t])) target)"

section \<open>Dispatch\<close>

text \<open>
  What \<open>plan\<close> reads: the batch and the sampler states. \<open>sv_head\<close> is the outcome of \<open>resolve_head\<close>, the vocabulary size or the
  reason against the fast path; the answers of vLLM's sampler about a batch are fields.
\<close>

record sample_view =
  sv_sampler :: bool
  sv_grammar :: bool
  sv_stock_sampler :: bool
  sv_nans :: bool
  sv_head :: "string + nat"
  sv_idx :: "int list"
  sv_temperature :: "int \<Rightarrow> rat"
  sv_processing :: bool
  sv_max_logprobs :: int
  sv_logprob_ids :: nat
  sv_num_draft_tokens :: nat
  sv_rejection :: "(bool \<times> bool \<times> nat) option"
  sv_draft_width :: "nat option"

definition plan :: "sample_view \<Rightarrow> string + (bool \<times> nat)" where
  "plan v =
     (if \<not> sv_sampler v \<or> sv_grammar v then Inl (if sv_grammar v then ''grammar'' else ''no sampler'')
      else if \<not> sv_stock_sampler v \<or> sv_nans v then Inl ''custom sampler / nan counting''
      else case sv_head v of Inl _ \<Rightarrow> Inl ''head''
      | Inr vocab \<Rightarrow>
        if sv_idx v = [] \<or> list_ex (\<lambda>i. i < 0) (sv_idx v) then Inl ''empty / masked batch''
        else if \<not> list_all (\<lambda>i. sv_temperature v i = 0) (sv_idx v) then Inl ''sampled rows''
        else if sv_processing v then Inl ''logits processing''
        else if sv_max_logprobs v \<noteq> -1 then Inl ''logprobs''
        else if 0 < sv_logprob_ids v then Inl ''logprob token ids''
        else if sv_num_draft_tokens v = 0 then Inr (False, 1)
        else case sv_rejection v of None \<Rightarrow> Inr (False, 1)
        | Some (stock, synthetic, num_spec) \<Rightarrow>
          if \<not> stock \<or> synthetic then Inl ''custom / synthetic rejection sampler''
          else if (case sv_draft_width v of None \<Rightarrow> False | Some w \<Rightarrow> w < vocab) then Inl ''draft vocab narrower than target''
          else Inr (True, num_spec + 1))"

text \<open>The hooked \<open>sample\<close>: \<open>stock\<close> is what the runner's own \<open>sample\<close> returns for this batch.\<close>

definition hooked_sample :: "string \<Rightarrow> sample_view \<Rightarrow> (bool \<Rightarrow> nat \<Rightarrow> 'r) \<Rightarrow> 'r \<Rightarrow> 'r" where
  "hooked_sample mode v fast stock =
     (if mode = ''0'' then stock
      else case plan v of Inl _ \<Rightarrow> stock
      | Inr (reject, width) \<Rightarrow> if mode = ''check'' then stock else fast reject width)"

section \<open>The best tile holds the first maximum\<close>

lemma first_max_eqI:
  assumes "i < length vs" and "\<And>j. j < length vs \<Longrightarrow> vs ! j \<le> vs ! i" and "\<And>j. j < i \<Longrightarrow> vs ! j < vs ! i"
  shows "first_max vs = i"
proof -
  have ne: "vs \<noteq> []" using assms(1) by auto
  note P = first_max_props [OF ne]
  show ?thesis
  proof (rule linorder_cases [of "first_max vs" i])
    assume "first_max vs < i"
    then show ?thesis using assms(3) [of "first_max vs"] P(2) assms(1) by (meson leD)
  next
    assume "i < first_max vs"
    then show ?thesis using assms(2) [OF P(1)] P(3) by (meson leD)
  qed
qed

lemma length_tile_lanes [simp]: "length (tile_lanes bs vocab row blk) = bs"
  by (simp add: tile_lanes_def)

lemma block_argmax_tile:
  assumes "0 < vocab" and "vocab \<le> length row" and "0 < bs"
  defines "best \<equiv> first_max (take vocab row)"
  shows "fst (block_argmax bs vocab row (best div bs)) = row ! best"
    and "snd (block_argmax bs vocab row (best div bs)) = best"
    and "fst (block_argmax bs vocab row blk) \<le> row ! best"
    and "blk < best div bs \<Longrightarrow> fst (block_argmax bs vocab row blk) < row ! best"
    and "best div bs < cdiv vocab bs"
proof -
  let ?row = "take vocab row"
  have ne: "?row \<noteq> []" and len: "length ?row = vocab" using assms(1,2) by auto
  note P = first_max_props [OF ne]
  have b: "best < vocab" using P(1) len by (simp add: best_def)
  have le: "row ! j \<le> row ! best" if "j < vocab" for j using P(2) len that b by (simp add: best_def)
  have lt: "row ! j < row ! best" if "j < best" for j using P(3) len that b by (simp add: best_def)
  have lane: "tile_lanes bs vocab row k ! j = (if k * bs + j < vocab then row ! (k * bs + j) else NegInf)" if "j < bs" for k j
    using that by (simp add: tile_lanes_def)
  have low: "NegInf \<le> v" for v by (simp add: less_eq_fval_def)
  have lane_le: "tile_lanes bs vocab row k ! j \<le> row ! best" if "j < bs" for k j
    using lane [OF that] le low by simp
  have at: "best div bs * bs + best mod bs = best" by simp
  have m: "best mod bs < bs" using assms(3) by simp
  have here: "tile_lanes bs vocab row (best div bs) ! (best mod bs) = row ! best" using lane [OF m] at b by simp
  have first: "first_max (tile_lanes bs vocab row (best div bs)) = best mod bs"
  proof (rule first_max_eqI)
    fix j assume "j < best mod bs"
    then have "best div bs * bs + j < best" "j < bs" using at m by linarith+
    then show "tile_lanes bs vocab row (best div bs) ! j < tile_lanes bs vocab row (best div bs) ! (best mod bs)"
      using lane [of j] lt b here by simp
  qed (use m lane_le here in simp_all)
  show "fst (block_argmax bs vocab row (best div bs)) = row ! best"
    and "snd (block_argmax bs vocab row (best div bs)) = best"
    using first here at b by (simp_all add: block_argmax_def Let_def)
  have any: "first_max (tile_lanes bs vocab row blk) < bs"
    using first_max_props(1) [of "tile_lanes bs vocab row blk"] assms(3) by (metis length_0_conv length_tile_lanes less_numeral_extra(3))
  show "fst (block_argmax bs vocab row blk) \<le> row ! best"
    using lane_le [OF any] by (simp add: block_argmax_def Let_def)
  show "fst (block_argmax bs vocab row blk) < row ! best" if "blk < best div bs"
  proof -
    have "Suc blk * bs \<le> best div bs * bs" using that by (intro mult_right_mono) simp_all
    then have "blk * bs + bs \<le> best div bs * bs" by simp
    then have "blk * bs + first_max (tile_lanes bs vocab row blk) < best" using any at by linarith
    then show ?thesis using lane [OF any] lt b by (simp add: block_argmax_def Let_def)
  qed
  have "best div bs * bs < cdiv vocab bs * bs" using b cdiv_ge [OF assms(3), of vocab] at by linarith
  then show "best div bs < cdiv vocab bs" by simp
qed

text \<open>Whatever the padding, the tiles give the first maximum of the row.\<close>

lemma tiles_first_max:
  assumes "0 < vocab" and "vocab \<le> length row" and "0 < bs"
  defines "tiles \<equiv> map (block_argmax bs vocab row) [0..<cdiv vocab bs]"
  shows "first_max (map fst tiles @ replicate k NegInf) < length tiles"
    and "tiles ! first_max (map fst tiles @ replicate k NegInf) =
      (row ! first_max (take vocab row), first_max (take vocab row))"
proof -
  let ?b = "first_max (take vocab row) div bs"
  note T = block_argmax_tile [OF assms(1-3)]
  have low: "NegInf \<le> v" for v by (simp add: less_eq_fval_def)
  have b: "first_max (map fst tiles @ replicate k NegInf) = ?b"
    by (rule first_max_eqI) (use T low in \<open>auto simp: tiles_def nth_append\<close>)
  then show "first_max (map fst tiles @ replicate k NegInf) < length tiles" using T(5) by (simp add: tiles_def)
  show "tiles ! first_max (map fst tiles @ replicate k NegInf) = (row ! first_max (take vocab row), first_max (take vocab row))"
    unfolding b using T(1,2,5) by (simp add: tiles_def prod_eq_iff)
qed

lemma best_block_row:
  "0 < vocab \<Longrightarrow> vocab \<le> length row \<Longrightarrow> 0 < bs \<Longrightarrow>
   best_block (map (block_argmax bs vocab row) [0..<cdiv vocab bs]) = first_max (take vocab row)"
  using tiles_first_max(2) by (simp add: best_block_def Let_def)

lemma resample_tile_eq: "resample_tile vocab row blk = block_argmax resample_block vocab row blk"
  by (simp add: resample_tile_def block_argmax_def gumbel_block_greedy_def Let_def)

lemma local_stats_eq: "pos < num_spec \<Longrightarrow> local_stats junk num_spec pos vocab row blk = block_argmax vocab_block vocab row blk"
  by (simp add: local_stats_def block_argmax_def)

lemma local_argmax_row: "row \<noteq> [] \<Longrightarrow> local_argmax triton row = (row ! first_max row, first_max row)"
  using tiles_first_max(2) [of "length row" row vocab_block 0]
  by (simp add: local_argmax_def local_argmax_torch_def Let_def vocab_block_def)

section \<open>The winner over ranks\<close>

lemma to_int64_id: "i \<le> 2 ^ 24 \<Longrightarrow> to_int64 (f32 (of_nat i)) = int i"
  using to_float_int [of 23 "int i" 0] by (simp add: f32_def to_int64_def)

text \<open>The columns rank \<open>q\<close> holds of a row.\<close>

definition shard_of :: "nat \<Rightarrow> nat \<Rightarrow> fval list \<Rightarrow> fval list" where
  "shard_of vs q row = take vs (drop (q * vs) row)"

lemma shard_pair:
  assumes "length row = tp * vs" and "q < tp" and "0 < vs"
  shows "(case local_argmax triton (shard_of vs q row) of (v, i) \<Rightarrow> (v, i + q * vs)) = block_argmax vs (tp * vs) row q"
proof -
  have top: "q * vs + vs \<le> tp * vs" using mult_right_mono [of "Suc q" tp vs] assms(2) by simp
  have lanes: "tile_lanes vs (tp * vs) row q = shard_of vs q row"
    by (rule nth_equalityI) (use top assms(1,2) in \<open>auto simp: tile_lanes_def shard_of_def nth_append\<close>)
  have ne: "shard_of vs q row \<noteq> []" using lanes assms(3) by (metis length_tile_lanes list.size(3) less_numeral_extra(3))
  have "first_max (shard_of vs q row) < vs" using first_max_props(1) [OF ne] lanes by (metis length_tile_lanes)
  then show ?thesis using top by (simp add: local_argmax_row [OF ne] block_argmax_def lanes Let_def)
qed

lemma reduce_ranks:
  assumes "length row = tp * vs" and "0 < tp" and "0 < vs" and "tp * vs \<le> 2 ^ 24"
  shows "reduce_pairs (map (\<lambda>q. case block_argmax vs (tp * vs) row q of (v, i) \<Rightarrow> pack_pair v i) [0..<tp]) = int (first_max row)"
proof -
  let ?tiles = "map (block_argmax vs (tp * vs) row) [0..<tp]"
  let ?pairs = "map (\<lambda>q. case block_argmax vs (tp * vs) row q of (v, i) \<Rightarrow> pack_pair v i) [0..<tp]"
  have ne: "row \<noteq> []" using assms by auto
  have fsts: "map fst ?pairs = map fst ?tiles" by (simp add: pack_pair_def split_beta)
  note T = tiles_first_max [of "tp * vs" row vs 0, unfolded cdiv_mult [OF assms(3)]]
  have b: "first_max (map fst ?tiles) < tp" "?tiles ! first_max (map fst ?tiles) = (row ! first_max row, first_max row)"
    using T assms by simp_all
  have "?pairs ! first_max (map fst ?tiles) = pack_pair (row ! first_max row) (first_max row)"
    using b by simp
  moreover have "first_max row \<le> 2 ^ 24" using first_max_props(1) [OF ne] assms by simp
  ultimately show ?thesis by (simp only: reduce_pairs_def fsts) (simp add: pack_pair_def to_int64_id)
qed

text \<open>
  On every rank the reduction gives the first maximum of the full row, the gather being the rank-major gather of all ranks' pairs.
\<close>

lemma vocab_parallel_row:
  assumes len: "\<And>row. row \<in> set logits \<Longrightarrow> length row = tp * vs" and pos: "0 < vs" and small: "tp * vs \<le> 2 ^ 24" and p: "p < tp"
    and gather: "gather (local_pairs triton (map (shard_of vs p) logits) (p * vs)) =
      map (\<lambda>j. map (\<lambda>q. local_pairs triton (map (shard_of vs q) logits) (q * vs) ! j) [0..<tp]) [0..<length logits]"
  shows "vocab_parallel_greedy triton (map (shard_of vs p) logits) (p * vs) tp gather = map (\<lambda>row. int (first_max row)) logits"
proof -
  have pair: "local_pairs triton (map (shard_of vs q) logits) (q * vs) ! j =
      (case block_argmax vs (tp * vs) (logits ! j) q of (v, i) \<Rightarrow> pack_pair v i)" if "q < tp" "j < length logits" for q j
    using shard_pair [OF len [OF nth_mem [OF that(2)]] that(1) pos, of triton] that(2)
    by (simp add: local_pairs_def split_beta prod_eq_iff)
  have rows: "map (\<lambda>j. map (\<lambda>q. local_pairs triton (map (shard_of vs q) logits) (q * vs) ! j) [0..<tp]) [0..<length logits] =
      map (\<lambda>row. map (\<lambda>q. case block_argmax vs (tp * vs) row q of (v, i) \<Rightarrow> pack_pair v i) [0..<tp]) logits"
    by (rule nth_equalityI) (simp_all add: pair)
  have red: "map reduce_pairs (map (\<lambda>row. map (\<lambda>q. case block_argmax vs (tp * vs) row q of (v, i) \<Rightarrow> pack_pair v i) [0..<tp]) logits) =
      map (\<lambda>row. int (first_max row)) logits"
    using reduce_ranks [OF len _ pos small] p by simp
  show ?thesis
  proof (cases "tp = 1")
    case True
    then have p0: "p = 0" using p by simp
    have one: "(to_int64 \<circ> snd) x = reduce_pairs [x]" for x by (simp add: reduce_pairs_def first_max_def)
    have "map (to_int64 \<circ> snd) (local_pairs triton (map (shard_of vs 0) logits) 0) =
        map reduce_pairs (map (\<lambda>row. map (\<lambda>q. case block_argmax vs (tp * vs) row q of (v, i) \<Rightarrow> pack_pair v i) [0..<tp]) logits)"
      by (rule nth_equalityI) (use pair [of 0] True one in \<open>simp_all add: local_pairs_def\<close>)
    then show ?thesis using red p0 True by (simp add: vocab_parallel_greedy_def Let_def)
  next
    case False
    then show ?thesis using gather red rows by (simp add: vocab_parallel_greedy_def Let_def)
  qed
qed

section \<open>Greedy verification\<close>

text \<open>What a request is owed: the targets up to and including the first row whose draft is not the target.\<close>

definition accepts :: "(nat \<Rightarrow> int) \<Rightarrow> int list \<Rightarrow> nat \<Rightarrow> nat \<Rightarrow> bool" where
  "accepts target draft start i = (target (start + i) = draft ! (start + i + 1) \<and> 0 \<le> draft ! (start + i + 1))"

definition accepted_len :: "(nat \<Rightarrow> int) \<Rightarrow> int list \<Rightarrow> nat \<Rightarrow> nat \<Rightarrow> nat" where
  "accepted_len target draft start n = length (takeWhile (accepts target draft start) [0..<n])"

definition greedy_tokens :: "(nat \<Rightarrow> int) \<Rightarrow> int list \<Rightarrow> nat \<Rightarrow> nat \<Rightarrow> int list" where
  "greedy_tokens target draft start stop =
     map (\<lambda>i. target (start + i)) [0..<Suc (accepted_len target draft start (stop - start - 1))]"

text \<open>The entries of a row of samples past its count are don't-care.\<close>

definition emitted :: "nat \<times> int list \<Rightarrow> nat \<times> int list" where
  "emitted r = (fst r, take (fst r) (snd r))"

lemma accepted_len_Suc:
  "accepted_len target draft start (Suc n) =
     (if accepted_len target draft start n = n \<and> accepts target draft start n then Suc n else accepted_len target draft start n)"
proof -
  have "accepted_len target draft start n = n \<longleftrightarrow> (\<forall>i<n. accepts target draft start i)"
    unfolding accepted_len_def
    by (metis atLeast0LessThan atLeast_upt diff_zero length_upt lessThan_iff set_takeWhileD takeWhile_eq_all_conv
        takeWhile_eq_take take_all_iff order_refl)
  then show ?thesis by (auto simp: accepted_len_def takeWhile_append)
qed

lemma accepted_len_le: "accepted_len target draft start n \<le> n"
  unfolding accepted_len_def using length_takeWhile_le [of _ "[0..<n]"] by simp

text \<open>The loop both kernels share: verify while every draft so far was the target, storing the target of each verified row.\<close>

definition verify_iter :: "(nat \<Rightarrow> bool) \<Rightarrow> (nat \<Rightarrow> int) \<Rightarrow> nat \<Rightarrow> nat \<times> bool \<times> int list \<Rightarrow> nat \<times> bool \<times> int list" where
  "verify_iter ok val i st =
     (case st of (acc, verifying, out) \<Rightarrow>
        if verifying then (acc + (if ok i then 1 else 0), ok i, out[i := val i]) else st)"

lemma fold_verify_iter:
  fixes target :: "nat \<Rightarrow> int" and draft :: "int list" and start :: nat
  assumes "n \<le> length out"
  defines "k \<equiv> accepted_len target draft start n"
  shows "fold (verify_iter (accepts target draft start) (\<lambda>i. target (start + i))) [0..<n] (0, True, out) =
    (k, k = n, map (\<lambda>i. target (start + i)) [0..<min n (Suc k)] @ drop (min n (Suc k)) out)"
  using assms(1) unfolding k_def
proof (induction n)
  case 0
  then show ?case by (simp add: accepted_len_def)
next
  case (Suc n)
  let ?k = "accepted_len target draft start n"
  have le: "?k \<le> n" by (rule accepted_len_le)
  have upd: "(map f [0..<n] @ drop n out)[n := v] = map f [0..<n] @ v # drop (Suc n) out" for f :: "nat \<Rightarrow> int" and v
    using Suc.prems by (simp add: list_update_append Cons_nth_drop_Suc [symmetric])
  show ?case
  proof (cases "?k = n")
    case True
    then show ?thesis using Suc upd by (simp add: verify_iter_def accepted_len_Suc min_def)
  next
    case False
    then have "min n (Suc ?k) = Suc ?k" "min (Suc n) (Suc ?k) = Suc ?k" using le by auto
    then show ?thesis using Suc False le by (simp add: verify_iter_def accepted_len_Suc)
  qed
qed

lemma verify_step_iter:
  "verify_step target draft start = verify_iter (accepts (nth target) draft start) (\<lambda>i. target ! (start + i))"
  by (intro ext) (auto simp: verify_step_def verify_iter_def accepts_def Let_def split: prod.split)

lemma verify_kernel_greedy:
  assumes "start < stop" and "stop - start \<le> length out"
  shows "emitted (verify_kernel target draft start stop out) =
    (Suc (accepted_len (nth target) draft start (stop - start - 1)), greedy_tokens (nth target) draft start stop)"
proof -
  let ?n = "stop - start - 1" and ?k = "accepted_len (nth target) draft start (stop - start - 1)"
  have n: "?n \<le> length out" "?n < length out" using assms by auto
  note F = fold_verify_iter [OF n(1), of "nth target" draft start]
  show ?thesis
  proof (cases "?k = ?n")
    case True
    then show ?thesis using n F by (simp add: verify_kernel_def verify_step_iter emitted_def greedy_tokens_def list_update_append
          Let_def Cons_nth_drop_Suc [symmetric])
  next
    case False
    then have "min ?n (Suc ?k) = Suc ?k" using accepted_len_le [of "nth target" draft start ?n] by auto
    then show ?thesis using n F False by (simp add: verify_kernel_def verify_step_iter emitted_def greedy_tokens_def Let_def)
  qed
qed

lemma reject_step_iter:
  assumes "\<And>i. i < n \<Longrightarrow> int (argmax (start + i)) = target (start + i)"
  shows "fold (reject_step argmax draft start) [0..<n] = fold (verify_iter (accepts target draft start) (\<lambda>i. target (start + i))) [0..<n]"
proof (rule ext, rule fold_cong [OF refl refl])
  fix i assume "i \<in> set [0..<n]"
  then have "int (argmax (start + i)) = target (start + i)" using assms by simp
  then show "reject_step argmax draft start i = verify_iter (accepts target draft start) (\<lambda>i. target (start + i)) i"
    by (intro ext) (auto simp: reject_step_def verify_iter_def accepts_def Let_def max_def split: prod.split)
qed

text \<open>The stock kernels give the same, the bonus row being resampled from its own logits.\<close>

lemma reject_greedy_greedy:
  assumes "start < stop" and "stop - start \<le> length out" and bonus: "0 < vocab" "vocab \<le> length (logits ! (stop - 1))"
    and arg: "\<And>i. i < stop - start - 1 \<Longrightarrow> int (argmax (start + i)) = target (start + i)"
    and last_row: "target (stop - 1) = int (first_max (take vocab (logits ! (stop - 1))))"
  shows "emitted (reject_greedy argmax vocab logits draft start stop out) =
    (Suc (accepted_len target draft start (stop - start - 1)), greedy_tokens target draft start stop)"
proof -
  let ?n = "stop - start - 1" and ?k = "accepted_len target draft start (stop - start - 1)"
  have n: "?n \<le> length out" "?n < length out" using assms by auto
  note F = fold_verify_iter [OF n(1), of target draft start] and S = reject_step_iter [of ?n argmax start target draft, OF arg]
  have le: "?k \<le> ?n" by (rule accepted_len_le)
  have re: "int (best_block (map (resample_tile vocab (logits ! (stop - 1))) [0..<cdiv vocab resample_block])) = target (stop - 1)"
    using best_block_row [OF bonus, of resample_block] last_row by (simp add: resample_tile_eq [abs_def] resample_block_def)
  show ?thesis
  proof (cases "?k = ?n")
    case True
    then have "start + ?k = stop - 1" using assms(1) by simp
    then show ?thesis using True n F S re
      by (simp add: reject_greedy_def emitted_def greedy_tokens_def list_update_append Let_def Cons_nth_drop_Suc [symmetric])
  next
    case False
    then have "min ?n (Suc ?k) = Suc ?k" "start + ?k \<noteq> stop - 1" using le by auto
    then show ?thesis using n F S by (simp add: reject_greedy_def emitted_def greedy_tokens_def Let_def)
  qed
qed

text \<open>The requests' rows: consecutive, none empty.\<close>

definition rows_ok :: "nat list \<Rightarrow> nat \<Rightarrow> bool" where
  "rows_ok cu rows = (cu \<noteq> [] \<and> hd cu = 0 \<and> last cu = rows \<and> (\<forall>r<length cu - 1. cu ! r < cu ! Suc r))"

lemma rows_mono:
  assumes "rows_ok cu rows"
  shows "a \<le> b \<Longrightarrow> b < length cu \<Longrightarrow> cu ! a \<le> cu ! b"
proof (induction b)
  case (Suc b)
  have "cu ! b < cu ! Suc b" using Suc.prems(2) assms by (simp add: rows_ok_def)
  then show ?case using Suc by (cases "a = Suc b") auto
qed simp

lemma rows_top: "rows_ok cu rows \<Longrightarrow> r < length cu \<Longrightarrow> cu ! r \<le> rows"
  using rows_mono [of cu rows r "length cu - 1"] by (auto simp: rows_ok_def last_conv_nth)

text \<open>The search gives the request of a row.\<close>

lemma searchsorted_rows:
  assumes ok: "rows_ok cu rows" and r: "Suc r < length cu" and j: "cu ! r \<le> j" "j < cu ! Suc r"
  shows "searchsorted_right (tl cu) j = r"
proof -
  have tl: "tl cu ! i = cu ! Suc i" if "i < length (tl cu)" for i using that by (simp add: nth_tl)
  have "{i. i < length (tl cu) \<and> tl cu ! i \<le> j} = {..<r}"
  proof (rule set_eqI)
    fix i
    have "cu ! Suc i \<le> j \<longleftrightarrow> i < r" if "Suc i < length cu"
    proof (cases "i < r")
      case True
      then show ?thesis using rows_mono [OF ok, of "Suc i" r] r j by simp
    next
      case False
      then show ?thesis using rows_mono [OF ok, of "Suc r" "Suc i"] that j by simp
    qed
    then show "i \<in> {i. i < length (tl cu) \<and> tl cu ! i \<le> j} \<longleftrightarrow> i \<in> {..<r}" using tl r by (auto simp: less_diff_conv)
  qed
  then show ?thesis by (simp add: searchsorted_right_def length_filter_conv_card)
qed

lemma row_request:
  assumes ok: "rows_ok cu rows" and j: "j < rows"
  obtains r where "Suc r < length cu" "cu ! r \<le> j" "j < cu ! Suc r"
proof -
  have top: "cu ! (length cu - 1) = rows" "cu ! 0 = 0" using ok by (auto simp: rows_ok_def last_conv_nth hd_conv_nth)
  obtain b where b: "b < length cu" "j < cu ! b" "\<And>a. a < b \<Longrightarrow> \<not> j < cu ! a"
    using exists_least_iff [of "\<lambda>b. b < length cu \<and> j < cu ! b"] top j ok by (auto simp: rows_ok_def)
  then obtain r where "b = Suc r" using top(2) by (cases b) auto
  then show thesis using that [of r] b by force
qed

lemma search_row_iff:
  assumes ok: "rows_ok cu rows" and r: "Suc r < length cu" and j: "j < rows"
  shows "searchsorted_right (tl cu) j = r \<longleftrightarrow> cu ! r \<le> j \<and> j < cu ! Suc r"
  using row_request [OF ok j] searchsorted_rows [OF ok] r by metis

lemma accepted_len_nth: "i < accepted_len target draft start n \<Longrightarrow> accepts target draft start i"
  unfolding accepted_len_def using nth_mem [of i "takeWhile (accepts target draft start) [0..<n]"]
    takeWhile_nth [of i "accepts target draft start" "[0..<n]"] length_takeWhile_le [of "accepts target draft start" "[0..<n]"]
  by (auto dest!: set_takeWhileD)

lemma accepted_len_stop: "accepted_len target draft start n < n \<Longrightarrow> \<not> accepts target draft start (accepted_len target draft start n)"
  unfolding accepted_len_def using nth_length_takeWhile [of "accepts target draft start" "[0..<n]"] by simp

text \<open>The minimum over a request's rows is the number of drafts accepted.\<close>

lemma torch_acc:
  assumes ok: "rows_ok cu (length target)" and r: "Suc r < length cu" and len: "length draft = length target" "length target < big"
  shows "fold min (map (row_miss target draft cu) (filter (\<lambda>j. searchsorted_right (tl cu) j = r) [0..<length target])) big =
    accepted_len (nth target) draft (cu ! r) (cu ! Suc r - cu ! r - 1)"
proof -
  let ?start = "cu ! r" and ?stop = "cu ! Suc r"
  let ?n = "?stop - ?start - 1"
  let ?k = "accepted_len (nth target) draft ?start ?n" and ?rows = "filter (\<lambda>j. searchsorted_right (tl cu) j = r) [0..<length target]"
  have lt: "?start < ?stop" using ok r by (auto simp: rows_ok_def)
  have top: "?stop \<le> length target" using rows_top [OF ok r] .
  have le: "?k \<le> ?n" by (rule accepted_len_le)
  have rows: "set ?rows = {?start..<?stop}"
  proof (rule set_eqI)
    fix j show "j \<in> set ?rows \<longleftrightarrow> j \<in> {?start..<?stop}"
      using search_row_iff [OF ok r, of j] top by (cases "j < length target") simp_all
  qed
  have miss: "row_miss target draft cu j = (if j + 1 < ?stop \<and> accepts (nth target) draft ?start (j - ?start) then big else j - ?start)"
    if "j \<in> {?start..<?stop}" for j
    using searchsorted_rows [OF ok r, of j] that top len(1)
    by (auto simp: row_miss_def accepts_def Let_def nth_append nth_tl)
  have "Min (insert big (row_miss target draft cu ` {?start..<?stop})) = ?k"
  proof (rule Min_eqI)
    fix x assume "x \<in> insert big (row_miss target draft cu ` {?start..<?stop})"
    then consider "x = big" | j where "j \<in> {?start..<?stop}" "x = row_miss target draft cu j" by auto
    then show "?k \<le> x"
    proof cases
      case 1
      then show ?thesis using le top len(2) by simp
    next
      case (2 j)
      have "j - ?start < ?k \<Longrightarrow> j + 1 < ?stop" using 2(1) le by auto
      then have "?k \<le> j - ?start \<or> (j + 1 < ?stop \<and> accepts (nth target) draft ?start (j - ?start))"
        using accepted_len_nth [of "j - ?start"] by (meson not_le)
      then show ?thesis using 2 miss le top len(2) by auto
    qed
  next
    have j: "?start + ?k \<in> {?start..<?stop}" using le lt by auto
    have "\<not> (?start + ?k + 1 < ?stop \<and> accepts (nth target) draft ?start ?k)"
      using accepted_len_stop [of "nth target" draft ?start ?n] by auto
    then have "row_miss target draft cu (?start + ?k) = ?k" using miss [OF j] by auto
    then show "?k \<in> insert big (row_miss target draft cu ` {?start..<?stop})" using j by (metis image_eqI insertCI)
  qed simp
  then show ?thesis using Min.set_eq_fold [of big "map (row_miss target draft cu) ?rows"] rows by simp
qed

lemma greedy_verify_torch_request:
  assumes ok: "rows_ok cu (length target)" and r: "Suc r < length cu" and len: "length draft = length target" "length target < big"
    and width: "cu ! Suc r - cu ! r \<le> width"
  shows "emitted (greedy_verify_torch target draft cu (length cu - 1) width ! r) =
    (Suc (accepted_len (nth target) draft (cu ! r) (cu ! Suc r - cu ! r - 1)), greedy_tokens (nth target) draft (cu ! r) (cu ! Suc r))"
proof -
  let ?k = "accepted_len (nth target) draft (cu ! r) (cu ! Suc r - cu ! r - 1)"
  have cu: "take (length cu - 1 + 1) cu = cu" by simp
  have lt: "cu ! r < cu ! Suc r" using ok r by (auto simp: rows_ok_def)
  have le: "?k \<le> cu ! Suc r - cu ! r - 1" by (rule accepted_len_le)
  have "take (Suc ?k) (map (\<lambda>c. target ! min (cu ! r + c) (cu ! Suc r - 1)) [0..<width]) =
      greedy_tokens (nth target) draft (cu ! r) (cu ! Suc r)"
    unfolding greedy_tokens_def by (rule nth_equalityI) (use le lt width in \<open>auto simp del: upt_Suc\<close>)
  moreover have "[0..<length cu - 1] ! r = r" "r < length cu - 1" using r by simp_all
  ultimately show ?thesis by (simp only: greedy_verify_torch_def Let_def emitted_def cu nth_map length_upt torch_acc [OF ok r len]
        fst_conv snd_conv Suc_eq_plus1 diff_zero)
qed

section \<open>The fast path is the stock path\<close>

lemma request_nth: "Suc r < n \<Longrightarrow> map f [0..<n - 1] ! r = f r"
  by simp

lemma length_mask_dead: "(\<And>ds. dead = Some ds \<Longrightarrow> length ds = length draft) \<Longrightarrow> length (mask_dead dead draft) = length draft"
  by (auto simp: mask_dead_def split: option.splits)

text \<open>A batch of verify rows: one row of logits per draft and one for the bonus token, at most \<open>num_spec\<close> drafts a request.\<close>

definition verify_batch_ok :: "nat \<Rightarrow> fval list list \<Rightarrow> int list \<Rightarrow> nat list \<Rightarrow> nat list \<Rightarrow> nat \<Rightarrow> bool" where
  "verify_batch_ok vocab logits draft cu local_pos num_spec =
     (list_all (\<lambda>row. length row = vocab) logits \<and> rows_ok cu (length logits) \<and> length draft = length logits \<and> length logits < big \<and>
      list_all (\<lambda>r. cu ! Suc r - cu ! r \<le> Suc num_spec \<and> list_all (\<lambda>j. local_pos ! j = j - cu ! r) [cu ! r..<cu ! Suc r])
        [0..<length cu - 1])"

definition out_ok :: "nat list \<Rightarrow> nat \<Rightarrow> int list list \<Rightarrow> bool" where
  "out_ok cu num_spec outs = (length outs = length cu - 1 \<and> list_all (\<lambda>out. length out = Suc num_spec) outs)"

lemma greedy_verify_request:
  assumes ok: "verify_batch_ok vocab logits draft cu local_pos num_spec" and out: "out_ok cu num_spec outs" and r: "Suc r < length cu"
    and target: "length target = length logits"
  shows "emitted (greedy_verify cuda outs target draft cu (length cu - 1) (Suc num_spec) ! r) =
    (Suc (accepted_len (nth target) draft (cu ! r) (cu ! Suc r - cu ! r - 1)), greedy_tokens (nth target) draft (cu ! r) (cu ! Suc r))"
proof (cases cuda)
  case True
  have "cu ! r < cu ! Suc r" "cu ! Suc r - cu ! r \<le> length (outs ! r)"
    using ok out r by (auto simp: verify_batch_ok_def out_ok_def rows_ok_def list_all_length)
  then show ?thesis using verify_kernel_greedy [of "cu ! r" "cu ! Suc r"] True by (simp add: greedy_verify_def request_nth [OF r, simplified])
next
  case False
  have "cu ! Suc r - cu ! r \<le> Suc num_spec" using ok r by (auto simp: verify_batch_ok_def list_all_length)
  then show ?thesis using greedy_verify_torch_request [of cu target r draft "Suc num_spec"] ok r target False
    by (simp add: greedy_verify_def verify_batch_ok_def)
qed

lemma target_argmax_row:
  assumes "local_pos ! j < num_spec" "length (logits ! j) = vocab" "0 < vocab"
  shows "target_argmax junk local_pos num_spec vocab logits j = first_max (logits ! j)"
  using assms best_block_row [of vocab "logits ! j" vocab_block]
  by (simp add: target_argmax_def local_stats_eq vocab_block_def cong: map_cong)

lemma rejection_sample_request:
  assumes ok: "verify_batch_ok vocab logits draft cu local_pos num_spec" and out: "out_ok cu num_spec outs" and r: "Suc r < length cu"
    and vocab: "0 < vocab"
  defines "target \<equiv> \<lambda>j. int (first_max (logits ! j))"
  shows "emitted (rejection_sample_greedy junk outs num_spec vocab logits draft cu local_pos ! r) =
    (Suc (accepted_len target draft (cu ! r) (cu ! Suc r - cu ! r - 1)), greedy_tokens target draft (cu ! r) (cu ! Suc r))"
proof -
  have lt: "cu ! r < cu ! Suc r" and room: "cu ! Suc r - cu ! r \<le> length (outs ! r)" "cu ! Suc r - cu ! r \<le> Suc num_spec"
    using ok out r by (auto simp: verify_batch_ok_def out_ok_def rows_ok_def list_all_length)
  have top: "cu ! Suc r \<le> length logits" using ok rows_top [of cu "length logits" "Suc r"] r by (simp add: verify_batch_ok_def)
  have row: "length (logits ! j) = vocab" if "j < cu ! Suc r" for j
    using ok that top by (simp add: verify_batch_ok_def list_all_length)
  have pos: "local_pos ! j = j - cu ! r" if "cu ! r \<le> j" "j < cu ! Suc r" for j
    using ok r that by (auto simp: verify_batch_ok_def list_all_iff)
  have arg: "int (target_argmax junk local_pos num_spec vocab logits (cu ! r + i)) = target (cu ! r + i)"
    if "i < cu ! Suc r - cu ! r - 1" for i
    using target_argmax_row [of local_pos "cu ! r + i"] pos [of "cu ! r + i"] row [of "cu ! r + i"] that room vocab
    by (simp add: target_def)
  have "emitted (reject_greedy (target_argmax junk local_pos num_spec vocab logits) vocab logits draft (cu ! r) (cu ! Suc r) (outs ! r)) =
      (Suc (accepted_len target draft (cu ! r) (cu ! Suc r - cu ! r - 1)), greedy_tokens target draft (cu ! r) (cu ! Suc r))"
    by (rule reject_greedy_greedy) (use lt room row vocab arg in \<open>simp_all add: target_def\<close>)
  then show ?thesis by (simp add: rejection_sample_greedy_def request_nth [OF r, simplified])
qed

lemma gumbel_sample_rows:
  assumes "list_all (\<lambda>row. length row = vocab) logits" and "0 < vocab"
  shows "gumbel_sample_greedy vocab logits = map first_max logits"
  using assms tiles_first_max(2) [of vocab _ resample_block 0]
  by (simp add: gumbel_sample_greedy_def resample_tile_eq [abs_def] resample_block_def list_all_iff Let_def)

text \<open>What the stock runner returns for a greedy batch.\<close>

definition stock_sample ::
    "(nat \<Rightarrow> nat \<Rightarrow> fval \<times> nat) \<Rightarrow> int list list \<Rightarrow> bool \<Rightarrow> nat \<Rightarrow> nat \<Rightarrow> fval list list \<Rightarrow> int list \<Rightarrow> nat list \<Rightarrow> nat list \<Rightarrow>
      (nat \<times> int list) list" where
  "stock_sample junk outs reject num_spec vocab logits draft cu local_pos =
     (if reject then rejection_sample_greedy junk outs num_spec vocab logits draft cu local_pos
      else map (\<lambda>t. (1, [int t])) (gumbel_sample_greedy vocab logits))"

lemma accepted_len_cong:
  assumes "\<And>i. i < n \<Longrightarrow> target (start + i) = target' (start + i)"
  shows "accepted_len target draft start n = accepted_len target' draft start n"
  unfolding accepted_len_def by (rule arg_cong [of _ _ length], rule takeWhile_cong) (use assms in \<open>auto simp: accepts_def\<close>)

lemma greedy_tokens_cong:
  assumes "\<And>j. start \<le> j \<Longrightarrow> j < stop \<Longrightarrow> target j = target' j" and "start < stop"
  shows "greedy_tokens target draft start stop = greedy_tokens target' draft start stop"
proof -
  have a: "accepted_len target draft start (stop - start - 1) = accepted_len target' draft start (stop - start - 1)"
    by (rule accepted_len_cong) (use assms in auto)
  show ?thesis unfolding greedy_tokens_def a
    using accepted_len_le [of target' draft start "stop - start - 1"] assms by (auto simp del: upt_Suc)
qed

lemma fast_sample_exact:
  fixes logits tp vs num_spec cu local_pos draft dead
  defines "drafts \<equiv> mask_dead dead draft"
  assumes vocab: "0 < vs" "tp * vs \<le> 2 ^ 24" "p < tp"
    and batch: "verify_batch_ok (tp * vs) logits drafts cu local_pos num_spec"
    and out: "out_ok cu num_spec outs" "out_ok cu num_spec outs'"
    and gather: "gather (local_pairs triton (map (shard_of vs p) logits) (p * vs)) =
      map (\<lambda>j. map (\<lambda>q. local_pairs triton (map (shard_of vs q) logits) (q * vs) ! j) [0..<tp]) [0..<length logits]"
  shows "map emitted (fast_sample triton cuda outs reject (Suc num_spec) (map (shard_of vs p) logits) (p * vs) tp gather draft dead cu
      (length cu - 1)) =
    map emitted (stock_sample junk outs' reject num_spec (tp * vs) logits drafts cu local_pos)"
proof -
  let ?target = "map (\<lambda>row. int (first_max row)) logits"
  have pos: "0 < tp * vs" using vocab by simp
  have len: "length row = tp * vs" if "row \<in> set logits" for row
    using batch that by (auto simp: verify_batch_ok_def list_all_iff)
  have t: "vocab_parallel_greedy triton (map (shard_of vs p) logits) (p * vs) tp gather = ?target"
    by (rule vocab_parallel_row) (use len vocab gather in auto)
  show ?thesis
  proof (cases reject)
    case True
    have "emitted (greedy_verify cuda outs ?target drafts cu (length cu - 1) (Suc num_spec) ! r) =
        emitted (rejection_sample_greedy junk outs' num_spec (tp * vs) logits drafts cu local_pos ! r)" if "r < length cu - 1" for r
    proof -
      have r: "Suc r < length cu" using that by simp
      have lt: "cu ! r < cu ! Suc r" and top: "cu ! Suc r \<le> length logits"
        using batch rows_top [of cu "length logits" "Suc r"] r by (auto simp: verify_batch_ok_def rows_ok_def)
      have row: "?target ! j = int (first_max (logits ! j))" if "j < cu ! Suc r" for j using that top by simp
      have "accepted_len (nth ?target) drafts (cu ! r) (cu ! Suc r - cu ! r - 1) =
          accepted_len (\<lambda>j. int (first_max (logits ! j))) drafts (cu ! r) (cu ! Suc r - cu ! r - 1)"
        by (rule accepted_len_cong, rule row) simp
      moreover have "greedy_tokens (nth ?target) drafts (cu ! r) (cu ! Suc r) =
          greedy_tokens (\<lambda>j. int (first_max (logits ! j))) drafts (cu ! r) (cu ! Suc r)"
        by (rule greedy_tokens_cong [OF row lt])
      ultimately show ?thesis
        using greedy_verify_request [OF batch out(1) r, of ?target] rejection_sample_request [OF batch out(2) r pos] by simp
    qed
    moreover have "length (greedy_verify cuda outs ?target drafts cu (length cu - 1) (Suc num_spec)) = length cu - 1"
      by (simp add: greedy_verify_def greedy_verify_torch_def Let_def)
    ultimately show ?thesis
      using True t by (intro nth_equalityI) (simp_all add: fast_sample_def stock_sample_def rejection_sample_greedy_def drafts_def)
  next
    case False
    have "gumbel_sample_greedy (tp * vs) logits = map first_max logits"
      by (rule gumbel_sample_rows) (use len pos in \<open>auto simp: list_all_iff\<close>)
    then show ?thesis using False t by (simp add: fast_sample_def stock_sample_def)
  qed
qed

lemma hooked_sample_exact:
  assumes vocab: "0 < vs" "tp * vs \<le> 2 ^ 24" "p < tp"
    and batch: "verify_batch_ok (tp * vs) logits (mask_dead dead draft) cu local_pos num_spec"
    and out: "out_ok cu num_spec outs" "out_ok cu num_spec outs'"
    and stock: "\<And>reject width. plan v = Inr (reject, width) \<Longrightarrow>
      stock = stock_sample junk outs' reject num_spec (tp * vs) logits (mask_dead dead draft) cu local_pos"
    and spec: "\<And>a b n. sv_rejection v = Some (a, b, n) \<Longrightarrow> n = num_spec"
    and gather: "gather (local_pairs triton (map (shard_of vs p) logits) (p * vs)) =
      map (\<lambda>j. map (\<lambda>q. local_pairs triton (map (shard_of vs q) logits) (q * vs) ! j) [0..<tp]) [0..<length logits]"
  shows "map emitted (hooked_sample mode v
      (\<lambda>reject width. fast_sample triton cuda outs reject width (map (shard_of vs p) logits) (p * vs) tp gather draft dead cu
        (length cu - 1)) stock) = map emitted stock"
proof (cases "plan v")
  case (Inr how)
  then obtain reject width where how: "plan v = Inr (reject, width)" by (cases how) auto
  have width: "width = Suc num_spec" if reject
    using how that spec by (auto simp: plan_def split: if_splits sum.splits option.splits prod.splits)
  have "map emitted (fast_sample triton cuda outs reject width (map (shard_of vs p) logits) (p * vs) tp gather draft dead cu (length cu - 1)) =
      map emitted stock"
    using fast_sample_exact [where gather = gather, OF vocab batch out gather, of cuda reject junk] width stock [OF how]
    by (cases reject) (simp_all add: fast_sample_def)
  then show ?thesis by (simp add: hooked_sample_def how)
qed (simp add: hooked_sample_def)

text \<open>
  C5. On every rank, in every mode and for every batch, the hooked \<open>sample\<close> emits what the stock greedy path does: the same number of
  tokens per request and the same tokens. Whether the local maximum is taken by tiles or by the reference, and verification by the
  kernel or by tensor operations, makes no difference; nor do unwritten memory and dead drafts. The vocabulary is split evenly and
  has at most \<open>2^24\<close> tokens, and the gather returns the pairs of all ranks in rank order.
\<close>

theorem target_selection_exact:
  fixes logits tp vs num_spec cu local_pos draft dead
  defines "drafts \<equiv> mask_dead dead draft"
  assumes vocab: "0 < vs" "tp * vs \<le> 2 ^ 24" "p < tp"
    and batch: "verify_batch_ok (tp * vs) logits drafts cu local_pos num_spec"
    and out: "out_ok cu num_spec outs" "out_ok cu num_spec outs'"
    and stock: "\<And>reject width. plan v = Inr (reject, width) \<Longrightarrow>
      stock = stock_sample junk outs' reject num_spec (tp * vs) logits drafts cu local_pos"
    and spec: "\<And>a b n. sv_rejection v = Some (a, b, n) \<Longrightarrow> n = num_spec"
    and gather: "gather (local_pairs triton (map (shard_of vs p) logits) (p * vs)) =
      map (\<lambda>j. map (\<lambda>q. local_pairs triton (map (shard_of vs q) logits) (q * vs) ! j) [0..<tp]) [0..<length logits]"
  shows "map emitted (hooked_sample mode v
      (\<lambda>reject width. fast_sample triton cuda outs reject width (map (shard_of vs p) logits) (p * vs) tp gather draft dead cu
        (length cu - 1)) stock) = map emitted stock"
  using hooked_sample_exact [where gather = gather and mode = mode and v = v and stock = stock and triton = triton and cuda = cuda
      and junk = junk and outs' = outs', OF vocab batch [unfolded drafts_def] out stock [unfolded drafts_def] spec gather] .

definition demo_rows :: "fval list list" where
  "demo_rows = [[Fin 1, Fin 3, Fin 3, Fin 0], [Fin 2, Fin 0, Fin 5, Fin 5]]"

definition demo_view :: sample_view where
  "demo_view = \<lparr>sv_sampler = True, sv_grammar = False, sv_stock_sampler = True, sv_nans = False, sv_head = Inr 4, sv_idx = [3],
     sv_temperature = (\<lambda>_. 0), sv_processing = False, sv_max_logprobs = -1, sv_logprob_ids = 0, sv_num_draft_tokens = 1,
     sv_rejection = Some (True, False, 1), sv_draft_width = None\<rparr>"

definition demo_gather :: "(fval \<times> fval) list \<Rightarrow> (fval \<times> fval) list list" where
  "demo_gather pairs = map (\<lambda>j. [pairs ! j, local_pairs True (map (shard_of 2 1) demo_rows) 2 ! j]) [0..<2]"

theorem target_selection_exact_witness:
  "plan demo_view = Inr (True, 2) \<and>
   map emitted (hooked_sample ''1'' demo_view
      (\<lambda>reject width. fast_sample True False [[0, 0]] reject width (map (shard_of 2 0) demo_rows) (0 * 2) 2 demo_gather [7, 1] None [0, 2]
        (length [0 :: nat, 2] - 1)) (stock_sample (\<lambda>_ _. (NegInf, 9)) [[5, 5]] True 1 (2 * 2) demo_rows [7, 1] [0, 2] [0, 1])) =
   map emitted (stock_sample (\<lambda>_ _. (NegInf, 9)) [[5, 5]] True 1 (2 * 2) demo_rows [7, 1] [0, 2] [0, 1])"
proof
  show p: "plan demo_view = Inr (True, 2)" by (simp add: plan_def demo_view_def)
  have m: "mask_dead None [7, 1] = [7, 1]" by (simp add: mask_dead_def)
  have sv: "sv_rejection demo_view = Some (True, False, 1)" by (simp add: demo_view_def)
  have batch: "verify_batch_ok 4 demo_rows [7, 1] [0, 2] [0, Suc 0] (Suc 0)"
    by (simp add: verify_batch_ok_def rows_ok_def demo_rows_def big_def upt_rec)
  have out: "out_ok [0, 2] (Suc 0) [[a, b]]" for a b by (simp add: out_ok_def)
  have gather: "demo_gather (local_pairs True (map (shard_of 2 0) demo_rows) 0) =
      map (\<lambda>j. map (\<lambda>q. local_pairs True (map (shard_of 2 q) demo_rows) (q * 2) ! j) [0..<2]) [0..<length demo_rows]"
    by (simp add: demo_gather_def demo_rows_def upt_rec)
  show "map emitted (hooked_sample ''1'' demo_view
      (\<lambda>reject width. fast_sample True False [[0, 0]] reject width (map (shard_of 2 0) demo_rows) (0 * 2) 2 demo_gather [7, 1] None [0, 2]
        (length [0 :: nat, 2] - 1)) (stock_sample (\<lambda>_ _. (NegInf, 9)) [[5, 5]] True 1 (2 * 2) demo_rows [7, 1] [0, 2] [0, 1])) =
   map emitted (stock_sample (\<lambda>_ _. (NegInf, 9)) [[5, 5]] True 1 (2 * 2) demo_rows [7, 1] [0, 2] [0, 1])"
    by (rule target_selection_exact [where num_spec = 1 and local_pos = "[0, 1]" and junk = "\<lambda>_ _. (NegInf, 9)" and outs' = "[[5, 5]]"])
      (use p sv in \<open>simp_all add: m batch out gather\<close>)
qed

end
