(* ===== verification/Verify_Cut.thy ===== *)
theory Verify_Cut
  imports Target_Argmax
begin

text \<open>
  The verify cut, \<open>src/overlay/glm_verify_cut.py\<close>: a confidence bound says how many drafts of a request are worth verifying; the
  rows after that are remapped to the anchor row in front of every mixture of experts and their drafts are rejected. Confidences are
  rationals; \<open>ex x m\<close> stands for \<open>exp (x - m)\<close> and \<open>mul\<close> for the float32 product. Buffers on the device are lists.
\<close>

section \<open>The switch\<close>

text \<open>\<open>ENABLED\<close> and \<open>THRESHOLD\<close>: \<open>conf:T\<close> arms the hooks, anything else leaves them off.\<close>

definition vc_spec :: "string \<Rightarrow> rat option result" where
  "vc_spec raw =
     (let s = strip raw
      in if starts_with ''conf:'' s then map_sum id Some (py_float (drop 5 s)) else Inr None)"

section \<open>How many drafts stay\<close>

text \<open>\<open>selector_conf\<close>: the largest softmax probability of a position's candidate scores.\<close>

definition selector_conf :: "(fval \<Rightarrow> fval \<Rightarrow> rat) \<Rightarrow> fval list \<Rightarrow> rat" where
  "selector_conf ex xs =
     (let m = xs ! first_max xs; es = map (\<lambda>x. ex x m) xs in Max (set (map (\<lambda>e. e / sum_list es) es)))"

text \<open>The kernel's form, over a block of lanes padded to a power of two.\<close>

definition lane_conf :: "(fval \<Rightarrow> fval \<Rightarrow> rat) \<Rightarrow> nat \<Rightarrow> fval list \<Rightarrow> rat" where
  "lane_conf ex block xs =
     (let lanes = xs @ replicate (block - length xs) NegInf; m = lanes ! first_max lanes;
          den = sum_list (map (\<lambda>i. if i < length xs then ex (lanes ! i) m else 0) [0..<length lanes])
      in if NegInf < m then 1 / den else 0)"

definition live_step :: "(rat \<Rightarrow> rat \<Rightarrow> rat) \<Rightarrow> rat \<Rightarrow> rat \<Rightarrow> rat \<times> nat \<times> nat \<Rightarrow> rat \<times> nat \<times> nat" where
  "live_step mul thr p st =
     (case st of (cum, alive, len) \<Rightarrow>
        let cum1 = mul cum p; alive1 = alive * (if thr \<le> cum1 then 1 else 0) in (cum1, alive1, len + alive1))"

text \<open>\<open>_vc_live_kernel\<close> on the confidences of one row, and \<open>live_lengths\<close>, its reference.\<close>

definition live_kernel :: "(rat \<Rightarrow> rat \<Rightarrow> rat) \<Rightarrow> rat \<Rightarrow> rat list \<Rightarrow> nat" where
  "live_kernel mul thr ps = snd (snd (fold (live_step mul thr) ps (1, 1, 0)))"

fun cumprod :: "(rat \<Rightarrow> rat \<Rightarrow> rat) \<Rightarrow> rat \<Rightarrow> rat list \<Rightarrow> rat list" where
  "cumprod mul c [] = []"
| "cumprod mul c (p # ps) = mul c p # cumprod mul (mul c p) ps"

definition live_lengths :: "(rat \<Rightarrow> rat \<Rightarrow> rat) \<Rightarrow> rat \<Rightarrow> rat list \<Rightarrow> nat" where
  "live_lengths mul thr ps = length (filter (\<lambda>c. thr \<le> c) (cumprod mul 1 ps))"

text \<open>\<open>launch_live\<close>: one program per request of the batch writes the slot of its request.\<close>

definition launch_live ::
    "(fval \<Rightarrow> fval \<Rightarrow> rat) \<Rightarrow> (rat \<Rightarrow> rat \<Rightarrow> rat) \<Rightarrow> rat \<Rightarrow> fval list list list \<Rightarrow> nat list \<Rightarrow> nat \<Rightarrow> nat list \<Rightarrow> nat list" where
  "launch_live ex mul thr scores idx n live =
     fold (\<lambda>r lv. lv[idx ! r := live_kernel mul thr (map (\<lambda>xs. lane_conf ex (next_pow2 (length xs) (length xs)) xs) (scores ! r))])
       [0..<n] live"

section \<open>The rows\<close>

text \<open>Does request \<open>r\<close> make a row dead, with \<open>j\<close> the distance from its anchor.\<close>

definition row_dead :: "int list \<Rightarrow> int list \<Rightarrow> nat list \<Rightarrow> nat list \<Rightarrow> nat \<Rightarrow> nat \<Rightarrow> bool" where
  "row_dead qsl cu idx live row r =
     (let qs = qsl ! r; qe = qsl ! Suc r; nd = cu ! Suc r - cu ! r - 1; lv = min (int (live ! (idx ! r))) nd; j = int row - qs
      in int row < qe \<and> 1 \<le> j \<and> j \<le> nd \<and> lv < j)"

definition lane_row :: "int list \<Rightarrow> int list \<Rightarrow> nat list \<Rightarrow> nat list \<Rightarrow> nat \<Rightarrow> nat \<Rightarrow> nat \<Rightarrow> nat \<times> bool" where
  "lane_row qsl cu idx live n_req n_tok row =
     fold (\<lambda>r st. let d = row_dead qsl cu idx live row r in (if d then nat (qsl ! r) else fst st, snd st \<or> d))
       [0..<n_req] (if row < n_tok then row else 0, False)"

definition rows_block :: nat where "rows_block = 256"

text \<open>\<open>_vc_rows_kernel\<close>: the tile of a program, stored where its rows are below the padded count.\<close>

definition rows_tile ::
    "int list \<Rightarrow> int list \<Rightarrow> nat list \<Rightarrow> nat list \<Rightarrow> nat \<Rightarrow> nat \<Rightarrow> nat \<Rightarrow> nat \<Rightarrow> nat list \<times> bool list \<times> nat \<Rightarrow>
      nat list \<times> bool list \<times> nat" where
  "rows_tile qsl cu idx live n_req n_tok n_pad pid st =
     fold (\<lambda>i (src, dead, count).
             let row = pid * rows_block + i
             in if row < n_pad
                then (case lane_row qsl cu idx live n_req n_tok row of
                        (s, d) \<Rightarrow> (src[row := s], dead[row := d], count + (if d then 1 else 0)))
                else (src, dead, count))
       [0..<rows_block] st"

definition launch_rows ::
    "int list \<Rightarrow> int list \<Rightarrow> nat list \<Rightarrow> nat list \<Rightarrow> nat \<Rightarrow> nat \<Rightarrow> nat \<Rightarrow> nat list \<times> bool list \<times> nat \<Rightarrow> nat list \<times> bool list \<times> nat" where
  "launch_rows qsl cu idx live n_req n_tok n_pad st =
     fold (rows_tile qsl cu idx live n_req n_tok n_pad) [0..<cdiv n_pad rows_block] st"

text \<open>\<open>rows_reference\<close>, with Python's assignment to an index.\<close>

definition py_set :: "'a list \<Rightarrow> int \<Rightarrow> 'a \<Rightarrow> 'a list result" where
  "py_set xs i v =
     (let k = (if i < 0 then i + int (length xs) else i)
      in if 0 \<le> k \<and> k < int (length xs) then Inr (xs[nat k := v]) else Inl IndexError)"

fun ref_drafts :: "int \<Rightarrow> int \<Rightarrow> int list \<Rightarrow> nat list \<times> bool list \<Rightarrow> (nat list \<times> bool list) result" where
  "ref_drafts qs qe [] st = Inr st"
| "ref_drafts qs qe (j # js) (src, dead) =
     (if qs + j < qe
      then bind_r (py_set src (qs + j) (nat qs)) (\<lambda>src1. bind_r (py_set dead (qs + j) True) (\<lambda>dead1. ref_drafts qs qe js (src1, dead1)))
      else ref_drafts qs qe js (src, dead))"

fun ref_requests ::
    "int list \<Rightarrow> int list \<Rightarrow> nat list \<Rightarrow> nat list \<Rightarrow> nat list \<Rightarrow> nat list \<times> bool list \<Rightarrow> (nat list \<times> bool list) result" where
  "ref_requests qsl cu idx live [] st = Inr st"
| "ref_requests qsl cu idx live (r # rs) st =
     (let qs = qsl ! r; qe = qsl ! Suc r; nd = cu ! Suc r - cu ! r - 1; lv = min (int (live ! (idx ! r))) nd
      in bind_r (ref_drafts qs qe [lv + 1..nd] st) (ref_requests qsl cu idx live rs))"

definition rows_reference ::
    "int list \<Rightarrow> int list \<Rightarrow> nat list \<Rightarrow> nat list \<Rightarrow> nat \<Rightarrow> nat \<Rightarrow> nat \<Rightarrow> (nat list \<times> bool list) result" where
  "rows_reference qsl cu idx live n_req n_tok n_pad =
     ref_requests qsl cu idx live [0..<n_req] (map (\<lambda>r. if r < n_tok then r else 0) [0..<n_pad], replicate n_pad False)"

section \<open>The hooks\<close>

record cut_state =
  vc_row_src :: "nat list"
  vc_dead :: "bool list"
  vc_live :: "nat list"
  vc_dead_count :: nat
  vc_max_tokens :: nat
  vc_gather :: bool
  vc_draft_rows :: nat
  vc_threshold :: rat
  vc_calls :: nat

text \<open>\<open>_alloc\<close>: identity rows, nothing dead, every slot live far beyond any draft.\<close>

definition vc_alloc :: "nat \<Rightarrow> nat \<Rightarrow> rat \<Rightarrow> cut_state" where
  "vc_alloc max_tokens max_reqs thr = \<lparr>vc_row_src = [0..<max_tokens], vc_dead = replicate max_tokens False,
     vc_live = replicate max_reqs (2 ^ 20), vc_dead_count = 0, vc_max_tokens = max_tokens, vc_gather = False, vc_draft_rows = 0,
     vc_threshold = thr, vc_calls = 0\<rparr>"

record cut_batch =
  cb_num_reqs :: nat
  cb_num_tokens :: nat
  cb_padded :: nat
  cb_num_drafts :: nat
  cb_qsl :: "int list"
  cb_cu :: "int list"
  cb_idx :: "nat list"

text \<open>The wrapped \<open>prepare_inputs\<close>.\<close>

definition cut_prepare :: "cut_batch \<Rightarrow> cut_state \<Rightarrow> cut_state" where
  "cut_prepare b s =
     (if vc_max_tokens s < cb_padded b \<or> cb_num_reqs b = 0 then s\<lparr>vc_gather := False\<rparr>
      else case launch_rows (cb_qsl b) (cb_cu b) (cb_idx b) (vc_live s) (if 0 < cb_num_drafts b then cb_num_reqs b else 0)
                  (cb_num_tokens b) (cb_padded b) (vc_row_src s, vc_dead s, vc_dead_count s) of
             (src, dead, count) \<Rightarrow>
               s\<lparr>vc_row_src := src, vc_dead := dead, vc_dead_count := count,
                 vc_gather := (0 < cb_num_drafts b \<or> cb_num_tokens b < cb_padded b),
                 vc_draft_rows := vc_draft_rows s + cb_num_drafts b\<rparr>)"

text \<open>
  The hooked \<open>forward\<close> of a mixture of experts: what the gate and the experts get, and the output, where \<open>experts\<close> maps a row of
  hidden states to its result.
\<close>

definition cut_input :: "bool \<Rightarrow> cut_state \<Rightarrow> 'h list \<Rightarrow> 'h list" where
  "cut_input capturing s hidden =
     (let n = length hidden
      in if n \<le> vc_max_tokens s \<and> (vc_gather s \<or> capturing) then map (\<lambda>i. hidden ! (vc_row_src s ! i)) [0..<n] else hidden)"

definition cut_forward :: "bool \<Rightarrow> bool \<Rightarrow> ('h \<Rightarrow> 'o) \<Rightarrow> cut_state \<Rightarrow> 'h list \<Rightarrow> 'o list result" where
  "cut_forward sp capturing experts s hidden =
     (if sp then Inl RuntimeError else Inr (map experts (cut_input capturing s hidden)))"

text \<open>The hooked rejection sampler: the ids it hands to the stock one, which are restored afterwards.\<close>

definition cut_ids :: "cut_state \<Rightarrow> nat \<Rightarrow> nat \<Rightarrow> int list \<Rightarrow> int list" where
  "cut_ids s n num_drafts ids =
     (if num_drafts = 0 \<or> vc_max_tokens s < n then ids
      else map2 (\<lambda>d x. if d then -1 else x) (take n (vc_dead s)) (take n ids) @ drop n ids)"

text \<open>\<open>_reload_threshold\<close> once the control file was read: \<open>None\<close> is a file without a number under the key.\<close>

definition cut_reload :: "rat option \<Rightarrow> cut_state \<Rightarrow> cut_state" where
  "cut_reload t s = (case t of None \<Rightarrow> s | Some x \<Rightarrow> if 0 \<le> x \<and> x \<le> 1 \<and> x \<noteq> vc_threshold s then s\<lparr>vc_threshold := x\<rparr> else s)"

text \<open>
  The hooked \<open>propose\<close> of both speculators on one rank: \<open>lens\<close> writes the live lengths under a threshold (\<open>launch_live\<close> for
  the selector, \<open>spark_live\<close> for a confidence head), \<open>reload\<close> is what a control file holds that is new on this call, \<open>received\<close>
  maps the rank's own lengths to what it holds after the broadcast of rank 0.
\<close>

definition spark_live :: "(rat \<Rightarrow> rat \<Rightarrow> rat) \<Rightarrow> rat list list \<Rightarrow> nat list \<Rightarrow> nat \<Rightarrow> rat \<Rightarrow> nat list \<Rightarrow> nat list" where
  "spark_live mul conf idx n thr live = fold (\<lambda>r lv. lv[idx ! r := live_lengths mul thr (conf ! r)]) [0..<n] live"

definition cut_propose ::
    "(rat \<Rightarrow> nat list \<Rightarrow> nat list) \<Rightarrow> bool \<Rightarrow> bool \<Rightarrow> rat option \<Rightarrow> (nat list \<Rightarrow> nat list) \<Rightarrow> nat \<Rightarrow> cut_state \<Rightarrow> cut_state" where
  "cut_propose lens skip rereads reload received n s =
     (if skip \<or> n = 0 then s
      else let s1 = (if rereads \<and> vc_calls s mod 64 = 0 then cut_reload reload s else s)
           in s1\<lparr>vc_live := received (lens (vc_threshold s1) (vc_live s1)), vc_calls := vc_calls s1 + 1\<rparr>)"

section \<open>The confidence of a position\<close>

lemma elem_le_sum: "(x :: rat) \<in> set xs \<Longrightarrow> \<forall>y\<in>set xs. 0 \<le> y \<Longrightarrow> x \<le> sum_list xs"
proof (induction xs)
  case (Cons y ys)
  then have "0 \<le> sum_list ys" by (auto intro: sum_list_nonneg)
  moreover have "0 \<le> y" "x = y \<or> x \<le> sum_list ys" using Cons by auto
  ultimately show ?case by auto
qed simp

lemma masked_sum:
  "sum_list (map (\<lambda>i. if i < length xs then f ((xs @ ys) ! i) else 0) [0..<length (xs @ ys)]) = (sum_list (map f xs) :: rat)"
proof -
  have u: "[0..<length (xs @ ys)] = [0..<length xs] @ [length xs..<length xs + length ys]"
    using upt_add_eq_append [of 0 "length xs" "length ys"] by simp
  have a: "map (\<lambda>i. if i < length xs then f ((xs @ ys) ! i) else 0) [0..<length xs] = map f xs"
    by (rule nth_equalityI) (simp_all add: nth_append)
  have b: "map (\<lambda>i. if i < length xs then f ((xs @ ys) ! i) else 0) [length xs..<length xs + length ys] = replicate (length ys) 0"
    by (rule nth_equalityI) simp_all
  show ?thesis unfolding u map_append a b by (simp add: sum_list_replicate)
qed

lemma lane_conf_selector:
  assumes ex: "\<And>x. ex x x = 1" "\<And>x m. x \<le> m \<Longrightarrow> 0 \<le> ex x m \<and> ex x m \<le> 1"
    and top: "x \<in> set xs" "NegInf < x"
  shows "lane_conf ex block xs = selector_conf ex xs" and "0 \<le> selector_conf ex xs \<and> selector_conf ex xs \<le> 1"
proof -
  let ?i = "first_max xs" and ?lanes = "xs @ replicate (block - length xs) NegInf"
  have ne: "xs \<noteq> []" using top by auto
  note P = first_max_props [OF ne]
  let ?m = "xs ! ?i"
  have low: "NegInf \<le> v" for v by (simp add: less_eq_fval_def)
  have le: "x \<le> ?m" if "x \<in> set xs" for x using P(2) that by (auto simp: in_set_conv_nth)
  have m: "NegInf < ?m" using top le [OF top(1)] by (meson less_le_trans)
  have first: "first_max ?lanes = ?i"
    by (rule first_max_eqI) (use P low in \<open>auto simp: nth_append\<close>)
  let ?es = "map (\<lambda>x. ex x ?m) xs"
  have e: "0 \<le> e \<and> e \<le> 1" if "e \<in> set ?es" for e using ex(2) le that by auto
  have one: "1 \<in> set ?es" using ex(1) [of ?m] P(1) nth_mem [OF P(1)] by (auto simp: image_iff intro!: bexI [of _ ?m])
  have den: "1 \<le> sum_list ?es" by (rule elem_le_sum) (use one e in auto)
  have max: "Max (set (map (\<lambda>e. e / sum_list ?es) ?es)) = 1 / sum_list ?es"
  proof (rule Max_eqI)
    show "1 / sum_list ?es \<in> set (map (\<lambda>e. e / sum_list ?es) ?es)" using one by (force simp: image_iff)
  qed (use e den in \<open>auto intro!: divide_right_mono\<close>)
  have mm: "?lanes ! first_max ?lanes = ?m" using first P(1) by (simp add: nth_append)
  have "lane_conf ex block xs = 1 / sum_list ?es"
    unfolding lane_conf_def Let_def mm masked_sum [of xs "\<lambda>x. ex x ?m" "replicate (block - length xs) NegInf"] using m by simp
  moreover have "selector_conf ex xs = 1 / sum_list ?es" unfolding selector_conf_def Let_def max ..
  ultimately show "lane_conf ex block xs = selector_conf ex xs" and "0 \<le> selector_conf ex xs \<and> selector_conf ex xs \<le> 1"
    using den by simp_all
qed

section \<open>The live lengths\<close>

text \<open>Products of confidences only fall, so counting the positions that pass is counting the leading ones.\<close>

lemma cumprod_le:
  assumes mul: "\<And>c p. 0 \<le> c \<Longrightarrow> 0 \<le> p \<Longrightarrow> p \<le> 1 \<Longrightarrow> 0 \<le> mul c p \<and> mul c p \<le> c"
  shows "0 \<le> c \<Longrightarrow> \<forall>p\<in>set ps. 0 \<le> p \<and> p \<le> 1 \<Longrightarrow> x \<in> set (cumprod mul c ps) \<Longrightarrow> x \<le> c"
proof (induction ps arbitrary: c)
  case (Cons p ps)
  then have "0 \<le> mul c p" "mul c p \<le> c" using mul by simp_all
  then show ?case using Cons by fastforce
qed simp

lemma live_step_simps [simp]:
  "live_step mul thr p (c, 0, len) = (mul c p, 0, len)"
  "live_step mul thr p (c, Suc 0, len) = (mul c p, if thr \<le> mul c p then (Suc 0, Suc len) else (0, len))"
  by (simp_all add: live_step_def Let_def)

lemma live_step_dead: "snd (snd (fold (live_step mul thr) ps (c, 0, len))) = len"
  by (induction ps arbitrary: c) simp_all

lemma live_fold:
  assumes mul: "\<And>c p. 0 \<le> c \<Longrightarrow> 0 \<le> p \<Longrightarrow> p \<le> 1 \<Longrightarrow> 0 \<le> mul c p \<and> mul c p \<le> c"
  shows "0 \<le> c \<Longrightarrow> \<forall>p\<in>set ps. 0 \<le> p \<and> p \<le> 1 \<Longrightarrow>
    snd (snd (fold (live_step mul thr) ps (c, 1, len))) = len + length (filter (\<lambda>c. thr \<le> c) (cumprod mul c ps))"
proof (induction ps arbitrary: c len)
  case (Cons p ps)
  have c: "0 \<le> mul c p" using mul Cons.prems by simp
  show ?case
  proof (cases "thr \<le> mul c p")
    case True
    then show ?thesis using Cons c by simp
  next
    case False
    have "\<not> thr \<le> x" if "x \<in> set (cumprod mul (mul c p) ps)" for x
      using cumprod_le [OF mul c _ that] False Cons.prems(2) by fastforce
    then have "filter (\<lambda>c. thr \<le> c) (cumprod mul (mul c p) ps) = []" by (auto simp: filter_empty_conv)
    then show ?thesis using False by (simp add: live_step_dead)
  qed
qed simp

lemma live_kernel_lengths:
  assumes "\<And>c p. 0 \<le> c \<Longrightarrow> 0 \<le> p \<Longrightarrow> p \<le> 1 \<Longrightarrow> 0 \<le> mul c p \<and> mul c p \<le> c" and "\<forall>p\<in>set ps. 0 \<le> p \<and> p \<le> 1"
  shows "live_kernel mul thr ps = live_lengths mul thr ps"
  using live_fold [of mul 1 ps thr 0] assms by (simp add: live_kernel_def live_lengths_def)

section \<open>The kernel of the rows and its reference\<close>

definition store_row ::
    "int list \<Rightarrow> int list \<Rightarrow> nat list \<Rightarrow> nat list \<Rightarrow> nat \<Rightarrow> nat \<Rightarrow> nat \<Rightarrow> nat \<Rightarrow> nat list \<times> bool list \<times> nat \<Rightarrow> nat list \<times> bool list \<times> nat" where
  "store_row qsl cu idx live n_req n_tok n_pad row st =
     (case st of (src, dead, count) \<Rightarrow>
        if row < n_pad
        then (case lane_row qsl cu idx live n_req n_tok row of (s, d) \<Rightarrow> (src[row := s], dead[row := d], count + (if d then 1 else 0)))
        else (src, dead, count))"

lemma launch_rows_fold:
  "launch_rows qsl cu idx live n_req n_tok n_pad st =
     fold (store_row qsl cu idx live n_req n_tok n_pad) [0..<cdiv n_pad rows_block * rows_block] st"
proof -
  let ?f = "store_row qsl cu idx live n_req n_tok n_pad"
  have tile: "rows_tile qsl cu idx live n_req n_tok n_pad pid = fold (\<lambda>i. ?f (pid * rows_block + i)) [0..<rows_block]" for pid
    by (rule ext) (auto simp: rows_tile_def store_row_def Let_def intro!: fold_cong)
  show ?thesis by (simp add: launch_rows_def tile [abs_def] fold_tiles [of ?f])
qed

lemma upt_store: "n < length xs \<Longrightarrow> (map f [0..<n] @ drop n xs)[n := v] = map f [0..<n] @ v # drop (Suc n) xs"
  by (simp add: list_update_append Cons_nth_drop_Suc [symmetric])

lemma store_rows:
  fixes qsl cu :: "int list" and idx live :: "nat list" and n_req n_tok :: nat
  assumes "n_pad \<le> length src" "n_pad \<le> length dead"
  defines "row \<equiv> lane_row qsl cu idx live n_req n_tok"
  shows "fold (store_row qsl cu idx live n_req n_tok n_pad) [0..<n] (src, dead, count) =
    (map (fst \<circ> row) [0..<min n n_pad] @ drop (min n n_pad) src, map (snd \<circ> row) [0..<min n n_pad] @ drop (min n n_pad) dead,
     count + length (filter (snd \<circ> row) [0..<min n n_pad]))"
proof (induction n)
  case (Suc n)
  show ?case
  proof (cases "n < n_pad")
    case True
    then have m: "min n n_pad = n" "min (Suc n) n_pad = Suc n" by auto
    show ?thesis using Suc True assms m by (simp add: upt_store store_row_def row_def split: prod.split)
  next
    case False
    then have "min n n_pad = n_pad" "min (Suc n) n_pad = n_pad" by auto
    then show ?thesis using Suc False by (simp add: store_row_def)
  qed
qed simp

lemma launch_rows_eq:
  fixes qsl cu :: "int list" and idx live :: "nat list" and n_req n_tok :: nat
  assumes "n_pad \<le> length src" "n_pad \<le> length dead"
  defines "row \<equiv> lane_row qsl cu idx live n_req n_tok"
  shows "launch_rows qsl cu idx live n_req n_tok n_pad (src, dead, count) =
    (map (fst \<circ> row) [0..<n_pad] @ drop n_pad src, map (snd \<circ> row) [0..<n_pad] @ drop n_pad dead,
     count + length (filter (snd \<circ> row) [0..<n_pad]))"
proof -
  have "n_pad \<le> cdiv n_pad rows_block * rows_block" by (rule cdiv_ge) (simp add: rows_block_def)
  then have "min (cdiv n_pad rows_block * rows_block) n_pad = n_pad" by simp
  then show ?thesis using store_rows [OF assms(1,2)] unfolding row_def by (simp add: launch_rows_fold)
qed

text \<open>The reference, request by request, is the same update of every row.\<close>

definition row_step :: "int list \<Rightarrow> int list \<Rightarrow> nat list \<Rightarrow> nat list \<Rightarrow> nat \<Rightarrow> nat \<Rightarrow> nat \<times> bool \<Rightarrow> nat \<times> bool" where
  "row_step qsl cu idx live row r st =
     (let d = row_dead qsl cu idx live row r in (if d then nat (qsl ! r) else fst st, snd st \<or> d))"

lemma lane_row_fold: "lane_row qsl cu idx live n_req n_tok row = fold (row_step qsl cu idx live row) [0..<n_req] (if row < n_tok then row else 0, False)"
  by (simp add: lane_row_def row_step_def [abs_def])

lemma py_set_map: "0 \<le> i \<Longrightarrow> nat i < n \<Longrightarrow> py_set (map h [0..<n]) i v = Inr (map (h(nat i := v)) [0..<n])"
  by (auto simp: py_set_def Let_def list_eq_iff_nth_eq nth_list_update)

lemma ref_drafts_eq:
  assumes "0 \<le> qs" "qe \<le> int n"
  shows "\<forall>j\<in>set js. 0 \<le> j \<Longrightarrow>
    ref_drafts qs qe js (map f [0..<n], map g [0..<n]) =
      Inr (map (\<lambda>i. if int i - qs \<in> set js \<and> int i < qe then nat qs else f i) [0..<n],
           map (\<lambda>i. g i \<or> (int i - qs \<in> set js \<and> int i < qe)) [0..<n])"
proof (induction js arbitrary: f g)
  case (Cons j js)
  show ?case
  proof (cases "qs + j < qe")
    case True
    let ?k = "nat (qs + j)"
    have k: "int ?k = qs + j" "?k < n" using True Cons.prems assms by auto
    have eq: "int i - qs = j \<longleftrightarrow> i = ?k" for i using k by auto
    have "ref_drafts qs qe (j # js) (map f [0..<n], map g [0..<n]) =
        ref_drafts qs qe js (map (f(?k := nat qs)) [0..<n], map (g(?k := True)) [0..<n])"
      using True k Cons.prems assms(1) by (simp add: py_set_map)
    also have "\<dots> = Inr (map (\<lambda>i. if int i - qs \<in> set js \<and> int i < qe then nat qs else (f(?k := nat qs)) i) [0..<n],
           map (\<lambda>i. (g(?k := True)) i \<or> (int i - qs \<in> set js \<and> int i < qe)) [0..<n])"
      by (rule Cons.IH) (use Cons.prems in simp)
    also have "\<dots> = Inr (map (\<lambda>i. if int i - qs \<in> set (j # js) \<and> int i < qe then nat qs else f i) [0..<n],
           map (\<lambda>i. g i \<or> (int i - qs \<in> set (j # js) \<and> int i < qe)) [0..<n])"
      using True k(1) by (auto simp: eq)
    finally show ?thesis .
  next
    case False
    then have "int i - qs \<in> set (j # js) \<and> int i < qe \<longleftrightarrow> int i - qs \<in> set js \<and> int i < qe" for i by auto
    then show ?thesis using Cons False by simp
  qed
qed simp

lemma ref_requests_eq:
  assumes "\<And>r. r \<in> set rs \<Longrightarrow> 0 \<le> qsl ! r \<and> qsl ! Suc r \<le> int n \<and> cu ! r < cu ! Suc r"
  shows "ref_requests qsl cu idx live rs (map (fst \<circ> h) [0..<n], map (snd \<circ> h) [0..<n]) =
    Inr (map (\<lambda>i. fst (fold (row_step qsl cu idx live i) rs (h i))) [0..<n],
         map (\<lambda>i. snd (fold (row_step qsl cu idx live i) rs (h i))) [0..<n])"
  using assms
proof (induction rs arbitrary: h)
  case (Cons r rs)
  let ?nd = "cu ! Suc r - cu ! r - 1"
  let ?lv = "min (int (live ! (idx ! r))) ?nd"
  have qs: "0 \<le> qsl ! r" "qsl ! Suc r \<le> int n" "0 \<le> ?lv" using Cons.prems [of r] by auto
  let ?h = "\<lambda>i. row_step qsl cu idx live i r (h i)"
  have js: "\<forall>j\<in>set [?lv + 1..?nd]. 0 \<le> j" using qs(3) by auto
  have f: "(if int i - qsl ! r \<in> set [?lv + 1..?nd] \<and> int i < qsl ! Suc r then nat (qsl ! r) else (fst \<circ> h) i) = (fst \<circ> ?h) i"
    and g: "((snd \<circ> h) i \<or> (int i - qsl ! r \<in> set [?lv + 1..?nd] \<and> int i < qsl ! Suc r)) = (snd \<circ> ?h) i" for i
    using qs(3) by (auto simp: row_step_def row_dead_def Let_def)
  have "ref_drafts (qsl ! r) (qsl ! Suc r) [?lv + 1..?nd] (map (fst \<circ> h) [0..<n], map (snd \<circ> h) [0..<n]) =
      Inr (map (fst \<circ> ?h) [0..<n], map (snd \<circ> ?h) [0..<n])"
    unfolding ref_drafts_eq [OF qs(1,2) js] f g ..
  then show ?case using Cons.IH [of ?h] Cons.prems by (simp add: Let_def o_def)
qed (simp add: o_def)

text \<open>
  The kernel that builds the row map and its Python reference agree: on buffers large enough for the padded batch, with every
  request inside it, the stores of all programs leave exactly the rows and the dead flags of the reference in front, nothing changes
  behind them, and the counter grows by the number of dead rows.
\<close>

lemma rows_kernel_reference:
  assumes "n_pad \<le> length src" "n_pad \<le> length dead"
    and "\<And>r. r < n_req \<Longrightarrow> 0 \<le> qsl ! r \<and> qsl ! Suc r \<le> int n_pad \<and> cu ! r < cu ! Suc r"
  shows "\<exists>s d. rows_reference qsl cu idx live n_req n_tok n_pad = Inr (s, d) \<and>
    launch_rows qsl cu idx live n_req n_tok n_pad (src, dead, count) =
      (s @ drop n_pad src, d @ drop n_pad dead, count + length (filter id d))"
proof -
  let ?row = "lane_row qsl cu idx live n_req n_tok"
  let ?h = "\<lambda>i. (if i < n_tok then i else 0, False)"
  have start: "(map (\<lambda>r. if r < n_tok then r else 0) [0..<n_pad], replicate n_pad False) =
      (map (fst \<circ> ?h) [0..<n_pad], map (snd \<circ> ?h) [0..<n_pad])"
    by (auto simp: list_eq_iff_nth_eq)
  have "rows_reference qsl cu idx live n_req n_tok n_pad = Inr (map (fst \<circ> ?row) [0..<n_pad], map (snd \<circ> ?row) [0..<n_pad])"
    unfolding rows_reference_def start by (subst ref_requests_eq) (use assms(3) in \<open>simp_all add: lane_row_fold o_def\<close>)
  moreover have "length (filter (snd \<circ> ?row) xs) = length (filter id (map (snd \<circ> ?row) xs))" for xs
    by (simp add: filter_map o_def)
  ultimately show ?thesis using launch_rows_eq [OF assms(1,2)] by simp
qed

section \<open>Which rows are dead\<close>

text \<open>A batch as the runner builds it: the requests' rows are consecutive, the drafts of a request follow its first row.\<close>

definition cut_batch_ok :: "cut_batch \<Rightarrow> bool" where
  "cut_batch_ok b =
     (0 < cb_num_reqs b \<and> cb_num_reqs b < length (cb_qsl b) \<and> cb_qsl b ! 0 = 0 \<and> cb_qsl b ! cb_num_reqs b = int (cb_num_tokens b) \<and>
      cb_num_tokens b \<le> cb_padded b \<and>
      (\<forall>r<cb_num_reqs b. cb_qsl b ! r < cb_qsl b ! Suc r \<and> cb_cu b ! r < cb_cu b ! Suc r \<and>
         cb_cu b ! Suc r - cb_cu b ! r \<le> cb_qsl b ! Suc r - cb_qsl b ! r \<and>
         (cb_num_drafts b = 0 \<longrightarrow> cb_cu b ! Suc r - cb_cu b ! r = 1)))"

definition cut_state_ok :: "cut_state \<Rightarrow> bool" where
  "cut_state_ok s = (length (vc_row_src s) = vc_max_tokens s \<and> length (vc_dead s) = vc_max_tokens s)"

lemma cut_state_alloc: "cut_state_ok (vc_alloc max_tokens max_reqs thr)"
  by (simp add: cut_state_ok_def vc_alloc_def)

lemma qsl_mono:
  assumes "cut_batch_ok b"
  shows "a \<le> r \<Longrightarrow> r \<le> cb_num_reqs b \<Longrightarrow> cb_qsl b ! a \<le> cb_qsl b ! r"
proof (induction r)
  case (Suc r)
  have "cb_qsl b ! r < cb_qsl b ! Suc r" using Suc.prems(2) assms by (simp add: cut_batch_ok_def)
  then show ?case using Suc by (cases "a = Suc r") auto
qed simp

lemma qsl_bounds:
  assumes "cut_batch_ok b" "r \<le> cb_num_reqs b"
  shows "0 \<le> cb_qsl b ! r" "cb_qsl b ! r \<le> int (cb_num_tokens b)"
  using qsl_mono [OF assms(1), of 0 r] qsl_mono [OF assms(1), of r "cb_num_reqs b"] assms by (simp_all add: cut_batch_ok_def)

lemma token_request:
  assumes ok: "cut_batch_ok b" and i: "i < cb_num_tokens b"
  obtains r where "r < cb_num_reqs b" "cb_qsl b ! r \<le> int i" "int i < cb_qsl b ! Suc r"
proof -
  have top: "cb_qsl b ! cb_num_reqs b = int (cb_num_tokens b)" "cb_qsl b ! 0 = 0" using ok by (simp_all add: cut_batch_ok_def)
  obtain k where k: "k \<le> cb_num_reqs b" "int i < cb_qsl b ! k" "\<And>a. a < k \<Longrightarrow> \<not> int i < cb_qsl b ! a"
    using exists_least_iff [of "\<lambda>k. k \<le> cb_num_reqs b \<and> int i < cb_qsl b ! k"] top i by auto
  then obtain r where "k = Suc r" using top(2) by (cases k) auto
  then show thesis using that [of r] k by force
qed

lemma row_steps_live: "\<forall>r\<in>set rs. \<not> row_dead qsl cu idx live row r \<Longrightarrow> fold (row_step qsl cu idx live row) rs st = st"
  by (induction rs) (simp_all add: row_step_def)

text \<open>A row belongs to one request, and only that request can make it dead.\<close>

lemma row_dead_own:
  assumes ok: "cut_batch_ok b" and r: "r < cb_num_reqs b" "q < cb_num_reqs b" and row: "cb_qsl b ! r \<le> int i" "int i < cb_qsl b ! Suc r"
    and dead: "row_dead (cb_qsl b) (cb_cu b) idx live i q"
  shows "q = r"
proof (rule linorder_cases [of q r])
  assume "q < r"
  then show ?thesis using qsl_mono [OF ok, of "Suc q" r] r row dead by (auto simp: row_dead_def Let_def)
next
  assume "r < q"
  then show ?thesis using qsl_mono [OF ok, of "Suc r" q] r row dead by (auto simp: row_dead_def Let_def)
qed

lemma lane_row_request:
  assumes ok: "cut_batch_ok b" and r: "r < cb_num_reqs b" and row: "cb_qsl b ! r \<le> int i" "int i < cb_qsl b ! Suc r"
  shows "lane_row (cb_qsl b) (cb_cu b) idx live (cb_num_reqs b) (cb_num_tokens b) i =
    (if row_dead (cb_qsl b) (cb_cu b) idx live i r then (nat (cb_qsl b ! r), True) else (i, False))"
proof -
  let ?f = "row_step (cb_qsl b) (cb_cu b) idx live i"
  have split: "[0..<cb_num_reqs b] = [0..<r] @ r # [Suc r..<cb_num_reqs b]"
    using r upt_add_eq_append [of 0 r "cb_num_reqs b - r"] by (simp add: upt_conv_Cons)
  have own: "q < cb_num_reqs b \<Longrightarrow> row_dead (cb_qsl b) (cb_cu b) idx live i q \<Longrightarrow> q = r" for q
    by (rule row_dead_own [OF ok r _ row])
  have others: "\<forall>q\<in>set [0..<r]. \<not> row_dead (cb_qsl b) (cb_cu b) idx live i q"
    "\<forall>q\<in>set [Suc r..<cb_num_reqs b]. \<not> row_dead (cb_qsl b) (cb_cu b) idx live i q"
    using r by (auto dest: own [rotated])
  have "i < cb_num_tokens b" using qsl_bounds(2) [OF ok, of "Suc r"] r row by simp
  then show ?thesis
    by (simp add: lane_row_fold split row_steps_live [OF others(1)] row_steps_live [OF others(2)]) (simp add: row_step_def)
qed

lemma lane_row_pad:
  assumes ok: "cut_batch_ok b" and i: "cb_num_tokens b \<le> i"
  shows "lane_row (cb_qsl b) (cb_cu b) idx live (cb_num_reqs b) (cb_num_tokens b) i = (0, False)"
proof -
  have "\<not> row_dead (cb_qsl b) (cb_cu b) idx live i r" if "r < cb_num_reqs b" for r
    using qsl_bounds(2) [OF ok, of "Suc r"] that i by (auto simp: row_dead_def Let_def)
  then have "\<forall>r\<in>set [0..<cb_num_reqs b]. \<not> row_dead (cb_qsl b) (cb_cu b) idx live i r" by simp
  then show ?thesis using i by (simp add: lane_row_fold row_steps_live)
qed

text \<open>What \<open>prepare_inputs\<close> leaves: the anchor of a dead row, the row itself otherwise, row zero for the padding.\<close>

definition cut_row :: "cut_batch \<Rightarrow> nat list \<Rightarrow> nat \<Rightarrow> nat \<times> bool" where
  "cut_row b live = lane_row (cb_qsl b) (cb_cu b) (cb_idx b) live (cb_num_reqs b) (cb_num_tokens b)"

lemma cut_row_none:
  assumes ok: "cut_batch_ok b" and none: "cb_num_drafts b = 0"
  shows "cut_row b live i = lane_row (cb_qsl b) (cb_cu b) (cb_idx b) live 0 (cb_num_tokens b) i"
proof -
  have "\<not> row_dead (cb_qsl b) (cb_cu b) (cb_idx b) live i r" if "r < cb_num_reqs b" for r
  proof -
    have "cb_cu b ! Suc r - cb_cu b ! r = 1" using ok none that by (simp add: cut_batch_ok_def)
    then show ?thesis by (simp add: row_dead_def Let_def)
  qed
  then show ?thesis by (simp add: cut_row_def lane_row_fold row_steps_live)
qed

lemma cut_prepare_rows:
  assumes ok: "cut_batch_ok b" "cut_state_ok s" and room: "cb_padded b \<le> vc_max_tokens s" and i: "i < cb_padded b"
  shows "vc_row_src (cut_prepare b s) ! i = fst (cut_row b (vc_live s) i)" and "vc_dead (cut_prepare b s) ! i = snd (cut_row b (vc_live s) i)"
    and "vc_max_tokens (cut_prepare b s) = vc_max_tokens s" and "cut_state_ok (cut_prepare b s)"
    and "vc_gather (cut_prepare b s) = (0 < cb_num_drafts b \<or> cb_num_tokens b < cb_padded b)"
proof -
  let ?n = "if 0 < cb_num_drafts b then cb_num_reqs b else 0"
  have len: "cb_padded b \<le> length (vc_row_src s)" "cb_padded b \<le> length (vc_dead s)" using ok room by (simp_all add: cut_state_ok_def)
  have row: "lane_row (cb_qsl b) (cb_cu b) (cb_idx b) (vc_live s) ?n (cb_num_tokens b) = cut_row b (vc_live s)"
    using cut_row_none [OF ok(1)] by (auto simp: cut_row_def)
  have p: "cut_prepare b s = s\<lparr>vc_row_src := map (fst \<circ> cut_row b (vc_live s)) [0..<cb_padded b] @ drop (cb_padded b) (vc_row_src s),
      vc_dead := map (snd \<circ> cut_row b (vc_live s)) [0..<cb_padded b] @ drop (cb_padded b) (vc_dead s),
      vc_dead_count := vc_dead_count s + length (filter (snd \<circ> cut_row b (vc_live s)) [0..<cb_padded b]),
      vc_gather := (0 < cb_num_drafts b \<or> cb_num_tokens b < cb_padded b), vc_draft_rows := vc_draft_rows s + cb_num_drafts b\<rparr>"
    using room ok(1) unfolding cut_prepare_def launch_rows_eq [OF len] row by (simp add: cut_batch_ok_def)
  show "vc_row_src (cut_prepare b s) ! i = fst (cut_row b (vc_live s) i)" "vc_dead (cut_prepare b s) ! i = snd (cut_row b (vc_live s) i)"
    "vc_max_tokens (cut_prepare b s) = vc_max_tokens s" "cut_state_ok (cut_prepare b s)"
    "vc_gather (cut_prepare b s) = (0 < cb_num_drafts b \<or> cb_num_tokens b < cb_padded b)"
    unfolding p using i ok(2) room by (simp_all add: nth_append cut_state_ok_def)
qed

text \<open>
  C23. The remap in front of the experts is inert: after \<open>prepare_inputs\<close> every row that is neither dead nor padding leaves the mixture
  of experts as it would without the cut, eagerly and inside a captured graph, and the experts see no row but the live ones, so that
  dead rows and padding add no expert to the step.
\<close>

theorem moe_remap_inert:
  fixes hidden :: "'h list" and experts :: "'h \<Rightarrow> 'o"
  assumes ok: "cut_batch_ok b" "cut_state_ok s" and room: "cb_padded b \<le> vc_max_tokens s" and len: "length hidden = cb_padded b"
  defines "s' \<equiv> cut_prepare b s"
  shows "\<exists>outs. cut_forward False capturing experts s' hidden = Inr outs \<and> length outs = length hidden \<and>
      (\<forall>i<cb_num_tokens b. \<not> vc_dead s' ! i \<longrightarrow> outs ! i = experts (hidden ! i)) \<and>
      set (cut_input capturing s' hidden) = {hidden ! i | i. i < cb_num_tokens b \<and> \<not> vc_dead s' ! i}"
proof -
  note P = cut_prepare_rows [OF ok room]
  let ?src = "\<lambda>i. fst (cut_row b (vc_live s) i)"
  have le: "cb_num_tokens b \<le> cb_padded b" and req: "0 < cb_num_reqs b" using ok(1) by (auto simp: cut_batch_ok_def)
  have zero: "cb_qsl b ! 0 = 0" "0 < cb_qsl b ! 1" using ok(1) req by (auto simp: cut_batch_ok_def)
  have first: "0 < cb_num_tokens b" using qsl_bounds(2) [OF ok(1), of 1] zero req by simp
  have dead: "vc_dead s' ! i = snd (cut_row b (vc_live s) i)" if "i < cb_num_tokens b" for i
    using P(2) [of i] that le by (simp add: s'_def)
  have anchor: "\<not> snd (cut_row b (vc_live s) (nat (cb_qsl b ! r)))" "nat (cb_qsl b ! r) < cb_num_tokens b" if "r < cb_num_reqs b" for r
  proof -
    have q: "0 \<le> cb_qsl b ! r" "cb_qsl b ! r < cb_qsl b ! Suc r" "cb_qsl b ! Suc r \<le> int (cb_num_tokens b)"
      using qsl_bounds [OF ok(1), of r] qsl_bounds(2) [OF ok(1), of "Suc r"] that ok(1) by (auto simp: cut_batch_ok_def)
    then show "nat (cb_qsl b ! r) < cb_num_tokens b" by linarith
    show "\<not> snd (cut_row b (vc_live s) (nat (cb_qsl b ! r)))"
      using lane_row_request [OF ok(1) that, of "nat (cb_qsl b ! r)"] q by (simp add: cut_row_def row_dead_def Let_def)
  qed
  have src: "?src i < cb_num_tokens b \<and> \<not> snd (cut_row b (vc_live s) (?src i)) \<and>
      (i < cb_num_tokens b \<and> \<not> snd (cut_row b (vc_live s) i) \<longrightarrow> ?src i = i)" for i
  proof (cases "i < cb_num_tokens b")
    case True
    obtain r where r: "r < cb_num_reqs b" "cb_qsl b ! r \<le> int i" "int i < cb_qsl b ! Suc r" by (rule token_request [OF ok(1) True])
    show ?thesis using lane_row_request [OF ok(1) r] anchor [OF r(1)] True by (auto simp: cut_row_def)
  next
    case False
    then show ?thesis using lane_row_pad [OF ok(1), of i] anchor [OF req] zero first by (simp add: cut_row_def)
  qed
  have input: "cut_input capturing s' hidden =
      (if vc_gather s' \<or> capturing then map (\<lambda>i. hidden ! ?src i) [0..<cb_padded b] else hidden)"
    using P(1) P(3) [of 0] first le room len by (auto simp: cut_input_def s'_def Let_def)
  show ?thesis
  proof (cases "vc_gather s' \<or> capturing")
    case True
    have "set (map (\<lambda>i. hidden ! ?src i) [0..<cb_padded b]) = {hidden ! i | i. i < cb_num_tokens b \<and> \<not> vc_dead s' ! i}"
    proof (rule set_eqI)
      fix x show "x \<in> set (map (\<lambda>i. hidden ! ?src i) [0..<cb_padded b]) \<longleftrightarrow> x \<in> {hidden ! i | i. i < cb_num_tokens b \<and> \<not> vc_dead s' ! i}"
        using src dead le by (auto simp: image_iff) (metis atLeastLessThan_iff le0 less_le_trans)
    qed
    then show ?thesis using True src dead le len by (simp add: cut_forward_def input)
  next
    case False
    then have none: "cb_num_drafts b = 0" "cb_num_tokens b = cb_padded b"
      using P(5) [of 0] first le by (auto simp: s'_def)
    have "\<not> snd (cut_row b (vc_live s) i)" for i by (simp add: cut_row_none [OF ok(1) none(1)] lane_row_def)
    then have "{hidden ! i | i. i < cb_num_tokens b \<and> \<not> vc_dead s' ! i} = set hidden"
      using dead none(2) len by (auto simp: in_set_conv_nth) blast
    moreover have "cut_input capturing s' hidden = hidden" using False input by simp
    ultimately show ?thesis using none(2) len by (simp add: cut_forward_def)
  qed
qed

definition demo_cut_batch :: cut_batch where
  "demo_cut_batch = \<lparr>cb_num_reqs = 1, cb_num_tokens = 2, cb_padded = 3, cb_num_drafts = 1, cb_qsl = [0, 2], cb_cu = [0, 2], cb_idx = [1]\<rparr>"

definition demo_cut_state :: cut_state where
  "demo_cut_state = (vc_alloc 4 2 0)\<lparr>vc_live := [5, 0]\<rparr>"

lemma demo_cut_ok: "cut_batch_ok demo_cut_batch" "cut_state_ok demo_cut_state" "cb_padded demo_cut_batch \<le> vc_max_tokens demo_cut_state"
  by (simp_all add: cut_batch_ok_def cut_state_ok_def demo_cut_batch_def demo_cut_state_def vc_alloc_def)

theorem moe_remap_inert_witness:
  "\<exists>outs. cut_forward False False Suc (cut_prepare demo_cut_batch demo_cut_state) [10, 20, 30] = Inr outs \<and> length outs = 3"
  using moe_remap_inert [OF demo_cut_ok, of "[10, 20, 30]" False Suc] by (auto simp: demo_cut_batch_def)

section \<open>What the cut does to the tokens\<close>









end
