(* ===== verification/Dev_Select.thy ===== *)
theory Dev_Select
  imports Draft_Trunc
begin

text \<open>
  Device-side selection of the verify shape, \<open>src/overlay/glm_devselect.py\<close>: a one-thread kernel mirrors \<open>Policy.choose\<close> for one
  request, its predicates switch on one of seven captured graphs, and the price \<open>lam\<close> of a graph set is shared with the host policy
  of the same variant. Floats are exact rationals, as in \<open>Draft_Trunc\<close>; a device value is the one after all work enqueued so far.
\<close>

definition ds_kmax :: nat where "ds_kmax = 7"
definition ds_rows :: nat where "ds_rows = 8"
definition ds_ring :: nat where "ds_ring = 256"

section \<open>Device tensors\<close>

record sel_shared =
  sh_conf :: "rat list"
  sh_valid :: int
  sh_force :: int
  sh_g :: "rat list"
  sh_nb :: nat
  sh_edges :: "rat list"
  sh_t1 :: "rat list"
  sh_alpha :: rat
  sh_keep :: rat
  sh_lam0 :: rat

record sel_set =
  st_lam :: rat
  st_pred :: "bool list"
  st_ring :: "int list"
  st_cnt :: nat
  st_hist :: "nat list"

text \<open>\<open>_dev_tensors\<close>: the tables of the policy, flat; a step length without a time raises.\<close>

definition dev_tensors :: "int \<Rightarrow> trunc_policy \<Rightarrow> sel_shared result" where
  "dev_tensors force p =
     bind_r (map_r (\<lambda>m. case tp_t1 p m of None \<Rightarrow> Inl KeyError | Some t \<Rightarrow> Inr t) [2..8]) (\<lambda>ts.
     bind_r (tp_cost p 1 4) (\<lambda>c. if c = 0 then Inl ZeroDivisionError
       else Inr \<lparr>sh_conf = replicate ds_kmax 0, sh_valid = 0, sh_force = force, sh_g = concat (tp_g p),
                 sh_nb = length (hd (tp_g p)), sh_edges = tp_edges p, sh_t1 = [0, 0] @ ts @ [0], sh_alpha = ema_alpha,
                 sh_keep = 1 - ema_alpha, sh_lam0 = 22 / 10 / c\<rparr>))"

definition set_tensors :: "sel_shared \<Rightarrow> sel_set" where
  "set_tensors sh = \<lparr>st_lam = sh_lam0 sh, st_pred = replicate (ds_rows + 2) False, st_ring = replicate ds_ring 0, st_cnt = 0,
     st_hist = replicate (ds_rows + 1) 0\<rparr>"

section \<open>The kernel\<close>

text \<open>One pass of its loop over the depths, on \<open>E\<close>, \<open>cum\<close>, \<open>best\<close>, \<open>bE\<close> and \<open>bL\<close>.\<close>

definition sel_step :: "sel_shared \<Rightarrow> rat \<Rightarrow> nat \<Rightarrow> rat \<times> rat \<times> rat \<times> rat \<times> nat \<Rightarrow> rat \<times> rat \<times> rat \<times> rat \<times> nat" where
  "sel_step sh lam s st =
     (case st of (e, cum, best, be, bl) \<Rightarrow>
        let lq = sh_conf sh ! s;
            bin = fold (\<lambda>x n. n + (if x \<le> lq then 1 else 0)) (sh_edges sh) 0;
            cum1 = cum * sh_g sh ! (s * sh_nb sh + bin); e1 = e + cum1; v = e1 - lam * sh_t1 sh ! (s + 2); take1 = best < v
        in (e1, cum1, if take1 then v else best, if take1 then e1 else be, if take1 then s + 1 else bl))"

text \<open>\<open>select_kernel\<close>.\<close>

definition select_kernel :: "sel_shared \<Rightarrow> sel_set \<Rightarrow> sel_set" where
  "select_kernel sh st =
     (let lam = st_lam st in
      case fold (sel_step sh lam) [0..<ds_kmax] (1, 1, lam * 0 - 10 ^ 30, 1, ds_kmax) of (e, cum, best, be, bl) \<Rightarrow>
        let use = (sh_valid sh \<noteq> 0);
            sel0 = (if use then int bl else int ds_kmax);
            sel = (if 1 \<le> sh_force sh then sh_force sh else sel0);
            newlam = sh_keep sh * lam + sh_alpha sh * be / sh_t1 sh ! (bl + 1)
        in st\<lparr>st_lam := (if use then newlam else lam),
              st_pred := fold (\<lambda>m p. p[m := (sel + 1 = int m)]) [2..<ds_kmax + 2] (st_pred st),
              st_ring := (st_ring st)[st_cnt st mod ds_ring := sel],
              st_cnt := st_cnt st + 1,
              st_hist := (st_hist st)[nat sel := st_hist st ! nat sel + 1]\<rparr>)"

section \<open>Per step\<close>

text \<open>What the host keeps of a graph set: its tensors, the pinned copy of the price and whether a parent ran since the last sync.\<close>

record sel_entry =
  en_st :: sel_set
  en_pin :: rat
  en_dirty :: bool
  en_launched :: nat

text \<open>The entry of a set after \<open>build\<close>: the warm-up launch is made with no valid draft and its traces are zeroed.\<close>

definition entry_new :: "sel_shared \<Rightarrow> sel_entry" where
  "entry_new sh =
     (let st = select_kernel sh (set_tensors sh)
      in \<lparr>en_st = st\<lparr>st_ring := replicate ds_ring 0, st_cnt := 0, st_hist := replicate (ds_rows + 1) 0,
                     st_pred := replicate (ds_rows + 2) False\<rparr>,
          en_pin = 0, en_dirty = False, en_launched = 0\<rparr>)"

definition note_propose :: "bool \<Rightarrow> rat list list \<Rightarrow> nat \<Rightarrow> sel_shared \<Rightarrow> sel_shared" where
  "note_propose built conf n sh =
     (if \<not> built then sh
      else if n = 1 then sh\<lparr>sh_conf := conf ! 0, sh_valid := 1\<rparr> else sh\<lparr>sh_valid := 0\<rparr>)"

text \<open>What \<open>eligible\<close> reads of the runner: \<open>el_logprobs\<close> is the entry of the sampler for the request, when it can be read.\<close>

record sel_env =
  el_built :: bool
  el_failed :: bool
  el_active :: bool
  el_logprobs :: "string \<Rightarrow> int option"
  el_set :: bool

definition sel_eligible :: "sel_env \<Rightarrow> (string \<times> int) list \<Rightarrow> trunc_so \<Rightarrow> (nat \<times> string list) option \<Rightarrow> bool" where
  "sel_eligible env ns so pend =
     (if \<not> el_built env \<or> el_failed env \<or> \<not> el_active env then False
      else if length ns \<noteq> 1 then False
      else case pend of None \<Rightarrow> False
      | Some (n, rids) \<Rightarrow>
        if n \<noteq> 1 then False
        else let rid = fst (hd ns) in
          if rids \<noteq> [rid] \<or> ts_structured so then False
          else if length (case map_of (ts_spec so) rid of None \<Rightarrow> [] | Some xs \<Rightarrow> xs) \<noteq> ds_kmax \<or> snd (hd ns) \<noteq> int ds_rows then False
          else if el_logprobs env rid \<noteq> Some (-1) then False
          else el_set env)"

text \<open>\<open>begin_step\<close> with the interval of the rank check; \<open>debug_due\<close>: the first steps, then every so many, at most a number of times.\<close>

record sel_run =
  rn_go :: bool
  rn_debug :: bool
  rn_steps :: nat
  rn_debug_runs :: nat
  rn_exec_calls :: nat

definition debug_due :: "int \<Rightarrow> int \<Rightarrow> int \<Rightarrow> sel_run \<Rightarrow> bool" where
  "debug_due first every cap r =
     (let n = int (rn_steps r) + 1
      in if cap \<noteq> 0 \<and> cap \<le> int (rn_debug_runs r) then False else n \<le> first \<or> (0 < every \<and> n mod every = 0))"

definition ds_begin_step :: "int \<Rightarrow> int \<Rightarrow> int \<Rightarrow> bool \<Rightarrow> int \<Rightarrow> bool \<Rightarrow> sel_run \<Rightarrow> sel_run \<times> bool" where
  "ds_begin_step first every cap built check_every go r =
     (let r1 = r\<lparr>rn_exec_calls := rn_exec_calls r + 1, rn_go := go\<rparr>;
          dbg = (go \<and> debug_due first every cap r1);
          r2 = r1\<lparr>rn_debug := dbg, rn_debug_runs := (if dbg then rn_debug_runs r1 + 1 else rn_debug_runs r1)\<rparr>
      in (r2, built \<and> check_every \<noteq> 0 \<and> int (rn_exec_calls r2) mod check_every = 0))"

text \<open>The bodies a parent graph runs: those whose predicate the kernel set.\<close>

definition parent_bodies :: "sel_set \<Rightarrow> nat list" where
  "parent_bodies st = filter (\<lambda>m. st_pred st ! m) [2..<ds_rows + 1]"

definition lam_publish :: "sel_entry \<Rightarrow> sel_entry" where
  "lam_publish e = e\<lparr>en_pin := st_lam (en_st e), en_dirty := True\<rparr>"

text \<open>
  \<open>run_parent\<close> for a descriptor (its kind of manager, mode, tokens and requests), with whether the plans could be staged. The result
  is the rows of the bodies that ran, or \<open>None\<close> when the caller must replay the ordinary graph.
\<close>

definition run_parent ::
    "bool \<times> bool \<times> nat \<times> nat \<Rightarrow> bool \<Rightarrow> sel_shared \<Rightarrow> sel_entry option \<Rightarrow> sel_run \<Rightarrow> sel_run \<times> sel_entry option \<times> nat list option" where
  "run_parent desc staged sh ent r =
     (if \<not> rn_go r then (r, ent, None)
      else let r1 = r\<lparr>rn_go := False\<rparr> in
        case desc of (target, full, tokens, reqs) \<Rightarrow>
          if \<not> target \<or> \<not> full \<or> tokens \<noteq> ds_rows \<or> reqs \<noteq> 1 then (r1, ent, None)
          else case ent of None \<Rightarrow> (r1, None, None)
          | Some e \<Rightarrow>
            if \<not> staged then (r1, Some e, None)
            else let st1 = select_kernel sh (en_st e)
                 in (r1\<lparr>rn_steps := rn_steps r1 + 1\<rparr>,
                     Some ((lam_publish (e\<lparr>en_st := st1\<rparr>))\<lparr>en_launched := en_launched e + 1\<rparr>), Some (parent_bodies st1)))"

section \<open>One price for host and device\<close>

definition lam_pull :: "sel_entry option \<Rightarrow> trunc_policy \<Rightarrow> sel_entry option \<times> trunc_policy" where
  "lam_pull ent p =
     (case ent of None \<Rightarrow> (None, p)
      | Some e \<Rightarrow> if en_dirty e then (Some (e\<lparr>en_dirty := False\<rparr>), p\<lparr>tp_lam := (tp_lam p)(1 \<mapsto> en_pin e)\<rparr>) else (Some e, p))"

definition lam_push :: "sel_entry option \<Rightarrow> trunc_policy \<Rightarrow> sel_entry option" where
  "lam_push ent p =
     (case (ent, tp_lam p 1) of (Some e, Some l) \<Rightarrow> Some (e\<lparr>en_st := (en_st e)\<lparr>st_lam := l\<rparr>\<rparr>) | _ \<Rightarrow> ent)"

text \<open>\<open>_choose\<close> of \<open>glm_draft_trunc.py\<close> with the module loaded.\<close>

definition shared_choose ::
    "(nat \<Rightarrow> rat) \<Rightarrow> sel_entry option \<Rightarrow> trunc_policy \<Rightarrow> rat list list \<Rightarrow> nat \<Rightarrow> (sel_entry option \<times> trunc_policy \<times> nat) result" where
  "shared_choose pw ent p confs kmax =
     (if length confs = 1
      then (case lam_pull ent p of (ent1, p1) \<Rightarrow>
              bind_r (tp_choose pw p1 confs kmax) (\<lambda>(p2, len). Inr (lam_push ent1 p2, p2, len)))
      else bind_r (tp_choose pw p confs kmax) (\<lambda>(p2, len). Inr (ent, p2, len)))"

section \<open>The kernel is the policy\<close>

text \<open>A policy file that makes sense: a row of probabilities for each depth, one more than there are edges, and times of a step.\<close>

definition table_ok :: "trunc_policy \<Rightarrow> bool" where
  "table_ok p =
     (ds_kmax \<le> length (tp_g p) \<and>
      list_all (\<lambda>row. length row = Suc (length (tp_edges p)) \<and> list_all (\<lambda>q. 0 \<le> q \<and> q \<le> 1) row) (tp_g p) \<and>
      list_all (\<lambda>m. case tp_t1 p m of None \<Rightarrow> False | Some t \<Rightarrow> 1 \<le> t \<and> t \<le> 10 ^ 6) [2..8])"

definition step_ms :: "trunc_policy \<Rightarrow> nat \<Rightarrow> rat" where
  "step_ms p m = the (tp_t1 p (int m))"

definition accept_at :: "trunc_policy \<Rightarrow> rat list \<Rightarrow> nat \<Rightarrow> rat" where
  "accept_at p c s = tp_g p ! s ! length (filter (\<lambda>x. x \<le> c ! s) (tp_edges p))"

definition reach_prob :: "trunc_policy \<Rightarrow> rat list \<Rightarrow> nat \<Rightarrow> rat" where
  "reach_prob p c n = prod_list (map (accept_at p c) [0..<n])"

definition exp_tokens :: "trunc_policy \<Rightarrow> rat list \<Rightarrow> nat \<Rightarrow> rat" where
  "exp_tokens p c n = sum_list (map (reach_prob p c) [0..<Suc n])"

definition len_values :: "trunc_policy \<Rightarrow> rat list \<Rightarrow> rat \<Rightarrow> nat \<Rightarrow> (nat \<times> rat) list" where
  "len_values p c lam k = map (\<lambda>len. (len, exp_tokens p c len - lam * step_ms p (Suc len))) [1..<Suc k]"

definition picked :: "trunc_policy \<Rightarrow> rat list \<Rightarrow> rat \<Rightarrow> nat \<Rightarrow> nat" where
  "picked p c lam k = snd (best_len very_low k (len_values p c lam k))"

definition next_lam :: "trunc_policy \<Rightarrow> rat list \<Rightarrow> rat \<Rightarrow> nat \<Rightarrow> rat" where
  "next_lam p c lam k =
     (1 - ema_alpha) * lam + ema_alpha * exp_tokens p c (picked p c lam k) / step_ms p (Suc (picked p c lam k))"

definition first_lam :: "trunc_policy \<Rightarrow> rat" where
  "first_lam p = 22 / 10 / step_ms p 4"

definition lam_one :: "trunc_policy \<Rightarrow> rat" where
  "lam_one p = (case tp_lam p 1 of None \<Rightarrow> first_lam p | Some l \<Rightarrow> l)"

lemma step_ms_ok:
  assumes "table_ok p" "2 \<le> m" "m \<le> 8"
  shows "tp_t1 p (int m) = Some (step_ms p m)" "1 \<le> step_ms p m" "step_ms p m \<le> 10 ^ 6"
proof -
  have "int m \<in> set [2..8]" unfolding set_upto using assms by simp
  then have "case tp_t1 p (int m) of None \<Rightarrow> False | Some t \<Rightarrow> 1 \<le> t \<and> t \<le> 10 ^ 6"
    using assms(1) unfolding table_ok_def list_all_iff by blast
  then show "tp_t1 p (int m) = Some (step_ms p m)" "1 \<le> step_ms p m" "step_ms p m \<le> 10 ^ 6"
    by (auto simp: step_ms_def split: option.splits)
qed

lemma accept_at_ok:
  assumes "table_ok p" "s < ds_kmax"
  shows "s < length (tp_g p)" "length (tp_g p ! s) = Suc (length (tp_edges p))" "0 \<le> accept_at p c s" "accept_at p c s \<le> 1"
proof -
  show s: "s < length (tp_g p)" using assms by (simp add: table_ok_def)
  have "length (tp_g p ! s) = Suc (length (tp_edges p)) \<and> list_all (\<lambda>q. 0 \<le> q \<and> q \<le> 1) (tp_g p ! s)"
    using assms(1) nth_mem [OF s] unfolding table_ok_def list_all_iff by blast
  moreover have "length (filter (\<lambda>x. x \<le> c ! s) (tp_edges p)) < Suc (length (tp_edges p))" by (simp add: le_imp_less_Suc)
  ultimately show "length (tp_g p ! s) = Suc (length (tp_edges p))" "0 \<le> accept_at p c s" "accept_at p c s \<le> 1"
    by (simp_all add: accept_at_def list_all_length)
qed

lemma reach_prob_Suc: "reach_prob p c (Suc n) = reach_prob p c n * accept_at p c n"
  by (simp add: reach_prob_def)

lemma exp_tokens_Suc: "exp_tokens p c (Suc n) = exp_tokens p c n + reach_prob p c (Suc n)"
  by (simp add: exp_tokens_def)

lemma exp_tokens_0 [simp]: "exp_tokens p c 0 = 1" "reach_prob p c 0 = 1"
  by (simp_all add: exp_tokens_def reach_prob_def)

lemma exp_tokens_ok:
  assumes "table_ok p"
  shows "n \<le> ds_kmax \<Longrightarrow> 0 \<le> reach_prob p c n \<and> reach_prob p c n \<le> 1 \<and> 1 \<le> exp_tokens p c n \<and> exp_tokens p c n \<le> of_nat (Suc n)"
proof (induction n)
  case (Suc n)
  then have "0 \<le> accept_at p c n" "accept_at p c n \<le> 1" using accept_at_ok [OF assms, of n] by simp_all
  then have "0 \<le> reach_prob p c (Suc n)" "reach_prob p c (Suc n) \<le> 1"
    using Suc mult_mono [of "reach_prob p c n" 1 "accept_at p c n" 1] by (simp_all add: reach_prob_Suc)
  then show ?case using Suc by (simp add: exp_tokens_Suc)
qed simp

lemma expect_from_eq:
  assumes "table_ok p"
  shows "s + n \<le> ds_kmax \<Longrightarrow>
    expect_from p s (exp_tokens p c s) (reach_prob p c s) (map (nth c) [s..<s + n]) = Inr (map (exp_tokens p c) [Suc s..<Suc (s + n)])"
proof (induction n arbitrary: s)
  case (Suc n)
  note A = accept_at_ok [OF assms, of s]
  have s: "s < ds_kmax" using Suc.prems by simp
  have l: "length (filter (\<lambda>x. x \<le> c ! s) (tp_edges p)) < length (tp_g p ! s)" using A(2) s by (simp add: le_imp_less_Suc)
  have "py_nth (tp_g p) (int s) = Inr (tp_g p ! s)" using A(1) s by (simp add: py_nth_in)
  moreover have "py_nth (tp_g p ! s) (int (length (filter (\<lambda>x. x \<le> c ! s) (tp_edges p)))) = Inr (accept_at p c s)"
    using l by (simp add: py_nth_in accept_at_def)
  moreover have "expect_from p (Suc s) (exp_tokens p c (Suc s)) (reach_prob p c (Suc s)) (map (nth c) [Suc s..<Suc s + n]) =
      Inr (map (exp_tokens p c) [Suc (Suc s)..<Suc (Suc s + n)])"
    using Suc.IH [of "Suc s"] Suc.prems by simp
  moreover have "[s..<s + Suc n] = s # [Suc s..<Suc s + n]" "[Suc s..<Suc (s + Suc n)] = Suc s # [Suc (Suc s)..<Suc (Suc s + n)]"
    by (simp_all add: upt_conv_Cons del: upt_Suc)
  ultimately show ?case by (simp add: exp_tokens_Suc reach_prob_Suc Let_def del: upt_Suc)
qed simp

lemma expect_eq:
  assumes "table_ok p" "length c = ds_kmax" "k \<le> ds_kmax"
  shows "expect p (take k c) = Inr (map (exp_tokens p c) [0..<Suc k])"
proof -
  have "take k c = map (nth c) [0..<k]" using assms by (intro nth_equalityI) simp_all
  then show ?thesis using expect_from_eq [OF assms(1), of 0 k c] assms(3)
    by (simp add: expect_def upt_conv_Cons [of 0 "Suc k"] del: upt_Suc)
qed

lemma tp_cost_one:
  assumes "table_ok p" "1 \<le> len" "len \<le> ds_kmax"
  shows "tp_cost p 1 (Suc len) = Inr (step_ms p (Suc len))"
proof -
  have "Suc len \<le> 8" "2 \<le> Suc len" using assms by (simp_all add: ds_kmax_def)
  moreover have "int (min (max (1 * Suc len) 2) 8) = int (Suc len)" using calculation by simp
  ultimately show ?thesis using step_ms_ok(1) [OF assms(1), of "Suc len"] by (simp add: tp_cost_def Let_def)
qed

lemma picked_range: "1 \<le> k \<Longrightarrow> 1 \<le> picked p c lam k \<and> picked p c lam k \<le> k"
proof -
  assume k: "1 \<le> k"
  obtain b l where bl: "best_len very_low k (len_values p c lam k) = (b, l)" by force
  have "l = k \<or> (l, b) \<in> set (len_values p c lam k)" using best_len_props [OF bl] by (metis nth_mem)
  then have "1 \<le> l \<and> l \<le> k" using k by (auto simp: len_values_def simp del: upt_Suc)
  then show ?thesis by (simp add: picked_def bl)
qed

text \<open>What the host policy does for one request.\<close>

lemma tp_choose_one:
  assumes ok: "table_ok p" and c: "length c = ds_kmax" and k: "1 \<le> k" "k \<le> ds_kmax" and pow: "pw 1 = 1"
  obtains m where "tp_choose pw p [c] k =
    Inr (p\<lparr>tp_lam := (tp_lam p)(1 \<mapsto> next_lam p c (lam_one p) k), tp_margin := m, tp_kmax := k\<rparr>, picked p c (lam_one p) k)"
proof -
  let ?es = "map (exp_tokens p c) [0..<Suc k]" and ?lam = "lam_one p"
  let ?L = "picked p c ?lam k"
  have L: "1 \<le> ?L" "?L \<le> k" using picked_range [OF k(1)] by simp_all
  have nth: "py_nth ?es (int len) = Inr (exp_tokens p c len)" if "len \<le> k" for len
    using that by (simp add: py_nth_in nth_append del: upt_Suc)
  have at: "value_at p [?es] ?lam len = Inr (exp_tokens p c len - ?lam * step_ms p (Suc len))" if "1 \<le> len" "len \<le> k" for len
    using tp_cost_one [OF ok that(1)] that k nth by (simp add: value_at_def del: upt_Suc)
  have vals: "map_r (\<lambda>len. map_sum id (Pair len) (value_at p [?es] ?lam len)) [1..<Suc k] = Inr (len_values p c ?lam k)"
    using at by (auto simp: map_r_Inr_iff len_values_def simp del: upt_Suc)
  have lam0: "tp_cost p 1 4 = Inr (step_ms p 4)" using tp_cost_one [OF ok, of 3] by (simp add: ds_kmax_def eval_nat_numeral)
  have nz: "step_ms p m \<noteq> 0" if "2 \<le> m" "m \<le> 8" for m using step_ms_ok(2) [OF ok that] by auto
  have L8: "2 \<le> Suc ?L" "Suc ?L \<le> 8" using L k by (simp_all add: ds_kmax_def)
  have lam: "(case tp_lam p 1 of None \<Rightarrow> 22 / 10 / step_ms p 4 * pw 1 | Some l \<Rightarrow> l) = ?lam"
    by (simp add: lam_one_def first_lam_def pow [simplified] split: option.splits)
  have cost: "tp_cost p 1 (Suc ?L) = Inr (step_ms p (Suc ?L))" by (rule tp_cost_one [OF ok L(1)]) (use L k in simp)
  have len: "length [c] = 1" by simp
  have es: "map_r (\<lambda>c. expect p (take k c)) [c] = Inr [?es]" by (simp add: expect_eq [OF ok c k(2)] del: upt_Suc)
  have l0: "bind_r (tp_cost p 1 4) (\<lambda>c. if c = 0 then Inl ZeroDivisionError else Inr (22 / 10 / c * pw 1)) =
      Inr (22 / 10 / step_ms p 4 * pw 1)"
    using lam0 nz [of 4] by simp
  have xs: "map_r (\<lambda>e. py_nth e (int ?L)) [?es] = Inr [exp_tokens p c ?L]" using nth L by (simp del: upt_Suc)
  have one: "(step_ms p (Suc ?L) = 0) = False" using nz [OF L8] by simp
  have sum: "sum_list [exp_tokens p c ?L] = exp_tokens p c ?L" by simp
  have one_step: "snd (best_len very_low k (len_values p c ?lam k)) = ?L" by (simp add: picked_def)
  have "tp_choose pw p [c] k =
    Inr (p\<lparr>tp_lam := (tp_lam p)(1 \<mapsto> next_lam p c ?lam k),
           tp_margin := (if 1 < k then Some (last (map snd (len_values p c ?lam k)) - Max (set (butlast (map snd (len_values p c ?lam k))))) else None),
           tp_kmax := k\<rparr>, ?L)"
    by (simp only: tp_choose_def Let_def len es l0 lam vals picked_def [symmetric] xs cost bind_r_simps one sum one_step if_False next_lam_def)
  then show thesis by (rule that)
qed

text \<open>What a shared block holds of the policy.\<close>

definition sel_for :: "trunc_policy \<Rightarrow> sel_shared \<Rightarrow> bool" where
  "sel_for p sh =
     (sh_g sh = concat (tp_g p) \<and> sh_nb sh = length (hd (tp_g p)) \<and> sh_edges sh = tp_edges p \<and>
      sh_t1 sh = [0, 0] @ map (\<lambda>m. step_ms p m) [2..<9] @ [0] \<and> sh_alpha sh = ema_alpha \<and> sh_keep sh = 1 - ema_alpha)"

lemma dev_tensors_for:
  assumes "table_ok p"
  obtains sh where "dev_tensors force p = Inr sh" "sel_for p sh" "sh_force sh = force" "sh_valid sh = 0" "sh_lam0 sh = first_lam p"
proof -
  have "map_r (\<lambda>m. case tp_t1 p m of None \<Rightarrow> Inl KeyError | Some t \<Rightarrow> Inr t) [2..8] = Inr (map (\<lambda>m. step_ms p m) [2..<9])"
    using step_ms_ok(1) [OF assms, of 2] step_ms_ok(1) [OF assms, of 3] step_ms_ok(1) [OF assms, of 4] step_ms_ok(1) [OF assms, of 5]
      step_ms_ok(1) [OF assms, of 6] step_ms_ok(1) [OF assms, of 7] step_ms_ok(1) [OF assms, of 8] by simp
  moreover have "tp_cost p 1 4 = Inr (step_ms p 4)" using tp_cost_one [OF assms, of 3] by (simp add: ds_kmax_def eval_nat_numeral)
  moreover have "step_ms p 4 \<noteq> 0" using step_ms_ok(2) [OF assms, of 4] by auto
  ultimately show thesis using that by (simp add: dev_tensors_def sel_for_def first_lam_def)
qed

lemma fold_count: "fold (\<lambda>x n. n + (if P x then 1 else 0)) xs n = n + length (filter P xs)" for n :: nat
  by (induction xs arbitrary: n) simp_all

lemma sel_load:
  assumes ok: "table_ok p" and sh: "sel_for p sh" and s: "s < ds_kmax"
  shows "sh_g sh ! (s * sh_nb sh + length (filter (\<lambda>x. x \<le> sh_conf sh ! s) (sh_edges sh))) = accept_at p (sh_conf sh) s"
proof -
  have rows: "\<forall>row\<in>set (tp_g p). length row = Suc (length (tp_edges p))" using ok by (simp add: table_ok_def list_all_iff)
  have "tp_g p \<noteq> []" using accept_at_ok(1) [OF ok s] by auto
  then have nb: "length (hd (tp_g p)) = Suc (length (tp_edges p))" using rows by simp
  show ?thesis using concat_rows [OF rows accept_at_ok(1) [OF ok s]] sh
    by (simp add: sel_for_def nb accept_at_def le_imp_less_Suc)
qed

lemma sel_time:
  assumes "sel_for p sh" "2 \<le> m" "m \<le> 8"
  shows "sh_t1 sh ! m = step_ms p m"
proof -
  have "m = 2 \<or> m = 3 \<or> m = 4 \<or> m = 5 \<or> m = 6 \<or> m = 7 \<or> m = 8" using assms(2,3) by linarith
  then show ?thesis using assms(1) by (elim disjE) (simp_all add: sel_for_def)
qed

lemma best_len_snoc:
  "best_len b l (xs @ [x]) = (case best_len b l xs of (b', l') \<Rightarrow> if b' < snd x then (snd x, fst x) else (b', l'))"
proof (induction xs arbitrary: b l)
  case Nil
  then show ?case by (cases x) simp
next
  case (Cons y ys)
  then show ?case by (cases y) simp
qed

text \<open>
  The loop of the kernel after \<open>n\<close> depths, provided that the first length already beats the initial bound.
\<close>

lemma sel_loop:
  assumes ok: "table_ok p" and sh: "sel_for p sh" and lam: "very_low < exp_tokens p (sh_conf sh) 1 - lam * step_ms p 2"
  shows "n \<le> ds_kmax \<Longrightarrow>
    fold (sel_step sh lam) [0..<n] (1, 1, very_low, 1, ds_kmax) =
      (exp_tokens p (sh_conf sh) n, reach_prob p (sh_conf sh) n, fst (best_len very_low ds_kmax (len_values p (sh_conf sh) lam n)),
       (if n = 0 then 1 else exp_tokens p (sh_conf sh) (snd (best_len very_low ds_kmax (len_values p (sh_conf sh) lam n)))),
       snd (best_len very_low ds_kmax (len_values p (sh_conf sh) lam n)))"
proof (induction n)
  case 0
  then show ?case by (simp add: len_values_def)
next
  case (Suc n)
  let ?c = "sh_conf sh"
  have n: "n < ds_kmax" "n \<le> ds_kmax" using Suc.prems by simp_all
  have vals: "len_values p ?c lam (Suc n) = len_values p ?c lam n @ [(Suc n, exp_tokens p ?c (Suc n) - lam * step_ms p (Suc (Suc n)))]"
    by (simp add: len_values_def)
  have t: "sh_t1 sh ! (n + 2) = step_ms p (Suc (Suc n))" using sel_time [OF sh, of "n + 2"] n(1) by (simp add: ds_kmax_def)
  have first: "n = 0 \<Longrightarrow> best_len very_low ds_kmax (len_values p ?c lam n) = (very_low, ds_kmax)" by (simp add: len_values_def)
  have beats: "n = 0 \<Longrightarrow> very_low < exp_tokens p ?c (Suc n) - lam * step_ms p (Suc (Suc n))" using lam by (simp add: numeral_2_eq_2)
  show ?case
    using Suc.IH [OF n(2)] sel_load [OF ok sh n(1)] t first beats
    by (simp add: sel_step_def fold_count vals best_len_snoc exp_tokens_Suc reach_prob_Suc Let_def split: prod.split)
qed

section \<open>The price stays bounded\<close>

lemma price_beats:
  assumes ok: "table_ok p" and lam: "0 \<le> lam" "lam \<le> 8"
  shows "very_low < exp_tokens p c 1 - lam * step_ms p 2"
proof -
  have "lam * step_ms p 2 \<le> 8 * 10 ^ 6"
    using mult_mono [OF lam(2) step_ms_ok(3) [OF ok, of 2]] step_ms_ok(2) [OF ok, of 2] lam by simp
  moreover have "1 \<le> exp_tokens p c 1" using exp_tokens_ok [OF ok, of 1 c] by (simp add: ds_kmax_def)
  ultimately show ?thesis by (simp add: very_low_def)
qed

lemma next_lam_bounds:
  assumes ok: "table_ok p" and k: "1 \<le> k" "k \<le> ds_kmax" and lam: "0 \<le> lam" "lam \<le> 8"
  shows "0 \<le> next_lam p c lam k" "next_lam p c lam k \<le> 8"
proof -
  let ?L = "picked p c lam k"
  have L: "1 \<le> ?L" "?L \<le> k" using picked_range [OF k(1)] by simp_all
  have e: "1 \<le> exp_tokens p c ?L" "exp_tokens p c ?L \<le> 8"
    using exp_tokens_ok [OF ok, of ?L c] L k order_trans [of "exp_tokens p c ?L" "of_nat (Suc ?L)" 8]
    by (auto simp: ds_kmax_def)
  have t: "1 \<le> step_ms p (Suc ?L)" using step_ms_ok(2) [OF ok, of "Suc ?L"] L k by (simp add: ds_kmax_def)
  have "0 \<le> exp_tokens p c ?L / step_ms p (Suc ?L)" using e t by simp
  moreover have "exp_tokens p c ?L / step_ms p (Suc ?L) \<le> 8"
    using e t by (simp add: pos_divide_le_eq)
  ultimately show "0 \<le> next_lam p c lam k" "next_lam p c lam k \<le> 8"
    using lam by (simp_all add: next_lam_def ema_alpha_def)
qed

lemma first_lam_bounds: "table_ok p \<Longrightarrow> 0 \<le> first_lam p \<and> first_lam p \<le> 8"
  using step_ms_ok(2) [of p 4] by (simp add: first_lam_def pos_divide_le_eq)

lemma picked_last:
  "1 \<le> k \<Longrightarrow> very_low < exp_tokens p c 1 - lam * step_ms p 2 \<Longrightarrow> snd (best_len very_low d (len_values p c lam k)) = picked p c lam k"
proof -
  assume k: "1 \<le> k" and beats: "very_low < exp_tokens p c 1 - lam * step_ms p 2"
  have "len_values p c lam k = (1, exp_tokens p c 1 - lam * step_ms p 2) # tl (len_values p c lam k)"
    using k by (simp add: len_values_def upt_conv_Cons numeral_2_eq_2 del: upt_Suc)
  then show ?thesis unfolding picked_def using beats by (metis best_len.simps(2))
qed

text \<open>A launch with a valid draft and no forced length decides as the policy does with the price of the set.\<close>

lemma select_kernel_policy:
  assumes ok: "table_ok p" and sh: "sel_for p sh" "sh_valid sh \<noteq> 0" "sh_force sh < 1" and lam: "0 \<le> st_lam st" "st_lam st \<le> 8"
  shows "select_kernel sh st =
    st\<lparr>st_lam := next_lam p (sh_conf sh) (st_lam st) ds_kmax,
       st_pred := fold (\<lambda>m q. q[m := (picked p (sh_conf sh) (st_lam st) ds_kmax + 1 = m)]) [2..<ds_kmax + 2] (st_pred st),
       st_ring := (st_ring st)[st_cnt st mod ds_ring := int (picked p (sh_conf sh) (st_lam st) ds_kmax)],
       st_cnt := st_cnt st + 1,
       st_hist := (st_hist st)[picked p (sh_conf sh) (st_lam st) ds_kmax := st_hist st ! picked p (sh_conf sh) (st_lam st) ds_kmax + 1]\<rparr>"
proof -
  let ?c = "sh_conf sh" and ?lam = "st_lam st"
  have beats: "very_low < exp_tokens p ?c 1 - ?lam * step_ms p 2" by (rule price_beats [OF ok lam])
  have k: "1 \<le> ds_kmax" "ds_kmax \<noteq> 0" by (simp_all add: ds_kmax_def)
  have last: "snd (best_len very_low ds_kmax (len_values p ?c ?lam ds_kmax)) = picked p ?c ?lam ds_kmax" by (simp add: picked_def)
  have start: "?lam * 0 - 10 ^ 30 = very_low" by (simp add: very_low_def)
  have L: "1 \<le> picked p ?c ?lam ds_kmax" "picked p ?c ?lam ds_kmax \<le> 7" using picked_range [OF k(1)] by (simp_all add: ds_kmax_def)
  have t: "sh_t1 sh ! (picked p ?c ?lam ds_kmax + 1) = step_ms p (Suc (picked p ?c ?lam ds_kmax))"
    using sel_time [OF sh(1), of "picked p ?c ?lam ds_kmax + 1"] L by simp
  have eq: "int (picked p ?c ?lam ds_kmax) + 1 = int m \<longleftrightarrow> picked p ?c ?lam ds_kmax + 1 = m" for m by linarith
  have coef: "sh_keep sh = 1 - ema_alpha" "sh_alpha sh = ema_alpha" using sh(1) by (simp_all add: sel_for_def)
  show ?thesis
    unfolding select_kernel_def Let_def start sel_loop [OF ok sh(1) beats order_refl]
    using sh(2,3) k(2) t by (simp add: last coef eq next_lam_def)
qed

text \<open>Exactly one of the predicates is set, the one of the chosen length.\<close>

lemma one_body:
  assumes "length pred = ds_rows + 2" "1 \<le> len" "len \<le> ds_kmax"
  shows "filter (\<lambda>m. fold (\<lambda>m q. q[m := (len + 1 = m)]) [2..<ds_kmax + 2] pred ! m) [2..<ds_rows + 1] = [len + 1]"
proof -
  have "len = 1 \<or> len = 2 \<or> len = 3 \<or> len = 4 \<or> len = 5 \<or> len = 6 \<or> len = 7" using assms by (auto simp: ds_kmax_def)
  then show ?thesis using assms(1) by (elim disjE) (simp_all add: ds_kmax_def ds_rows_def)
qed

section \<open>Host and device take turns\<close>

definition same_table :: "trunc_policy \<Rightarrow> trunc_policy \<Rightarrow> bool" where
  "same_table p q \<longleftrightarrow> tp_edges p = tp_edges q \<and> tp_g p = tp_g q \<and> tp_t1 p = tp_t1 q \<and> tp_row_ms p = tp_row_ms q"

text \<open>The decisions of one policy in a row: the reference that host and device together must follow.\<close>

fun ref_run :: "(nat \<Rightarrow> rat) \<Rightarrow> trunc_policy \<Rightarrow> (rat list list \<times> nat) list \<Rightarrow> (trunc_policy \<times> nat list list) result" where
  "ref_run pw p [] = Inr (p, [])"
| "ref_run pw p ((confs, kmax) # ds) =
     bind_r (tp_choose pw p confs kmax) (\<lambda>(p', len). map_sum id (\<lambda>(q, rows). (q, [len + 1] # rows)) (ref_run pw p' ds))"

text \<open>
  The worker with one graph set and one policy per variant; \<open>py_log\<close> lists the decisions taken: variant, confidences, scheduled
  drafts and the rows of the bodies that ran.
\<close>

record parity_world =
  py_pols :: "int \<Rightarrow> trunc_policy"
  py_sets :: "int \<Rightarrow> sel_entry"
  py_shared :: sel_shared
  py_pend :: "rat list list option"
  py_run :: sel_run
  py_log :: "(int \<times> rat list list \<times> nat \<times> nat list) list"

definition parity_new :: "trunc_policy \<Rightarrow> sel_shared \<Rightarrow> parity_world" where
  "parity_new p sh = \<lparr>py_pols = (\<lambda>_. p), py_sets = (\<lambda>_. entry_new sh), py_shared = sh, py_pend = None,
     py_run = \<lparr>rn_go = False, rn_debug = False, rn_steps = 0, rn_debug_runs = 0, rn_exec_calls = 0\<rparr>, py_log = []\<rparr>"

text \<open>
  A draft delivers confidences of the drafter's seven depths; an eligible step replays the parent, unless \<open>run_parent\<close> turns it down;
  the host decides on the confidences of any draft, on that step or after it.
\<close>

inductive parity_step :: "(nat \<Rightarrow> rat) \<Rightarrow> parity_world \<Rightarrow> parity_world \<Rightarrow> bool" for pw where
  draft: "\<forall>c\<in>set confs. length c = ds_kmax \<Longrightarrow>
    parity_step pw w (w\<lparr>py_shared := note_propose True confs (length confs) (py_shared w), py_pend := Some confs\<rparr>)"
| device: "py_pend w = Some confs \<Longrightarrow> sel_eligible env ns so (Some (length confs, rids)) \<Longrightarrow>
    run_parent desc staged (py_shared w) (Some (py_sets w v)) ((py_run w)\<lparr>rn_go := True\<rparr>) = (r', Some e', bodies) \<Longrightarrow>
    parity_step pw w (w\<lparr>py_pend := None, py_run := r', py_sets := (py_sets w)(v := e'),
      py_log := py_log w @ (case bodies of None \<Rightarrow> [] | Some rows \<Rightarrow> [(v, confs, ds_kmax, rows)])\<rparr>)"
| host: "\<forall>c\<in>set confs. length c = ds_kmax \<Longrightarrow> 1 \<le> kmax \<Longrightarrow> kmax \<le> ds_kmax \<Longrightarrow>
    shared_choose pw (Some (py_sets w v)) (py_pols w v) confs kmax = Inr (Some e', p', len) \<Longrightarrow>
    parity_step pw w (w\<lparr>py_sets := (py_sets w)(v := e'), py_pols := (py_pols w)(v := p'),
      py_log := py_log w @ [(v, confs, kmax, [len + 1])]\<rparr>)"

inductive parity_reach :: "(nat \<Rightarrow> rat) \<Rightarrow> parity_world \<Rightarrow> parity_world \<Rightarrow> bool" for pw w0 where
  start: "parity_reach pw w0 w0"
| step: "parity_reach pw w0 w \<Longrightarrow> parity_step pw w w' \<Longrightarrow> parity_reach pw w0 w'"

definition decisions_of :: "int \<Rightarrow> parity_world \<Rightarrow> (rat list list \<times> nat) list" where
  "decisions_of v w = map (\<lambda>(u, confs, kmax, rows). (confs, kmax)) (filter (\<lambda>x. fst x = v) (py_log w))"

definition rows_of :: "int \<Rightarrow> parity_world \<Rightarrow> nat list list" where
  "rows_of v w = map (\<lambda>(u, confs, kmax, rows). rows) (filter (\<lambda>x. fst x = v) (py_log w))"

subsection \<open>The choice depends on the tables and the price\<close>

lemma same_table_cong:
  assumes "same_table p q"
  shows "expect p = expect q" "tp_cost p = tp_cost q" "exp_tokens p = exp_tokens q" "step_ms p = step_ms q" "picked p = picked q"
    "next_lam p = next_lam q" "first_lam p = first_lam q" "table_ok p = table_ok q"
proof -
  have f: "expect_from p s e cum conf = expect_from q s e cum conf" for s e cum conf
    using assms by (induction conf arbitrary: s e cum) (simp_all add: same_table_def Let_def)
  show "expect p = expect q" by (rule ext) (simp add: expect_def f)
  show "tp_cost p = tp_cost q" using assms by (intro ext) (auto simp: tp_cost_def same_table_def Let_def split: option.splits)
  show e: "exp_tokens p = exp_tokens q" and t: "step_ms p = step_ms q"
    using assms by (intro ext, simp add: exp_tokens_def reach_prob_def accept_at_def step_ms_def same_table_def cong: map_cong)+
  show d: "picked p = picked q" by (intro ext) (simp add: picked_def len_values_def e t)
  show "next_lam p = next_lam q" by (intro ext) (simp add: next_lam_def d e t)
  show "first_lam p = first_lam q" by (simp add: first_lam_def t)
  show "table_ok p = table_ok q" using assms by (simp add: table_ok_def same_table_def)
qed

text \<open>The choice on the tables and the price of the batch size alone: the new price, the margin and the length.\<close>

definition choose_core :: "(nat \<Rightarrow> rat) \<Rightarrow> trunc_policy \<Rightarrow> rat option \<Rightarrow> rat list list \<Rightarrow> nat \<Rightarrow> (rat \<times> rat option \<times> nat) result" where
  "choose_core pw p price confs kmax =
     (let n = length confs
      in bind_r (map_r (\<lambda>c. expect p (take kmax c)) confs) (\<lambda>es.
         bind_r (bind_r (tp_cost p 1 4) (\<lambda>c. if c = 0 then Inl ZeroDivisionError else Inr (22 / 10 / c * pw n))) (\<lambda>lam0.
         let lam = (case price of None \<Rightarrow> lam0 | Some l \<Rightarrow> l)
         in bind_r (map_r (\<lambda>len. map_sum id (Pair len) (value_at p es lam len)) [1..<Suc kmax]) (\<lambda>vals.
            let bl = snd (best_len very_low kmax vals); vs = map snd vals
            in bind_r (map_r (\<lambda>e. py_nth e (int bl)) es) (\<lambda>xs.
               bind_r (tp_cost p n (Suc bl)) (\<lambda>c.
               if c = 0 then Inl ZeroDivisionError
               else Inr ((1 - ema_alpha) * lam + ema_alpha * sum_list xs / c,
                         if 1 < kmax then Some (last vs - Max (set (butlast vs))) else None, bl)))))))"

lemma map_sum_bind_r: "map_sum id g (bind_r x f) = bind_r x (\<lambda>a. map_sum id g (f a))"
  by (cases x) simp_all

lemma map_sum_Inr: "map_sum id g x = Inr y \<longleftrightarrow> (\<exists>a. x = Inr a \<and> g a = y)"
  by (cases x) auto

lemma map_sum_raise: "map_sum id g (if b then Inl e else Inr y) = (if b then Inl e else Inr (g y))"
  by simp

lemma tp_choose_core:
  "tp_choose pw p confs kmax =
     map_sum id (\<lambda>(x, m, len). (p\<lparr>tp_lam := (tp_lam p)(length confs \<mapsto> x), tp_margin := m, tp_kmax := kmax\<rparr>, len))
       (choose_core pw p (tp_lam p (length confs)) confs kmax)"
  unfolding tp_choose_def choose_core_def Let_def map_sum_bind_r map_sum_raise prod.case ..

lemma choose_core_cong: "same_table p q \<Longrightarrow> choose_core pw p = choose_core pw q"
proof -
  assume same: "same_table p q"
  have cong: "expect p = expect q" "tp_cost p = tp_cost q" using same_table_cong [OF same] by simp_all
  have at: "value_at p = value_at q" by (intro ext) (simp add: value_at_def cong)
  show ?thesis by (intro ext) (simp only: choose_core_def cong at)
qed

text \<open>Two policies with the same tables and the same price for the batch size choose alike and stay so.\<close>

lemma tp_choose_other:
  assumes same: "same_table p q" and lam: "tp_lam p (length confs) = tp_lam q (length confs)"
    and choose: "tp_choose pw p confs kmax = Inr (p', len)"
  obtains q' x where "tp_choose pw q confs kmax = Inr (q', len)" "tp_lam p' = (tp_lam p)(length confs \<mapsto> x)"
    "tp_lam q' = (tp_lam q)(length confs \<mapsto> x)" "same_table p p'" "same_table q q'"
proof -
  from choose obtain x m where core: "choose_core pw p (tp_lam p (length confs)) confs kmax = Inr (x, m, len)"
    and p': "p' = p\<lparr>tp_lam := (tp_lam p)(length confs \<mapsto> x), tp_margin := m, tp_kmax := kmax\<rparr>"
    by (cases "choose_core pw p (tp_lam p (length confs)) confs kmax") (auto simp: tp_choose_core)
  show thesis
    by (rule that [of "q\<lparr>tp_lam := (tp_lam q)(length confs \<mapsto> x), tp_margin := m, tp_kmax := kmax\<rparr>" x])
      (use core in \<open>simp_all add: tp_choose_core choose_core_cong [OF same] lam p' same_table_def\<close>)
qed

subsection \<open>The invariant\<close>

lemma ref_run_snoc:
  "ref_run pw p ds = Inr (q, rows) \<Longrightarrow> tp_choose pw q confs kmax = Inr (q', len) \<Longrightarrow>
   ref_run pw p (ds @ [(confs, kmax)]) = Inr (q', rows @ [[len + 1]])"
proof (induction ds arbitrary: p rows)
  case (Cons d ds)
  then show ?case by (cases d) (auto simp: bind_r_Inr_iff map_sum_Inr)
qed simp

text \<open>The price both sides agree on is the reference's; what differs is only who holds the latest copy.\<close>

definition shares :: "trunc_policy \<Rightarrow> trunc_policy \<Rightarrow> trunc_policy \<Rightarrow> sel_entry \<Rightarrow> bool" where
  "shares tmpl q p e \<longleftrightarrow>
     same_table tmpl q \<and> same_table tmpl p \<and> (\<forall>n. n \<noteq> 1 \<longrightarrow> tp_lam p n = tp_lam q n) \<and>
     st_lam (en_st e) = lam_one q \<and> 0 \<le> lam_one q \<and> lam_one q \<le> 8 \<and> length (st_pred (en_st e)) = ds_rows + 2 \<and>
     (if en_dirty e then en_pin e = lam_one q else lam_one p = lam_one q)"

definition parity_ok :: "(nat \<Rightarrow> rat) \<Rightarrow> trunc_policy \<Rightarrow> parity_world \<Rightarrow> bool" where
  "parity_ok pw tmpl w \<longleftrightarrow>
     sel_for tmpl (py_shared w) \<and> sh_force (py_shared w) < 1 \<and>
     (\<forall>c. py_pend w = Some [c] \<longrightarrow> length c = ds_kmax \<and> sh_conf (py_shared w) = c \<and> sh_valid (py_shared w) \<noteq> 0) \<and>
     (\<forall>v. \<exists>q. ref_run pw tmpl (decisions_of v w) = Inr (q, rows_of v w) \<and> shares tmpl q (py_pols w v) (py_sets w v))"

lemma ref_choose_one:
  assumes ok: "table_ok tmpl" and q: "same_table tmpl q" and c: "length c = ds_kmax" and k: "1 \<le> k" "k \<le> ds_kmax" and pow: "pw 1 = 1"
  obtains q' where "tp_choose pw q [c] k = Inr (q', picked tmpl c (lam_one q) k)" "same_table tmpl q'"
    "tp_lam q' = (tp_lam q)(1 \<mapsto> next_lam tmpl c (lam_one q) k)" "lam_one q' = next_lam tmpl c (lam_one q) k"
proof -
  note cong = same_table_cong [OF q]
  obtain m where m: "tp_choose pw q [c] k =
      Inr (q\<lparr>tp_lam := (tp_lam q)(1 \<mapsto> next_lam q c (lam_one q) k), tp_margin := m, tp_kmax := k\<rparr>, picked q c (lam_one q) k)"
    by (rule tp_choose_one [where p = q and c = c and k = k and pw = pw]) (use ok cong c k pow in auto)
  show thesis by (rule that, unfold m cong, rule refl) (use q in \<open>simp_all add: same_table_def lam_one_def\<close>)
qed

lemma shares_device:
  assumes ok: "table_ok tmpl" and pow: "pw 1 = 1" and sh: "sel_for tmpl sh" "sh_valid sh \<noteq> 0" "sh_force sh < 1" "length (sh_conf sh) = ds_kmax"
    and s: "shares tmpl q p e" and ent: "run_parent desc staged sh (Some e) (r\<lparr>rn_go := True\<rparr>) = (r', Some e', bodies)"
  shows "bodies = None \<and> e' = e \<or>
    (\<exists>q' len. bodies = Some [len + 1] \<and> tp_choose pw q [sh_conf sh] ds_kmax = Inr (q', len) \<and> shares tmpl q' p e')"
proof (cases bodies)
  case None
  then show ?thesis using ent by (auto simp: run_parent_def Let_def split: prod.splits if_splits)
next
  case (Some rows)
  let ?c = "sh_conf sh"
  let ?L = "picked tmpl ?c (lam_one q) ds_kmax"
  have k: "1 \<le> ds_kmax" by (simp add: ds_kmax_def)
  have sq: "same_table tmpl q" using s by (simp add: shares_def)
  have lam: "st_lam (en_st e) = lam_one q" "0 \<le> lam_one q" "lam_one q \<le> 8" using s by (auto simp: shares_def)
  have st: "select_kernel sh (en_st e) = (en_st e)\<lparr>st_lam := next_lam tmpl ?c (lam_one q) ds_kmax,
       st_pred := fold (\<lambda>m q. q[m := (?L + 1 = m)]) [2..<ds_kmax + 2] (st_pred (en_st e)),
       st_ring := (st_ring (en_st e))[st_cnt (en_st e) mod ds_ring := int ?L], st_cnt := st_cnt (en_st e) + 1,
       st_hist := (st_hist (en_st e))[?L := st_hist (en_st e) ! ?L + 1]\<rparr>"
    using select_kernel_policy [OF ok sh(1-3), of "en_st e"] lam by simp
  have e': "e' = (lam_publish (e\<lparr>en_st := select_kernel sh (en_st e)\<rparr>))\<lparr>en_launched := en_launched e + 1\<rparr>"
    and rows: "rows = parent_bodies (select_kernel sh (en_st e))"
    using ent Some by (auto simp: run_parent_def Let_def split: prod.splits if_splits)
  have L: "1 \<le> ?L" "?L \<le> ds_kmax" using picked_range [OF k] by simp_all
  have len: "length (st_pred (en_st e)) = ds_rows + 2" using s by (simp add: shares_def)
  have body: "rows = [?L + 1]" using one_body [OF len L] unfolding rows st by (simp add: parent_bodies_def)
  obtain q' where q': "tp_choose pw q [?c] ds_kmax = Inr (q', ?L)" "same_table tmpl q'"
    "tp_lam q' = (tp_lam q)(1 \<mapsto> next_lam tmpl ?c (lam_one q) ds_kmax)" "lam_one q' = next_lam tmpl ?c (lam_one q) ds_kmax"
    by (rule ref_choose_one [where pw = pw, OF ok sq sh(4) k order_refl pow])
  have plen: "length (fold (\<lambda>m q. q[m := P m]) xs pred) = length pred" for P xs and pred :: "bool list"
    by (induction xs arbitrary: pred) simp_all
  have "shares tmpl q' p e'"
    using s q'(2,3,4) next_lam_bounds [OF ok k order_refl lam(2,3), of ?c]
    by (simp add: shares_def e' lam_publish_def st plen)
  then show ?thesis using q'(1) body Some by blast
qed

lemma shares_host:
  assumes ok: "table_ok tmpl" and pow: "pw 1 = 1" and confs: "\<forall>c\<in>set confs. length c = ds_kmax" and k: "1 \<le> k" "k \<le> ds_kmax"
    and s: "shares tmpl q p e" and choose: "shared_choose pw (Some e) p confs k = Inr (Some e', p', len)"
  shows "\<exists>q'. tp_choose pw q confs k = Inr (q', len) \<and> shares tmpl q' p' e'"
proof (cases "length confs = 1")
  case True
  then obtain c where c: "confs = [c]" "length c = ds_kmax" using confs by (cases confs) auto
  define p1 where "p1 = (if en_dirty e then p\<lparr>tp_lam := (tp_lam p)(1 \<mapsto> en_pin e)\<rparr> else p)"
  have p1: "same_table tmpl p1" "lam_one p1 = lam_one q" "\<forall>n. n \<noteq> 1 \<longrightarrow> tp_lam p1 n = tp_lam q n"
    using s by (auto simp: p1_def shares_def same_table_def lam_one_def)
  have pull: "lam_pull (Some e) p = (Some (e\<lparr>en_dirty := False\<rparr>), p1)"
    by (cases "en_dirty e") (simp_all add: lam_pull_def p1_def)
  have sq: "same_table tmpl q" using s by (simp add: shares_def)
  obtain q' where q': "tp_choose pw q [c] k = Inr (q', picked tmpl c (lam_one q) k)" "same_table tmpl q'"
    "tp_lam q' = (tp_lam q)(1 \<mapsto> next_lam tmpl c (lam_one q) k)" "lam_one q' = next_lam tmpl c (lam_one q) k"
    by (rule ref_choose_one [where pw = pw, OF ok sq c(2) k pow])
  obtain p2 where p2: "tp_choose pw p1 [c] k = Inr (p2, picked tmpl c (lam_one p1) k)" "same_table tmpl p2"
    "tp_lam p2 = (tp_lam p1)(1 \<mapsto> next_lam tmpl c (lam_one p1) k)" "lam_one p2 = next_lam tmpl c (lam_one p1) k"
    by (rule ref_choose_one [where pw = pw, OF ok p1(1) c(2) k pow])
  have out: "e' = e\<lparr>en_dirty := False, en_st := (en_st e)\<lparr>st_lam := next_lam tmpl c (lam_one q) k\<rparr>\<rparr>" "p' = p2"
    "len = picked tmpl c (lam_one q) k"
    using choose pull p2 p1(2) by (auto simp: shared_choose_def c lam_push_def)
  have "0 \<le> lam_one q" "lam_one q \<le> 8" using s by (simp_all add: shares_def)
  then have "shares tmpl q' p' e'"
    using s q'(2-4) p2(2-4) p1 next_lam_bounds [OF ok k, of "lam_one q" c] by (simp add: shares_def out)
  then show ?thesis using q'(1) out c by blast
next
  case False
  then have t: "tp_choose pw p confs k = Inr (p', len)" "e' = e"
    using choose by (auto simp: shared_choose_def bind_r_Inr_iff)
  have same: "same_table p q" and lam: "tp_lam p (length confs) = tp_lam q (length confs)"
    using s False by (auto simp: shares_def same_table_def)
  obtain q' x where q': "tp_choose pw q confs k = Inr (q', len)" "tp_lam p' = (tp_lam p)(length confs \<mapsto> x)"
    "tp_lam q' = (tp_lam q)(length confs \<mapsto> x)" "same_table p p'" "same_table q q'"
    by (rule tp_choose_other [OF same lam t(1)])
  have lams: "lam_one p' = lam_one p" "lam_one q' = lam_one q"
    using q'(2,3) False same_table_cong(7) [OF q'(4)] same_table_cong(7) [OF q'(5)] by (simp_all add: lam_one_def split: option.split)
  have tables: "same_table tmpl p'" "same_table tmpl q'" using s q'(4,5) by (auto simp: shares_def same_table_def)
  have "shares tmpl q' p' e'" using s q'(2,3) False t(2) by (simp add: shares_def lams tables)
  then show ?thesis using q'(1) by blast
qed

lemma log_snoc:
  "decisions_of v (w\<lparr>py_log := py_log w @ [(u, confs, k, rows)]\<rparr>) = decisions_of v w @ (if u = v then [(confs, k)] else [])"
  "rows_of v (w\<lparr>py_log := py_log w @ [(u, confs, k, rows)]\<rparr>) = rows_of v w @ (if u = v then [rows] else [])"
  by (simp_all add: decisions_of_def rows_of_def)

text \<open>A step that takes one decision of variant \<open>u\<close>, or none, and only touches that variant.\<close>

lemma parity_decide:
  assumes inv: "parity_ok pw tmpl w" and pols: "\<And>v. v \<noteq> u \<Longrightarrow> py_pols w' v = py_pols w v" and sets: "\<And>v. v \<noteq> u \<Longrightarrow> py_sets w' v = py_sets w v"
    and shared: "py_shared w' = py_shared w" and pend: "py_pend w' = py_pend w \<or> py_pend w' = None"
    and taken: "\<And>q. shares tmpl q (py_pols w u) (py_sets w u) \<Longrightarrow>
      (py_log w' = py_log w \<and> shares tmpl q (py_pols w' u) (py_sets w' u)) \<or>
      (\<exists>confs k q' len. py_log w' = py_log w @ [(u, confs, k, [len + 1])] \<and> tp_choose pw q confs k = Inr (q', len) \<and>
         shares tmpl q' (py_pols w' u) (py_sets w' u))"
  shows "parity_ok pw tmpl w'"
proof -
  have "\<exists>q. ref_run pw tmpl (decisions_of v w') = Inr (q, rows_of v w') \<and> shares tmpl q (py_pols w' v) (py_sets w' v)" for v
  proof -
    obtain q where q: "ref_run pw tmpl (decisions_of v w) = Inr (q, rows_of v w)" "shares tmpl q (py_pols w v) (py_sets w v)"
      using inv unfolding parity_ok_def by blast
    obtain q0 where q0: "shares tmpl q0 (py_pols w u) (py_sets w u)" using inv unfolding parity_ok_def by blast
    show ?thesis
    proof (cases "v = u")
      case True
      from taken [OF q(2) [unfolded True]] show ?thesis
      proof (elim disjE exE conjE)
        fix confs k q' len
        assume a: "py_log w' = py_log w @ [(u, confs, k, [len + 1])]" "tp_choose pw q confs k = Inr (q', len)"
          "shares tmpl q' (py_pols w' u) (py_sets w' u)"
        have "decisions_of v w' = decisions_of v w @ [(confs, k)]" "rows_of v w' = rows_of v w @ [[len + 1]]"
          using a(1) True by (simp_all add: decisions_of_def rows_of_def)
        then show ?thesis using ref_run_snoc [OF q(1) a(2)] a(3) True by auto
      qed (use q True in \<open>auto simp: decisions_of_def rows_of_def\<close>)
    next
      case False
      have "decisions_of v w' = decisions_of v w" "rows_of v w' = rows_of v w"
        using taken [OF q0] False by (auto simp: decisions_of_def rows_of_def)
      then show ?thesis using q pols sets False by auto
    qed
  qed
  then show ?thesis using inv shared pend unfolding parity_ok_def by auto
qed

lemma parity_step_ok:
  assumes ok: "table_ok tmpl" and pow: "pw 1 = 1" and step: "parity_step pw w w'" and inv: "parity_ok pw tmpl w"
  shows "parity_ok pw tmpl w'"
  using step
proof cases
  case (draft confs)
  then show ?thesis using inv
    by (auto simp: parity_ok_def note_propose_def sel_for_def decisions_of_def rows_of_def)
next
  case (device confs env ns so rids desc staged v r' e' bodies)
  have "length confs = 1" using device(3) by (auto simp: sel_eligible_def split: if_splits option.splits)
  then obtain c where c: "confs = [c]" by (cases confs) auto
  have sh: "sel_for tmpl (py_shared w)" "sh_valid (py_shared w) \<noteq> 0" "sh_force (py_shared w) < 1" "sh_conf (py_shared w) = c"
    "length c = ds_kmax"
    using inv device(2) c by (auto simp: parity_ok_def)
  show ?thesis
  proof (rule parity_decide [OF inv, of v])
    fix q assume q: "shares tmpl q (py_pols w v) (py_sets w v)"
    from shares_device [where pw = pw, OF ok pow sh(1-3) _ q device(4)] sh(4,5)
    show "py_log w' = py_log w \<and> shares tmpl q (py_pols w' v) (py_sets w' v) \<or>
      (\<exists>confs k q' len. py_log w' = py_log w @ [(v, confs, k, [len + 1])] \<and> tp_choose pw q confs k = Inr (q', len) \<and>
         shares tmpl q' (py_pols w' v) (py_sets w' v))"
      using q c unfolding device(1) by auto
  qed (auto simp: device(1))
next
  case (host confs kmax v e' p' len)
  show ?thesis
  proof (rule parity_decide [OF inv, of v])
    fix q assume q: "shares tmpl q (py_pols w v) (py_sets w v)"
    from shares_host [where pw = pw, OF ok pow host(2,3,4) q host(5)]
    show "py_log w' = py_log w \<and> shares tmpl q (py_pols w' v) (py_sets w' v) \<or>
      (\<exists>confs k q' len. py_log w' = py_log w @ [(v, confs, k, [len + 1])] \<and> tp_choose pw q confs k = Inr (q', len) \<and>
         shares tmpl q' (py_pols w' v) (py_sets w' v))"
      unfolding host(1) by auto
  qed (auto simp: host(1))
qed

lemma parity_new_ok:
  assumes ok: "table_ok tmpl" and fresh: "tp_lam tmpl = Map.empty" and sh: "dev_tensors force tmpl = Inr sh" "force < 1"
  shows "parity_ok pw tmpl (parity_new tmpl sh)"
proof -
  obtain sh' where sh': "dev_tensors force tmpl = Inr sh'" "sel_for tmpl sh'" "sh_force sh' = force" "sh_valid sh' = 0" "sh_lam0 sh' = first_lam tmpl"
    by (rule dev_tensors_for [OF ok])
  have eq: "sh' = sh" using sh'(1) sh(1) by simp
  have st: "st_lam (en_st (entry_new sh)) = first_lam tmpl" "length (st_pred (en_st (entry_new sh))) = ds_rows + 2"
    "\<not> en_dirty (entry_new sh)"
    using sh'(4,5) by (simp_all add: entry_new_def select_kernel_def set_tensors_def Let_def eq split: prod.split)
  show ?thesis using sh'(2,3) sh(2) st first_lam_bounds [OF ok]
    by (simp add: parity_ok_def parity_new_def eq decisions_of_def rows_of_def shares_def same_table_def lam_one_def fresh)
qed

text \<open>
  C6. Host and device are one policy: whatever drafts come, whichever steps the device decides, the host decides or the parent turns
  down, and however the variants alternate, the lengths taken for a variant are those of a single policy run over all its decisions
  in order, and on every device step exactly the body of that length runs.
\<close>

theorem device_select_parity:
  assumes "table_ok tmpl" and "tp_lam tmpl = Map.empty" and "pw 1 = 1" and "dev_tensors force tmpl = Inr sh" and "force < 1"
    and reach: "parity_reach pw (parity_new tmpl sh) w"
  shows "\<exists>q. ref_run pw tmpl (decisions_of v w) = Inr (q, rows_of v w)"
proof -
  have "parity_ok pw tmpl w"
    using reach by induction (use assms in \<open>auto intro: parity_new_ok parity_step_ok\<close>)
  then show ?thesis unfolding parity_ok_def by blast
qed

definition ds_demo_policy :: trunc_policy where
  "ds_demo_policy = policy_new [-1] (replicate 7 [2 / 5, 9 / 10]) [] 1"

definition demo_sel_shared :: sel_shared where
  "demo_sel_shared = projr (dev_tensors (-1) ds_demo_policy)"

definition demo_conf :: "rat list" where
  "demo_conf = [0, 0, -2, -2, -2, -2, -2]"

definition ds_demo_so :: trunc_so where
  "ds_demo_so = \<lparr>ts_spec = [(''r'', [1, 2, 3, 4, 5, 6, 7])], ts_structured = False, ts_num = (\<lambda>_. 8), ts_total = 8\<rparr>"

definition demo_drafted :: parity_world where
  "demo_drafted = (parity_new ds_demo_policy demo_sel_shared)
     \<lparr>py_shared := note_propose True [demo_conf] 1 demo_sel_shared, py_pend := Some [demo_conf]\<rparr>"

definition ds_demo_ran :: "sel_run \<times> sel_entry option \<times> nat list option" where
  "ds_demo_ran = run_parent (True, True, 8, 1) True (py_shared demo_drafted) (Some (py_sets demo_drafted 0)) ((py_run demo_drafted)\<lparr>rn_go := True\<rparr>)"

definition demo_world :: parity_world where
  "demo_world = demo_drafted\<lparr>py_pend := None, py_run := fst ds_demo_ran, py_sets := (py_sets demo_drafted)(0 := the (fst (snd ds_demo_ran))),
     py_log := [(0, [demo_conf], ds_kmax, the (snd (snd ds_demo_ran)))]\<rparr>"

lemma ds_demo_policy_ok: "table_ok ds_demo_policy" "tp_lam ds_demo_policy = Map.empty" "dev_tensors (-1) ds_demo_policy = Inr demo_sel_shared"
proof -
  show ok: "table_ok ds_demo_policy"
    by (simp add: table_ok_def ds_demo_policy_def policy_new_def t1_default_def fill_row_def ds_kmax_def list_all_iff)
  show "tp_lam ds_demo_policy = Map.empty" by (simp add: ds_demo_policy_def policy_new_def)
  show "dev_tensors (-1) ds_demo_policy = Inr demo_sel_shared"
    by (rule dev_tensors_for [OF ok, of "-1"]) (simp add: demo_sel_shared_def)
qed

lemma demo_world_reached: "parity_reach (\<lambda>_. 1) (parity_new ds_demo_policy demo_sel_shared) demo_world"
proof -
  let ?w0 = "parity_new ds_demo_policy demo_sel_shared"
  have len: "length demo_conf = ds_kmax" by (simp add: demo_conf_def ds_kmax_def)
  have "parity_step (\<lambda>_. 1) ?w0 (?w0\<lparr>py_shared := note_propose True [demo_conf] (length [demo_conf]) (py_shared ?w0),
      py_pend := Some [demo_conf]\<rparr>)"
    by (rule parity_step.draft) (simp add: len)
  then have one: "parity_reach (\<lambda>_. 1) ?w0 demo_drafted"
    using parity_reach.intros by (fastforce simp: demo_drafted_def parity_new_def)
  have ran: "ds_demo_ran = (fst ds_demo_ran, Some (the (fst (snd ds_demo_ran))), Some (the (snd (snd ds_demo_ran))))"
    by (simp add: ds_demo_ran_def run_parent_def Let_def ds_rows_def)
  let ?env = "\<lparr>el_built = True, el_failed = False, el_active = True, el_logprobs = (\<lambda>_. Some (-1)), el_set = True\<rparr>"
  have el: "sel_eligible ?env [(''r'', 8)] ds_demo_so (Some (length [demo_conf], [''r'']))"
    by (simp add: sel_eligible_def ds_demo_so_def ds_kmax_def ds_rows_def Let_def)
  have "parity_step (\<lambda>_. 1) demo_drafted (demo_drafted\<lparr>py_pend := None, py_run := fst ds_demo_ran,
      py_sets := (py_sets demo_drafted)(0 := the (fst (snd ds_demo_ran))),
      py_log := py_log demo_drafted @ (case Some (the (snd (snd ds_demo_ran))) of None \<Rightarrow> [] | Some rows \<Rightarrow> [(0, [demo_conf], ds_kmax, rows)])\<rparr>)"
    by (rule parity_step.device [OF _ el, of _ "(True, True, 8, 1)" True]) (use ran in \<open>simp_all add: demo_drafted_def ds_demo_ran_def\<close>)
  then have "parity_step (\<lambda>_. 1) demo_drafted demo_world"
    by (simp add: demo_world_def) (simp add: demo_drafted_def parity_new_def)
  then show ?thesis by (rule parity_reach.step [OF one])
qed

theorem device_select_parity_witness:
  "decisions_of 0 demo_world = [([demo_conf], 7)] \<and>
   (\<exists>q. ref_run (\<lambda>_. 1) ds_demo_policy (decisions_of 0 demo_world) = Inr (q, rows_of 0 demo_world))"
proof
  show "decisions_of 0 demo_world = [([demo_conf], 7)]" by (simp add: decisions_of_def demo_world_def ds_kmax_def)
  show "\<exists>q. ref_run (\<lambda>_. 1) ds_demo_policy (decisions_of 0 demo_world) = Inr (q, rows_of 0 demo_world)"
    by (rule device_select_parity [OF ds_demo_policy_ok(1,2) _ ds_demo_policy_ok(3) _ demo_world_reached]) simp_all
qed

end
