(* ===== verification/Dev_Fix.thy ===== *)
theory Dev_Fix
  imports Dev_Select
begin

text \<open>
  The body of a shorter verify step, \<open>src/overlay/glm_devselect.py\<close>: what must be patched in the buffers an eight-row step was prepared
  in, as one torch operation per buffer and as one fused kernel, with the copy of the staged plan and the comparison of two plans
  over their valid region. Buffers are integer lists, the plan workspace in 32-bit words.
\<close>

section \<open>Buffers\<close>

record indexer_bufs =
  ix_pr :: "int list"
  ix_dsl :: "int list"
  ix_csm :: "int list option"
  ix_meta :: "int list"

record fix_bufs =
  fx_qsl :: "int list"
  fx_seq :: "int list"
  fx_cu :: "int list"
  fx_gdn :: "int list list"
  fx_idx :: "indexer_bufs list"
  fx_slots :: "int list list"
  fx_ctx :: "int list list"
  fx_ws :: "int list"
  fx_qo :: "int list"
  fx_kv :: "int list"
  fx_ln :: "int list"

text \<open>A staging slot: its workspace, indices and lengths on the device, the words in use, and the plan's description.\<close>

record plan_slot =
  sg_int :: "int list"
  sg_qo :: "int list"
  sg_kv :: "int list"
  sg_ln :: "int list"
  sg_ext :: nat
  sg_info :: "nat list"

definition pad_slot :: int where "pad_slot = -1"

section \<open>One operation per buffer\<close>

text \<open>\<open>xs[lo:hi].fill_(v)\<close>.\<close>

definition fill_range :: "nat \<Rightarrow> nat \<Rightarrow> int \<Rightarrow> int list \<Rightarrow> int list" where
  "fill_range lo hi v xs = map (\<lambda>i. if lo \<le> i \<and> i < hi then v else xs ! i) [0..<length xs]"

definition sub_first :: "int \<Rightarrow> int list \<Rightarrow> int list" where
  "sub_first d xs = (case xs of [] \<Rightarrow> [] | x # rest \<Rightarrow> (x - d) # rest)"

text \<open>\<open>_sched_meta\<close>; \<open>meta\<close> is DeepGEMM's function of the decode lengths.\<close>

definition sched_meta :: "(int list \<Rightarrow> int list) \<Rightarrow> nat \<Rightarrow> indexer_bufs \<Rightarrow> indexer_bufs" where
  "sched_meta meta m ib = ib\<lparr>ix_meta := meta (take m (ix_dsl ib))\<rparr>"

definition fix_ops_legacy :: "(int list \<Rightarrow> int list) \<Rightarrow> plan_slot \<Rightarrow> nat \<Rightarrow> fix_bufs \<Rightarrow> fix_bufs" where
  "fix_ops_legacy meta slot m t =
     t\<lparr>fx_qsl := fill_range 1 (length (fx_qsl t)) (int m) (fx_qsl t),
       fx_seq := sub_first (int (ds_rows - m)) (fx_seq t),
       fx_cu := fill_range 1 2 (int m) (fx_cu t),
       fx_gdn := map (fill_range 1 2 (int m)) (fx_gdn t),
       fx_idx := map (\<lambda>ib. let ib1 = ib\<lparr>ix_pr := fill_range 0 1 (int m) (ix_pr ib), ix_dsl := fill_range m ds_rows 0 (ix_dsl ib)\<rparr>;
                               ib2 = sched_meta meta m ib1
                           in ib2\<lparr>ix_csm := map_option (fill_range m ds_rows pad_slot) (ix_csm ib2)\<rparr>) (fx_idx t),
       fx_slots := map (fill_range m ds_rows pad_slot) (fx_slots t),
       fx_ctx := map (fill_range m ds_rows pad_slot) (fx_ctx t),
       fx_ws := take (sg_ext slot) (sg_int slot) @ drop (sg_ext slot) (fx_ws t),
       fx_qo := sg_qo slot, fx_kv := sg_kv slot, fx_ln := sg_ln slot\<rparr>"

section \<open>The fused kernel\<close>

definition fix_block :: nat where "fix_block = 1024"

text \<open>\<open>_dsf_fill\<close> and \<open>_dsf_copy\<close>: blocks of lanes with a masked store.\<close>

definition dsf_fill :: "nat \<Rightarrow> nat \<Rightarrow> int \<Rightarrow> int list \<Rightarrow> int list" where
  "dsf_fill lo hi v xs =
     fold (\<lambda>k ys. fold (\<lambda>i zs. let o' = lo + k * fix_block + i in if o' < hi then zs[o' := v] else zs) [0..<fix_block] ys)
       [0..<cdiv (hi - lo) fix_block] xs"

definition dsf_copy :: "int list \<Rightarrow> nat \<Rightarrow> nat \<Rightarrow> int list \<Rightarrow> int list" where
  "dsf_copy src off n dst =
     fold (\<lambda>k ys. fold (\<lambda>i zs. let o' = k * fix_block + i in if o' < n then zs[off + o' := src ! (off + o')] else zs) [0..<fix_block] ys)
       [0..<cdiv n fix_block] dst"

text \<open>
  The offsets of the plan in words, as \<open>_fused_prepare\<close> orders them: eight work arrays, five merge arrays, the work index; with the
  numbers of clusters and of multiprocessors.
\<close>

record plan_args =
  pa_offs :: "nat list"
  pa_ncl :: nat
  pa_nsm :: nat

definition plan_args_of :: "nat list \<Rightarrow> plan_args result" where
  "plan_args_of info =
     (let bs = take 14 (drop 2 info)
      in if list_ex (\<lambda>o'. o' mod 4 \<noteq> 0) bs then Inl RuntimeError
         else if length bs \<noteq> 14 then Inl ValueError
         else let w = map (\<lambda>o'. o' div 4) bs
              in Inr \<lparr>pa_offs = map (nth w) [0, 1, 2, 8, 9, 10, 11, 12, 3, 4, 5, 6, 7, 13], pa_ncl = info ! 1,
                     pa_nsm = info ! 0 * info ! 1\<rparr>)"

definition fused_prepare :: "fix_bufs \<Rightarrow> plan_slot \<Rightarrow> plan_args result" where
  "fused_prepare t slot =
     (if 4 < length (fx_gdn t) \<or> 1 < length (fx_idx t) then Inl RuntimeError else plan_args_of (sg_info slot))"

definition fix_plan :: "plan_args \<Rightarrow> int list \<Rightarrow> int list \<Rightarrow> int list" where
  "fix_plan a src dst =
     (let wi = pa_offs a ! 13; w = nat (src ! (wi + pa_ncl a));
          d1 = fold (\<lambda>i. dsf_copy src (pa_offs a ! i) w) [0..<8] dst;
          d2 = fold (\<lambda>i. dsf_copy src (pa_offs a ! i) (pa_nsm a)) [8..<13] d1
      in dsf_copy src wi (pa_ncl a + 1) d2)"

text \<open>\<open>fix_kernel\<close> followed by \<open>_sched_meta\<close>, the body as \<open>_fix_ops\<close> captures it.\<close>

definition fix_ops_fused :: "(int list \<Rightarrow> int list) \<Rightarrow> plan_args \<Rightarrow> plan_slot \<Rightarrow> nat \<Rightarrow> fix_bufs \<Rightarrow> fix_bufs" where
  "fix_ops_fused meta a slot m t =
     (let t1 = t\<lparr>fx_qsl := dsf_fill 1 (length (fx_qsl t)) (int m) (fx_qsl t),
                 fx_seq := sub_first (int (ds_rows - m)) (fx_seq t),
                 fx_cu := dsf_fill 1 2 (int m) (fx_cu t),
                 fx_gdn := map (dsf_fill 1 2 (int m)) (fx_gdn t),
                 fx_idx := map (\<lambda>ib. ib\<lparr>ix_pr := dsf_fill 0 1 (int m) (ix_pr ib), ix_dsl := dsf_fill m ds_rows 0 (ix_dsl ib),
                                         ix_csm := map_option (dsf_fill m ds_rows pad_slot) (ix_csm ib)\<rparr>) (fx_idx t),
                 fx_slots := map (dsf_fill m ds_rows pad_slot) (fx_slots t),
                 fx_ctx := map (dsf_fill m ds_rows pad_slot) (fx_ctx t),
                 fx_ws := fix_plan a (sg_int slot) (fx_ws t),
                 fx_qo := dsf_copy (sg_qo slot) 0 (length (fx_qo t)) (fx_qo t),
                 fx_kv := dsf_copy (sg_kv slot) 0 (length (fx_kv t)) (fx_kv t),
                 fx_ln := dsf_copy (sg_ln slot) 0 (length (fx_ln t)) (fx_ln t)\<rparr>
      in t1\<lparr>fx_idx := map (sched_meta meta m) (fx_idx t1)\<rparr>)"

section \<open>Comparing two plans\<close>

text \<open>\<open>mla_valid_equal\<close>: the index, then the work arrays over its last entry, then the merge arrays.\<close>

definition words_at :: "int list \<Rightarrow> nat \<Rightarrow> nat \<Rightarrow> int list" where
  "words_at buf off n = take n (drop (off div 4) buf)"

definition work_names :: "(string \<times> nat) list" where
  "work_names = [(''q_indptr'', 0), (''kv_indptr'', 1), (''partial_indptr'', 2), (''q_len'', 8), (''kv_len'', 9), (''q_start'', 10),
     (''kv_start'', 11), (''kv_end'', 12)]"

definition merge_names :: "(string \<times> nat) list" where
  "merge_names = [(''merge_packed_start'', 3), (''merge_packed_end'', 4), (''merge_partial_start'', 5), (''merge_partial_end'', 6),
     (''merge_partial_stride'', 7)]"

definition mla_valid_equal :: "int list \<Rightarrow> int list \<Rightarrow> nat list \<Rightarrow> bool \<times> int \<times> string" where
  "mla_valid_equal a b info =
     (let num_sm = info ! 0 * info ! 1; ncl = info ! 1; field = (\<lambda>k. info ! (k + 2));
          wa = words_at a (field 13) (ncl + 1); wb = words_at b (field 13) (ncl + 1); w = last wa
      in if wa \<noteq> wb then (False, w, ''work_indptr'')
         else (case find (\<lambda>(name, k). words_at a (field k) (nat w) \<noteq> words_at b (field k) (nat w)) work_names of
                 Some (name, k) \<Rightarrow> (False, w, name)
               | None \<Rightarrow>
                   (case find (\<lambda>(name, k). words_at a (field k) num_sm \<noteq> words_at b (field k) num_sm) merge_names of
                      Some (name, k) \<Rightarrow> (False, w, name)
                    | None \<Rightarrow> (True, w, []))))"

section \<open>The kernel does what the operations do\<close>

lemma dsf_fill_eq: "dsf_fill lo hi v xs = fill_range lo hi v xs"
proof -
  let ?f = "\<lambda>j zs. if j < hi - lo then zs[lo + j := v] else zs"
  have "dsf_fill lo hi v xs = fold (\<lambda>p. fold (\<lambda>i. ?f (p * fix_block + i)) [0..<fix_block]) [0..<cdiv (hi - lo) fix_block] xs"
    unfolding dsf_fill_def
    by (intro fold_cong refl ext) (auto simp: Let_def less_diff_conv add.commute add.left_commute intro!: fold_cong)
  then have eq: "dsf_fill lo hi v xs = fold ?f [0..<cdiv (hi - lo) fix_block * fix_block] xs"
    by (simp only: fold_tiles [of ?f])
  have "hi - lo \<le> cdiv (hi - lo) fix_block * fix_block" by (rule cdiv_ge) (simp add: fix_block_def)
  then show ?thesis
    by (intro nth_equalityI) (auto simp: eq fold_masked_store fill_range_def)
qed

lemma dsf_copy_nth:
  shows "length (dsf_copy src off n dst) = length dst"
    and "i < length dst \<Longrightarrow> dsf_copy src off n dst ! i = (if off \<le> i \<and> i < off + n then src ! i else dst ! i)"
proof -
  let ?f = "\<lambda>j zs. if j < n then zs[off + j := src ! (off + j)] else zs"
  have "dsf_copy src off n dst = fold (\<lambda>p. fold (\<lambda>i. ?f (p * fix_block + i)) [0..<fix_block]) [0..<cdiv n fix_block] dst"
    by (simp add: dsf_copy_def Let_def)
  then have eq: "dsf_copy src off n dst = fold ?f [0..<cdiv n fix_block * fix_block] dst"
    by (simp only: fold_tiles [of ?f])
  have "n \<le> cdiv n fix_block * fix_block" by (rule cdiv_ge) (simp add: fix_block_def)
  then show "length (dsf_copy src off n dst) = length dst"
    "i < length dst \<Longrightarrow> dsf_copy src off n dst ! i = (if off \<le> i \<and> i < off + n then src ! i else dst ! i)"
    by (auto simp: eq fold_masked_store)
qed

lemma dsf_copy_all: "length dst = length src \<Longrightarrow> n = length src \<Longrightarrow> dsf_copy src 0 n dst = src"
  by (rule nth_equalityI) (simp_all add: dsf_copy_nth)

text \<open>The regions of a plan that hold its values, in words.\<close>

definition plan_regions :: "plan_args \<Rightarrow> int list \<Rightarrow> (nat \<times> nat) list" where
  "plan_regions a src =
     map (\<lambda>i. (pa_offs a ! i, nat (src ! (pa_offs a ! 13 + pa_ncl a)))) [0..<8] @ map (\<lambda>i. (pa_offs a ! i, pa_nsm a)) [8..<13] @
     [(pa_offs a ! 13, pa_ncl a + 1)]"

definition in_regions :: "(nat \<times> nat) list \<Rightarrow> nat \<Rightarrow> bool" where
  "in_regions rs i = list_ex (\<lambda>(off, n). off \<le> i \<and> i < off + n) rs"

lemma copies_nth:
  "length (fold (\<lambda>(off, n). dsf_copy src off n) rs dst) = length dst \<and>
   (i < length dst \<longrightarrow> fold (\<lambda>(off, n). dsf_copy src off n) rs dst ! i = (if in_regions rs i then src ! i else dst ! i))"
  by (induction rs arbitrary: dst) (auto simp: in_regions_def dsf_copy_nth)

lemma fix_plan_regions: "fix_plan a src dst = fold (\<lambda>(off, n). dsf_copy src off n) (plan_regions a src) dst"
  by (simp add: fix_plan_def plan_regions_def Let_def fold_map o_def)

lemmas fix_plan_nth = copies_nth [of src "plan_regions a src" dst for a src dst, folded fix_plan_regions]

lemma plan_regions_info:
  assumes "plan_args_of info = Inr a"
  shows "plan_regions a src =
      map (\<lambda>(name, k). (info ! (k + 2) div 4, nat (src ! (info ! 15 div 4 + info ! 1)))) work_names @
      map (\<lambda>(name, k). (info ! (k + 2) div 4, info ! 0 * info ! 1)) merge_names @ [(info ! 15 div 4, info ! 1 + 1)]"
    and "pa_offs a ! 13 = info ! 15 div 4" and "pa_ncl a = info ! 1"
proof -
  let ?w = "map (\<lambda>o'. o' div 4) (take 14 (drop 2 info))"
  have len: "length (take 14 (drop 2 info)) = 14"
    and a: "a = \<lparr>pa_offs = map (nth ?w) [0, 1, 2, 8, 9, 10, 11, 12, 3, 4, 5, 6, 7, 13], pa_ncl = info ! 1, pa_nsm = info ! 0 * info ! 1\<rparr>"
    using assms by (auto simp: plan_args_of_def Let_def split: if_splits)
  have w: "?w ! k = info ! (k + 2) div 4" if "k < 14" for k
    using that len by (simp add: add.commute)
  have offs: "pa_offs a = map (\<lambda>k. info ! (k + 2) div 4) [0, 1, 2, 8, 9, 10, 11, 12, 3, 4, 5, 6, 7, 13]"
    unfolding a by (simp add: w del: nth_map)
  show "pa_offs a ! 13 = info ! 15 div 4" "pa_ncl a = info ! 1" by (simp_all add: offs) (simp add: a)
  then show "plan_regions a src =
      map (\<lambda>(name, k). (info ! (k + 2) div 4, nat (src ! (info ! 15 div 4 + info ! 1)))) work_names @
      map (\<lambda>(name, k). (info ! (k + 2) div 4, info ! 0 * info ! 1)) merge_names @ [(info ! 15 div 4, info ! 1 + 1)]"
    by (simp add: plan_regions_def offs work_names_def merge_names_def upt_rec) (simp add: a)
qed

lemma mla_valid_equal_regions:
  assumes a: "plan_args_of info = Inr a" and in_range: "pa_offs a ! 13 + pa_ncl a < length x"
    and same: "\<And>off n. (off, n) \<in> set (plan_regions a x) \<Longrightarrow> take n (drop off x) = take n (drop off y)"
  shows "mla_valid_equal x y info = (True, x ! (pa_offs a ! 13 + pa_ncl a), [])"
proof -
  note offs = plan_regions_info(2,3) [OF a]
  let ?wi = "info ! 15 div 4" and ?ncl = "info ! 1"
  have last: "last (words_at x (info ! 15) (?ncl + 1)) = x ! (?wi + ?ncl)"
    using in_range offs by (simp add: words_at_def last_conv_nth)
  have wi: "words_at x (info ! 15) (?ncl + 1) = words_at y (info ! 15) (?ncl + 1)"
    unfolding words_at_def by (rule same) (simp add: plan_regions_info(1) [OF a])
  have regions: "(info ! (k + 2) div 4, nat (x ! (?wi + ?ncl))) \<in> set (plan_regions a x)" if "(name, k) \<in> set work_names" for name k
    using imageI [OF that, of "\<lambda>(name, k). (info ! (k + 2) div 4, nat (x ! (?wi + ?ncl)))"] by (simp add: plan_regions_info(1) [OF a])
  have regions2: "(info ! (k + 2) div 4, info ! 0 * ?ncl) \<in> set (plan_regions a x)" if "(name, k) \<in> set merge_names" for name k
    using imageI [OF that, of "\<lambda>(name, k). (info ! (k + 2) div 4, info ! 0 * ?ncl)"] by (simp add: plan_regions_info(1) [OF a])
  have work: "find (\<lambda>(name, k). words_at x (info ! (k + 2)) (nat (x ! (?wi + ?ncl))) \<noteq> words_at y (info ! (k + 2)) (nat (x ! (?wi + ?ncl)))) work_names = None"
    unfolding find_None_iff words_at_def by (auto dest!: regions same)
  have merge: "find (\<lambda>(name, k). words_at x (info ! (k + 2)) (info ! 0 * ?ncl) \<noteq> words_at y (info ! (k + 2)) (info ! 0 * ?ncl)) merge_names = None"
    unfolding find_None_iff words_at_def by (auto dest!: regions2 same)
  show ?thesis
    using last wi work merge offs by (simp add: mla_valid_equal_def Let_def)
qed

text \<open>
  What the runner allocates: buffers of at least eight rows, a staged plan of the workspace's length whose regions lie within the words
  that are copied, and indices of one length.
\<close>

definition fix_ready :: "plan_args \<Rightarrow> plan_slot \<Rightarrow> nat \<Rightarrow> fix_bufs \<Rightarrow> bool" where
  "fix_ready a slot m t =
     (2 \<le> m \<and> m < ds_rows \<and> fx_qsl t \<noteq> [] \<and> fx_seq t \<noteq> [] \<and> 2 \<le> length (fx_cu t) \<and> list_all (\<lambda>q. 2 \<le> length q) (fx_gdn t) \<and>
      list_all (\<lambda>ib. ix_pr ib \<noteq> [] \<and> ds_rows \<le> length (ix_dsl ib) \<and> pred_option (\<lambda>c. ds_rows \<le> length c) (ix_csm ib)) (fx_idx t) \<and>
      list_all (\<lambda>r. ds_rows \<le> length r) (fx_slots t) \<and> list_all (\<lambda>r. ds_rows \<le> length r) (fx_ctx t) \<and>
      length (fx_ws t) = length (sg_int slot) \<and> sg_ext slot \<le> length (sg_int slot) \<and>
      list_all (\<lambda>(off, n). off + n \<le> sg_ext slot) (plan_regions a (sg_int slot)) \<and>
      length (fx_qo t) = length (sg_qo slot) \<and> length (fx_kv t) = length (sg_kv slot) \<and> length (fx_ln t) = length (sg_ln slot))"

lemma fused_regions:
  assumes "fix_ready a slot m t" "(off, n) \<in> set (plan_regions a (sg_int slot))"
  shows "take n (drop off (fx_ws (fix_ops_fused meta a slot m t))) = take n (drop off (sg_int slot))"
    and "take n (drop off (fx_ws (fix_ops_legacy meta slot m t))) = take n (drop off (sg_int slot))"
proof -
  have fit: "off + n \<le> sg_ext slot" "sg_ext slot \<le> length (sg_int slot)" "length (fx_ws t) = length (sg_int slot)"
    using assms unfolding fix_ready_def list_all_iff by blast+
  have "in_regions (plan_regions a (sg_int slot)) i" if "off \<le> i" "i < off + n" for i
    unfolding in_regions_def list_ex_iff using assms(2) that by force
  then show "take n (drop off (fx_ws (fix_ops_fused meta a slot m t))) = take n (drop off (sg_int slot))"
    using fit fix_plan_nth [of a "sg_int slot" "fx_ws t"]
    by (intro nth_equalityI) (auto simp: fix_ops_fused_def Let_def)
  show "take n (drop off (fx_ws (fix_ops_legacy meta slot m t))) = take n (drop off (sg_int slot))"
    using fit by (intro nth_equalityI) (auto simp: fix_ops_legacy_def nth_append)
qed

lemma plan_index_in:
  assumes "fix_ready a slot m t"
  shows "pa_offs a ! 13 + pa_ncl a < length (sg_int slot)"
  using assms by (auto simp: fix_ready_def plan_regions_def)

text \<open>
  C19. The fused fix-up kernel is the list of operations it replaces: for every body of two to seven rows it leaves the same values in every
  buffer, but for the plan workspace, where it agrees with both the staged plan and the full copy over the region the
  attention kernel reads, and keeps every other word.
\<close>

theorem fused_fixups_legacy:
  assumes "fused_prepare t slot = Inr a" and "fix_ready a slot m t"
  shows "(fix_ops_fused meta a slot m t)\<lparr>fx_ws := fx_ws (fix_ops_legacy meta slot m t)\<rparr> = fix_ops_legacy meta slot m t \<and>
    fst (mla_valid_equal (fx_ws (fix_ops_legacy meta slot m t)) (fx_ws (fix_ops_fused meta a slot m t)) (sg_info slot)) \<and>
    fst (mla_valid_equal (sg_int slot) (fx_ws (fix_ops_fused meta a slot m t)) (sg_info slot)) \<and>
    map (\<lambda>i. fx_ws (fix_ops_fused meta a slot m t) ! i) (filter (\<lambda>i. \<not> in_regions (plan_regions a (sg_int slot)) i) [0..<length (fx_ws t)]) =
    map (\<lambda>i. fx_ws t ! i) (filter (\<lambda>i. \<not> in_regions (plan_regions a (sg_int slot)) i) [0..<length (fx_ws t)])"
proof (intro conjI)
  let ?l = "fix_ops_legacy meta slot m t" and ?f = "fix_ops_fused meta a slot m t"
  have a: "plan_args_of (sg_info slot) = Inr a" using assms(1) by (simp add: fused_prepare_def split: if_splits)
  show "?f\<lparr>fx_ws := fx_ws ?l\<rparr> = ?l"
    using assms(2) by (simp add: fix_ops_fused_def fix_ops_legacy_def Let_def dsf_fill_eq [abs_def] dsf_copy_all fix_ready_def sched_meta_def o_def)
  note in_int = plan_index_in [OF assms(2)]
  have len: "length (fx_ws ?l) = length (sg_int slot)"
    using assms(2) by (simp add: fix_ops_legacy_def fix_ready_def)
  have "(pa_offs a ! 13, pa_ncl a + 1) \<in> set (plan_regions a (sg_int slot))" by (simp add: plan_regions_def)
  from fused_regions(2) [OF assms(2) this, where meta = meta]
  have "take (pa_ncl a + 1) (drop (pa_offs a ! 13) (fx_ws ?l)) ! pa_ncl a = take (pa_ncl a + 1) (drop (pa_offs a ! 13) (sg_int slot)) ! pa_ncl a"
    by simp
  then have "fx_ws ?l ! (pa_offs a ! 13 + pa_ncl a) = sg_int slot ! (pa_offs a ! 13 + pa_ncl a)"
    using in_int len by simp
  then have same: "plan_regions a (fx_ws ?l) = plan_regions a (sg_int slot)" by (simp add: plan_regions_def)
  have "mla_valid_equal (fx_ws ?l) (fx_ws ?f) (sg_info slot) = (True, fx_ws ?l ! (pa_offs a ! 13 + pa_ncl a), [])"
    using in_int len by (intro mla_valid_equal_regions [OF a]) (simp_all add: same fused_regions [OF assms(2)])
  then show "fst (mla_valid_equal (fx_ws ?l) (fx_ws ?f) (sg_info slot))" by simp
  have "mla_valid_equal (sg_int slot) (fx_ws ?f) (sg_info slot) = (True, sg_int slot ! (pa_offs a ! 13 + pa_ncl a), [])"
    using in_int by (intro mla_valid_equal_regions [OF a]) (simp_all add: fused_regions [OF assms(2)])
  then show "fst (mla_valid_equal (sg_int slot) (fx_ws ?f) (sg_info slot))" by simp
  show "map (\<lambda>i. fx_ws ?f ! i) (filter (\<lambda>i. \<not> in_regions (plan_regions a (sg_int slot)) i) [0..<length (fx_ws t)]) =
      map (\<lambda>i. fx_ws t ! i) (filter (\<lambda>i. \<not> in_regions (plan_regions a (sg_int slot)) i) [0..<length (fx_ws t)])"
    using fix_plan_nth [of a "sg_int slot" "fx_ws t"] by (simp add: fix_ops_fused_def Let_def)
qed

definition fix_slot_demo :: plan_slot where
  "fix_slot_demo = \<lparr>sg_int = [100, 101, 102, 103, 104, 105, 106, 107, 108, 109, 110, 111, 112, 0, 1, 99], sg_qo = [0, 1], sg_kv = [0, 9],
     sg_ln = [5], sg_ext = 16, sg_info = [1, 1, 0, 4, 8, 12, 16, 20, 24, 28, 32, 36, 40, 44, 48, 52]\<rparr>"

definition fix_bufs_demo :: fix_bufs where
  "fix_bufs_demo = \<lparr>fx_qsl = [0, 8, 8], fx_seq = [40], fx_cu = [0, 8], fx_gdn = [[0, 8]],
     fx_idx = [\<lparr>ix_pr = [8], ix_dsl = [33, 34, 35, 36, 37, 38, 39, 40], ix_csm = Some [1, 2, 3, 4, 5, 6, 7, 8], ix_meta = []\<rparr>],
     fx_slots = [[1, 2, 3, 4, 5, 6, 7, 8]], fx_ctx = [[1, 2, 3, 4, 5, 6, 7, 8]], fx_ws = replicate 16 0,
     fx_qo = [0, 0], fx_kv = [0, 0], fx_ln = [0]\<rparr>"

definition fix_args_demo :: plan_args where
  "fix_args_demo = \<lparr>pa_offs = [0, 1, 2, 8, 9, 10, 11, 12, 3, 4, 5, 6, 7, 13], pa_ncl = 1, pa_nsm = 1\<rparr>"

theorem fused_fixups_legacy_witness:
  "(fix_ops_fused id fix_args_demo fix_slot_demo 3 fix_bufs_demo)
     \<lparr>fx_ws := fx_ws (fix_ops_legacy id fix_slot_demo 3 fix_bufs_demo)\<rparr> = fix_ops_legacy id fix_slot_demo 3 fix_bufs_demo \<and>
   fx_seq (fix_ops_legacy id fix_slot_demo 3 fix_bufs_demo) = [35] \<and>
   fst (mla_valid_equal (sg_int fix_slot_demo) (fx_ws (fix_ops_fused id fix_args_demo fix_slot_demo 3 fix_bufs_demo)) (sg_info fix_slot_demo))"
proof -
  have a: "fused_prepare fix_bufs_demo fix_slot_demo = Inr fix_args_demo"
    by (simp add: fused_prepare_def plan_args_of_def fix_bufs_demo_def fix_slot_demo_def fix_args_demo_def)
  have r: "fix_ready fix_args_demo fix_slot_demo 3 fix_bufs_demo"
    by (simp add: fix_ready_def plan_regions_def upt_rec fix_bufs_demo_def fix_slot_demo_def fix_args_demo_def ds_rows_def)
  show ?thesis using fused_fixups_legacy [OF a r, where meta = id]
    by (simp add: fix_ops_legacy_def sub_first_def fix_bufs_demo_def ds_rows_def)
qed

end
