(* ===== verification/K_Warm.thy ===== *)
theory K_Warm
  imports Adaptive_Sched
begin

text \<open>
  The warm start of the adaptive draft length, \<open>src/overlay/glm_k_warm.py\<close>: around \<open>observe\<close> of the levers policy, the weight of an
  observation falls from that of a plain average, with the seed as \<open>w0\<close> observations, to the constant of the moving average.
\<close>

section \<open>The wrapper\<close>

definition prior_weight :: "env \<Rightarrow> rat" where
  "prior_weight env =
     (let raw = lower (strip (case env ''GLM_LV_WARM'' of None \<Rightarrow> [] | Some w \<Rightarrow> w))
      in if raw \<in> set off_words then 0
         else case py_float raw of Inr x \<Rightarrow> max 0 x | Inl _ \<Rightarrow> if raw \<in> {''on'', ''true'', ''yes''} then 1 else 0)"

definition alpha_eff :: "rat \<Rightarrow> nat \<Rightarrow> rat \<Rightarrow> rat" where
  "alpha_eff alpha n w0 = (if w0 \<le> 0 then alpha else max alpha (1 / (of_nat n + 1 + w0)))"

definition signal_of :: "ak_config \<Rightarrow> string \<Rightarrow> int \<Rightarrow> int \<Rightarrow> rat option" where
  "signal_of c mode num_accepted num_draft =
     (if mode = ''cond'' then
        (let k = ak_k_lo c
         in if num_draft < k \<or> num_accepted < k - 1 then None else Some (if k \<le> num_accepted then 1 else 0))
      else if num_draft \<le> 0 then None else Some (ak_sig c num_accepted num_draft))"

text \<open>The policy with the counts the wrapper keeps in it.\<close>

record warm_policy =
  wm_policy :: ak_policy
  wm_n :: "rid \<Rightarrow> nat option"

definition warm_count :: "warm_policy \<Rightarrow> rid \<Rightarrow> nat" where
  "warm_count w r = (case wm_n w r of None \<Rightarrow> 0 | Some n \<Rightarrow> n)"

definition warm_observe :: "rat \<Rightarrow> string \<Rightarrow> warm_policy \<Rightarrow> rid \<Rightarrow> int \<Rightarrow> int \<Rightarrow> warm_policy \<times> rat" where
  "warm_observe w0 mode w r num_accepted num_draft =
     (if w0 \<le> 0 then (case lv_observe mode (wm_policy w) r num_accepted num_draft of (p, e) \<Rightarrow> (w\<lparr>wm_policy := p\<rparr>, e))
      else case ak_get (wm_policy w) r of (p, st) \<Rightarrow>
        (case signal_of (p_cfg (wm_policy w)) mode num_accepted num_draft of
           None \<Rightarrow> (w\<lparr>wm_policy := p\<rparr>, q_ema st)
         | Some x \<Rightarrow>
             let n = warm_count w r; e = ema_step (alpha_eff (ak_alpha (p_cfg p)) n w0) x (q_ema st)
             in (w\<lparr>wm_policy := p\<lparr>p_state := (p_state p)(r \<mapsto> st\<lparr>q_ema := e\<rparr>), p_cnt := (p_cnt p)\<lparr>n_obs := n_obs (p_cnt p) + 1\<rparr>\<rparr>,
                  wm_n := (wm_n w)(r \<mapsto> n + 1)\<rparr>, e)))"

definition warm_evict :: "warm_policy \<Rightarrow> rid \<Rightarrow> warm_policy" where
  "warm_evict w r = w\<lparr>wm_policy := ak_evict (wm_policy w) r, wm_n := (wm_n w)(r := None)\<rparr>"

section \<open>The policy stays well formed\<close>

lemma signal_of_unit: "ak_valid c \<Longrightarrow> signal_of c mode na nd = Some x \<Longrightarrow> 0 \<le> x \<and> x \<le> 1"
  using ak_sig_unit [of c na nd] by (auto simp: signal_of_def Let_def split: if_splits)

lemma alpha_eff_unit: "0 < alpha \<Longrightarrow> alpha \<le> 1 \<Longrightarrow> 0 < alpha_eff alpha n w0 \<and> alpha_eff alpha n w0 \<le> 1"
  by (simp add: alpha_eff_def divide_le_eq_1 add_pos_nonneg less_max_iff_disj)

lemma lv_observe_inv [preserved]: "ak_inv p \<Longrightarrow> ak_inv (fst (lv_observe sig p r na nd))"
proof -
  assume inv: "ak_inv p"
  obtain p' st where g: "ak_get p r = (p', st)" by fastforce
  note G = ak_get_inv [OF inv g]
  have "0 \<le> ak_alpha (p_cfg p)" "ak_alpha (p_cfg p) \<le> 1" using inv by (auto simp: ak_inv_def ak_valid_def)
  then have "0 \<le> ema_step (ak_alpha (p_cfg p)) x (q_ema st) \<and> ema_step (ak_alpha (p_cfg p)) x (q_ema st) \<le> 1" if "x \<in> {0, 1}" for x
    using that G by (intro ema_step_unit) auto
  then show ?thesis using G ak_observe_inv [OF inv]
    by (auto simp: lv_observe_def g Let_def intro!: ak_inv_upd_state)
qed

lemma warm_observe_inv [preserved]: "ak_inv (wm_policy w) \<Longrightarrow> ak_inv (wm_policy (fst (warm_observe w0 mode w r na nd)))"
proof -
  assume inv: "ak_inv (wm_policy w)"
  let ?c = "p_cfg (wm_policy w)"
  obtain p st where g: "ak_get (wm_policy w) r = (p, st)" by fastforce
  note G = ak_get_inv [OF inv g]
  have v: "ak_valid ?c" using inv by (simp add: ak_inv_def)
  have "0 \<le> ema_step (alpha_eff (ak_alpha ?c) n w0) x (q_ema st) \<and> ema_step (alpha_eff (ak_alpha ?c) n w0) x (q_ema st) \<le> 1"
    if "signal_of ?c mode na nd = Some x" for n x
    using alpha_eff_unit [of "ak_alpha ?c" n w0] signal_of_unit [OF v that] G v
    by (intro ema_step_unit) (auto simp: ak_valid_def)
  then show ?thesis using G lv_observe_inv [OF inv, of mode r na nd]
    by (auto simp: warm_observe_def g Let_def split: option.splits prod.splits intro!: ak_inv_upd_state)
qed

lemma warm_evict_inv [preserved]: "ak_inv (wm_policy w) \<Longrightarrow> ak_inv (wm_policy (warm_evict w r))"
  by (simp add: warm_evict_def ak_evict_inv)

section \<open>What the average is\<close>

definition warm_ema :: "warm_policy \<Rightarrow> rid \<Rightarrow> rat" where
  "warm_ema w r = (case p_state (wm_policy w) r of None \<Rightarrow> ak_seed (p_cfg (wm_policy w)) | Some st \<Rightarrow> q_ema st)"

definition warm_run :: "rat \<Rightarrow> string \<Rightarrow> rid \<Rightarrow> (int \<times> int) list \<Rightarrow> warm_policy \<Rightarrow> warm_policy" where
  "warm_run w0 mode r obs w = fold (\<lambda>(na, nd) v. fst (warm_observe w0 mode v r na nd)) obs w"

definition folded_signals :: "ak_config \<Rightarrow> string \<Rightarrow> (int \<times> int) list \<Rightarrow> rat list" where
  "folded_signals c mode obs = List.map_filter (\<lambda>(na, nd). signal_of c mode na nd) obs"

lemma ak_get_ema: "ak_get p r = (p', st) \<Longrightarrow> p_cfg p' = p_cfg p \<and> p_state p' r = Some st \<and>
    q_ema st = (case p_state p r of None \<Rightarrow> ak_seed (p_cfg p) | Some s \<Rightarrow> q_ema s)"
  by (auto simp: ak_get_def Let_def split: option.splits)

lemma warm_observe_step:
  assumes "0 < w0"
  shows "p_cfg (wm_policy (fst (warm_observe w0 mode w r na nd))) = p_cfg (wm_policy w)"
    and "signal_of (p_cfg (wm_policy w)) mode na nd = None \<Longrightarrow>
      warm_ema (fst (warm_observe w0 mode w r na nd)) r = warm_ema w r \<and> warm_count (fst (warm_observe w0 mode w r na nd)) r = warm_count w r"
    and "signal_of (p_cfg (wm_policy w)) mode na nd = Some x \<Longrightarrow>
      warm_ema (fst (warm_observe w0 mode w r na nd)) r =
        ema_step (alpha_eff (ak_alpha (p_cfg (wm_policy w))) (warm_count w r) w0) x (warm_ema w r) \<and>
      warm_count (fst (warm_observe w0 mode w r na nd)) r = warm_count w r + 1"
proof -
  obtain p st where g: "ak_get (wm_policy w) r = (p, st)" by fastforce
  note G = ak_get_ema [OF g]
  show "p_cfg (wm_policy (fst (warm_observe w0 mode w r na nd))) = p_cfg (wm_policy w)"
    using assms G by (simp add: warm_observe_def g Let_def split: option.splits)
  show "signal_of (p_cfg (wm_policy w)) mode na nd = None \<Longrightarrow>
      warm_ema (fst (warm_observe w0 mode w r na nd)) r = warm_ema w r \<and> warm_count (fst (warm_observe w0 mode w r na nd)) r = warm_count w r"
    using assms G by (simp add: warm_observe_def g warm_ema_def warm_count_def)
  show "signal_of (p_cfg (wm_policy w)) mode na nd = Some x \<Longrightarrow>
      warm_ema (fst (warm_observe w0 mode w r na nd)) r =
        ema_step (alpha_eff (ak_alpha (p_cfg (wm_policy w))) (warm_count w r) w0) x (warm_ema w r) \<and>
      warm_count (fst (warm_observe w0 mode w r na nd)) r = warm_count w r + 1"
    using assms G by (simp add: warm_observe_def g warm_ema_def Let_def) (simp add: warm_count_def)
qed

lemma average_step:
  fixes w0 :: rat
  assumes "0 < w0" "alpha * (w0 + of_nat (Suc n)) \<le> 1"
  shows "ema_step (alpha_eff alpha n w0) x ((w0 * seed + s) / (w0 + of_nat n)) = (w0 * seed + (s + x)) / (w0 + of_nat (Suc n))"
proof -
  have d: "0 < w0 + of_nat n" "0 < w0 + of_nat n + 1" using assms(1) by (simp_all add: add_pos_nonneg)
  have "alpha \<le> 1 / (of_nat n + 1 + w0)" using assms d by (simp add: pos_le_divide_eq algebra_simps)
  then have a: "alpha_eff alpha n w0 = 1 / (w0 + of_nat n + 1)" using assms(1) by (simp add: alpha_eff_def max_def algebra_simps)
  have "1 - 1 / (w0 + of_nat n + 1) = (w0 + of_nat n) / (w0 + of_nat n + 1)" using d by (simp add: field_simps)
  then have "(1 - 1 / (w0 + of_nat n + 1)) * ((w0 * seed + s) / (w0 + of_nat n)) = (w0 * seed + s) / (w0 + of_nat n + 1)"
    using d by simp
  then have "ema_step (1 / (w0 + of_nat n + 1)) x ((w0 * seed + s) / (w0 + of_nat n)) = x / (w0 + of_nat n + 1) + (w0 * seed + s) / (w0 + of_nat n + 1)"
    unfolding ema_step_def by (simp only:) simp
  also have "\<dots> = (w0 * seed + (s + x)) / (w0 + of_nat (Suc n))" by (simp add: add_divide_distrib [symmetric] algebra_simps)
  finally show ?thesis by (simp only: a)
qed

lemma warm_run_average:
  assumes "0 < w0" "p_state (wm_policy w) r = None" "wm_n w r = None"
  shows "ak_alpha (p_cfg (wm_policy w)) * (w0 + of_nat (length (folded_signals (p_cfg (wm_policy w)) mode obs))) \<le> 1 \<Longrightarrow>
    p_cfg (wm_policy (warm_run w0 mode r obs w)) = p_cfg (wm_policy w) \<and>
    warm_count (warm_run w0 mode r obs w) r = length (folded_signals (p_cfg (wm_policy w)) mode obs) \<and>
    warm_ema (warm_run w0 mode r obs w) r =
      (w0 * ak_seed (p_cfg (wm_policy w)) + sum_list (folded_signals (p_cfg (wm_policy w)) mode obs)) /
      (w0 + of_nat (length (folded_signals (p_cfg (wm_policy w)) mode obs)))"
proof (induction obs rule: rev_induct)
  case Nil
  then show ?case using assms by (simp add: warm_run_def folded_signals_def map_filter_simps warm_count_def warm_ema_def)
next
  case (snoc o' obs)
  obtain na nd where o': "o' = (na, nd)" by (cases o')
  let ?c = "p_cfg (wm_policy w)" and ?v = "warm_run w0 mode r obs w"
  have run: "warm_run w0 mode r (obs @ [o']) w = fst (warm_observe w0 mode ?v r na nd)" by (simp add: warm_run_def o')
  have snoc': "folded_signals ?c mode (obs @ [o']) =
      folded_signals ?c mode obs @ (case signal_of ?c mode na nd of None \<Rightarrow> [] | Some x \<Rightarrow> [x])"
    by (simp add: folded_signals_def List.map_filter_def o' split: option.splits)
  let ?n = "length (folded_signals ?c mode obs)"
  have "0 < ak_alpha ?c \<or> ak_alpha ?c \<le> 0" by auto
  then have "ak_alpha ?c * (w0 + of_nat ?n) \<le> 1"
  proof
    assume "0 < ak_alpha ?c"
    then have "ak_alpha ?c * (w0 + of_nat ?n) \<le> ak_alpha ?c * (w0 + of_nat (length (folded_signals ?c mode (obs @ [o']))))"
      by (intro mult_left_mono) (simp_all add: snoc')
    then show ?thesis using snoc.prems by linarith
  next
    assume "ak_alpha ?c \<le> 0"
    then have "ak_alpha ?c * (w0 + of_nat ?n) \<le> 0" using assms(1) by (intro mult_nonpos_nonneg) simp_all
    then show ?thesis by linarith
  qed
  note IH = snoc.IH [OF this]
  show ?case
  proof (cases "signal_of ?c mode na nd")
    case None
    then show ?thesis using IH warm_observe_step(1,2) [where w = ?v and r = r and mode = mode and na = na and nd = nd, OF assms(1)] by (simp add: run snoc')
  next
    case (Some x)
    have "ak_alpha ?c * (w0 + of_nat (Suc ?n)) \<le> 1" using snoc.prems by (simp add: snoc' Some)
    from average_step [OF assms(1) this] show ?thesis
      using IH Some warm_observe_step(1,3) [where w = ?v and r = r and mode = mode and na = na and nd = nd, OF assms(1)] by (simp add: run snoc')
  qed
qed

text \<open>Once the constant weight is the larger one, an observation is the deployed one.\<close>

lemma warm_observe_stock:
  assumes "w0 \<le> 0 \<or> 1 \<le> ak_alpha (p_cfg (wm_policy w)) * (of_nat (warm_count w r) + 1 + w0)"
  shows "wm_policy (fst (warm_observe w0 mode w r na nd)) = fst (lv_observe mode (wm_policy w) r na nd)"
proof (cases "w0 \<le> 0")
  case True
  then show ?thesis by (simp add: warm_observe_def split: prod.split)
next
  case False
  obtain p st where g: "ak_get (wm_policy w) r = (p, st)" by fastforce
  note G = ak_get_ema [OF g]
  have "0 < of_nat (warm_count w r) + 1 + w0" using False by (simp add: add_nonneg_pos)
  then have "1 / (of_nat (warm_count w r) + 1 + w0) \<le> ak_alpha (p_cfg (wm_policy w))"
    using assms False by (simp add: pos_divide_le_eq)
  then have "alpha_eff (ak_alpha (p_cfg (wm_policy w))) (warm_count w r) w0 = ak_alpha (p_cfg (wm_policy w))"
    by (simp add: alpha_eff_def max_def)
  then show ?thesis using False G
    by (auto simp: warm_observe_def lv_observe_def ak_observe_def g signal_of_def Let_def)
qed

text \<open>
  Warm start: while the moving average has not taken over, the average of a request is the plain mean of its observations with the
  seed counted as \<open>w0\<close> of them; once its own memory is shorter, an observation does exactly what the deployed policy does.
\<close>

lemma warm_average:
  fixes w0 :: rat and w :: warm_policy and obs :: "(int \<times> int) list" and mode r :: string
  defines "c \<equiv> p_cfg (wm_policy w)" and "xs \<equiv> folded_signals (p_cfg (wm_policy w)) mode obs" and "v \<equiv> warm_run w0 mode r obs w"
  assumes "0 < w0" and "p_state (wm_policy w) r = None" and "wm_n w r = None" and "ak_alpha c * (w0 + of_nat (length xs)) \<le> 1"
  shows "warm_ema v r = (w0 * ak_seed c + sum_list xs) / (w0 + of_nat (length xs)) \<and> warm_count v r = length xs \<and>
    (1 \<le> ak_alpha c * (of_nat (length xs) + 1 + w0) \<longrightarrow>
       wm_policy (fst (warm_observe w0 mode v r na nd)) = fst (lv_observe mode (wm_policy v) r na nd))"
  using warm_run_average [OF assms(4-6), of mode obs] assms(7) warm_observe_stock [of w0 v r mode na nd]
  by (simp add: c_def xs_def v_def)

definition warm_demo :: warm_policy where
  "warm_demo = \<lparr>wm_policy = ak_new ak_default, wm_n = Map.empty\<rparr>"

text \<open>With the defaults and \<open>w0 = 1\<close>, two steps without an accepted draft bring a request to a third, below the lower threshold.\<close>

lemma warm_average_example:
  "warm_ema (warm_run 1 ''pos'' ''r'' [(0, 3), (0, 3)] warm_demo) ''r'' = 1 / 3 \<and> (1 / 3 :: rat) < ak_down ak_default"
  using warm_average [of 1 warm_demo "''r''" "''pos''" "[(0, 3), (0, 3)]"]
  by (simp add: warm_demo_def ak_new_def ak_default_def folded_signals_def map_filter_simps signal_of_def ak_sig_def Let_def)

end
