(* ===== verification/Ds_Split.thy ===== *)
theory Ds_Split
  imports Py_Str "HOL-Library.AList"
begin

text \<open>
  Replicated linear layers split by output columns over the ranks, \<open>src/overlay/glm_ds_split.py\<close>, with the eligibility fix and the
  unchecked parts of \<open>src/overlay/glm_levers.py\<close>. A weight is the list of its rows (one per output column); \<open>mm W x\<close> is the
  library's product, one list of \<open>length W\<close> numbers per row of \<open>x\<close>. The ranks of a group are a list.
\<close>

section \<open>Configuration\<close>

definition part_default_max :: "(string \<times> int) list" where
  "part_default_max = [(''fc'', 128), (''qkv_a'', 64), (''wq_b'', 16)]"

definition split_item :: "string \<Rightarrow> (string \<times> int) list \<Rightarrow> (string \<times> int) list result" where
  "split_item raw d =
     (let item = strip raw
      in if item \<in> {'''', ''0'', ''off''} then Inr d
         else if item \<in> {''1'', ''all''} then Inr (fold (\<lambda>(k, v). AList.update k v) part_default_max d)
         else case partition_on (CHR '':'') item of (name0, _, mx) \<Rightarrow>
           (let name = strip name0
            in case map_of part_default_max name of
                 None \<Rightarrow> Inl ValueError
               | Some dflt \<Rightarrow>
                   bind_r (if strip mx = [] then Inr dflt else py_int mx) (\<lambda>v.
                     if 1 \<le> v \<and> v \<le> 4096 then Inr (AList.update name v d) else Inl ValueError)))"

fun split_items :: "string list \<Rightarrow> (string \<times> int) list \<Rightarrow> (string \<times> int) list result" where
  "split_items [] d = Inr d"
| "split_items (i # is) d = bind_r (split_item i d) (split_items is)"

definition parse_split_spec :: "string \<Rightarrow> (string \<times> int) list result" where
  "parse_split_spec spec = split_items (split_on (CHR '','') spec) []"

section \<open>Which layers\<close>

record 'w split_module =
  sm_id :: nat
  sm_class :: string
  sm_quant :: "string option"
  sm_bf16 :: bool
  sm_bias :: bool
  sm_min_latency :: bool
  sm_gather_output :: bool
  sm_tp_size :: int
  sm_weight :: "'w list"

definition classify :: "string \<Rightarrow> 'w split_module \<Rightarrow> string option" where
  "classify name m =
     (if ends_with ''.fused_qkv_a_proj'' name \<and> sm_class m = ''DeepSeekV2FusedQkvAProjLinear'' then Some ''qkv_a''
      else if ends_with ''.indexer.wq_b'' name \<and> sm_class m = ''ReplicatedLinear'' then Some ''wq_b''
      else if (name = ''model.fc'' \<or> ends_with ''.model.fc'' name) \<and> sm_class m = ''ReplicatedLinear'' then Some ''fc''
      else None)"

datatype why = Quantized | NotBf16 | HasBias | MinLatency | NotReplicated | NotMultiple

definition eligible_stock :: "'w split_module \<Rightarrow> why option" where
  "eligible_stock m =
     (if sm_quant m \<noteq> Some ''UnquantizedLinearMethod'' then Some Quantized
      else if \<not> sm_bf16 m then Some NotBf16
      else if sm_bias m then Some HasBias
      else if sm_min_latency m then Some MinLatency
      else if sm_gather_output m \<or> sm_tp_size m \<noteq> 1 then Some NotReplicated
      else None)"

text \<open>\<open>install_split_fix\<close> wraps it.\<close>

definition eligible :: "bool \<Rightarrow> 'w split_module \<Rightarrow> why option" where
  "eligible split_fix m =
     (let w = eligible_stock m
      in if split_fix \<and> w = Some NotReplicated \<and> sm_class m = ''ReplicatedLinear'' \<and> \<not> sm_gather_output m then None else w)"

definition col_range :: "nat \<Rightarrow> nat \<Rightarrow> nat \<Rightarrow> (nat \<times> nat) result" where
  "col_range n rank world =
     (if n mod world \<noteq> 0 then Inl ValueError else let loc = n div world in Inr (rank * loc, (rank + 1) * loc))"

text \<open>The named modules of the model in order, each module once.\<close>

fun split_candidates_from :: "(string \<times> int) list \<Rightarrow> (string \<times> 'w split_module) list \<Rightarrow> nat set \<Rightarrow> (string \<times> string \<times> 'w split_module) list" where
  "split_candidates_from parts [] seen = []"
| "split_candidates_from parts ((name, m) # ms) seen =
     (case classify name m of
        None \<Rightarrow> split_candidates_from parts ms seen
      | Some part \<Rightarrow>
          if part \<notin> fst ` set parts \<or> sm_id m \<in> seen then split_candidates_from parts ms seen
          else (name, part, m) # split_candidates_from parts ms (insert (sm_id m) seen))"

definition split_candidates :: "(string \<times> int) list \<Rightarrow> (string \<times> 'w split_module) list \<Rightarrow> (string \<times> string \<times> 'w split_module) list" where
  "split_candidates parts model = split_candidates_from parts model {}"

section \<open>Checking a slice\<close>

text \<open>
  \<open>probe r\<close> are the random inputs of \<open>r\<close> rows, one per seed; \<open>inexact\<close> the parts whose check is skipped.
\<close>

record ('w, 'x, 'y) split_env =
  se_mm :: "'w list \<Rightarrow> 'x \<Rightarrow> 'y list list"
  se_probe :: "nat \<Rightarrow> 'x list"
  se_fix :: bool
  se_inexact :: "string set"
  se_exact :: bool
  se_crc :: "string \<Rightarrow> int"

definition check_rows :: "('w, 'x, 'y) split_env \<Rightarrow> 'w list \<Rightarrow> 'w list \<Rightarrow> nat \<Rightarrow> nat \<Rightarrow> nat \<Rightarrow> bool list" where
  "check_rows env weight w_slice c0 c1 max_rows =
     map (\<lambda>r. list_all (\<lambda>x. map (\<lambda>row. py_slice row c0 c1) (se_mm env weight x) = se_mm env w_slice x) (se_probe env r)) [1..<Suc max_rows]"

definition split_slice :: "('w, 'x, 'y) split_env \<Rightarrow> nat \<Rightarrow> nat \<Rightarrow> 'w split_module \<Rightarrow> (nat \<times> nat) option" where
  "split_slice env world rank m =
     (let n = length (sm_weight m)
      in if eligible (se_fix env) m \<noteq> None \<or> n mod (world * 8) \<noteq> 0 then None
         else case col_range n rank world of Inr cs \<Rightarrow> Some cs | Inl _ \<Rightarrow> None)"

definition part_lim :: "(string \<times> int) list \<Rightarrow> string \<Rightarrow> nat" where
  "part_lim parts part = nat (the (map_of parts part))"

definition split_max_rows :: "(string \<times> int) list \<Rightarrow> nat" where
  "split_max_rows parts = nat (Max (snd ` set parts))"

text \<open>The row of flags of one candidate on one rank, before the ranks agree.\<close>

definition split_flags ::
    "('w, 'x, 'y) split_env \<Rightarrow> (string \<times> int) list \<Rightarrow> nat \<Rightarrow> nat \<Rightarrow> string \<times> string \<times> 'w split_module \<Rightarrow> nat list" where
  "split_flags env parts world rank cand =
     (case cand of (name, part, m) \<Rightarrow>
        let lim = part_lim parts part; total = split_max_rows parts
        in case split_slice env world rank m of
             None \<Rightarrow> replicate total 0
           | Some (c0, c1) \<Rightarrow>
               let ok = (if se_exact env \<and> part \<notin> se_inexact env
                         then check_rows env (sm_weight m) (py_slice (sm_weight m) c0 c1) c0 c1 lim else replicate lim True)
               in map of_bool ok @ replicate (total - lim) 0)"

definition agree_min :: "nat list list list \<Rightarrow> nat list list" where
  "agree_min ranks = foldl (map2 (map2 min)) (hd ranks) (tl ranks)"

text \<open>What is installed on a layer: the row counts that are split and the slice.\<close>

definition split_install ::
    "('w, 'x, 'y) split_env \<Rightarrow> (string \<times> int) list \<Rightarrow> nat \<Rightarrow> nat \<Rightarrow> string \<times> string \<times> 'w split_module \<Rightarrow> nat list \<Rightarrow>
      (nat list \<times> 'w list) option" where
  "split_install env parts world rank cand flags =
     (case cand of (name, part, m) \<Rightarrow>
        (case split_slice env world rank m of
           None \<Rightarrow> None
         | Some (c0, c1) \<Rightarrow>
             let rows = map Suc (filter (\<lambda>r. flags ! r = 1) [0..<part_lim parts part])
             in if rows = [] then None else Some (rows, py_slice (sm_weight m) c0 c1)))"

section \<open>The group\<close>

text \<open>
  \<open>split_model\<close> on all ranks. A rank without candidates returns before the first collective; with peers that have some, nobody answers
  them, which is \<open>None\<close>. The result gives every rank what it installed, candidate by candidate.
\<close>

definition split_model ::
    "('w, 'x, 'y) split_env \<Rightarrow> (string \<times> int) list \<Rightarrow> (string \<times> 'w split_module) list list \<Rightarrow>
      (nat list \<times> 'w list) option list list result option" where
  "split_model env parts models =
     (let world = length models; cands = map (split_candidates parts) models;
          sigs = map (\<lambda>cs. (length cs, se_crc env (join ''|'' (map fst cs)))) cands
      in if list_all (\<lambda>cs. cs = []) cands then Some (Inr (map (\<lambda>_. []) models))
         else if list_ex (\<lambda>cs. cs = []) cands then None
         else if (Min (set (map fst sigs)), Min (set (map snd sigs))) \<noteq> (Max (set (map fst sigs)), Max (set (map snd sigs)))
         then Some (Inl RuntimeError)
         else let flags = agree_min (map (\<lambda>(rank, cs). map (split_flags env parts world rank) cs) (enumerate 0 cands))
              in Some (Inr (map (\<lambda>(rank, cs). map2 (split_install env parts world rank) cs flags) (enumerate 0 cands))))"







section \<open>The ranks agree\<close>



























definition split_env_demo :: "(nat, nat list, nat) split_env" where
  "split_env_demo = \<lparr>se_mm = (\<lambda>W x. map (\<lambda>v. map (\<lambda>w. w * v) W) x), se_probe = (\<lambda>r. [replicate r 1, replicate r 7]), se_fix = True,
     se_inexact = {}, se_exact = True, se_crc = (\<lambda>s. int (length s))\<rparr>"

definition split_fc_demo :: "nat split_module" where
  "split_fc_demo = \<lparr>sm_id = 0, sm_class = ''ReplicatedLinear'', sm_quant = Some ''UnquantizedLinearMethod'', sm_bf16 = True, sm_bias = False,
     sm_min_latency = False, sm_gather_output = False, sm_tp_size = 2, sm_weight = [0..<16]\<rparr>"


text \<open>A rank that finds no candidate leaves before the first collective, where its peers then wait.\<close>

lemma split_empty_rank: "split_model split_env_demo [(''fc'', 2)] [[(''model.fc'', split_fc_demo)], []] = None"
  by (simp add: split_model_def split_candidates_def classify_def split_fc_demo_def ends_with_def starts_with_def)

end
