(* ===== verification/Min_Tokens.thy ===== *)
theory Min_Tokens
  imports Target_Argmax
begin

text \<open>
  Greedy steps with \<open>min_tokens\<close> on the vocabulary-parallel path, \<open>src/overlay/glm_levers.py\<close> (\<open>GLM_LV_ARGMAX_MINTOK\<close>) around
  \<open>glm_target_argmax.py\<close>: which batches are admitted, and the stop tokens masked on each rank's shard, by a kernel or by tensor
  operations. vLLM's own bias kernel is not in the repository and enters as a function with the rule it documents.
\<close>

section \<open>Admission\<close>

text \<open>What vLLM's sampler states hold of a request slot.\<close>

record slot_state =
  ss_penalty :: bool
  ss_bad_words :: nat
  ss_temperature :: rat
  ss_min_p :: rat
  ss_top_k :: nat
  ss_top_p :: rat
  ss_use_bias :: bool
  ss_allowed :: nat
  ss_biased :: nat
  ss_min_len :: int
  ss_stops :: "int list"
  ss_num_stops :: nat

definition requires_logits_processing_wo_bias :: "nat \<Rightarrow> (int \<Rightarrow> slot_state) \<Rightarrow> int list \<Rightarrow> bool" where
  "requires_logits_processing_wo_bias vocab s idx =
     (list_ex (\<lambda>i. ss_penalty (s i)) idx \<or> list_ex (\<lambda>i. 0 < ss_bad_words (s i)) idx \<or>
      list_ex (\<lambda>i. ss_temperature (s i) \<noteq> 0 \<and> ss_temperature (s i) \<noteq> 1) idx \<or> list_ex (\<lambda>i. ss_min_p (s i) \<noteq> 0) idx \<or>
      list_ex (\<lambda>i. ss_top_k (s i) \<noteq> vocab) idx \<or> list_ex (\<lambda>i. ss_top_p (s i) \<noteq> 1) idx)"

definition mintok_only :: "(int \<Rightarrow> slot_state) \<Rightarrow> int list \<Rightarrow> bool" where
  "mintok_only s idx =
     (list_ex (\<lambda>i. ss_use_bias (s i)) idx \<and> \<not> list_ex (\<lambda>i. 0 < ss_allowed (s i)) idx \<and> \<not> list_ex (\<lambda>i. 0 < ss_biased (s i)) idx)"

text \<open>The wrapped \<open>plan\<close>: what the original sees, and whether its answer is taken with the mask.\<close>

definition mintok_admits :: "sample_view \<Rightarrow> (int \<Rightarrow> slot_state) \<Rightarrow> bool" where
  "mintok_admits v s =
     (sv_sampler v \<and> \<not> sv_grammar v \<and> sv_idx v \<noteq> [] \<and> \<not> list_ex (\<lambda>i. i < 0) (sv_idx v) \<and> mintok_only s (sv_idx v))"

definition mintok_view :: "nat \<Rightarrow> sample_view \<Rightarrow> (int \<Rightarrow> slot_state) \<Rightarrow> sample_view" where
  "mintok_view vocab v s =
     (if mintok_admits v s then v\<lparr>sv_processing := requires_logits_processing_wo_bias vocab s (sv_idx v)\<rparr> else v)"

section \<open>The mask\<close>

text \<open>\<open>mask_stop_torch\<close> on a row: one store per column of the stop ids.\<close>

definition mask_row_torch :: "int \<Rightarrow> slot_state \<Rightarrow> int \<Rightarrow> fval list \<Rightarrow> fval list" where
  "mask_row_torch start st pos row =
     (let n = ss_num_stops st; active = (pos + 1 < ss_min_len st \<and> 0 < n)
      in fold (\<lambda>c r. let loc = ss_stops st ! c - start
                     in if active \<and> c < n \<and> 0 \<le> loc \<and> loc < int (length row) then r[nat loc := NegInf] else r)
           [0..<length (ss_stops st)] row)"

text \<open>\<open>_mintok_mask_kernel\<close>: a block of lanes, a power of two at least as wide as the stop ids.\<close>

definition mask_row_kernel :: "int \<Rightarrow> slot_state \<Rightarrow> int \<Rightarrow> fval list \<Rightarrow> fval list" where
  "mask_row_kernel start st pos row =
     (let n = ss_num_stops st; block = next_pow2 (length (ss_stops st)) (length (ss_stops st))
      in if 0 < n \<and> pos + 1 < ss_min_len st
         then fold (\<lambda>b r. let loc = (if b < n then ss_stops st ! b else 0) - start
                          in if b < n \<and> 0 \<le> loc \<and> loc < int (length row) then r[nat loc := NegInf] else r)
                [0..<block] row
         else row)"

definition mask_stop :: "bool \<Rightarrow> int \<Rightarrow> (int \<Rightarrow> slot_state) \<Rightarrow> int list \<Rightarrow> int list \<Rightarrow> fval list list \<Rightarrow> fval list list" where
  "mask_stop cuda start s eidx pos rows =
     map (\<lambda>r. (if cuda then mask_row_kernel else mask_row_torch) start (s (eidx ! r)) (pos ! r) (rows ! r)) [0..<length rows]"

text \<open>
  The wrapped \<open>sample\<close> on one rank: an admitted batch takes the fast path on the masked shard, any other the original hook.
\<close>

definition mintok_sample ::
    "bool \<Rightarrow> bool \<Rightarrow> nat \<Rightarrow> string \<Rightarrow> sample_view \<Rightarrow> (int \<Rightarrow> slot_state) \<Rightarrow> int list \<Rightarrow> int list \<Rightarrow> int list list \<Rightarrow> fval list list \<Rightarrow> nat \<Rightarrow>
      nat \<Rightarrow> ((fval \<times> fval) list \<Rightarrow> (fval \<times> fval) list list) \<Rightarrow> int list \<Rightarrow> bool list option \<Rightarrow> nat list \<Rightarrow> (nat \<times> int list) list \<Rightarrow>
      (nat \<times> int list) list" where
  "mintok_sample triton cuda vocab mode v s eidx pos outs shard start tp gather draft dead cu stock =
     (let shard1 = (if mintok_admits v s then mask_stop cuda (int start) s eidx pos shard else shard)
      in hooked_sample mode (mintok_view vocab v s)
           (\<lambda>reject width. fast_sample triton cuda outs reject width shard1 start tp gather draft dead cu (length cu - 1)) stock)"

section \<open>Both masks are the rule\<close>

definition stopped :: "slot_state \<Rightarrow> int \<Rightarrow> int \<Rightarrow> bool" where
  "stopped st pos tok = (pos + 1 < ss_min_len st \<and> tok \<in> set (take (ss_num_stops st) (ss_stops st)))"

definition mask_rule :: "int \<Rightarrow> slot_state \<Rightarrow> int \<Rightarrow> fval list \<Rightarrow> fval list" where
  "mask_rule start st pos row = map (\<lambda>j. if stopped st pos (start + int j) then NegInf else row ! j) [0..<length row]"

lemma fold_stores:
  "(\<And>c. c \<in> set cs \<Longrightarrow> on c \<Longrightarrow> pl c < length row) \<Longrightarrow>
   fold (\<lambda>c r. if on c then r[pl c := v] else r) cs row =
   map (\<lambda>j. if \<exists>c\<in>set cs. on c \<and> pl c = j then v else row ! j) [0..<length row]"
proof (induction cs rule: rev_induct)
  case (snoc c cs)
  then show ?case by (auto simp: nth_list_update intro!: nth_equalityI)
qed (simp add: map_nth)

lemma stores_rule:
  assumes "\<And>c. c < m \<Longrightarrow> on c \<longleftrightarrow> pos + 1 < ss_min_len st \<and> c < ss_num_stops st \<and> start \<le> ss_stops st ! c \<and> ss_stops st ! c - start < int (length row)"
    and "\<And>c. c < m \<Longrightarrow> on c \<Longrightarrow> pl c = nat (ss_stops st ! c - start)" and "ss_num_stops st \<le> length (ss_stops st)" "ss_num_stops st \<le> m"
  shows "fold (\<lambda>c r. if on c then r[pl c := NegInf] else r) [0..<m] row = mask_rule start st pos row"
proof -
  have "(\<exists>c\<in>set [0..<m]. on c \<and> pl c = j) \<longleftrightarrow> stopped st pos (start + int j)" if "j < length row" for j
  proof
    assume "\<exists>c\<in>set [0..<m]. on c \<and> pl c = j"
    then obtain c where c: "c < m" "on c" "pl c = j" by auto
    then have "ss_stops st ! c = start + int j" using assms(1,2) [of c] by auto
    moreover have "take (ss_num_stops st) (ss_stops st) ! c = ss_stops st ! c" "c < length (take (ss_num_stops st) (ss_stops st))"
      using assms(1) [of c] assms(3) c by auto
    ultimately show "stopped st pos (start + int j)"
      using assms(1) [of c] c nth_mem [of c "take (ss_num_stops st) (ss_stops st)"] by (auto simp: stopped_def)
  next
    assume st: "stopped st pos (start + int j)"
    then obtain c where c: "c < length (take (ss_num_stops st) (ss_stops st))" "take (ss_num_stops st) (ss_stops st) ! c = start + int j"
      by (auto simp: stopped_def in_set_conv_nth)
    then have "c < m" "c < ss_num_stops st" "ss_stops st ! c = start + int j" using assms(4) by auto
    moreover have "on c" using assms(1) [of c] calculation st that by (auto simp: stopped_def)
    ultimately show "\<exists>c\<in>set [0..<m]. on c \<and> pl c = j" using assms(2) [of c] by auto
  qed
  moreover have "pl c < length row" if "c \<in> set [0..<m]" "on c" for c
    using assms(1,2) [of c] that by auto
  ultimately show ?thesis by (subst fold_stores) (auto simp: mask_rule_def)
qed

lemma mask_row_torch_rule: "ss_num_stops st \<le> length (ss_stops st) \<Longrightarrow> mask_row_torch start st pos row = mask_rule start st pos row"
  unfolding mask_row_torch_def Let_def by (rule stores_rule) auto

lemma mask_row_kernel_rule:
  assumes "ss_num_stops st \<le> length (ss_stops st)"
  shows "mask_row_kernel start st pos row = mask_rule start st pos row"
proof (cases "0 < ss_num_stops st \<and> pos + 1 < ss_min_len st")
  case True
  then show ?thesis unfolding mask_row_kernel_def Let_def using next_pow2_ge [of "length (ss_stops st)"] assms
    by (simp only: if_True simp_thms) (rule stores_rule, auto)
next
  case False
  then have "\<not> stopped st pos tok" for tok by (auto simp: stopped_def)
  then show ?thesis using False by (auto simp: mask_row_kernel_def mask_rule_def map_nth Let_def)
qed

lemma mask_stop_rule:
  assumes "\<And>i. ss_num_stops (s i) \<le> length (ss_stops (s i))"
  shows "mask_stop cuda start s eidx pos rows = map (\<lambda>r. mask_rule start (s (eidx ! r)) (pos ! r) (rows ! r)) [0..<length rows]"
  using assms by (simp add: mask_stop_def mask_row_torch_rule mask_row_kernel_rule)

lemma mask_rule_shard:
  assumes "length row = tp * vs" "p < tp"
  shows "mask_rule (int (p * vs)) st pos (shard_of vs p row) = shard_of vs p (mask_rule 0 st pos row)"
proof -
  have top: "p * vs + vs \<le> tp * vs" using mult_right_mono [of "Suc p" tp vs] assms(2) by simp
  have "p * vs \<le> tp * vs" using assms(2) by simp
  with top show ?thesis
    using assms(1) by (intro nth_equalityI) (simp_all add: mask_rule_def shard_of_def)
qed

section \<open>Admitted batches\<close>

text \<open>
  C21. Minimum lengths on the fast path: a batch whose only logit processing is the masking of stop tokens, admitted on every rank's
  shard, emits what the stock path emits from the logits vLLM's bias kernel has masked, by kernel or by tensor operations.
\<close>

theorem mintok_exact:
  fixes logits :: "fval list list" and s :: "int \<Rightarrow> slot_state" and bias :: "fval list list \<Rightarrow> fval list list"
  assumes vocab: "0 < vs" "tp * vs \<le> 2 ^ 24" "p < tp"
    and admitted: "mintok_admits v s"
    and stops: "\<And>i. ss_num_stops (s i) \<le> length (ss_stops (s i))"
    and rule: "bias logits = map (\<lambda>r. map (\<lambda>tok. if stopped (s (eidx ! r)) (pos ! r) (int tok) then NegInf else logits ! r ! tok) [0..<tp * vs])
      [0..<length logits]"
    and rows: "list_all (\<lambda>row. length row = tp * vs) logits"
    and batch: "verify_batch_ok (tp * vs) (bias logits) (mask_dead dead draft) cu local_pos num_spec"
    and out: "out_ok cu num_spec outs" "out_ok cu num_spec outs'"
    and stock: "\<And>reject width. plan (mintok_view (tp * vs) v s) = Inr (reject, width) \<Longrightarrow>
      stock = stock_sample junk outs' reject num_spec (tp * vs) (bias logits) (mask_dead dead draft) cu local_pos"
    and spec: "\<And>a b n. sv_rejection v = Some (a, b, n) \<Longrightarrow> n = num_spec"
    and gather: "gather (local_pairs triton (map (shard_of vs p) (bias logits)) (p * vs)) =
      map (\<lambda>j. map (\<lambda>q. local_pairs triton (map (shard_of vs q) (bias logits)) (q * vs) ! j) [0..<tp]) [0..<length (bias logits)]"
  shows "map emitted (mintok_sample triton cuda (tp * vs) mode v s eidx pos outs (map (shard_of vs p) logits) (p * vs) tp gather draft dead cu
      stock) = map emitted stock"
proof -
  have "mask_stop cuda (int (p * vs)) s eidx pos (map (shard_of vs p) logits) =
      map (\<lambda>r. shard_of vs p (mask_rule 0 (s (eidx ! r)) (pos ! r) (logits ! r))) [0..<length logits]"
    using mask_rule_shard [OF _ vocab(3)] rows by (simp add: mask_stop_rule [OF stops] list_all_length)
  also have "\<dots> = map (shard_of vs p) (bias logits)"
    using rows by (simp add: rule mask_rule_def list_all_length)
  finally have shard: "mask_stop cuda (int (p * vs)) s eidx pos (map (shard_of vs p) logits) = map (shard_of vs p) (bias logits)" .
  have view: "sv_rejection (mintok_view (tp * vs) v s) = Some (a, b, n) \<Longrightarrow> n = num_spec" for a b n
    using spec by (simp add: mintok_view_def split: if_splits)
  show ?thesis unfolding mintok_sample_def Let_def
    using hooked_sample_exact [where gather = gather and triton = triton and mode = mode and cuda = cuda, OF vocab batch out stock view gather] admitted shard by simp
qed

definition demo_slot :: slot_state where
  "demo_slot = \<lparr>ss_penalty = False, ss_bad_words = 0, ss_temperature = 0, ss_min_p = 0, ss_top_k = 4, ss_top_p = 1, ss_use_bias = True,
     ss_allowed = 0, ss_biased = 0, ss_min_len = 100, ss_stops = [1, 0], ss_num_stops = 1\<rparr>"

definition demo_masked :: "fval list list" where
  "demo_masked = [[Fin 1, NegInf, Fin 3, Fin 0], [Fin 2, NegInf, Fin 5, Fin 5]]"

definition demo_mask_gather :: "(fval \<times> fval) list \<Rightarrow> (fval \<times> fval) list list" where
  "demo_mask_gather pairs = map (\<lambda>j. map (\<lambda>q. local_pairs True (map (shard_of 2 q) demo_masked) (q * 2) ! j) [0..<2]) [0..<length demo_masked]"

theorem mintok_exact_witness:
  "map emitted (mintok_sample True True (2 * 2) ''1'' (demo_view\<lparr>sv_processing := True\<rparr>) (\<lambda>_. demo_slot) [3, 3] [5, 6] [[0, 0]]
      (map (shard_of 2 0) demo_rows) (0 * 2) 2 demo_mask_gather [7, 1] None [0, 2]
      (stock_sample (\<lambda>_ _. (NegInf, 9)) [[5, 5]] True 1 (2 * 2) demo_masked [7, 1] [0, 2] [0, 1])) =
   map emitted (stock_sample (\<lambda>_ _. (NegInf, 9)) [[5, 5]] True 1 (2 * 2) demo_masked [7, 1] [0, 2] [0, 1])"
proof -
  let ?v = "demo_view\<lparr>sv_processing := True\<rparr>"
  have m: "mask_dead None [7, 1] = [7, 1]" by (simp add: mask_dead_def)
  have adm: "mintok_admits ?v (\<lambda>_. demo_slot)" by (simp add: mintok_admits_def mintok_only_def demo_view_def demo_slot_def)
  have plan: "plan (mintok_view (2 * 2) ?v (\<lambda>_. demo_slot)) = Inr (True, 2)"
    using adm by (simp add: mintok_view_def plan_def requires_logits_processing_wo_bias_def demo_view_def demo_slot_def)
  have rule: "demo_masked = map (\<lambda>r. map (\<lambda>tok. if stopped demo_slot ([5, 6] ! r) (int tok) then NegInf else demo_rows ! r ! tok) [0..<2 * 2])
      [0..<length demo_rows]"
    by (simp add: demo_masked_def demo_rows_def stopped_def demo_slot_def upt_rec)
  have batch: "verify_batch_ok 4 demo_masked [7, 1] [0, 2] [0, Suc 0] (Suc 0)"
    by (simp add: verify_batch_ok_def rows_ok_def demo_masked_def big_def upt_rec)
  have out: "out_ok [0, 2] (Suc 0) [[a, b]]" for a b by (simp add: out_ok_def)
  have sv: "sv_rejection ?v = Some (True, False, 1)" by (simp add: demo_view_def)
  show ?thesis
    by (rule mintok_exact [where bias = "\<lambda>_. demo_masked" and num_spec = 1 and local_pos = "[0, 1]" and junk = "\<lambda>_ _. (NegInf, 9)" and
        outs' = "[[5, 5]]", OF _ _ _ adm])
      (use plan sv rule in \<open>simp_all add: m batch out demo_mask_gather_def demo_slot_def demo_rows_def\<close>)
qed

end
