(* ===== verification/Ab_Harness.thy ===== *)
theory Ab_Harness
  imports Py_Str "HOL-Library.AList"
begin

text \<open>
  Switching adapter flags in a running engine, \<open>src/overlay/glm_ab.py\<close>: the specs of the variants, one set of captured graphs per
  variant, the switch on every rank and its checks. What vLLM captures is a function of the flags read while capturing; JSON and
  the hash of the configuration are parameters.
\<close>

section \<open>Specs\<close>

datatype ab_kind = BoolKey | ModeKey | RawKey

definition known_keys :: "(string \<times> ab_kind) list" where
  "known_keys = [(''GLM_TARGET_VOCAB_ARGMAX'', ModeKey), (''GLM_KDA_NOCOPY'', BoolKey), (''GLM_KDA_STASH'', BoolKey),
     (''GLM_ROUTER_FP32OUT'', BoolKey), (''GLM_GATE_GEMV'', RawKey), (''GLM_ROUTER_GEMV'', RawKey), (''GLM_CERT_HEAD'', ModeKey),
     (''GLM_CERT_HEAD_MINTOK'', BoolKey), (''GLM_DS_DRAFT_HEAD_FP4'', ModeKey)]"

definition ab_truthy :: "string option \<Rightarrow> bool" where
  "ab_truthy v = (case v of None \<Rightarrow> False | Some s \<Rightarrow> lower (strip s) \<notin> set off_words)"

datatype ab_value = Flag bool | Word string

definition norm_value :: "string \<Rightarrow> string option \<Rightarrow> ab_value result" where
  "norm_value key v =
     (case map_of known_keys key of
        None \<Rightarrow> Inl KeyError
      | Some kind \<Rightarrow>
          if kind = BoolKey then Inr (Flag (ab_truthy v))
          else let raw = (case v of None \<Rightarrow> [] | Some s \<Rightarrow> lower (strip s))
               in if raw \<in> set off_words then Inr (Word ''0'')
                  else if kind = RawKey then Inr (Word raw)
                  else if raw = ''check'' then Inr (Word ''check'')
                  else if raw \<in> {''1'', ''on'', ''true''} then Inr (Word ''1'')
                  else Inl RuntimeError)"

text \<open>The pieces between runs of separators; the empty ones at the ends are skipped by the caller.\<close>

fun spec_items :: "string \<Rightarrow> string \<Rightarrow> string list" where
  "spec_items w [] = [rev w]"
| "spec_items w (c # s) = (if c = CHR '';'' \<or> c = CHR ''+'' \<or> is_ws c then rev w # spec_items [] s else spec_items (c # w) s)"

definition spec_item :: "string \<Rightarrow> (string \<times> string) list \<Rightarrow> (string \<times> string) list result" where
  "spec_item item d =
     (if item = [] then Inr d
      else case partition_on (CHR ''='') item of (k0, found, v0) \<Rightarrow>
        if \<not> found then Inl RuntimeError
        else let key = strip k0; v = strip v0
             in if map_of known_keys key = None then Inl RuntimeError
                else bind_r (norm_value key (Some v)) (\<lambda>_. Inr (AList.update key v d)))"

fun spec_all :: "string list \<Rightarrow> (string \<times> string) list \<Rightarrow> (string \<times> string) list result" where
  "spec_all [] d = Inr d"
| "spec_all (i # is) d = bind_r (spec_item i d) (spec_all is)"

definition parse_ab_spec :: "string \<Rightarrow> (string \<times> string) list result" where
  "parse_ab_spec txt = spec_all (spec_items [] (strip txt)) []"

definition effective :: "(string \<times> string) list \<Rightarrow> env \<Rightarrow> (string \<times> ab_value) list result" where
  "effective spec base =
     map_r (\<lambda>k. bind_r (norm_value k (case map_of spec k of Some v \<Rightarrow> Some v | None \<Rightarrow> base k)) (\<lambda>v. Inr (k, v))) (map fst known_keys)"

section \<open>The process\<close>

text \<open>
  A manager: its class, the dictionary it was created with, the sets of the variants, and which one its
  \<open>graphs\<close> names (\<open>None\<close> for the first). \<open>mg_listed\<close> says that it is among the managers a switch visits.
\<close>

record ('d, 'g) ab_manager =
  mg_class :: string
  mg_own :: "'d \<Rightarrow> 'g option"
  mg_sets :: "('d \<Rightarrow> 'g option) list option"
  mg_at :: "nat option"
  mg_listed :: bool

record ab_opts =
  op_allow_aa :: bool
  op_draft_sets :: bool
  op_whole :: bool

record ('d, 'g) ab_proc =
  ab_environ :: "(string \<times> string) list"
  ab_active :: bool
  ab_n :: nat
  ab_specs :: "(string \<times> string) list list"
  ab_base :: env
  ab_options :: ab_opts
  ab_capture :: "nat option"
  ab_runtime :: nat
  ab_seq :: nat
  ab_token :: string
  ab_profiling :: bool
  ab_checked :: bool
  ab_mgrs :: "('d, 'g) ab_manager list"
  ab_replays :: "string \<Rightarrow> nat list"

section \<open>Configuration\<close>

definition digit_char :: "nat \<Rightarrow> char" where "digit_char n = char_of (48 + n)"

definition variant_key :: "nat \<Rightarrow> string" where
  "variant_key i = ''GLM_AB_V'' @ (if i < 10 then [digit_char i] else [digit_char (i div 10), digit_char (i mod 10)])"

text \<open>A key \<open>GLM_AB_V\<close> with a number that no variant has.\<close>

definition extra_key :: "nat \<Rightarrow> string \<Rightarrow> bool" where
  "extra_key n k =
     (starts_with ''GLM_AB_V'' k \<and> drop 8 k \<noteq> [] \<and> list_all is_digit (drop 8 k) \<and>
      (case digits (drop 8 k) of None \<Rightarrow> False | Some i \<Rightarrow> n \<le> i))"

definition env_get :: "(string \<times> string) list \<Rightarrow> string \<Rightarrow> string \<Rightarrow> string" where
  "env_get e k d = (case map_of e k of None \<Rightarrow> d | Some v \<Rightarrow> v)"

text \<open>
  The keys that some variant switches on are switched on in the environment, where the install gates are read.
\<close>

definition wants_install :: "(string \<times> ab_value) list list \<Rightarrow> string \<Rightarrow> bool" where
  "wants_install eff k = list_ex (\<lambda>e. case map_of e k of Some (Flag b) \<Rightarrow> b | Some (Word w) \<Rightarrow> w \<noteq> ''0'' | None \<Rightarrow> False) eff"

definition install_union :: "(string \<times> ab_value) list list \<Rightarrow> (string \<times> string) list \<Rightarrow> (string \<times> string) list" where
  "install_union eff e = fold (\<lambda>k env. if wants_install eff k then AList.update k ''1'' env else env) (map fst known_keys) e"

definition same_pair :: "'a list \<Rightarrow> bool" where
  "same_pair xs = list_ex (\<lambda>i. list_ex (\<lambda>j. xs ! i = xs ! j) [Suc i..<length xs]) [0..<length xs]"

text \<open>What \<open>configure\<close> leaves: \<open>None\<close> when the harness stays off.\<close>

record ab_config =
  cf_n :: nat
  cf_specs :: "(string \<times> string) list list"
  cf_base :: env
  cf_options :: ab_opts

definition ab_variants :: "(string \<times> string) list \<Rightarrow> int result" where
  "ab_variants e = (let raw = strip (env_get e ''GLM_AB_VARIANTS'' []) in if raw = [] then Inr 1 else py_int raw)"

definition specs_of :: "nat \<Rightarrow> (string \<times> string) list \<Rightarrow> (string \<times> string) list list result" where
  "specs_of n e = map_r (\<lambda>i. parse_ab_spec (env_get e (variant_key i) [])) [0..<n]"

text \<open>The values before the union; a child process finds them in \<open>GLM_AB_BASE\<close>.\<close>

definition base_of :: "(string \<Rightarrow> env result) \<Rightarrow> (string \<times> string) list \<Rightarrow> env result" where
  "base_of loads e = (case map_of e ''GLM_AB_BASE'' of
     Some s \<Rightarrow> loads s
   | None \<Rightarrow> Inr (\<lambda>k. if map_of known_keys k = None then None else map_of e k))"

definition capture_mode :: "(string \<times> string) list \<Rightarrow> string" where
  "capture_mode e = (let mode = lower (strip (env_get e ''GLM_AB_CAPTURE'' ''whole'')) in if mode = [] then ''whole'' else mode)"

definition options_of :: "(string \<times> string) list \<Rightarrow> ab_opts" where
  "options_of e = \<lparr>op_allow_aa = ab_truthy (map_of e ''GLM_AB_ALLOW_AA''), op_draft_sets = ab_truthy (map_of e ''GLM_AB_DRAFT_SETS''),
     op_whole = (capture_mode e = ''whole'')\<rparr>"

definition check_options :: "(string \<times> ab_value) list list \<Rightarrow> (string \<times> string) list \<Rightarrow> unit result" where
  "check_options eff e =
     (if same_pair eff \<and> \<not> op_allow_aa (options_of e) then Inl RuntimeError
      else if capture_mode e \<notin> {''interleave'', ''whole''} then Inl RuntimeError else Inr ())"

definition set_base :: "string \<Rightarrow> (string \<times> string) list \<Rightarrow> (string \<times> string) list" where
  "set_base s e = (case map_of e ''GLM_AB_BASE'' of Some _ \<Rightarrow> e | None \<Rightarrow> AList.update ''GLM_AB_BASE'' s e)"

definition configure ::
    "(string \<Rightarrow> env result) \<Rightarrow> (env \<Rightarrow> string) \<Rightarrow> (string \<times> string) list \<Rightarrow> (ab_config option \<times> (string \<times> string) list) result" where
  "configure loads dumps e =
     bind_r (ab_variants e) (\<lambda>n.
       if n < 2 then Inr (None, e)
       else if 10 < n then Inl RuntimeError
       else if list_ex (extra_key (nat n)) (map fst e) then Inl RuntimeError
       else bind_r (specs_of (nat n) e) (\<lambda>specs.
         bind_r (base_of loads e) (\<lambda>base.
         bind_r (map_r (\<lambda>s. effective s base) specs) (\<lambda>eff.
         bind_r (check_options eff e) (\<lambda>_.
           Inr (Some \<lparr>cf_n = nat n, cf_specs = specs, cf_base = base, cf_options = options_of e\<rparr>,
                install_union eff (set_base (dumps base) e)))))))"

section \<open>Reading a flag\<close>

definition ab_current :: "('d, 'g) ab_proc \<Rightarrow> nat" where
  "ab_current p = (case ab_capture p of Some v \<Rightarrow> v | None \<Rightarrow> ab_runtime p)"

definition env_for :: "('d, 'g) ab_proc \<Rightarrow> nat \<Rightarrow> string \<Rightarrow> string option \<Rightarrow> string option" where
  "env_for p variant name dflt =
     (case map_of (ab_specs p ! variant) name of
        Some v \<Rightarrow> Some v
      | None \<Rightarrow> (case ab_base p name of Some v \<Rightarrow> Some v | None \<Rightarrow> dflt))"

definition ab_env :: "('d, 'g) ab_proc \<Rightarrow> string \<Rightarrow> string option \<Rightarrow> string option" where
  "ab_env p name dflt =
     (if \<not> ab_active p \<or> map_of known_keys name = None
      then (case map_of (ab_environ p) name of Some v \<Rightarrow> Some v | None \<Rightarrow> dflt)
      else env_for p (ab_current p) name dflt)"

definition ab_flag :: "('d, 'g) ab_proc \<Rightarrow> string \<Rightarrow> bool" where
  "ab_flag p name = (if \<not> ab_active p then True else ab_truthy (ab_env p name None))"

text \<open>A process after \<open>configure\<close>, with the managers vLLM made.\<close>

definition ab_boot :: "ab_config \<Rightarrow> (string \<times> string) list \<Rightarrow> string list \<Rightarrow> ('d, 'g) ab_proc" where
  "ab_boot c e classes =
     \<lparr>ab_environ = e, ab_active = True, ab_n = cf_n c, ab_specs = cf_specs c, ab_base = cf_base c, ab_options = cf_options c,
      ab_capture = None, ab_runtime = 0, ab_seq = 0, ab_token = [], ab_profiling = False, ab_checked = False,
      ab_mgrs = map (\<lambda>c. \<lparr>mg_class = c, mg_own = Map.empty, mg_sets = None, mg_at = None, mg_listed = False\<rparr>) classes,
      ab_replays = (\<lambda>_. [])\<rparr>"

section \<open>Capture and replay\<close>

text \<open>The dictionary a manager's \<open>graphs\<close> names, and an assignment into it.\<close>

definition mg_graphs :: "('d, 'g) ab_manager \<Rightarrow> 'd \<Rightarrow> 'g option" where
  "mg_graphs m = (case (mg_at m, mg_sets m) of (Some v, Some ss) \<Rightarrow> ss ! v | _ \<Rightarrow> mg_own m)"

definition mg_store :: "('d \<Rightarrow> 'g option) \<Rightarrow> ('d, 'g) ab_manager \<Rightarrow> ('d, 'g) ab_manager" where
  "mg_store g m = (case (mg_at m, mg_sets m) of
     (Some v, Some ss) \<Rightarrow> m\<lparr>mg_sets := Some (ss[v := ss ! v ++ g])\<rparr>
   | _ \<Rightarrow> m\<lparr>mg_own := mg_own m ++ g\<rparr>)"

definition mg_multi :: "ab_opts \<Rightarrow> ('d, 'g) ab_manager \<Rightarrow> bool" where
  "mg_multi o' m = (op_draft_sets o' \<or> mg_class m = ''ModelCudaGraphManager'')"

definition mg_kind :: "('d, 'g) ab_manager \<Rightarrow> string" where
  "mg_kind m = (if mg_class m = ''ModelCudaGraphManager'' then ''target'' else mg_class m)"

text \<open>
  vLLM's own loop: \<open>cap\<close> gives the graphs that are captured while the flags read as they do, or the error it stops with.
\<close>

definition whole_sets ::
    "((string \<Rightarrow> string option) \<Rightarrow> ('d \<Rightarrow> 'g option) result) \<Rightarrow> ('d, 'g) ab_proc \<Rightarrow> ('d \<Rightarrow> 'g option) list result" where
  "whole_sets cap p = map_r (\<lambda>v. cap (\<lambda>name. ab_env (p\<lparr>ab_capture := Some v\<rparr>) name None)) [0..<ab_n p]"

text \<open>
  The wrapped \<open>capture\<close> of manager \<open>k\<close>; \<open>agree\<close> is the outcome of \<open>check_ranks_config\<close>. The interleaved loop visits the descriptors outside and
  the variants inside, with the same variant current for each graph, and fills the same sets.
\<close>

definition ab_do_capture ::
    "((string \<Rightarrow> string option) \<Rightarrow> ('d \<Rightarrow> 'g option) result) \<Rightarrow> bool \<Rightarrow> nat \<Rightarrow> ('d, 'g) ab_proc \<Rightarrow> ('d, 'g) ab_proc result" where
  "ab_do_capture cap agree k p =
     (let m = ab_mgrs p ! k in
      if \<not> ab_active p \<or> ab_profiling p \<or> \<not> mg_multi (ab_options p) m then
        bind_r (cap (\<lambda>name. ab_env p name None)) (\<lambda>g.
          let m1 = (mg_store g m)\<lparr>mg_listed := mg_listed m \<or> (ab_active p \<and> \<not> ab_profiling p)\<rparr>
          in Inr (p\<lparr>ab_mgrs := (ab_mgrs p)[k := m1]\<rparr>))
      else if \<not> ab_checked p \<and> \<not> agree then Inl RuntimeError
      else bind_r (whole_sets cap p) (\<lambda>sets.
        Inr (p\<lparr>ab_checked := True,
               ab_mgrs := (ab_mgrs p)[k := m\<lparr>mg_sets := Some sets, mg_at := Some (ab_runtime p), mg_listed := True\<rparr>]\<rparr>)))"

text \<open>\<open>profile_memory\<close> captures with the flag set and takes it back.\<close>

definition ab_profile ::
    "((string \<Rightarrow> string option) \<Rightarrow> ('d \<Rightarrow> 'g option) result) \<Rightarrow> nat \<Rightarrow> ('d, 'g) ab_proc \<Rightarrow> ('d, 'g) ab_proc result" where
  "ab_profile cap k p =
     bind_r (ab_do_capture cap True k (p\<lparr>ab_profiling := True\<rparr>)) (\<lambda>q. Inr (q\<lparr>ab_profiling := ab_profiling p\<rparr>))"

definition ab_set_runtime :: "int \<Rightarrow> ('d, 'g) ab_proc \<Rightarrow> ('d, 'g) ab_proc result" where
  "ab_set_runtime v p =
     (if v < 0 \<or> int (ab_n p) \<le> v then Inl ValueError
      else Inr (p\<lparr>ab_runtime := nat v,
                  ab_mgrs := map (\<lambda>m. if mg_listed m \<and> mg_sets m \<noteq> None then m\<lparr>mg_at := Some (nat v)\<rparr> else m) (ab_mgrs p)\<rparr>))"

definition bump_at :: "nat \<Rightarrow> nat \<Rightarrow> nat list \<Rightarrow> nat list" where
  "bump_at n i xs = (let ys = (if xs = [] then replicate (Suc n) 0 else xs) in ys[i := ys ! i + 1])"

text \<open>\<open>run_fullgraph\<close>: the graph that is replayed; a descriptor without a graph raises.\<close>

definition ab_run_fullgraph :: "nat \<Rightarrow> 'd \<Rightarrow> ('d, 'g) ab_proc \<Rightarrow> (('d, 'g) ab_proc \<times> 'g) result" where
  "ab_run_fullgraph k desc p =
     (let m = ab_mgrs p ! k;
          run = (\<lambda>q. case mg_graphs m desc of None \<Rightarrow> Inl KeyError | Some g \<Rightarrow> Inr (q, g))
      in if \<not> ab_active p then run p
         else case mg_sets m of
           None \<Rightarrow> run (p\<lparr>ab_replays := (ab_replays p)(mg_kind m := bump_at (ab_n p) (ab_n p) (ab_replays p (mg_kind m)))\<rparr>)
         | Some _ \<Rightarrow>
             if mg_at m \<noteq> Some (ab_runtime p) then Inl RuntimeError
             else run (p\<lparr>ab_replays := (ab_replays p)(mg_kind m := bump_at (ab_n p) (ab_runtime p) (ab_replays p (mg_kind m)))\<rparr>))"

section \<open>The ranks\<close>

text \<open>\<open>_max_reduce\<close> over the group, column by column; a group of one rank answers nothing.\<close>

definition max_reduce :: "int list list \<Rightarrow> int list option" where
  "max_reduce vs = (if length vs \<le> 1 then None else Some (foldl (map2 max) (hd vs) (tl vs)))"

definition config_agrees :: "int list \<Rightarrow> int \<Rightarrow> bool" where
  "config_agrees hs h = (case max_reduce (map (\<lambda>x. [x, - x]) hs) of None \<Rightarrow> True | Some got \<Rightarrow> got ! 0 = h \<and> - (got ! 1) = h)"

definition ranks_agree :: "(int \<times> int \<times> int) list \<Rightarrow> int \<times> int \<times> int \<Rightarrow> bool option" where
  "ranks_agree vs own =
     (case own of (v, s, h) \<Rightarrow>
        map_option (\<lambda>got. got ! 0 = - (got ! 1) \<and> - (got ! 1) = v \<and> got ! 2 = - (got ! 3) \<and> - (got ! 3) = s \<and>
                          got ! 4 = - (got ! 5) \<and> - (got ! 5) = h)
          (max_reduce (map (\<lambda>(v, s, h). [v, - v, s, - s, h, - h]) vs)))"

definition ab_bump :: "string \<Rightarrow> ('d, 'g) ab_proc \<Rightarrow> ('d, 'g) ab_proc" where
  "ab_bump token p = p\<lparr>ab_seq := ab_seq p + 1, ab_token := token\<rparr>"

text \<open>
  \<open>worker_switch\<close> on every rank at the same place of the broadcast queue, with the hash of each rank's configuration: an error of any
  rank is the error of the call.
\<close>

definition group_switch :: "int list \<Rightarrow> int \<Rightarrow> string \<Rightarrow> ('d, 'g) ab_proc list \<Rightarrow> ('d, 'g) ab_proc list result" where
  "group_switch hs v token ps =
     bind_r (map_r (ab_set_runtime v) ps) (\<lambda>ps1.
       let ps2 = map (ab_bump token) ps1;
           keys = map2 (\<lambda>p h. (int (ab_runtime p), int (ab_seq p), h)) ps2 hs
       in if list_ex (\<lambda>own. ranks_agree keys own = Some False) keys then Inl RuntimeError else Inr ps2)"

text \<open>\<open>collective_rpc\<close> of the engine core: a busy engine answers without telling the ranks.\<close>

definition core_switch :: "nat \<Rightarrow> int list \<Rightarrow> int \<Rightarrow> string \<Rightarrow> ('d, 'g) ab_proc list \<Rightarrow> (nat + ('d, 'g) ab_proc list) result" where
  "core_switch busy hs v token ps = (if busy \<noteq> 0 then Inr (Inl busy) else bind_r (group_switch hs v token ps) (\<lambda>qs. Inr (Inr qs)))"

section \<open>Every replay runs under the flags that are read\<close>

text \<open>The flags while variant \<open>v\<close> is captured; outside a capture, those of the running variant.\<close>

definition ab_flags :: "('d, 'g) ab_proc \<Rightarrow> nat \<Rightarrow> string \<Rightarrow> string option" where
  "ab_flags p v = (\<lambda>name. ab_env (p\<lparr>ab_capture := Some v\<rparr>) name None)"

lemma ab_flags_now: "ab_capture p = None \<Longrightarrow> (\<lambda>name. ab_env p name None) = ab_flags p (ab_runtime p)"
  by (rule ext) (simp add: ab_flags_def ab_env_def env_for_def ab_current_def cong: option.case_cong)

lemma ab_flags_cong:
  "ab_active q = ab_active p \<Longrightarrow> ab_environ q = ab_environ p \<Longrightarrow> ab_specs q = ab_specs p \<Longrightarrow> ab_base q = ab_base p \<Longrightarrow>
   ab_flags q = ab_flags p"
  by (rule ext, rule ext) (simp add: ab_flags_def ab_env_def env_for_def ab_current_def cong: option.case_cong)

definition mg_ok :: "((string \<Rightarrow> string option) \<Rightarrow> ('d \<Rightarrow> 'g option) result) \<Rightarrow> ('d, 'g) ab_proc \<Rightarrow> ('d, 'g) ab_manager \<Rightarrow> bool" where
  "mg_ok cap p m =
     (case mg_sets m of
        None \<Rightarrow> True
      | Some ss \<Rightarrow> mg_listed m \<and> mg_at m = Some (ab_runtime p) \<and> length ss = ab_n p \<and> (\<forall>v<ab_n p. cap (ab_flags p v) = Inr (ss ! v)))"

definition ab_ok :: "(nat \<Rightarrow> (string \<Rightarrow> string option) \<Rightarrow> ('d \<Rightarrow> 'g option) result) \<Rightarrow> ('d, 'g) ab_proc \<Rightarrow> bool" where
  "ab_ok cap p = (ab_active p \<and> ab_capture p = None \<and> ab_runtime p < ab_n p \<and> (\<forall>k<length (ab_mgrs p). mg_ok (cap k) p (ab_mgrs p ! k)))"

lemma mg_ok_cong:
  "ab_flags q = ab_flags p \<Longrightarrow> ab_runtime q = ab_runtime p \<Longrightarrow> ab_n q = ab_n p \<Longrightarrow> mg_ok cap q m = mg_ok cap p m"
  by (simp add: mg_ok_def split: option.split)

lemma ab_ok_mgr:
  assumes "ab_ok cap p" "mg_ok (cap k) p m"
  shows "ab_ok cap (p\<lparr>ab_checked := b, ab_mgrs := (ab_mgrs p)[k := m]\<rparr>)" and "ab_ok cap (p\<lparr>ab_mgrs := (ab_mgrs p)[k := m]\<rparr>)"
proof -
  have "mg_ok (cap j) q ((ab_mgrs p)[k := m] ! j)"
    if "j < length (ab_mgrs p)" "q = p\<lparr>ab_checked := b, ab_mgrs := (ab_mgrs p)[k := m]\<rparr> \<or> q = p\<lparr>ab_mgrs := (ab_mgrs p)[k := m]\<rparr>" for j q
  proof -
    have "mg_ok (cap j) q x = mg_ok (cap j) p x" for x
      using that(2) by (intro mg_ok_cong ab_flags_cong) auto
    then show ?thesis using assms that(1) by (cases "j = k") (auto simp: ab_ok_def)
  qed
  then show "ab_ok cap (p\<lparr>ab_checked := b, ab_mgrs := (ab_mgrs p)[k := m]\<rparr>)" "ab_ok cap (p\<lparr>ab_mgrs := (ab_mgrs p)[k := m]\<rparr>)"
    using assms(1) by (auto simp: ab_ok_def)
qed

lemma mg_ok_store:
  assumes "mg_ok cap p m" "ab_runtime p < ab_n p" "cap (ab_flags p (ab_runtime p)) = Inr g"
  shows "mg_ok cap p ((mg_store g m)\<lparr>mg_listed := mg_listed m \<or> b\<rparr>)"
proof (cases "mg_sets m")
  case None
  then show ?thesis by (simp add: mg_ok_def mg_store_def split: option.split)
next
  case (Some ss)
  then have at: "mg_at m = Some (ab_runtime p)" and ss: "length ss = ab_n p" "\<And>v. v < ab_n p \<Longrightarrow> cap (ab_flags p v) = Inr (ss ! v)"
    using assms(1) by (auto simp: mg_ok_def)
  have "ss ! ab_runtime p = g" using ss(2) [OF assms(2)] assms(3) by simp
  then have "ss[ab_runtime p := ss ! ab_runtime p ++ g] = ss" using ss(1) assms(2)
    by (metis list_update_id map_add_subsumed1 map_le_refl)
  then show ?thesis using Some at assms(1) by (simp add: mg_ok_def mg_store_def)
qed

lemma ab_do_capture_ok:
  assumes "ab_ok cap p" "k < length (ab_mgrs p)" "ab_do_capture (cap k) agree k p = Inr q"
  shows "ab_ok cap q \<and> ab_runtime q = ab_runtime p \<and> ab_seq q = ab_seq p \<and> ab_n q = ab_n p \<and> length (ab_mgrs q) = length (ab_mgrs p)"
proof -
  let ?m = "ab_mgrs p ! k"
  have ok: "mg_ok (cap k) p ?m" "ab_runtime p < ab_n p" "ab_capture p = None" "ab_active p"
    using assms(1,2) by (auto simp: ab_ok_def)
  show ?thesis
  proof (cases "ab_profiling p \<or> \<not> mg_multi (ab_options p) ?m")
    case True
    then obtain g where g: "cap k (ab_flags p (ab_runtime p)) = Inr g"
      and q: "q = p\<lparr>ab_mgrs := (ab_mgrs p)[k := (mg_store g ?m)\<lparr>mg_listed := mg_listed ?m \<or> \<not> ab_profiling p\<rparr>]\<rparr>"
      using assms(3) ok(3,4) by (auto simp: ab_do_capture_def Let_def bind_r_Inr_iff ab_flags_now)
    show ?thesis using ab_ok_mgr(2) [OF assms(1) mg_ok_store [OF ok(1,2) g]] by (simp add: q)
  next
    case False
    then obtain sets where sets: "whole_sets (cap k) p = Inr sets"
      and q: "q = p\<lparr>ab_checked := True,
        ab_mgrs := (ab_mgrs p)[k := ?m\<lparr>mg_sets := Some sets, mg_at := Some (ab_runtime p), mg_listed := True\<rparr>]\<rparr>"
      using assms(3) ok(4) by (auto simp: ab_do_capture_def Let_def bind_r_Inr_iff split: if_splits)
    have "mg_ok (cap k) p (?m\<lparr>mg_sets := Some sets, mg_at := Some (ab_runtime p), mg_listed := True\<rparr>)"
      using sets by (simp add: mg_ok_def whole_sets_def map_r_Inr_iff ab_flags_def)
    then show ?thesis using ab_ok_mgr(1) [OF assms(1)] by (simp add: q)
  qed
qed

lemma ab_ok_profiling: "ab_ok cap (p\<lparr>ab_profiling := b\<rparr>) = ab_ok cap p"
proof -
  have "mg_ok (cap k) (p\<lparr>ab_profiling := b\<rparr>) m = mg_ok (cap k) p m" for k m
    by (rule mg_ok_cong) (auto intro: ab_flags_cong)
  then show ?thesis by (simp add: ab_ok_def)
qed

lemma ab_profile_ok:
  assumes "ab_ok cap p" "k < length (ab_mgrs p)" "ab_profile (cap k) k p = Inr q"
  shows "ab_ok cap q \<and> ab_runtime q = ab_runtime p \<and> ab_seq q = ab_seq p \<and> ab_n q = ab_n p \<and> length (ab_mgrs q) = length (ab_mgrs p)"
proof -
  obtain q' where q': "ab_do_capture (cap k) True k (p\<lparr>ab_profiling := True\<rparr>) = Inr q'" "q = q'\<lparr>ab_profiling := ab_profiling p\<rparr>"
    using assms(3) by (auto simp: ab_profile_def bind_r_Inr_iff)
  then show ?thesis using ab_do_capture_ok [where cap = cap and k = k, OF _ _ q'(1)] assms(1,2) by (simp add: ab_ok_profiling)
qed

lemma ab_set_runtime_ok:
  assumes "ab_ok cap p" "ab_set_runtime v p = Inr q"
  shows "ab_ok cap (ab_bump token q) \<and> ab_runtime q = nat v \<and> ab_seq q = ab_seq p \<and> ab_n q = ab_n p"
proof -
  have v: "0 \<le> v" "v < int (ab_n p)" and q: "q = p\<lparr>ab_runtime := nat v,
      ab_mgrs := map (\<lambda>m. if mg_listed m \<and> mg_sets m \<noteq> None then m\<lparr>mg_at := Some (nat v)\<rparr> else m) (ab_mgrs p)\<rparr>"
    using assms(2) by (auto simp: ab_set_runtime_def split: if_splits)
  have fl: "ab_flags (ab_bump token q) = ab_flags p" by (rule ab_flags_cong) (simp_all add: ab_bump_def q)
  have "mg_ok (cap k) (ab_bump token q) (ab_mgrs q ! k)" if "k < length (ab_mgrs p)" for k
  proof -
    have "mg_ok (cap k) p (ab_mgrs p ! k)" using assms(1) that by (simp add: ab_ok_def)
    then show ?thesis using that fl
      by (auto simp: mg_ok_def q ab_bump_def split: option.splits)
  qed
  then show ?thesis using assms(1) v by (auto simp: ab_ok_def q ab_bump_def)
qed

lemma ab_boot_ok:
  assumes "configure loads dumps e = Inr (Some c, e1)"
  shows "ab_ok cap (ab_boot c e1 classes)"
proof -
  have "2 \<le> cf_n c"
    using assms by (auto simp: configure_def Let_def bind_r_Inr_iff split: if_splits)
  then show ?thesis by (auto simp: ab_ok_def ab_boot_def mg_ok_def)
qed

text \<open>
  A group of ranks from boot on: captures, memory profiling and replays on any rank in any order, switches through the engine core;
  \<open>hs\<close> are the hashes of the ranks' configurations.
\<close>

inductive ab_group ::
    "(string \<Rightarrow> env result) \<Rightarrow> (env \<Rightarrow> string) \<Rightarrow> (nat \<Rightarrow> nat \<Rightarrow> (string \<Rightarrow> string option) \<Rightarrow> ('d \<Rightarrow> 'g option) result) \<Rightarrow> int list \<Rightarrow>
      ('d, 'g) ab_proc list \<Rightarrow> bool"
  for loads dumps cap hs where
  boot: "length ps = length hs \<Longrightarrow>
    (\<And>i. i < length ps \<Longrightarrow> \<exists>e c e1 classes. configure loads dumps e = Inr (Some c, e1) \<and> ps ! i = ab_boot c e1 classes) \<Longrightarrow>
    ab_group loads dumps cap hs ps"
| capture: "ab_group loads dumps cap hs ps \<Longrightarrow> i < length ps \<Longrightarrow> k < length (ab_mgrs (ps ! i)) \<Longrightarrow>
    ab_do_capture (cap i k) (config_agrees hs (hs ! i)) k (ps ! i) = Inr q \<Longrightarrow> ab_group loads dumps cap hs (ps[i := q])"
| profile: "ab_group loads dumps cap hs ps \<Longrightarrow> i < length ps \<Longrightarrow> k < length (ab_mgrs (ps ! i)) \<Longrightarrow>
    ab_profile (cap i k) k (ps ! i) = Inr q \<Longrightarrow> ab_group loads dumps cap hs (ps[i := q])"
| replay: "ab_group loads dumps cap hs ps \<Longrightarrow> i < length ps \<Longrightarrow> k < length (ab_mgrs (ps ! i)) \<Longrightarrow>
    ab_run_fullgraph k desc (ps ! i) = Inr (q, g) \<Longrightarrow> ab_group loads dumps cap hs (ps[i := q])"
| switch: "ab_group loads dumps cap hs ps \<Longrightarrow> core_switch busy hs v token ps = Inr (Inr qs) \<Longrightarrow> ab_group loads dumps cap hs qs"

definition ranks_ok ::
    "(nat \<Rightarrow> nat \<Rightarrow> (string \<Rightarrow> string option) \<Rightarrow> ('d \<Rightarrow> 'g option) result) \<Rightarrow> ('d, 'g) ab_proc list \<Rightarrow> bool" where
  "ranks_ok cap ps = (\<exists>r n. \<forall>i<length ps. ab_ok (cap i) (ps ! i) \<and> ab_runtime (ps ! i) = r \<and> ab_seq (ps ! i) = n)"

lemma ranks_ok_update:
  assumes "ranks_ok cap ps" "i < length ps" "ab_ok (cap i) q" "ab_runtime q = ab_runtime (ps ! i)" "ab_seq q = ab_seq (ps ! i)"
  shows "ranks_ok cap (ps[i := q])"
proof -
  obtain r n where rn: "\<And>j. j < length ps \<Longrightarrow> ab_ok (cap j) (ps ! j) \<and> ab_runtime (ps ! j) = r \<and> ab_seq (ps ! j) = n"
    using assms(1) by (auto simp: ranks_ok_def)
  have "ab_ok (cap j) (ps[i := q] ! j) \<and> ab_runtime (ps[i := q] ! j) = r \<and> ab_seq (ps[i := q] ! j) = n" if "j < length ps" for j
    using rn [OF that] rn [OF assms(2)] assms(2-5) by (cases "j = i") auto
  then show ?thesis unfolding ranks_ok_def by auto
qed

lemma ab_run_fullgraph_ok:
  assumes "ab_ok cap p" "ab_run_fullgraph k desc p = Inr (q, g)"
  shows "ab_ok cap q \<and> ab_runtime q = ab_runtime p \<and> ab_seq q = ab_seq p"
proof -
  obtain r where q: "q = p\<lparr>ab_replays := r\<rparr> \<or> q = p"
    using assms(2) by (auto simp: ab_run_fullgraph_def Let_def split: if_splits option.splits)
  have "mg_ok (cap k) (p\<lparr>ab_replays := r\<rparr>) m = mg_ok (cap k) p m" for k m
    by (rule mg_ok_cong) (auto intro: ab_flags_cong)
  then show ?thesis using q assms(1) by (auto simp: ab_ok_def)
qed

lemma group_switch_ok:
  assumes "ranks_ok cap ps" "core_switch busy hs v token ps = Inr (Inr qs)"
  shows "ranks_ok cap qs"
proof -
  obtain r n where rn: "\<And>j. j < length ps \<Longrightarrow> ab_ok (cap j) (ps ! j) \<and> ab_runtime (ps ! j) = r \<and> ab_seq (ps ! j) = n"
    using assms(1) by (auto simp: ranks_ok_def)
  obtain ps1 where ps1: "map_r (ab_set_runtime v) ps = Inr ps1" "qs = map (ab_bump token) ps1"
    using assms(2) by (auto simp: core_switch_def group_switch_def Let_def bind_r_Inr_iff split: if_splits)
  then have len: "length ps1 = length ps" and at: "\<And>j. j < length ps \<Longrightarrow> ab_set_runtime v (ps ! j) = Inr (ps1 ! j)"
    by (auto simp: map_r_Inr_iff)
  have "ab_ok (cap j) (qs ! j) \<and> ab_runtime (qs ! j) = nat v \<and> ab_seq (qs ! j) = Suc n" if "j < length qs" for j
  proof -
    have j: "j < length ps" using that ps1(2) len by simp
    show ?thesis using ab_set_runtime_ok [OF conjunct1 [OF rn [OF j]] at [OF j], of token] rn [OF j] that ps1(2) len
      by (auto simp: ab_bump_def)
  qed
  then show ?thesis unfolding ranks_ok_def by blast
qed

lemma ab_group_ok: "ab_group loads dumps cap hs ps \<Longrightarrow> ranks_ok cap ps"
proof (induction rule: ab_group.induct)
  case (boot ps)
  have "ab_ok (cap i) (ps ! i) \<and> ab_runtime (ps ! i) = 0 \<and> ab_seq (ps ! i) = 0" if "i < length ps" for i
    using boot(2) [OF that] ab_boot_ok by (fastforce simp: ab_boot_def)
  then show ?case unfolding ranks_ok_def by blast
next
  case (capture ps i k q)
  then have "ab_ok (cap i) (ps ! i)" by (auto simp: ranks_ok_def)
  from ab_do_capture_ok [where cap = "cap i" and k = k, OF this capture(3,4)] show ?case
    by (intro ranks_ok_update [OF capture.IH capture(2)]) auto
next
  case (profile ps i k q)
  then have "ab_ok (cap i) (ps ! i)" by (auto simp: ranks_ok_def)
  from ab_profile_ok [where cap = "cap i" and k = k, OF this profile(3,4)] show ?case
    by (intro ranks_ok_update [OF profile.IH profile(2)]) auto
next
  case (replay ps i k desc q g)
  then have "ab_ok (cap i) (ps ! i)" by (auto simp: ranks_ok_def)
  from ab_run_fullgraph_ok [OF this replay(4)] show ?case
    by (intro ranks_ok_update [OF replay.IH replay(2)]) auto
next
  case (switch ps busy v token qs)
  then show ?case by (blast intro: group_switch_ok)
qed

text \<open>
  C22. In-boot A/B: in every group of ranks, after any captures, profiling, replays and switches, all ranks run the same variant at the
  same switch count, and a manager with a set per variant replays, on every rank, a graph that was captured while exactly the flags
  were read that eager code reads now; it never stops on a set of another variant.
\<close>

theorem ab_replays_match:
  assumes "ab_group loads dumps cap hs ps" and "i < length ps" and "k < length (ab_mgrs (ps ! i))"
  shows "ab_runtime (ps ! i) = ab_runtime (ps ! 0) \<and> ab_seq (ps ! i) = ab_seq (ps ! 0) \<and>
    (mg_sets (ab_mgrs (ps ! i) ! k) \<noteq> None \<longrightarrow>
      (\<exists>g. cap i k (\<lambda>name. ab_env (ps ! i) name None) = Inr g \<and>
         map_sum id snd (ab_run_fullgraph k desc (ps ! i)) = (case g desc of None \<Rightarrow> Inl KeyError | Some x \<Rightarrow> Inr x)))"
proof -
  let ?p = "ps ! i" and ?m = "ab_mgrs (ps ! i) ! k"
  obtain r n where rn: "\<And>j. j < length ps \<Longrightarrow> ab_ok (cap j) (ps ! j) \<and> ab_runtime (ps ! j) = r \<and> ab_seq (ps ! j) = n"
    using ab_group_ok [OF assms(1)] by (auto simp: ranks_ok_def)
  have ok: "ab_ok (cap i) ?p" using rn assms(2) by blast
  have same: "ab_runtime ?p = ab_runtime (ps ! 0)" "ab_seq ?p = ab_seq (ps ! 0)" using rn [OF assms(2)] rn [OF le_less_trans [OF le0 assms(2)]] by simp_all
  have "\<exists>g. cap i k (\<lambda>name. ab_env ?p name None) = Inr g \<and>
      map_sum id snd (ab_run_fullgraph k desc ?p) = (case g desc of None \<Rightarrow> Inl KeyError | Some x \<Rightarrow> Inr x)" if ne: "mg_sets ?m \<noteq> None"
  proof -
    obtain ss where ss: "mg_sets ?m = Some ss" using ne by blast
    have m: "mg_at ?m = Some (ab_runtime ?p)" "ab_active ?p" "ab_capture ?p = None"
      "cap i k (ab_flags ?p (ab_runtime ?p)) = Inr (ss ! ab_runtime ?p)"
      using ok assms(3) ss by (auto simp: ab_ok_def mg_ok_def split: option.splits)
    have "mg_graphs ?m = ss ! ab_runtime ?p" using m(1) ss by (simp add: mg_graphs_def)
    then show ?thesis using m ss
      by (auto simp: ab_flags_now ab_run_fullgraph_def Let_def split: option.splits)
  qed
  with same show ?thesis by blast
qed

definition ab_env_demo :: "(string \<times> string) list" where
  "ab_env_demo = [(''GLM_AB_VARIANTS'', ''2''), (''GLM_AB_V0'', ''GLM_KDA_STASH=0''), (''GLM_AB_V1'', ''GLM_KDA_STASH=1'')]"

definition ab_cfg_demo :: ab_config where
  "ab_cfg_demo = \<lparr>cf_n = 2, cf_specs = [[(''GLM_KDA_STASH'', ''0'')], [(''GLM_KDA_STASH'', ''1'')]],
     cf_base = (\<lambda>k. if map_of known_keys k = None then None else map_of ab_env_demo k),
     cf_options = \<lparr>op_allow_aa = False, op_draft_sets = False, op_whole = True\<rparr>\<rparr>"

lemma ab_configure_demo:
  "configure loads (\<lambda>_. []) ab_env_demo = Inr (Some ab_cfg_demo, ab_env_demo @ [(''GLM_AB_BASE'', []), (''GLM_KDA_STASH'', ''1'')])"
proof -
  have v: "py_int ''2'' = Inr 2" "strip ''2'' = ''2''" by (simp_all add: str_eval)
  have extra: "\<not> list_ex (extra_key 2) (map fst ab_env_demo)"
    by (simp add: ab_env_demo_def extra_key_def str_eval)
  have p: "parse_ab_spec ''GLM_KDA_STASH=0'' = Inr [(''GLM_KDA_STASH'', ''0'')]" "parse_ab_spec ''GLM_KDA_STASH=1'' = Inr [(''GLM_KDA_STASH'', ''1'')]"
    by (simp_all add: parse_ab_spec_def spec_item_def known_keys_def norm_value_def str_eval)
  have get: "env_get ab_env_demo ''GLM_AB_VARIANTS'' [] = ''2''" "env_get ab_env_demo (variant_key 0) [] = ''GLM_KDA_STASH=0''"
    "env_get ab_env_demo (variant_key 1) [] = ''GLM_KDA_STASH=1''" "env_get ab_env_demo ''GLM_AB_CAPTURE'' ''whole'' = ''whole''"
    "map_of ab_env_demo ''GLM_AB_BASE'' = None" "map_of ab_env_demo ''GLM_AB_ALLOW_AA'' = None" "map_of ab_env_demo ''GLM_AB_DRAFT_SETS'' = None"
    by (simp_all add: env_get_def ab_env_demo_def variant_key_def digit_char_def char_of_def bit_Suc_0_iff)
  have w: "lower (strip ''whole'') = ''whole''" by (simp add: str_eval)
  let ?eff = "\<lambda>b. map (\<lambda>k. (k, if k = ''GLM_KDA_STASH'' then Flag b else case the (map_of known_keys k) of BoolKey \<Rightarrow> Flag False | _ \<Rightarrow> Word ''0''))
      (map fst known_keys)"
  have e: "effective [(''GLM_KDA_STASH'', ''0'')] (cf_base ab_cfg_demo) = Inr (?eff False)"
    "effective [(''GLM_KDA_STASH'', ''1'')] (cf_base ab_cfg_demo) = Inr (?eff True)"
    by (simp_all add: effective_def ab_cfg_demo_def known_keys_def norm_value_def ab_truthy_def off_words_def ab_env_demo_def str_eval)
  have up: "[0..<nat 2] = [0, 1]" by (simp add: upt_rec)
  have u: "install_union [?eff False, ?eff True] (AList.update ''GLM_AB_BASE'' [] ab_env_demo) =
      ab_env_demo @ [(''GLM_AB_BASE'', []), (''GLM_KDA_STASH'', ''1'')]"
    by (simp add: install_union_def wants_install_def known_keys_def ab_env_demo_def)
  have sp: "\<not> same_pair [?eff False, ?eff True]" by (simp add: same_pair_def known_keys_def upt_rec)
  have b: "(\<lambda>k. if map_of known_keys k = None then None else map_of ab_env_demo k) = cf_base ab_cfg_demo" by (simp add: ab_cfg_demo_def)
  have variants: "ab_variants ab_env_demo = Inr 2" by (simp add: ab_variants_def get v)
  have specs: "specs_of (nat 2) ab_env_demo = Inr (cf_specs ab_cfg_demo)"
    unfolding specs_of_def up by (simp add: get(2) get(3) [unfolded One_nat_def] p) (simp add: ab_cfg_demo_def)
  have base: "base_of loads ab_env_demo = Inr (cf_base ab_cfg_demo)"
    by (simp add: base_of_def get b)
  have effs: "map_r (\<lambda>s. effective s (cf_base ab_cfg_demo)) (cf_specs ab_cfg_demo) = Inr [?eff False, ?eff True]"
  proof -
    have "cf_specs ab_cfg_demo = [[(''GLM_KDA_STASH'', ''0'')], [(''GLM_KDA_STASH'', ''1'')]]" by (simp add: ab_cfg_demo_def)
    then show ?thesis by (simp only: map_r.simps e bind_r_simps)
  qed
  have mode: "capture_mode ab_env_demo = ''whole''" by (simp add: capture_mode_def get w)
  have opts: "options_of ab_env_demo = cf_options ab_cfg_demo"
    by (simp add: options_of_def mode get ab_truthy_def) (simp add: ab_cfg_demo_def)
  have chk: "check_options [?eff False, ?eff True] ab_env_demo = Inr ()" using sp by (simp add: check_options_def mode)
  have num: "((2 :: int) < 2) = False" "((10 :: int) < 2) = False" by simp_all
  have no: "list_ex (extra_key (nat 2)) (map fst ab_env_demo) = False" using extra by simp
  have cfg: "\<lparr>cf_n = nat 2, cf_specs = cf_specs ab_cfg_demo, cf_base = cf_base ab_cfg_demo, cf_options = cf_options ab_cfg_demo\<rparr> = ab_cfg_demo"
    by (simp add: ab_cfg_demo_def)
  have set_base: "set_base [] ab_env_demo = AList.update ''GLM_AB_BASE'' [] ab_env_demo" by (simp add: set_base_def get)
  show ?thesis
    unfolding configure_def by (simp only: variants num if_False bind_r_simps specs base effs chk opts no set_base cfg u)
qed

definition ab_cap_demo :: "nat \<Rightarrow> nat \<Rightarrow> (string \<Rightarrow> string option) \<Rightarrow> (nat \<Rightarrow> string option) result" where
  "ab_cap_demo i k flags = Inr (\<lambda>d. if d = 8 then flags ''GLM_KDA_STASH'' else None)"

definition ab_boot_demo :: "(nat, string) ab_proc" where
  "ab_boot_demo = ab_boot ab_cfg_demo (ab_env_demo @ [(''GLM_AB_BASE'', []), (''GLM_KDA_STASH'', ''1'')]) [''ModelCudaGraphManager'']"

definition ab_sets_demo :: "(nat \<Rightarrow> string option) list" where
  "ab_sets_demo = [\<lambda>d. if d = 8 then Some ''0'' else None, \<lambda>d. if d = 8 then Some ''1'' else None]"

definition ab_captured_demo :: "(nat, string) ab_proc" where
  "ab_captured_demo = ab_boot_demo\<lparr>ab_checked := True,
     ab_mgrs := [\<lparr>mg_class = ''ModelCudaGraphManager'', mg_own = Map.empty, mg_sets = Some ab_sets_demo, mg_at = Some 0, mg_listed = True\<rparr>]\<rparr>"

definition ab_switched_demo :: "(nat, string) ab_proc" where
  "ab_switched_demo = ab_captured_demo\<lparr>ab_runtime := 1, ab_seq := 1, ab_token := ''t'',
     ab_mgrs := [\<lparr>mg_class = ''ModelCudaGraphManager'', mg_own = Map.empty, mg_sets = Some ab_sets_demo, mg_at = Some 1, mg_listed = True\<rparr>]\<rparr>"

lemma ab_group_demo: "ab_group (\<lambda>_. Inl ValueError) (\<lambda>_. []) ab_cap_demo [7] [ab_switched_demo]"
proof -
  have "ab_group (\<lambda>_. Inl ValueError) (\<lambda>_. []) ab_cap_demo [7] [ab_boot_demo]"
    by (rule ab_group.boot) (use ab_configure_demo in \<open>auto simp: ab_boot_demo_def\<close>)
  moreover have "whole_sets (ab_cap_demo 0 0) ab_boot_demo = Inr ab_sets_demo"
  proof -
    have n: "[0..<ab_n ab_boot_demo] = [0, 1]" by (simp add: ab_boot_demo_def ab_boot_def ab_cfg_demo_def upt_rec)
    have "map_of known_keys ''GLM_KDA_STASH'' = Some BoolKey" by (simp add: known_keys_def)
    then have "ab_env (ab_boot_demo\<lparr>ab_capture := Some 0\<rparr>) ''GLM_KDA_STASH'' None = Some ''0''"
      "ab_env (ab_boot_demo\<lparr>ab_capture := Some 1\<rparr>) ''GLM_KDA_STASH'' None = Some ''1''"
      by (simp_all add: ab_env_def env_for_def ab_current_def ab_boot_demo_def ab_boot_def ab_cfg_demo_def)
    then show ?thesis unfolding whole_sets_def n by (simp add: ab_cap_demo_def ab_sets_demo_def cong: if_cong)
  qed
  then have "ab_do_capture (ab_cap_demo 0 0) (config_agrees [7] 7) 0 ab_boot_demo = Inr ab_captured_demo"
    by (simp add: ab_do_capture_def Let_def ab_boot_demo_def ab_boot_def mg_multi_def config_agrees_def max_reduce_def ab_captured_demo_def)
  ultimately have one: "ab_group (\<lambda>_. Inl ValueError) (\<lambda>_. []) ab_cap_demo [7] [ab_captured_demo]"
    using ab_group.capture [of "\<lambda>_. Inl ValueError" "\<lambda>_. []" ab_cap_demo "[7]" "[ab_boot_demo]" 0 0 ab_captured_demo]
    by (simp add: ab_boot_demo_def ab_boot_def)
  have "core_switch 0 [7] 1 ''t'' [ab_captured_demo] = Inr (Inr [ab_switched_demo])"
    by (simp add: core_switch_def group_switch_def ab_set_runtime_def ab_captured_demo_def ab_switched_demo_def ab_boot_demo_def ab_boot_def
        ab_cfg_demo_def ab_bump_def ranks_agree_def max_reduce_def Let_def)
  from ab_group.switch [OF one this] show ?thesis .
qed

theorem ab_replays_match_witness:
  "\<exists>g. ab_cap_demo 0 0 (\<lambda>name. ab_env ([ab_switched_demo] ! 0) name None) = Inr g \<and>
     map_sum id snd (ab_run_fullgraph 0 8 ([ab_switched_demo] ! 0)) = (case g 8 of None \<Rightarrow> Inl KeyError | Some x \<Rightarrow> Inr x)"
  using ab_replays_match [OF ab_group_demo, of 0 0 8] by (simp add: ab_switched_demo_def)

section \<open>The ranks' check\<close>

lemma max_reduce_pairs:
  assumes "max_reduce (map f xs) = Some got" "\<And>x. x \<in> set xs \<Longrightarrow> length (f x) = n" "i < n"
  shows "got ! i = Max ((\<lambda>x. f x ! i) ` set xs) \<and> length got = n"
proof -
  obtain y ys where xs: "xs = y # ys" and got: "got = foldl (map2 max) (f y) (map f ys)"
    using assms(1) by (cases xs) (auto simp: max_reduce_def split: if_splits)
  have "length acc = n \<Longrightarrow> (\<And>x. x \<in> set zs \<Longrightarrow> length (f x) = n) \<Longrightarrow>
      foldl (map2 max) acc (map f zs) ! i = Max (insert (acc ! i) ((\<lambda>x. f x ! i) ` set zs)) \<and> length (foldl (map2 max) acc (map f zs)) = n"
    for acc zs
  proof (induction zs arbitrary: acc)
    case (Cons z zs)
    have "Max (insert (max (acc ! i) (f z ! i)) ((\<lambda>x. f x ! i) ` set zs)) = Max (insert (acc ! i) (insert (f z ! i) ((\<lambda>x. f x ! i) ` set zs)))"
      by (cases "zs = []") (simp_all add: Max_insert max.assoc)
    then show ?case using Cons assms(3) by simp
  qed simp
  from this [of "f y" ys] show ?thesis using assms(2) by (simp add: xs got)
qed

text \<open>A rank passes the check exactly when every rank has its variant, its switch count and its hash.\<close>

lemma Max_both: "finite A \<Longrightarrow> A \<noteq> {} \<Longrightarrow> Max A = (v :: int) \<and> Max (uminus ` A) = - v \<longleftrightarrow> A = {v}"
proof
  assume A: "finite A" "A \<noteq> {}" "Max A = v \<and> Max (uminus ` A) = - v"
  have "x = v" if "x \<in> A" for x
    using Max_ge [OF A(1) that] Max_ge [of "uminus ` A" "- x"] A that by auto
  then show "A = {v}" using A(2) by blast
qed auto

lemma ranks_agree_iff:
  assumes "1 < length vs"
  shows "ranks_agree vs own = Some (\<forall>x\<in>set vs. x = own)"
proof -
  let ?f = "\<lambda>(v, s, h). [v, - v, s, - s, h, - h] :: int list"
  obtain v s h where own: "own = (v, s, h)" by (cases own)
  have ne: "set vs \<noteq> {}" using assms by auto
  obtain got where got: "max_reduce (map ?f vs) = Some got" using assms by (simp add: max_reduce_def)
  note M = conjunct1 [OF max_reduce_pairs [OF got, of 6]]
  have cols: "got ! 0 = Max (fst ` set vs)" "got ! 1 = Max (uminus ` fst ` set vs)"
    "got ! 2 = Max ((\<lambda>x. fst (snd x)) ` set vs)" "got ! 3 = Max (uminus ` (\<lambda>x. fst (snd x)) ` set vs)"
    "got ! 4 = Max ((\<lambda>x. snd (snd x)) ` set vs)" "got ! 5 = Max (uminus ` (\<lambda>x. snd (snd x)) ` set vs)"
    using M [of 0] M [of 1] M [of 2] M [of 3] M [of 4] M [of 5] by (simp_all add: split_beta image_image)
  have one: "(Max (g ` set vs) = - Max (uminus ` g ` set vs) \<and> - Max (uminus ` g ` set vs) = c) \<longleftrightarrow> (\<forall>x\<in>set vs. g x = c)" for g :: "_ \<Rightarrow> int" and c
  proof -
    have "(Max (g ` set vs) = - Max (uminus ` g ` set vs) \<and> - Max (uminus ` g ` set vs) = c) \<longleftrightarrow> g ` set vs = {c}"
    proof -
      have "(X = - Y \<and> - Y = c) \<longleftrightarrow> (X = c \<and> Y = - c)" for X Y :: int by auto
      then show ?thesis using Max_both [of "g ` set vs" c] ne by (simp only: finite_imageI [OF finite_set] image_is_empty simp_thms)
    qed
    moreover have "g ` set vs = {c} \<longleftrightarrow> (\<forall>x\<in>set vs. g x = c)" using ne by (cases vs) auto
    ultimately show ?thesis by blast
  qed
  have "ranks_agree vs own = Some (got ! 0 = - (got ! 1) \<and> - (got ! 1) = v \<and> got ! 2 = - (got ! 3) \<and> - (got ! 3) = s \<and>
      got ! 4 = - (got ! 5) \<and> - (got ! 5) = h)"
    by (simp add: ranks_agree_def own got)
  moreover have "(got ! 0 = - (got ! 1) \<and> - (got ! 1) = v \<and> got ! 2 = - (got ! 3) \<and> - (got ! 3) = s \<and>
      got ! 4 = - (got ! 5) \<and> - (got ! 5) = h) \<longleftrightarrow> (\<forall>x\<in>set vs. x = own)"
    unfolding cols using one [of fst v] one [of "\<lambda>x. fst (snd x)" s] one [of "\<lambda>x. snd (snd x)" h]
    by (auto simp: own prod_eq_iff)
  ultimately show ?thesis by simp
qed

section \<open>Child processes\<close>

lemma map_of_union:
  "map_of (fold (\<lambda>k env. if wants_install eff k then AList.update k ''1'' env else env) ks e) k =
     (if k \<in> set ks \<and> wants_install eff k then Some ''1'' else map_of e k)"
  by (induction ks arbitrary: e) (auto simp: update_conv')

lemma map_of_install_union:
  "map_of (install_union eff e) k = (if k \<in> fst ` set known_keys \<and> wants_install eff k then Some ''1'' else map_of e k)"
  by (simp add: install_union_def map_of_union)

lemma keys_of_map_of: "map_of e' = map_of e \<Longrightarrow> fst ` set e' = fst ` set e"
  by (metis dom_map_of_conv_image_fst)

lemma not_known_ab: "starts_with ''GLM_AB_'' k \<Longrightarrow> k \<notin> fst ` set known_keys"
  by (auto simp: known_keys_def starts_with_def)

text \<open>What \<open>configure\<close> reads of the environment.\<close>

lemma variant_key_ab: "starts_with ''GLM_AB_V'' (variant_key i)"
  by (simp add: variant_key_def starts_with_def)

lemma configure_reads:
  assumes "configure loads dumps e = Inr (Some c, e1)"
  obtains n eff where "ab_variants e = Inr n" "\<not> n < 2" "\<not> 10 < n" "\<not> list_ex (extra_key (nat n)) (map fst e)"
    "specs_of (nat n) e = Inr (cf_specs c)" "base_of loads e = Inr (cf_base c)"
    "map_r (\<lambda>s. effective s (cf_base c)) (cf_specs c) = Inr eff" "check_options eff e = Inr ()"
    "c = \<lparr>cf_n = nat n, cf_specs = cf_specs c, cf_base = cf_base c, cf_options = options_of e\<rparr>"
    "e1 = install_union eff (set_base (dumps (cf_base c)) e)"
  using assms unfolding configure_def by (auto simp: bind_r_Inr_iff split: if_splits)

text \<open>
  A child process that reads the environment its parent left, with the flags of the union switched on, gets the parent's
  configuration, the same variants over the same base values, and leaves the environment as it is.
\<close>

lemma ab_child_same:
  assumes "configure loads dumps e = Inr (Some c, e1)" and "loads (dumps (cf_base c)) = Inr (cf_base c)"
  shows "\<exists>e2. configure loads dumps e1 = Inr (Some c, e2) \<and> map_of e2 = map_of e1"
proof -
  obtain n eff where R: "ab_variants e = Inr n" "\<not> n < 2" "\<not> 10 < n" "\<not> list_ex (extra_key (nat n)) (map fst e)"
    "specs_of (nat n) e = Inr (cf_specs c)" "base_of loads e = Inr (cf_base c)"
    "map_r (\<lambda>s. effective s (cf_base c)) (cf_specs c) = Inr eff" "check_options eff e = Inr ()"
    "c = \<lparr>cf_n = nat n, cf_specs = cf_specs c, cf_base = cf_base c, cf_options = options_of e\<rparr>"
    "e1 = install_union eff (set_base (dumps (cf_base c)) e)"
    by (rule configure_reads [OF assms(1)])
  let ?K = "fst ` set known_keys"
  have e1: "map_of e1 k = (if k \<in> ?K \<and> wants_install eff k then Some ''1'' else map_of (set_base (dumps (cf_base c)) e) k)" for k
    by (simp add: R(10) map_of_install_union)
  have ab: "map_of e1 k = map_of e k" if "starts_with ''GLM_AB_'' k" "k \<noteq> ''GLM_AB_BASE''" for k
    using not_known_ab [OF that(1)] that(2) by (simp add: e1 set_base_def update_conv' split: option.split)
  have get: "env_get e1 k d = env_get e k d" if "starts_with ''GLM_AB_'' k" "k \<noteq> ''GLM_AB_BASE''" for k d
    using ab [OF that] by (simp add: env_get_def)
  have vkey: "starts_with ''GLM_AB_'' (variant_key i)" "variant_key i \<noteq> ''GLM_AB_BASE''" for i
    by (simp_all add: variant_key_def starts_with_def)
  have names: "starts_with ''GLM_AB_'' ''GLM_AB_VARIANTS''" "starts_with ''GLM_AB_'' ''GLM_AB_CAPTURE''"
    "starts_with ''GLM_AB_'' ''GLM_AB_ALLOW_AA''" "starts_with ''GLM_AB_'' ''GLM_AB_DRAFT_SETS''" "starts_with ''GLM_AB_'' ''GLM_AB_BASE''"
    by (simp_all add: starts_with_def)
  have same: "ab_variants e1 = ab_variants e" "specs_of n e1 = specs_of n e" "capture_mode e1 = capture_mode e" "options_of e1 = options_of e" for n
    by (simp_all add: ab_variants_def specs_of_def capture_mode_def options_of_def get vkey names ab)
  then have chk: "check_options eff e1 = Inr ()" using R(8) by (simp only: check_options_def same)
  have base: "map_of e1 ''GLM_AB_BASE'' = Some (case map_of e ''GLM_AB_BASE'' of Some s \<Rightarrow> s | None \<Rightarrow> dumps (cf_base c))"
    using not_known_ab [OF names(5)] by (simp add: e1 set_base_def update_conv' split: option.split)
  then have base': "base_of loads e1 = Inr (cf_base c)"
    using R(6) assms(2) by (auto simp: base_of_def split: option.splits)
  have "k \<in> fst ` set e" if "k \<in> fst ` set e1" "extra_key (nat n) k" for k
  proof -
    have "length ''GLM_AB_V'' = 8" by simp
    then have t: "take 8 k = ''GLM_AB_V''" using that(2) unfolding extra_key_def starts_with_def by metis
    have "take 7 k = take 7 (take 8 k)" by simp
    then have "take 7 k = ''GLM_AB_''" unfolding t by simp
    moreover have "length ''GLM_AB_'' = 7" by simp
    ultimately have v: "starts_with ''GLM_AB_'' k" unfolding starts_with_def by metis
    have b: "k \<noteq> ''GLM_AB_BASE''" using t by auto
    from ab [OF v b] that(1) show ?thesis by (metis map_of_eq_None_iff)
  qed
  then have extra: "\<not> list_ex (extra_key (nat n)) (map fst e1)" using R(4) by (force simp: list_ex_iff)
  have "configure loads dumps e1 = Inr (Some c, install_union eff (set_base (dumps (cf_base c)) e1))"
    unfolding configure_def using R(2,3,5,7) R(9) extra
    by (simp only: same R(1) bind_r_simps if_False base' chk)
  moreover have "map_of (install_union eff (set_base (dumps (cf_base c)) e1)) = map_of e1"
  proof (rule ext)
    fix k
    have "set_base (dumps (cf_base c)) e1 = e1" by (simp add: set_base_def base)
    then show "map_of (install_union eff (set_base (dumps (cf_base c)) e1)) k = map_of e1 k"
      by (simp only: map_of_install_union) (simp add: e1)
  qed
  ultimately show ?thesis by blast
qed

lemma ab_child_same_example:
  "\<exists>e2. configure (\<lambda>s. Inr (cf_base ab_cfg_demo)) (\<lambda>_. []) (ab_env_demo @ [(''GLM_AB_BASE'', []), (''GLM_KDA_STASH'', ''1'')]) =
     Inr (Some ab_cfg_demo, e2)"
  using ab_child_same [OF ab_configure_demo, of "\<lambda>s. Inr (cf_base ab_cfg_demo)"] by auto

end
