(* ===== verification/Prefill_Shard.thy ===== *)
theory Prefill_Shard
  imports Py_Str
begin

text \<open>
  Row sharding of prefill chunks over the tensor-parallel ranks, \<open>src/overlay/glm_prefill_shard.py\<close>, with the forward of the model
  it replaces (the mHC branch of \<open>Glm5NextDecoderLayer.forward\<close> and \<open>Glm5NextModel.forward\<close> of \<open>src/overlay/glm5next_model.py\<close>).
  A tensor is the list of its rows. Each rank runs a program of its own whose collectives are explicit (\<open>prog\<close>); a group advances
  only when every rank stands at the same collective (\<open>run_group\<close>), so a rank that raises or takes another branch leaves its
  peers waiting. The layers' arithmetic and the reduction are parameters.
\<close>

section \<open>Programs of a rank\<close>

datatype coll_op = AllReduce | AllGather | ReduceScatter

datatype ('v, 'a) prog =
    Raise py_error
  | Ret 'a
  | Coll coll_op "'v list" "'v list \<Rightarrow> ('v, 'a) prog"
  | Vote bool "bool \<Rightarrow> ('v, 'a) prog"

primrec pbind :: "('v, 'a) prog \<Rightarrow> ('a \<Rightarrow> ('v, 'b) prog) \<Rightarrow> ('v, 'b) prog" where
  "pbind (Raise e) f = Raise e"
| "pbind (Ret a) f = f a"
| "pbind (Coll op t c) f = Coll op t (\<lambda>x. pbind (c x) f)"
| "pbind (Vote b c) f = Vote b (\<lambda>x. pbind (c x) f)"

definition coll :: "coll_op \<Rightarrow> 'v list \<Rightarrow> ('v, 'v list) prog" where
  "coll op t = Coll op t Ret"

definition of_result :: "'a result \<Rightarrow> ('v, 'a) prog" where
  "of_result r = (case r of Inl e \<Rightarrow> Raise e | Inr a \<Rightarrow> Ret a)"

section \<open>The model's operations\<close>

text \<open>
  Everything below the forward: \<open>pe_fused idx attn key\<close> is \<open>hc_fused_post_pre\<close> of a layer with its attention or its feed-forward
  weights, \<open>key\<close> the row count its kernel choices are keyed on; \<open>pe_attn\<close> and \<open>pe_mlp\<close> give the partial of one rank before its
  reduction; \<open>pe_reduce\<close> and \<open>pe_scatter\<close> are the group's all-reduce and reduce-scatter.
\<close>

record ('i, 'v) ps_env =
  pe_embed :: "'i \<Rightarrow> 'v list"
  pe_expand :: "'v list \<Rightarrow> nat \<Rightarrow> 'v list"
  pe_contract :: "'v list \<Rightarrow> nat \<Rightarrow> 'v list"
  pe_pre :: "nat \<Rightarrow> nat \<Rightarrow> 'v list \<Rightarrow> 'v list \<times> 'v list \<times> 'v list"
  pe_fused :: "nat \<Rightarrow> bool \<Rightarrow> nat \<Rightarrow> 'v list \<Rightarrow> 'v list \<Rightarrow> 'v list \<Rightarrow> 'v list \<Rightarrow> 'v list \<times> 'v list \<times> 'v list \<times> 'v list"
  pe_post :: "nat \<Rightarrow> nat \<Rightarrow> 'v list \<Rightarrow> 'v list \<Rightarrow> 'v list \<Rightarrow> 'v list \<Rightarrow> 'v list"
  pe_attn :: "nat \<Rightarrow> nat \<Rightarrow> int list \<Rightarrow> 'v list \<Rightarrow> 'v list"
  pe_mlp :: "nat \<Rightarrow> nat \<Rightarrow> 'v list \<Rightarrow> 'v list"
  pe_norm :: "'v list \<Rightarrow> 'v list"
  pe_reduce :: "'v list list \<Rightarrow> 'v list"
  pe_scatter :: "'v list list \<Rightarrow> nat \<Rightarrow> 'v list"
  pe_zero :: "'v list \<Rightarrow> 'v"

record ps_linear =
  pl_reduce :: bool
  pl_tp :: int
  pl_bias :: bool

record ps_moe =
  pm_skip_final :: bool
  pm_seq_parallel :: bool
  pm_tp :: int
  pm_hidden_dim :: int
  pm_all2all :: bool
  pm_dp :: int
  pm_fused_reduced :: bool
  pm_transform :: bool
  pm_mlp_seq_parallel :: bool

record ps_layer =
  ly_idx :: nat
  ly_total :: nat
  ly_n :: nat
  ly_mhc :: bool
  ly_mtp :: bool
  ly_o_proj :: ps_linear
  ly_mla :: "bool option"
  ly_kind :: string
  ly_prefix :: string
  ly_hidden :: int
  ly_mlp :: "ps_linear + ps_moe"

record ps_model =
  md_start :: nat
  md_seq_parallel :: bool
  md_layers :: "ps_layer list"
  md_aux :: "nat set"

text \<open>A group: what each rank gets from a collective, one step of all ranks, and running them to their ends.\<close>

definition answers :: "('i, 'v) ps_env \<Rightarrow> coll_op \<Rightarrow> 'v list list \<Rightarrow> 'v list list" where
  "answers env op ts =
     (case op of
        AllReduce \<Rightarrow> map (\<lambda>_. pe_reduce env ts) ts
      | AllGather \<Rightarrow> map (\<lambda>_. concat ts) ts
      | ReduceScatter \<Rightarrow> map (pe_scatter env ts) [0..<length ts])"

definition coll_of :: "('v, 'a) prog \<Rightarrow> (coll_op \<times> 'v list \<times> ('v list \<Rightarrow> ('v, 'a) prog)) option" where
  "coll_of p = (case p of Coll op t c \<Rightarrow> Some (op, t, c) | _ \<Rightarrow> None)"

definition vote_of :: "('v, 'a) prog \<Rightarrow> (bool \<times> (bool \<Rightarrow> ('v, 'a) prog)) option" where
  "vote_of p = (case p of Vote b c \<Rightarrow> Some (b, c) | _ \<Rightarrow> None)"

definition group_step :: "('i, 'v) ps_env \<Rightarrow> ('v, 'a) prog list \<Rightarrow> ('v, 'a) prog list option" where
  "group_step env ps =
     (case those (map coll_of ps) of
        Some cs \<Rightarrow>
          if list_all (\<lambda>c. fst c = fst (hd cs)) cs
          then Some (map2 (\<lambda>c y. snd (snd c) y) cs (answers env (fst (hd cs)) (map (\<lambda>c. fst (snd c)) cs)))
          else None
      | None \<Rightarrow>
          (case those (map vote_of ps) of
             Some vs \<Rightarrow> Some (map (\<lambda>v. snd v (list_all fst vs)) vs)
           | None \<Rightarrow> None))"

definition outcome :: "('v, 'a) prog \<Rightarrow> 'a result option" where
  "outcome p = (case p of Ret a \<Rightarrow> Some (Inr a) | Raise e \<Rightarrow> Some (Inl e) | _ \<Rightarrow> None)"

partial_function (option) run_group :: "('i, 'v) ps_env \<Rightarrow> ('v, 'a) prog list \<Rightarrow> 'a result list option" where
  "run_group env ps =
     (case those (map outcome ps) of
        Some rs \<Rightarrow> Some rs
      | None \<Rightarrow> (case group_step env ps of None \<Rightarrow> None | Some qs \<Rightarrow> run_group env qs))"

section \<open>The stock forward\<close>

text \<open>A layer whose linear reduces: the partial goes through the all-reduce of the group.\<close>

definition reduced :: "bool \<Rightarrow> 'v list \<Rightarrow> ('v, 'v list) prog" where
  "reduced reduce_results partial = (if reduce_results then coll AllReduce partial else Ret partial)"

definition mlp_reduces :: "ps_layer \<Rightarrow> bool" where
  "mlp_reduces l = (case ly_mlp l of Inl d \<Rightarrow> pl_reduce d | Inr m \<Rightarrow> \<not> pm_skip_final m)"

type_synonym 'v hc_state = "('v list \<times> 'v list \<times> 'v list) option"

definition first_pre :: "('i, 'v) ps_env \<Rightarrow> ps_layer \<Rightarrow> 'v list \<Rightarrow> ('v list \<times> 'v list \<times> 'v list) \<times> 'v list" where
  "first_pre env l x =
     (let x0 = (if ly_idx l = 0 then pe_expand env x (ly_n l) else x)
      in case pe_pre env (ly_idx l) (length x0) x0 of (post, comb, y) \<Rightarrow> ((x0, post, comb), y))"

definition layer_stock ::
    "('i, 'v) ps_env \<Rightarrow> nat \<Rightarrow> int list \<Rightarrow> ps_layer \<Rightarrow> 'v list \<Rightarrow> 'v hc_state \<Rightarrow> ('v, 'v list \<times> 'v hc_state) prog" where
  "layer_stock env rank positions l x st =
     (case (case st of
              None \<Rightarrow> first_pre env l x
            | Some (r, p, c) \<Rightarrow> (case pe_fused env (ly_idx l) True (length x) x r p c of (r', p', c', y) \<Rightarrow> ((r', p', c'), y))) of
        ((r, p, c), y) \<Rightarrow>
          pbind (reduced (pl_reduce (ly_o_proj l)) (pe_attn env (ly_idx l) rank positions y)) (\<lambda>a.
            case pe_fused env (ly_idx l) False (length a) a r p c of
              (r, p, c, y) \<Rightarrow>
                pbind (reduced (mlp_reduces l) (pe_mlp env (ly_idx l) rank y)) (\<lambda>m.
                  if ly_idx l = ly_total l - 1
                  then Ret (pe_contract env (pe_post env (ly_idx l) (length m) m r p c) (ly_n l), None)
                  else Ret (m, Some (r, p, c)))))"

definition aux_stock :: "('i, 'v) ps_env \<Rightarrow> ps_layer \<Rightarrow> 'v list \<Rightarrow> 'v hc_state \<Rightarrow> 'v list" where
  "aux_stock env l x st =
     (case st of None \<Rightarrow> x | Some (r, p, c) \<Rightarrow> pe_contract env (pe_post env (ly_idx l) (length x) x r p c) (ly_n l))"

primrec layers_stock ::
    "('i, 'v) ps_env \<Rightarrow> nat \<Rightarrow> int list \<Rightarrow> nat set \<Rightarrow> ps_layer list \<Rightarrow> nat \<Rightarrow> 'v list \<Rightarrow> 'v hc_state \<Rightarrow> 'v list list \<Rightarrow>
      ('v, 'v list \<times> 'v list list) prog" where
  "layers_stock env rank positions aux [] idx x st auxs = Ret (pe_norm env x, auxs)"
| "layers_stock env rank positions aux (l # ls) idx x st auxs =
     pbind (layer_stock env rank positions l x st) (\<lambda>(x, st).
       layers_stock env rank positions aux ls (idx + 1) x st
         (if idx + 1 \<in> aux then auxs @ [aux_stock env l x st] else auxs))"

definition embeddings :: "('i, 'v) ps_env \<Rightarrow> 'i \<Rightarrow> 'v list option \<Rightarrow> 'v list" where
  "embeddings env ids embeds = (case embeds of Some x \<Rightarrow> x | None \<Rightarrow> pe_embed env ids)"

definition model_stock ::
    "('i, 'v) ps_env \<Rightarrow> nat \<Rightarrow> ps_model \<Rightarrow> 'i \<Rightarrow> int list \<Rightarrow> 'v list option \<Rightarrow> ('v, 'v list \<times> 'v list list) prog" where
  "model_stock env rank m ids positions embeds =
     layers_stock env rank positions (md_aux m) (md_layers m) (md_start m) (embeddings env ids embeds) None []"

section \<open>Row ownership\<close>

datatype ps_mode = Off | Comm | Shard

definition parse_mode :: "string option \<Rightarrow> ps_mode" where
  "parse_mode raw =
     (let s = (case raw of None \<Rightarrow> [] | Some r \<Rightarrow> lower (strip r))
      in if s = ''comm'' then Comm else if s \<in> {''1'', ''on'', ''true'', ''shard''} then Shard else Off)"

definition ps_flag :: "string option \<Rightarrow> bool" where
  "ps_flag v = (lower (strip (case v of None \<Rightarrow> ''0'' | Some s \<Rightarrow> s)) \<in> {''1'', ''on'', ''true'', ''yes''})"

record own =
  ow_rank :: nat
  ow_rows :: nat
  ow_mode :: ps_mode
  ow_exact :: bool
  ow_q :: nat
  ow_pad :: nat
  ow_lo :: nat
  ow_real :: nat

definition ownership :: "nat \<Rightarrow> nat \<Rightarrow> nat \<Rightarrow> ps_mode \<Rightarrow> bool \<Rightarrow> bool \<Rightarrow> own result" where
  "ownership rank world rows mode exact pad =
     (if rows mod world \<noteq> 0 \<and> \<not> pad then Inl RuntimeError
      else let q = cdiv rows world; lo = rank * q
           in Inr \<lparr>ow_rank = rank, ow_rows = rows, ow_mode = mode, ow_exact = (exact \<and> mode = Shard), ow_q = q,
                   ow_pad = q * world - rows, ow_lo = lo, ow_real = min q (rows - lo)\<rparr>)"

definition pad_to :: "('i, 'v) ps_env \<Rightarrow> own \<Rightarrow> 'v list \<Rightarrow> 'v list" where
  "pad_to env ow t = (if ow_pad ow = 0 then t else t @ replicate (ow_pad ow) (pe_zero env t))"

definition own_local :: "('i, 'v) ps_env \<Rightarrow> own \<Rightarrow> 'v list \<Rightarrow> 'v list result" where
  "own_local env ow t =
     (if ow_mode ow = Comm then Inr t
      else if length t \<noteq> ow_rows ow then Inl RuntimeError
      else if ow_real ow = ow_q ow then Inr (take (ow_q ow) (drop (ow_lo ow) t))
      else Inr (take (ow_real ow) (drop (min (ow_lo ow) (ow_rows ow)) t) @ replicate (ow_q ow - ow_real ow) (pe_zero env t)))"

definition own_full :: "own \<Rightarrow> 'v list \<Rightarrow> 'v list" where
  "own_full ow t = (if ow_pad ow = 0 then t else take (ow_rows ow) t)"

definition own_gather :: "own \<Rightarrow> 'v list \<Rightarrow> ('v, 'v list) prog" where
  "own_gather ow t =
     (if ow_mode ow = Comm then Ret t
      else if length t \<noteq> ow_q ow then Raise RuntimeError
      else pbind (coll AllGather t) (\<lambda>y. Ret (own_full ow y)))"

definition own_reduce :: "('i, 'v) ps_env \<Rightarrow> own \<Rightarrow> 'v list \<Rightarrow> ('v, 'v list) prog" where
  "own_reduce env ow partial =
     (if length partial \<noteq> ow_rows ow then Raise RuntimeError
      else if ow_mode ow = Comm
      then pbind (coll ReduceScatter (pad_to env ow partial)) (\<lambda>y. pbind (coll AllGather y) (\<lambda>z. Ret (own_full ow z)))
      else if ow_exact ow then pbind (coll AllReduce partial) (\<lambda>y. of_result (own_local env ow y))
      else coll ReduceScatter (pad_to env ow partial))"

text \<open>\<open>rows_ctx\<close> and \<open>logical_rows\<close>: the row count that keys a kernel choice.\<close>

definition rows_ctx :: "own \<Rightarrow> nat option" where
  "rows_ctx ow = (if ow_mode ow = Shard then Some (ow_rows ow) else None)"

definition kernel_key :: "nat option \<Rightarrow> nat \<Rightarrow> nat" where
  "kernel_key logical rows = (case logical of None \<Rightarrow> rows | Some r \<Rightarrow> r)"


text \<open>The kernel choices of the mHC pre-norm product and its split, keyed on the logical rows while a sharded operation runs.\<close>

datatype prenorm_call =
    BlockM nat nat nat nat
  | Prenorm nat nat nat nat

definition prenorm_choice :: "nat \<Rightarrow> nat \<Rightarrow> nat \<Rightarrow> nat \<Rightarrow> nat \<Rightarrow> nat \<Rightarrow> prenorm_call" where
  "prenorm_choice rows cols fn_rows tile_n n_thr n_splits =
     (let default = (tile_n = 12 \<and> n_thr = 512)
      in if n_splits = 1 \<and> default \<and> 1024 \<le> rows then BlockM fn_rows n_thr tile_n 2
         else if n_splits = 1 \<and> default \<and> rows < 128 \<and> cols mod 1024 = 0 then Prenorm fn_rows 1024 4 n_splits
         else Prenorm fn_rows n_thr tile_n n_splits)"

definition prenorm_dispatch ::
    "(nat \<Rightarrow> nat \<Rightarrow> nat \<Rightarrow> nat \<Rightarrow> nat \<Rightarrow> nat \<Rightarrow> prenorm_call result) \<Rightarrow> nat option \<Rightarrow> nat \<Rightarrow> nat \<Rightarrow> nat \<Rightarrow> nat \<Rightarrow> nat \<Rightarrow> nat \<Rightarrow> nat \<Rightarrow> nat \<Rightarrow>
       nat \<Rightarrow> nat \<Rightarrow> prenorm_call result" where
  "prenorm_dispatch orig logical x_rows x_cols out_rows sq_rows hidden_size hc_mult fn_rows tile_n n_thr n_splits =
     (case logical of
        None \<Rightarrow> orig x_rows x_cols fn_rows tile_n n_thr n_splits
      | Some rows \<Rightarrow>
          if rows = x_rows then orig x_rows x_cols fn_rows tile_n n_thr n_splits
          else if \<not> (out_rows = n_splits \<and> sq_rows = n_splits) then Inl AssertionError
          else if x_cols \<noteq> hc_mult * hidden_size then Inl AssertionError
          else Inr (prenorm_choice rows x_cols fn_rows tile_n n_thr n_splits))"

definition num_split :: "(nat \<Rightarrow> nat \<Rightarrow> nat \<Rightarrow> nat) \<Rightarrow> nat option \<Rightarrow> nat \<Rightarrow> nat \<Rightarrow> nat \<Rightarrow> nat" where
  "num_split orig logical block_k k grid_size = orig block_k k (case logical of None \<Rightarrow> grid_size | Some rows \<Rightarrow> cdiv rows 64)"

section \<open>The sharded forward\<close>

text \<open>
  The check of the first sharded fused operation of a row count: the stock operation on the gathered rows beside the sharded one. A
  difference on any rank makes every rank keep the stock rows and marks the row count (the last component).
\<close>

definition check_fused ::
    "('i, 'v) ps_env \<Rightarrow> own \<Rightarrow> ps_layer \<Rightarrow> 'v list \<Rightarrow> 'v list \<Rightarrow> 'v list \<Rightarrow> 'v list \<Rightarrow>
      ('v, ('v list \<times> 'v list \<times> 'v list \<times> 'v list) \<times> bool) prog" where
  "check_fused env ow l x r p c =
     (let out_s = pe_fused env (ly_idx l) True (kernel_key (rows_ctx ow) (length x)) x r p c
      in pbind (coll AllGather x) (\<lambda>fx. pbind (coll AllGather r) (\<lambda>fr. pbind (coll AllGather p) (\<lambda>fp. pbind (coll AllGather c) (\<lambda>fc.
           case pe_fused env (ly_idx l) True (length fx) fx fr fp fc of
             (r1, p1, c1, x1) \<Rightarrow>
               pbind (of_result (bind_r (own_local env ow r1) (\<lambda>r2. bind_r (own_local env ow p1) (\<lambda>p2.
                        bind_r (own_local env ow c1) (\<lambda>c2. bind_r (own_local env ow x1) (\<lambda>x2. Inr (r2, p2, c2, x2)))))))
                 (\<lambda>mine. Vote (out_s = mine) (\<lambda>agreed. Ret (if agreed then out_s else mine, \<not> agreed))))))))"

text \<open>The start of a layer: the state of the owned rows, the full rows for the attention, and the verdict of the check.\<close>

definition layer_start ::
    "('i, 'v) ps_env \<Rightarrow> own \<Rightarrow> bool \<Rightarrow> ps_layer \<Rightarrow> 'v list \<Rightarrow> 'v hc_state \<Rightarrow> ('v, ('v list \<times> 'v list \<times> 'v list) \<times> 'v list \<times> bool) prog" where
  "layer_start env ow check l x st =
     (case st of
        None \<Rightarrow>
          (case first_pre env l x of ((r, p, c), y) \<Rightarrow>
             of_result (bind_r (own_local env ow r) (\<lambda>r. bind_r (own_local env ow p) (\<lambda>p. bind_r (own_local env ow c) (\<lambda>c.
               Inr ((r, p, c), y, False))))))
      | Some (r, p, c) \<Rightarrow>
          pbind (if check then check_fused env ow l x r p c
                 else Ret (pe_fused env (ly_idx l) True (kernel_key (rows_ctx ow) (length x)) x r p c, False))
            (\<lambda>((r, p, c, y), bad). pbind (own_gather ow y) (\<lambda>y. Ret ((r, p, c), y, bad))))"

definition layer_forward ::
    "('i, 'v) ps_env \<Rightarrow> own \<Rightarrow> bool \<Rightarrow> int list \<Rightarrow> ps_layer \<Rightarrow> 'v list \<Rightarrow> 'v hc_state \<Rightarrow> ('v, 'v list \<times> 'v hc_state \<times> bool) prog" where
  "layer_forward env ow check positions l x st =
     pbind (layer_start env ow check l x st) (\<lambda>((r, p, c), y, bad).
       pbind (reduced False (pe_attn env (ly_idx l) (ow_rank ow) positions y)) (\<lambda>a.
       pbind (own_reduce env ow a) (\<lambda>a.
         case pe_fused env (ly_idx l) False (kernel_key (rows_ctx ow) (length a)) a r p c of
           (r, p, c, y) \<Rightarrow>
             pbind (own_gather ow y) (\<lambda>y.
             pbind (reduced False (pe_mlp env (ly_idx l) (ow_rank ow) y)) (\<lambda>m.
             pbind (own_reduce env ow m) (\<lambda>m.
               if ly_idx l = ly_total l - 1
               then Ret (pe_contract env (pe_post env (ly_idx l) (kernel_key (rows_ctx ow) (length m)) m r p c) (ly_n l), None, bad)
               else Ret (m, Some (r, p, c), bad)))))))"

definition aux_owned :: "('i, 'v) ps_env \<Rightarrow> own \<Rightarrow> ps_layer \<Rightarrow> 'v list \<Rightarrow> 'v hc_state \<Rightarrow> 'v list" where
  "aux_owned env ow l x st =
     (case st of
        None \<Rightarrow> x
      | Some (r, p, c) \<Rightarrow> pe_contract env (pe_post env (ly_idx l) (kernel_key (rows_ctx ow) (length x)) x r p c) (ly_n l))"

primrec layers_forward ::
    "('i, 'v) ps_env \<Rightarrow> own \<Rightarrow> nat option \<Rightarrow> int list \<Rightarrow> nat set \<Rightarrow> ps_layer list \<Rightarrow> nat \<Rightarrow> 'v list \<Rightarrow> 'v hc_state \<Rightarrow> 'v list list \<Rightarrow> bool \<Rightarrow>
      ('v, ('v list \<times> 'v list list) \<times> bool) prog" where
  "layers_forward env ow check positions aux [] idx x st auxs bad =
     pbind (own_gather ow x) (\<lambda>h. Ret ((pe_norm env h, auxs), bad))"
| "layers_forward env ow check positions aux (l # ls) idx x st auxs bad =
     pbind (layer_forward env ow (check = Some idx) positions l x st) (\<lambda>(x, st, b).
       pbind (if idx + 1 \<in> aux then pbind (own_gather ow (aux_owned env ow l x st)) (\<lambda>a. Ret (auxs @ [a])) else Ret auxs) (\<lambda>auxs.
         layers_forward env ow check positions aux ls (idx + 1) x st auxs (bad \<or> b)))"

definition model_forward ::
    "('i, 'v) ps_env \<Rightarrow> own \<Rightarrow> bool \<Rightarrow> ps_model \<Rightarrow> 'i \<Rightarrow> int list \<Rightarrow> 'v list option \<Rightarrow> ('v, ('v list \<times> 'v list list) \<times> bool) prog" where
  "model_forward env ow check m ids positions embeds =
     layers_forward env ow (if check then Some (md_start m + 1) else None) positions (md_aux m) (md_layers m) (md_start m)
       (embeddings env ids embeds) None [] False"

section \<open>Which forwards are sharded\<close>

definition tp_world :: nat where
  "tp_world = 4"

primrec validate_layers :: "ps_layer list \<Rightarrow> string option \<Rightarrow> string result" where
  "validate_layers [] name = (case name of None \<Rightarrow> Inl RuntimeError | Some n \<Rightarrow> Inr n)"
| "validate_layers (l # ls) name =
     (if \<not> ly_mhc l \<or> ly_mtp l then Inl RuntimeError
      else if \<not> pl_reduce (ly_o_proj l) \<or> pl_tp (ly_o_proj l) \<noteq> int tp_world \<or> pl_bias (ly_o_proj l) then Inl RuntimeError
      else if ly_mla l = Some False then Inl RuntimeError
      else
        let name' = (if ly_kind l = ''kda'' \<and> name = None then Some (ly_prefix l) else name)
        in case ly_mlp l of
             Inr m \<Rightarrow>
               if pm_skip_final m \<or> pm_seq_parallel m \<or> pm_tp m \<noteq> int tp_world \<or> pm_hidden_dim m \<noteq> ly_hidden l \<or> pm_all2all m \<or>
                  pm_dp m \<noteq> 1 \<or> pm_fused_reduced m \<or> pm_transform m \<or> pm_mlp_seq_parallel m
               then Inl RuntimeError
               else validate_layers ls name'
           | Inl d \<Rightarrow>
               if \<not> pl_reduce d \<or> pl_tp d \<noteq> int tp_world \<or> pl_bias d then Inl RuntimeError
               else validate_layers ls name')"

definition validate_model :: "ps_model \<Rightarrow> string result" where
  "validate_model m = (if md_start m \<noteq> 0 \<or> md_seq_parallel m then Inl RuntimeError else validate_layers (md_layers m) None)"

record shard_knobs =
  kn_mode :: ps_mode
  kn_exact :: bool
  kn_min_rows :: int
  kn_mixed :: bool
  kn_check :: bool
  kn_pad :: bool

record ps_rt =
  rt_validated :: "bool option"
  rt_bad :: "nat set"
  rt_checked :: "nat set"
  rt_kda :: string

record ps_md =
  mt_prefills :: int
  mt_prefill_tokens :: int
  mt_decodes :: int
  mt_spec :: int

text \<open>
  The forward context: whether a graph mode or micro batches are set, and the attention metadata (a mapping or not; an entry whose
  counts cannot be read is \<open>Some None\<close>).
\<close>

record ps_ctx =
  cx_graph_mode :: bool
  cx_ubatch :: bool
  cx_metadata :: "(string \<Rightarrow> ps_md option option) option"

text \<open>The variant of the A/B harness when it is armed: which keys it knows and what it reads.\<close>

record ps_ab =
  ab_knows :: "string \<Rightarrow> bool"
  ab_read :: "string \<Rightarrow> string \<Rightarrow> string"
  ab_true :: "string \<Rightarrow> bool"

definition call_mode :: "shard_knobs \<Rightarrow> ps_ab option \<Rightarrow> ps_mode" where
  "call_mode kn ab =
     (case ab of
        None \<Rightarrow> kn_mode kn
      | Some a \<Rightarrow> if ab_knows a ''GLM_PREFILL_SHARD'' then parse_mode (Some (ab_read a ''GLM_PREFILL_SHARD'' ''0'')) else kn_mode kn)"

definition call_pad :: "shard_knobs \<Rightarrow> ps_ab option \<Rightarrow> bool" where
  "call_pad kn ab =
     (case ab of
        None \<Rightarrow> kn_pad kn
      | Some a \<Rightarrow> if ab_knows a ''GLM_PREFILL_SHARD_PAD'' then ab_true a (ab_read a ''GLM_PREFILL_SHARD_PAD'' ''0'') else kn_pad kn)"

definition pure_or_mixed_prefill :: "shard_knobs \<Rightarrow> (string \<Rightarrow> ps_md option option) option \<Rightarrow> string \<Rightarrow> nat \<Rightarrow> bool" where
  "pure_or_mixed_prefill kn metadata kda_name rows =
     (case metadata of
        None \<Rightarrow> False
      | Some d \<Rightarrow>
          (case d kda_name of
             Some (Some md) \<Rightarrow>
               if mt_prefills md \<le> 0 \<or> mt_prefill_tokens md \<le> 0 \<or> int rows < mt_prefill_tokens md then False
               else kn_mixed kn \<or> mt_decodes md = 0 \<and> mt_spec md = 0
           | _ \<Rightarrow> False))"

definition candidate_context :: "shard_knobs \<Rightarrow> ps_ab option \<Rightarrow> ps_rt \<Rightarrow> nat \<Rightarrow> bool \<Rightarrow> bool \<Rightarrow> ps_ctx option \<Rightarrow> ps_ctx option" where
  "candidate_context kn ab rt rows intermediate tracing ctx =
     (if kn_mode kn = Off \<or> call_mode kn ab = Off \<or> rt_validated rt = Some False \<or> rows \<in> rt_bad rt then None
      else if intermediate \<or> int rows < kn_min_rows kn \<or> rows mod tp_world \<noteq> 0 \<and> \<not> call_pad kn ab then None
      else if tracing then None
      else case ctx of
             None \<Rightarrow> None
           | Some c \<Rightarrow> if cx_graph_mode c \<or> cx_ubatch c then None else Some c)"

definition first_candidate :: "string result \<Rightarrow> ps_rt \<Rightarrow> ('v, ps_rt) prog" where
  "first_candidate valid rt =
     (let name = (case valid of Inl _ \<Rightarrow> [] | Inr n \<Rightarrow> n)
      in Vote (name \<noteq> []) (\<lambda>ok. Ret (rt\<lparr>rt_kda := name, rt_validated := Some ok\<rparr>)))"

text \<open>The patched \<open>forward\<close> of one rank: the output and what the rank remembers.\<close>

definition shard_call ::
    "('i, 'v) ps_env \<Rightarrow> shard_knobs \<Rightarrow> ps_ab option \<Rightarrow> nat \<Rightarrow> nat \<Rightarrow> ps_rt \<Rightarrow> ps_model \<Rightarrow> 'i \<Rightarrow> int list \<Rightarrow> 'v list option \<Rightarrow>
      ('v, ps_rt \<times> 'v list \<times> 'v list list) prog" where
  "shard_call env kn ab rank world rt m ids positions embeds =
     (let rows = length positions; mode = call_mode kn ab
      in pbind (of_result (ownership rank world rows mode (kn_exact kn) (call_pad kn ab))) (\<lambda>ow.
           let check = (kn_check kn \<and> mode = Shard \<and> rows \<notin> rt_checked rt);
               rt1 = (if check then rt\<lparr>rt_checked := insert rows (rt_checked rt)\<rparr> else rt)
           in pbind (model_forward env ow check m ids positions embeds) (\<lambda>(out, bad).
                Ret (if bad then rt1\<lparr>rt_bad := insert rows (rt_bad rt1)\<rparr> else rt1, out))))"

definition forward_call ::
    "('i, 'v) ps_env \<Rightarrow> shard_knobs \<Rightarrow> ps_ab option \<Rightarrow> nat \<Rightarrow> nat \<Rightarrow> ps_rt \<Rightarrow> ps_model \<Rightarrow> 'i \<Rightarrow> int list \<Rightarrow> bool \<Rightarrow> bool \<Rightarrow> ps_ctx option \<Rightarrow>
      'v list option \<Rightarrow> ('v, ps_rt \<times> 'v list \<times> 'v list list) prog" where
  "forward_call env kn ab rank world rt m ids positions intermediate tracing ctx embeds =
     (let rows = length positions;
          stock = (\<lambda>rt. pbind (model_stock env rank m ids positions embeds) (\<lambda>out. Ret (rt, out)))
      in case candidate_context kn ab rt rows intermediate tracing ctx of
           None \<Rightarrow> stock rt
         | Some c \<Rightarrow>
             pbind (if rt_validated rt = None then first_candidate (validate_model m) rt else Ret rt) (\<lambda>rt.
               if rt_validated rt \<noteq> Some True \<or> \<not> pure_or_mixed_prefill kn (cx_metadata c) (rt_kda rt) rows then stock rt
               else shard_call env kn ab rank world rt m ids positions embeds))"

text \<open>The vote of the ranks when the model is built.\<close>

definition ps_init :: "shard_knobs list \<Rightarrow> shard_knobs \<Rightarrow> ps_rt result" where
  "ps_init votes mine =
     (if list_ex (\<lambda>v. v \<noteq> mine) votes then Inl RuntimeError
      else if length votes \<noteq> tp_world then Inl RuntimeError
      else Inr \<lparr>rt_validated = None, rt_bad = {}, rt_checked = {}, rt_kda = []\<rparr>)"

text \<open>\<open>install\<close>: whether the class is patched.\<close>

definition ps_install :: "shard_knobs \<Rightarrow> bool result" where
  "ps_install kn =
     (if kn_mode kn = Off then Inr False else if kn_mode kn = Comm \<and> kn_exact kn then Inl RuntimeError else Inr True)"

end
