(* ===== verification/Shard_Group.thy ===== *)
theory Shard_Group
  imports Prefill_Shard
begin

text \<open>
  Groups of ranks that run programs with collectives: \<open>yields\<close> says that a whole group gets through and with which results, and is
  built along the programs; \<open>yields_run\<close> turns it into a run of the group.
\<close>

section \<open>Groups that get through\<close>

inductive yields :: "('i, 'v) ps_env \<Rightarrow> nat \<Rightarrow> (nat \<Rightarrow> ('v, 'a) prog) \<Rightarrow> (nat \<Rightarrow> 'a result) \<Rightarrow> bool" for env n where
  finished: "(\<And>k. k < n \<Longrightarrow> p k = of_result (r k)) \<Longrightarrow> yields env n p r"
| collective: "(\<And>k. k < n \<Longrightarrow> p k = Coll op (t k) (c k)) \<Longrightarrow>
    yields env n (\<lambda>k. c k (answers env op (map t [0..<n]) ! k)) r \<Longrightarrow> yields env n p r"
| vote: "(\<And>k. k < n \<Longrightarrow> p k = Vote (b k) (c k)) \<Longrightarrow> yields env n (\<lambda>k. c k (list_all b [0..<n])) r \<Longrightarrow> yields env n p r"

lemma of_result_simps [simp]:
  "of_result (Inl e) = Raise e"
  "of_result (Inr a) = Ret a"
  by (simp_all add: of_result_def)

lemma those_map: "(\<And>x. x \<in> set xs \<Longrightarrow> f x = Some (g x)) \<Longrightarrow> those (map f xs) = Some (map g xs)"
  by (induction xs) auto

lemma those_upt: "(\<And>k. k < n \<Longrightarrow> f (p k) = Some (g k)) \<Longrightarrow> those (map f (map p [0..<n])) = Some (map g [0..<n])"
  unfolding map_map by (rule those_map) simp

lemma those_none: "x \<in> set xs \<Longrightarrow> f x = None \<Longrightarrow> those (map f xs) = None"
  by (induction xs) (auto split: option.split)

lemma those_map_option: "those (map (\<lambda>x. map_option k (f x)) xs) = map_option (map k) (those (map f xs))"
  by (induction xs) (auto split: option.split simp: option.map_comp o_def)

lemma outcome_simps [simp]:
  "outcome (of_result r) = Some r"
  "outcome (Ret a) = Some (Inr a)"
  "outcome (Raise e) = Some (Inl e)"
  "outcome (Coll op t c) = None"
  "outcome (Vote b v) = None"
  by (auto simp: outcome_def of_result_def split: sum.split)

lemma length_answers [simp]: "length (answers env op ts) = length ts"
  by (simp add: answers_def split: coll_op.split)

lemma step_coll:
  assumes "0 < n" "\<And>k. k < n \<Longrightarrow> p k = Coll op (t k) (c k)"
  shows "group_step env (map p [0..<n]) = Some (map (\<lambda>k. c k (answers env op (map t [0..<n]) ! k)) [0..<n])"
proof -
  let ?cs = "map (\<lambda>k. (op, t k, c k)) [0..<n]"
  have cs: "those (map coll_of (map p [0..<n])) = Some ?cs"
    by (rule those_upt) (simp add: assms(2) coll_of_def)
  have hd: "fst (hd ?cs) = op" using assms(1) by (simp add: hd_map)
  have pl: "map (\<lambda>c. fst (snd c)) ?cs = map t [0..<n]" by simp
  show ?thesis unfolding group_step_def cs option.case hd pl
    by (auto simp: list_all_iff intro!: nth_equalityI)
qed

lemma step_vote:
  assumes "0 < n" "\<And>k. k < n \<Longrightarrow> p k = Vote (b k) (c k)"
  shows "group_step env (map p [0..<n]) = Some (map (\<lambda>k. c k (list_all b [0..<n])) [0..<n])"
proof -
  have "those (map coll_of (map p [0..<n])) = None"
    using assms by (auto simp: coll_of_def intro: those_none [of 0])
  moreover have "those (map vote_of (map p [0..<n])) = Some (map (\<lambda>k. (b k, c k)) [0..<n])"
    by (rule those_upt) (simp add: assms(2) vote_of_def)
  ultimately show ?thesis by (simp add: group_step_def list_all_iff)
qed

lemma yields_run:
  assumes "0 < n" "yields env n p r"
  shows "run_group env (map p [0..<n]) = Some (map r [0..<n])"
  using assms(2)
proof induction
  case (finished p r)
  then have "those (map outcome (map p [0..<n])) = Some (map r [0..<n])" by (intro those_upt) simp
  then show ?case by (subst run_group.simps) simp
next
  case (collective p op t c r)
  have "those (map outcome (map p [0..<n])) = None"
    using assms(1) collective(1) by (auto intro: those_none [of 0])
  then show ?case using step_coll [OF assms(1), of p op t c env] collective
    by (subst run_group.simps) simp
next
  case (vote p b c r)
  have "those (map outcome (map p [0..<n])) = None"
    using assms(1) vote(1) by (auto intro: those_none [of 0])
  then show ?case using step_vote [OF assms(1), of p b c env] vote
    by (subst run_group.simps) simp
qed

lemma yields_ret [intro]: "yields env n (\<lambda>k. Ret (r k)) (\<lambda>k. Inr (r k))"
  by (rule yields.finished) simp

lemma yields_cong: "yields env n p r \<Longrightarrow> (\<And>k. k < n \<Longrightarrow> p' k = p k) \<Longrightarrow> yields env n p' r"
  by (induction rule: yields.induct) (auto intro: yields.intros)

lemma yields_coll:
  "yields env n (\<lambda>k. coll op (t k)) (\<lambda>k. Inr (answers env op (map t [0..<n]) ! k))"
  unfolding coll_def by (rule yields.collective [OF refl]) (rule yields_ret)

lemma yields_bind:
  assumes "yields env n p r" "\<And>k. k < n \<Longrightarrow> r k = Inr (a k)" "yields env n (\<lambda>k. f k (a k)) s"
  shows "yields env n (\<lambda>k. pbind (p k) (f k)) s"
  using assms
proof (induction)
  case (finished p r)
  then show ?case by (auto intro: yields_cong)
next
  case (collective p op t c r)
  show ?case
    by (rule yields.collective [where t = t and op = op and c = "\<lambda>k x. pbind (c k x) (f k)"])
      (use collective in simp_all)
next
  case (vote p b c r)
  show ?case
    by (rule yields.vote [where b = b and c = "\<lambda>k x. pbind (c k x) (f k)"]) (use vote in simp_all)
qed

lemma yields_bind_err:
  assumes "yields env n p r" "\<And>k. k < n \<Longrightarrow> r k = Inl e"
  shows "yields env n (\<lambda>k. pbind (p k) (f k)) (\<lambda>_. Inl e)"
  using assms
proof (induction)
  case (finished p r)
  then show ?case by (auto intro!: yields.finished)
next
  case (collective p op t c r)
  show ?case
    by (rule yields.collective [where t = t and op = op and c = "\<lambda>k x. pbind (c k x) (f k)"])
      (use collective in simp_all)
next
  case (vote p b c r)
  show ?case
    by (rule yields.vote [where b = b and c = "\<lambda>k x. pbind (c k x) (f k)"]) (use vote in simp_all)
qed

text \<open>Rewriting the results of a group of programs rewrites its outcome, also when it does not get through.\<close>

lemma step_map:
  assumes "ps \<noteq> []"
  shows "group_step env (map (\<lambda>p. pbind p (\<lambda>a. Ret (g a))) ps) = map_option (map (\<lambda>p. pbind p (\<lambda>a. Ret (g a)))) (group_step env ps)"
proof -
  let ?h = "\<lambda>p. pbind p (\<lambda>a. Ret (g a))"
  let ?H = "\<lambda>(op, t, c). (op, t, \<lambda>x. ?h (c x))"
  have c: "coll_of (?h p) = map_option ?H (coll_of p)" for p by (cases p) (simp_all add: coll_of_def)
  have v: "vote_of (?h p) = map_option (\<lambda>(b, c). (b, \<lambda>x. ?h (c x))) (vote_of p)" for p by (cases p) (simp_all add: vote_of_def)
  show ?thesis
  proof (cases "those (map coll_of ps)")
    case None
    then show ?thesis
      by (cases "those (map vote_of ps)")
        (simp_all add: group_step_def o_def c v those_map_option case_prod_beta' list.pred_map)
  next
    case (Some cs)
    have ne: "cs \<noteq> []"
      using Some assms by (cases ps) (auto split: option.splits)
    let ?cs = "map ?H cs"
    have "those (map coll_of (map ?h ps)) = Some ?cs" using Some by (simp add: o_def c those_map_option)
    moreover have "fst (hd ?cs) = fst (hd cs)" using ne by (simp add: hd_map case_prod_beta)
    moreover have "map (\<lambda>c. fst (snd c)) ?cs = map (\<lambda>c. fst (snd c)) cs" by (simp add: case_prod_beta)
    moreover have "map2 (\<lambda>c y. snd (snd c) y) ?cs ys = map ?h (map2 (\<lambda>c y. snd (snd c) y) cs ys)" for ys
      by (simp add: zip_map1 case_prod_beta o_def)
    ultimately show ?thesis using Some
      by (simp add: group_step_def list.pred_map o_def case_prod_beta)
  qed
qed

lemma step_head:
  "group_step env (Coll op t c # ps) = Some qs \<Longrightarrow> \<exists>y qs'. qs = c y # qs'"
  "group_step env (Vote b v # ps) = Some qs \<Longrightarrow> \<exists>y qs'. qs = v y # qs'"
proof -
  assume a: "group_step env (Coll op t c # ps) = Some qs"
  then obtain cs where "those (map coll_of ps) = Some cs"
    by (cases "those (map coll_of ps)") (auto simp: group_step_def coll_of_def vote_of_def)
  moreover obtain y ys where "answers env op (t # map (\<lambda>c. fst (snd c)) cs) = y # ys"
    using length_answers [of env op "t # map (\<lambda>c. fst (snd c)) cs"] by (cases "answers env op (t # map (\<lambda>c. fst (snd c)) cs)") auto
  ultimately show "\<exists>y qs'. qs = c y # qs'" using a
    by (auto simp: group_step_def coll_of_def split: if_splits)
qed (auto simp: group_step_def coll_of_def vote_of_def split: option.splits)

lemma run_map:
  "run_group env (map (\<lambda>q. pbind q (\<lambda>a. Ret (g a))) (p # ps)) = map_option (map (map_sum id g)) (run_group env (p # ps))"
proof (induction p arbitrary: ps)
  let ?h = "\<lambda>q. pbind q (\<lambda>a. Ret (g a))"
  have o: "outcome (?h q) = map_option (map_sum id g) (outcome q)" for q by (cases q) simp_all
  have fin: "run_group env (map ?h (q # ps)) = map_option (map (map_sum id g)) (run_group env (q # ps))"
    if "coll_of q = None" "vote_of q = None" for q ps
  proof -
    have stuck: "group_step env (q # ps) = None" using that by (simp add: group_step_def)
    then have "group_step env (map ?h (q # ps)) = None" using step_map [of "q # ps" env g] by simp
    moreover have "those (map outcome (map ?h (q # ps))) = map_option (map (map_sum id g)) (those (map outcome (q # ps)))"
      unfolding map_map o_def by (simp only: o those_map_option)
    ultimately show ?thesis using stuck
      by (subst (1 2) run_group.simps) (simp split: option.split)
  qed
  {
    case (Raise e) show ?case by (rule fin) (simp_all add: coll_of_def vote_of_def)
  next
    case (Ret a) show ?case by (rule fin) (simp_all add: coll_of_def vote_of_def)
  next
    case (Coll op t c)
    show ?case
      using step_map [of "Coll op t c # ps" env g] Coll
      by (subst (1 2) run_group.simps) (auto simp: id_def split: option.split dest!: step_head(1))
  next
    case (Vote b v)
    show ?case
      using step_map [of "Vote b v # ps" env g] Vote
      by (subst (1 2) run_group.simps) (auto simp: id_def split: option.split dest!: step_head(2))
  }
qed

lemma run_replicate: "0 < n \<Longrightarrow> yields env n p (\<lambda>_. r) \<Longrightarrow> run_group env (map p [0..<n]) = Some (replicate n r)"
  using yields_run [of n env p "\<lambda>_. r"] by (simp add: map_replicate_const)

text \<open>The first vote of a group is the same for all its ranks.\<close>

lemma run_vote:
  assumes "0 < n"
  shows "run_group env (map (\<lambda>k. Vote b (c k)) [0..<n]) = run_group env (map (\<lambda>k. c k b) [0..<n])"
proof -
  have "those (map outcome (map (\<lambda>k. Vote b (c k)) [0..<n])) = None"
    using assms by (auto intro: those_none [of 0])
  moreover have "list_all (\<lambda>_. b) [0..<n] = b" using assms by (auto simp: list_all_iff)
  moreover have "group_step env (map (\<lambda>k. Vote b (c k)) [0..<n]) = Some (map (\<lambda>k. c k (list_all (\<lambda>_. b) [0..<n])) [0..<n])"
    by (rule step_vote [OF assms refl])
  ultimately show ?thesis by (subst run_group.simps) simp
qed

end
