(* ===== verification/Shard_Props.thy ===== *)
theory Shard_Props
  imports Shard_Group
begin

text \<open>
  What row sharding keeps. \<open>part\<close> relates the rows a rank owns to the rows of the stock forward; a layer, the layers and the forward
  preserve it. The main result: whatever the switches, the metadata and the history, the ranks take the same branch and the forward
  returns what the stock forward returns. The check of the first chunk fails on padded rows (a finding).
\<close>

section \<open>Kernel choices\<close>

text \<open>Where the stock dispatch follows its documented rule, a share of any size gets the kernel of the whole chunk.\<close>

lemma dispatch_keyed:
  assumes "\<And>r. orig r cols fn_rows tile_n n_thr n_splits = Inr (prenorm_choice r cols fn_rows tile_n n_thr n_splits)"
    and "cols = hc_mult * hidden_size"
  shows "prenorm_dispatch orig (Some rows) x_rows cols n_splits n_splits hidden_size hc_mult fn_rows tile_n n_thr n_splits =
    orig rows cols fn_rows tile_n n_thr n_splits"
  using assms by (simp add: prenorm_dispatch_def)

section \<open>Rows a rank owns\<close>

definition owners :: "nat \<Rightarrow> nat \<Rightarrow> ps_mode \<Rightarrow> bool \<Rightarrow> bool \<Rightarrow> (nat \<Rightarrow> own) \<Rightarrow> bool" where
  "owners n rows mode exact pad ow \<longleftrightarrow> mode \<noteq> Off \<and> (\<forall>k<n. ownership k n rows mode exact pad = Inr (ow k))"

definition part :: "own \<Rightarrow> 'v list \<Rightarrow> 'v list \<Rightarrow> bool" where
  "part ow X t \<longleftrightarrow> length X = ow_rows ow \<and>
     (if ow_mode ow = Comm then t = X
      else length t = ow_q ow \<and> (\<forall>i<ow_real ow. t ! i = X ! (ow_lo ow + i)))"

lemma owners_fields:
  assumes "owners n rows mode exact pad ow" "k < n"
  shows "ow_rank (ow k) = k" "ow_rows (ow k) = rows" "ow_mode (ow k) = mode" "ow_exact (ow k) = (exact \<and> mode = Shard)"
    "ow_q (ow k) = cdiv rows n" "ow_pad (ow k) = cdiv rows n * n - rows" "ow_lo (ow k) = k * cdiv rows n"
    "ow_real (ow k) = min (cdiv rows n) (rows - k * cdiv rows n)"
proof -
  have "\<lparr>ow_rank = k, ow_rows = rows, ow_mode = mode, ow_exact = (exact \<and> mode = Shard), ow_q = cdiv rows n,
      ow_pad = cdiv rows n * n - rows, ow_lo = k * cdiv rows n, ow_real = min (cdiv rows n) (rows - k * cdiv rows n)\<rparr> = ow k"
    using assms by (auto simp: owners_def ownership_def Let_def split: if_splits)
  from this [symmetric] show "ow_rank (ow k) = k" "ow_rows (ow k) = rows" "ow_mode (ow k) = mode"
    "ow_exact (ow k) = (exact \<and> mode = Shard)" "ow_q (ow k) = cdiv rows n" "ow_pad (ow k) = cdiv rows n * n - rows"
    "ow_lo (ow k) = k * cdiv rows n" "ow_real (ow k) = min (cdiv rows n) (rows - k * cdiv rows n)" by simp_all
qed

lemma owners_key:
  assumes "owners n rows mode exact pad ow" "k < n" "part (ow k) X t"
  shows "kernel_key (rows_ctx (ow k)) (length t) = rows"
  using assms(1) assms(3) owners_fields [OF assms(1,2)] by (cases mode) (auto simp: owners_def kernel_key_def rows_ctx_def part_def)

lemma local_part:
  assumes "owners n rows mode exact pad ow" "k < n" "length X = rows"
  shows "\<exists>t. own_local env (ow k) X = Inr t \<and> part (ow k) X t"
proof -
  note F = owners_fields [OF assms(1,2)]
  show ?thesis
  proof (cases "mode = Comm")
    case True
    then show ?thesis using assms(3) F by (simp add: own_local_def part_def)
  next
    case False
    have "k * cdiv rows n + cdiv rows n \<le> rows" if "ow_real (ow k) = ow_q (ow k)" "0 < cdiv rows n"
      using that F by (simp add: min_def split: if_splits)
    then show ?thesis using False assms(3) F
      by (cases "cdiv rows n = 0") (auto simp: own_local_def part_def min_def nth_append)
  qed
qed

lemma local_parts:
  assumes "owners n rows mode exact pad ow" "length X = rows"
  shows "\<exists>t. \<forall>k<n. own_local env (ow k) X = Inr (t k) \<and> part (ow k) X (t k)"
proof -
  have "\<forall>k. \<exists>t. k < n \<longrightarrow> own_local env (ow k) X = Inr t \<and> part (ow k) X t"
    using local_part [OF assms(1) _ assms(2), of _ env] by blast
  then show ?thesis by (rule choice [THEN exE]) blast
qed

lemma gather_rows_back:
  assumes "owners n rows mode exact pad ow" "0 < n" "mode \<noteq> Comm" "\<And>k. k < n \<Longrightarrow> part (ow k) X (t k)"
  shows "take rows (concat (map t [0..<n])) = X"
proof -
  let ?q = "cdiv rows n"
  note F = owners_fields [OF assms(1)]
  have X: "length X = rows" using assms(4) [OF assms(2)] F(2) [OF assms(2)] by (simp add: part_def)
  have len: "\<forall>x\<in>set (map t [0..<n]). length x = ?q" using assms(3,4) F by (auto simp: part_def)
  have enough: "rows \<le> n * ?q" using cdiv_ge [OF assms(2), of rows] by (simp add: mult.commute)
  have total: "length (concat (map t [0..<n])) = n * ?q" using length_concat_uniform [OF len] by simp
  show ?thesis
  proof (rule nth_equalityI)
    show "length (take rows (concat (map t [0..<n]))) = length X" using X total enough by simp
  next
    fix i assume "i < length (take rows (concat (map t [0..<n])))"
    then have i: "i < rows" by simp
    then have iq: "i < n * ?q" using enough by simp
    then have k: "i div ?q < n" by (simp add: less_mult_imp_div_less)
    have "0 < ?q" using iq by (cases ?q) simp_all
    then have j: "i mod ?q < ?q" by simp
    have ij: "i div ?q * ?q + i mod ?q = i" by (rule div_mult_mod_eq)
    then have "i mod ?q < ow_real (ow (i div ?q))" using F(8) [OF k] j i by linarith
    then have "t (i div ?q) ! (i mod ?q) = X ! i"
      using assms(3) assms(4) [OF k] F(3,7) [OF k] ij by (simp add: part_def)
    then show "take rows (concat (map t [0..<n])) ! i = X ! i"
      using nth_concat_uniform [OF len, of i] iq i k by simp
  qed
qed

lemma full_rows:
  assumes "owners n rows mode exact pad ow" "k < n" "length y = n * cdiv rows n"
  shows "own_full (ow k) y = take rows y"
  using owners_fields [OF assms(1,2)] assms(3) cdiv_ge [of n rows] assms(2) by (simp add: own_full_def mult.commute)

lemma gather_yields:
  assumes "owners n rows mode exact pad ow" "0 < n" "\<And>k. k < n \<Longrightarrow> part (ow k) X (t k)"
  shows "yields env n (\<lambda>k. own_gather (ow k) (t k)) (\<lambda>_. Inr X)"
proof (cases "mode = Comm")
  case True
  then show ?thesis using owners_fields(3) [OF assms(1)] assms(3)
    by (auto simp: own_gather_def part_def intro!: yields.finished)
next
  case False
  note F = owners_fields [OF assms(1)]
  have len: "\<forall>x\<in>set (map t [0..<n]). length x = cdiv rows n" using False assms(3) F by (auto simp: part_def)
  have "yields env n (\<lambda>k. pbind (coll AllGather (t k)) (\<lambda>y. Ret (own_full (ow k) y))) (\<lambda>_. Inr X)"
  proof (rule yields_bind [OF yields_coll refl])
    show "yields env n (\<lambda>k. Ret (own_full (ow k) (answers env AllGather (map t [0..<n]) ! k))) (\<lambda>_. Inr X)"
      using length_concat_uniform [OF len] gather_rows_back [OF assms(1,2) False assms(3)]
      by (intro yields.finished) (simp add: answers_def full_rows [OF assms(1)])
  qed
  then show ?thesis using False assms(3) F
    by (elim yields_cong) (simp add: own_gather_def part_def)
qed

text \<open>What the library promises of the group's reductions: the rows of an all-reduce, and of a reduce-scatter as shares of one.\<close>

definition reduces_rows :: "('v list list \<Rightarrow> 'v list) \<Rightarrow> bool" where
  "reduces_rows red \<longleftrightarrow> (\<forall>ts m. ts \<noteq> [] \<longrightarrow> list_all (\<lambda>t. length t = m) ts \<longrightarrow>
     length (red ts) = m \<and> (\<forall>j\<le>m. take j (red ts) = red (map (take j) ts)))"

definition scatters :: "('i, 'v) ps_env \<Rightarrow> ('v list list \<Rightarrow> 'v list) \<Rightarrow> bool" where
  "scatters env red \<longleftrightarrow> (\<forall>ts q k. list_all (\<lambda>t. length t = length ts * q) ts \<longrightarrow> k < length ts \<longrightarrow>
     pe_scatter env ts k = take q (drop (k * q) (red ts)))"

definition reduction :: "('i, 'v) ps_env \<Rightarrow> ('v list list \<Rightarrow> 'v list) \<Rightarrow> ps_mode \<Rightarrow> bool \<Rightarrow> 'v list list \<Rightarrow> 'v list" where
  "reduction env red mode exact = (if mode = Shard \<and> exact then pe_reduce env else red)"

lemma pad_to_rows:
  assumes "owners n rows mode exact pad ow" "k < n" "length t = rows"
  shows "length (pad_to env (ow k) t) = n * cdiv rows n \<and> take rows (pad_to env (ow k) t) = t"
  using owners_fields [OF assms(1,2)] cdiv_ge [of n rows] assms(2,3) by (simp add: pad_to_def mult.commute)

lemma reduce_yields:
  assumes own: "owners n rows mode exact pad ow" "0 < n"
    and partials: "\<And>k. k < n \<Longrightarrow> length (p k) = rows"
    and lib: "reduces_rows (pe_reduce env)" "reduces_rows red" "scatters env red"
  shows "\<exists>t. yields env n (\<lambda>k. own_reduce env (ow k) (p k)) (\<lambda>k. Inr (t k)) \<and>
    (\<forall>k<n. part (ow k) (reduction env red mode exact (map p [0..<n])) (t k))"
proof -
  let ?q = "cdiv rows n" and ?ps = "map p [0..<n]" and ?P = "\<lambda>k. pad_to env (ow k) (p k)"
  note F = owners_fields [OF own(1)]
  have ne: "?ps \<noteq> []" "map ?P [0..<n] \<noteq> []" using own(2) by simp_all
  have lens: "list_all (\<lambda>t. length t = rows) ?ps" using partials by (simp add: list_all_iff)
  have plens: "list_all (\<lambda>t. length t = n * ?q) (map ?P [0..<n])"
    by (auto simp: list_all_iff pad_to_rows [OF own(1) _ partials])
  have enough: "rows \<le> n * ?q" using cdiv_ge [OF own(2), of rows] by (simp add: mult.commute)
  have rl: "length (red (map ?P [0..<n])) = n * ?q" "take rows (red (map ?P [0..<n])) = red (map (take rows) (map ?P [0..<n]))"
    using lib(2) ne(2) plens enough unfolding reduces_rows_def by blast+
  have "map (take rows) (map ?P [0..<n]) = ?ps" by (simp add: pad_to_rows [OF own(1) _ partials])
  then have rp: "take rows (red (map ?P [0..<n])) = red ?ps" unfolding rl(2) by (rule arg_cong)
  have red: "length (red ?ps) = rows" "length (pe_reduce env ?ps) = rows" using lib(1,2) ne(1) lens unfolding reduces_rows_def by blast+
  let ?S = "\<lambda>k. take ?q (drop (k * ?q) (red (map ?P [0..<n])))"
  have scat: "answers env ReduceScatter (map ?P [0..<n]) ! k = ?S k" if "k < n" for k
    using lib(3) plens that by (simp add: answers_def scatters_def)
  have step: "yields env n (\<lambda>k. coll ReduceScatter (?P k)) (\<lambda>k. Inr (?S k))"
    unfolding coll_def by (rule yields.collective [OF refl], rule yields.finished) (simp add: scat)
  consider "mode = Comm" | "mode = Shard" "exact" | "mode = Shard" "\<not> exact"
    using own(1) by (cases mode) (auto simp: owners_def)
  then show ?thesis
  proof cases
    case 1
    have conc: "concat (map ?S [0..<n]) = red (map ?P [0..<n])"
      using concat_takes [of n ?q "red (map ?P [0..<n])"] rl(1) by simp
    have whole: "own_full (ow k) (concat (map ?S [0..<n])) = red ?ps" if "k < n" for k
      unfolding conc using full_rows [OF own(1) that rl(1)] rp by (rule trans)
    have "yields env n (\<lambda>k. pbind (coll ReduceScatter (?P k)) (\<lambda>y. pbind (coll AllGather y) (\<lambda>z. Ret (own_full (ow k) z))))
        (\<lambda>_. Inr (red ?ps))"
      by (rule yields_bind [OF step refl], rule yields_bind [OF yields_coll refl], rule yields.finished)
        (simp add: answers_def whole)
    then have "yields env n (\<lambda>k. own_reduce env (ow k) (p k)) (\<lambda>_. Inr (red ?ps))"
      using 1 partials F by (elim yields_cong) (simp add: own_reduce_def)
    then show ?thesis using 1 red F by (intro exI [of _ "\<lambda>_. red ?ps"]) (simp add: part_def reduction_def)
  next
    case 2
    obtain t where t: "\<And>k. k < n \<Longrightarrow> own_local env (ow k) (pe_reduce env ?ps) = Inr (t k) \<and> part (ow k) (pe_reduce env ?ps) (t k)"
      using local_parts [OF own(1) red(2), of env] by blast
    have "yields env n (\<lambda>k. pbind (coll AllReduce (p k)) (\<lambda>y. of_result (own_local env (ow k) y))) (\<lambda>k. Inr (t k))"
      by (rule yields_bind [OF yields_coll refl], rule yields.finished) (simp add: answers_def t)
    then have "yields env n (\<lambda>k. own_reduce env (ow k) (p k)) (\<lambda>k. Inr (t k))"
      using 2 partials F by (elim yields_cong) (simp add: own_reduce_def)
    then show ?thesis using 2 t by (intro exI [of _ t]) (simp add: reduction_def)
  next
    case 3
    have "yields env n (\<lambda>k. own_reduce env (ow k) (p k)) (\<lambda>k. Inr (?S k))"
      using step 3 partials F by (elim yields_cong) (simp add: own_reduce_def)
    moreover have "part (ow k) (red ?ps) (?S k)" if k: "k < n" for k
    proof -
      have "k * ?q + ?q \<le> n * ?q" using k mult_le_mono1 [of "Suc k" n ?q] by simp
      moreover from this have "k * ?q \<le> n * ?q" by (rule le_trans [OF le_add1])
      moreover have "red ?ps ! i = red (map ?P [0..<n]) ! i" if "i < rows" for i
        using that by (simp only: rp [symmetric] nth_take)
      ultimately show ?thesis using 3 F [OF k] red rl(1) by (auto simp: part_def)
    qed
    ultimately show ?thesis using 3 by (intro exI [of _ ?S]) (simp add: reduction_def)
  qed
qed

section \<open>Row by row\<close>

text \<open>
  What the sources say of the kernels: for a fixed choice of kernel every row is computed from the row alone, and no operation of a
  layer changes the number of rows.
\<close>

definition row_quad :: "('v \<Rightarrow> 'v \<Rightarrow> 'v \<Rightarrow> 'v \<Rightarrow> 'v \<times> 'v \<times> 'v \<times> 'v) \<Rightarrow> 'v list \<Rightarrow> 'v list \<Rightarrow> 'v list \<Rightarrow> 'v list \<Rightarrow>
    'v list \<times> 'v list \<times> 'v list \<times> 'v list" where
  "row_quad f x r p c =
     (let at_row = (\<lambda>g. map (\<lambda>i. g (f (x ! i) (r ! i) (p ! i) (c ! i))) [0..<length x])
      in (at_row fst, at_row (fst \<circ> snd), at_row (fst \<circ> snd \<circ> snd), at_row (snd \<circ> snd \<circ> snd)))"

definition rowwise :: "('i, 'v) ps_env \<Rightarrow> bool" where
  "rowwise env \<longleftrightarrow>
     (\<exists>F. \<forall>i b key x r p c. length r = length x \<longrightarrow> length p = length x \<longrightarrow> length c = length x \<longrightarrow>
        pe_fused env i b key x r p c = row_quad (F i b key) x r p c) \<and>
     (\<exists>G. \<forall>i key x r p c. length r = length x \<longrightarrow> length p = length x \<longrightarrow> length c = length x \<longrightarrow>
        pe_post env i key x r p c = map (\<lambda>j. G i key (x ! j) (r ! j) (p ! j) (c ! j)) [0..<length x]) \<and>
     (\<exists>H. \<forall>x m. pe_contract env x m = map (H m) x)"

definition keeps_rows :: "('i, 'v) ps_env \<Rightarrow> bool" where
  "keeps_rows env \<longleftrightarrow>
     (\<forall>x m. length (pe_expand env x m) = length x) \<and>
     (\<forall>i key x. case pe_pre env i key x of (p, c, y) \<Rightarrow> length p = length x \<and> length c = length x \<and> length y = length x) \<and>
     (\<forall>i k pos x. length (pe_attn env i k pos x) = length x) \<and> (\<forall>i k x. length (pe_mlp env i k x) = length x)"

definition quad_part :: "own \<Rightarrow> 'v list \<times> 'v list \<times> 'v list \<times> 'v list \<Rightarrow> 'v list \<times> 'v list \<times> 'v list \<times> 'v list \<Rightarrow> bool" where
  "quad_part ow Q q \<longleftrightarrow> part ow (fst Q) (fst q) \<and> part ow (fst (snd Q)) (fst (snd q)) \<and>
     part ow (fst (snd (snd Q))) (fst (snd (snd q))) \<and> part ow (snd (snd (snd Q))) (snd (snd (snd q)))"

lemma part_map:
  assumes "owners n rows mode exact pad ow" "k < n" "part (ow k) X x" "part (ow k) R r" "part (ow k) P p" "part (ow k) C c"
  shows "part (ow k) (map (\<lambda>i. g (X ! i) (R ! i) (P ! i) (C ! i)) [0..<length X]) (map (\<lambda>i. g (x ! i) (r ! i) (p ! i) (c ! i)) [0..<length x])"
  using assms(3-6) owners_fields [OF assms(1,2)] by (cases "mode = Comm") (auto simp: part_def)

lemma part_length:
  assumes "owners n rows mode exact pad ow" "k < n" "part (ow k) X x"
  shows "length X = rows" "length x = (if mode = Comm then rows else cdiv rows n)"
  using assms(3) owners_fields [OF assms(1,2)] by (auto simp: part_def)

lemma fused_part:
  assumes "owners n rows mode exact pad ow" "k < n" "rowwise env"
    and "part (ow k) X x" "part (ow k) R r" "part (ow k) P p" "part (ow k) C c"
  shows "quad_part (ow k) (pe_fused env i b key X R P C) (pe_fused env i b key x r p c)"
proof -
  note L = part_length [OF assms(1,2)]
  have len: "length R = length X" "length P = length X" "length C = length X" "length r = length x" "length p = length x" "length c = length x"
    using L [OF assms(4)] L [OF assms(5)] L [OF assms(6)] L [OF assms(7)] by simp_all
  obtain F where F: "\<And>x r p c. length r = length x \<Longrightarrow> length p = length x \<Longrightarrow> length c = length x \<Longrightarrow>
      pe_fused env i b key x r p c = row_quad (F i b key) x r p c"
    using assms(3) unfolding rowwise_def by metis
  show ?thesis unfolding F [OF len(1-3)] F [OF len(4-6)] row_quad_def quad_part_def Let_def fst_conv snd_conv
    by (intro conjI part_map [OF assms(1,2,4-7)])
qed

lemma post_part:
  assumes "owners n rows mode exact pad ow" "k < n" "rowwise env"
    and "part (ow k) X x" "part (ow k) R r" "part (ow k) P p" "part (ow k) C c"
  shows "part (ow k) (pe_contract env (pe_post env i key X R P C) m) (pe_contract env (pe_post env i key x r p c) m)"
proof -
  note L = part_length [OF assms(1,2)]
  have len: "length R = length X" "length P = length X" "length C = length X" "length r = length x" "length p = length x" "length c = length x"
    using L [OF assms(4)] L [OF assms(5)] L [OF assms(6)] L [OF assms(7)] by simp_all
  obtain G where G: "\<And>x r p c. length r = length x \<Longrightarrow> length p = length x \<Longrightarrow> length c = length x \<Longrightarrow>
      pe_post env i key x r p c = map (\<lambda>j. G i key (x ! j) (r ! j) (p ! j) (c ! j)) [0..<length x]"
    using assms(3) unfolding rowwise_def by metis
  obtain H where H: "\<And>x. pe_contract env x m = map (H m) x" using assms(3) unfolding rowwise_def by metis
  show ?thesis unfolding G [OF len(1-3)] G [OF len(4-6)] H map_map o_def
    by (rule part_map [OF assms(1,2,4-7)])
qed

text \<open>When every rank owns a full share, what it owns is determined.\<close>

lemma even_local:
  assumes "owners n rows mode exact pad ow" "k < n" "rows mod n = 0" "part (ow k) X t"
  shows "own_local env (ow k) X = Inr t"
proof -
  have q: "cdiv rows n * n = rows" using assms(2,3) cdiv_mult [of n "rows div n"] by (auto simp: mod_eq_0_iff_dvd)
  have "k * cdiv rows n + cdiv rows n \<le> n * cdiv rows n" using mult_le_mono1 [of "Suc k" n "cdiv rows n"] assms(2) by simp
  then have "k * cdiv rows n + cdiv rows n \<le> rows" using q by (simp add: mult.commute)
  then show ?thesis using assms(4) owners_fields [OF assms(1,2)]
    by (cases "mode = Comm") (auto simp: own_local_def part_def intro!: nth_equalityI)
qed

section \<open>A layer\<close>

definition state_part :: "own \<Rightarrow> 'v hc_state \<Rightarrow> 'v hc_state \<Rightarrow> bool" where
  "state_part ow ST st \<longleftrightarrow>
     (case ST of
        None \<Rightarrow> st = None
      | Some (R, P, C) \<Rightarrow> (case st of None \<Rightarrow> False | Some (r, p, c) \<Rightarrow> part ow R r \<and> part ow P p \<and> part ow C c))"

lemma check_yields:
  assumes own: "owners n rows mode exact pad ow" "0 < n" and env: "rowwise env" and even: "rows mod n = 0" "mode \<noteq> Comm"
    and parts: "\<And>k. k < n \<Longrightarrow> part (ow k) X (x k) \<and> part (ow k) R (r k) \<and> part (ow k) P (p k) \<and> part (ow k) C (c k)"
  shows "yields env n (\<lambda>k. check_fused env (ow k) l (x k) (r k) (p k) (c k))
    (\<lambda>k. Inr (pe_fused env (ly_idx l) True rows (x k) (r k) (p k) (c k), False))"
proof -
  have q: "n * cdiv rows n = rows" using own(2) even(1) cdiv_mult [of n "rows div n"] by (auto simp: mod_eq_0_iff_dvd mult.commute)
  have whole: "concat (map t [0..<n]) = T" if "\<And>k. k < n \<Longrightarrow> part (ow k) T (t k)" for t :: "nat \<Rightarrow> 'z list" and T
  proof -
    have "\<forall>y\<in>set (map t [0..<n]). length y = cdiv rows n" using part_length(2) [OF own(1) _ that] even(2) by auto
    from length_concat_uniform [OF this] show ?thesis using gather_rows_back [OF own even(2) that] q by simp
  qed
  have gathered: "concat (map x [0..<n]) = X" "concat (map r [0..<n]) = R" "concat (map p [0..<n]) = P" "concat (map c [0..<n]) = C"
    by (rule whole, use parts in blast)+
  have X: "length X = rows" using part_length(1) [OF own(1)] parts own(2) by blast
  let ?F = "pe_fused env (ly_idx l) True rows"
  have local: "case ?F X R P C of (r1, p1, c1, x1) \<Rightarrow>
      bind_r (own_local env (ow k) r1) (\<lambda>r2. bind_r (own_local env (ow k) p1) (\<lambda>p2.
        bind_r (own_local env (ow k) c1) (\<lambda>c2. bind_r (own_local env (ow k) x1) (\<lambda>x2. Inr (r2, p2, c2, x2))))) = Inr (?F (x k) (r k) (p k) (c k))"
    if k: "k < n" for k
  proof -
    have "quad_part (ow k) (?F X R P C) (?F (x k) (r k) (p k) (c k))"
      using fused_part [OF own(1) k env] parts [OF k] by blast
    then show ?thesis
      by (auto simp: quad_part_def split: prod.splits dest!: even_local [OF own(1) k even(1), where env = env])
  qed
  have key: "kernel_key (rows_ctx (ow k)) (length (x k)) = rows" if "k < n" for k
    using owners_key [OF own(1) that] parts [OF that] by blast
  obtain r1 p1 c1 x1 where out: "?F X R P C = (r1, p1, c1, x1)" by (cases "?F X R P C") blast
  show ?thesis
    unfolding check_fused_def Let_def
    by (rule yields_bind [OF yields_coll refl], rule yields_bind [OF yields_coll refl], rule yields_bind [OF yields_coll refl],
        rule yields_bind [OF yields_coll refl], rule yields.vote [where b = "\<lambda>_. True" and c = "\<lambda>k agreed.
          Ret (if agreed then ?F (x k) (r k) (p k) (c k) else ?F (x k) (r k) (p k) (c k), \<not> agreed)"])
      (use local in \<open>simp_all add: answers_def gathered X key list_all_iff yields_ret out cong: if_cong\<close>)
qed

lemma first_pre_reduce [simp]: "first_pre (env\<lparr>pe_reduce := f\<rparr>) = first_pre env"
  by (simp add: fun_eq_iff first_pre_def Let_def)

definition starts :: "('i, 'v) ps_env \<Rightarrow> ps_layer \<Rightarrow> 'v list \<Rightarrow> 'v hc_state \<Rightarrow> ('v list \<times> 'v list \<times> 'v list) \<times> 'v list" where
  "starts env l X ST =
     (case ST of
        None \<Rightarrow> first_pre env l X
      | Some (R, P, C) \<Rightarrow> (case pe_fused env (ly_idx l) True (length X) X R P C of (r, p, c, y) \<Rightarrow> ((r, p, c), y)))"

text \<open>How the values of a rank stand to those of the stock forward at the start of a layer: the first layer gets all rows.\<close>

definition enters :: "own \<Rightarrow> 'v list \<Rightarrow> 'v hc_state \<Rightarrow> 'v list \<Rightarrow> 'v hc_state \<Rightarrow> bool" where
  "enters ow X ST x st \<longleftrightarrow> state_part ow ST st \<and> (if ST = None then x = X \<and> length X = ow_rows ow else part ow X x)"

lemma keeps_pre:
  assumes "keeps_rows env" "pe_pre env i key x = (p, c, y)"
  shows "length p = length x \<and> length c = length x \<and> length y = length x"
  using assms(1) [unfolded keeps_rows_def, THEN conjunct2, THEN conjunct1, THEN spec [where x = i], THEN spec [where x = key],
      THEN spec [where x = x]]
  by (simp add: assms(2))

lemma layer_start_yields:
  assumes own: "owners n rows mode exact pad ow" "0 < n" and env: "rowwise env" "keeps_rows env"
    and chk: "check \<Longrightarrow> rows mod n = 0 \<and> mode \<noteq> Comm"
    and enters: "\<And>k. k < n \<Longrightarrow> enters (ow k) X ST (x k) (st k)"
  shows "\<exists>s. yields env n (\<lambda>k. layer_start env (ow k) check l (x k) (st k)) (\<lambda>k. Inr (s k, snd (starts env l X ST), False)) \<and>
    (\<forall>k<n. state_part (ow k) (Some (fst (starts env l X ST))) (Some (s k))) \<and> length (snd (starts env l X ST)) = rows"
proof (cases ST)
  case None
  obtain R P C Y where pre: "first_pre env l X = ((R, P, C), Y)" by (cases "first_pre env l X") auto
  have X: "length X = rows" using enters [OF own(2)] None owners_fields(2) [OF own] by (simp add: enters_def)
  have len: "length R = rows" "length P = rows" "length C = rows" "length Y = rows"
  proof -
    let ?x0 = "if ly_idx l = 0 then pe_expand env X (ly_n l) else X"
    obtain p c y where q: "pe_pre env (ly_idx l) (length ?x0) ?x0 = (p, c, y)" by (cases "pe_pre env (ly_idx l) (length ?x0) ?x0") auto
    have l0: "length ?x0 = rows" using env(2) X by (simp add: keeps_rows_def)
    have "length p = rows \<and> length c = rows \<and> length y = rows" using keeps_pre [OF env(2) q] l0 by simp
    then show "length R = rows" "length P = rows" "length C = rows" "length Y = rows"
      using pre q l0 by (simp_all add: first_pre_def Let_def)
  qed
  obtain r where r: "\<And>k. k < n \<Longrightarrow> own_local env (ow k) R = Inr (r k) \<and> part (ow k) R (r k)"
    using local_parts [OF own(1) len(1), of env] by blast
  obtain p where p: "\<And>k. k < n \<Longrightarrow> own_local env (ow k) P = Inr (p k) \<and> part (ow k) P (p k)"
    using local_parts [OF own(1) len(2), of env] by blast
  obtain c where c: "\<And>k. k < n \<Longrightarrow> own_local env (ow k) C = Inr (c k) \<and> part (ow k) C (c k)"
    using local_parts [OF own(1) len(3), of env] by blast
  note rpc = r p c
  have "yields env n (\<lambda>k. layer_start env (ow k) check l (x k) (st k)) (\<lambda>k. Inr ((r k, p k, c k), Y, False))"
    by (rule yields.finished) (use enters None rpc pre in \<open>simp add: layer_start_def enters_def state_part_def\<close>)
  then show ?thesis using rpc len None pre
    by (intro exI [of _ "\<lambda>k. (r k, p k, c k)"]) (simp add: starts_def state_part_def)
next
  case (Some T)
  obtain R P C where T: "T = (R, P, C)" by (cases T)
  define r p c where rpc: "r = (\<lambda>k. fst (the (st k)))" "p = (\<lambda>k. fst (snd (the (st k))))" "c = (\<lambda>k. snd (snd (the (st k))))"
  have parts: "st k = Some (r k, p k, c k) \<and> part (ow k) X (x k) \<and> part (ow k) R (r k) \<and> part (ow k) P (p k) \<and> part (ow k) C (c k)"
    if "k < n" for k
    using enters [OF that] Some T by (auto simp: enters_def state_part_def rpc split: option.splits prod.splits)
  let ?F = "pe_fused env (ly_idx l) True rows" and ?f = "\<lambda>k. pe_fused env (ly_idx l) True rows (x k) (r k) (p k) (c k)"
  have X: "length X = rows" using part_length(1) [OF own] parts own(2) by blast
  have key: "kernel_key (rows_ctx (ow k)) (length (x k)) = rows" if "k < n" for k using owners_key [OF own(1) that] parts [OF that] by blast
  have checked: "yields env n (\<lambda>k. if check then check_fused env (ow k) l (x k) (r k) (p k) (c k)
      else Ret (pe_fused env (ly_idx l) True (kernel_key (rows_ctx (ow k)) (length (x k))) (x k) (r k) (p k) (c k), False))
    (\<lambda>k. Inr (?f k, False))"
  proof (cases check)
    case True
    have "yields env n (\<lambda>k. check_fused env (ow k) l (x k) (r k) (p k) (c k)) (\<lambda>k. Inr (?f k, False))"
      by (rule check_yields [OF own env(1), where X = X and R = R and P = P and C = C]) (use chk [OF True] parts in blast)+
    then show ?thesis using True by simp
  qed (auto simp: key intro: yields.finished)
  have q: "quad_part (ow k) (?F X R P C) (?f k)" if "k < n" for k
    using fused_part [OF own(1) that env(1)] parts [OF that] by blast
  obtain R' P' C' Y where out: "?F X R P C = (R', P', C', Y)" by (cases "?F X R P C") blast
  have gath: "yields env n (\<lambda>k. own_gather (ow k) (snd (snd (snd (?f k))))) (\<lambda>_. Inr Y)"
    by (rule gather_yields [OF own]) (use q out in \<open>auto simp: quad_part_def split: prod.splits\<close>)
  have gathered: "yields env n (\<lambda>k. (\<lambda>((r, p, c, y), bad). pbind (own_gather (ow k) y) (\<lambda>y. Ret ((r, p, c), y, bad))) (?f k, False))
      (\<lambda>k. Inr ((fst (?f k), fst (snd (?f k)), fst (snd (snd (?f k)))), Y, False))"
    by (simp only: case_prod_beta fst_conv snd_conv) (rule yields_bind [OF gath refl yields_ret])
  have "yields env n (\<lambda>k. pbind (if check then check_fused env (ow k) l (x k) (r k) (p k) (c k)
        else Ret (pe_fused env (ly_idx l) True (kernel_key (rows_ctx (ow k)) (length (x k))) (x k) (r k) (p k) (c k), False))
      (\<lambda>((r, p, c, y), bad). pbind (own_gather (ow k) y) (\<lambda>y. Ret ((r, p, c), y, bad))))
    (\<lambda>k. Inr ((fst (?f k), fst (snd (?f k)), fst (snd (snd (?f k)))), Y, False))"
    by (rule yields_bind, rule checked, rule refl, rule gathered)
  then have "yields env n (\<lambda>k. layer_start env (ow k) check l (x k) (st k)) (\<lambda>k. Inr ((fst (?f k), fst (snd (?f k)), fst (snd (snd (?f k)))), Y, False))"
    by (rule yields_cong) (use parts in \<open>simp add: layer_start_def cong: if_cong\<close>)
  then show ?thesis using q out Some T X part_length(1) [OF own, of Y] q [OF own(2)]
    by (intro exI [of _ "\<lambda>k. (fst (?f k), fst (snd (?f k)), fst (snd (snd (?f k))))"])
      (auto simp: starts_def state_part_def quad_part_def split: prod.splits)
qed

lemma stock_yields: "yields env n (\<lambda>k. reduced True (p k)) (\<lambda>_. Inr (pe_reduce env (map p [0..<n])))"
proof -
  have "yields env n (\<lambda>k. coll AllReduce (p k)) (\<lambda>_. Inr (pe_reduce env (map p [0..<n])))"
    unfolding coll_def by (rule yields.collective [OF refl], rule yields.finished) (simp add: answers_def)
  then show ?thesis by (simp add: reduced_def)
qed

text \<open>One layer: the ranks end it together, with the rows of the stock layer under the mode's reduction.\<close>

lemma layer_yields:
  assumes own: "owners n rows mode exact pad ow" "0 < n" and env: "rowwise env" "keeps_rows env"
    and lib: "reduces_rows (pe_reduce env)" "reduces_rows red" "scatters env red"
    and layer: "pl_reduce (ly_o_proj l)" "mlp_reduces l"
    and chk: "check \<Longrightarrow> rows mod n = 0 \<and> mode \<noteq> Comm"
    and enters: "\<And>k. k < n \<Longrightarrow> enters (ow k) X ST (x k) (st k)"
  shows "\<exists>X' ST' x' st'.
    yields (env\<lparr>pe_reduce := reduction env red mode exact\<rparr>) n
      (\<lambda>k. layer_stock (env\<lparr>pe_reduce := reduction env red mode exact\<rparr>) k positions l X ST) (\<lambda>_. Inr (X', ST')) \<and>
    yields env n (\<lambda>k. layer_forward env (ow k) check positions l (x k) (st k)) (\<lambda>k. Inr (x' k, st' k, False)) \<and>
    (\<forall>k<n. part (ow k) X' (x' k) \<and> state_part (ow k) ST' (st' k)) \<and> (ST' = None \<longleftrightarrow> ly_idx l = ly_total l - 1)"
proof -
  let ?red = "reduction env red mode exact" and ?i = "ly_idx l"
  let ?env = "env\<lparr>pe_reduce := ?red\<rparr>"
  have red_rows: "reduces_rows ?red" using lib(1,2) by (simp add: reduction_def)
  obtain R P C Y where S: "starts env l X ST = ((R, P, C), Y)" by (cases "starts env l X ST") auto
  obtain s where s: "yields env n (\<lambda>k. layer_start env (ow k) check l (x k) (st k)) (\<lambda>k. Inr (s k, Y, False))"
    "\<And>k. k < n \<Longrightarrow> state_part (ow k) (Some (R, P, C)) (Some (s k))" and Y: "length Y = rows"
    using layer_start_yields [OF own env chk enters, where l = l] S by auto
  define r p c where rpc: "r = (\<lambda>k. fst (s k))" "p = (\<lambda>k. fst (snd (s k)))" "c = (\<lambda>k. snd (snd (s k)))"
  have s_eq: "s k = (r k, p k, c k)" for k by (simp add: rpc)
  have parts: "part (ow k) R (r k)" "part (ow k) P (p k)" "part (ow k) C (c k)" if "k < n" for k
    using s(2) [OF that] by (simp_all add: s_eq state_part_def)
  define a where "a = (\<lambda>k. pe_attn env ?i k positions Y)"
  have a: "length (a k) = rows" for k using env(2) Y by (simp add: a_def keeps_rows_def)
  define A where "A = ?red (map a [0..<n])"
  obtain ta where ta: "yields env n (\<lambda>k. own_reduce env (ow k) (a k)) (\<lambda>k. Inr (ta k))" "\<And>k. k < n \<Longrightarrow> part (ow k) A (ta k)"
    using reduce_yields [OF own _ lib, of a] a A_def by blast
  have A: "length A = rows" using part_length(1) [OF own] ta(2) own(2) by blast
  let ?F = "pe_fused env ?i False rows"
  define f where "f = (\<lambda>k. ?F (ta k) (r k) (p k) (c k))"
  obtain R2 P2 C2 Y2 where out: "?F A R P C = (R2, P2, C2, Y2)" by (cases "?F A R P C") blast
  define r2 p2 c2 y2 where f2: "r2 = (\<lambda>k. fst (f k))" "p2 = (\<lambda>k. fst (snd (f k)))" "c2 = (\<lambda>k. fst (snd (snd (f k))))" "y2 = (\<lambda>k. snd (snd (snd (f k))))"
  have f_eq: "f k = (r2 k, p2 k, c2 k, y2 k)" for k by (simp add: f2)
  have parts2: "part (ow k) R2 (r2 k)" "part (ow k) P2 (p2 k)" "part (ow k) C2 (c2 k)" "part (ow k) Y2 (y2 k)" if k: "k < n" for k
    using fused_part [OF own(1) k env(1) ta(2) [OF k] parts [OF k], of ?i False rows]
    by (simp_all add: out quad_part_def f2 f_def)
  define m where "m = (\<lambda>k. pe_mlp env ?i k Y2)"
  have Y2: "length Y2 = rows" using part_length(1) [OF own(1) own(2)] parts2(4) [OF own(2)] by blast
  have m: "length (m k) = rows" for k using env(2) Y2 by (simp add: m_def keeps_rows_def)
  define M where "M = ?red (map m [0..<n])"
  obtain tm where tm: "yields env n (\<lambda>k. own_reduce env (ow k) (m k)) (\<lambda>k. Inr (tm k))" "\<And>k. k < n \<Longrightarrow> part (ow k) M (tm k)"
    using reduce_yields [OF own _ lib, of m] m M_def by blast
  have M: "length M = rows" using part_length(1) [OF own] tm(2) own(2) by blast
  let ?last = "?i = ly_total l - 1"
  define X' ST' where res: "X' = (if ?last then pe_contract env (pe_post env ?i rows M R2 P2 C2) (ly_n l) else M)"
    "ST' = (if ?last then None else Some (R2, P2, C2))"
  define x' st' where res': "x' = (\<lambda>k. if ?last then pe_contract env (pe_post env ?i rows (tm k) (r2 k) (p2 k) (c2 k)) (ly_n l) else tm k)"
    "st' = (\<lambda>k. if ?last then None else Some (r2 k, p2 k, c2 k))"
  have key: "kernel_key (rows_ctx (ow k)) (length (ta k)) = rows" "kernel_key (rows_ctx (ow k)) (length (tm k)) = rows" if "k < n" for k
    using owners_key [OF own(1) that ta(2) [OF that]] owners_key [OF own(1) that tm(2) [OF that]] by blast+
  have rank: "ow_rank (ow k) = k" if "k < n" for k using owners_fields(1) [OF own(1) that] .
  have S': "(case ST of None \<Rightarrow> first_pre ?env l X
      | Some (r, p, c) \<Rightarrow> case pe_fused ?env ?i True (length X) X r p c of (r', p', c', y) \<Rightarrow> ((r', p', c'), y)) = ((R, P, C), Y)"
    using S by (cases ST) (simp_all add: starts_def)
  have attn: "yields ?env n (\<lambda>k. reduced (pl_reduce (ly_o_proj l)) (pe_attn ?env ?i k positions Y)) (\<lambda>_. Inr A)"
    using stock_yields [of ?env n a] layer(1) by (simp add: a_def A_def)
  have mlp: "yields ?env n (\<lambda>k. reduced (mlp_reduces l) (pe_mlp ?env ?i k Y2)) (\<lambda>_. Inr M)"
    using stock_yields [of ?env n m] layer(2) by (simp add: m_def M_def)
  have "yields ?env n (\<lambda>k. case pe_fused ?env ?i False (length A) A R P C of (r, p, c, y) \<Rightarrow>
      pbind (reduced (mlp_reduces l) (pe_mlp ?env ?i k y)) (\<lambda>m. if ?last
        then Ret (pe_contract ?env (pe_post ?env ?i (length m) m r p c) (ly_n l), None) else Ret (m, Some (r, p, c)))) (\<lambda>_. Inr (X', ST'))"
    unfolding A
    by (simp add: out, rule yields_bind, rule mlp [simplified], rule refl, rule yields.finished) (simp add: res M)
  then have stock: "yields ?env n (\<lambda>k. layer_stock ?env k positions l X ST) (\<lambda>_. Inr (X', ST'))"
    unfolding layer_stock_def S' prod.case by (intro yields_bind [OF attn refl])
  have "yields env n (\<lambda>k. case f k of (r, p, c, y) \<Rightarrow>
      pbind (own_gather (ow k) y) (\<lambda>y. pbind (reduced False (pe_mlp env ?i (ow_rank (ow k)) y)) (\<lambda>m.
      pbind (own_reduce env (ow k) m) (\<lambda>m. if ?last
        then Ret (pe_contract env (pe_post env ?i (kernel_key (rows_ctx (ow k)) (length m)) m r p c) (ly_n l), None, False)
        else Ret (m, Some (r, p, c), False))))) (\<lambda>k. Inr (x' k, st' k, False))"
    unfolding f_eq prod.case
  proof (rule yields_bind, rule gather_yields [OF own parts2(4)], assumption, rule refl)
    show "yields env n (\<lambda>k. pbind (reduced False (pe_mlp env ?i (ow_rank (ow k)) Y2)) (\<lambda>m.
      pbind (own_reduce env (ow k) m) (\<lambda>m. if ?last
        then Ret (pe_contract env (pe_post env ?i (kernel_key (rows_ctx (ow k)) (length m)) m (r2 k) (p2 k) (c2 k)) (ly_n l), None, False)
        else Ret (m, Some (r2 k, p2 k, c2 k), False)))) (\<lambda>k. Inr (x' k, st' k, False))"
    proof (rule yields_cong)
      show "yields env n (\<lambda>k. pbind (own_reduce env (ow k) (m k)) (\<lambda>t. if ?last
        then Ret (pe_contract env (pe_post env ?i (kernel_key (rows_ctx (ow k)) (length t)) t (r2 k) (p2 k) (c2 k)) (ly_n l), None, False)
        else Ret (t, Some (r2 k, p2 k, c2 k), False))) (\<lambda>k. Inr (x' k, st' k, False))"
        by (rule yields_bind, rule tm(1), rule refl, rule yields.finished) (simp add: res' key)
    qed (simp add: reduced_def m_def rank)
  qed
  then have rest: "yields env n (\<lambda>k. case pe_fused env ?i False (kernel_key (rows_ctx (ow k)) (length (ta k))) (ta k) (r k) (p k) (c k) of
      (r, p, c, y) \<Rightarrow> pbind (own_gather (ow k) y) (\<lambda>y. pbind (reduced False (pe_mlp env ?i (ow_rank (ow k)) y)) (\<lambda>m.
      pbind (own_reduce env (ow k) m) (\<lambda>m. if ?last
        then Ret (pe_contract env (pe_post env ?i (kernel_key (rows_ctx (ow k)) (length m)) m r p c) (ly_n l), None, False)
        else Ret (m, Some (r, p, c), False))))) (\<lambda>k. Inr (x' k, st' k, False))"
    by (rule yields_cong) (simp add: key f_def)
  have shard: "yields env n (\<lambda>k. layer_forward env (ow k) check positions l (x k) (st k)) (\<lambda>k. Inr (x' k, st' k, False))"
    unfolding layer_forward_def
  proof (rule yields_bind, rule s(1), rule refl, unfold s_eq prod.case)
    show "yields env n (\<lambda>k. pbind (reduced False (pe_attn env ?i (ow_rank (ow k)) positions Y)) (\<lambda>a. pbind (own_reduce env (ow k) a) (\<lambda>a.
      case pe_fused env ?i False (kernel_key (rows_ctx (ow k)) (length a)) a (r k) (p k) (c k) of
      (r, p, c, y) \<Rightarrow> pbind (own_gather (ow k) y) (\<lambda>y. pbind (reduced False (pe_mlp env ?i (ow_rank (ow k)) y)) (\<lambda>m.
      pbind (own_reduce env (ow k) m) (\<lambda>m. if ?last
        then Ret (pe_contract env (pe_post env ?i (kernel_key (rows_ctx (ow k)) (length m)) m r p c) (ly_n l), None, False)
        else Ret (m, Some (r, p, c), False))))))) (\<lambda>k. Inr (x' k, st' k, False))"
      by (rule yields_cong, rule yields_bind, rule ta(1), rule refl, rule rest) (simp add: reduced_def a_def rank)
  qed
  have "part (ow k) X' (x' k) \<and> state_part (ow k) ST' (st' k)" if k: "k < n" for k
    using post_part [OF own(1) k env(1) tm(2) [OF k] parts2(1-3) [OF k]] tm(2) [OF k] parts2 [OF k] by (simp add: res res' state_part_def)
  moreover have "ST' = None \<longleftrightarrow> ?last" by (simp add: res)
  ultimately show ?thesis using stock shard by blast
qed

section \<open>The whole forward\<close>

lemma aux_yields:
  assumes own: "owners n rows mode exact pad ow" "0 < n" and env: "rowwise env"
    and parts: "\<And>k. k < n \<Longrightarrow> part (ow k) X (x k) \<and> state_part (ow k) ST (st k)"
  shows "yields env n (\<lambda>k. if wanted then pbind (own_gather (ow k) (aux_owned env (ow k) l (x k) (st k))) (\<lambda>a. Ret (auxs @ [a])) else Ret auxs)
    (\<lambda>_. Inr (if wanted then auxs @ [aux_stock env l X ST] else auxs))"
proof (cases wanted)
  case True
  have X: "length X = rows" using part_length(1) [OF own] parts own(2) by blast
  have "part (ow k) (aux_stock env l X ST) (aux_owned env (ow k) l (x k) (st k))" if k: "k < n" for k
    using parts [OF k] owners_key [OF own(1) k, of X "x k"] post_part [OF own(1) k env, of X "x k"]
    by (auto simp: aux_stock_def aux_owned_def state_part_def X split: option.splits prod.splits)
  then have "yields env n (\<lambda>k. own_gather (ow k) (aux_owned env (ow k) l (x k) (st k))) (\<lambda>_. Inr (aux_stock env l X ST))"
    by (rule gather_yields [OF own])
  then have "yields env n (\<lambda>k. pbind (own_gather (ow k) (aux_owned env (ow k) l (x k) (st k))) (\<lambda>a. Ret (auxs @ [a])))
      (\<lambda>_. Inr (auxs @ [aux_stock env l X ST]))"
    by (rule yields_bind) (auto intro: yields_ret)
  then show ?thesis using True by simp
qed (auto intro: yields_ret)

lemma aux_stock_reduce [simp]: "aux_stock (env\<lparr>pe_reduce := f\<rparr>) = aux_stock env"
  by (simp add: fun_eq_iff aux_stock_def split: option.split)


text \<open>The models the adapter accepts: the configuration's layers, all of them reducing.\<close>

lemma validated_layers:
  "validate_layers ls name = Inr name' \<Longrightarrow> list_all (\<lambda>l. pl_reduce (ly_o_proj l) \<and> mlp_reduces l) ls"
proof (induction ls arbitrary: name)
  case (Cons l ls)
  then obtain name'' where "validate_layers ls name'' = Inr name'" "pl_reduce (ly_o_proj l) \<and> mlp_reduces l"
    by (auto simp: mlp_reduces_def Let_def split: if_splits sum.splits)
  then show ?case using Cons.IH by simp
qed simp

lemma validated_model:
  "validate_model m = Inr name \<Longrightarrow> md_start m = 0 \<and> list_all (\<lambda>l. pl_reduce (ly_o_proj l) \<and> mlp_reduces l) (md_layers m)"
  by (auto simp: validate_model_def split: if_splits dest: validated_layers)

definition layers_in_order :: "ps_model \<Rightarrow> bool" where
  "layers_in_order m \<longleftrightarrow> md_layers m \<noteq> [] \<and> list_all (\<lambda>l. ly_idx l \<noteq> ly_total l - 1) (butlast (md_layers m))"



section \<open>A forward call\<close>

text \<open>What the ranks remember: the same on all of them, and a validation that holds.\<close>

definition rt_sound :: "ps_model \<Rightarrow> ps_rt \<Rightarrow> bool" where
  "rt_sound m rt \<longleftrightarrow> (rt_validated rt = Some True \<longrightarrow> validate_model m = Inr (rt_kda rt))"

lemma owners_of:
  assumes "mode \<noteq> Off" "rows mod n = 0 \<or> pad"
  shows "owners n rows mode exact pad (\<lambda>k. projr (ownership k n rows mode exact pad))"
  using assms by (auto simp: owners_def ownership_def Let_def)




section \<open>A concrete group\<close>

definition row_sums :: "int list list \<Rightarrow> int list" where
  "row_sums ts = map (\<lambda>i. sum_list (map (\<lambda>t. t ! i) ts)) [0..<length (hd ts)]"

definition shard_env_demo :: "(int list, int) ps_env" where
  "shard_env_demo = \<lparr>pe_embed = id, pe_expand = (\<lambda>x _. x), pe_contract = (\<lambda>x _. map (\<lambda>v. 2 * v) x), pe_pre = (\<lambda>_ _ x. (x, x, x)),
     pe_fused = (\<lambda>_ _ _. row_quad (\<lambda>x r p c. (x + r, p, c, x + p))),
     pe_post = (\<lambda>_ _ x r p c. map (\<lambda>i. x ! i + r ! i) [0..<length x]), pe_attn = (\<lambda>_ k _. map (\<lambda>v. v * int k)),
     pe_mlp = (\<lambda>_ k. map (\<lambda>v. v + int k)), pe_norm = id, pe_reduce = row_sums,
     pe_scatter = (\<lambda>ts k. let q = length (hd ts) div length ts in take q (drop (k * q) (row_sums ts))), pe_zero = (\<lambda>_. 0)\<rparr>"

definition shard_layer_demo :: "nat \<Rightarrow> ps_layer" where
  "shard_layer_demo i = \<lparr>ly_idx = i, ly_total = 2, ly_n = 4, ly_mhc = True, ly_mtp = False,
     ly_o_proj = \<lparr>pl_reduce = True, pl_tp = 4, pl_bias = False\<rparr>, ly_mla = None, ly_kind = ''kda'', ly_prefix = ''layers'', ly_hidden = 1,
     ly_mlp = Inl \<lparr>pl_reduce = True, pl_tp = 4, pl_bias = False\<rparr>\<rparr>"

definition shard_model_demo :: ps_model where
  "shard_model_demo = \<lparr>md_start = 0, md_seq_parallel = False, md_layers = [shard_layer_demo 0, shard_layer_demo 1], md_aux = {1}\<rparr>"

definition shard_knobs_demo :: shard_knobs where
  "shard_knobs_demo = \<lparr>kn_mode = Shard, kn_exact = False, kn_min_rows = 2, kn_mixed = False, kn_check = False, kn_pad = True\<rparr>"

definition shard_ctx_demo :: ps_ctx where
  "shard_ctx_demo = \<lparr>cx_graph_mode = False, cx_ubatch = False,
     cx_metadata = Some [''layers'' \<mapsto> Some \<lparr>mt_prefills = 1, mt_prefill_tokens = 3, mt_decodes = 0, mt_spec = 0\<rparr>]\<rparr>"

definition shard_rt_demo :: "bool option \<Rightarrow> ps_rt" where
  "shard_rt_demo valid = \<lparr>rt_validated = valid, rt_bad = {}, rt_checked = {}, rt_kda = ''layers''\<rparr>"

lemma shard_demo_rowwise: "rowwise shard_env_demo"
  unfolding rowwise_def
  by (intro conjI exI [of _ "\<lambda>_ _ _ x r p c. (x + r, p, c, x + p)"] exI [of _ "\<lambda>_ _ x r _ _. x + r"] exI [of _ "\<lambda>_ v. 2 * v"])
    (simp_all add: shard_env_demo_def)

lemma shard_demo_keeps: "keeps_rows shard_env_demo"
  by (simp add: keeps_rows_def shard_env_demo_def)

lemma row_sums_reduces: "reduces_rows row_sums"
  unfolding reduces_rows_def
proof (intro allI impI)
  fix ts :: "int list list" and m
  assume ts: "ts \<noteq> []" "list_all (\<lambda>t. length t = m) ts"
  then have h: "length (hd ts) = m" by (cases ts) simp_all
  have "take j (row_sums ts) = row_sums (map (take j) ts)" if "j \<le> m" for j
    using that ts(1) h by (intro nth_equalityI) (simp_all add: row_sums_def hd_map o_def)
  then show "length (row_sums ts) = m \<and> (\<forall>j\<le>m. take j (row_sums ts) = row_sums (map (take j) ts))"
    using h by (simp add: row_sums_def)
qed

lemma shard_demo_scatters: "scatters shard_env_demo row_sums"
  unfolding scatters_def shard_env_demo_def
proof (intro allI impI)
  fix ts :: "int list list" and q k
  assume ts: "list_all (\<lambda>t. length t = length ts * q) ts" "k < length ts"
  have "0 < length ts" using ts(2) by (rule le_less_trans [OF le0])
  moreover have "length (hd ts) = length ts * q" using ts by (cases ts) simp_all
  ultimately have "length (hd ts) div length ts = q" by simp
  then show "pe_scatter \<lparr>pe_embed = id, pe_expand = (\<lambda>x _. x), pe_contract = (\<lambda>x _. map (\<lambda>v. 2 * v) x), pe_pre = (\<lambda>_ _ x. (x, x, x)),
     pe_fused = (\<lambda>_ _ _. row_quad (\<lambda>x r p c. (x + r, p, c, x + p))),
     pe_post = (\<lambda>_ _ x r p c. map (\<lambda>i. x ! i + r ! i) [0..<length x]), pe_attn = (\<lambda>_ k _. map (\<lambda>v. v * int k)),
     pe_mlp = (\<lambda>_ k. map (\<lambda>v. v + int k)), pe_norm = id, pe_reduce = row_sums,
     pe_scatter = (\<lambda>ts k. let q = length (hd ts) div length ts in take q (drop (k * q) (row_sums ts))), pe_zero = (\<lambda>_. 0)\<rparr> ts k =
    take q (drop (k * q) (row_sums ts))"
    by (simp add: Let_def)
qed

lemma shard_demo_valid: "validate_model shard_model_demo = Inr ''layers''"
  by (simp add: validate_model_def shard_model_demo_def shard_layer_demo_def tp_world_def)


section \<open>The check and padding\<close>

text \<open>On padded rows the gathered tensors have more rows than the chunk, which \<open>own_local\<close> refuses.\<close>

lemma check_raises:
  assumes own: "owners n rows mode exact pad ow" "0 < n" and env: "rowwise env" and odd: "rows mod n \<noteq> 0" "mode \<noteq> Comm"
    and parts: "\<And>k. k < n \<Longrightarrow> part (ow k) X (x k) \<and> part (ow k) R (r k) \<and> part (ow k) P (p k) \<and> part (ow k) C (c k)"
  shows "yields env n (\<lambda>k. check_fused env (ow k) l (x k) (r k) (p k) (c k)) (\<lambda>_. Inl RuntimeError)"
proof -
  have q: "n * cdiv rows n \<noteq> rows" using odd(1) by (metis mod_mult_self1_is_0)
  have len: "length (concat (map t [0..<n])) = n * cdiv rows n" if "\<And>k. k < n \<Longrightarrow> part (ow k) T (t k)" for t :: "nat \<Rightarrow> 'z list" and T
  proof -
    have "\<forall>y\<in>set (map t [0..<n]). length y = cdiv rows n" using part_length(2) [OF own(1) _ that] odd(2) by auto
    from length_concat_uniform [OF this] show ?thesis by simp
  qed
  let ?x = "concat (map x [0..<n])" and ?r = "concat (map r [0..<n])" and ?p = "concat (map p [0..<n])" and ?c = "concat (map c [0..<n])"
  have lens: "length ?x = n * cdiv rows n" "length ?r = n * cdiv rows n" "length ?p = n * cdiv rows n" "length ?c = n * cdiv rows n"
    by (rule len, use parts in blast)+
  obtain r1 p1 c1 x1 where out: "pe_fused env (ly_idx l) True (length ?x) ?x ?r ?p ?c = (r1, p1, c1, x1)"
    by (cases "pe_fused env (ly_idx l) True (length ?x) ?x ?r ?p ?c") blast
  have "length r1 = n * cdiv rows n"
    using env out lens unfolding rowwise_def by (auto simp: row_quad_def Let_def)
  then have bad: "own_local env (ow k) r1 = Inl RuntimeError" if "k < n" for k
    using q odd(2) owners_fields(2,3) [OF own(1) that] by (simp add: own_local_def)
  show ?thesis
    unfolding check_fused_def Let_def
    by (rule yields_bind [OF yields_coll refl], rule yields_bind [OF yields_coll refl], rule yields_bind [OF yields_coll refl],
        rule yields_bind [OF yields_coll refl], rule yields.finished) (simp add: answers_def out bad)
qed

lemma model_raises:
  assumes own: "owners n rows mode exact pad ow" "0 < n" and env: "rowwise env" "keeps_rows env"
    and lib: "reduces_rows (pe_reduce env)" "reduces_rows red" "scatters env red"
    and model: "validate_model m = Inr name" "layers_in_order m" "2 \<le> length (md_layers m)"
    and rows: "length (embeddings env ids embeds) = rows" and odd: "rows mod n \<noteq> 0" "mode \<noteq> Comm"
  shows "yields env n (\<lambda>k. model_forward env (ow k) True m ids positions embeds) (\<lambda>_. Inl RuntimeError)"
proof -
  obtain l l2 ls where ls: "md_layers m = l # l2 # ls" using model(3) by (cases "md_layers m"; cases "tl (md_layers m)") auto
  have start: "md_start m = 0" and red: "pl_reduce (ly_o_proj l)" "mlp_reduces l"
    using validated_model [OF model(1)] ls by simp_all
  let ?X = "embeddings env ids embeds"
  have enters: "enters (ow k) ?X None ?X None" if "k < n" for k
    using rows owners_fields(2) [OF own(1) that] by (simp add: enters_def state_part_def)
  obtain X ST x st where shard: "yields env n (\<lambda>k. layer_forward env (ow k) False positions l ?X None) (\<lambda>k. Inr (x k, st k, False))"
    and parts: "\<And>k. k < n \<Longrightarrow> part (ow k) X (x k) \<and> state_part (ow k) ST (st k)" and last: "ST = None \<longleftrightarrow> ly_idx l = ly_total l - 1"
    using layer_yields [OF own env lib red _ enters, of False positions] by auto
  have "ST \<noteq> None" using last model(2) by (simp add: layers_in_order_def ls)
  then obtain R P C where ST: "ST = Some (R, P, C)" by (cases ST) auto
  define r p c where rpc: "r = (\<lambda>k. fst (the (st k)))" "p = (\<lambda>k. fst (snd (the (st k))))" "c = (\<lambda>k. snd (snd (the (st k))))"
  have st: "st k = Some (r k, p k, c k) \<and> part (ow k) X (x k) \<and> part (ow k) R (r k) \<and> part (ow k) P (p k) \<and> part (ow k) C (c k)"
    if "k < n" for k
    using parts [OF that] ST by (auto simp: state_part_def rpc split: option.splits prod.splits)
  have "yields env n (\<lambda>k. check_fused env (ow k) l2 (x k) (r k) (p k) (c k)) (\<lambda>_. Inl RuntimeError)"
    by (rule check_raises [OF own env(1) odd, where X = X and R = R and P = P and C = C]) (use st in blast)
  then have "yields env n (\<lambda>k. pbind (check_fused env (ow k) l2 (x k) (r k) (p k) (c k))
      (\<lambda>((r, p, c, y), bad). pbind (own_gather (ow k) y) (\<lambda>y. Ret ((r, p, c), y, bad)))) (\<lambda>_. Inl RuntimeError)"
    by (rule yields_bind_err) simp
  then have "yields env n (\<lambda>k. layer_start env (ow k) True l2 (x k) (st k)) (\<lambda>_. Inl RuntimeError)"
    by (rule yields_cong) (use st in \<open>simp add: layer_start_def\<close>)
  then have "yields env n (\<lambda>k. layer_forward env (ow k) True positions l2 (x k) (st k)) (\<lambda>_. Inl RuntimeError)"
    unfolding layer_forward_def by (rule yields_bind_err) simp
  then have rest: "yields env n (\<lambda>k. layers_forward env (ow k) (Some 1) positions (md_aux m) (l2 # ls) 1 (x k) (st k) auxs False) (\<lambda>_. Inl RuntimeError)"
    for auxs by (simp add: yields_bind_err)
  have first: "yields env n (\<lambda>k. layer_forward env (ow k) (Some 1 = Some (0 :: nat)) positions l ?X None) (\<lambda>k. Inr (x k, st k, False))"
    using shard by simp
  have tail: "yields env n (\<lambda>k. pbind (if 0 + 1 \<in> md_aux m then pbind (own_gather (ow k) (aux_owned env (ow k) l (x k) (st k))) (\<lambda>a. Ret ([] @ [a]))
      else Ret []) (\<lambda>auxs. layers_forward env (ow k) (Some 1) positions (md_aux m) (l2 # ls) (0 + 1) (x k) (st k) auxs (False \<or> False)))
      (\<lambda>_. Inl RuntimeError)"
    by (rule yields_bind, rule aux_yields [OF own env(1) parts], assumption, rule refl) (use rest in simp)
  have "yields env n (\<lambda>k. layers_forward env (ow k) (Some 1) positions (md_aux m) (l # l2 # ls) 0 ?X None [] False) (\<lambda>_. Inl RuntimeError)"
    unfolding layers_forward.simps(2) [of env _ _ _ _ l] by (rule yields_bind, rule first, rule refl, unfold prod.case, rule tail)
  then show ?thesis by (simp add: model_forward_def ls start)
qed

text \<open>
  C40. Row check: with the check and padding both on, the first sharded chunk whose row count the ranks do not divide evenly raises on
  every rank, where the check is meant to compare and go on.
\<close>

theorem check_with_padding_raises:
  fixes env :: "('i, 'v) ps_env" and red :: "'v list list \<Rightarrow> 'v list"
  assumes "rowwise env" and "keeps_rows env" and "reduces_rows (pe_reduce env)" and "reduces_rows red" and "scatters env red"
    and "layers_in_order m" and "2 \<le> length (md_layers m)" and "rt_sound m rt" and "length (embeddings env ids embeds) = length positions"
    and "kn_check kn" and "call_mode kn ab = Shard" and "length positions mod tp_world \<noteq> 0" and "length positions \<notin> rt_checked rt"
    and "rt_validated rt = Some True" and "candidate_context kn ab rt (length positions) intermediate tracing ctx = Some c"
    and "pure_or_mixed_prefill kn (cx_metadata c) (rt_kda rt) (length positions)"
  shows "run_group env (map (\<lambda>k. forward_call env kn ab k tp_world rt m ids positions intermediate tracing ctx embeds) [0..<tp_world]) =
    Some (replicate tp_world (Inl RuntimeError))"
proof -
  let ?n = tp_world and ?rows = "length positions"
  have n: "0 < ?n" by (simp add: tp_world_def)
  have pad: "call_pad kn ab" using assms(12,15) by (auto simp: candidate_context_def split: if_splits)
  define ow where "ow = (\<lambda>k. projr (ownership k ?n ?rows Shard (kn_exact kn) True))"
  have own: "owners ?n ?rows Shard (kn_exact kn) True ow" unfolding ow_def by (rule owners_of) simp_all
  have valid: "validate_model m = Inr (rt_kda rt)" using assms(8,14) by (simp add: rt_sound_def)
  let ?rt = "rt\<lparr>rt_checked := insert ?rows (rt_checked rt)\<rparr>"
  have "yields env ?n (\<lambda>k. pbind (model_forward env (ow k) True m ids positions embeds) (\<lambda>(out, bad).
      Ret (if bad then ?rt\<lparr>rt_bad := insert ?rows (rt_bad ?rt)\<rparr> else ?rt, out))) (\<lambda>_. Inl RuntimeError)"
    by (rule yields_bind_err [OF model_raises [OF own n assms(1-5) valid assms(6,7,9,12)]]) simp_all
  moreover have "forward_call env kn ab k ?n rt m ids positions intermediate tracing ctx embeds =
      pbind (model_forward env (ow k) True m ids positions embeds) (\<lambda>(out, bad).
        Ret (if bad then ?rt\<lparr>rt_bad := insert ?rows (rt_bad ?rt)\<rparr> else ?rt, out))" if "k < ?n" for k
  proof -
    have "ownership k ?n ?rows Shard (kn_exact kn) True = Inr (ow k)" using own that by (simp add: owners_def)
    then show ?thesis using assms(10-16) pad by (simp add: forward_call_def shard_call_def Let_def)
  qed
  ultimately have "yields env ?n (\<lambda>k. forward_call env kn ab k ?n rt m ids positions intermediate tracing ctx embeds) (\<lambda>_. Inl RuntimeError)"
    by (rule yields_cong)
  then show ?thesis by (rule run_replicate [OF n])
qed

theorem check_with_padding_raises_witness:
  "run_group shard_env_demo (map (\<lambda>k. forward_call shard_env_demo (shard_knobs_demo\<lparr>kn_check := True\<rparr>) None k tp_world (shard_rt_demo (Some True))
     shard_model_demo [10, 20, 30, 40, 50] [0, 1, 2, 3, 4] False False (Some shard_ctx_demo) None) [0..<tp_world]) =
   Some (replicate tp_world (Inl RuntimeError))"
proof (rule check_with_padding_raises [OF shard_demo_rowwise shard_demo_keeps _ row_sums_reduces shard_demo_scatters])
  show "reduces_rows (pe_reduce shard_env_demo)" using row_sums_reduces by (simp add: shard_env_demo_def)
  show "layers_in_order shard_model_demo" "2 \<le> length (md_layers shard_model_demo)"
    by (simp_all add: layers_in_order_def shard_model_demo_def shard_layer_demo_def)
  show "rt_sound shard_model_demo (shard_rt_demo (Some True))" using shard_demo_valid by (simp add: rt_sound_def shard_rt_demo_def)
  show "length (embeddings shard_env_demo [10, 20, 30, 40, 50] None) = length [0, 1, 2, 3, 4 :: int]"
    by (simp add: embeddings_def shard_env_demo_def)
  show "candidate_context (shard_knobs_demo\<lparr>kn_check := True\<rparr>) None (shard_rt_demo (Some True)) (length [0, 1, 2, 3, 4 :: int]) False False
      (Some shard_ctx_demo) = Some shard_ctx_demo"
    by (simp add: candidate_context_def shard_knobs_demo_def shard_rt_demo_def shard_ctx_demo_def call_mode_def call_pad_def)
qed (simp_all add: shard_knobs_demo_def shard_rt_demo_def shard_ctx_demo_def call_mode_def tp_world_def pure_or_mixed_prefill_def)

end
