(* ===== verification/Spec2Isabelle.thy ===== *)
theory Spec2Isabelle
  imports Lookup_Sched Lookup_Hooks Lookup_Ingest Kv_Coordinator_Props Draft_Trunc Prefill_Sched Safetensors Cert_Exact
    Parser_Props Roce_Routing Early_Plan Kv_Registry Verify_Cut Dev_Fix
    K_Warm Ds_Split Min_Tokens Ab_Harness Shard_Props
begin

text \<open>
  The serving stack of GLM-5.3-Flash on four DGX Spark machines, as far as the repository's own Python decides what it
  does. Under \<open>src/overlay\<close> the repository replaces or wraps parts of vLLM (scheduler, speculative decoding, KV-cache
  coordination, the output parser, the language-model head); under \<open>src/roce\<close> it routes the tensor-parallel collectives
  over RDMA. This library models these parts from the source and proves what makes them correct.

  \<^bold>\<open>How the parts interact.\<close> On every engine step the scheduler (\<open>Adaptive_Sched\<close>, with the cadence of \<open>Prefill_Sched\<close>)
  picks what runs and how many draft tokens each request gets; the lookup planner (\<open>Lookup_Plan\<close> over \<open>Lookup_Index\<close>)
  may replace neural drafts by text found in the request's own history; the truncation policy (\<open>Draft_Trunc\<close>) cuts the
  scheduled drafts when their confidence is low, on the host or, for a single request, by a kernel that switches captured graphs
  (\<open>Dev_Select\<close>, \<open>Dev_Fix\<close>), and the verify cut (\<open>Verify_Cut\<close>) leaves hopeless drafts unverified. Admission of a request asks the coordinator (\<open>Kv_Coordinator\<close>) how much of
  its prompt is cached. The model's logits go through the certified head (\<open>Cert_Head\<close>), which reads a small copy of the
  weights (\<open>Fp_Formats\<close>, \<open>Safetensors\<close>) and falls back when its bound does not decide; batches that are all greedy take the
  vocabulary-parallel selection (\<open>Target_Argmax\<close>), which \<open>Min_Tokens\<close> widens to batches with minimum lengths. Before each forward the sparse-attention planner gets its row lengths from
  the host (\<open>Early_Plan\<close>, \<open>Kv_Registry\<close>). Long prefill chunks are split by rows over the
  ranks (\<open>Prefill_Shard\<close>). Collectives between the ranks go
  through the adapter (\<open>Roce_Adapter\<close>) to the runtime (\<open>Roce_Runtime\<close>, \<open>Roce_Kernel\<close>) or to NCCL. The text that comes out is
  split into reasoning, content and tool calls by the streaming parser (\<open>Parser_Facade\<close>, \<open>Parser_Stream\<close>).

  \<^bold>\<open>Shared theories.\<close>
  \<^item> \<open>Prelude\<close>: Python errors as the left of a sum, sequencing of fallible steps, Python indexing and slices, list facts,
    the collections \<open>slice_simps\<close> and \<open>preserved\<close>.
  \<^item> \<open>Py_Str\<close>, \<open>Py_Json\<close>: the string operations, number parsers and JSON coercions the configuration readers use; an
    environment is a partial map. Characters are Latin-1; the JSON parser itself is a parameter.

  \<^bold>\<open>Lookup drafting\<close> (\<open>src/overlay/glm_lookup_draft.py\<close>).
  \<^item> \<open>Lookup_Tiers\<close>: the 64-bit n-gram keys as words and the frozen sorted arrays, built by the numpy path and by the scalar
    path, merged newest first. \<open>Lookup_Index\<close>: \<open>ContextIndex\<close>: hot dict, freeze, push, bulk ingest, sync, reset, match.
  \<^item> \<open>Lookup_Ingest\<close>, \<open>Lookup_Query\<close>: every way of adding tokens keeps the index well formed and refines the abstract map
    from n-grams to their latest end (through the locale \<open>position_index\<close>, interpreted on the index); a reported match is
    real and the latest one, a miss is a key collision, a draft of a valid plan repeats committed tokens.
  \<^item> \<open>Lookup_Plan\<close>, \<open>Lookup_Plan_Props\<close>: configuration, cost model, statistics, the gate, \<open>LookupPlanner\<close>; the source a plan
    names stays inside the history, the gate is optimal among the allowed candidates, plans are consistent; the sticky source
    survives a reset (a finding). \<open>Lookup_Sched\<close>: \<open>LookupScheduler\<close>, the planner put on the levers scheduler: boot and control keys,
    the payload of a step, attribution of its result; rows agree with placeholders, lookup steps teach the adaptive policy
    nothing, and a plan that is not on leaves no trace.
  \<^item> \<open>Lookup_Hooks\<close> (\<open>glm_lookup_hooks.py\<close>): the worker side: the kernel that checks and writes the looked-up ids does what
    \<open>replay_check\<close> and \<open>lookup_draft\<close> of the scheduler side say, and a plan only reaches the \<open>propose\<close> of its own step.

  \<^bold>\<open>Draft lengths.\<close>
  \<^item> \<open>Adaptive_K\<close> (\<open>adaptive_k_scheduler.py\<close>): the averages with hysteresis over exact rationals, the ring of drafted
    requests, the lengths. \<open>Adaptive_Sched\<close> (\<open>adaptive_k_scheduler.py\<close>, \<open>adaptive_draft_scheduler.py\<close>,
    \<open>spec_probe_scheduler.py\<close>, \<open>glm_levers_sched.py\<close>): the hooks of the scheduler classes and the control file, with the locale
    \<open>length_assigner\<close> for what a scheduler may assume of the policy; reachable policies keep their invariant, hooks change
    nothing but placeholders, a control document of any content leaves a usable state.
  \<^item> \<open>Draft_Trunc\<close> (\<open>glm_draft_trunc.py\<close>): policy, eligibility, truncation and the worker as a step relation; its ring never
    loses a slot that is still to be read.
  \<^item> \<open>K_Warm\<close> (\<open>glm_k_warm.py\<close>): the average of a young request is the mean of what was observed, with the seed as a weighted
    prior, until the deployed average takes over.
  \<^item> \<open>Dev_Select\<close> (\<open>glm_devselect.py\<close>): the kernel that takes the same decision on the device, the parent graph as the bodies its
    predicates let run, and the price both sides share; over any interleaving of device steps, host decisions and variants the
    lengths are those of one run of the policy. \<open>Dev_Fix\<close> (same file): what is patched in the buffers before a shorter body runs;
    the fused kernel does what the torch operations do, and the plan it copies is the staged one wherever it is read.

  \<^bold>\<open>Prefill chunks over the ranks\<close> (\<open>glm_prefill_shard.py\<close>, forward of \<open>glm5next_model.py\<close>). \<open>Prefill_Shard\<close>: the programs of the
  ranks as data with explicit collectives, a group that only advances when all ranks stand at the same one, ownership of rows, the
  sharded and the stock forward, the gates. \<open>Shard_Group\<close>: groups that get through. \<open>Shard_Props\<close>: ranks never part, and sharded rows
  are the stock rows, given kernels that work row by row; the check fails on padded chunks (a finding).

  \<^bold>\<open>Scheduling and caching.\<close>
  \<^item> \<open>Prefill_Sched\<close> (\<open>glm_prefill_sched.py\<close>, \<open>glm_mamba_align_fix.py\<close>): cadence, holds, short admissions, coalescing, and the
    patcher of vLLM's source; no starvation, budgets kept, patches exact.
  \<^item> \<open>Kv_Coordinator\<close>, \<open>Kv_Coordinator_Props\<close> (\<open>kv_cache_coordinator.py\<close>): the three coordinators over managers given by a
    record of functions. The fixed-point search is recursion on the candidate length, which only shrinks; \<open>find_passes\<close> is the
    same loop with a bound of one pass more than the asked length, shown to be enough.

  \<^bold>\<open>Numbers and the head.\<close>
  \<^item> \<open>Fp_Formats\<close>, \<open>Safetensors\<close> (\<open>fpfmt.py\<close>): bf16 on 32-bit patterns, e4m3, e2m1, e8m0, nibbles, the file format.
  \<^item> \<open>Cert_Head\<close>, \<open>Cert_Round\<close>, \<open>Cert_Props\<close>, \<open>Cert_Select\<close>, \<open>Cert_Exact\<close> (\<open>cert_math.py\<close>): reals with explicit rounding, an
    order on the head's values by \<open>instantiation\<close>; the interval of a token contains its stock logit, pruning never loses the
    winner, and the selection over the ranks equals the one over the whole vocabulary.

  \<^item> \<open>Target_Argmax\<close> (\<open>glm_target_argmax.py\<close>, greedy branches of \<open>rejection_sampler_utils.py\<close> and \<open>gumbel.py\<close>): tiles as lists of
    lanes, both local maxima, the pairs over ranks, verification in both forms, dispatch. The best tile holds the first maximum of
    the row, the ranks likewise; each verification emits the targets up to the first rejected draft, as the stock kernels do.
    \<open>Min_Tokens\<close> (\<open>glm_levers.py\<close>): batches with minimum lengths on that path; masking a rank's shard, by kernel or by tensor
    operations, is masking the row.
  \<^item> \<open>Ds_Split\<close> (\<open>glm_ds_split.py\<close>): replicated layers whose columns are split over the ranks and gathered. The matrix product, its
    rounding included, and the gather are parameters. The ranks take the same branch, and get the stock product where the
    check at start-up decides for all inputs.
  \<^item> \<open>Verify_Cut\<close> (\<open>glm_verify_cut.py\<close>): how many drafts of a request are worth verifying, the row map in front of the experts with
    its kernel and its Python reference, and the hooks; the cut shortens what a step emits and changes no token.

  \<^bold>\<open>Switching flags in a running engine.\<close> \<open>Ab_Harness\<close> (\<open>glm_ab.py\<close>): flags are read through the variant being captured or run,
  CUDA graph managers hold a set of graphs per variant, a switch moves every rank. The group is a transition relation; what a
  capture records is a function of the flags it reads, and replays match the flags in every reachable group.

  \<^bold>\<open>Planning of attention lengths.\<close>
  \<^item> \<open>Kv_Lens\<close> (\<open>glm_kv_lens_exact.py\<close>, \<open>glm_early_plan.py\<close>): the body that reads the device positions, with torch's size checks,
    and the two host computations from the computed tokens of each request, which give the same lengths.
  \<^item> \<open>Early_Plan\<close> (\<open>glm_early_plan.py\<close>): core, patched body and wrappers as functions on their state inside a transition relation
    for the runner; every build in a reachable runner gets the deployed lengths. The fence of the planner's staging memory over a
    stream whose work runs in order: no upload is overwritten unread.
  \<^item> \<open>Kv_Registry\<close> (\<open>glm_kv_lens_exact.py\<close>): the records of past steps, the tracker, unfolding, healing and pruning; the mirror
    refines the device: what it answers is the device's number of computed tokens, and where it cannot know it falls back.

  \<^bold>\<open>Output parser\<close> (\<open>abstract_parser.py\<close>). \<open>Parser_Facade\<close>: configuration, whole outputs, tool-call ids, structural tags.
  \<open>Parser_Stream\<close>: one delta through prompt check, reasoning, transition, tools, finish and flush. \<open>Parser_Props\<close>: phases
  move forward, a tool parser that keeps its own state sees one coherent text, reasoning that was not asked for never leaves.
  The reasoning and tool parsers are a record of functions (\<open>facade\<close>); what a property needs of them is a hypothesis.

  \<^bold>\<open>Collectives over RoCE.\<close>
  \<^item> \<open>Roce_Kernel\<close> (\<open>roce_oneshot.py\<close>, \<open>_allgather_cute.py\<close>): the launch grid, the arrival counters as 32-bit words, the strided
    copy with its writes as a list, both host paths of an all-gather. \<open>Roce_Gather\<close>: any order of the writes gives the
    concatenation, and the two paths give the same bytes.
  \<^item> \<open>Roce_Runtime\<close> (\<open>roce_oneshot.py\<close>, \<open>Layout\<close> of \<open>_proxy.py\<close> with \<open>roce_layout\<close> of \<open>_roce_proxy.c\<close>): discovery, set-up with
    its exchanges, eligibility, \<open>all_reduce\<close> and \<open>all_gather\<close> as state-passing calls that leave their state also when they
    raise, ordering over streams as a log of actions, capture, health, closing.
  \<^item> \<open>Roce_Order\<close>: happens-before on the log, a Hoare triple for the calls, and the invariant that launches are ordered in every
    reachable runtime; the shared scratch is outside that order, and one path returns it to the caller (findings).
    \<open>Roce_Setup\<close>: which block limits pass, the counters of accepted launches, the bounds of the region, a uniform set-up.
  \<^item> \<open>Roce_Adapter\<close> (\<open>adapter.py\<close>, \<open>install.py\<close>, \<open>glm_roce_gather_route.py\<close>): byte sizes, the vote, the construction over the
    whole group, routing in three layers. \<open>Roce_Routing\<close>: ranks end alike and route alike, a failed runtime is fatal, the row
    rule touches nothing but large row gathers, the two parsers of sizes agree.

  \<^bold>\<open>Conventions.\<close> Scheduling floats are exact rationals; rounding is modelled where a bound depends on it (\<open>Cert_Round\<close>,
  \<open>Fp_Formats\<close>). Machine integers are words where they wrap (n-gram keys, arrival counters, bit patterns). Loops are structural
  recursion or recursion on a measure; only \<open>find_passes\<close> counts passes. Inputs of the environment (devices, clocks, the
  capture state of a stream, what a thread or a peer answers) are arguments. Properties with hypotheses have a witness
  at a concrete input, named after them.

  \<^bold>\<open>Not modelled.\<close>
  \<^item> Code over device tensors: the Triton, CUDA and CuTe kernels with their launchers (\<open>glm_flashkda.py\<close>,
    \<open>glm_sparse_mla_kernel.py\<close>, \<open>mla_indexer.py\<close>, \<open>glm_cert_head.py\<close> and the like; of \<open>rejection_sampler_utils.py\<close> and \<open>gumbel.py\<close> the sampling branches), the modules of the model
    (\<open>glm5next_model.py\<close> beyond its forward, and its layers) and the library under \<open>src/roce/b12x/b12x/_lib\<close>: what they compute is device floating
    point, and most of their meaning is in PyTorch, Triton and CuTe.
  \<^item> Import hooks and launch glue (\<open>sitecustomize.py\<close>, the \<open>hooks\<close> files, \<open>boot.py\<close>): they patch modules of vLLM that are not
    in the repository.
  \<^item> Of the collectives: the reduction kernel, the wait for the peers' flags, the proxy thread and the RDMA transport.
  \<^item> Log lines, statistics for display, timing reports, benchmarks, scripts, profiles and documentation.
\<close>

end
